(* ===== verification/Prelude.thy ===== *)
theory Prelude
  imports Main "HOL-Library.Word"
begin

text \<open>
  Shared vocabulary of the development: Rust's \<^verbatim>\<open>Result\<close>, byte strings, big-endian
  conversions, checked machine arithmetic on \<^verbatim>\<open>usize\<close>/\<^verbatim>\<open>u64\<close> (the
  host is a 64-bit one), ASCII literals, and the list lemmas (\<open>take\<close>/\<open>drop\<close>, chunks
  of a fixed size) that the component theories use.  A Rust panic is the value \<open>None\<close> of an
  option; a Rust \<^verbatim>\<open>Err\<close> is the constructor \<open>Err\<close>.
\<close>

unbundle bit_operations_syntax

named_theorems be_simps \<open>conversions between machine words and their big-endian bytes\<close>
named_theorems chunk_simps \<open>splitting a byte string into chunks of a fixed size\<close>

type_synonym byte = "8 word"
type_synonym bytes = "8 word list"
type_synonym u16 = "16 word"
type_synonym u32 = "32 word"
type_synonym u64 = "64 word"

subsection \<open>Results\<close>

datatype (discs_sels) ('a, 'e) result = Ok (the_ok: 'a) | Err (the_err: 'e)

fun bind_result :: "('a, 'e) result \<Rightarrow> ('a \<Rightarrow> ('b, 'e) result) \<Rightarrow> ('b, 'e) result" where
  "bind_result (Ok x) f = f x"
| "bind_result (Err e) f = Err e"

lemma bind_result_eq_Ok [simp]:
  "bind_result r f = Ok y \<longleftrightarrow> (\<exists>x. r = Ok x \<and> f x = Ok y)"
  by (cases r) auto

lemma bind_result_eq_Err:
  "bind_result r f = Err e \<longleftrightarrow> r = Err e \<or> (\<exists>x. r = Ok x \<and> f x = Err e)"
  by (cases r) auto

lemma bind_result_assoc:
  "bind_result (bind_result r f) g = bind_result r (\<lambda>x. bind_result (f x) g)"
  by (cases r) auto

fun ok_or :: "'e \<Rightarrow> 'a option \<Rightarrow> ('a, 'e) result" where
  "ok_or e None = Err e"
| "ok_or e (Some x) = Ok x"

lemma ok_or_eq_Ok [simp]: "ok_or e x = Ok y \<longleftrightarrow> x = Some y"
  by (cases x) auto

subsection \<open>Checked arithmetic\<close>

definition usize_limit :: nat where
  "usize_limit = 2 ^ 64"

definition checked_add_usize :: "nat \<Rightarrow> nat \<Rightarrow> nat option" where
  "checked_add_usize a b = (if a + b < usize_limit then Some (a + b) else None)"

definition checked_mul_u64 :: "nat \<Rightarrow> nat \<Rightarrow> nat option" where
  "checked_mul_u64 a b = (if a * b < 2 ^ 64 then Some (a * b) else None)"

lemma checked_add_usize_eq_Some [simp]:
  "checked_add_usize a b = Some c \<longleftrightarrow> a + b < usize_limit \<and> c = a + b"
  by (auto simp: checked_add_usize_def)

lemma checked_mul_u64_eq_Some [simp]:
  "checked_mul_u64 a b = Some c \<longleftrightarrow> a * b < 2 ^ 64 \<and> c = a * b"
  by (auto simp: checked_mul_u64_def)

subsection \<open>Big-endian bytes\<close>

text \<open>\<open>be_bytes k n\<close> is \<^verbatim>\<open>to_be_bytes\<close> of a \<open>k\<close>-byte integer, \<open>from_be\<close> is
  \<^verbatim>\<open>from_be_bytes\<close>.\<close>

fun be_bytes :: "nat \<Rightarrow> nat \<Rightarrow> bytes" where
  "be_bytes 0 n = []"
| "be_bytes (Suc k) n = word_of_nat (n div 256 ^ k) # be_bytes k n"

fun from_be :: "bytes \<Rightarrow> nat" where
  "from_be [] = 0"
| "from_be (b # bs) = unat b * 256 ^ length bs + from_be bs"

lemma length_be_bytes [simp]: "length (be_bytes k n) = k"
  by (induction k) auto

lemma from_be_append: "from_be (xs @ ys) = from_be xs * 256 ^ length ys + from_be ys"
  by (induction xs) (auto simp: algebra_simps power_add)

lemma unat_byte_of_nat [simp]: "unat (word_of_nat n :: byte) = n mod 256"
  by (simp add: unat_of_nat)

lemma unat_byte_less [simp]: "unat (b :: byte) < 256"
  using unsigned_less [of b, where ?'a = nat] by simp

lemma unat_byte_le [simp]: "unat (b :: byte) \<le> 255"
  using unat_byte_less [of b] by linarith

lemma from_be_less [be_simps]: "from_be bs < 256 ^ length bs"
proof (induction bs)
  case (Cons b bs)
  have "unat b * 256 ^ length bs \<le> 255 * 256 ^ length bs"
    using unat_byte_less [of b] by (intro mult_le_mono1) linarith
  with Cons have "unat b * 256 ^ length bs + from_be bs < 255 * 256 ^ length bs + 256 ^ length bs"
    by linarith
  then show ?case by simp
qed simp

lemma from_be_be_bytes [be_simps]: "from_be (be_bytes k n) = n mod 256 ^ k"
proof (induction k)
  case (Suc k)
  have "n mod 256 ^ Suc k = n mod (256 ^ k * 256)" by (simp add: mult.commute)
  also have "\<dots> = 256 ^ k * (n div 256 ^ k mod 256) + n mod 256 ^ k"
    by (rule mod_mult2_eq)
  finally show ?case using Suc by (simp add: mult.commute)
qed simp

lemma be_bytes_mod: "be_bytes k (n mod 256 ^ m) = be_bytes k n" if "k \<le> m"
  using that
proof (induction k)
  case (Suc k)
  have "n mod 256 ^ m div 256 ^ k mod 256 = n div 256 ^ k mod 256"
  proof -
    have m: "(256::nat) ^ m = 256 ^ k * 256 ^ (m - k)" using Suc.prems by (simp flip: power_add)
    have "n mod 256 ^ m div 256 ^ k = n div 256 ^ k mod 256 ^ (m - k)"
      by (simp add: m mod_mult2_eq)
    moreover have "(256::nat) dvd 256 ^ (m - k)" using Suc.prems by (simp add: dvd_power)
    ultimately show ?thesis by (simp add: mod_mod_cancel)
  qed
  then have "(word_of_nat (n mod 256 ^ m div 256 ^ k) :: byte) = word_of_nat (n div 256 ^ k)"
    by (intro word_unat_eq_iff [THEN iffD2]) simp
  with Suc show ?case by simp
qed simp

lemma be_bytes_from_be [be_simps]: "be_bytes (length bs) (from_be bs) = bs"
proof (induction bs)
  case (Cons b bs)
  have "from_be bs < 256 ^ length bs" by (rule from_be_less)
  then have hd: "from_be (b # bs) div 256 ^ length bs = unat b" by simp
  have "be_bytes (length bs) (from_be (b # bs))
      = be_bytes (length bs) (from_be (b # bs) mod 256 ^ length bs)"
    by (simp only: be_bytes_mod [OF le_refl])
  also have "from_be (b # bs) mod 256 ^ length bs = from_be bs"
    using from_be_less [of bs] by simp
  finally have tl: "be_bytes (length bs) (from_be (b # bs)) = bs" using Cons.IH by simp
  have "be_bytes (length (b # bs)) (from_be (b # bs))
      = word_of_nat (from_be (b # bs) div 256 ^ length bs)
        # be_bytes (length bs) (from_be (b # bs))" by simp
  then show ?case unfolding hd tl by simp
qed simp

lemma be_bytes_inj: "be_bytes k m = be_bytes k n \<Longrightarrow> m < 256 ^ k \<Longrightarrow> n < 256 ^ k \<Longrightarrow> m = n"
  by (metis from_be_be_bytes mod_less)

text \<open>The word types' own conversions.\<close>

definition u16_to_be :: "u16 \<Rightarrow> bytes" where "u16_to_be w = be_bytes 2 (unat w)"
definition u32_to_be :: "u32 \<Rightarrow> bytes" where "u32_to_be w = be_bytes 4 (unat w)"
definition u64_to_be :: "u64 \<Rightarrow> bytes" where "u64_to_be w = be_bytes 8 (unat w)"
definition u16_from_be :: "bytes \<Rightarrow> u16" where "u16_from_be bs = word_of_nat (from_be bs)"
definition u32_from_be :: "bytes \<Rightarrow> u32" where "u32_from_be bs = word_of_nat (from_be bs)"
definition u64_from_be :: "bytes \<Rightarrow> u64" where "u64_from_be bs = word_of_nat (from_be bs)"

lemma length_to_be [simp]:
  "length (u16_to_be a) = 2" "length (u32_to_be b) = 4" "length (u64_to_be c) = 8"
  by (simp_all add: u16_to_be_def u32_to_be_def u64_to_be_def)

lemma u32_from_to_be [be_simps]: "u32_from_be (u32_to_be w) = w"
  using unsigned_less [of w, where ?'a = nat] by (simp add: u32_from_be_def u32_to_be_def from_be_be_bytes)

lemma u64_from_to_be [be_simps]: "u64_from_be (u64_to_be w) = w"
  using unsigned_less [of w, where ?'a = nat] by (simp add: u64_from_be_def u64_to_be_def from_be_be_bytes)

lemma u16_from_to_be [be_simps]: "u16_from_be (u16_to_be w) = w"
  using unsigned_less [of w, where ?'a = nat] by (simp add: u16_from_be_def u16_to_be_def from_be_be_bytes)

lemma u32_to_from_be [be_simps]: "length bs = 4 \<Longrightarrow> u32_to_be (u32_from_be bs) = bs"
  using from_be_less [of bs] be_bytes_from_be [of bs]
  by (simp add: u32_from_be_def u32_to_be_def unat_of_nat)

lemma u32_from_be_inj:
  "length xs = 4 \<Longrightarrow> length ys = 4 \<Longrightarrow> u32_from_be xs = u32_from_be ys \<longleftrightarrow> xs = ys"
  by (metis u32_to_from_be)

subsection \<open>Bit fields as arithmetic\<close>

lemma push_or_add: "b < 2 ^ k \<Longrightarrow> push_bit k a OR b = a * 2 ^ k + (b :: nat)"
proof -
  assume "b < 2 ^ k"
  then have b: "take_bit k b = b" by (simp add: take_bit_nat_eq_self_iff)
  have "push_bit k a AND take_bit k b = 0"
    by (auto simp: bit_eq_iff bit_simps)
  then have "push_bit k a OR b = push_bit k a + b"
    by (simp add: b disjunctive_add_eq_or)
  then show ?thesis by (simp add: push_bit_eq_mult)
qed

lemma mask_zero_iff:
  fixes w :: "'w::len word"
  assumes "n < LENGTH('w)"
  shows "w AND (push_bit n 1 - 1) = 0 \<longleftrightarrow> unat w mod 2 ^ n = 0"
proof -
  have "w AND (push_bit n 1 - 1) = take_bit n w"
    by (simp add: take_bit_eq_mask mask_eq_exp_minus_1 push_bit_of_1)
  then show ?thesis
    by (metis take_bit_eq_mod unsigned_take_bit_eq unsigned_0 unsigned_eq_0_iff)
qed

lemma take_bit_unat [simp]: "take_bit LENGTH('w) (unat (w :: 'w::len word)) = unat w"
  using unsigned_less [of w, where ?'a = nat] by (simp add: take_bit_nat_eq_self_iff)

lemma unat_drop_bit: "unat (drop_bit n (w :: 'w::len word)) = unat w div 2 ^ n"
proof -
  have "unat (drop_bit n w) = drop_bit n (unat w)" by (simp only: unsigned_drop_bit_eq take_bit_unat)
  then show ?thesis by (simp add: drop_bit_eq_div)
qed

lemma unat_drop_mask: "unat (drop_bit n (w :: 'w::len word) AND mask m) = unat w div 2 ^ n mod 2 ^ m"
proof -
  have "unat (drop_bit n w AND mask m) = take_bit m (unat (drop_bit n w))"
    by (simp only: take_bit_eq_mask [symmetric] unsigned_take_bit_eq)
  then show ?thesis by (simp only: unat_drop_bit take_bit_eq_mod)
qed

lemma unat_ucast_byte [simp]:
  "8 \<le> LENGTH('w::len) \<Longrightarrow> unat (ucast (b :: byte) :: 'w word) = unat b"
proof -
  assume "8 \<le> LENGTH('w)"
  then have "(2::nat) ^ 8 \<le> 2 ^ LENGTH('w)" by (rule power_increasing) simp
  with unat_byte_less [of b] have "unat b < 2 ^ LENGTH('w)" by (simp del: unat_byte_less)
  then show ?thesis by (simp only: unsigned_ucast_eq take_bit_nat_eq_self)
qed

lemma unat_ucast_small:
  "unat n < 2 ^ LENGTH('a) \<Longrightarrow> unat (ucast (n :: 'b::len word) :: 'a::len word) = unat n"
  by (simp only: unsigned_ucast_eq take_bit_nat_eq_self)

lemma ucast_ucast_small:
  assumes "unat n < 2 ^ LENGTH('a)"
  shows "ucast (ucast (n :: 'b::len word) :: 'a::len word) = n"
proof -
  have "unat (ucast (ucast n :: 'a word) :: 'b word) = take_bit LENGTH('b) (unat (ucast n :: 'a word))"
    by (rule unsigned_ucast_eq)
  also have "unat (ucast n :: 'a word) = unat n" using assms by (rule unat_ucast_small)
  finally have "unat (ucast (ucast n :: 'a word) :: 'b word) = take_bit LENGTH('b) (unat n)" .
  then show ?thesis by (simp only: take_bit_unat word_unat_eq_iff)
qed

lemma unat_low_byte:
  fixes w :: "'w::len word"
  assumes "8 \<le> LENGTH('w)"
  shows "unat (ucast (drop_bit n w AND 0xff) :: byte) = unat w div 2 ^ n mod 256"
proof -
  have "unat (ucast (drop_bit n w AND 0xff) :: byte) = take_bit 8 (unat (drop_bit n w AND mask 8))"
    using assms by (simp add: unsigned_ucast_eq mask_eq_exp_minus_1)
  also have "\<dots> = take_bit 8 (unat w div 2 ^ n mod 2 ^ 8)" by (simp only: unat_drop_mask)
  finally show ?thesis by (simp add: take_bit_eq_mod)
qed

subsection \<open>ASCII literals\<close>

definition ascii :: "string \<Rightarrow> bytes" where
  "ascii s = map of_char s"

lemma length_ascii [simp]: "length (ascii s) = length s"
  by (simp add: ascii_def)

subsection \<open>Chunks of a fixed size\<close>

text \<open>Rust's \<^verbatim>\<open>chunks(n)\<close>: consecutive pieces of \<open>n\<close> elements, the last one
  possibly shorter.  A zero chunk size panics in Rust; no caller passes one.\<close>

function chunks :: "nat \<Rightarrow> 'a list \<Rightarrow> 'a list list" where
  "chunks n xs = (if xs = [] \<or> n = 0 then [] else take n xs # chunks n (drop n xs))"
  by pat_completeness auto
termination
  by (relation "measure (\<lambda>(n, xs). length xs)") auto

declare chunks.simps [simp del]

lemma chunks_Nil [simp]: "chunks n [] = []"
  by (subst chunks.simps) simp

lemma chunks_step [chunk_simps]:
  "0 < n \<Longrightarrow> xs \<noteq> [] \<Longrightarrow> chunks n xs = take n xs # chunks n (drop n xs)"
  by (subst chunks.simps) simp

lemma chunks_append [chunk_simps]:
  "length xs = n \<Longrightarrow> 0 < n \<Longrightarrow> chunks n (xs @ ys) = xs # chunks n ys"
  by (subst chunks.simps) auto

lemma concat_chunks [simp]: "0 < n \<Longrightarrow> concat (chunks n xs) = xs"
  by (induction n xs rule: chunks.induct) (subst chunks.simps, auto)

lemma chunks_lengths: "c \<in> set (chunks n xs) \<Longrightarrow> n dvd length xs \<Longrightarrow> length c = n"
proof (induction n xs rule: chunks.induct)
  case (1 n xs)
  show ?case
  proof (cases "xs = [] \<or> n = 0")
    case False
    with "1.prems"(2) have le: "n \<le> length xs" by (auto dest: dvd_imp_le)
    have "n dvd length (drop n xs)" using "1.prems"(2) by simp
    with "1.IH" [OF False] "1.prems"(1) False le show ?thesis
      by (auto simp: chunks_step)
  qed (use "1.prems" in \<open>auto simp: chunks.simps\<close>)
qed

lemma chunk_le: "c \<in> set (chunks n xs) \<Longrightarrow> length c \<le> n"
  by (induction n xs rule: chunks.induct) (metis chunks.simps empty_iff length_take list.set(1) min.cobounded2 set_ConsD)

lemma chunks_concat [chunk_simps]:
  "0 < n \<Longrightarrow> list_all (\<lambda>c. length c = n) cs \<Longrightarrow> chunks n (concat cs) = cs"
  by (induction cs) (auto simp: chunks_append)

subsection \<open>Lists\<close>

lemma take_drop_append_id [simp]: "take n xs @ drop n xs @ ys = xs @ ys"
  by (metis append_assoc append_take_drop_id)

lemma enumerate_all:
  assumes "list_all (\<lambda>(i, x). P i x) (enumerate 0 xs)" and "n < length xs"
  shows "P n (xs ! n)"
proof -
  have "(n, xs ! n) \<in> set (enumerate 0 xs)"
    using assms(2) by (metis add.left_neutral length_enumerate nth_enumerate_eq nth_mem)
  with assms(1) show ?thesis by (auto simp: list_all_iff)
qed

lemma list_split2: "length xs = 2 \<Longrightarrow> \<exists>a b. xs = [a, b]"
  by (auto simp: numeral_2_eq_2 length_Suc_conv)

subsection \<open>Self-delimiting encodings\<close>

text \<open>The contract of a wire encoding whose decoder returns the unread rest of its input: what
  was encoded is decoded, whatever follows it.\<close>

locale prefix_codec =
  fixes enc :: "'a \<Rightarrow> bytes"
    and dec :: "bytes \<Rightarrow> ('a \<times> bytes, 'e) result"
    and valid :: "'a \<Rightarrow> bool"
  assumes dec_enc: "valid x \<Longrightarrow> dec (enc x @ r) = Ok (x, r)"
begin

lemma enc_prefix_free:
  assumes "valid x" "valid y" "enc x @ r = enc y @ s"
  shows "x = y \<and> r = s"
proof -
  have "Ok (x, r) = dec (enc y @ s)" using dec_enc [OF assms(1), of r] by (simp only: assms(3))
  also have "\<dots> = Ok (y, s)" by (rule dec_enc [OF assms(2)])
  finally show ?thesis by simp
qed

lemma enc_inj: "valid x \<Longrightarrow> valid y \<Longrightarrow> enc x = enc y \<Longrightarrow> x = y"
  using enc_prefix_free [of x y "[]" "[]"] by simp

lemma enc_concat_inj:
  "list_all valid xs \<Longrightarrow> list_all valid ys \<Longrightarrow> length xs = length ys \<Longrightarrow>
    concat (map enc xs) @ r = concat (map enc ys) @ s \<Longrightarrow> xs = ys \<and> r = s"
proof (induction xs arbitrary: ys)
  case (Cons x xs)
  then obtain y ys' where ys: "ys = y # ys'" by (cases ys) auto
  have eq: "enc x @ (concat (map enc xs) @ r) = enc y @ (concat (map enc ys') @ s)"
    using Cons.prems(4) unfolding ys by (simp only: list.map concat.simps append_assoc)
  have v: "valid x" "valid y" "list_all valid xs" "list_all valid ys'" "length xs = length ys'"
    using Cons.prems(1-3) ys by simp_all
  from enc_prefix_free [OF v(1,2) eq] have "x = y" and "concat (map enc xs) @ r = concat (map enc ys') @ s"
    by blast+
  with Cons.IH [OF v(3-5)] ys show ?case by blast
qed simp

end

end
