(* ===== verification/Rust_Str.thy ===== *)
theory Rust_Str
  imports Prelude
begin

text \<open>
  Rust's \<^verbatim>\<open>str\<close>: a byte string that is valid UTF-8.  A string is modelled by its
  bytes; this theory holds what the sources use of the standard library on it:
  \<^verbatim>\<open>std::str::from_utf8\<close>, \<^verbatim>\<open>String::from_utf8_lossy\<close>,
  \<^verbatim>\<open>str::chars\<close> and the ASCII case functions.  The decoder follows the standard's
  table of well-formed sequences (no surrogates, no overlong forms, nothing past U+10FFFF); an
  ill-formed sequence ends after the longest prefix of a well-formed one, which the lossy
  conversion replaces by U+FFFD.
\<close>

definition utf8_cont :: "byte \<Rightarrow> bool" where
  "utf8_cont b \<longleftrightarrow> 0x80 \<le> b \<and> b \<le> 0xbf"

definition utf8_width :: "byte \<Rightarrow> nat" where
  "utf8_width b =
     (if b < 0x80 then 1
      else if 0xc2 \<le> b \<and> b \<le> 0xdf then 2
      else if 0xe0 \<le> b \<and> b \<le> 0xef then 3
      else if 0xf0 \<le> b \<and> b \<le> 0xf4 then 4
      else 0)"

definition utf8_second :: "byte \<Rightarrow> byte \<Rightarrow> bool" where
  "utf8_second b b1 =
     (if b = 0xe0 then 0xa0 \<le> b1 \<and> b1 \<le> 0xbf
      else if b = 0xed then 0x80 \<le> b1 \<and> b1 \<le> 0x9f
      else if b = 0xf0 then 0x90 \<le> b1 \<and> b1 \<le> 0xbf
      else if b = 0xf4 then 0x80 \<le> b1 \<and> b1 \<le> 0x8f
      else utf8_cont b1)"

text \<open>How many bytes the next sequence takes, and the scalar value if it is well formed.\<close>

definition utf8_step :: "byte \<Rightarrow> bytes \<Rightarrow> nat \<times> nat option" where
  "utf8_step b bs =
     (let lead = (\<lambda>n. unat b mod 2 ^ n); tail = (\<lambda>c. unat c mod 64) in
      if utf8_width b = 1 then (1, Some (unat b))
      else if utf8_width b = 2 then
        (case bs of
           b1 # _ \<Rightarrow> if utf8_cont b1 then (2, Some (lead 5 * 64 + tail b1)) else (1, None)
         | [] \<Rightarrow> (1, None))
      else if utf8_width b = 3 then
        (case bs of
           b1 # b2 # _ \<Rightarrow>
             if \<not> utf8_second b b1 then (1, None)
             else if utf8_cont b2 then (3, Some (lead 4 * 4096 + tail b1 * 64 + tail b2))
             else (2, None)
         | [b1] \<Rightarrow> if utf8_second b b1 then (2, None) else (1, None)
         | [] \<Rightarrow> (1, None))
      else if utf8_width b = 4 then
        (case bs of
           b1 # b2 # b3 # _ \<Rightarrow>
             if \<not> utf8_second b b1 then (1, None)
             else if \<not> utf8_cont b2 then (2, None)
             else if utf8_cont b3
             then (4, Some (lead 3 * 262144 + tail b1 * 4096 + tail b2 * 64 + tail b3))
             else (3, None)
         | [b1, b2] \<Rightarrow>
             if \<not> utf8_second b b1 then (1, None)
             else if utf8_cont b2 then (3, None) else (2, None)
         | [b1] \<Rightarrow> if utf8_second b b1 then (2, None) else (1, None)
         | [] \<Rightarrow> (1, None))
      else (1, None))"

lemma utf8_step_pos: "utf8_step b bs = (n, c) \<Longrightarrow> 0 < n"
  by (auto simp: utf8_step_def Let_def split: if_splits list.splits)

lemma utf8_step_le: "utf8_step b bs = (n, c) \<Longrightarrow> n \<le> Suc (length bs)"
  by (auto simp: utf8_step_def Let_def split: if_splits list.splits)

lemma utf8_step_append:
  "utf8_step b bs = (n, Some c) \<Longrightarrow> utf8_step b (bs @ rest) = (n, Some c)"
  by (auto simp: utf8_step_def Let_def split: if_splits list.splits)

lemma utf8_step_take:
  "utf8_step b bs = (n, Some c) \<Longrightarrow> utf8_step b (take (n - 1) bs) = (n, Some c)"
  by (auto simp: utf8_step_def Let_def split: if_splits list.splits)

function utf8_split :: "bytes \<Rightarrow> (bytes \<times> nat option) list" where
  "utf8_split [] = []"
| "utf8_split (b # bs) =
     (let (n, c) = utf8_step b bs in (take n (b # bs), c) # utf8_split (drop n (b # bs)))"
  by pat_completeness auto
termination
  by (relation "measure length") (auto simp: Let_def dest: utf8_step_pos [OF sym])

declare utf8_split.simps(2) [simp del]

definition utf8_valid :: "bytes \<Rightarrow> bool" where
  "utf8_valid bs \<longleftrightarrow> list_all (\<lambda>(_, c). c \<noteq> None) (utf8_split bs)"

definition from_utf8 :: "bytes \<Rightarrow> bytes option" where
  "from_utf8 bs = (if utf8_valid bs then Some bs else None)"

definition from_utf8_lossy :: "bytes \<Rightarrow> bytes" where
  "from_utf8_lossy bs =
     concat (map (\<lambda>(u, c). case c of Some _ \<Rightarrow> u | None \<Rightarrow> [0xef, 0xbf, 0xbd]) (utf8_split bs))"

definition chars :: "bytes \<Rightarrow> nat list" where
  "chars bs = concat (map (\<lambda>(_, c). case c of Some x \<Rightarrow> [x] | None \<Rightarrow> []) (utf8_split bs))"

definition to_ascii_lowercase :: "bytes \<Rightarrow> bytes" where
  "to_ascii_lowercase = map (\<lambda>b. if 0x41 \<le> b \<and> b \<le> 0x5a then b + 0x20 else b)"

definition to_ascii_uppercase :: "bytes \<Rightarrow> bytes" where
  "to_ascii_uppercase = map (\<lambda>b. if 0x61 \<le> b \<and> b \<le> 0x7a then b - 0x20 else b)"

lemma concat_utf8_split: "concat (map fst (utf8_split bs)) = bs"
proof (induction bs rule: utf8_split.induct)
  case (2 b bs)
  then show ?case
    by (cases "utf8_step b bs") (simp add: utf8_split.simps(2))
qed simp

text \<open>Decoding a well-formed sequence does not depend on what follows it.\<close>

lemma utf8_split_append_unit:
  assumes "utf8_step b bs = (Suc (length bs), Some c)"
  shows "utf8_split ((b # bs) @ rest) = (b # bs, Some c) # utf8_split rest"
  using utf8_step_append [OF assms, of rest] by (simp add: utf8_split.simps(2))

lemma utf8_split_append:
  "utf8_valid xs \<Longrightarrow> utf8_split (xs @ ys) = utf8_split xs @ utf8_split ys"
proof (induction xs rule: utf8_split.induct)
  case (2 b bs)
  obtain n c where st: "utf8_step b bs = (n, c)" by (cases "utf8_step b bs")
  have split: "utf8_split (b # bs) = (take n (b # bs), c) # utf8_split (drop n (b # bs))"
    by (simp add: utf8_split.simps(2) st)
  with "2.prems" obtain v where c: "c = Some v" and rest: "utf8_valid (drop n (b # bs))"
    by (auto simp: utf8_valid_def)
  have n: "n \<le> Suc (length bs)" using utf8_step_le [OF st] .
  have st': "utf8_step b (bs @ ys) = (n, c)" using utf8_step_append st c by simp
  have "utf8_split ((b # bs) @ ys)
      = (take n (b # bs @ ys), c) # utf8_split (drop n (b # bs @ ys))"
    by (simp add: utf8_split.simps(2) st')
  also have "drop n (b # bs @ ys) = drop n (b # bs) @ ys"
    using n by (simp flip: append_Cons)
  also have "take n (b # bs @ ys) = take n (b # bs)"
    using n by (simp flip: append_Cons)
  finally show ?case using "2.IH" [of "(n, c)" n c] st rest split by simp
qed simp

lemma utf8_valid_append: "utf8_valid xs \<Longrightarrow> utf8_valid (xs @ ys) \<longleftrightarrow> utf8_valid ys"
  by (simp add: utf8_valid_def utf8_split_append)

lemma utf8_valid_Nil [simp]: "utf8_valid []"
  by (simp add: utf8_valid_def)

lemma chars_append: "utf8_valid xs \<Longrightarrow> chars (xs @ ys) = chars xs @ chars ys"
  by (simp add: chars_def utf8_split_append)

lemma utf8_split_unit_valid:
  "(u, Some c) \<in> set (utf8_split bs) \<Longrightarrow> utf8_valid u"
proof (induction bs rule: utf8_split.induct)
  case (2 b bs)
  obtain n d where st: "utf8_step b bs = (n, d)" by (cases "utf8_step b bs")
  show ?case
  proof (cases "u = take n (b # bs) \<and> d = Some c")
    case True
    have n: "0 < n" "n \<le> Suc (length bs)" using st utf8_step_pos utf8_step_le by auto
    then have len: "Suc (length (take (n - 1) bs)) = n" by simp
    have "utf8_step b (take (n - 1) bs) = (Suc (length (take (n - 1) bs)), Some c)"
      using utf8_step_take st True len by simp
    from utf8_split_append_unit [OF this, of "[]"]
    have "utf8_valid (b # take (n - 1) bs)" by (simp add: utf8_valid_def)
    moreover have "u = b # take (n - 1) bs" using True n(1) by (cases n) auto
    ultimately show ?thesis by simp
  next
    case False
    with "2.prems" st have "(u, Some c) \<in> set (utf8_split (drop n (b # bs)))"
      by (auto simp: utf8_split.simps(2))
    with "2.IH" st show ?thesis by auto
  qed
qed simp

lemma utf8_valid_concat: "list_all utf8_valid us \<Longrightarrow> utf8_valid (concat us)"
  by (induction us) (auto simp: utf8_valid_append)

lemma replacement_valid: "utf8_valid [0xef, 0xbf, 0xbd]"
  by (simp add: utf8_valid_def utf8_split.simps utf8_step_def utf8_width_def utf8_second_def
      utf8_cont_def)

lemma from_utf8_lossy_valid: "utf8_valid (from_utf8_lossy bs)"
  unfolding from_utf8_lossy_def
  by (rule utf8_valid_concat)
     (auto simp: list_all_iff replacement_valid utf8_split_unit_valid split: option.splits)

lemma from_utf8_lossy_id: "utf8_valid bs \<Longrightarrow> from_utf8_lossy bs = bs"
proof -
  assume "utf8_valid bs"
  then have "map (\<lambda>(u, c). case c of Some _ \<Rightarrow> u | None \<Rightarrow> [0xef, 0xbf, 0xbd]) (utf8_split bs)
      = map fst (utf8_split bs)"
    by (auto simp: utf8_valid_def list_all_iff split: option.splits)
  then show ?thesis unfolding from_utf8_lossy_def by (simp only: concat_utf8_split)
qed

subsection \<open>ASCII strings\<close>

lemma utf8_split_ascii:
  "list_all (\<lambda>b. b < 0x80) s \<Longrightarrow> utf8_split s = map (\<lambda>b. ([b], Some (unat b))) s"
  by (induction s) (auto simp: utf8_split.simps(2) utf8_step_def utf8_width_def)

lemma utf8_valid_ascii: "list_all (\<lambda>b. b < 0x80) s \<Longrightarrow> utf8_valid s"
  by (simp add: utf8_valid_def utf8_split_ascii list_all_iff)

lemma chars_ascii: "list_all (\<lambda>b. b < 0x80) s \<Longrightarrow> chars s = map unat s"
  by (induction s) (auto simp: chars_def utf8_split_ascii)

subsection \<open>Trimming and splitting\<close>

text \<open>\<^verbatim>\<open>char::is_whitespace\<close>\<close>

definition is_whitespace :: "nat \<Rightarrow> bool" where
  "is_whitespace c \<longleftrightarrow> 9 \<le> c \<and> c \<le> 13 \<or> c = 0x20 \<or> c = 0x85 \<or> c = 0xa0 \<or> c = 0x1680
     \<or> 0x2000 \<le> c \<and> c \<le> 0x200a \<or> c \<in> {0x2028, 0x2029, 0x202f, 0x205f, 0x3000}"

definition str_trim :: "bytes \<Rightarrow> bytes" where
  "str_trim s =
     (let ws = (\<lambda>(_, c). case c of Some x \<Rightarrow> is_whitespace x | None \<Rightarrow> False)
      in concat (map fst (rev (dropWhile ws (rev (dropWhile ws (utf8_split s)))))))"

fun split_on :: "byte \<Rightarrow> bytes \<Rightarrow> bytes list" where
  "split_on c [] = [[]]"
| "split_on c (b # bs) =
     (if b = c then [] # split_on c bs
      else (case split_on c bs of p # ps \<Rightarrow> (b # p) # ps | [] \<Rightarrow> [[b]]))"

fun split_ws_loop :: "bytes \<Rightarrow> bytes list" where
  "split_ws_loop [] = [[]]"
| "split_ws_loop (b # bs) =
     (if b \<in> {0x20, 0x09, 0x0a, 0x0c, 0x0d} then [] # split_ws_loop bs
      else (case split_ws_loop bs of p # ps \<Rightarrow> (b # p) # ps | [] \<Rightarrow> [[b]]))"

definition split_ascii_whitespace :: "bytes \<Rightarrow> bytes list" where
  "split_ascii_whitespace s = filter (\<lambda>p. p \<noteq> []) (split_ws_loop s)"

text \<open>\<^verbatim>\<open>str::trim_start\<close>, \<^verbatim>\<open>str::strip_prefix\<close> and \<^verbatim>\<open>str::lines\<close>: a carriage
  return belongs to the line feed after it, and no line follows the last line feed.\<close>

definition str_trim_start :: "bytes \<Rightarrow> bytes" where
  "str_trim_start s =
     concat (map fst (dropWhile (\<lambda>(_, c). case c of Some x \<Rightarrow> is_whitespace x | None \<Rightarrow> False) (utf8_split s)))"

definition strip_prefix :: "bytes \<Rightarrow> bytes \<Rightarrow> bytes option" where
  "strip_prefix p s = (if take (length p) s = p then Some (drop (length p) s) else None)"

definition strip_cr :: "bytes \<Rightarrow> bytes" where
  "strip_cr l = (if l \<noteq> [] \<and> last l = 0x0d then butlast l else l)"

definition str_lines :: "bytes \<Rightarrow> bytes list" where
  "str_lines s =
     (let ps = split_on 0x0a s
      in map strip_cr (butlast ps) @ (if last ps = [] then [] else [last ps]))"

lemma str_trim_ascii:
  assumes "list_all (\<lambda>b. b < 0x80) s" "s \<noteq> []" "\<not> is_whitespace (unat (hd s))" "\<not> is_whitespace (unat (last s))"
  shows "str_trim s = s"
proof -
  let ?ws = "\<lambda>(_ :: bytes, c). case c of Some x \<Rightarrow> is_whitespace x | None \<Rightarrow> False"
  have u: "utf8_split s = map (\<lambda>b. ([b], Some (unat b))) s" by (rule utf8_split_ascii [OF assms(1)])
  have "dropWhile ?ws (utf8_split s) = utf8_split s"
    using assms(2,3) unfolding u by (cases s) simp_all
  moreover have "dropWhile ?ws (rev (utf8_split s)) = rev (utf8_split s)"
    using assms(2,4) unfolding u by (cases s rule: rev_cases) simp_all
  ultimately show ?thesis by (simp add: str_trim_def Let_def concat_utf8_split)
qed

lemma split_on_none: "c \<notin> set s \<Longrightarrow> split_on c s = [s]"
  by (induction s) auto

lemma split_on_append: "c \<notin> set p \<Longrightarrow> split_on c (p @ c # s) = p # split_on c s"
  by (induction p) auto

lemma split_ws_loop_none: "set p \<inter> {0x20, 0x09, 0x0a, 0x0c, 0x0d} = {} \<Longrightarrow> split_ws_loop p = [p]"
  by (induction p) auto

lemma split_ws_loop_append: "set p \<inter> {0x20, 0x09, 0x0a, 0x0c, 0x0d} = {} \<Longrightarrow>
    split_ws_loop (p @ 0x20 # s) = p # split_ws_loop s"
  by (induction p) auto

end
