(* ===== verification/Codec.thy ===== *)
theory Codec
  imports Prelude Rust_Str
begin

text \<open>
  \<^verbatim>\<open>crates/keyroost-proto/src/codec.rs\<close>: hexadecimal, base32 and base64.  The two
  accumulator loops of \<^verbatim>\<open>base32_decode\<close> and \<^verbatim>\<open>base64_decode\<close> share the
  contract of the locale \<open>digit_decoder\<close>, which relates the bytes pushed so far and the
  residual bits of the machine word to the number that the digits denote; both loops are
  interpretations of it, and the round trip of \<^verbatim>\<open>base64_encode\<close> rests on that.
\<close>

datatype decode_error = InvalidLength | InvalidChar

subsection \<open>Hexadecimal\<close>

definition NIBBLES :: bytes where
  "NIBBLES = ascii ''0123456789abcdef''"

definition hex_nibble :: "byte \<Rightarrow> (byte, decode_error) result" where
  "hex_nibble c =
     (if 0x30 \<le> c \<and> c \<le> 0x39 then Ok (c - 0x30)
      else if 0x61 \<le> c \<and> c \<le> 0x66 then Ok (c - 0x61 + 10)
      else if 0x41 \<le> c \<and> c \<le> 0x46 then Ok (c - 0x41 + 10)
      else Err InvalidChar)"

text \<open>The loop over \<^verbatim>\<open>chunks(2)\<close>; the length has been checked to be even.\<close>

fun hex_decode_loop :: "bytes \<Rightarrow> bytes \<Rightarrow> (bytes, decode_error) result" where
  "hex_decode_loop out (c0 # c1 # rest) =
     bind_result (hex_nibble c0) (\<lambda>hi. bind_result (hex_nibble c1) (\<lambda>lo.
       hex_decode_loop (out @ [push_bit 4 hi OR lo]) rest))"
| "hex_decode_loop out _ = Ok out"

definition hex_decode :: "bytes \<Rightarrow> (bytes, decode_error) result" where
  "hex_decode s = (if length s mod 2 \<noteq> 0 then Err InvalidLength else hex_decode_loop [] s)"

fun hex_encode :: "bytes \<Rightarrow> bytes" where
  "hex_encode [] = []"
| "hex_encode (b # bs) =
     NIBBLES ! unat (drop_bit 4 b) # NIBBLES ! unat (b AND 0x0f) # hex_encode bs"

subsection \<open>Base32 and base64\<close>

definition base32_skip :: "nat \<Rightarrow> bool" where
  "base32_skip c \<longleftrightarrow> c \<in> {0x20, 0x2d, 0x09, 0x0a, 0x0d}"

definition base32_digit :: "nat \<Rightarrow> byte option" where
  "base32_digit c =
     (if 0x41 \<le> c \<and> c \<le> 0x5a then Some (word_of_nat c - 0x41)
      else if 0x61 \<le> c \<and> c \<le> 0x7a then Some (word_of_nat c - 0x61)
      else if 0x32 \<le> c \<and> c \<le> 0x37 then Some (word_of_nat c - 0x32 + 26)
      else None)"

fun base32_loop :: "u64 \<Rightarrow> nat \<Rightarrow> bytes \<Rightarrow> bool \<Rightarrow> nat list
    \<Rightarrow> (u64 \<times> nat \<times> bytes, decode_error) result" where
  "base32_loop buf bits out padded [] = Ok (buf, bits, out)"
| "base32_loop buf bits out padded (c # cs) =
     (if base32_skip c then base32_loop buf bits out padded cs
      else if c = 0x3d then base32_loop buf bits out True cs
      else if padded then Err InvalidChar
      else case base32_digit c of
        None \<Rightarrow> Err InvalidChar
      | Some v \<Rightarrow>
          (let buf = push_bit 5 buf OR ucast v; bits = bits + 5 in
           if 8 \<le> bits
           then base32_loop buf (bits - 8) (out @ [ucast (drop_bit (bits - 8) buf AND 0xff)]) padded cs
           else base32_loop buf bits out padded cs))"

definition base32_decode :: "bytes \<Rightarrow> (bytes, decode_error) result" where
  "base32_decode s =
     bind_result (base32_loop 0 0 [] False (chars s)) (\<lambda>(buf, bits, out).
       if 0 < bits \<and> (buf AND (push_bit bits 1 - 1)) \<noteq> 0 then Err InvalidLength else Ok out)"

definition base64_skip :: "nat \<Rightarrow> bool" where
  "base64_skip c \<longleftrightarrow> c \<in> {0x20, 0x09, 0x0a, 0x0d}"

definition base64_digit :: "nat \<Rightarrow> byte option" where
  "base64_digit c =
     (if 0x41 \<le> c \<and> c \<le> 0x5a then Some (word_of_nat c - 0x41)
      else if 0x61 \<le> c \<and> c \<le> 0x7a then Some (word_of_nat c - 0x61 + 26)
      else if 0x30 \<le> c \<and> c \<le> 0x39 then Some (word_of_nat c - 0x30 + 52)
      else if c = 0x2b \<or> c = 0x2d then Some 62
      else if c = 0x2f \<or> c = 0x5f then Some 63
      else None)"

fun base64_loop :: "u32 \<Rightarrow> nat \<Rightarrow> bytes \<Rightarrow> bool \<Rightarrow> nat list
    \<Rightarrow> (u32 \<times> nat \<times> bytes, decode_error) result" where
  "base64_loop buf bits out padded [] = Ok (buf, bits, out)"
| "base64_loop buf bits out padded (c # cs) =
     (if base64_skip c then base64_loop buf bits out padded cs
      else if c = 0x3d then base64_loop buf bits out True cs
      else if padded then Err InvalidChar
      else case base64_digit c of
        None \<Rightarrow> Err InvalidChar
      | Some v \<Rightarrow>
          (let buf = push_bit 6 buf OR ucast v; bits = bits + 6 in
           if 8 \<le> bits
           then base64_loop buf (bits - 8) (out @ [ucast (drop_bit (bits - 8) buf AND 0xff)]) padded cs
           else base64_loop buf bits out padded cs))"

definition base64_decode :: "bytes \<Rightarrow> (bytes, decode_error) result" where
  "base64_decode s =
     bind_result (base64_loop 0 0 [] False (chars s)) (\<lambda>(buf, bits, out).
       if 0 < bits \<and> (buf AND (push_bit bits 1 - 1)) \<noteq> 0 then Err InvalidLength else Ok out)"

definition ALPHABET :: bytes where
  "ALPHABET = ascii ''ABCDEFGHIJKLMNOPQRSTUVWXYZabcdefghijklmnopqrstuvwxyz0123456789+/''"

text \<open>One pass of the loop over \<^verbatim>\<open>chunks(3)\<close>; a missing byte reads as zero.\<close>

definition base64_chunk :: "bytes \<Rightarrow> bytes" where
  "base64_chunk chunk =
     (let b0 = ucast (chunk ! 0) :: u32;
          b1 = (if 1 < length chunk then ucast (chunk ! 1) else 0) :: u32;
          b2 = (if 2 < length chunk then ucast (chunk ! 2) else 0) :: u32;
          n = push_bit 16 b0 OR push_bit 8 b1 OR b2
      in [ALPHABET ! unat (drop_bit 18 n AND 0x3f),
          ALPHABET ! unat (drop_bit 12 n AND 0x3f),
          (if 1 < length chunk then ALPHABET ! unat (drop_bit 6 n AND 0x3f) else 0x3d),
          (if 2 < length chunk then ALPHABET ! unat (n AND 0x3f) else 0x3d)])"

definition base64_encode :: "bytes \<Rightarrow> bytes" where
  "base64_encode bs = concat (map base64_chunk (chunks 3 bs))"


subsection \<open>The contract of the two accumulator loops\<close>

text \<open>The digits a text denotes: \<open>None\<close> when it holds a foreign character, or a digit after
  padding.\<close>

fun digits_of :: "(nat \<Rightarrow> bool) \<Rightarrow> (nat \<Rightarrow> byte option) \<Rightarrow> bool \<Rightarrow> nat list \<Rightarrow> nat list option" where
  "digits_of skip digit padded [] = Some []"
| "digits_of skip digit padded (c # cs) =
     (if skip c then digits_of skip digit padded cs
      else if c = 0x3d then digits_of skip digit True cs
      else if padded then None
      else case digit c of
        None \<Rightarrow> None
      | Some v \<Rightarrow> map_option ((#) (unat v)) (digits_of skip digit padded cs))"

text \<open>The number that \<open>k\<close>-bit digits denote, most significant digit first.\<close>

fun digits_value :: "nat \<Rightarrow> nat list \<Rightarrow> nat" where
  "digits_value k [] = 0"
| "digits_value k (d # ds) = d * 2 ^ (k * length ds) + digits_value k ds"

lemma digits_value_append:
  "digits_value k (xs @ ys) = digits_value k xs * 2 ^ (k * length ys) + digits_value k ys"
  by (induction xs) (auto simp: algebra_simps power_add)

locale digit_decoder =
  fixes k :: nat
    and skip :: "nat \<Rightarrow> bool"
    and digit :: "nat \<Rightarrow> byte option"
    and loop :: "'w::len word \<Rightarrow> nat \<Rightarrow> bytes \<Rightarrow> bool \<Rightarrow> nat list
        \<Rightarrow> ('w word \<times> nat \<times> bytes, decode_error) result"
  assumes width: "0 < k" "k \<le> 8" "16 \<le> LENGTH('w)"
    and digit_bound: "digit c = Some v \<Longrightarrow> unat v < 2 ^ k"
    and loop_Nil: "loop buf bits out padded [] = Ok (buf, bits, out)"
    and loop_skip: "skip c \<Longrightarrow> loop buf bits out padded (c # cs) = loop buf bits out padded cs"
    and loop_pad: "\<not> skip 0x3d \<and> loop buf bits out padded (0x3d # cs) = loop buf bits out True cs"
    and loop_padded:
      "\<not> skip c \<Longrightarrow> c \<noteq> 0x3d \<Longrightarrow> loop buf bits out True (c # cs) = Err InvalidChar"
    and loop_bad: "\<not> skip c \<Longrightarrow> c \<noteq> 0x3d \<Longrightarrow> digit c = None \<Longrightarrow>
      loop buf bits out False (c # cs) = Err InvalidChar"
    and loop_digit: "\<not> skip c \<Longrightarrow> c \<noteq> 0x3d \<Longrightarrow> digit c = Some v \<Longrightarrow>
      loop buf bits out False (c # cs) =
        (let buf' = push_bit k buf OR ucast v; bits' = bits + k in
         if 8 \<le> bits'
         then loop buf' (bits' - 8) (out @ [ucast (drop_bit (bits' - 8) buf' AND 0xff)]) False cs
         else loop buf' bits' out False cs)"
begin

text \<open>The state a loop has reached, as the number read so far.\<close>

definition state_value :: "'w word \<Rightarrow> nat \<Rightarrow> bytes \<Rightarrow> nat" where
  "state_value buf bits out = from_be out * 2 ^ bits + unat buf mod 2 ^ bits"

lemma push_value:
  assumes "bits < 8" and "unat v < 2 ^ k"
  shows "unat (push_bit k buf OR ucast (v :: byte) :: 'w word) mod 2 ^ (bits + k)
       = unat buf mod 2 ^ bits * 2 ^ k + unat v"
proof -
  have "take_bit (bits + k) (unat (push_bit k buf OR ucast v :: 'w word))
      = take_bit (bits + k) (push_bit k (unat buf)) OR take_bit (bits + k) (unat v)"
    using assms(1) width
    by (simp add: unsigned_or_eq unsigned_push_bit_eq unsigned_ucast_eq min_def)
  also have "take_bit (bits + k) (push_bit k (unat buf)) = push_bit k (take_bit bits (unat buf))"
    by (simp add: take_bit_push_bit)
  also have "take_bit (bits + k) (unat v) = unat v"
    using assms(2) by (simp add: take_bit_nat_eq_self_iff power_add less_le_trans)
  also have "push_bit k (take_bit bits (unat buf)) OR unat v = take_bit bits (unat buf) * 2 ^ k + unat v"
    using assms(2) by (rule push_or_add)
  finally show ?thesis by (simp add: take_bit_eq_mod)
qed

lemma emit_value:
  fixes w :: "'w word"
  shows "from_be (out @ [ucast (drop_bit b w AND 0xff)]) * 2 ^ b + unat w mod 2 ^ b
       = from_be out * 2 ^ (b + 8) + unat w mod 2 ^ (b + 8)"
proof -
  have "unat w mod 2 ^ (b + 8) = 2 ^ b * (unat w div 2 ^ b mod 256) + unat w mod 2 ^ b"
    by (simp add: power_add mod_mult2_eq)
  then show ?thesis
    using width by (simp add: from_be_append unat_low_byte algebra_simps power_add)
qed

text \<open>The loop accepts exactly the texts that denote digits, and ends in the state of their
  value with fewer than eight residual bits.\<close>

lemma loop_spec:
  assumes "bits < 8"
  shows "case digits_of skip digit padded cs of
      None \<Rightarrow> loop buf bits out padded cs = Err InvalidChar
    | Some ds \<Rightarrow> \<exists>buf' bits' out'. loop buf bits out padded cs = Ok (buf', bits', out') \<and> bits' < 8
        \<and> 8 * length out' + bits' = 8 * length out + bits + k * length ds
        \<and> state_value buf' bits' out'
          = state_value buf bits out * 2 ^ (k * length ds) + digits_value k ds"
  using assms
proof (induction cs arbitrary: buf bits out padded)
  case Nil
  then show ?case by (simp add: loop_Nil)
next
  case (Cons c cs)
  consider "skip c" | "\<not> skip c" "c = 0x3d" | "\<not> skip c" "c \<noteq> 0x3d" padded
    | "\<not> skip c" "c \<noteq> 0x3d" "\<not> padded" "digit c = None"
    | v where "\<not> skip c" "c \<noteq> 0x3d" "\<not> padded" "digit c = Some v"
    by (cases "digit c") auto
  then show ?case
  proof cases
    case 1
    then show ?thesis using Cons.IH [OF Cons.prems, of buf out padded]
      by (simp add: loop_skip split: option.splits)
  next
    case 2
    then show ?thesis using Cons.IH [OF Cons.prems, of buf out True]
      by (simp add: loop_pad split: option.splits)
  next
    case (5 v)
    define w where "w = push_bit k buf OR ucast v"
    have w: "unat w mod 2 ^ (bits + k) = unat buf mod 2 ^ bits * 2 ^ k + unat v"
      unfolding w_def using Cons.prems digit_bound [OF 5(4)] by (rule push_value)
    define st where "st = (if 8 \<le> bits + k
        then (bits + k - 8, out @ [ucast (drop_bit (bits + k - 8) w AND 0xff)]) else (bits + k, out))"
    obtain b' o' where st': "st = (b', o')" by (cases st)
    have step: "loop buf bits out padded (c # cs) = loop w b' o' False cs"
      using 5 st' by (auto simp: loop_digit w_def st_def Let_def split: if_splits)
    have b': "b' < 8" using st' Cons.prems width by (auto simp: st_def split: if_splits)
    have len: "8 * length o' + b' = 8 * length out + bits + k"
      using st' by (auto simp: st_def split: if_splits)
    have val: "state_value w b' o' = state_value buf bits out * 2 ^ k + unat v"
    proof -
      have "state_value w b' o' = from_be out * 2 ^ (bits + k) + unat w mod 2 ^ (bits + k)"
        using st' emit_value [of out "bits + k - 8" w]
        by (auto simp: st_def state_value_def split: if_splits)
      then show ?thesis unfolding w state_value_def by (simp add: algebra_simps power_add)
    qed
    show ?thesis
    proof (cases "digits_of skip digit False cs")
      case None
      then show ?thesis using Cons.IH [OF b', of w o' False] 5 step by simp
    next
      case (Some ds)
      then show ?thesis
        using Cons.IH [OF b', of w o' False] 5 step len val
        by (auto simp: algebra_simps power_add)
    qed
  qed (simp_all add: loop_padded loop_bad)
qed

text \<open>The whole decoder: the residual bits must be zero.\<close>

lemma decoder_spec:
  "bind_result (loop 0 0 [] False cs) (\<lambda>(buf, bits, out).
      if 0 < bits \<and> (buf AND (push_bit bits 1 - 1)) \<noteq> 0 then Err InvalidLength else Ok out) = Ok out
   \<longleftrightarrow> (\<exists>ds. digits_of skip digit False cs = Some ds \<and> length out = k * length ds div 8
        \<and> from_be out * 2 ^ (k * length ds mod 8) = digits_value k ds)"
proof (cases "digits_of skip digit False cs")
  case None
  then show ?thesis using loop_spec [where bits = 0 and padded = False and cs = cs and buf = 0 and out = "[]"] by simp
next
  case (Some ds)
  then obtain buf' bits' out' where ok: "loop 0 0 [] False cs = Ok (buf', bits', out')"
    and b: "bits' < 8" and len: "8 * length out' + bits' = k * length ds"
    and val: "from_be out' * 2 ^ bits' + unat buf' mod 2 ^ bits' = digits_value k ds"
    using loop_spec [where bits = 0 and padded = False and cs = cs and buf = 0 and out = "[]"] by (auto simp: state_value_def)
  have n: "length out' = k * length ds div 8" "bits' = k * length ds mod 8"
    unfolding len [symmetric] using b by simp_all
  have res: "buf' AND (push_bit bits' 1 - 1) = 0 \<longleftrightarrow> unat buf' mod 2 ^ bits' = 0"
    using b width by (intro mask_zero_iff) simp
  have uniq: "out = out'" if "length out = length out'"
    and "from_be out * 2 ^ bits' = from_be out' * 2 ^ bits' + unat buf' mod 2 ^ bits'"
  proof -
    from that(2) have "from_be out * 2 ^ bits' div 2 ^ bits'
        = (from_be out' * 2 ^ bits' + unat buf' mod 2 ^ bits') div 2 ^ bits'" by (simp only:)
    then have "from_be out = from_be out'" by simp
    with that(1) show ?thesis by (metis be_bytes_from_be)
  qed
  show ?thesis
    using ok n b val res uniq Some
    by (auto)
qed

end


interpretation b32: digit_decoder 5 base32_skip base32_digit base32_loop
proof unfold_locales
  show "base32_digit c = Some v \<Longrightarrow> unat v < 2 ^ 5" for c v
    by (auto simp: base32_digit_def unat_sub_if' unat_word_ariths split: if_splits)
qed (auto simp: base32_skip_def Let_def)

interpretation b64: digit_decoder 6 base64_skip base64_digit base64_loop
proof unfold_locales
  show "base64_digit c = Some v \<Longrightarrow> unat v < 2 ^ 6" for c v
    by (auto simp: base64_digit_def unat_sub_if' unat_word_ariths split: if_splits)
qed (auto simp: base64_skip_def Let_def)

subsection \<open>Hexadecimal: both directions\<close>

lemma NIBBLES_nth [simp]: "n < 16 \<Longrightarrow> hex_nibble (NIBBLES ! n) = Ok (word_of_nat n)"
proof -
  have "list_all (\<lambda>n. hex_nibble (NIBBLES ! n) = Ok (word_of_nat n)) [0..<16]"
    by (simp add: upt_conv_Cons, simp add: NIBBLES_def ascii_def hex_nibble_def)
  then show "n < 16 \<Longrightarrow> ?thesis" by (simp add: list_all_iff)
qed

lemma hex_nibble_sound:
  assumes "hex_nibble c = Ok v"
  shows "unat v < 16 \<and> to_ascii_lowercase [c] = [NIBBLES ! unat v]"
proof -
  let ?P = "\<lambda>n. case hex_nibble (word_of_nat n) of Ok v \<Rightarrow>
      unat v < 16 \<and> to_ascii_lowercase [word_of_nat n] = [NIBBLES ! unat v] | Err _ \<Rightarrow> True"
  have all: "list_all ?P ([48..<58] @ [97..<103] @ [65..<71])"
    by (simp, simp add: hex_nibble_def NIBBLES_def ascii_def to_ascii_lowercase_def)
  from assms have "unat c \<in> set ([48..<58] @ [97..<103] @ [65..<71])"
    by (auto simp: hex_nibble_def word_le_nat_alt simp del: upt_rec_numeral split: if_splits)
  with all have "?P (unat c)" unfolding list_all_iff by blast
  then show ?thesis using assms by simp
qed

lemma nibble_bounds [simp]: "unat (drop_bit 4 (b :: byte)) < 16" "unat (b AND 0x0f) < 16"
proof -
  show "unat (drop_bit 4 b) < 16" using unat_byte_less [of b] less_mult_imp_div_less [of "unat b" 16 16]
    by (simp only: unat_drop_bit) simp
  show "unat (b AND 0x0f) < 16" using unat_drop_mask [of 0 b 4] by (simp add: mask_eq_exp_minus_1)
qed

lemma nibbles_join: "push_bit 4 (drop_bit 4 b) OR (b AND 0x0f) = (b :: byte)"
proof -
  have "b AND 0x0f = take_bit 4 b" by (simp add: take_bit_eq_mask mask_eq_exp_minus_1)
  then show ?thesis by (auto simp: bit_eq_iff bit_simps)
qed

lemma hex_decode_loop_encode: "hex_decode_loop out (hex_encode bs) = Ok (out @ bs)"
  by (induction bs arbitrary: out) (simp_all add: nibbles_join)

lemma length_hex_encode [simp]: "length (hex_encode bs) = 2 * length bs"
  by (induction bs) auto

lemma hex_decode_loop_sound:
  "hex_decode_loop out s = Ok bs \<Longrightarrow> even (length s) \<Longrightarrow>
    \<exists>ds. bs = out @ ds \<and> to_ascii_lowercase s = hex_encode ds"
proof (induction out s arbitrary: bs rule: hex_decode_loop.induct)
  case (1 out c0 c1 rest)
  then obtain hi lo where hi: "hex_nibble c0 = Ok hi" and lo: "hex_nibble c1 = Ok lo"
    and rec: "hex_decode_loop (out @ [push_bit 4 hi OR lo]) rest = Ok bs" by auto
  obtain ds where ds: "bs = out @ [push_bit 4 hi OR lo] @ ds" "to_ascii_lowercase rest = hex_encode ds"
    using "1.IH" [OF rec] "1.prems"(2) by auto
  note n = hex_nibble_sound [OF hi] hex_nibble_sound [OF lo]
  have "take_bit 4 hi = hi" "take_bit 4 lo = lo"
    using n by (simp_all add: word_unat_eq_iff unsigned_take_bit_eq take_bit_nat_eq_self_iff)
  then have small: "bit hi m \<Longrightarrow> m < 4" "bit lo m \<Longrightarrow> m < 4" for m
    by (metis bit_take_bit_iff)+
  then have "drop_bit 4 (push_bit 4 hi OR lo) = hi" "(push_bit 4 hi OR lo) AND mask 4 = lo"
    by (auto simp: bit_eq_iff bit_simps dest: small)
  then have "to_ascii_lowercase (c0 # c1 # rest) = hex_encode ((push_bit 4 hi OR lo) # ds)"
    using n ds(2) by (simp add: to_ascii_lowercase_def mask_eq_exp_minus_1)
  with ds(1) show ?case by auto
qed (auto simp: to_ascii_lowercase_def)


lemma hex_nibble_lower: "hex_nibble (hd (to_ascii_lowercase [c])) = hex_nibble c"
proof -
  let ?P = "\<lambda>n. hex_nibble (word_of_nat n) = hex_nibble (hd (to_ascii_lowercase [word_of_nat n]))"
  have "?P (unat c)"
  proof (cases "0x41 \<le> c \<and> c \<le> 0x5a")
    case True
    then have "unat c \<in> set [65..<91]" by (auto simp: word_le_nat_alt simp del: upt_rec_numeral)
    moreover have "list_all ?P [65..<91]" by (simp, simp add: hex_nibble_def to_ascii_lowercase_def)
    ultimately show ?thesis unfolding list_all_iff by blast
  qed (auto simp: to_ascii_lowercase_def)
  then show ?thesis by simp
qed

lemma hex_nibble_complete:
  "to_ascii_lowercase [c] = [NIBBLES ! unat v] \<Longrightarrow> unat v < 16 \<Longrightarrow> hex_nibble c = Ok v"
  using hex_nibble_lower [of c] by simp

lemma hex_decode_loop_complete:
  "to_ascii_lowercase s = hex_encode bs \<Longrightarrow> hex_decode_loop out s = Ok (out @ bs)"
proof (induction bs arbitrary: s out)
  case (Cons b bs)
  then obtain c0 c1 r where s: "s = c0 # c1 # r" by (auto simp: to_ascii_lowercase_def)
  with Cons.prems have "hex_nibble c0 = Ok (drop_bit 4 b)" "hex_nibble c1 = Ok (b AND 0x0f)"
    by (auto intro!: hex_nibble_complete simp: to_ascii_lowercase_def)
  moreover have "to_ascii_lowercase r = hex_encode bs"
    using Cons.prems s by (simp add: to_ascii_lowercase_def)
  ultimately show ?case using Cons.IH s by (simp add: nibbles_join)
qed (simp add: to_ascii_lowercase_def)

text \<open>\<^verbatim>\<open>hex_decode\<close> accepts exactly the texts that are the encoding of some bytes
  up to letter case, and returns those bytes: it inverts \<^verbatim>\<open>hex_encode\<close>, and every
  other text is an error.\<close>

theorem hex_decode_iff: "hex_decode s = Ok bs \<longleftrightarrow> to_ascii_lowercase s = hex_encode bs"
proof
  assume "hex_decode s = Ok bs"
  then show "to_ascii_lowercase s = hex_encode bs"
    using hex_decode_loop_sound [of "[]" s bs]
    by (auto simp: hex_decode_def even_iff_mod_2_eq_zero split: if_splits)
next
  assume s: "to_ascii_lowercase s = hex_encode bs"
  have "length s = 2 * length bs"
    using arg_cong [OF s, of length] by (simp add: to_ascii_lowercase_def)
  with hex_decode_loop_complete [OF s, of "[]"] show "hex_decode s = Ok bs"
    by (simp add: hex_decode_def)
qed

subsection \<open>Base64 round trip\<close>

lemma ALPHABET_nth:
  assumes "n < 64"
  shows "base64_digit (unat (ALPHABET ! n)) = Some (word_of_nat n)"
    and "\<not> base64_skip (unat (ALPHABET ! n))"
    and "unat (ALPHABET ! n) \<noteq> 0x3d"
    and "ALPHABET ! n < 0x80"
proof -
  let ?P = "\<lambda>n (c :: byte). base64_digit (unat c) = Some (word_of_nat n) \<and> \<not> base64_skip (unat c)
      \<and> unat c \<noteq> 0x3d \<and> c < 0x80"
  have "list_all (\<lambda>(n, c). ?P n c) (enumerate 0 ALPHABET)"
    by (simp add: ALPHABET_def ascii_def, simp add: base64_digit_def base64_skip_def)
  moreover have "length ALPHABET = 64" by (simp add: ALPHABET_def)
  ultimately have "?P n (ALPHABET ! n)" using assms by (intro enumerate_all [where P = ?P]) simp_all
  then show "base64_digit (unat (ALPHABET ! n)) = Some (word_of_nat n)"
    and "\<not> base64_skip (unat (ALPHABET ! n))" and "unat (ALPHABET ! n) \<noteq> 0x3d"
    and "ALPHABET ! n < 0x80" by blast+
qed

lemma base64_word_value:
  fixes a b c :: byte
  shows "unat (push_bit 16 (ucast a) OR push_bit 8 (ucast b) OR ucast c :: u32)
       = unat a * 65536 + unat b * 256 + unat c"
proof -
  have small: "unat a * 65536 + unat b * 256 + unat c < 4294967296"
    using unat_byte_less [of a] unat_byte_less [of b] unat_byte_less [of c] by linarith
  have lo: "unat b * 256 + unat c < 65536"
    using unat_byte_less [of b] unat_byte_less [of c] by linarith
  have "unat (push_bit 16 (ucast a) OR push_bit 8 (ucast b) OR ucast c :: u32)
      = take_bit 32 (push_bit 16 (unat a) OR (push_bit 8 (unat b) OR unat c))"
    using take_bit_nat_eq_self [of "unat c" 32] less_trans [OF unat_byte_less, of "2 ^ 32" c]
    by (simp add: unsigned_or_eq unsigned_push_bit_eq)
  also have "push_bit 8 (unat b) OR unat c = unat b * 2 ^ 8 + unat c"
    by (rule push_or_add) simp
  also have "push_bit 16 (unat a) OR (unat b * 2 ^ 8 + unat c) = unat a * 2 ^ 16 + (unat b * 2 ^ 8 + unat c)"
    using lo by (intro push_or_add) simp
  finally show ?thesis using small by (simp add: take_bit_eq_mod)
qed


text \<open>Three bytes are four digits of the same value; a last group of one or two bytes is two or
  three digits, followed by padding.\<close>

abbreviation b64_digits :: "bool \<Rightarrow> nat list \<Rightarrow> nat list option" where
  "b64_digits \<equiv> digits_of base64_skip base64_digit"

lemma b64_digits_letter:
  "n < 64 \<Longrightarrow> b64_digits False (unat (ALPHABET ! n) # cs) = map_option ((#) n) (b64_digits False cs)"
  using ALPHABET_nth [of n] by (cases "b64_digits False cs") simp_all

lemma b64_digits_pad: "b64_digits p (0x3d # cs) = b64_digits True cs"
  by (simp add: base64_skip_def)

lemma sextet_bounds [simp]:
  "unat (drop_bit n (w :: u32) AND 0x3f) = unat w div 2 ^ n mod 64"
  "unat ((w :: u32) AND 0x3f) = unat w mod 64"
  using unat_drop_mask [of n w 6] unat_drop_mask [of 0 w 6] by (simp_all add: mask_eq_exp_minus_1)

lemma base64_chunk_ascii: "list_all (\<lambda>b. b < 0x80) (base64_chunk c)"
  by (auto simp: base64_chunk_def Let_def ALPHABET_nth(4))

lemma base64_encode_ascii: "list_all (\<lambda>b. b < 0x80) (base64_encode bs)"
  unfolding base64_encode_def list_all_iff
  using base64_chunk_ascii [unfolded list_all_iff] by auto

lemma ALPHABET_graphic:
  assumes "n < 64"
  shows "0x20 < ALPHABET ! n \<and> ALPHABET ! n < 0x7f"
proof -
  have "list_all (\<lambda>(n, c). 0x20 < c \<and> c < 0x7f) (enumerate 0 ALPHABET)"
    by (simp add: ALPHABET_def ascii_def)
  moreover have "length ALPHABET = 64" by (simp add: ALPHABET_def)
  ultimately show ?thesis using assms by (intro enumerate_all [where P = "\<lambda>_ c. 0x20 < c \<and> c < 0x7f"]) simp_all
qed

lemma base64_encode_graphic: "list_all (\<lambda>b. 0x20 < b \<and> b < 0x7f) (base64_encode bs)"
proof -
  have "list_all (\<lambda>b. 0x20 < b \<and> b < 0x7f) (base64_chunk c)" for c
    by (auto simp: base64_chunk_def Let_def ALPHABET_graphic)
  then show ?thesis unfolding base64_encode_def list_all_iff by auto
qed

lemma base64_encode_simps:
  "base64_encode [] = []"
  "base64_encode [a] = base64_chunk [a]"
  "base64_encode [a, b] = base64_chunk [a, b]"
  "base64_encode (a # b # c # rest) = base64_chunk [a, b, c] @ base64_encode rest"
  by (simp_all add: base64_encode_def chunks_step)

lemma induct_list3 [case_names 1 2 3 4]:
  assumes "P []" "\<And>a. P [a]" "\<And>a b. P [a, b]" "\<And>a b c rest. P rest \<Longrightarrow> P (a # b # c # rest)"
  shows "P xs"
  using assms by (induction_schema) (pat_completeness, lexicographic_order)

lemma sextets:
  fixes N :: nat
  assumes "N < 16777216"
  shows "N div 262144 mod 64 * 262144 + N div 4096 mod 64 * 4096 + N div 64 mod 64 * 64 + N mod 64 = N"
proof -
  have "N div 262144 mod 64 = N div 262144"
    using assms by simp
  moreover have "N div 4096 = 64 * (N div 262144) + N div 4096 mod 64"
    using div_mult2_eq [of N 4096 64] by simp
  moreover have "N div 64 = 64 * (N div 4096) + N div 64 mod 64"
    using div_mult2_eq [of N 64 64] by simp
  moreover have "N = 64 * (N div 64) + N mod 64" by simp
  ultimately show ?thesis by linarith
qed

lemma base64_group_value:
  fixes a b c :: byte
  defines "N \<equiv> unat a * 65536 + unat b * 256 + unat c"
  shows "N < 16777216" "c = 0 \<Longrightarrow> N mod 64 = 0" "b = 0 \<Longrightarrow> c = 0 \<Longrightarrow> N div 64 mod 64 = 0"
proof -
  show "N < 16777216"
    using unat_byte_less [of a] unat_byte_less [of b] unat_byte_less [of c] unfolding N_def
    by linarith
  show "c = 0 \<Longrightarrow> N mod 64 = 0"
    unfolding N_def by (simp; presburger)
  show "b = 0 \<Longrightarrow> c = 0 \<Longrightarrow> N div 64 mod 64 = 0"
    unfolding N_def by (simp; presburger)
qed

lemma base64_chunk_full:
  fixes a b c :: byte
  defines "N \<equiv> unat a * 65536 + unat b * 256 + unat c"
  shows "base64_chunk [a, b, c] = [ALPHABET ! (N div 262144 mod 64), ALPHABET ! (N div 4096 mod 64),
      ALPHABET ! (N div 64 mod 64), ALPHABET ! (N mod 64)]"
    and "base64_chunk [a, b] = take 3 (base64_chunk [a, b, 0]) @ [0x3d]"
    and "base64_chunk [a] = take 2 (base64_chunk [a, 0, 0]) @ [0x3d, 0x3d]"
proof -
  show "base64_chunk [a, b, c] = [ALPHABET ! (N div 262144 mod 64), ALPHABET ! (N div 4096 mod 64),
      ALPHABET ! (N div 64 mod 64), ALPHABET ! (N mod 64)]"
    unfolding base64_chunk_def Let_def N_def by (simp add: base64_word_value unat_drop_bit del: drop_bit_or)
qed (simp_all add: base64_chunk_def Let_def)

lemma b64_digits_encode:
  "\<exists>ds. b64_digits False (map unat (base64_encode bs)) = Some ds
     \<and> length bs = 6 * length ds div 8 \<and> from_be bs * 2 ^ (6 * length ds mod 8) = digits_value 6 ds"
proof (induction bs rule: induct_list3)
  case 1
  then show ?case by (simp add: base64_encode_simps)
next
  case (2 a)
  define N where "N = unat a * 65536 + unat (0::byte) * 256 + unat (0::byte)"
  have "base64_chunk [a] = [ALPHABET ! (N div 262144 mod 64), ALPHABET ! (N div 4096 mod 64), 0x3d, 0x3d]"
    unfolding base64_chunk_full(1,3) N_def by simp
  then have "b64_digits False (map unat (base64_encode [a])) = Some [N div 262144 mod 64, N div 4096 mod 64]"
    by (simp add: base64_encode_simps b64_digits_letter b64_digits_pad del: digits_of.simps(2))
  moreover have "N div 262144 mod 64 * 64 + N div 4096 mod 64 = unat a * 16"
    using sextets [OF base64_group_value(1), of a 0 0] base64_group_value(2,3) [where a = a and b = 0 and c = 0]
    unfolding N_def by (simp only: unsigned_0 refl simp_thms; linarith)
  ultimately show ?case by simp
next
  case (3 a b)
  define N where "N = unat a * 65536 + unat b * 256 + unat (0::byte)"
  have "base64_chunk [a, b] = [ALPHABET ! (N div 262144 mod 64), ALPHABET ! (N div 4096 mod 64),
      ALPHABET ! (N div 64 mod 64), 0x3d]"
    unfolding base64_chunk_full(1,2) N_def by simp
  then have "b64_digits False (map unat (base64_encode [a, b]))
      = Some [N div 262144 mod 64, N div 4096 mod 64, N div 64 mod 64]"
    by (simp add: base64_encode_simps b64_digits_letter b64_digits_pad del: digits_of.simps(2))
  moreover have "N div 262144 mod 64 * 4096 + N div 4096 mod 64 * 64 + N div 64 mod 64
      = unat a * 1024 + unat b * 4"
    using sextets [OF base64_group_value(1), of a b 0] base64_group_value(2) [where a = a and b = b and c = 0]
    unfolding N_def by (simp only: unsigned_0 refl simp_thms; linarith)
  ultimately show ?case by simp
next
  case (4 a b c rest)
  then obtain ds where ds: "b64_digits False (map unat (base64_encode rest)) = Some ds"
    and len: "length rest = 6 * length ds div 8"
    and val: "from_be rest * 2 ^ (6 * length ds mod 8) = digits_value 6 ds" by blast
  define N where "N = unat a * 65536 + unat b * 256 + unat c"
  let ?q = "[N div 262144 mod 64, N div 4096 mod 64, N div 64 mod 64, N mod 64]"
  have q: "digits_value 6 ?q = N"
    using sextets [of N] base64_group_value(1) [of a b c, folded N_def] by simp
  have dec: "b64_digits False (map unat (base64_encode (a # b # c # rest))) = Some (?q @ ds)"
    by (simp add: base64_encode_simps base64_chunk_full(1) [of a b c, folded N_def] b64_digits_letter ds del: digits_of.simps(2))
  have "(256::nat) ^ length rest * 2 ^ (6 * length ds mod 8)
      = 2 ^ (8 * (6 * length ds div 8) + 6 * length ds mod 8)"
    by (simp add: len power_add power_mult)
  then have pw: "(256::nat) ^ length rest * 2 ^ (6 * length ds mod 8) = 2 ^ (6 * length ds)"
    by (simp only: mult_div_mod_eq)
  have "from_be ([a, b, c] @ rest) * 2 ^ (6 * length ds mod 8)
      = N * (256 ^ length rest * 2 ^ (6 * length ds mod 8)) + from_be rest * 2 ^ (6 * length ds mod 8)"
    by (simp add: from_be_append N_def algebra_simps)
  also have "\<dots> = digits_value 6 (?q @ ds)"
    unfolding pw val digits_value_append q by simp
  finally have v: "from_be (a # b # c # rest) * 2 ^ (6 * length ds mod 8) = digits_value 6 (?q @ ds)"
    by simp
  have l: "6 * length (?q @ ds) = 8 * 3 + 6 * length ds" by simp
  have "6 * length (?q @ ds) mod 8 = 6 * length ds mod 8" "6 * length (?q @ ds) div 8 = 3 + length rest"
    unfolding l len by (simp_all only: mod_mult_self4 div_mult_self4 numeral_eq_iff simp_thms
        numeral_neq_zero)
  then show ?case
    using dec v by (intro exI [of _ "?q @ ds"]) simp
qed

lemma base64_decode_encode: "base64_decode (base64_encode bs) = Ok bs"
  unfolding base64_decode_def b64.decoder_spec chars_ascii [OF base64_encode_ascii]
  by (rule b64_digits_encode)

text \<open>Decoding what \<^verbatim>\<open>base64_encode\<close> produced gives the bytes back, for every
  length, padding included.\<close>

theorem base64_roundtrip: "base64_decode (base64_encode bs) = Ok bs"
  by (rule base64_decode_encode)

text \<open>\<^verbatim>\<open>base32_decode\<close> accepts a text exactly when it denotes base-32 digits (spaces,
  tabs, newlines and dashes ignored, padding only at the end) whose bits past the last full byte
  are all zero; the bytes it returns are the number those digits denote, so no secret decodes to a
  different seed.\<close>

theorem base32_decode_iff:
  "base32_decode s = Ok out \<longleftrightarrow>
     (\<exists>ds. digits_of base32_skip base32_digit False (chars s) = Some ds
        \<and> length out = 5 * length ds div 8
        \<and> from_be out * 2 ^ (5 * length ds mod 8) = digits_value 5 ds)"
  unfolding base32_decode_def by (rule b32.decoder_spec)

end
