(* ===== verification/Cbor.thy ===== *)
theory Cbor
  imports Prelude Rust_Str
begin

text \<open>
  \<^verbatim>\<open>crates/keyroost-ctap/src/cbor.rs\<close>: the CBOR subset of CTAP2, its encoder, its
  decoder with the nesting limit, the structural measure \<^verbatim>\<open>item_len\<close> and the splitters
  built on it.  A loop \<^verbatim>\<open>for _ in 0..arg\<close> is a recursion on the count; both recursions
  end because the depth limit bounds the nesting.  Slices \<^verbatim>\<open>&data[at..]\<close> are
  \<open>drop at data\<close>; \<open>item_len_at_le\<close> shows that they are always in range.
\<close>

definition MT_UINT :: byte where "MT_UINT = 0"
definition MT_NINT :: byte where "MT_NINT = 1"
definition MT_BYTES :: byte where "MT_BYTES = 2"
definition MT_TEXT :: byte where "MT_TEXT = 3"
definition MT_ARRAY :: byte where "MT_ARRAY = 4"
definition MT_MAP :: byte where "MT_MAP = 5"
definition MT_TAG :: byte where "MT_TAG = 6"
definition MT_SIMPLE :: byte where "MT_SIMPLE = 7"
definition SIMPLE_FALSE :: byte where "SIMPLE_FALSE = 20"
definition SIMPLE_TRUE :: byte where "SIMPLE_TRUE = 21"
definition SIMPLE_NULL :: byte where "SIMPLE_NULL = 22"
definition SIMPLE_UNDEFINED :: byte where "SIMPLE_UNDEFINED = 23"
definition DECODE_DEPTH_LIMIT :: nat where "DECODE_DEPTH_LIMIT = 16"

lemmas mt_defs [simp] = MT_UINT_def MT_NINT_def MT_BYTES_def MT_TEXT_def MT_ARRAY_def MT_MAP_def
  MT_TAG_def MT_SIMPLE_def SIMPLE_FALSE_def SIMPLE_TRUE_def SIMPLE_NULL_def SIMPLE_UNDEFINED_def
  DECODE_DEPTH_LIMIT_def

datatype cbor_value =
    UInt u64
  | NInt u64
  | Bytes bytes
  | Text bytes
  | Array "cbor_value list"
  | Map "(cbor_value \<times> cbor_value) list"
  | Bool bool
  | Null

datatype cbor_error =
    UnexpectedEnd
  | InvalidUtf8
  | UnsupportedType byte
  | UnsupportedAdditional byte
  | DepthLimit

subsection \<open>Accessors\<close>

fun as_uint :: "cbor_value \<Rightarrow> u64 option" where
  "as_uint (UInt n) = Some n"
| "as_uint _ = None"

fun as_text :: "cbor_value \<Rightarrow> bytes option" where
  "as_text (Text s) = Some s"
| "as_text _ = None"

fun as_bytes :: "cbor_value \<Rightarrow> bytes option" where
  "as_bytes (Bytes b) = Some b"
| "as_bytes _ = None"

fun as_array :: "cbor_value \<Rightarrow> cbor_value list option" where
  "as_array (Array a) = Some a"
| "as_array _ = None"

fun as_map :: "cbor_value \<Rightarrow> (cbor_value \<times> cbor_value) list option" where
  "as_map (Map m) = Some m"
| "as_map _ = None"

fun as_bool :: "cbor_value \<Rightarrow> bool option" where
  "as_bool (Bool b) = Some b"
| "as_bool _ = None"

fun find_uint_key :: "u64 \<Rightarrow> (cbor_value \<times> cbor_value) list \<Rightarrow> cbor_value option" where
  "find_uint_key key [] = None"
| "find_uint_key key ((k, v) # m) = (if as_uint k = Some key then Some v else find_uint_key key m)"

definition get_uint_key :: "cbor_value \<Rightarrow> u64 \<Rightarrow> cbor_value option" where
  "get_uint_key v key = (case as_map v of None \<Rightarrow> None | Some m \<Rightarrow> find_uint_key key m)"

subsection \<open>Encoding\<close>

definition encode_header :: "byte \<Rightarrow> u64 \<Rightarrow> bytes" where
  "encode_header major n =
     (let mt = push_bit 5 major in
      if n < 24 then [mt OR ucast n]
      else if n \<le> 0xff then [mt OR 24, ucast n]
      else if n \<le> 0xffff then (mt OR 25) # u16_to_be (ucast n)
      else if n \<le> 0xffffffff then (mt OR 26) # u32_to_be (ucast n)
      else (mt OR 27) # u64_to_be n)"

fun encode :: "cbor_value \<Rightarrow> bytes" where
  "encode (UInt n) = encode_header MT_UINT n"
| "encode (NInt n) = encode_header MT_NINT n"
| "encode (Bytes b) = encode_header MT_BYTES (word_of_nat (length b)) @ b"
| "encode (Text s) = encode_header MT_TEXT (word_of_nat (length s)) @ s"
| "encode (Array a) = encode_header MT_ARRAY (word_of_nat (length a)) @ concat (map encode a)"
| "encode (Map m) = encode_header MT_MAP (word_of_nat (length m))
     @ concat (map (\<lambda>(k, v). encode k @ encode v) m)"
| "encode (Bool b) = [push_bit 5 MT_SIMPLE OR (if b then SIMPLE_TRUE else SIMPLE_FALSE)]"
| "encode Null = [push_bit 5 MT_SIMPLE OR SIMPLE_NULL]"

definition array_header :: "nat \<Rightarrow> bytes" where
  "array_header len = encode_header MT_ARRAY (word_of_nat len)"

subsection \<open>Decoding\<close>

definition read_arg :: "bytes \<Rightarrow> byte \<Rightarrow> (u64 \<times> bytes, cbor_error) result" where
  "read_arg rest additional =
     (if additional \<le> 23 then Ok (ucast additional, rest)
      else if additional = 24 then
        (case rest of [] \<Rightarrow> Err UnexpectedEnd | a # r \<Rightarrow> Ok (ucast a, r))
      else if additional = 25 then
        (if length rest < 2 then Err UnexpectedEnd
         else Ok (ucast (u16_from_be (take 2 rest)), drop 2 rest))
      else if additional = 26 then
        (if length rest < 4 then Err UnexpectedEnd
         else Ok (ucast (u32_from_be (take 4 rest)), drop 4 rest))
      else if additional = 27 then
        (if length rest < 8 then Err UnexpectedEnd
         else Ok (u64_from_be (take 8 rest), drop 8 rest))
      else Err (UnsupportedAdditional additional))"

definition read_bytes :: "u64 \<Rightarrow> bytes \<Rightarrow> (bytes \<times> bytes, cbor_error) result" where
  "read_bytes arg rest =
     (if length rest < unat arg then Err UnexpectedEnd
      else Ok (take (unat arg) rest, drop (unat arg) rest))"

function (sequential)
  decode_at :: "bytes \<Rightarrow> nat \<Rightarrow> (cbor_value \<times> bytes, cbor_error) result"
and
  decode_items :: "nat \<Rightarrow> bytes \<Rightarrow> nat \<Rightarrow> (cbor_value list \<times> bytes, cbor_error) result"
and
  decode_entries :: "nat \<Rightarrow> bytes \<Rightarrow> nat \<Rightarrow> ((cbor_value \<times> cbor_value) list \<times> bytes, cbor_error) result"
where
  "decode_at data depth =
     (if DECODE_DEPTH_LIMIT < depth then Err DepthLimit
      else case data of
        [] \<Rightarrow> Err UnexpectedEnd
      | b # rest \<Rightarrow>
          (let major = drop_bit 5 b; additional = b AND 0x1f in
           bind_result (read_arg rest additional) (\<lambda>(arg, rest).
             if major = MT_UINT then Ok (UInt arg, rest)
             else if major = MT_NINT then Ok (NInt arg, rest)
             else if major = MT_BYTES then
               bind_result (read_bytes arg rest) (\<lambda>(bs, r). Ok (Bytes bs, r))
             else if major = MT_TEXT then
               bind_result (read_bytes arg rest) (\<lambda>(bs, r).
                 case from_utf8 bs of None \<Rightarrow> Err InvalidUtf8 | Some s \<Rightarrow> Ok (Text s, r))
             else if major = MT_ARRAY then
               bind_result (decode_items (unat arg) rest (depth + 1)) (\<lambda>(items, r). Ok (Array items, r))
             else if major = MT_MAP then
               bind_result (decode_entries (unat arg) rest (depth + 1)) (\<lambda>(es, r). Ok (Map es, r))
             else if major = MT_SIMPLE then
               (if additional = SIMPLE_FALSE then Ok (Bool False, rest)
                else if additional = SIMPLE_TRUE then Ok (Bool True, rest)
                else if additional = SIMPLE_NULL \<or> additional = SIMPLE_UNDEFINED then Ok (Null, rest)
                else Err (UnsupportedAdditional additional))
             else Err (UnsupportedType major))))"
| "decode_items 0 data depth = Ok ([], data)"
| "decode_items (Suc n) data depth =
     bind_result (decode_at data depth) (\<lambda>(v, r).
       bind_result (decode_items n r depth) (\<lambda>(vs, r). Ok (v # vs, r)))"
| "decode_entries 0 data depth = Ok ([], data)"
| "decode_entries (Suc n) data depth =
     bind_result (decode_at data depth) (\<lambda>(k, r).
       bind_result (decode_at r depth) (\<lambda>(v, r).
         bind_result (decode_entries n r depth) (\<lambda>(es, r). Ok ((k, v) # es, r))))"
  by pat_completeness auto
termination
  by (relation "measures [\<lambda>x. case x of Inl (data, depth) \<Rightarrow> 18 - depth
        | Inr (Inl (n, data, depth)) \<Rightarrow> 18 - depth | Inr (Inr (n, data, depth)) \<Rightarrow> 18 - depth,
      \<lambda>x. case x of Inl _ \<Rightarrow> 0 | Inr (Inl (n, _)) \<Rightarrow> n | Inr (Inr (n, _)) \<Rightarrow> n]") auto

declare decode_at.simps [simp del]

definition decode :: "bytes \<Rightarrow> (cbor_value \<times> bytes, cbor_error) result" where
  "decode data = decode_at data 0"

subsection \<open>Measuring\<close>

text \<open>The local closure \<^verbatim>\<open>body_from\<close>.\<close>

definition body_from :: "bytes \<Rightarrow> nat \<Rightarrow> nat \<Rightarrow> (nat, cbor_error) result" where
  "body_from data header len =
     (case checked_add_usize header len of
        None \<Rightarrow> Err UnexpectedEnd
      | Some tot \<Rightarrow> if length data < tot then Err UnexpectedEnd else Ok tot)"

function (sequential)
  item_len_at :: "bytes \<Rightarrow> nat \<Rightarrow> (nat, cbor_error) result"
and
  item_len_loop :: "nat \<Rightarrow> bytes \<Rightarrow> nat \<Rightarrow> nat \<Rightarrow> (nat, cbor_error) result"
where
  "item_len_at data depth =
     (if DECODE_DEPTH_LIMIT < depth then Err DepthLimit
      else case data of
        [] \<Rightarrow> Err UnexpectedEnd
      | b # rest \<Rightarrow>
          (let major = drop_bit 5 b; additional = b AND 0x1f in
           bind_result (read_arg rest additional) (\<lambda>(arg, after).
             let header = length data - length after in
             if major = MT_UINT \<or> major = MT_NINT then Ok header
             else if major = MT_BYTES \<or> major = MT_TEXT then body_from data header (unat arg)
             else if major = MT_ARRAY \<or> major = MT_MAP then
               (case (if major = MT_MAP then checked_mul_u64 (unat arg) 2 else Some (unat arg)) of
                  None \<Rightarrow> Err UnexpectedEnd
                | Some count \<Rightarrow> item_len_loop count data header (depth + 1))
             else if major = MT_TAG then
               bind_result (item_len_at (drop header data) (depth + 1)) (body_from data header)
             else Ok header)))"
| "item_len_loop 0 data at depth = Ok at"
| "item_len_loop (Suc n) data at depth =
     bind_result (item_len_at (drop at data) depth) (\<lambda>len.
       case checked_add_usize at len of
         None \<Rightarrow> Err UnexpectedEnd
       | Some at' \<Rightarrow> item_len_loop n data at' depth)"
  by pat_completeness auto
termination
  by (relation "measures [\<lambda>x. case x of Inl (data, depth) \<Rightarrow> 18 - depth | Inr (n, data, at, depth) \<Rightarrow> 18 - depth,
      \<lambda>x. case x of Inl _ \<Rightarrow> 0 | Inr (n, _) \<Rightarrow> n]") auto

declare item_len_at.simps [simp del]

definition item_len :: "bytes \<Rightarrow> (nat, cbor_error) result" where
  "item_len data = item_len_at data 0"

fun split_array_loop :: "nat \<Rightarrow> bytes \<Rightarrow> (bytes list \<times> bytes, cbor_error) result" where
  "split_array_loop 0 rest = Ok ([], rest)"
| "split_array_loop (Suc n) rest =
     bind_result (item_len_at rest 1) (\<lambda>len.
       bind_result (split_array_loop n (drop len rest)) (\<lambda>(items, r). Ok (take len rest # items, r)))"

definition split_array :: "bytes \<Rightarrow> (bytes list \<times> bytes, cbor_error) result" where
  "split_array data =
     (case data of
        [] \<Rightarrow> Err UnexpectedEnd
      | b # rest \<Rightarrow>
          if drop_bit 5 b \<noteq> MT_ARRAY then Err (UnsupportedType (drop_bit 5 b))
          else bind_result (read_arg rest (b AND 0x1f)) (\<lambda>(count, rest).
            split_array_loop (unat count) rest))"

fun split_map_loop :: "nat \<Rightarrow> bytes \<Rightarrow> ((bytes \<times> bytes) list \<times> bytes, cbor_error) result" where
  "split_map_loop 0 rest = Ok ([], rest)"
| "split_map_loop (Suc n) rest =
     bind_result (item_len_at rest 1) (\<lambda>klen.
       let r = drop klen rest in
       bind_result (item_len_at r 1) (\<lambda>vlen.
         bind_result (split_map_loop n (drop vlen r)) (\<lambda>(pairs, r').
           Ok ((take klen rest, take vlen r) # pairs, r'))))"

definition split_map :: "bytes \<Rightarrow> ((bytes \<times> bytes) list \<times> bytes, cbor_error) result" where
  "split_map data =
     (case data of
        [] \<Rightarrow> Err UnexpectedEnd
      | b # rest \<Rightarrow>
          if drop_bit 5 b \<noteq> MT_MAP then Err (UnsupportedType (drop_bit 5 b))
          else bind_result (read_arg rest (b AND 0x1f)) (\<lambda>(count, rest).
            split_map_loop (unat count) rest))"

text \<open>The values \<open>decode_at\<close> can give back at a nesting depth: within the limit, of lengths a
  \<^verbatim>\<open>u64\<close> can hold, with valid text.\<close>

fun fits :: "nat \<Rightarrow> cbor_value \<Rightarrow> bool" where
  "fits d (Bytes b) \<longleftrightarrow> d \<le> DECODE_DEPTH_LIMIT \<and> length b < 2 ^ 64"
| "fits d (Text s) \<longleftrightarrow> d \<le> DECODE_DEPTH_LIMIT \<and> length s < 2 ^ 64 \<and> utf8_valid s"
| "fits d (Array a) \<longleftrightarrow> d \<le> DECODE_DEPTH_LIMIT \<and> length a < 2 ^ 64 \<and> list_all (fits (d + 1)) a"
| "fits d (Map m) \<longleftrightarrow> d \<le> DECODE_DEPTH_LIMIT \<and> length m < 2 ^ 64
     \<and> list_all (\<lambda>(k, v). fits (d + 1) k \<and> fits (d + 1) v) m"
| "fits d _ \<longleftrightarrow> d \<le> DECODE_DEPTH_LIMIT"

subsection \<open>Headers\<close>

lemma initial_byte:
  fixes major a :: byte
  assumes "major < 8" "a < 32"
  shows "drop_bit 5 (push_bit 5 major OR a) = major" "(push_bit 5 major OR a) AND 0x1f = a"
proof -
  have m: "take_bit 3 major = major" and a: "take_bit 5 a = a"
    using assms by (simp_all add: word_unat_eq_iff unsigned_take_bit_eq take_bit_nat_eq_self_iff
        word_less_nat_alt)
  then have "bit major n \<Longrightarrow> n < 3" "bit a n \<Longrightarrow> n < 5" for n
    by (metis bit_take_bit_iff)+
  note bits = this
  show "drop_bit 5 (push_bit 5 major OR a) = major"
    by (rule bit_word_eqI) (auto simp: bit_simps dest: bits)
  have "(push_bit 5 major OR a) AND mask 5 = a"
    by (rule bit_word_eqI) (auto simp: bit_simps dest: bits)
  then show "(push_bit 5 major OR a) AND 0x1f = a" by (simp add: mask_eq_exp_minus_1)
qed

text \<open>What a header is: its first byte carries the major type, the rest reads back as the argument.\<close>

lemma encode_header_read:
  assumes "major < 8"
  obtains b tail where "encode_header major n = b # tail" "drop_bit 5 b = major"
    "\<And>r. read_arg (tail @ r) (b AND 0x1f) = Ok (n, r)"
proof -
  consider "n < 24" | "\<not> n < 24" "n \<le> 0xff" | "\<not> n < 24" "\<not> n \<le> 0xff" "n \<le> 0xffff"
    | "\<not> n < 24" "\<not> n \<le> 0xff" "\<not> n \<le> 0xffff" "n \<le> 0xffffffff"
    | "\<not> n < 24" "\<not> n \<le> 0xff" "\<not> n \<le> 0xffff" "\<not> n \<le> 0xffffffff" by blast
  then show thesis
  proof cases
    case 1
    then have n: "unat n < 24" by (simp add: word_less_nat_alt)
    then have "unat (ucast n :: byte) < 24" using unat_ucast_small [of n, where ?'a = 8] by simp
    then have "ucast n < (32::byte)" "ucast n \<le> (23::byte)"
      by (simp_all add: word_less_nat_alt word_le_nat_alt)
    moreover have "ucast (ucast n :: byte) = n" using n by (intro ucast_ucast_small) simp
    ultimately show thesis
      using that [of "push_bit 5 major OR ucast n" "[]"] 1 initial_byte [OF assms, of "ucast n"]
      by (simp add: encode_header_def read_arg_def Let_def)
  next
    case 2
    then have "ucast (ucast n :: byte) = n"
      by (intro ucast_ucast_small) (simp add: word_le_nat_alt)
    with 2 show thesis
      using that [of "push_bit 5 major OR 24" "[ucast n]"] initial_byte [OF assms, of 24]
      by (simp add: encode_header_def read_arg_def Let_def)
  next
    case 3
    then have "ucast (ucast n :: u16) = n"
      by (intro ucast_ucast_small) (simp add: word_le_nat_alt)
    with 3 show thesis
      using that [of "push_bit 5 major OR 25" "u16_to_be (ucast n)"] initial_byte [OF assms, of 25]
      by (simp add: encode_header_def read_arg_def be_simps Let_def)
  next
    case 4
    then have "ucast (ucast n :: u32) = n"
      by (intro ucast_ucast_small) (simp add: word_le_nat_alt)
    with 4 show thesis
      using that [of "push_bit 5 major OR 26" "u32_to_be (ucast n)"] initial_byte [OF assms, of 26]
      by (simp add: encode_header_def read_arg_def be_simps Let_def)
  next
    case 5
    then show thesis
      using that [of "push_bit 5 major OR 27" "u64_to_be n"] initial_byte [OF assms, of 27]
      by (simp add: encode_header_def read_arg_def be_simps Let_def)
  qed
qed

lemma decode_at_header:
  assumes "major < 8" "d \<le> 16"
  shows "decode_at (encode_header major n @ r) d =
     (if major = MT_UINT then Ok (UInt n, r)
      else if major = MT_NINT then Ok (NInt n, r)
      else if major = MT_BYTES then bind_result (read_bytes n r) (\<lambda>(bs, r). Ok (Bytes bs, r))
      else if major = MT_TEXT then
        bind_result (read_bytes n r) (\<lambda>(bs, r).
          case from_utf8 bs of None \<Rightarrow> Err InvalidUtf8 | Some s \<Rightarrow> Ok (Text s, r))
      else if major = MT_ARRAY then
        bind_result (decode_items (unat n) r (d + 1)) (\<lambda>(items, r). Ok (Array items, r))
      else if major = MT_MAP then
        bind_result (decode_entries (unat n) r (d + 1)) (\<lambda>(es, r). Ok (Map es, r))
      else decode_at (encode_header major n @ r) d)"
proof -
  obtain b tail where "encode_header major n = b # tail" "drop_bit 5 b = major"
    "read_arg (tail @ r) (b AND 0x1f) = Ok (n, r)"
    by (rule encode_header_read [OF assms(1), of n]) blast
  then show ?thesis using assms(2) by (simp add: decode_at.simps)
qed

lemma read_bytes_append: "length b < 2 ^ 64 \<Longrightarrow> read_bytes (word_of_nat (length b)) (b @ r) = Ok (b, r)"
  by (simp add: read_bytes_def unat_of_nat)

lemma decode_items_encode:
  assumes "\<And>v r. v \<in> set vs \<Longrightarrow> decode_at (encode v @ r) d = Ok (v, r)"
  shows "decode_items (length vs) (concat (map encode vs) @ r) d = Ok (vs, r)"
  using assms by (induction vs arbitrary: r) auto

lemma decode_entries_encode:
  assumes "\<And>k v r. (k, v) \<in> set m \<Longrightarrow> decode_at (encode k @ r) d = Ok (k, r)"
    and "\<And>k v r. (k, v) \<in> set m \<Longrightarrow> decode_at (encode v @ r) d = Ok (v, r)"
  shows "decode_entries (length m) (concat (map (\<lambda>(k, v). encode k @ encode v) m) @ r) d = Ok (m, r)"
  using assms
proof (induction m arbitrary: r)
  case (Cons e m)
  obtain k v where e: "e = (k, v)" by (cases e)
  have "decode_entries (length m) (concat (map (\<lambda>(k, v). encode k @ encode v) m) @ r) d = Ok (m, r)"
    using Cons.prems by (intro Cons.IH) (metis list.set_intros(2))+
  with Cons.prems [of k v] show ?case by (simp add: e)
qed simp

lemma decode_at_encode: "fits d v \<Longrightarrow> decode_at (encode v @ r) d = Ok (v, r)"
proof (induction v arbitrary: d r rule: encode.induct)
  case (5 a)
  then have "decode_items (length a) (concat (map encode a) @ r) (d + 1) = Ok (a, r)"
    by (intro decode_items_encode) (auto simp: list_all_iff)
  with 5 show ?case by (simp add: decode_at_header unat_of_nat)
next
  case (6 m)
  have "fits (d + 1) k \<and> fits (d + 1) v" if "(k, v) \<in> set m" for k v
    using "6.prems" that by (auto simp: list_all_iff)
  then have "decode_entries (length m) (concat (map (\<lambda>(k, v). encode k @ encode v) m) @ r) (d + 1) = Ok (m, r)"
    using "6.IH" by (intro decode_entries_encode) blast+
  with "6.prems" show ?case by (simp add: decode_at_header unat_of_nat)
next
  case (7 b)
  then show ?case by (simp add: decode_at.simps read_arg_def)
next
  case 8
  then show ?case by (simp add: decode_at.simps read_arg_def)
qed (simp_all add: decode_at_header read_bytes_append from_utf8_def)

subsection \<open>What a successful decode consumed\<close>

lemma length_encode_header:
  "length (encode_header m n) = (if n < 24 then 1 else if n \<le> 0xff then 2 else if n \<le> 0xffff then 3
     else if n \<le> 0xffffffff then 5 else 9)"
  by (simp add: encode_header_def Let_def)

lemma read_arg_consumes:
  assumes "read_arg rest a = Ok (n, r)"
  shows "\<exists>p. rest = p @ r \<and> (\<forall>m. length (encode_header m n) \<le> Suc (length p))
    \<and> (\<forall>t. read_arg (p @ t) a = Ok (n, t))"
proof -
  consider "a \<le> 23" | "\<not> a \<le> 23" "a = 24" | "a = 25" | "a = 26" | "a = 27"
    | "\<not> a \<le> 23" "a \<notin> {24, 25, 26, 27}" by auto
  then show ?thesis
  proof cases
    case 1
    then have "n < 24"
      using assms by (auto simp: read_arg_def word_le_nat_alt word_less_nat_alt)
    then show ?thesis using assms 1 by (auto simp: read_arg_def length_encode_header intro!: exI [of _ "[]"])
  next
    case 2
    then obtain x where "rest = x # r" "n = ucast x"
      using assms by (auto simp: read_arg_def split: list.splits)
    moreover from this have "n \<le> 0xff"
      using unat_byte_less [of x] by (simp add: word_le_nat_alt)
    ultimately show ?thesis using 2 by (intro exI [of _ "[x]"]) (simp add: length_encode_header read_arg_def)
  next
    case 3
    then have n: "n = ucast (u16_from_be (take 2 rest))" "r = drop 2 rest" "2 \<le> length rest"
      using assms by (auto simp: read_arg_def split: if_splits)
    then have "n \<le> 0xffff"
      using unsigned_less [of "u16_from_be (take 2 rest)", where ?'a = nat]
      by (simp add: word_le_nat_alt unsigned_ucast_eq take_bit_eq_mod)
    then show ?thesis using n 3 by (intro exI [of _ "take 2 rest"]) (simp add: length_encode_header read_arg_def)
  next
    case 4
    then have n: "n = ucast (u32_from_be (take 4 rest))" "r = drop 4 rest" "4 \<le> length rest"
      using assms by (auto simp: read_arg_def split: if_splits)
    then have "n \<le> 0xffffffff"
      using unsigned_less [of "u32_from_be (take 4 rest)", where ?'a = nat]
      by (simp add: word_le_nat_alt unsigned_ucast_eq take_bit_eq_mod)
    then show ?thesis using n 4 by (intro exI [of _ "take 4 rest"]) (simp add: length_encode_header read_arg_def)
  next
    case 5
    then have "r = drop 8 rest" "8 \<le> length rest" "n = u64_from_be (take 8 rest)"
      using assms by (auto simp: read_arg_def split: if_splits)
    then show ?thesis
      using 5 by (intro exI [of _ "take 8 rest"]) (simp add: length_encode_header read_arg_def)
  next
    case 6
    then show ?thesis using assms by (simp add: read_arg_def)
  qed
qed

text \<open>One step of the decoder, as a case analysis.\<close>

lemma decode_at_cases:
  assumes "decode_at data d = Ok (v, r)"
  obtains b p arg s where "d \<le> 16" "data = b # p @ s" "read_arg (p @ s) (b AND 0x1f) = Ok (arg, s)"
    "\<And>m. length (encode_header m arg) \<le> Suc (length p)"
    "drop_bit 5 b = MT_UINT \<and> v = UInt arg \<and> r = s
     \<or> drop_bit 5 b = MT_NINT \<and> v = NInt arg \<and> r = s
     \<or> drop_bit 5 b = MT_BYTES \<and> (\<exists>bs. v = Bytes bs \<and> read_bytes arg s = Ok (bs, r))
     \<or> drop_bit 5 b = MT_TEXT \<and> (\<exists>bs. v = Text bs \<and> utf8_valid bs \<and> read_bytes arg s = Ok (bs, r))
     \<or> drop_bit 5 b = MT_ARRAY \<and> (\<exists>vs. v = Array vs \<and> decode_items (unat arg) s (d + 1) = Ok (vs, r))
     \<or> drop_bit 5 b = MT_MAP \<and> (\<exists>es. v = Map es \<and> decode_entries (unat arg) s (d + 1) = Ok (es, r))
     \<or> drop_bit 5 b = MT_SIMPLE \<and> (v = Null \<or> (\<exists>x. v = Bool x)) \<and> r = s"
proof -
  from assms obtain b rest arg s where *: "d \<le> 16" "data = b # rest"
    "read_arg rest (b AND 0x1f) = Ok (arg, s)"
    by (auto simp: decode_at.simps Let_def split: if_splits list.splits)
  obtain p where p: "rest = p @ s" "\<And>m. length (encode_header m arg) \<le> Suc (length p)"
    using read_arg_consumes [OF *(3)] by blast
  define mj where "mj = drop_bit 5 b"
  have step: "(if mj = 0 then Ok (UInt arg, s)
      else if mj = 1 then Ok (NInt arg, s)
      else if mj = 2 then bind_result (read_bytes arg s) (\<lambda>(bs, r). Ok (Bytes bs, r))
      else if mj = 3 then bind_result (read_bytes arg s) (\<lambda>(bs, r).
        case from_utf8 bs of None \<Rightarrow> Err InvalidUtf8 | Some x \<Rightarrow> Ok (Text x, r))
      else if mj = 4 then bind_result (decode_items (unat arg) s (d + 1)) (\<lambda>(xs, r). Ok (Array xs, r))
      else if mj = 5 then bind_result (decode_entries (unat arg) s (d + 1)) (\<lambda>(xs, r). Ok (Map xs, r))
      else if mj = 7 then
        (if b AND 0x1f = 20 then Ok (Bool False, s) else if b AND 0x1f = 21 then Ok (Bool True, s)
         else if b AND 0x1f = 22 \<or> b AND 0x1f = 23 then Ok (Null, s)
         else Err (UnsupportedAdditional (b AND 0x1f)))
      else Err (UnsupportedType mj)) = Ok (v, r)"
  proof -
    have nd: "(16 < d) = False" using *(1) by simp
    show ?thesis using assms unfolding *(2)
      by (subst (asm) decode_at.simps)
         (simp only: nd list.case Let_def *(3) bind_result.simps prod.case mt_defs mj_def if_False)
  qed
  consider "mj = 0" | "mj = 1" | "mj = 2" | "mj = 3" | "mj = 4" | "mj = 5" | "mj = 7"
    | "mj \<notin> {0, 1, 2, 3, 4, 5, 7}" by blast
  then show thesis
    by cases
      (rule that [of b p s arg];
       use *(1,3) p *(2) step in \<open>force simp flip: mj_def simp: from_utf8_def split: if_splits option.splits\<close>)+
qed

lemma depth_induct [case_names beyond within]:
  assumes "\<And>d. 16 < d \<Longrightarrow> P d" and "\<And>d. d \<le> 16 \<Longrightarrow> P (d + 1) \<Longrightarrow> P d"
  shows "P (d :: nat)"
proof (induction "17 - d" arbitrary: d)
  case 0
  then show ?case by (intro assms(1)) simp
next
  case (Suc k)
  from Suc.hyps(2) have "d \<le> 16" "k = 17 - (d + 1)" by linarith+
  then show ?case using assms(2) Suc.hyps(1) by blast
qed

lemma decode_at_beyond: "16 < d \<Longrightarrow> decode_at data d = Err DepthLimit"
  by (simp add: decode_at.simps)

definition consumed :: "bytes \<Rightarrow> bytes \<Rightarrow> bytes \<Rightarrow> bool" where
  "consumed data enc r \<longleftrightarrow> (\<exists>pre. data = pre @ r \<and> length enc \<le> length pre)"

lemma consumed_trans: "consumed data x s \<Longrightarrow> consumed s y r \<Longrightarrow> consumed data (x @ y) r"
  by (fastforce simp: consumed_def)

lemma consumed_refl [simp]: "consumed r [] r"
  by (simp add: consumed_def)

lemma decode_items_sound:
  assumes "\<And>data v r. decode_at data d = Ok (v, r) \<Longrightarrow> fits d v \<and> consumed data (encode v) r"
  shows "decode_items n data d = Ok (vs, r) \<Longrightarrow>
    length vs = n \<and> list_all (fits d) vs \<and> consumed data (concat (map encode vs)) r"
  by (induction n arbitrary: data vs) (fastforce dest: assms intro: consumed_trans)+

lemma decode_entries_sound:
  assumes "\<And>data v r. decode_at data d = Ok (v, r) \<Longrightarrow> fits d v \<and> consumed data (encode v) r"
  shows "decode_entries n data d = Ok (es, r) \<Longrightarrow>
    length es = n \<and> list_all (\<lambda>(k, v). fits d k \<and> fits d v) es
    \<and> consumed data (concat (map (\<lambda>(k, v). encode k @ encode v) es)) r"
proof (induction n arbitrary: data es)
  case (Suc n)
  then obtain k s v t es' where *: "decode_at data d = Ok (k, s)" "decode_at s d = Ok (v, t)"
    "decode_entries n t d = Ok (es', r)" "es = (k, v) # es'" by auto
  from assms [OF *(1)] assms [OF *(2)] Suc.IH [OF *(3)] *(4) show ?case
    by (auto intro: consumed_trans)
qed simp

lemma header_consumed:
  "(\<And>m. length (encode_header m arg) \<le> Suc (length p)) \<Longrightarrow> consumed (b # p @ s) (encode_header m arg) s"
  unfolding consumed_def by (rule exI [of _ "b # p"]) simp

lemma read_bytes_consumed:
  "read_bytes arg s = Ok (bs, r) \<Longrightarrow> length bs = unat arg \<and> consumed s bs r"
  by (auto simp: read_bytes_def consumed_def split: if_splits intro!: exI [of _ bs])

lemma decode_at_sound: "decode_at data d = Ok (v, r) \<Longrightarrow> fits d v \<and> consumed data (encode v) r"
proof (induction d arbitrary: data v r rule: depth_induct)
  case (within d)
  note IH = within.IH
  from within.prems show ?case
  proof (cases rule: decode_at_cases)
    case (1 b p arg s)
    note hdr = header_consumed [OF 1(4)]
    have lt: "unat arg < 2 ^ 64" using unsigned_less [of arg, where ?'a = nat] by simp
    have one: "consumed (b # p @ s) [x] s" for x
      unfolding consumed_def by (rule exI [of _ "b # p"]) simp
    from 1(5) show ?thesis
    proof (elim disjE conjE exE)
      fix vs assume v: "v = Array vs" and it: "decode_items (unat arg) s (d + 1) = Ok (vs, r)"
      note s = decode_items_sound [OF IH it]
      then have "word_of_nat (length vs) = arg" by simp
      with v s lt 1(1,2) hdr show ?thesis by (auto intro: consumed_trans)
    next
      fix es assume v: "v = Map es" and it: "decode_entries (unat arg) s (d + 1) = Ok (es, r)"
      note s = decode_entries_sound [OF IH it]
      then have "word_of_nat (length es) = arg" by simp
      with v s lt 1(1,2) hdr show ?thesis by (auto intro: consumed_trans)
    next
      fix bs assume v: "v = Bytes bs" and it: "read_bytes arg s = Ok (bs, r)"
      note s = read_bytes_consumed [OF it]
      then have "word_of_nat (length bs) = arg" by simp
      with v s lt 1(1,2) hdr show ?thesis by (auto intro: consumed_trans)
    next
      fix bs assume v: "v = Text bs" "utf8_valid bs" and it: "read_bytes arg s = Ok (bs, r)"
      note s = read_bytes_consumed [OF it]
      then have "word_of_nat (length bs) = arg" by simp
      with v s lt 1(1,2) hdr show ?thesis by (auto intro: consumed_trans)
    qed (use 1(1,2) hdr one in auto)
  qed
qed (simp add: decode_at_beyond)

subsection \<open>Measuring agrees with decoding\<close>

lemma item_len_at_step:
  assumes "d \<le> 16" "read_arg (p @ s) (b AND 0x1f) = Ok (arg, s)"
  shows "item_len_at (b # p @ s) d =
     (let major = drop_bit 5 b; header = Suc (length p) in
      if major = 0 \<or> major = 1 then Ok header
      else if major = 2 \<or> major = 3 then body_from (b # p @ s) header (unat arg)
      else if major = 4 \<or> major = 5 then
        (case (if major = 5 then checked_mul_u64 (unat arg) 2 else Some (unat arg)) of
           None \<Rightarrow> Err UnexpectedEnd
         | Some count \<Rightarrow> item_len_loop count (b # p @ s) header (d + 1))
      else if major = 6 then bind_result (item_len_at s (d + 1)) (body_from (b # p @ s) header)
      else Ok header)"
proof -
  have nd: "(16 < d) = False" using assms(1) by simp
  have h: "length (b # p @ s) - length s = Suc (length p)" by simp
  have dr: "drop (Suc (length p)) (b # p @ s) = s" by simp
  show ?thesis
    by (subst item_len_at.simps)
       (simp only: nd list.case Let_def assms(2) bind_result.simps prod.case mt_defs if_False h dr)
qed

definition measures_at :: "nat \<Rightarrow> bool" where
  "measures_at d \<longleftrightarrow> (\<forall>data v r. decode_at data d = Ok (v, r) \<longrightarrow> length data < usize_limit \<longrightarrow>
      (\<exists>pre. data = pre @ r \<and> item_len_at data d = Ok (length pre)))"

lemma measures_atD:
  "measures_at d \<Longrightarrow> decode_at data d = Ok (v, r) \<Longrightarrow> length data < usize_limit \<Longrightarrow>
     \<exists>pre. data = pre @ r \<and> item_len_at data d = Ok (length pre)"
  by (simp add: measures_at_def)

lemma encode_header_pos: "0 < length (encode_header m n)"
  by (simp add: length_encode_header)

lemma encode_pos: "0 < length (encode v)"
  using encode_header_pos by (cases v) (auto simp: trans_less_add1)

lemma encode_entries_length: "2 * length es \<le> length (concat (map (\<lambda>(k, v). encode k @ encode v) es))"
proof (induction es)
  case (Cons e es)
  obtain k v where "e = (k, v)" by (cases e)
  then have "length (concat (map (\<lambda>(k, v). encode k @ encode v) (e # es)))
      = length (encode k) + length (encode v) + length (concat (map (\<lambda>(k, v). encode k @ encode v) es))"
    by simp
  moreover have "2 * length (e # es) = 2 + 2 * length es" by simp
  ultimately show ?case using Cons encode_pos [of k] encode_pos [of v] by linarith
qed simp

lemma item_len_loop_items:
  assumes "measures_at d"
  shows "decode_items n data d = Ok (vs, r) \<Longrightarrow> length (hdr @ data) < usize_limit \<Longrightarrow>
    \<exists>pre. data = pre @ r \<and> item_len_loop n (hdr @ data) (length hdr) d = Ok (length hdr + length pre)"
proof (induction n arbitrary: data vs hdr)
  case (Suc n)
  then obtain v s vs' where *: "decode_at data d = Ok (v, s)" "decode_items n s d = Ok (vs', r)" by auto
  then obtain pre where pre: "data = pre @ s" "item_len_at data d = Ok (length pre)"
    using measures_atD [OF assms *(1)] Suc.prems(2) by auto
  obtain pre' where "s = pre' @ r"
    "item_len_loop n ((hdr @ pre) @ s) (length (hdr @ pre)) d = Ok (length (hdr @ pre) + length pre')"
    using Suc.IH [OF *(2), of "hdr @ pre"] Suc.prems(2) pre(1) by auto
  with pre Suc.prems(2) show ?case
    by (intro exI [of _ "pre @ pre'"]) (simp add: checked_add_usize_def add.assoc)
qed simp

lemma item_len_loop_entries:
  assumes "measures_at d"
  shows "decode_entries n data d = Ok (es, r) \<Longrightarrow> length (hdr @ data) < usize_limit \<Longrightarrow>
    \<exists>pre. data = pre @ r \<and> item_len_loop (n * 2) (hdr @ data) (length hdr) d = Ok (length hdr + length pre)"
proof (induction n arbitrary: data es hdr)
  case (Suc n)
  then obtain k s v t es' where *: "decode_at data d = Ok (k, s)" "decode_at s d = Ok (v, t)"
    "decode_entries n t d = Ok (es', r)" by auto
  then obtain p1 where p1: "data = p1 @ s" "item_len_at data d = Ok (length p1)"
    using measures_atD [OF assms *(1)] Suc.prems(2) by auto
  then obtain p2 where p2: "s = p2 @ t" "item_len_at s d = Ok (length p2)"
    using measures_atD [OF assms *(2)] Suc.prems(2) by auto
  obtain p3 where "t = p3 @ r"
    "item_len_loop (n * 2) ((hdr @ p1 @ p2) @ t) (length (hdr @ p1 @ p2)) d
      = Ok (length (hdr @ p1 @ p2) + length p3)"
    using Suc.IH [OF *(3), of "hdr @ p1 @ p2"] Suc.prems(2) p1(1) p2(1) by auto
  with p1 p2 Suc.prems(2) show ?case
    by (intro exI [of _ "p1 @ p2 @ p3"]) (simp add: checked_add_usize_def add.assoc)
qed simp

lemma measures_at_all: "measures_at d"
proof (induction d rule: depth_induct)
  case (within d)
  note IH = within.IH
  have "\<exists>pre. data = pre @ r \<and> item_len_at data d = Ok (length pre)"
    if ok: "decode_at data d = Ok (v, r)" and lim: "length data < usize_limit" for data v r
    using ok
  proof (cases rule: decode_at_cases)
    case (1 b p arg s)
    let ?h = "b # p"
    have data: "data = ?h @ s" using 1(2) by simp
    note step = item_len_at_step [OF 1(1,3)]
    have small: "length (?h @ s) < usize_limit" using lim data by simp
    from 1(5) show ?thesis
    proof (elim disjE conjE exE)
      fix vs assume mj: "drop_bit 5 b = MT_ARRAY"
        and it: "decode_items (unat arg) s (d + 1) = Ok (vs, r)"
      obtain pre where "s = pre @ r"
        "item_len_loop (unat arg) (?h @ s) (length ?h) (d + 1) = Ok (length ?h + length pre)"
        using item_len_loop_items [OF IH it small] by blast
      with step mj data show ?thesis by (intro exI [of _ "?h @ pre"]) simp
    next
      fix es assume mj: "drop_bit 5 b = MT_MAP"
        and it: "decode_entries (unat arg) s (d + 1) = Ok (es, r)"
      obtain pre where pre: "s = pre @ r"
        "item_len_loop (unat arg * 2) (?h @ s) (length ?h) (d + 1) = Ok (length ?h + length pre)"
        using item_len_loop_entries [OF IH it small] by blast
      have "unat arg * 2 \<le> length s"
        using decode_entries_sound [OF decode_at_sound it] encode_entries_length [of es]
        by (auto simp: consumed_def)
      then have "unat arg * 2 < 2 ^ 64" using small by (simp add: usize_limit_def)
      with step mj data pre show ?thesis
        by (intro exI [of _ "?h @ pre"]) (simp add: checked_mul_u64_def)
    next
      fix bs assume mj: "drop_bit 5 b = MT_BYTES" and it: "read_bytes arg s = Ok (bs, r)"
      then have "s = bs @ r" "length bs = unat arg" by (auto simp: read_bytes_def split: if_splits)
      with step mj data small show ?thesis
        by (intro exI [of _ "?h @ bs"]) (simp add: body_from_def checked_add_usize_def)
    next
      fix bs assume mj: "drop_bit 5 b = MT_TEXT" and it: "read_bytes arg s = Ok (bs, r)"
      then have "s = bs @ r" "length bs = unat arg" by (auto simp: read_bytes_def split: if_splits)
      with step mj data small show ?thesis
        by (intro exI [of _ "?h @ bs"]) (simp add: body_from_def checked_add_usize_def)
    qed (use step data in \<open>auto intro!: exI [of _ ?h]\<close>)
  qed
  then show ?case unfolding measures_at_def by blast
qed (simp add: measures_at_def decode_at_beyond)

subsection \<open>Measuring is local\<close>

lemma read_arg_local:
  "read_arg (p @ s) a = Ok (arg, s) \<Longrightarrow> read_arg (p @ t) a = Ok (arg, t)"
  using read_arg_consumes [of "p @ s" a arg s] by auto

definition local_at :: "nat \<Rightarrow> bool" where
  "local_at d \<longleftrightarrow> (\<forall>data n. item_len_at data d = Ok n \<longrightarrow>
      0 < n \<and> n \<le> length data \<and> (\<forall>y. item_len_at (take n data @ y) d = Ok n))"

lemma local_atD:
  assumes "local_at d" "item_len_at data d = Ok n"
  shows "0 < n" "n \<le> length data" "item_len_at (take n data @ y) d = Ok n"
  using assms by (auto simp: local_at_def)

lemma item_len_loop_local:
  assumes "local_at d"
  shows "item_len_loop k data at d = Ok n \<Longrightarrow> at \<le> length data \<Longrightarrow>
    at \<le> n \<and> n \<le> length data \<and> (\<forall>y. item_len_loop k (take n data @ y) at d = Ok n)"
proof (induction k arbitrary: at)
  case (Suc k)
  then obtain len where len: "item_len_at (drop at data) d = Ok len"
    and lim: "at + len < usize_limit" and loop: "item_len_loop k data (at + len) d = Ok n"
    by (auto split: option.splits)
  note loc = local_atD [OF assms len]
  have IH: "at + len \<le> n" "n \<le> length data"
    "\<And>y. item_len_loop k (take n data @ y) (at + len) d = Ok n"
    using Suc.IH [OF loop] loc(2) Suc.prems(2) by auto
  have "item_len_at (drop at (take n data @ y)) d = Ok len" for y
  proof -
    let ?x = "take (n - at) (drop at data)"
    have "take len ?x = take len (drop at data)" using IH(1) by (simp add: min_def)
    then have "?x = take len (drop at data) @ drop len ?x" by (metis append_take_drop_id)
    moreover have "drop at (take n data @ y) = ?x @ y" using IH(1,2) by (simp add: drop_take)
    ultimately have "drop at (take n data @ y) = take len (drop at data) @ drop len ?x @ y"
      by (metis append_assoc)
    then show ?thesis by (simp only: loc(3))
  qed
  with IH lim show ?case by (simp add: checked_add_usize_def)
qed simp

lemma local_at_all: "local_at d"
proof (induction d rule: depth_induct)
  case (within d)
  have "0 < n \<and> n \<le> length data \<and> (\<forall>y. item_len_at (take n data @ y) d = Ok n)"
    if ok: "item_len_at data d = Ok n" for data n
  proof -
    obtain b rest arg s where *: "data = b # rest" "read_arg rest (b AND 0x1f) = Ok (arg, s)"
      using ok within.hyps by (auto simp: item_len_at.simps Let_def split: list.splits if_splits)
    obtain p where p: "rest = p @ s" using read_arg_consumes [OF *(2)] by blast
    let ?h = "Suc (length p)"
    note step = item_len_at_step [OF within.hyps *(2) [unfolded p]]
    note step' = item_len_at_step [OF within.hyps read_arg_local [OF *(2) [unfolded p]]]
    have tk: "take n data @ y = b # p @ take (n - ?h) s @ y" if "?h \<le> n" for y
      using that * p by (cases n) simp_all
    consider "drop_bit 5 b \<in> {0, 1}" | "drop_bit 5 b \<in> {2, 3}" | "drop_bit 5 b \<in> {4, 5}"
      | "drop_bit 5 b = 6" | "drop_bit 5 b \<notin> {0, 1, 2, 3, 4, 5, 6}" by blast
    then show ?thesis
    proof cases
      case 3
      then obtain count where loop: "item_len_loop count data ?h (d + 1) = Ok n"
        and cnt: "(if drop_bit 5 b = 5 then checked_mul_u64 (unat arg) 2 else Some (unat arg)) = Some count"
        using ok step * p by (auto simp: Let_def split: option.splits)
      have "?h \<le> n \<and> n \<le> length data \<and> (\<forall>y. item_len_loop count (take n data @ y) ?h (d + 1) = Ok n)"
        using item_len_loop_local [OF within.IH loop] * p by simp
      then show ?thesis using 3 cnt tk step' by (auto simp: Let_def checked_mul_u64_def)
    next
      case 4
      then obtain len where "item_len_at s (d + 1) = Ok len" "body_from data ?h len = Ok n"
        using ok step * p by (auto simp: Let_def)
      then show ?thesis
        using local_atD [OF within.IH] 4 tk step' * p
        by (auto simp: Let_def body_from_def split: option.splits if_splits)
    qed (use ok step step' tk * p in \<open>auto simp: Let_def body_from_def split: option.splits if_splits\<close>)
  qed
  then show ?case unfolding local_at_def by blast
qed (simp add: local_at_def item_len_at.simps)

lemma item_len_at_le: "item_len_at data d = Ok n \<Longrightarrow> n \<le> length data"
  by (rule local_atD [OF local_at_all])

subsection \<open>Splitting\<close>

lemma split_array_loop_concat:
  "split_array_loop n s = Ok (items, r) \<Longrightarrow>
    length items = n \<and> s = concat items @ r \<and> list_all (\<lambda>i. item_len_at i 1 = Ok (length i)) items"
proof (induction n arbitrary: s items)
  case (Suc n)
  then obtain len items' where len: "item_len_at s 1 = Ok len"
    and rec: "split_array_loop n (drop len s) = Ok (items', r)" and it: "items = take len s # items'"
    by auto
  have "len \<le> length s" "item_len_at (take len s) 1 = Ok len"
    using local_atD [OF local_at_all len] local_atD(3) [OF local_at_all len, of "[]"] by auto
  with Suc.IH [OF rec] it show ?case by (auto simp: min_def) (metis append_take_drop_id)
qed simp

lemma split_array_loop_join:
  "list_all (\<lambda>i. item_len_at i 1 = Ok (length i)) items \<Longrightarrow>
    split_array_loop (length items) (concat items @ r) = Ok (items, r)"
proof (induction items)
  case (Cons i items)
  have "item_len_at (take (length i) i @ concat items @ r) 1 = Ok (length i)"
    using Cons.prems by (intro local_atD(3) [OF local_at_all]) simp
  with Cons show ?case by simp
qed simp

lemma split_map_loop_concat:
  "split_map_loop n s = Ok (pairs, r) \<Longrightarrow>
    length pairs = n \<and> s = concat (map (\<lambda>(k, v). k @ v) pairs) @ r
    \<and> list_all (\<lambda>(k, v). item_len_at k 1 = Ok (length k) \<and> item_len_at v 1 = Ok (length v)) pairs"
proof (induction n arbitrary: s pairs)
  case (Suc n)
  then obtain kl vl pairs' where kl: "item_len_at s 1 = Ok kl" and vl: "item_len_at (drop kl s) 1 = Ok vl"
    and rec: "split_map_loop n (drop vl (drop kl s)) = Ok (pairs', r)"
    and ps: "pairs = (take kl s, take vl (drop kl s)) # pairs'"
    by (auto simp: Let_def)
  have k: "kl \<le> length s" "item_len_at (take kl s) 1 = Ok kl"
    using local_atD [OF local_at_all kl] local_atD(3) [OF local_at_all kl, of "[]"] by auto
  have v: "vl \<le> length (drop kl s)" "item_len_at (take vl (drop kl s)) 1 = Ok vl"
    using local_atD [OF local_at_all vl] local_atD(3) [OF local_at_all vl, of "[]"] by auto
  have "s = take kl s @ take vl (drop kl s) @ drop vl (drop kl s)"
    by (metis append_take_drop_id)
  with Suc.IH [OF rec] k v ps show ?case by (auto simp: min_def)
qed simp

lemma measured_split: "decode data = Ok (v, r) \<Longrightarrow> length data < usize_limit \<Longrightarrow>
    \<exists>pre. data = pre @ r \<and> item_len data = Ok (length pre)"
  unfolding decode_def item_len_def by (rule measures_atD [OF measures_at_all])

lemma decode_encode: "fits 0 v \<Longrightarrow> decode (encode v @ r) = Ok (v, r)"
  unfolding decode_def by (rule decode_at_encode)

interpretation cbor: prefix_codec encode decode "fits 0"
  by unfold_locales (rule decode_encode)

lemma array_header_read:
  assumes "n < 2 ^ 64"
  obtains b tail where "array_header n = b # tail" "drop_bit 5 b = MT_ARRAY"
    "\<And>r. read_arg (tail @ r) (b AND 0x1f) = Ok (word_of_nat n, r)"
  using encode_header_read [of MT_ARRAY "word_of_nat n"] unfolding array_header_def by auto

lemma split_array_sound:
  assumes "split_array data = Ok (items, rest)"
  shows "\<exists>hdr. data = hdr @ concat items @ rest" "list_all (\<lambda>i. item_len_at i 1 = Ok (length i)) items"
    "length items < 2 ^ 64"
proof -
  obtain b s count t where *: "data = b # s" "read_arg s (b AND 0x1f) = Ok (count, t)"
    "split_array_loop (unat count) t = Ok (items, rest)"
    using assms by (auto simp: split_array_def split: list.splits if_splits)
  obtain p where p: "s = p @ t" using read_arg_consumes [OF *(2)] by blast
  note c = split_array_loop_concat [OF *(3)]
  show "\<exists>hdr. data = hdr @ concat items @ rest" using * p c by (intro exI [of _ "b # p"]) simp
  show "list_all (\<lambda>i. item_len_at i 1 = Ok (length i)) items" using c by simp
  show "length items < 2 ^ 64" using c unsigned_less [of count, where ?'a = nat] by simp
qed

lemma split_array_join:
  assumes "list_all (\<lambda>i. item_len_at i 1 = Ok (length i)) items" "length items < 2 ^ 64"
  shows "split_array (array_header (length items) @ concat items @ rest) = Ok (items, rest)"
proof -
  obtain b tail where "array_header (length items) = b # tail" "drop_bit 5 b = MT_ARRAY"
    "\<And>r. read_arg (tail @ r) (b AND 0x1f) = Ok (word_of_nat (length items), r)"
    using array_header_read [OF assms(2)] by blast
  then show ?thesis
    using split_array_loop_join [OF assms(1)] assms(2) by (simp add: split_array_def unat_of_nat)
qed

subsection \<open>Properties\<close>

text \<open>C32: decoding an encoded value gives the value and the untouched rest of the input, for every
  value within the nesting limit whose lengths fit a \<^verbatim>\<open>u64\<close> and whose texts are valid UTF-8.\<close>

theorem cbor_roundtrip: "fits 0 v \<Longrightarrow> decode (encode v @ rest) = Ok (v, rest)"
  by (rule cbor.dec_enc)

theorem cbor_roundtrip_witness:
  "decode (encode (Map [(UInt 1, Array [NInt 6, Bool True]), (UInt 300, Bytes [1, 2])]) @ [7])
     = Ok (Map [(UInt 1, Array [NInt 6, Bool True]), (UInt 300, Bytes [1, 2])], [7])"
  by (rule cbor_roundtrip) simp

text \<open>Whatever \<^verbatim>\<open>decode\<close> accepts is a value within the limits, the unread rest is a
  suffix of the input, and the canonical encoding of the value is never longer than what was read.\<close>

theorem cbor_decode_sound:
  "decode data = Ok (v, rest) \<Longrightarrow>
     fits 0 v \<and> (\<exists>pre. data = pre @ rest \<and> length (encode v) \<le> length pre)"
  using decode_at_sound [of data 0 v rest] by (simp add: decode_def consumed_def)

theorem cbor_decode_sound_witness:
  "fits 0 (UInt 5) \<and> (\<exists>pre. [0x18, 5, 9 :: byte] = pre @ [9] \<and> length (encode (UInt 5)) \<le> length pre)"
  by (rule cbor_decode_sound)
     (simp add: decode_def decode_at.simps read_arg_def)

text \<open>\<^verbatim>\<open>item_len\<close> measures exactly the bytes \<^verbatim>\<open>decode\<close> reads, on every
  input that decodes.\<close>

theorem item_len_agrees:
  assumes "decode data = Ok (v, rest)" "length data < usize_limit"
  shows "item_len data = Ok (length data - length rest)"
  using measured_split [OF assms] by auto

theorem item_len_agrees_witness: "item_len [0x82, 1, 0x41, 7, 9] = Ok 4"
proof -
  let ?v = "Array [UInt 1, Bytes [7]]"
  have enc: "encode ?v = [0x82, 1, 0x41, 7]" by (simp add: encode_header_def)
  have "decode ([0x82, 1, 0x41, 7] @ [9]) = Ok (?v, [9])"
    unfolding enc [symmetric] by (rule decode_encode) simp
  from item_len_agrees [OF this] show ?thesis by (simp add: usize_limit_def)
qed

text \<open>\<^verbatim>\<open>split_array\<close> cuts the array body into the raw bytes of its elements without
  losing or reordering any, and the elements re-emitted under a canonical header split back into
  themselves, before any following bytes.\<close>

theorem split_array_reemit:
  "split_array data = Ok (items, rest) \<Longrightarrow>
     (\<exists>hdr. data = hdr @ concat items @ rest)
     \<and> split_array (array_header (length items) @ concat items @ rest') = Ok (items, rest')"
  using split_array_sound [of data items rest] split_array_join [of items rest'] by blast

theorem split_array_reemit_witness:
  "(\<exists>hdr. [0x82, 0xf9, 0, 1, 0xc1, 2] = hdr @ concat [[0xf9, 0, 1], [0xc1, 2 :: byte]] @ [])
     \<and> split_array (array_header (length [[0xf9, 0, 1], [0xc1, 2 :: byte]]) @ concat [[0xf9, 0, 1], [0xc1, 2]] @ [5])
       = Ok ([[0xf9, 0, 1], [0xc1, 2]], [5])"
proof (rule split_array_reemit)
  have "list_all (\<lambda>i. item_len_at i 1 = Ok (length i)) [[0xf9, 0, 1], [0xc1, 2 :: byte]]"
    by (simp add: item_len_at.simps read_arg_def body_from_def checked_add_usize_def usize_limit_def)
  from split_array_join [OF this, of "[]"]
  show "split_array [0x82, 0xf9, 0, 1, 0xc1, 2] = Ok ([[0xf9, 0, 1], [0xc1, 2]], [])"
    by (simp add: array_header_def encode_header_def)
qed

text \<open>No CBOR encoding is a prefix of another one.\<close>

theorem cbor_prefix_free:
  "fits 0 x \<Longrightarrow> fits 0 y \<Longrightarrow> encode x @ r = encode y @ s \<Longrightarrow> x = y \<and> r = s"
  by (rule cbor.enc_prefix_free)

theorem cbor_prefix_free_witness: "UInt 5 = UInt 5 \<and> [1 :: byte] = [1]"
  using cbor_prefix_free [of "UInt 5" "UInt 5" "[1]" "[1]"] by simp

end
