(* ===== verification/Ctaphid.thy ===== *)
theory Ctaphid
  imports Codec Cbor
begin

text \<open>
  \<^verbatim>\<open>crates/keyroost-ctap/src/hid.rs\<close>: the CTAPHID channel.  \<open>send\<close> cuts a message into
  64-byte reports behind a report id, \<open>recv_by\<close> puts a response together again.  What the code
  reads from the outside during one pass of a receive loop (the clock, the cancel flag, the bytes
  the backend read) is one element of a list of \<open>poll\<close> records, in the order of the passes; the
  receive loops recurse on that list, and \<open>None\<close> means that the loop is still waiting when the
  list ends.  Times are nanoseconds.  A write outcome is a function from the number of the report.
\<close>

definition CTAPHID_BROADCAST_CID :: u32 where "CTAPHID_BROADCAST_CID = 0xffffffff"
definition CTAPHID_REPORT_SIZE :: nat where "CTAPHID_REPORT_SIZE = 64"
definition CTAPHID_MAX_PAYLOAD :: nat where "CTAPHID_MAX_PAYLOAD = 7609"
definition INIT_FRAME_HEADER :: nat where "INIT_FRAME_HEADER = 7"
definition CONT_FRAME_HEADER :: nat where "CONT_FRAME_HEADER = 5"
definition INIT_FRAME_DATA :: nat where "INIT_FRAME_DATA = CTAPHID_REPORT_SIZE - INIT_FRAME_HEADER"
definition CONT_FRAME_DATA :: nat where "CONT_FRAME_DATA = CTAPHID_REPORT_SIZE - CONT_FRAME_HEADER"
definition CTAPHID_INIT :: byte where "CTAPHID_INIT = 0x86"
definition CTAPHID_CBOR :: byte where "CTAPHID_CBOR = 0x90"
definition CTAPHID_KEEPALIVE :: byte where "CTAPHID_KEEPALIVE = 0xbb"
definition CTAPHID_ERROR :: byte where "CTAPHID_ERROR = 0xbf"
definition CTAPHID_ERR_CHANNEL_BUSY :: byte where "CTAPHID_ERR_CHANNEL_BUSY = 0x06"
definition DEFAULT_READ_TIMEOUT :: nat where "DEFAULT_READ_TIMEOUT = 2000000000"
definition CHANNEL_BUSY_MAX_ATTEMPTS :: nat where "CHANNEL_BUSY_MAX_ATTEMPTS = 4"
definition CHANNEL_BUSY_RETRY_DELAY :: nat where "CHANNEL_BUSY_RETRY_DELAY = 200000000"
definition CHANNEL_BUSY_TOTAL_BUDGET :: nat where "CHANNEL_BUSY_TOTAL_BUDGET = 1500000000"
definition CAPABILITY_WINK :: byte where "CAPABILITY_WINK = 0x01"
definition CAPABILITY_CBOR :: byte where "CAPABILITY_CBOR = 0x04"
definition CAPABILITY_NMSG :: byte where "CAPABILITY_NMSG = 0x08"

lemmas ctaphid_defs = CTAPHID_BROADCAST_CID_def CTAPHID_REPORT_SIZE_def CTAPHID_MAX_PAYLOAD_def
  INIT_FRAME_HEADER_def CONT_FRAME_HEADER_def INIT_FRAME_DATA_def CONT_FRAME_DATA_def
  CTAPHID_INIT_def CTAPHID_CBOR_def CTAPHID_KEEPALIVE_def CTAPHID_ERROR_def
  CTAPHID_ERR_CHANNEL_BUSY_def

text \<open>The texts inside \<^verbatim>\<open>Io\<close> and \<^verbatim>\<open>Backend\<close> are not modelled.\<close>

datatype hid_error =
    Io
  | Timeout
  | UnexpectedCommand byte byte
  | InitResponseTooShort
  | PayloadTooLarge nat
  | OutOfSequence byte byte
  | DeviceError byte
  | Cancelled
  | Backend

record init_response =
  channel_id :: u32
  protocol_version :: byte
  device_major :: byte
  device_minor :: byte
  device_build :: byte
  capabilities :: byte

definition supports_cbor :: "init_response \<Rightarrow> bool" where
  "supports_cbor r \<longleftrightarrow> capabilities r AND CAPABILITY_CBOR \<noteq> 0"

definition supports_u2f :: "init_response \<Rightarrow> bool" where
  "supports_u2f r \<longleftrightarrow> capabilities r AND CAPABILITY_NMSG = 0"

definition supports_wink :: "init_response \<Rightarrow> bool" where
  "supports_wink r \<longleftrightarrow> capabilities r AND CAPABILITY_WINK \<noteq> 0"

text \<open>The open device: the cancel flag and the keepalive hook live outside; the record says whether
  they are installed.\<close>

record ctap_hid_device =
  dev_channel_id :: u32
  dev_timeout :: nat
  dev_cancel :: bool
  dev_hook :: bool

record poll =
  poll_now :: nat
  poll_cancel :: bool
  poll_read :: "(bytes, hid_error) result"
  poll_cancel_after :: bool
  poll_now_after :: nat

subsection \<open>Sending\<close>

definition init_frame :: "u32 \<Rightarrow> byte \<Rightarrow> bytes \<Rightarrow> bytes" where
  "init_frame cid cmd payload =
     (let first_chunk = min (length payload) INIT_FRAME_DATA in
      [0x00] @ u32_to_be cid @
      [cmd, word_of_nat (length payload div 256), word_of_nat (length payload mod 256)]
      @ take first_chunk payload @ replicate (INIT_FRAME_DATA - first_chunk) 0)"

definition cont_frame :: "u32 \<Rightarrow> byte \<Rightarrow> bytes \<Rightarrow> bytes" where
  "cont_frame cid seq data =
     [0x00] @ u32_to_be cid @ [seq AND 0x7f] @ data @ replicate (CONT_FRAME_DATA - length data) 0"

text \<open>The continuation loop; \<open>i\<close> counts the reports written, \<open>written\<close> collects them.\<close>

function send_loop :: "(nat \<Rightarrow> hid_error option) \<Rightarrow> u32 \<Rightarrow> bytes \<Rightarrow> nat \<Rightarrow> byte \<Rightarrow> bytes list
    \<Rightarrow> bytes list \<times> (unit, hid_error) result" where
  "send_loop fail cid payload offset seq written =
     (if offset < length payload then
        (let chunk = min (length payload - offset) CONT_FRAME_DATA;
             frame = cont_frame cid seq (take chunk (drop offset payload))
         in case fail (length written) of
              Some e \<Rightarrow> (written, Err e)
            | None \<Rightarrow> send_loop fail cid payload (offset + chunk) (seq + 1) (written @ [frame]))
      else (written, Ok ()))"
  by pat_completeness auto
termination
  by (relation "measure (\<lambda>(_, _, payload, offset, _). length payload - offset)")
     (auto simp: ctaphid_defs)

declare send_loop.simps [simp del]

definition send :: "(nat \<Rightarrow> hid_error option) \<Rightarrow> u32 \<Rightarrow> byte \<Rightarrow> bytes
    \<Rightarrow> bytes list \<times> (unit, hid_error) result" where
  "send fail cid cmd payload =
     (if CTAPHID_MAX_PAYLOAD < length payload then ([], Err (PayloadTooLarge (length payload)))
      else case fail 0 of
        Some e \<Rightarrow> ([], Err e)
      | None \<Rightarrow> send_loop fail cid payload (min (length payload) INIT_FRAME_DATA) 0
                  [init_frame cid cmd payload])"

subsection \<open>Receiving\<close>

text \<open>\<open>read_report\<close>: no bytes is a poll without a report, a short read is an I/O error.\<close>

definition read_report :: "(bytes, hid_error) result \<Rightarrow> (bytes option, hid_error) result" where
  "read_report rd =
     bind_result rd (\<lambda>buf.
       if length buf = 0 then Ok None
       else if length buf \<noteq> CTAPHID_REPORT_SIZE then Err Io
       else Ok (Some buf))"

definition wait_report :: "bool \<Rightarrow> nat \<Rightarrow> poll \<Rightarrow> (bytes option, hid_error) result" where
  "wait_report can_cancel deadline p =
     (if deadline \<le> poll_now p then Err Timeout
      else if can_cancel \<and> poll_cancel p then Err Cancelled
      else read_report (poll_read p))"

fun recv_cont :: "bool \<Rightarrow> u32 \<Rightarrow> nat \<Rightarrow> nat \<Rightarrow> bytes \<Rightarrow> byte \<Rightarrow> poll list
    \<Rightarrow> ((bytes, hid_error) result \<times> poll list) option" where
  "recv_cont cc cid deadline bcnt payload seq ps =
     (if \<not> length payload < bcnt then Some (Ok payload, ps)
      else case ps of
        [] \<Rightarrow> None
      | p # ps \<Rightarrow>
          (case wait_report cc deadline p of
             Err e \<Rightarrow> Some (Err e, ps)
           | Ok None \<Rightarrow> recv_cont cc cid deadline bcnt payload seq ps
           | Ok (Some buf) \<Rightarrow>
               if u32_from_be (take 4 buf) \<noteq> cid then recv_cont cc cid deadline bcnt payload seq ps
               else
                 (let s = buf ! 4 in
                  if s AND 0x80 \<noteq> 0 then Some (Err (UnexpectedCommand 0 s), ps)
                  else if s \<noteq> seq then Some (Err (OutOfSequence seq s), ps)
                  else
                    (let chunk = min (bcnt - length payload) CONT_FRAME_DATA in
                     recv_cont cc cid deadline bcnt
                       (payload @ take chunk (drop CONT_FRAME_HEADER buf)) (seq + 1) ps))))"

declare recv_cont.simps [simp del]

text \<open>The whole receive: the last component is what the keepalive hook was called with.\<close>

fun recv_by :: "ctap_hid_device \<Rightarrow> u32 \<Rightarrow> byte \<Rightarrow> nat \<Rightarrow> poll list
    \<Rightarrow> ((bytes, hid_error) result \<times> poll list \<times> bytes) option" where
  "recv_by dev cid cmd deadline [] = None"
| "recv_by dev cid cmd deadline (p # ps) =
     (case wait_report (dev_cancel dev) deadline p of
        Err e \<Rightarrow> Some (Err e, ps, [])
      | Ok None \<Rightarrow> recv_by dev cid cmd deadline ps
      | Ok (Some buf) \<Rightarrow>
          if u32_from_be (take 4 buf) \<noteq> cid then recv_by dev cid cmd deadline ps
          else if buf ! 4 = CTAPHID_KEEPALIVE then
            (if dev_cancel dev \<and> poll_cancel_after p then Some (Err Cancelled, ps, [])
             else map_option (\<lambda>(r, qs, hooks). (r, qs, (if dev_hook dev then buf ! 7 # hooks else hooks)))
                    (recv_by dev cid cmd (poll_now_after p + dev_timeout dev) ps))
          else if buf ! 4 = CTAPHID_ERROR then Some (Err (DeviceError (buf ! 7)), ps, [])
          else if buf ! 4 \<noteq> cmd then Some (Err (UnexpectedCommand cmd (buf ! 4)), ps, [])
          else
            (let bcnt = unat (u16_from_be [buf ! 5, buf ! 6]) in
             if CTAPHID_MAX_PAYLOAD < bcnt then Some (Err (PayloadTooLarge bcnt), ps, [])
             else map_option (\<lambda>(r, qs). (r, qs, []))
                    (recv_cont (dev_cancel dev) cid deadline bcnt
                       (take (min bcnt INIT_FRAME_DATA) (drop INIT_FRAME_HEADER buf)) 0 ps)))"

definition recv :: "ctap_hid_device \<Rightarrow> u32 \<Rightarrow> byte \<Rightarrow> nat \<Rightarrow> poll list
    \<Rightarrow> ((bytes, hid_error) result \<times> poll list \<times> bytes) option" where
  "recv dev cid cmd now ps = recv_by dev cid cmd (now + dev_timeout dev) ps"

subsection \<open>Transactions\<close>

definition busy_retry_delay :: "byte \<Rightarrow> nat \<Rightarrow> nat \<Rightarrow> nat option" where
  "busy_retry_delay code attempt elapsed =
     (if code \<noteq> CTAPHID_ERR_CHANNEL_BUSY \<or> CHANNEL_BUSY_MAX_ATTEMPTS \<le> attempt then None
      else if CHANNEL_BUSY_TOTAL_BUDGET \<le> elapsed + CHANNEL_BUSY_RETRY_DELAY then None
      else Some CHANNEL_BUSY_RETRY_DELAY)"

text \<open>What one pass of the retry loop meets: write outcomes, the clock at the start of the receive,
  the polls, the time since the first attempt, and the cancel flag before and after the sleep.\<close>

record attempt_env =
  env_fail :: "nat \<Rightarrow> hid_error option"
  env_now :: nat
  env_polls :: "poll list"
  env_elapsed :: nat
  env_cancel_before :: bool
  env_cancel_after :: bool

definition sleep_between_attempts :: "ctap_hid_device \<Rightarrow> attempt_env \<Rightarrow> (unit, hid_error) result" where
  "sleep_between_attempts dev env =
     (if dev_cancel dev \<and> env_cancel_before env then Err Cancelled
      else if dev_cancel dev \<and> env_cancel_after env then Err Cancelled
      else Ok ())"

definition attempt_once :: "ctap_hid_device \<Rightarrow> byte \<Rightarrow> bytes \<Rightarrow> attempt_env
    \<Rightarrow> (bytes, hid_error) result option" where
  "attempt_once dev cmd payload env =
     (case snd (send (env_fail env) (dev_channel_id dev) cmd payload) of
        Err e \<Rightarrow> Some (Err e)
      | Ok _ \<Rightarrow> map_option fst (recv dev (dev_channel_id dev) cmd (env_now env) (env_polls env)))"

fun transact_loop :: "ctap_hid_device \<Rightarrow> byte \<Rightarrow> bytes \<Rightarrow> nat \<Rightarrow> attempt_env list
    \<Rightarrow> (bytes, hid_error) result option" where
  "transact_loop dev cmd payload attempt [] = None"
| "transact_loop dev cmd payload attempt (env # envs) =
     (case attempt_once dev cmd payload env of
        None \<Rightarrow> None
      | Some (Ok resp) \<Rightarrow> Some (Ok resp)
      | Some (Err (DeviceError code)) \<Rightarrow>
          (case busy_retry_delay code attempt (env_elapsed env) of
             None \<Rightarrow> Some (Err (DeviceError code))
           | Some delay \<Rightarrow>
               (case sleep_between_attempts dev env of
                  Err e \<Rightarrow> Some (Err e)
                | Ok _ \<Rightarrow> transact_loop dev cmd payload (attempt + 1) envs))
      | Some (Err e) \<Rightarrow> Some (Err e))"

definition transact :: "ctap_hid_device \<Rightarrow> byte \<Rightarrow> bytes \<Rightarrow> attempt_env list
    \<Rightarrow> (bytes, hid_error) result option" where
  "transact dev cmd payload envs = transact_loop dev cmd payload 1 envs"

subsection \<open>Channel allocation\<close>

definition generate_nonce :: "u64 \<Rightarrow> u64 \<Rightarrow> bytes" where
  "generate_nonce now pid = u64_to_be (word_rotl 13 now * (pid OR 1))"

definition parse_init_response :: "bytes \<Rightarrow> init_response" where
  "parse_init_response resp =
     \<lparr>channel_id = u32_from_be (take 4 (drop 8 resp)), protocol_version = resp ! 12,
      device_major = resp ! 13, device_minor = resp ! 14, device_build = resp ! 15,
      capabilities = resp ! 16\<rparr>"

lemma recv_cont_shorter: "recv_cont cc cid dl bcnt payload seq ps = Some (r, qs) \<Longrightarrow> length qs \<le> length ps"
proof (induction ps arbitrary: payload seq)
  case (Cons p ps)
  then show ?case
    by (subst (asm) recv_cont.simps)
       (auto simp: Let_def split: if_splits result.splits option.splits dest: le_SucI)
qed (auto simp: recv_cont.simps split: if_splits)

lemma recv_by_shorter: "recv_by dev cid cmd dl ps = Some (r, qs, h) \<Longrightarrow> length qs < length ps"
  by (induction ps arbitrary: dl qs h)
     (fastforce simp: Let_def less_Suc_eq_le split: if_splits result.splits option.splits dest: recv_cont_shorter)+

function do_init_loop :: "ctap_hid_device \<Rightarrow> bytes \<Rightarrow> nat \<Rightarrow> poll list
    \<Rightarrow> (init_response, hid_error) result option" where
  "do_init_loop dev nonce deadline ps =
     (case recv_by dev CTAPHID_BROADCAST_CID CTAPHID_INIT deadline ps of
        None \<Rightarrow> None
      | Some (Err e, _) \<Rightarrow> Some (Err e)
      | Some (Ok resp, qs, _) \<Rightarrow>
          if length resp < 17 then Some (Err InitResponseTooShort)
          else if take 8 resp \<noteq> nonce then do_init_loop dev nonce deadline qs
          else Some (Ok (parse_init_response resp)))"
  by pat_completeness auto
termination
  by (relation "measure (\<lambda>(_, _, _, ps). length ps)") (auto dest: recv_by_shorter)

declare do_init_loop.simps [simp del]

definition do_init :: "ctap_hid_device \<Rightarrow> (nat \<Rightarrow> hid_error option) \<Rightarrow> bytes \<Rightarrow> nat \<Rightarrow> poll list
    \<Rightarrow> (init_response, hid_error) result option" where
  "do_init dev fail nonce now ps =
     (case snd (send fail CTAPHID_BROADCAST_CID CTAPHID_INIT nonce) of
        Err e \<Rightarrow> Some (Err e)
      | Ok _ \<Rightarrow> do_init_loop dev nonce (now + dev_timeout dev) ps)"

definition open_device :: "bool \<Rightarrow> (unit, hid_error) result \<Rightarrow> (nat \<Rightarrow> hid_error option) \<Rightarrow> bytes \<Rightarrow> nat
    \<Rightarrow> poll list \<Rightarrow> (ctap_hid_device \<times> init_response, hid_error) result option" where
  "open_device hidden io fail nonce now ps =
     (if hidden then Some (Err Io)
      else case io of
        Err e \<Rightarrow> Some (Err e)
      | Ok _ \<Rightarrow>
          (let dev = \<lparr>dev_channel_id = CTAPHID_BROADCAST_CID, dev_timeout = DEFAULT_READ_TIMEOUT,
                      dev_cancel = False, dev_hook = False\<rparr>
           in map_option (\<lambda>r. bind_result r (\<lambda>init. Ok (dev\<lparr>dev_channel_id := channel_id init\<rparr>, init)))
                (do_init dev fail nonce now ps)))"

subsection \<open>Trace redaction\<close>

definition client_pin_subcommand :: "bytes \<Rightarrow> u64 option" where
  "client_pin_subcommand body =
     (case decode body of
        Err _ \<Rightarrow> None
      | Ok (value, _) \<Rightarrow>
          (case as_map value of
             None \<Rightarrow> None
           | Some m \<Rightarrow>
               (case find (\<lambda>(k, _). as_uint k = Some 0x02) m of
                  None \<Rightarrow> None
                | Some (_, v) \<Rightarrow> as_uint v)))"

definition exchange_is_sensitive :: "byte \<Rightarrow> bytes \<Rightarrow> bool" where
  "exchange_is_sensitive cmd payload =
     (if 0xc0 \<le> cmd then True
      else if cmd \<noteq> CTAPHID_CBOR then False
      else case payload of
        [] \<Rightarrow> False
      | c # body \<Rightarrow>
          if c \<in> {0x0a, 0x41, 0x09, 0x40, 0x0c, 0x0d} then True
          else if c = 0x06 then client_pin_subcommand body \<notin> {Some 0x01, Some 0x02}
          else False)"

definition hexline :: "bytes \<Rightarrow> bytes" where
  "hexline bs = hex_encode bs"

definition trace_payload :: "bytes \<Rightarrow> bool \<Rightarrow> bytes" where
  "trace_payload payload sensitive =
     (if sensitive then ascii ''<redacted: personal-data payload>'' else hexline payload)"

subsection \<open>Deliveries\<close>

text \<open>A delivery of reports: before the deadline and without a cancel, each report of the list arrives
  in a poll of its own, with any number of polls without a report or with a report of another channel
  before it.  \<open>delivers cc cid dl rs ps qs\<close> says that the polls \<open>ps\<close> deliver \<open>rs\<close> and
  that \<open>qs\<close> is left over.\<close>

definition live_poll :: "bool \<Rightarrow> nat \<Rightarrow> poll \<Rightarrow> bool" where
  "live_poll cc dl p \<longleftrightarrow> poll_now p < dl \<and> \<not> (cc \<and> poll_cancel p)"

definition noise :: "u32 \<Rightarrow> (bytes, hid_error) result \<Rightarrow> bool" where
  "noise cid rd \<longleftrightarrow> rd = Ok [] \<or>
     (case rd of Ok buf \<Rightarrow> length buf = 64 \<and> u32_from_be (take 4 buf) \<noteq> cid | Err _ \<Rightarrow> False)"

inductive delivers :: "bool \<Rightarrow> u32 \<Rightarrow> nat \<Rightarrow> bytes list \<Rightarrow> poll list \<Rightarrow> poll list \<Rightarrow> bool"
  for cc cid dl where
  finish: "delivers cc cid dl [] qs qs"
| skip: "delivers cc cid dl (r # rs) ps qs \<Longrightarrow> live_poll cc dl p \<Longrightarrow> noise cid (poll_read p) \<Longrightarrow>
    delivers cc cid dl (r # rs) (p # ps) qs"
| report: "delivers cc cid dl rs ps qs \<Longrightarrow> live_poll cc dl p \<Longrightarrow> poll_read p = Ok r \<Longrightarrow>
    delivers cc cid dl (r # rs) (p # ps) qs"

inductive_cases delivers_NilE: "delivers cc cid dl [] ps qs"
inductive_cases delivers_ConsE: "delivers cc cid dl (r # rs) ps qs"

lemma wait_report_live:
  "live_poll cc dl p \<Longrightarrow> wait_report cc dl p = read_report (poll_read p)"
  by (auto simp: live_poll_def wait_report_def)

lemma read_report_full [simp]: "length buf = 64 \<Longrightarrow> read_report (Ok buf) = Ok (Some buf)"
  by (auto simp: read_report_def CTAPHID_REPORT_SIZE_def)

lemma read_report_none [simp]: "read_report (Ok []) = Ok None"
  by (simp add: read_report_def)

lemma noise_cases:
  assumes "noise cid rd"
  obtains "rd = Ok []" | buf where "rd = Ok buf" "length buf = 64" "u32_from_be (take 4 buf) \<noteq> cid"
  using assms by (auto simp: noise_def split: result.splits)

lemma recv_cont_noise:
  assumes "live_poll cc dl p" "noise cid (poll_read p)" "length payload < bcnt"
  shows "recv_cont cc cid dl bcnt payload seq (p # ps) = recv_cont cc cid dl bcnt payload seq ps"
  using assms(2)
  by (rule noise_cases; subst recv_cont.simps) (use assms in \<open>simp_all add: wait_report_live\<close>)

lemma recv_by_noise:
  assumes "live_poll (dev_cancel dev) dl p" "noise cid (poll_read p)"
  shows "recv_by dev cid cmd dl (p # ps) = recv_by dev cid cmd dl ps"
  using assms(2) by (rule noise_cases) (use assms in \<open>simp_all add: wait_report_live\<close>)

lemma recv_cont_first:
  assumes "delivers cc cid dl (r # rs) ps qs" "length payload < bcnt"
  obtains p ps' where "live_poll cc dl p" "poll_read p = Ok r" "delivers cc cid dl rs ps' qs"
    "recv_cont cc cid dl bcnt payload seq ps = recv_cont cc cid dl bcnt payload seq (p # ps')"
proof -
  have "\<exists>p ps'. live_poll cc dl p \<and> poll_read p = Ok r \<and> delivers cc cid dl rs ps' qs \<and>
    recv_cont cc cid dl bcnt payload seq ps = recv_cont cc cid dl bcnt payload seq (p # ps')"
    using assms(1)
  proof (induction "r # rs" ps qs rule: delivers.induct)
    case (skip ps qs p)
    then show ?case using recv_cont_noise [OF skip.hyps(3,4) assms(2)] by metis
  qed blast
  then show thesis using that by blast
qed

lemma recv_by_first:
  assumes "delivers (dev_cancel dev) cid dl (r # rs) ps qs"
  obtains p ps' where "live_poll (dev_cancel dev) dl p" "poll_read p = Ok r"
    "delivers (dev_cancel dev) cid dl rs ps' qs"
    "recv_by dev cid cmd dl ps = recv_by dev cid cmd dl (p # ps')"
proof -
  have "\<exists>p ps'. live_poll (dev_cancel dev) dl p \<and> poll_read p = Ok r \<and> delivers (dev_cancel dev) cid dl rs ps' qs \<and>
    recv_by dev cid cmd dl ps = recv_by dev cid cmd dl (p # ps')"
    using assms(1)
  proof (induction "r # rs" ps qs rule: delivers.induct)
    case (skip ps qs p)
    then show ?case using recv_by_noise [OF skip.hyps(3,4)] by metis
  qed blast
  then show thesis using that by blast
qed

subsection \<open>The reports of a message\<close>

text \<open>The continuation reports without the loop: the rest of the payload in pieces of 59 bytes,
  numbered from \<open>seq\<close>.\<close>

fun cont_frames :: "u32 \<Rightarrow> byte \<Rightarrow> bytes list \<Rightarrow> bytes list" where
  "cont_frames cid seq [] = []"
| "cont_frames cid seq (c # cs) = cont_frame cid seq c # cont_frames cid (seq + 1) cs"

lemma length_cont_frames [simp]: "length (cont_frames cid seq cs) = length cs"
  by (induction cid seq cs rule: cont_frames.induct) auto

lemma send_loop_frames:
  "send_loop (\<lambda>_. None) cid payload offset seq written
     = (written @ cont_frames cid seq (chunks 59 (drop offset payload)), Ok ())"
proof (induction "\<lambda>_ :: nat. None :: hid_error option" cid payload offset seq written rule: send_loop.induct)
  case (1 cid payload offset seq written)
  show ?case
  proof (cases "offset < length payload")
    case True
    let ?c = "min (length payload - offset) 59"
    have eq: "take ?c (drop offset payload) = take 59 (drop offset payload)"
      "drop (offset + ?c) payload = drop 59 (drop offset payload)"
      by (auto simp: min_def add.commute)
    have "chunks 59 (drop offset payload) = take 59 (drop offset payload) # chunks 59 (drop 59 (drop offset payload))"
      using True by (intro chunks_step) auto
    then show ?thesis using 1 True eq
      by (subst send_loop.simps) (simp add: Let_def ctaphid_defs)
  qed (subst send_loop.simps, simp)
qed

lemma length_chunks_le: "0 < n \<Longrightarrow> length xs \<le> k * n \<Longrightarrow> length (chunks n xs) \<le> k"
proof (induction k arbitrary: xs)
  case (Suc k)
  then show ?case by (cases "xs = []") (auto simp: chunks_step)
qed simp

lemma length_cont_frame [simp]: "length c \<le> 59 \<Longrightarrow> length (cont_frame cid seq c) = 65"
  by (simp add: cont_frame_def ctaphid_defs)

lemma length_init_frame [simp]: "length (init_frame cid cmd payload) = 65"
  by (simp add: init_frame_def Let_def ctaphid_defs)

subsection \<open>Reassembly\<close>

lemma tl_cont_frame:
  assumes "unat seq < 128" "length c \<le> 59"
  shows "length (tl (cont_frame cid seq c)) = 64" "u32_from_be (take 4 (tl (cont_frame cid seq c))) = cid"
    "tl (cont_frame cid seq c) ! 4 = seq" "take (length c) (drop 5 (tl (cont_frame cid seq c))) = c"
proof -
  have "seq AND mask 7 = seq"
    using assms(1) by (simp add: word_unat_eq_iff unsigned_take_bit_eq take_bit_nat_eq_self flip: take_bit_eq_mask)
  then have "seq AND 0x7f = seq" by (simp add: mask_eq_exp_minus_1)
  then show "length (tl (cont_frame cid seq c)) = 64" "u32_from_be (take 4 (tl (cont_frame cid seq c))) = cid"
    "tl (cont_frame cid seq c) ! 4 = seq" "take (length c) (drop 5 (tl (cont_frame cid seq c))) = c"
    using assms(2) by (simp_all add: cont_frame_def ctaphid_defs u32_from_to_be nth_append)
qed

lemma seq_top_clear: "unat (seq :: byte) < 128 \<Longrightarrow> seq AND 0x80 = 0"
proof -
  assume "unat seq < 128"
  then have "take_bit 7 seq = seq"
    by (simp add: word_unat_eq_iff unsigned_take_bit_eq take_bit_nat_eq_self_iff)
  then have "\<not> bit seq 7" by (metis bit_take_bit_iff less_irrefl)
  moreover have "(0x80 :: byte) = push_bit 7 1" by simp
  ultimately show "seq AND 0x80 = 0" by (metis and_exp_eq_0_iff_not_bit push_bit_of_1)
qed

lemma recv_cont_step:
  assumes "live_poll cc dl p" "poll_read p = Ok (tl (cont_frame cid seq c))" "unat seq < 128"
    "length c = min (bcnt - length payload) 59" "length payload < bcnt"
  shows "recv_cont cc cid dl bcnt payload seq (p # ps) = recv_cont cc cid dl bcnt (payload @ c) (seq + 1) ps"
proof -
  have "length c \<le> 59" using assms(4) by simp
  note f = tl_cont_frame [OF assms(3) this, of cid]
  show ?thesis
    by (subst recv_cont.simps)
       (simp add: assms(1,2,5) wait_report_live read_report_full [OF f(1)] f(2,3) seq_top_clear assms(3) Let_def ctaphid_defs
         f(4) [unfolded assms(4)])
qed

lemma recv_cont_chunks:
  "delivers cc cid dl (map tl (cont_frames cid seq (chunks 59 rest))) ps qs \<Longrightarrow>
   length rest \<le> 59 * (128 - unat seq) \<Longrightarrow> bcnt = length payload + length rest \<Longrightarrow>
   recv_cont cc cid dl bcnt payload seq ps = Some (Ok (payload @ rest), qs)"
proof (induction "59 :: nat" rest arbitrary: payload seq ps rule: chunks.induct)
  case (1 rest)
  show ?case
  proof (cases "rest = []")
    case True
    with 1 show ?thesis by (auto simp: recv_cont.simps elim: delivers_NilE)
  next
    case False
    let ?c = "take 59 rest"
    have seq: "unat seq < 128" using False "1.prems"(2) by (cases "unat seq < 128") auto
    then have suc: "unat (seq + 1) = unat seq + 1"
      by (simp add: unat_word_ariths)
    from "1.prems"(1) False have "delivers cc cid dl (tl (cont_frame cid seq ?c)
        # map tl (cont_frames cid (seq + 1) (chunks 59 (drop 59 rest)))) ps qs"
      by (simp add: chunks_step)
    moreover have "length payload < bcnt" using False "1.prems"(3) by simp
    ultimately obtain p ps' where p: "live_poll cc dl p" "poll_read p = Ok (tl (cont_frame cid seq ?c))"
      "delivers cc cid dl (map tl (cont_frames cid (seq + 1) (chunks 59 (drop 59 rest)))) ps' qs"
      "recv_cont cc cid dl bcnt payload seq ps = recv_cont cc cid dl bcnt payload seq (p # ps')"
      by (rule recv_cont_first [where seq = seq])
    have "recv_cont cc cid dl bcnt (payload @ ?c) (seq + 1) ps' = Some (Ok ((payload @ ?c) @ drop 59 rest), qs)"
      using "1.prems"(2,3) suc seq by (intro "1.hyps" p(3)) (use False in auto)
    then show ?thesis
      using p(4) recv_cont_step [OF p(1,2) seq, of bcnt payload] \<open>length payload < bcnt\<close> "1.prems"(3) by (simp add: min.commute)
  qed
qed

lemma tl_init_frame:
  fixes payload :: bytes and cid :: u32 and cmd :: byte
  assumes "length payload \<le> 7609"
  defines "r \<equiv> tl (init_frame cid cmd payload)"
  shows "length r = 64" "u32_from_be (take 4 r) = cid" "r ! 4 = cmd"
    "unat (u16_from_be [r ! 5, r ! 6]) = length payload"
    "take (min (length payload) 57) (drop 7 r) = take 57 payload"
proof -
  show "length r = 64" "u32_from_be (take 4 r) = cid" "r ! 4 = cmd"
    by (simp_all add: r_def init_frame_def Let_def ctaphid_defs u32_from_to_be nth_append)
  have "[r ! 5, r ! 6] = [word_of_nat (length payload div 256), word_of_nat (length payload mod 256)]"
    by (simp add: r_def init_frame_def Let_def ctaphid_defs nth_append)
  moreover have "length payload div 256 mod 256 * 256 + length payload mod 256 = length payload"
    using assms(1) by simp
  ultimately show "unat (u16_from_be [r ! 5, r ! 6]) = length payload"
    using assms(1) by (simp add: u16_from_be_def unat_of_nat)
  show "take (min (length payload) 57) (drop 7 r) = take 57 payload"
    by (auto simp add: r_def init_frame_def Let_def ctaphid_defs min_def)
qed

lemma send_frames:
  "send (\<lambda>_. None) cid cmd payload =
    (if 7609 < length payload then ([], Err (PayloadTooLarge (length payload)))
     else (init_frame cid cmd payload # cont_frames cid 0 (chunks 59 (drop 57 payload)), Ok ()))"
  by (auto simp: send_def send_loop_frames ctaphid_defs min_def)

lemma recv_by_sent:
  assumes small: "length payload \<le> 7609"
    and cmd: "cmd \<noteq> CTAPHID_KEEPALIVE" "cmd \<noteq> CTAPHID_ERROR"
    and del: "delivers (dev_cancel dev) cid dl (map tl (fst (send (\<lambda>_. None) cid cmd payload))) ps qs"
  shows "recv_by dev cid cmd dl ps = Some (Ok payload, qs, [])"
proof -
  from del small obtain p ps' where p: "live_poll (dev_cancel dev) dl p"
    "poll_read p = Ok (tl (init_frame cid cmd payload))"
    "delivers (dev_cancel dev) cid dl (map tl (cont_frames cid 0 (chunks 59 (drop 57 payload)))) ps' qs"
    "recv_by dev cid cmd dl ps = recv_by dev cid cmd dl (p # ps')"
    by (auto simp: send_frames elim: recv_by_first [where cmd = cmd])
  note f = tl_init_frame [OF small, of cid cmd]
  have "recv_cont (dev_cancel dev) cid dl (length payload) (take 57 payload) 0 ps'
      = Some (Ok (take 57 payload @ drop 57 payload), qs)"
    using small by (intro recv_cont_chunks p(3)) auto
  then show ?thesis
    using cmd small f p(4) by (simp add: p(1,2) wait_report_live Let_def CTAPHID_MAX_PAYLOAD_def
      INIT_FRAME_HEADER_def INIT_FRAME_DATA_def CTAPHID_REPORT_SIZE_def)
qed

lemma list_all_cont_frames:
  "list_all (\<lambda>c. length c \<le> 59) cs \<Longrightarrow>
   list_all (\<lambda>f. length f = 65 \<and> take 5 f = 0 # u32_to_be cid) (cont_frames cid seq cs)"
  by (induction cid seq cs rule: cont_frames.induct) (auto simp: cont_frame_def ctaphid_defs)

lemma send_loop_prefix:
  "\<exists>k. fst (send_loop fail cid payload offset seq written)
     = take k (fst (send_loop (\<lambda>_. None) cid payload offset seq written))"
proof (induction fail cid payload offset seq written rule: send_loop.induct)
  case (1 fail cid payload offset seq written)
  show ?case
  proof (cases "offset < length payload")
    case True
    show ?thesis
    proof (cases "fail (length written)")
      case None
      then show ?thesis using 1 [OF True refl refl None] True by (subst (1 2) send_loop.simps) (simp add: Let_def)
    next
      case (Some e)
      then have "fst (send_loop fail cid payload offset seq written) = written"
        using True by (subst send_loop.simps) (simp add: Let_def)
      then show ?thesis by (metis append_eq_conv_conj fst_conv send_loop_frames)
    qed
  qed (subst (1 2) send_loop.simps, simp, metis take_all_iff order_refl)
qed

lemma send_prefix: "\<exists>k. fst (send fail cid cmd payload) = take k (fst (send (\<lambda>_. None) cid cmd payload))"
  using send_loop_prefix [of fail cid payload _ 0 "[init_frame cid cmd payload]"]
  by (auto simp: send_def split: option.splits intro: exI [of _ 0])

lemma send_frames_wf:
  "list_all (\<lambda>f. length f = 65 \<and> take 5 f = 0 # u32_to_be cid) (fst (send (\<lambda>_. None) cid cmd payload))"
proof -
  have "list_all (\<lambda>c. length c \<le> 59) (chunks 59 (drop 57 payload))"
    by (auto simp: list_all_iff dest: chunk_le)
  from list_all_cont_frames [OF this] show ?thesis
    by (simp add: send_frames) (simp add: init_frame_def Let_def)
qed

lemma send_frames_count: "length (fst (send (\<lambda>_. None) cid cmd payload)) \<le> 129"
  using length_chunks_le [of 59 "drop 57 payload" 128] by (simp add: send_frames)

subsection \<open>What a receive can return\<close>

lemma recv_cont_result:
  "recv_cont cc cid dl bcnt payload seq ps = Some (Ok pl, qs) \<Longrightarrow> length payload \<le> bcnt \<Longrightarrow>
   length pl = bcnt \<and> take (length payload) pl = payload"
proof (induction ps arbitrary: payload seq)
  case Nil
  then show ?case by (subst (asm) recv_cont.simps) (auto split: if_splits)
next
  case (Cons p ps)
  show ?case
  proof (cases "length payload < bcnt")
    case True
    from Cons.prems(1) True consider "recv_cont cc cid dl bcnt payload seq ps = Some (Ok pl, qs)"
      | buf where "recv_cont cc cid dl bcnt (payload @ take (min (bcnt - length payload) CONT_FRAME_DATA)
          (drop CONT_FRAME_HEADER buf)) (seq + 1) ps = Some (Ok pl, qs)"
      by (subst (asm) recv_cont.simps) (auto simp: Let_def split: if_splits result.splits option.splits)
    then show ?thesis
    proof cases
      case 2
      let ?c = "take (min (bcnt - length payload) CONT_FRAME_DATA) (drop CONT_FRAME_HEADER buf)"
      have "length ?c \<le> bcnt - length payload" by simp
      with True have "length (payload @ ?c) \<le> bcnt" by (simp only: length_append le_diff_conv2)
      from Cons.IH [OF 2 this] have pl: "length pl = bcnt" "take (length (payload @ ?c)) pl = payload @ ?c"
        by simp_all
      then have "take (length payload) (take (length (payload @ ?c)) pl) = payload" by simp
      then show ?thesis using pl(1) by (simp add: min_def)
    qed (use Cons in auto)
  next
    case False
    with Cons.prems show ?thesis by (subst (asm) recv_cont.simps) auto
  qed
qed

text \<open>The report a received message starts with.\<close>

definition starts_message :: "u32 \<Rightarrow> byte \<Rightarrow> bytes \<Rightarrow> bytes \<Rightarrow> bool" where
  "starts_message cid cmd pl buf \<longleftrightarrow> length buf = 64 \<and> u32_from_be (take 4 buf) = cid \<and> buf ! 4 = cmd \<and>
     from_be [buf ! 5, buf ! 6] = length pl \<and> take (min (length pl) 57) (drop 7 buf) = take 57 pl"

lemma recv_by_answer:
  "recv_by dev cid cmd dl ps = Some (Ok pl, qs, h) \<Longrightarrow>
    length pl \<le> 7609 \<and> (\<exists>p \<in> set ps. \<exists>buf. poll_read p = Ok buf \<and> starts_message cid cmd pl buf)"
proof (induction ps arbitrary: dl h)
  case (Cons p ps)
  have rd: "wait_report cc dl p = Ok (Some buf) \<Longrightarrow> poll_read p = Ok buf \<and> length buf = 64" for cc buf
    by (auto simp: wait_report_def read_report_def CTAPHID_REPORT_SIZE_def split: if_splits)
  have len: "unat (u16_from_be [a, b]) = from_be [a, b]" for a b
    using from_be_less [of "[a, b]"] by (simp add: u16_from_be_def unat_of_nat del: from_be.simps)
  from Cons.prems consider dl' h' where "recv_by dev cid cmd dl' ps = Some (Ok pl, qs, h')"
    | buf where "wait_report (dev_cancel dev) dl p = Ok (Some buf)" "u32_from_be (take 4 buf) = cid" "buf ! 4 = cmd"
      "from_be [buf ! 5, buf ! 6] \<le> 7609"
      "recv_cont (dev_cancel dev) cid dl (from_be [buf ! 5, buf ! 6])
         (take (min (from_be [buf ! 5, buf ! 6]) 57) (drop 7 buf)) 0 ps = Some (Ok pl, qs)"
    by (auto simp: Let_def len CTAPHID_MAX_PAYLOAD_def INIT_FRAME_DATA_def INIT_FRAME_HEADER_def
        CTAPHID_REPORT_SIZE_def simp del: from_be.simps split: if_splits result.splits option.splits)
  then show ?case
  proof cases
    case 1
    from Cons.IH [OF this] show ?thesis by auto
  next
    case 2
    note r = rd [OF 2(1)]
    from recv_cont_result [OF 2(5)] have "length pl = from_be [buf ! 5, buf ! 6]"
      and pre: "take (length (take (min (from_be [buf ! 5, buf ! 6]) 57) (drop 7 buf))) pl
        = take (min (from_be [buf ! 5, buf ! 6]) 57) (drop 7 buf)"
      by simp_all
    moreover from pre have "take 57 pl = take (min (length pl) 57) (drop 7 buf)"
      using r calculation(1) by (simp del: from_be.simps add: min_def split: if_splits)
    ultimately show ?thesis using 2 r
      by (intro conjI bexI [of _ p] exI [of _ buf]) (simp_all add: starts_message_def del: from_be.simps)
  qed
qed simp

lemma recv_cont_returns:
  "dl \<le> poll_now p \<Longrightarrow> recv_cont cc cid dl bcnt payload seq (ps @ p # rest) \<noteq> None"
proof (induction ps arbitrary: payload seq)
  case Nil
  then show ?case by (subst recv_cont.simps) (simp add: wait_report_def)
next
  case (Cons q ps)
  then show ?case
    by (subst recv_cont.simps) (simp add: Let_def split: result.splits option.splits)
qed

lemma recv_by_returns:
  "dl \<le> poll_now p \<Longrightarrow> list_all (\<lambda>q. poll_now_after q + dev_timeout dev \<le> poll_now p) ps \<Longrightarrow>
   recv_by dev cid cmd dl (ps @ p # rest) \<noteq> None"
proof (induction ps arbitrary: dl)
  case Nil
  then show ?case by (simp add: wait_report_def)
next
  case (Cons q ps)
  then show ?case
    using recv_cont_returns [of dl p _ cid _ _ 0 ps rest]
    by (simp add: Let_def split: result.splits option.splits)
qed


subsection \<open>Retries\<close>

text \<open>An attempt that is followed by another one: the device answered CHANNEL\_BUSY, the budget is not
  used up, and nobody cancelled.\<close>

definition retried :: "ctap_hid_device \<Rightarrow> byte \<Rightarrow> bytes \<Rightarrow> attempt_env \<Rightarrow> bool" where
  "retried dev cmd payload env \<longleftrightarrow>
     attempt_once dev cmd payload env = Some (Err (DeviceError CTAPHID_ERR_CHANNEL_BUSY)) \<and>
     env_elapsed env < 1300000000 \<and> sleep_between_attempts dev env = Ok ()"

lemmas busy_defs = busy_retry_delay_def CHANNEL_BUSY_MAX_ATTEMPTS_def CHANNEL_BUSY_RETRY_DELAY_def
  CHANNEL_BUSY_TOTAL_BUDGET_def

lemma transact_loop_retried:
  "list_all (retried dev cmd payload) pre \<Longrightarrow> attempt + length pre \<le> 4 \<Longrightarrow>
   transact_loop dev cmd payload attempt (pre @ envs) = transact_loop dev cmd payload (attempt + length pre) envs"
  by (induction pre arbitrary: attempt) (auto simp: retried_def busy_defs)

lemma transact_loop_final:
  assumes "attempt_once dev cmd payload env = Some r" "attempt \<le> 4" "attempt < 4 \<Longrightarrow> \<not> retried dev cmd payload env"
  shows "transact_loop dev cmd payload attempt (env # envs) = Some r \<or>
    r = Err (DeviceError CTAPHID_ERR_CHANNEL_BUSY) \<and> sleep_between_attempts dev env = Err Cancelled \<and>
    transact_loop dev cmd payload attempt (env # envs) = Some (Err Cancelled)"
proof -
  have sleep: "sleep_between_attempts dev env = Ok () \<or> sleep_between_attempts dev env = Err Cancelled"
    by (simp add: sleep_between_attempts_def)
  show ?thesis
    using assms sleep
    by (cases r) (auto simp: retried_def busy_defs split: hid_error.splits result.splits)
qed

subsection \<open>Channel allocation\<close>

lemma recv_cont_suffix: "recv_cont cc cid dl bcnt payload seq ps = Some (r, qs) \<Longrightarrow> set qs \<subseteq> set ps"
proof (induction ps arbitrary: payload seq)
  case (Cons p ps)
  then show ?case
    by (subst (asm) recv_cont.simps)
       (auto simp: Let_def split: if_splits result.splits option.splits)
qed (auto simp: recv_cont.simps split: if_splits)

lemma recv_by_suffix: "recv_by dev cid cmd dl ps = Some (r, qs, h) \<Longrightarrow> set qs \<subseteq> set ps"
  by (induction ps arbitrary: dl qs h)
     (fastforce simp: Let_def split: if_splits result.splits option.splits dest: recv_cont_suffix)+

lemma do_init_loop_answer:
  "do_init_loop dev nonce dl ps = Some (Ok init) \<Longrightarrow>
    \<exists>p \<in> set ps. \<exists>buf resp. poll_read p = Ok buf \<and> starts_message CTAPHID_BROADCAST_CID CTAPHID_INIT resp buf \<and>
      17 \<le> length resp \<and> take 8 resp = nonce \<and> init = parse_init_response resp"
proof (induction dev nonce dl ps rule: do_init_loop.induct)
  case (1 dev nonce dl ps)
  from "1.prems" obtain resp qs h where r: "recv_by dev CTAPHID_BROADCAST_CID CTAPHID_INIT dl ps = Some (Ok resp, qs, h)"
    and long: "17 \<le> length resp"
    and d: "take 8 resp \<noteq> nonce \<and> do_init_loop dev nonce dl qs = Some (Ok init) \<or>
      take 8 resp = nonce \<and> init = parse_init_response resp"
    by (subst (asm) do_init_loop.simps) (auto split: option.splits result.splits if_splits)
  from d show ?case
  proof
    assume other: "take 8 resp \<noteq> nonce \<and> do_init_loop dev nonce dl qs = Some (Ok init)"
    have "\<not> length resp < 17" using long by simp
    from "1.IH" [OF r refl refl refl this] other recv_by_suffix [OF r] show ?thesis by blast
  qed (use long recv_by_answer [OF r] in blast)
qed

lemma parse_init_first_report:
  assumes "starts_message cid cmd resp buf" "17 \<le> length resp"
  shows "parse_init_response (drop 7 buf) = parse_init_response resp" "take 8 (drop 7 buf) = take 8 resp"
proof -
  have "take 17 (take (min (length resp) 57) (drop 7 buf)) = take 17 (take 57 resp)"
    using assms(1) by (simp add: starts_message_def)
  then have eq: "take 17 (drop 7 buf) = take 17 resp" using assms(2) by (simp add: min_def split: if_splits)
  have nth: "drop 7 buf ! i = resp ! i" if "i < 17" for i
    using that by (metis eq nth_take)
  have "take 4 (drop 8 (take 17 (drop 7 buf))) = take 4 (drop 8 (take 17 resp))" by (simp only: eq)
  then have cid: "take 4 (drop 8 (drop 7 buf)) = take 4 (drop 8 resp)" by (simp add: drop_take)
  show "parse_init_response (drop 7 buf) = parse_init_response resp"
    unfolding parse_init_response_def cid by (simp add: nth del: nth_drop)
  have "take 8 (take 17 (drop 7 buf)) = take 8 (take 17 resp)" by (simp only: eq)
  then show "take 8 (drop 7 buf) = take 8 resp" by simp
qed


subsection \<open>The clientPIN subcommand\<close>

lemma find_as_uint: "map_option snd (find (\<lambda>(k, _). as_uint k = Some n) m) = find_uint_key n m"
  by (induction n m rule: find_uint_key.induct) auto

lemma client_pin_subcommand_encode:
  assumes "fits 0 (Map m)"
  shows "client_pin_subcommand (encode (Map m) @ rest) = Option.bind (find_uint_key 2 m) as_uint"
  by (simp add: client_pin_subcommand_def decode_encode [OF assms] find_as_uint [symmetric] del: encode.simps split: option.splits)

subsection \<open>Properties\<close>

text \<open>C4: a message that \<^verbatim>\<open>send\<close> cuts into reports is put together again by
  \<^verbatim>\<open>recv_by\<close>, whatever polls without a report and reports for other channels come in
  between, as long as no deadline passes and nobody cancels; the polls after the last report are left
  for the next receive.\<close>

theorem ctaphid_roundtrip:
  assumes "length payload \<le> CTAPHID_MAX_PAYLOAD"
    and "cmd \<noteq> CTAPHID_KEEPALIVE" "cmd \<noteq> CTAPHID_ERROR"
    and "delivers (dev_cancel dev) cid dl (map tl (fst (send (\<lambda>_. None) cid cmd payload))) ps qs"
  shows "recv_by dev cid cmd dl ps = Some (Ok payload, qs, [])"
  using assms by (intro recv_by_sent) (simp_all add: CTAPHID_MAX_PAYLOAD_def)

theorem ctaphid_roundtrip_witness:
  defines "dev \<equiv> \<lparr>dev_channel_id = 5, dev_timeout = 100, dev_cancel = True, dev_hook = False\<rparr>"
    and "at \<equiv> \<lambda>t rd. \<lparr>poll_now = t, poll_cancel = False, poll_read = Ok rd, poll_cancel_after = False,
           poll_now_after = t\<rparr>"
    and "fs \<equiv> map tl (fst (send (\<lambda>_. None) 5 CTAPHID_CBOR (replicate 60 7)))"
  shows "recv_by dev 5 CTAPHID_CBOR 9 [at 1 [], at 2 (fs ! 0), at 3 (replicate 64 0), at 4 (fs ! 1), at 8 []]
    = Some (Ok (replicate 60 7), [at 8 []], [])"
proof (rule ctaphid_roundtrip)
  have "from_be (replicate n 0) = 0" for n by (induction n) simp_all
  then have "u32_from_be (replicate 4 0) \<noteq> 5" by (simp add: u32_from_be_def)
  then have noise: "noise 5 (Ok [])" "noise 5 (Ok (replicate 64 0))" by (simp_all add: noise_def)
  have "chunks 59 (replicate 3 7) = [replicate 3 (7 :: byte)]" by (simp add: chunks_step)
  then have "length fs = 2" by (simp add: fs_def send_frames)
  then have fs: "fs = [fs ! 0, fs ! 1]" by (auto dest: list_split2)
  have "delivers True 5 9 [fs ! 0, fs ! 1]
      [at 1 [], at 2 (fs ! 0), at 3 (replicate 64 0), at 4 (fs ! 1), at 8 []] [at 8 []]"
    by (intro delivers.intros) (simp_all add: at_def live_poll_def noise)
  then show "delivers (dev_cancel dev) 5 9 (map tl (fst (send (\<lambda>_. None) 5 CTAPHID_CBOR (replicate 60 7))))
      [at 1 [], at 2 (fs ! 0), at 3 (replicate 64 0), at 4 (fs ! 1), at 8 []] [at 8 []]"
    using fs by (simp add: fs_def [symmetric] dev_def)
qed (simp_all add: ctaphid_defs)

text \<open>The reports of a message.  Without a write error they are one initialization report and the
  rest of the payload in pieces of 59 bytes with the sequence numbers 0, 1, \<open>\<dots>\<close>; with one they are
  a prefix of that list.  There are at most 129, so the 7-bit sequence number never wraps, each
  has 65 bytes and carries report id 0 and the channel; a longer payload is refused unsent.\<close>

theorem send_shape:
  "send (\<lambda>_. None) cid cmd payload =
     (if CTAPHID_MAX_PAYLOAD < length payload then ([], Err (PayloadTooLarge (length payload)))
      else (init_frame cid cmd payload
            # map (\<lambda>(i, c). cont_frame cid (word_of_nat i) c) (enumerate 0 (chunks 59 (drop 57 payload))), Ok ()))
   \<and> (\<exists>k. fst (send fail cid cmd payload) = take k (fst (send (\<lambda>_. None) cid cmd payload)))
   \<and> length (fst (send (\<lambda>_. None) cid cmd payload)) \<le> 129
   \<and> list_all (\<lambda>f. length f = 65 \<and> take 5 f = 0 # u32_to_be cid) (fst (send (\<lambda>_. None) cid cmd payload))"
proof -
  have "cont_frames cid (word_of_nat n) cs = map (\<lambda>(i, c). cont_frame cid (word_of_nat i) c) (enumerate n cs)" for n cs
    by (induction cs arbitrary: n) (simp_all, metis add.commute of_nat_Suc)
  from this [of 0] show ?thesis
    by (intro conjI send_prefix send_frames_count send_frames_wf) (simp add: send_frames CTAPHID_MAX_PAYLOAD_def)
qed

text \<open>A response that \<^verbatim>\<open>recv_by\<close> returns is at most 7609 bytes long, exactly as
  long as announced, and starts with the data of a report that arrived on the expected channel with the
  expected command.\<close>

theorem recv_sound:
  assumes "recv_by dev cid cmd dl ps = Some (Ok pl, qs, hooks)"
  shows "length pl \<le> CTAPHID_MAX_PAYLOAD \<and>
    (\<exists>p \<in> set ps. \<exists>buf. poll_read p = Ok buf \<and> starts_message cid cmd pl buf)"
  using recv_by_answer [OF assms] by (simp add: CTAPHID_MAX_PAYLOAD_def)

theorem recv_sound_witness:
  defines "dev \<equiv> \<lparr>dev_channel_id = 5, dev_timeout = 100, dev_cancel = False, dev_hook = False\<rparr>"
    and "p \<equiv> \<lparr>poll_now = 0, poll_cancel = False, poll_read = Ok ([0, 0, 0, 5, 0x90, 0, 1, 42] @ replicate 56 0),
           poll_cancel_after = False, poll_now_after = 1\<rparr>"
  shows "\<exists>buf. poll_read p = Ok buf \<and> starts_message 5 0x90 [42] buf"
proof -
  have "recv_by dev 5 0x90 9 [p] = Some (Ok [42], [], [])"
    by (simp add: p_def dev_def wait_report_def ctaphid_defs u32_from_be_def u16_from_be_def Let_def recv_cont.simps)
  from recv_sound [OF this] show ?thesis by simp
qed



text \<open>\<^verbatim>\<open>transact\<close> makes at most four attempts.  It repeats an attempt only after
  CHANNEL\_BUSY within the budget and without a cancel, and then returns the outcome of the first attempt
  that is not repeated, or \<^verbatim>\<open>Cancelled\<close> when the cancel came while it was waiting.\<close>

theorem transact_attempts:
  assumes "4 \<le> length envs" "list_all (\<lambda>env. attempt_once dev cmd payload env \<noteq> None) (take 4 envs)"
  shows "\<exists>k < 4. list_all (retried dev cmd payload) (take k envs) \<and>
    (k < 3 \<longrightarrow> \<not> retried dev cmd payload (envs ! k)) \<and>
    (transact dev cmd payload envs = attempt_once dev cmd payload (envs ! k) \<or>
     sleep_between_attempts dev (envs ! k) = Err Cancelled \<and>
     attempt_once dev cmd payload (envs ! k) = Some (Err (DeviceError CTAPHID_ERR_CHANNEL_BUSY)) \<and>
     transact dev cmd payload envs = Some (Err Cancelled))"
proof -
  define k where "k = length (takeWhile (retried dev cmd payload) (take 3 envs))"
  have k: "k \<le> 3" unfolding k_def using length_takeWhile_le [of "retried dev cmd payload" "take 3 envs"] by simp
  have "take k (take 3 envs) = takeWhile (retried dev cmd payload) (take 3 envs)"
    unfolding k_def by (rule takeWhile_eq_take [symmetric])
  with k have pre: "list_all (retried dev cmd payload) (take k envs)"
    by (metis list_all_iff min.absorb1 set_takeWhileD take_take)
  have last: "k < 3 \<Longrightarrow> \<not> retried dev cmd payload (envs ! k)"
    unfolding k_def using assms(1) nth_length_takeWhile [of "retried dev cmd payload" "take 3 envs"] by simp
  have kl: "k < length envs" and kt: "k < length (take 4 envs)" using k assms(1) by simp_all
  have "attempt_once dev cmd payload (take 4 envs ! k) \<noteq> None"
    using assms(2) kt unfolding list_all_length by blast
  then obtain r where r: "attempt_once dev cmd payload (envs ! k) = Some r" using k by auto
  have "transact dev cmd payload envs = transact_loop dev cmd payload (1 + k) (envs ! k # drop (Suc k) envs)"
    using transact_loop_retried [OF pre, of 1 "drop k envs"] k kl
    by (simp add: transact_def Cons_nth_drop_Suc)
  with transact_loop_final [OF r, of "1 + k" "drop (Suc k) envs"] k pre last r show ?thesis
    by (intro exI [of _ k]) auto
qed

theorem transact_attempts_witness:
  defines "dev \<equiv> \<lparr>dev_channel_id = 5, dev_timeout = 100, dev_cancel = False, dev_hook = False\<rparr>"
    and "env \<equiv> \<lparr>env_fail = (\<lambda>_. Some Backend), env_now = 0, env_polls = [], env_elapsed = 0,
      env_cancel_before = False, env_cancel_after = False\<rparr>"
  shows "transact dev 0x90 [4] (replicate 4 env) = Some (Err Backend)"
proof -
  have env: "attempt_once dev 0x90 [4] env = Some (Err Backend)"
    by (simp add: attempt_once_def send_def env_def CTAPHID_MAX_PAYLOAD_def)
  then have "\<exists>k < 4. transact dev 0x90 [4] (replicate 4 env) = attempt_once dev 0x90 [4] (replicate 4 env ! k)"
    using transact_attempts [of "replicate 4 env" dev "0x90" "[4]"]
    by (auto simp: CTAPHID_ERR_CHANNEL_BUSY_def list_all_iff)
  with env show ?thesis by auto
qed

text \<open>Opening a device succeeds only on an INIT report that arrived on the broadcast channel
  and carries the nonce just sent; the device then uses the channel that report assigns.\<close>

theorem open_device_nonce:
  assumes "open_device hidden io fail nonce now ps = Some (Ok (dev, init))"
  shows "\<not> hidden \<and> dev_channel_id dev = channel_id init \<and>
    (\<exists>p \<in> set ps. \<exists>buf. poll_read p = Ok buf \<and> length buf = 64 \<and>
       u32_from_be (take 4 buf) = CTAPHID_BROADCAST_CID \<and> buf ! 4 = CTAPHID_INIT \<and>
       take 8 (drop 7 buf) = nonce \<and> init = parse_init_response (drop 7 buf))"
proof -
  from assms obtain d dl where d: "\<not> hidden" "dev_channel_id dev = channel_id init"
    "do_init_loop d nonce dl ps = Some (Ok init)"
    by (auto simp: open_device_def do_init_def Let_def split: if_splits result.splits)
  from do_init_loop_answer [OF this(3)] obtain p buf resp where p: "p \<in> set ps" "poll_read p = Ok buf"
    "starts_message CTAPHID_BROADCAST_CID CTAPHID_INIT resp buf" "17 \<le> length resp" "take 8 resp = nonce"
    "init = parse_init_response resp" by blast
  with parse_init_first_report [OF p(3,4)] d show ?thesis
    by (auto simp: starts_message_def intro!: bexI [of _ p])
qed

theorem open_device_nonce_witness:
  defines "p \<equiv> \<lparr>poll_now = 0, poll_cancel = False,
      poll_read = Ok ([0xff, 0xff, 0xff, 0xff, 0x86, 0, 17] @ replicate 8 9 @ [0, 0, 0, 5, 2, 1, 2, 3, 4] @ replicate 40 0),
      poll_cancel_after = False, poll_now_after = 1\<rparr>"
  shows "\<exists>dev init. open_device False (Ok ()) (\<lambda>_. None) (replicate 8 9) 0 [p] = Some (Ok (dev, init)) \<and>
    dev_channel_id dev = channel_id init"
proof -
  have "\<exists>dev init. open_device False (Ok ()) (\<lambda>_. None) (replicate 8 9) 0 [p] = Some (Ok (dev, init))"
    by (simp add: p_def open_device_def do_init_def send_frames do_init_loop.simps wait_report_def ctaphid_defs
        u32_from_be_def u16_from_be_def Let_def recv_cont.simps DEFAULT_READ_TIMEOUT_def)
  then obtain dev init where o: "open_device False (Ok ()) (\<lambda>_. None) (replicate 8 9) 0 [p] = Some (Ok (dev, init))"
    by blast
  from open_device_nonce [OF this] o show ?thesis by blast
qed

text \<open>The trace never shows a clientPIN exchange except for getPINRetries (1) and
  getKeyAgreement (2): any other subcommand, a missing one, and a body that does not decode are all
  redacted, and the redacted text is the same for every payload.\<close>

theorem client_pin_redacted:
  assumes "fits 0 (Map m)" and "decode junk = Err e"
  shows "(exchange_is_sensitive CTAPHID_CBOR (0x06 # encode (Map m) @ rest)
      \<longleftrightarrow> (case find_uint_key 2 m of Some (UInt n) \<Rightarrow> n \<noteq> 1 \<and> n \<noteq> 2 | _ \<Rightarrow> True))
    \<and> exchange_is_sensitive CTAPHID_CBOR (0x06 # junk)
    \<and> trace_payload p True = trace_payload q True"
  using client_pin_subcommand_encode [OF assms(1), of rest] assms(2)
  by (auto simp: exchange_is_sensitive_def CTAPHID_CBOR_def trace_payload_def client_pin_subcommand_def
      simp del: encode.simps split: option.splits cbor_value.splits)

theorem client_pin_redacted_witness:
  "exchange_is_sensitive CTAPHID_CBOR (0x06 # encode (Map [(UInt 1, UInt 2), (UInt 2, UInt 5)]) @ [])
   \<and> \<not> exchange_is_sensitive CTAPHID_CBOR (0x06 # encode (Map [(UInt 1, UInt 2), (UInt 2, UInt 2)]) @ [])"
proof -
  have "decode [] = Err UnexpectedEnd" by (simp add: decode_def decode_at.simps)
  from client_pin_redacted [OF _ this, of "[(UInt 1, UInt 2), (UInt 2, UInt 5)]" "[]"]
    client_pin_redacted [OF _ this, of "[(UInt 1, UInt 2), (UInt 2, UInt 2)]" "[]"]
  show ?thesis by (simp add: DECODE_DEPTH_LIMIT_def del: encode.simps)
qed

end
