(* ===== verification/Ctap_Cmd.thy ===== *)
theory Ctap_Cmd
  imports Ctaphid
begin

text \<open>
  \<^verbatim>\<open>crates/keyroost-ctap/src/transport.rs\<close> and \<^verbatim>\<open>cmd.rs\<close>: the transport a CTAP command
  runs over, and the commands \<^verbatim>\<open>authenticatorGetInfo\<close> and \<^verbatim>\<open>authenticatorReset\<close>.
  A transport is the record of its operations on a device state of any type; a command takes the
  state and returns its outcome with the state left behind.  Times are nanoseconds.
\<close>

text \<open>The texts of a link failure are not modelled.\<close>

datatype ctap_error =
    Hid hid_error
  | CborFailed cbor_error
  | StatusCode byte
  | PinChangeRequired
  | EmptyResponse
  | InvalidResponseShape string
  | InvalidArgument string
  | NotSupported string
  | TransportFailed
  | ApduStatus byte byte

definition is_pin_auth_error :: "ctap_error \<Rightarrow> bool" where
  "is_pin_auth_error e \<longleftrightarrow> e \<in> {StatusCode 0x31, StatusCode 0x33, StatusCode 0x34}"

subsection \<open>Transports\<close>

record 'd ctap_transport =
  transact_on :: "byte \<Rightarrow> bytes \<Rightarrow> 'd \<Rightarrow> (bytes, ctap_error) result \<times> 'd"
  read_timeout :: "'d \<Rightarrow> nat"
  set_timeout :: "nat \<Rightarrow> 'd \<Rightarrow> 'd"

text \<open>\<^verbatim>\<open>?\<close> on a step: an error ends the command with the state it left.\<close>

fun bind_dev :: "('a, 'e) result \<times> 'd \<Rightarrow> ('a \<Rightarrow> 'd \<Rightarrow> ('b, 'e) result \<times> 'd) \<Rightarrow> ('b, 'e) result \<times> 'd" where
  "bind_dev (Ok a, d) k = k a d"
| "bind_dev (Err e, d) k = (Err e, d)"

lemma bind_dev_eq_Ok [simp]:
  "bind_dev m k = (Ok b, d') \<longleftrightarrow> (\<exists>a d. m = (Ok a, d) \<and> k a d = (Ok b, d'))"
  by (cases m; cases "fst m") auto

definition with_timeout :: "'d ctap_transport \<Rightarrow> nat \<Rightarrow> ('d \<Rightarrow> 'r \<times> 'd) \<Rightarrow> 'd \<Rightarrow> 'r \<times> 'd" where
  "with_timeout dev timeout f d =
     (let prev = read_timeout dev d;
          (out, d) = f (set_timeout dev timeout d)
      in (out, set_timeout dev prev d))"

definition CTAP2_GET_INFO :: byte where "CTAP2_GET_INFO = 0x04"
definition CTAP2_RESET :: byte where "CTAP2_RESET = 0x07"
definition RESET_TIMEOUT :: nat where "RESET_TIMEOUT = 30000000000"

definition split_status :: "bytes \<Rightarrow> (byte \<times> bytes, ctap_error) result" where
  "split_status resp = (case resp of [] \<Rightarrow> Err EmptyResponse | s # rest \<Rightarrow> Ok (s, rest))"

text \<open>The conversion of a decoding error by \<^verbatim>\<open>?\<close>, with the rest of the input dropped.\<close>

definition decode_value :: "bytes \<Rightarrow> (cbor_value, ctap_error) result" where
  "decode_value body =
     (case decode body of Ok (v, _) \<Rightarrow> Ok v | Err e \<Rightarrow> Err (CborFailed e))"

subsection \<open>\<^verbatim>\<open>authenticatorGetInfo\<close>\<close>

record authenticator_info =
  ai_versions :: "bytes list"
  ai_extensions :: "bytes list"
  ai_aaguid :: bytes
  ai_options :: "(bytes \<times> bool) list"
  ai_max_msg_size :: "u64 option"
  ai_pin_uv_auth_protocols :: "u64 list"
  ai_max_credential_count_in_list :: "u64 option"
  ai_max_credential_id_length :: "u64 option"
  ai_transports :: "bytes list"
  ai_force_pin_change :: "bool option"
  ai_min_pin_length :: "u64 option"
  ai_firmware_version :: "u64 option"
  ai_max_serialized_large_blob_array :: "u64 option"

definition info_default :: authenticator_info where
  "info_default = \<lparr>ai_versions = [], ai_extensions = [], ai_aaguid = replicate 16 0, ai_options = [],
     ai_max_msg_size = None, ai_pin_uv_auth_protocols = [], ai_max_credential_count_in_list = None,
     ai_max_credential_id_length = None, ai_transports = [], ai_force_pin_change = None,
     ai_min_pin_length = None, ai_firmware_version = None, ai_max_serialized_large_blob_array = None\<rparr>"

definition info_option :: "authenticator_info \<Rightarrow> string \<Rightarrow> bool option" where
  "info_option info name = map_of (ai_options info) (ascii name)"

definition collect_strings :: "cbor_value \<Rightarrow> bytes list" where
  "collect_strings v = (case as_array v of None \<Rightarrow> [] | Some a \<Rightarrow> List.map_filter as_text a)"

definition collect_uints :: "cbor_value \<Rightarrow> u64 list" where
  "collect_uints v = (case as_array v of None \<Rightarrow> [] | Some a \<Rightarrow> List.map_filter as_uint a)"

definition collect_named_bools :: "cbor_value \<Rightarrow> (bytes \<times> bool) list" where
  "collect_named_bools v =
     (case as_map v of None \<Rightarrow> []
      | Some m \<Rightarrow> List.map_filter (\<lambda>(k, v).
          case (as_text k, as_bool v) of (Some k, Some b) \<Rightarrow> Some (k, b) | _ \<Rightarrow> None) m)"

definition info_field :: "authenticator_info \<Rightarrow> u64 \<Rightarrow> cbor_value \<Rightarrow> authenticator_info" where
  "info_field info key val =
     (if key = 0x01 then info\<lparr>ai_versions := collect_strings val\<rparr>
      else if key = 0x02 then info\<lparr>ai_extensions := collect_strings val\<rparr>
      else if key = 0x03 then
        (case as_bytes val of
           Some b \<Rightarrow> if length b = 16 then info\<lparr>ai_aaguid := b\<rparr> else info
         | None \<Rightarrow> info)
      else if key = 0x04 then info\<lparr>ai_options := collect_named_bools val\<rparr>
      else if key = 0x05 then info\<lparr>ai_max_msg_size := as_uint val\<rparr>
      else if key = 0x06 then info\<lparr>ai_pin_uv_auth_protocols := collect_uints val\<rparr>
      else if key = 0x07 then info\<lparr>ai_max_credential_count_in_list := as_uint val\<rparr>
      else if key = 0x08 then info\<lparr>ai_max_credential_id_length := as_uint val\<rparr>
      else if key = 0x09 then info\<lparr>ai_transports := collect_strings val\<rparr>
      else if key = 0x0b then info\<lparr>ai_max_serialized_large_blob_array := as_uint val\<rparr>
      else if key = 0x0c then info\<lparr>ai_force_pin_change := as_bool val\<rparr>
      else if key = 0x0d then info\<lparr>ai_min_pin_length := as_uint val\<rparr>
      else if key = 0x0e then info\<lparr>ai_firmware_version := as_uint val\<rparr>
      else info)"

fun info_entry :: "authenticator_info \<Rightarrow> cbor_value \<times> cbor_value \<Rightarrow> authenticator_info" where
  "info_entry info (k, val) = (case as_uint k of None \<Rightarrow> info | Some key \<Rightarrow> info_field info key val)"

definition parse_authenticator_info :: "cbor_value \<Rightarrow> (authenticator_info, ctap_error) result" where
  "parse_authenticator_info v =
     (case as_map v of
        None \<Rightarrow> Err (InvalidResponseShape ''expected map at top level'')
      | Some m \<Rightarrow> Ok (foldl info_entry info_default m))"

definition get_info :: "'d ctap_transport \<Rightarrow> 'd \<Rightarrow> (authenticator_info, ctap_error) result \<times> 'd" where
  "get_info dev d =
     bind_dev (transact_on dev CTAPHID_CBOR [CTAP2_GET_INFO] d) (\<lambda>resp d.
       (bind_result (split_status resp) (\<lambda>(status, body).
          if status \<noteq> 0 then Err (StatusCode status)
          else bind_result (decode_value body) parse_authenticator_info), d))"

definition reset :: "'d ctap_transport \<Rightarrow> 'd \<Rightarrow> (unit, ctap_error) result \<times> 'd" where
  "reset dev d =
     bind_dev (with_timeout dev RESET_TIMEOUT (transact_on dev CTAPHID_CBOR [CTAP2_RESET]) d) (\<lambda>resp d.
       (bind_result (split_status resp) (\<lambda>(status, _).
          if status \<noteq> 0 then Err (StatusCode status) else Ok ()), d))"

subsection \<open>What the decoder guarantees\<close>

text \<open>The identifier of the model is 16 bytes long, whatever the key sent.\<close>

lemma info_field_aaguid: "length (ai_aaguid info) = 16 \<Longrightarrow> length (ai_aaguid (info_field info key val)) = 16"
  by (simp add: info_field_def split: option.splits)

lemma info_aaguid:
  "parse_authenticator_info v = Ok info \<Longrightarrow> length (ai_aaguid info) = 16"
proof -
  have "length (ai_aaguid i) = 16 \<Longrightarrow> length (ai_aaguid (foldl info_entry i m)) = 16" for i m
    by (induction m arbitrary: i) (auto split: option.splits simp: info_field_aaguid)
  then show "parse_authenticator_info v = Ok info \<Longrightarrow> length (ai_aaguid info) = 16"
    by (auto simp: parse_authenticator_info_def info_default_def split: option.splits)
qed

text \<open>The contract of a transport's timeout: setting the value it reported brings that value back.\<close>

locale timed_transport =
  fixes dev :: "'d ctap_transport"
  assumes set_back: "read_timeout dev (set_timeout dev (read_timeout dev d) d') = read_timeout dev d"
begin

lemma with_timeout_restores: "read_timeout dev (snd (with_timeout dev t f d)) = read_timeout dev d"
  by (simp add: with_timeout_def set_back split: prod.splits)

lemma reset_restores: "read_timeout dev (snd (reset dev d)) = read_timeout dev d"
proof -
  have "read_timeout dev (snd (bind_dev m (\<lambda>resp d. (k resp, d)))) = read_timeout dev (snd m)"
    for m :: "(bytes, ctap_error) result \<times> 'd" and k :: "bytes \<Rightarrow> (unit, ctap_error) result"
    by (cases m; cases "fst m") auto
  then show ?thesis by (simp add: reset_def with_timeout_restores)
qed

end

text \<open>The trait's default methods, and the HID device over the exchange of \<open>Ctaphid\<close>; the
  outcome of an exchange comes from the surroundings \<open>'e\<close>.\<close>

definition default_transport :: "(byte \<Rightarrow> bytes \<Rightarrow> 'd \<Rightarrow> (bytes, ctap_error) result \<times> 'd) \<Rightarrow> 'd ctap_transport" where
  "default_transport exchange =
     \<lparr>transact_on = exchange, read_timeout = (\<lambda>_. DEFAULT_READ_TIMEOUT), set_timeout = (\<lambda>_ d. d)\<rparr>"

definition hid_transport :: "(ctap_hid_device \<Rightarrow> byte \<Rightarrow> bytes \<Rightarrow> 'e \<Rightarrow> (bytes, hid_error) result \<times> 'e)
    \<Rightarrow> (ctap_hid_device \<times> 'e) ctap_transport" where
  "hid_transport exchange =
     \<lparr>transact_on = (\<lambda>cmd payload (dev, env).
        case exchange dev cmd payload env of
          (Ok resp, env) \<Rightarrow> (Ok resp, dev, env)
        | (Err e, env) \<Rightarrow> (Err (Hid e), dev, env)),
      read_timeout = (\<lambda>(dev, _). dev_timeout dev),
      set_timeout = (\<lambda>t (dev, env). (dev\<lparr>dev_timeout := t\<rparr>, env))\<rparr>"

interpretation default_timeout: timed_transport "default_transport exchange" for exchange
  by unfold_locales (simp add: default_transport_def)

interpretation hid_timeout: timed_transport "hid_transport exchange" for exchange
  by unfold_locales (auto simp: hid_transport_def split: prod.splits)

end
