(* ===== verification/Client_Pin.thy ===== *)
theory Client_Pin
  imports Ctap_Cmd
begin

text \<open>
  \<^verbatim>\<open>crates/keyroost-ctap/src/pin.rs\<close> and \<^verbatim>\<open>client_pin.rs\<close>: the two PIN protocols and
  the \<^verbatim>\<open>clientPin\<close> commands.  The third-party primitives (P-256, AES-CBC, AES-GCM, SHA-256,
  HMAC, DEFLATE) are the fields of \<open>ctap_crypto\<close>; fresh randomness (the ephemeral key, the IVs)
  is an argument.  A failed assertion is \<open>None\<close>.
\<close>

record 'k ctap_crypto =
  cr_sha256 :: "bytes \<Rightarrow> bytes"
  cr_hmac :: "bytes \<Rightarrow> bytes \<Rightarrow> bytes"
  cr_cbc_encrypt :: "bytes \<Rightarrow> bytes \<Rightarrow> bytes \<Rightarrow> bytes"
  cr_cbc_decrypt :: "bytes \<Rightarrow> bytes \<Rightarrow> bytes \<Rightarrow> bytes"
  cr_public_xy :: "'k \<Rightarrow> bytes \<times> bytes"
  cr_ecdh :: "'k \<Rightarrow> bytes \<Rightarrow> bytes \<Rightarrow> bytes option"
  cr_gcm_encrypt :: "bytes \<Rightarrow> bytes \<Rightarrow> bytes \<Rightarrow> bytes \<Rightarrow> bytes"
  cr_gcm_decrypt :: "bytes \<Rightarrow> bytes \<Rightarrow> bytes \<Rightarrow> bytes \<Rightarrow> bytes option"
  cr_inflate :: "bytes \<Rightarrow> nat \<Rightarrow> bytes option"
  cr_inflate_zlib :: "bytes \<Rightarrow> nat \<Rightarrow> bytes option"

subsection \<open>\<^verbatim>\<open>pin.rs\<close>\<close>

definition PIN_PROTOCOL_V1 :: u32 where "PIN_PROTOCOL_V1 = 1"
definition PIN_PROTOCOL_V2 :: u32 where "PIN_PROTOCOL_V2 = 2"

datatype pin_error = InvalidPublicKey | InvalidCiphertextLength | AesError

datatype pin_protocol =
    ProtocolV1 (v1_secret: bytes)
  | ProtocolV2 (v2_hmac_key: bytes) (v2_aes_key: bytes)

definition hkdf_sha256_l32 :: "'k ctap_crypto \<Rightarrow> bytes \<Rightarrow> bytes \<Rightarrow> bytes \<Rightarrow> bytes" where
  "hkdf_sha256_l32 c salt ikm info =
     (let prk = cr_hmac c salt ikm in cr_hmac c prk (info @ [0x01]))"

definition shared_secret_v1 :: "'k ctap_crypto \<Rightarrow> 'k \<Rightarrow> bytes \<Rightarrow> bytes \<Rightarrow> (pin_protocol, pin_error) result" where
  "shared_secret_v1 c k peer_x peer_y =
     (case cr_ecdh c k peer_x peer_y of
        None \<Rightarrow> Err InvalidPublicKey
      | Some z \<Rightarrow> Ok (ProtocolV1 (cr_sha256 c z)))"

definition shared_secret_v2 :: "'k ctap_crypto \<Rightarrow> 'k \<Rightarrow> bytes \<Rightarrow> bytes \<Rightarrow> (pin_protocol, pin_error) result" where
  "shared_secret_v2 c k peer_x peer_y =
     (case cr_ecdh c k peer_x peer_y of
        None \<Rightarrow> Err InvalidPublicKey
      | Some z \<Rightarrow> Ok (ProtocolV2 (hkdf_sha256_l32 c (replicate 32 0) z (ascii ''CTAP2 HMAC key''))
                                  (hkdf_sha256_l32 c (replicate 32 0) z (ascii ''CTAP2 AES key''))))"

definition aes256_cbc_encrypt :: "'k ctap_crypto \<Rightarrow> bytes \<Rightarrow> bytes \<Rightarrow> bytes \<Rightarrow> bytes option" where
  "aes256_cbc_encrypt c key iv plaintext =
     (if length plaintext mod 16 \<noteq> 0 then None else Some (cr_cbc_encrypt c key iv plaintext))"

definition aes256_cbc_decrypt :: "'k ctap_crypto \<Rightarrow> bytes \<Rightarrow> bytes \<Rightarrow> bytes \<Rightarrow> (bytes, pin_error) result" where
  "aes256_cbc_decrypt c key iv ciphertext =
     (if ciphertext = [] \<or> length ciphertext mod 16 \<noteq> 0 then Err InvalidCiphertextLength
      else Ok (cr_cbc_decrypt c key iv ciphertext))"

fun proto_encrypt :: "'k ctap_crypto \<Rightarrow> bytes \<Rightarrow> pin_protocol \<Rightarrow> bytes \<Rightarrow> bytes option" where
  "proto_encrypt c iv (ProtocolV1 secret) plaintext = aes256_cbc_encrypt c secret (replicate 16 0) plaintext"
| "proto_encrypt c iv (ProtocolV2 hmac_key aes_key) plaintext =
     map_option (\<lambda>body. iv @ body) (aes256_cbc_encrypt c aes_key iv plaintext)"

fun proto_decrypt :: "'k ctap_crypto \<Rightarrow> pin_protocol \<Rightarrow> bytes \<Rightarrow> (bytes, pin_error) result" where
  "proto_decrypt c (ProtocolV1 secret) ciphertext = aes256_cbc_decrypt c secret (replicate 16 0) ciphertext"
| "proto_decrypt c (ProtocolV2 hmac_key aes_key) ciphertext =
     (if length ciphertext < 16 then Err InvalidCiphertextLength
      else aes256_cbc_decrypt c aes_key (take 16 ciphertext) (drop 16 ciphertext))"

fun proto_authenticate :: "'k ctap_crypto \<Rightarrow> pin_protocol \<Rightarrow> bytes \<Rightarrow> bytes" where
  "proto_authenticate c (ProtocolV1 secret) data = take 16 (cr_hmac c secret data)"
| "proto_authenticate c (ProtocolV2 hmac_key aes_key) data = cr_hmac c hmac_key data"

definition left16_sha256 :: "'k ctap_crypto \<Rightarrow> bytes \<Rightarrow> bytes" where
  "left16_sha256 c input = take 16 (cr_sha256 c input)"

definition pad_pin_to_64 :: "bytes \<Rightarrow> bytes option" where
  "pad_pin_to_64 pin = (if 64 \<le> length pin then None else Some (pin @ replicate (64 - length pin) 0))"

subsection \<open>\<^verbatim>\<open>client_pin.rs\<close>\<close>

definition CTAP2_CLIENT_PIN :: byte where "CTAP2_CLIENT_PIN = 0x06"
definition KEY_PIN_PROTOCOL :: u64 where "KEY_PIN_PROTOCOL = 0x01"
definition KEY_SUB_COMMAND :: u64 where "KEY_SUB_COMMAND = 0x02"
definition KEY_KEY_AGREEMENT :: u64 where "KEY_KEY_AGREEMENT = 0x03"
definition KEY_PIN_AUTH_PARAM :: u64 where "KEY_PIN_AUTH_PARAM = 0x04"
definition KEY_NEW_PIN_ENC :: u64 where "KEY_NEW_PIN_ENC = 0x05"
definition KEY_PIN_HASH_ENC :: u64 where "KEY_PIN_HASH_ENC = 0x06"
definition KEY_PERMISSIONS :: u64 where "KEY_PERMISSIONS = 0x09"
definition KEY_RP_ID :: u64 where "KEY_RP_ID = 0x0A"

definition SUB_GET_PIN_RETRIES :: byte where "SUB_GET_PIN_RETRIES = 0x01"
definition SUB_GET_KEY_AGREEMENT :: byte where "SUB_GET_KEY_AGREEMENT = 0x02"
definition SUB_SET_PIN :: byte where "SUB_SET_PIN = 0x03"
definition SUB_CHANGE_PIN :: byte where "SUB_CHANGE_PIN = 0x04"
definition SUB_GET_PIN_TOKEN :: byte where "SUB_GET_PIN_TOKEN = 0x05"
definition SUB_GET_PIN_UV_AUTH_TOKEN_USING_PIN :: byte where "SUB_GET_PIN_UV_AUTH_TOKEN_USING_PIN = 0x09"

lemmas client_pin_defs = PIN_PROTOCOL_V1_def PIN_PROTOCOL_V2_def CTAP2_CLIENT_PIN_def
  KEY_PIN_PROTOCOL_def KEY_SUB_COMMAND_def KEY_KEY_AGREEMENT_def KEY_PIN_AUTH_PARAM_def
  KEY_NEW_PIN_ENC_def KEY_PIN_HASH_ENC_def KEY_PERMISSIONS_def KEY_RP_ID_def
  SUB_GET_PIN_RETRIES_def SUB_GET_KEY_AGREEMENT_def SUB_SET_PIN_def SUB_CHANGE_PIN_def
  SUB_GET_PIN_TOKEN_def SUB_GET_PIN_UV_AUTH_TOKEN_USING_PIN_def

datatype selected_pin_protocol = V1 | V2

fun protocol_of :: "selected_pin_protocol \<Rightarrow> u32" where
  "protocol_of V1 = PIN_PROTOCOL_V1"
| "protocol_of V2 = PIN_PROTOCOL_V2"

fun select_pin_protocol :: "u64 list \<Rightarrow> selected_pin_protocol" where
  "select_pin_protocol [] = V1"
| "select_pin_protocol (p # supported) =
     (if p = ucast PIN_PROTOCOL_V2 then V2
      else if p = ucast PIN_PROTOCOL_V1 then V1
      else select_pin_protocol supported)"

record pin_response =
  pr_retries :: "u32 option"
  pr_key_agreement :: "(bytes \<times> bytes) option"
  pr_pin_token_enc :: "bytes option"

definition pin_response_default :: pin_response where
  "pin_response_default = \<lparr>pr_retries = None, pr_key_agreement = None, pr_pin_token_enc = None\<rparr>"

record pin_uv_auth_token =
  tk_protocol :: u32
  tk_token :: bytes

definition token_authenticate :: "'k ctap_crypto \<Rightarrow> pin_uv_auth_token \<Rightarrow> bytes \<Rightarrow> bytes" where
  "token_authenticate c tok data =
     (let full = cr_hmac c (tk_token tok) data in
      if tk_protocol tok = PIN_PROTOCOL_V1 then take 16 full else full)"

text \<open>Integers of a COSE key: the helper \<^verbatim>\<open>n\<close>.\<close>

definition cose_int :: "int \<Rightarrow> cbor_value" where
  "cose_int v = (if 0 \<le> v then UInt (word_of_int v) else NInt (word_of_int (-1 - v)))"

definition cose_p256_public :: "bytes \<Rightarrow> bytes \<Rightarrow> cbor_value" where
  "cose_p256_public x y = Map
     [(cose_int 1, UInt 2), (cose_int 3, cose_int (-25)), (cose_int (-1), UInt 1),
      (cose_int (-2), Bytes x), (cose_int (-3), Bytes y)]"

definition build_request_extra :: "u32 \<Rightarrow> byte \<Rightarrow> (cbor_value \<times> cbor_value) list \<Rightarrow> bytes" where
  "build_request_extra protocol sub extra = encode (Map
     ([(UInt KEY_PIN_PROTOCOL, UInt (ucast protocol)), (UInt KEY_SUB_COMMAND, UInt (ucast sub))] @ extra))"

text \<open>The integer of a COSE label, read as an \<^verbatim>\<open>i64\<close>: the casts keep the 64 bits, so
  \<open>-1 - n\<close> is the complement.\<close>

fun cose_label :: "cbor_value \<Rightarrow> u64 option" where
  "cose_label (UInt u) = Some u"
| "cose_label (NInt n) = Some (NOT n)"
| "cose_label _ = None"

definition coordinate :: "cbor_value \<Rightarrow> bytes option \<Rightarrow> bytes option" where
  "coordinate v old = (case as_bytes v of Some b \<Rightarrow> if length b = 32 then Some b else old | None \<Rightarrow> old)"

fun cose_entry :: "bytes option \<times> bytes option \<Rightarrow> cbor_value \<times> cbor_value \<Rightarrow> bytes option \<times> bytes option" where
  "cose_entry (x, y) (kk, vv) =
     (case cose_label kk of
        None \<Rightarrow> (x, y)
      | Some kn \<Rightarrow>
          if kn = - 2 then (coordinate vv x, y)
          else if kn = - 3 then (x, coordinate vv y)
          else (x, y))"

fun pin_response_entry :: "pin_response \<Rightarrow> cbor_value \<times> cbor_value \<Rightarrow> pin_response" where
  "pin_response_entry out (k, val) =
     (case as_uint k of
        None \<Rightarrow> out
      | Some key \<Rightarrow>
          if key = 0x01 then
            (case as_map val of
               None \<Rightarrow> out
             | Some m \<Rightarrow>
                 (case foldl cose_entry (None, None) m of
                    (Some x, Some y) \<Rightarrow> out\<lparr>pr_key_agreement := Some (x, y)\<rparr>
                  | _ \<Rightarrow> out))
          else if key = 0x02 then
            (case as_bytes val of Some b \<Rightarrow> out\<lparr>pr_pin_token_enc := Some b\<rparr> | None \<Rightarrow> out)
          else if key = 0x03 then out\<lparr>pr_retries := map_option ucast (as_uint val)\<rparr>
          else out)"

definition parse_pin_response :: "cbor_value \<Rightarrow> (pin_response, ctap_error) result" where
  "parse_pin_response v =
     (case as_map v of
        None \<Rightarrow> Err (InvalidResponseShape ''expected map'')
      | Some m \<Rightarrow> Ok (foldl pin_response_entry pin_response_default m))"

definition pin_dispatch :: "'d ctap_transport \<Rightarrow> bytes \<Rightarrow> 'd \<Rightarrow> (pin_response, ctap_error) result \<times> 'd" where
  "pin_dispatch dev req d =
     bind_dev (transact_on dev CTAPHID_CBOR (CTAP2_CLIENT_PIN # req) d) (\<lambda>resp d.
       (bind_result (split_status resp) (\<lambda>(status, body).
          if status \<noteq> 0 then Err (StatusCode status)
          else if body = [] then Ok pin_response_default
          else bind_result (decode_value body) parse_pin_response), d))"

definition get_pin_retries :: "'d ctap_transport \<Rightarrow> 'd \<Rightarrow> (u32, ctap_error) result \<times> 'd" where
  "get_pin_retries dev d =
     bind_dev (pin_dispatch dev (build_request_extra PIN_PROTOCOL_V1 SUB_GET_PIN_RETRIES []) d) (\<lambda>resp d.
       (ok_or (InvalidResponseShape ''missing retries'') (pr_retries resp), d))"

definition get_key_agreement :: "'d ctap_transport \<Rightarrow> u32 \<Rightarrow> 'd \<Rightarrow> (bytes \<times> bytes, ctap_error) result \<times> 'd" where
  "get_key_agreement dev protocol d =
     bind_dev (pin_dispatch dev (build_request_extra protocol SUB_GET_KEY_AGREEMENT []) d) (\<lambda>resp d.
       (ok_or (InvalidResponseShape ''missing keyAgreement'') (pr_key_agreement resp), d))"

definition validate_pin :: "bytes \<Rightarrow> (unit, ctap_error) result" where
  "validate_pin pin =
     (if \<not> (4 \<le> length pin \<and> length pin \<le> 63) then Err (InvalidArgument ''PIN must be 4..=63 UTF-8 bytes'')
      else Ok ())"

definition derive_protocol :: "'k ctap_crypto \<Rightarrow> 'k \<Rightarrow> selected_pin_protocol \<Rightarrow> bytes \<Rightarrow> bytes
    \<Rightarrow> (pin_protocol, pin_error) result" where
  "derive_protocol c our chosen peer_x peer_y =
     (case chosen of V1 \<Rightarrow> shared_secret_v1 c our peer_x peer_y
                   | V2 \<Rightarrow> shared_secret_v2 c our peer_x peer_y)"

definition key_agreement :: "'k ctap_crypto \<Rightarrow> 'k \<Rightarrow> 'd ctap_transport \<Rightarrow> selected_pin_protocol \<Rightarrow> 'd
    \<Rightarrow> (pin_protocol \<times> cbor_value, ctap_error) result \<times> 'd" where
  "key_agreement c our dev chosen d =
     bind_dev (get_key_agreement dev (protocol_of chosen) d) (\<lambda>(peer_x, peer_y) d.
       let (our_x, our_y) = cr_public_xy c our
       in (case derive_protocol c our chosen peer_x peer_y of
             Err _ \<Rightarrow> Err (InvalidResponseShape ''invalid peer keyAgreement point'')
           | Ok proto \<Rightarrow> Ok (proto, cose_p256_public our_x our_y), d))"

definition negotiate_protocol :: "'d ctap_transport \<Rightarrow> 'd \<Rightarrow> (selected_pin_protocol, ctap_error) result \<times> 'd" where
  "negotiate_protocol dev d =
     bind_dev (get_info dev d) (\<lambda>info d. (Ok (select_pin_protocol (ai_pin_uv_auth_protocols info)), d))"

text \<open>\<^verbatim>\<open>?\<close> in front of a step that may panic.\<close>

fun bind_run :: "('a, 'e) result \<times> 'd \<Rightarrow> ('a \<Rightarrow> 'd \<Rightarrow> (('b, 'e) result \<times> 'd) option)
    \<Rightarrow> (('b, 'e) result \<times> 'd) option" where
  "bind_run (Ok a, d) k = k a d"
| "bind_run (Err e, d) k = Some (Err e, d)"

definition set_pin :: "'k ctap_crypto \<Rightarrow> 'k \<Rightarrow> bytes \<Rightarrow> 'd ctap_transport \<Rightarrow> bytes \<Rightarrow> 'd
    \<Rightarrow> ((unit, ctap_error) result \<times> 'd) option" where
  "set_pin c our iv dev new_pin d =
     bind_run (validate_pin new_pin, d) (\<lambda>_ d.
     bind_run (negotiate_protocol dev d) (\<lambda>chosen d.
     bind_run (key_agreement c our dev chosen d) (\<lambda>(proto, our_pub) d.
       Option.bind (pad_pin_to_64 new_pin) (\<lambda>padded.
       Option.bind (proto_encrypt c iv proto padded) (\<lambda>new_pin_enc.
         let pin_auth = proto_authenticate c proto new_pin_enc;
             req = build_request_extra (protocol_of chosen) SUB_SET_PIN
               [(UInt KEY_KEY_AGREEMENT, our_pub), (UInt KEY_PIN_AUTH_PARAM, Bytes pin_auth),
                (UInt KEY_NEW_PIN_ENC, Bytes new_pin_enc)]
         in Some (bind_dev (pin_dispatch dev req d) (\<lambda>_ d. (Ok (), d))))))))"

definition change_pin :: "'k ctap_crypto \<Rightarrow> 'k \<Rightarrow> bytes \<Rightarrow> bytes \<Rightarrow> 'd ctap_transport \<Rightarrow> bytes \<Rightarrow> bytes \<Rightarrow> 'd
    \<Rightarrow> ((unit, ctap_error) result \<times> 'd) option" where
  "change_pin c our iv1 iv2 dev old_pin new_pin d =
     bind_run (validate_pin new_pin, d) (\<lambda>_ d.
     bind_run (negotiate_protocol dev d) (\<lambda>chosen d.
     bind_run (key_agreement c our dev chosen d) (\<lambda>(proto, our_pub) d.
       Option.bind (pad_pin_to_64 new_pin) (\<lambda>padded.
       Option.bind (proto_encrypt c iv1 proto padded) (\<lambda>new_pin_enc.
       Option.bind (proto_encrypt c iv2 proto (left16_sha256 c old_pin)) (\<lambda>pin_hash_enc.
         let pin_auth = proto_authenticate c proto (new_pin_enc @ pin_hash_enc);
             req = build_request_extra (protocol_of chosen) SUB_CHANGE_PIN
               [(UInt KEY_KEY_AGREEMENT, our_pub), (UInt KEY_PIN_AUTH_PARAM, Bytes pin_auth),
                (UInt KEY_NEW_PIN_ENC, Bytes new_pin_enc), (UInt KEY_PIN_HASH_ENC, Bytes pin_hash_enc)]
         in Some (bind_dev (pin_dispatch dev req d) (\<lambda>_ d. (Ok (), d)))))))))"

definition dispatch_token_request :: "'d ctap_transport \<Rightarrow> bytes \<Rightarrow> 'd \<Rightarrow> (pin_response, ctap_error) result \<times> 'd" where
  "dispatch_token_request dev req d =
     (case pin_dispatch dev req d of
        (Err (StatusCode s), d) \<Rightarrow> (Err (if s = 0x37 then PinChangeRequired else StatusCode s), d)
      | r \<Rightarrow> r)"

definition check_token_len :: "bytes \<Rightarrow> (bytes, ctap_error) result" where
  "check_token_len token =
     (if length token = 16 \<or> length token = 32 then Ok token
      else Err (InvalidResponseShape ''pinUvAuthToken is not 16 or 32 bytes''))"

text \<open>The common tail of the two token commands: decrypt and check the token of a response.\<close>

definition open_token :: "'k ctap_crypto \<Rightarrow> pin_protocol \<Rightarrow> selected_pin_protocol \<Rightarrow> string \<Rightarrow> string \<Rightarrow> pin_response
    \<Rightarrow> (pin_uv_auth_token, ctap_error) result" where
  "open_token c proto chosen missing failed resp =
     bind_result (ok_or (InvalidResponseShape missing) (pr_pin_token_enc resp)) (\<lambda>enc_token.
       case proto_decrypt c proto enc_token of
         Err _ \<Rightarrow> Err (InvalidResponseShape failed)
       | Ok token \<Rightarrow> bind_result (check_token_len token) (\<lambda>token.
           Ok \<lparr>tk_protocol = protocol_of chosen, tk_token = token\<rparr>))"

definition token_legacy :: "'k ctap_crypto \<Rightarrow> 'k \<Rightarrow> bytes \<Rightarrow> 'd ctap_transport \<Rightarrow> bytes \<Rightarrow> selected_pin_protocol \<Rightarrow> 'd
    \<Rightarrow> ((pin_uv_auth_token, ctap_error) result \<times> 'd) option" where
  "token_legacy c our iv dev pin chosen d =
     bind_run (key_agreement c our dev chosen d) (\<lambda>(proto, our_pub) d.
       Option.bind (proto_encrypt c iv proto (left16_sha256 c pin)) (\<lambda>pin_hash_enc.
         let req = build_request_extra (protocol_of chosen) SUB_GET_PIN_TOKEN
               [(UInt KEY_KEY_AGREEMENT, our_pub), (UInt KEY_PIN_HASH_ENC, Bytes pin_hash_enc)]
         in Some (bind_dev (dispatch_token_request dev req d) (\<lambda>resp d.
              (open_token c proto chosen ''missing pinToken'' ''pinToken decrypt failed'' resp, d)))))"

definition pin_uv_auth_token_extra :: "cbor_value \<Rightarrow> bytes \<Rightarrow> u32 \<Rightarrow> bytes option \<Rightarrow> (cbor_value \<times> cbor_value) list" where
  "pin_uv_auth_token_extra our_pub pin_hash_enc permissions rp_id =
     [(UInt KEY_KEY_AGREEMENT, our_pub), (UInt KEY_PIN_HASH_ENC, Bytes pin_hash_enc),
      (UInt KEY_PERMISSIONS, UInt (ucast permissions))]
     @ (case rp_id of Some rp \<Rightarrow> [(UInt KEY_RP_ID, Text rp)] | None \<Rightarrow> [])"

definition token_with_permissions :: "'k ctap_crypto \<Rightarrow> 'k \<Rightarrow> bytes \<Rightarrow> 'd ctap_transport \<Rightarrow> bytes \<Rightarrow> u32 \<Rightarrow> bytes option
    \<Rightarrow> selected_pin_protocol \<Rightarrow> 'd \<Rightarrow> ((pin_uv_auth_token, ctap_error) result \<times> 'd) option" where
  "token_with_permissions c our iv dev pin permissions rp_id chosen d =
     bind_run (key_agreement c our dev chosen d) (\<lambda>(proto, our_pub) d.
       Option.bind (proto_encrypt c iv proto (left16_sha256 c pin)) (\<lambda>pin_hash_enc.
         let req = build_request_extra (protocol_of chosen) SUB_GET_PIN_UV_AUTH_TOKEN_USING_PIN
               (pin_uv_auth_token_extra our_pub pin_hash_enc permissions rp_id)
         in Some (bind_dev (dispatch_token_request dev req d) (\<lambda>resp d.
              (open_token c proto chosen ''missing pinUvAuthToken'' ''pinUvAuthToken decrypt failed'' resp, d)))))"

definition get_pin_token :: "'k ctap_crypto \<Rightarrow> 'k \<Rightarrow> bytes \<Rightarrow> 'd ctap_transport \<Rightarrow> bytes \<Rightarrow> 'd
    \<Rightarrow> ((pin_uv_auth_token, ctap_error) result \<times> 'd) option" where
  "get_pin_token c our iv dev pin d =
     bind_run (negotiate_protocol dev d) (\<lambda>chosen d. token_legacy c our iv dev pin chosen d)"

definition get_pin_uv_auth_token_with_permissions :: "'k ctap_crypto \<Rightarrow> 'k \<Rightarrow> bytes \<Rightarrow> 'd ctap_transport \<Rightarrow> bytes \<Rightarrow> u32
    \<Rightarrow> bytes option \<Rightarrow> 'd \<Rightarrow> ((pin_uv_auth_token, ctap_error) result \<times> 'd) option" where
  "get_pin_uv_auth_token_with_permissions c our iv dev pin permissions rp_id d =
     bind_run (negotiate_protocol dev d) (\<lambda>chosen d. token_with_permissions c our iv dev pin permissions rp_id chosen d)"

definition get_pin_uv_auth_token :: "'k ctap_crypto \<Rightarrow> 'k \<Rightarrow> bytes \<Rightarrow> 'd ctap_transport \<Rightarrow> bytes \<Rightarrow> authenticator_info
    \<Rightarrow> u32 \<Rightarrow> 'd \<Rightarrow> ((pin_uv_auth_token, ctap_error) result \<times> 'd) option" where
  "get_pin_uv_auth_token c our iv dev pin info permissions d =
     (if ai_force_pin_change info = Some True then Some (Err PinChangeRequired, d)
      else let chosen = select_pin_protocol (ai_pin_uv_auth_protocols info) in
        if info_option info ''pinUvAuthToken'' = Some True
        then token_with_permissions c our iv dev pin permissions None chosen d
        else token_legacy c our iv dev pin chosen d)"


subsection \<open>The primitives\<close>

text \<open>What the commands rely on of the primitives: the lengths of hashes and tags, and that CBC
  decryption under the same key and IV undoes an encryption and keeps the length.\<close>

definition pin_primitives :: "'k ctap_crypto \<Rightarrow> bool" where
  "pin_primitives c \<longleftrightarrow>
     (\<forall>x. length (cr_sha256 c x) = 32) \<and> (\<forall>k x. length (cr_hmac c k x) = 32)
     \<and> (\<forall>k iv p. 16 dvd length p \<longrightarrow>
          length (cr_cbc_encrypt c k iv p) = length p \<and> cr_cbc_decrypt c k iv (cr_cbc_encrypt c k iv p) = p)"

lemma length_left16: "pin_primitives c \<Longrightarrow> length (left16_sha256 c x) = 16"
  by (simp add: pin_primitives_def left16_sha256_def)

text \<open>Both protocols decrypt what they encrypt.\<close>

lemma proto_decrypt_encrypt:
  assumes "pin_primitives c" "length iv = 16" "16 dvd length p" "p \<noteq> []"
  shows "\<exists>enc. proto_encrypt c iv proto p = Some enc \<and> proto_decrypt c proto enc = Ok p"
  using assms by (cases proto)
    (auto simp: pin_primitives_def aes256_cbc_encrypt_def aes256_cbc_decrypt_def mod_eq_0_iff_dvd,
     (metis length_0_conv)+)

definition no_panic :: "'a option \<Rightarrow> bool" where "no_panic m \<longleftrightarrow> m \<noteq> None"

lemma no_panic_Some [simp]: "no_panic (Some x)"
  by (simp add: no_panic_def)

lemma proto_encrypt_total: "16 dvd length p \<Longrightarrow> no_panic (proto_encrypt c iv proto p)"
  by (cases proto) (auto simp: no_panic_def aes256_cbc_encrypt_def mod_eq_0_iff_dvd)

lemma padded_pin: "length pin \<le> 63 \<Longrightarrow> pad_pin_to_64 pin = Some (pin @ replicate (64 - length pin) 0)"
  by (simp add: pad_pin_to_64_def)

subsection \<open>The commands\<close>

lemma bind_run_total: "(\<And>a d. m = (Ok a, d) \<Longrightarrow> no_panic (k a d)) \<Longrightarrow> no_panic (bind_run m k)"
  by (cases m; cases "fst m") auto

lemma bind_total: "no_panic m \<Longrightarrow> (\<And>a. m = Some a \<Longrightarrow> no_panic (k a)) \<Longrightarrow> no_panic (Option.bind m k)"
  by (cases m) (auto simp: no_panic_def)

lemma bind_run_eq [simp]:
  "bind_run m k = Some (Ok b, d') \<longleftrightarrow> (\<exists>a d. m = (Ok a, d) \<and> k a d = Some (Ok b, d'))"
  by (cases m; cases "fst m") auto

lemma select_pin_protocol_spec:
  "protocol_of (select_pin_protocol ps) =
     (case filter (\<lambda>p. p = 1 \<or> p = 2) ps of [] \<Rightarrow> 1 | p # _ \<Rightarrow> ucast p)"
  by (induction ps rule: select_pin_protocol.induct) (auto simp: client_pin_defs)

lemma cose_int_label: "cose_label (cose_int v) = Some (word_of_int v)"
proof (cases "0 \<le> v")
  case False
  have "NOT (word_of_int (- 1 - v) :: u64) = word_of_int v"
    by (simp add: not_eq_complement)
  with False show ?thesis by (simp add: cose_int_def)
qed (simp add: cose_int_def)

lemma cose_public_read:
  "length x = 32 \<Longrightarrow> length y = 32 \<Longrightarrow>
    \<exists>m. cose_p256_public x y = Map m \<and> foldl cose_entry (None, None) m = (Some x, Some y)"
  by (simp add: cose_p256_public_def cose_int_label coordinate_def)

lemma padded_dvd: "length pin \<le> 63 \<Longrightarrow> 16 dvd length (pin @ replicate (64 - length pin) 0)"
proof -
  assume "length pin \<le> 63"
  then have "length (pin @ replicate (64 - length pin) 0) = 64" by simp
  then show ?thesis by simp
qed

lemmas run_total = bind_run_total bind_total proto_encrypt_total padded_dvd

lemma set_pin_total: "no_panic (set_pin c our iv dev pin d)"
proof (cases "4 \<le> length pin \<and> length pin \<le> 63")
  case True
  then show ?thesis unfolding set_pin_def by (auto simp: padded_pin Let_def intro!: run_total)
qed (simp add: set_pin_def validate_pin_def)

lemma change_pin_total:
  assumes "pin_primitives c"
  shows "no_panic (change_pin c our iv1 iv2 dev old pin d)"
proof (cases "4 \<le> length pin \<and> length pin \<le> 63")
  case True
  then show ?thesis unfolding change_pin_def
    by (auto simp: padded_pin Let_def length_left16 [OF assms] intro!: run_total)
qed (simp add: change_pin_def validate_pin_def)

lemma token_legacy_total: "pin_primitives c \<Longrightarrow> no_panic (token_legacy c our iv dev pin chosen d)"
  unfolding token_legacy_def by (auto simp: length_left16 Let_def intro!: run_total)

lemma token_with_permissions_total:
  "pin_primitives c \<Longrightarrow> no_panic (token_with_permissions c our iv dev pin permissions rp_id chosen d)"
  unfolding token_with_permissions_def by (auto simp: length_left16 Let_def intro!: run_total)

lemma get_token_total: "pin_primitives c \<Longrightarrow> no_panic (get_pin_uv_auth_token c our iv dev pin info permissions d)"
  by (simp add: get_pin_uv_auth_token_def Let_def token_legacy_total token_with_permissions_total)

lemma open_token_ok:
  assumes "open_token c proto chosen missing failed resp = Ok tok"
  shows "tk_protocol tok = protocol_of chosen \<and> (length (tk_token tok) = 16 \<or> length (tk_token tok) = 32)"
proof -
  obtain enc where "(case proto_decrypt c proto enc of Err _ \<Rightarrow> Err (InvalidResponseShape failed)
      | Ok token \<Rightarrow> bind_result (check_token_len token) (\<lambda>token.
          Ok \<lparr>tk_protocol = protocol_of chosen, tk_token = token\<rparr>)) = Ok tok"
    using assms unfolding open_token_def bind_result_eq_Ok by blast
  then show ?thesis by (cases "proto_decrypt c proto enc") (auto simp: check_token_len_def split: if_splits)
qed

lemma token_request_no_policy: "dispatch_token_request dev req d \<noteq> (Err (StatusCode 0x37), d')"
  by (auto simp: dispatch_token_request_def split: prod.splits result.splits ctap_error.splits)

lemma token_legacy_ok:
  assumes "token_legacy c our iv dev pin chosen d = Some (Ok tok, d')"
  shows "tk_protocol tok = protocol_of chosen \<and> (length (tk_token tok) = 16 \<or> length (tk_token tok) = 32)"
  using assms by (auto simp: token_legacy_def Let_def bind_eq_Some_conv dest!: open_token_ok)

lemma token_with_permissions_ok:
  assumes "token_with_permissions c our iv dev pin permissions rp_id chosen d = Some (Ok tok, d')"
  shows "tk_protocol tok = protocol_of chosen \<and> (length (tk_token tok) = 16 \<or> length (tk_token tok) = 32)"
  using assms by (auto simp: token_with_permissions_def Let_def bind_eq_Some_conv dest!: open_token_ok)

lemma get_token_ok:
  assumes "get_pin_uv_auth_token c our iv dev pin info permissions d = Some (Ok tok, d')"
  shows "ai_force_pin_change info \<noteq> Some True
    \<and> tk_protocol tok = protocol_of (select_pin_protocol (ai_pin_uv_auth_protocols info))
    \<and> (length (tk_token tok) = 16 \<or> length (tk_token tok) = 32)"
  using assms
  by (auto simp: get_pin_uv_auth_token_def Let_def split: if_splits dest: token_legacy_ok token_with_permissions_ok)


text \<open>What the key does with a request, in terms of the same derivation: both sides of an ECDH
  exchange hold the same point.\<close>

definition ecdh_agrees :: "'k ctap_crypto \<Rightarrow> 'k \<Rightarrow> 'k \<Rightarrow> bool" where
  "ecdh_agrees c our peer \<longleftrightarrow>
     (case (cr_public_xy c our, cr_public_xy c peer) of
        ((ox, oy), (px, py)) \<Rightarrow> length px = 32 \<and> length py = 32
          \<and> cr_ecdh c our px py \<noteq> None \<and> cr_ecdh c peer ox oy = cr_ecdh c our px py)"

lemma derive_agrees:
  assumes "ecdh_agrees c our peer"
  shows "\<exists>proto. derive_protocol c our chosen (fst (cr_public_xy c peer)) (snd (cr_public_xy c peer)) = Ok proto
    \<and> derive_protocol c peer chosen (fst (cr_public_xy c our)) (snd (cr_public_xy c our)) = Ok proto"
  using assms by (cases chosen)
    (auto simp: ecdh_agrees_def derive_protocol_def shared_secret_v1_def shared_secret_v2_def split: prod.splits)

lemma fits_cose: "length x = 32 \<Longrightarrow> length y = 32 \<Longrightarrow> fits 1 (cose_p256_public x y)"
  by (simp add: cose_p256_public_def cose_int_def)

lemma key_agreement_answered:
  assumes ex: "transact_on dev CTAPHID_CBOR
      (CTAP2_CLIENT_PIN # build_request_extra (protocol_of chosen) SUB_GET_KEY_AGREEMENT []) d
      = (Ok (0 # encode (Map [(UInt 1, cose_p256_public x y)])), d')"
    and len: "length x = 32" "length y = 32"
    and der: "derive_protocol c our chosen x y = Ok proto"
  shows "key_agreement c our dev chosen d = (Ok (proto, cose_p256_public (fst (cr_public_xy c our)) (snd (cr_public_xy c our))), d')"
proof -
  let ?v = "Map [(UInt 1, cose_p256_public x y)]"
  have "fits 0 ?v" using fits_cose [OF len] by simp
  from decode_encode [OF this, of "[]"] have dec: "decode (encode ?v) = Ok (?v, [])" by simp
  obtain m where m: "cose_p256_public x y = Map m" "foldl cose_entry (None, None) m = (Some x, Some y)"
    using cose_public_read [OF len] by blast
  have ne: "encode ?v \<noteq> []" using encode_pos [of ?v] by auto
  have "parse_pin_response ?v = Ok \<lparr>pr_retries = None, pr_key_agreement = Some (x, y), pr_pin_token_enc = None\<rparr>"
    by (simp add: parse_pin_response_def pin_response_default_def m)
  with ne dec have "get_key_agreement dev (protocol_of chosen) d = (Ok (x, y), d')"
    unfolding get_key_agreement_def pin_dispatch_def ex
    by (simp add: split_status_def decode_value_def del: encode.simps)
  then show ?thesis unfolding key_agreement_def by (simp add: der split: prod.splits)
qed

lemma set_pin_answered:
  assumes "pin_primitives c" "length iv = 16" "4 \<le> length pin" "length pin \<le> 63"
    and neg: "negotiate_protocol dev d = (Ok chosen, d1)"
    and ka: "key_agreement c our dev chosen d1 = (Ok (proto, our_pub), d2)"
  shows "\<exists>enc. proto_decrypt c proto enc = Ok (pin @ replicate (64 - length pin) 0) \<and>
    set_pin c our iv dev pin d = Some (bind_dev (pin_dispatch dev
      (build_request_extra (protocol_of chosen) SUB_SET_PIN
        [(UInt KEY_KEY_AGREEMENT, our_pub), (UInt KEY_PIN_AUTH_PARAM, Bytes (proto_authenticate c proto enc)),
         (UInt KEY_NEW_PIN_ENC, Bytes enc)]) d2) (\<lambda>_ d. (Ok (), d)))"
proof -
  have ne: "pin @ replicate (64 - length pin) 0 \<noteq> []" using assms(3) by auto
  obtain enc where "proto_encrypt c iv proto (pin @ replicate (64 - length pin) 0) = Some enc"
    "proto_decrypt c proto enc = Ok (pin @ replicate (64 - length pin) 0)"
    using proto_decrypt_encrypt [OF assms(1,2) padded_dvd [OF assms(4)] ne] by blast
  then show ?thesis
    by (intro exI [of _ enc]) (simp add: set_pin_def validate_pin_def assms padded_pin Let_def)
qed


subsection \<open>Properties\<close>

text \<open>A small instance of the primitives and a key that answers with it, for the witnesses.\<close>

definition demo_crypto :: "byte ctap_crypto" where
  "demo_crypto =
     \<lparr>cr_sha256 = (\<lambda>_. replicate 32 7), cr_hmac = (\<lambda>_ _. replicate 32 9),
      cr_cbc_encrypt = (\<lambda>_ _ p. p), cr_cbc_decrypt = (\<lambda>_ _ p. p),
      cr_public_xy = (\<lambda>k. (replicate 32 k, replicate 32 k)),
      cr_ecdh = (\<lambda>k x y. Some (map (\<lambda>b. k + b) x)),
      cr_gcm_encrypt = (\<lambda>k n p a. p @ a),
      cr_gcm_decrypt = (\<lambda>k n t a. if length a \<le> length t \<and> drop (length t - length a) t = a
                                  then Some (take (length t - length a) t) else None),
      cr_inflate = (\<lambda>z _. Some (drop 5 z)), cr_inflate_zlib = (\<lambda>_ _. None)\<rparr>"

definition demo_pin_key :: "bytes list ctap_transport" where
  "demo_pin_key = default_transport (\<lambda>cmd payload log.
     (Ok (if payload = [CTAP2_GET_INFO] then [0, 0xa1, 6, 0x81, 2]
          else if payload = CTAP2_CLIENT_PIN # build_request_extra 2 SUB_GET_KEY_AGREEMENT []
          then 0 # encode (Map [(UInt 1, cose_p256_public (replicate 32 3) (replicate 32 3))])
          else [0]), log @ [payload]))"

lemma demo_primitives: "pin_primitives demo_crypto"
  by (simp add: pin_primitives_def demo_crypto_def)

text \<open>C8: the PIN commands are safe over every transport.  They never fail an assertion; a PIN outside 4
  to 63 bytes is refused before anything is sent; a token is 16 or 32 bytes long and bound to the first protocol of the
  key's list that the host implements; a forced PIN change is reported as such, without a request
  when the key announced it and never as a rejected new PIN.\<close>

theorem pin_commands_safe:
  assumes "pin_primitives c"
  shows "no_panic (set_pin c our iv1 dev pin d)
    \<and> no_panic (change_pin c our iv1 iv2 dev old pin d)
    \<and> no_panic (get_pin_uv_auth_token c our iv1 dev pin info permissions d)
    \<and> (\<not> (4 \<le> length pin \<and> length pin \<le> 63) \<longrightarrow>
        (\<exists>e. set_pin c our iv1 dev pin d = Some (Err (InvalidArgument e), d)
           \<and> change_pin c our iv1 iv2 dev old pin d = Some (Err (InvalidArgument e), d)))
    \<and> (ai_force_pin_change info = Some True \<longrightarrow>
        get_pin_uv_auth_token c our iv1 dev pin info permissions d = Some (Err PinChangeRequired, d))
    \<and> (get_pin_uv_auth_token c our iv1 dev pin info permissions d = Some (Ok tok, d') \<longrightarrow>
        length (tk_token tok) \<in> {16, 32}
        \<and> tk_protocol tok = (case filter (\<lambda>p. p = 1 \<or> p = 2) (ai_pin_uv_auth_protocols info)
                              of [] \<Rightarrow> 1 | p # _ \<Rightarrow> ucast p))
    \<and> dispatch_token_request dev req d \<noteq> (Err (StatusCode 0x37), d')"
proof (intro conjI impI)
  assume "\<not> (4 \<le> length pin \<and> length pin \<le> 63)"
  then show "\<exists>e. set_pin c our iv1 dev pin d = Some (Err (InvalidArgument e), d)
           \<and> change_pin c our iv1 iv2 dev old pin d = Some (Err (InvalidArgument e), d)"
    by (simp add: set_pin_def change_pin_def validate_pin_def)
next
  assume "get_pin_uv_auth_token c our iv1 dev pin info permissions d = Some (Ok tok, d')"
  note ok = get_token_ok [OF this]
  show "length (tk_token tok) \<in> {16, 32}" using ok by simp
  show "tk_protocol tok = (case filter (\<lambda>p. p = 1 \<or> p = 2) (ai_pin_uv_auth_protocols info)
                            of [] \<Rightarrow> 1 | p # _ \<Rightarrow> ucast p)"
    using ok select_pin_protocol_spec by simp
next
  assume "ai_force_pin_change info = Some True"
  then show "get_pin_uv_auth_token c our iv1 dev pin info permissions d = Some (Err PinChangeRequired, d)"
    by (simp add: get_pin_uv_auth_token_def)
qed (simp_all add: set_pin_total change_pin_total get_token_total assms token_request_no_policy)

theorem pin_commands_safe_witness:
  "\<exists>e. set_pin demo_crypto 5 (replicate 16 0) demo_pin_key [49, 50, 51] [] = Some (Err (InvalidArgument e), [])"
proof -
  note safe = pin_commands_safe [OF demo_primitives, of 5 "replicate 16 0" demo_pin_key "[49, 50, 51]" "[]"
      "replicate 16 0" "[]" info_default 0 undefined "[]" "[]"]
  have "\<not> (4 \<le> length [49, 50, 51 :: byte] \<and> length [49, 50, 51 :: byte] \<le> 63)" by simp
  with safe show ?thesis by blast
qed

text \<open>C9: the key receives the PIN the user chose.  After a key agreement the \<^verbatim>\<open>setPIN\<close>
  request names the negotiated protocol, and the key, deriving the secret with its own private key from
  the public key of the request, decrypts the request to the PIN padded with zeros to 64
  bytes and finds the authentication it computes itself.\<close>

theorem set_pin_understood:
  assumes "pin_primitives c" "length iv = 16" "4 \<le> length pin" "length pin \<le> 63"
    and "ecdh_agrees c our peer"
    and "negotiate_protocol dev d = (Ok chosen, d1)"
    and "transact_on dev CTAPHID_CBOR
      (CTAP2_CLIENT_PIN # build_request_extra (protocol_of chosen) SUB_GET_KEY_AGREEMENT []) d1
      = (Ok (0 # encode (Map [(UInt 1, (\<lambda>(x, y). cose_p256_public x y) (cr_public_xy c peer))])), d2)"
  shows "\<exists>enc proto.
    derive_protocol c peer chosen (fst (cr_public_xy c our)) (snd (cr_public_xy c our)) = Ok proto
    \<and> proto_decrypt c proto enc = Ok (pin @ replicate (64 - length pin) 0)
    \<and> set_pin c our iv dev pin d = Some (bind_dev (pin_dispatch dev
        (build_request_extra (protocol_of chosen) SUB_SET_PIN
          [(UInt KEY_KEY_AGREEMENT, (\<lambda>(x, y). cose_p256_public x y) (cr_public_xy c our)),
           (UInt KEY_PIN_AUTH_PARAM, Bytes (proto_authenticate c proto enc)),
           (UInt KEY_NEW_PIN_ENC, Bytes enc)]) d2) (\<lambda>_ d. (Ok (), d)))"
proof -
  obtain px py ox oy where pk: "cr_public_xy c peer = (px, py)" "cr_public_xy c our = (ox, oy)"
    by (metis surj_pair)
  have len: "length px = 32" "length py = 32" using assms(5) pk by (auto simp: ecdh_agrees_def)
  obtain proto where der: "derive_protocol c our chosen px py = Ok proto" "derive_protocol c peer chosen ox oy = Ok proto"
    using derive_agrees [OF assms(5), of chosen] by (auto simp: pk)
  have "key_agreement c our dev chosen d1 = (Ok (proto, cose_p256_public ox oy), d2)"
    using key_agreement_answered [OF _ len der(1), of dev d1 d2] assms(7) by (simp add: pk)
  from set_pin_answered [OF assms(1-4,6) this] der(2) show ?thesis by (auto simp: pk)
qed


lemma demo_agrees: "ecdh_agrees demo_crypto a b"
  by (simp add: ecdh_agrees_def demo_crypto_def add.commute)

lemma demo_negotiate: "negotiate_protocol demo_pin_key log = (Ok V2, log @ [[CTAP2_GET_INFO]])"
proof -
  have "encode (Map [(UInt 6, Array [UInt 2])]) = [0xa1, 6, 0x81, 2]" by (simp add: encode_header_def)
  moreover have "decode (encode (Map [(UInt 6, Array [UInt 2])]) @ []) = Ok (Map [(UInt 6, Array [UInt 2])], [])"
    by (rule decode_encode) simp
  ultimately have "decode [0xa1, 6, 0x81, 2] = Ok (Map [(UInt 6, Array [UInt 2])], [])" by simp
  then show ?thesis
    by (simp add: negotiate_protocol_def get_info_def demo_pin_key_def default_transport_def split_status_def
        decode_value_def parse_authenticator_info_def info_default_def info_field_def collect_uints_def
        List.map_filter_simps client_pin_defs)
qed

theorem set_pin_understood_witness:
  "\<exists>enc proto. derive_protocol demo_crypto 3 V2 (replicate 32 5) (replicate 32 5) = Ok proto
    \<and> proto_decrypt demo_crypto proto enc = Ok ([49, 50, 51, 52] @ replicate 60 0)"
proof -
  let ?pin = "[49, 50, 51, 52] :: bytes" and ?iv = "replicate 16 1 :: bytes"
  let ?req = "CTAP2_CLIENT_PIN # build_request_extra (protocol_of V2) SUB_GET_KEY_AGREEMENT []"
  have xy: "cr_public_xy demo_crypto k = (replicate 32 k, replicate 32 k)" for k
    by (simp add: demo_crypto_def)
  have "?req \<noteq> [CTAP2_GET_INFO]" 
    by (simp add: CTAP2_CLIENT_PIN_def CTAP2_GET_INFO_def)
  then have ex: "transact_on demo_pin_key CTAPHID_CBOR ?req log
    = (Ok (0 # encode (Map [(UInt 1, (\<lambda>(x, y). cose_p256_public x y) (cr_public_xy demo_crypto 3))])), log @ [?req])" for log
    unfolding demo_pin_key_def default_transport_def xy by (simp only: ctap_transport.simps if_False prod.case) (simp add: PIN_PROTOCOL_V2_def)
  from set_pin_understood [OF demo_primitives _ _ _ demo_agrees demo_negotiate ex, of ?iv ?pin 5 "[]"]
  show ?thesis by (auto simp: xy eval_nat_numeral)
qed

end
