(* ===== verification/Large_Blobs.thy ===== *)
theory Large_Blobs
  imports Client_Pin
begin

text \<open>
  \<^verbatim>\<open>crates/keyroost-ctap/src/large_blobs.rs\<close>: the serialized large-blob array of a FIDO2
  key, its parser, its edits and the chunked transfer.  The parts that look into an entry under
  the name key or a credential's key are in \<open>Device_Label\<close>.
\<close>

definition CTAP2_LARGE_BLOBS :: byte where "CTAP2_LARGE_BLOBS = 0x0C"
definition LB_GET :: u64 where "LB_GET = 0x01"
definition LB_SET :: u64 where "LB_SET = 0x02"
definition LB_OFFSET :: u64 where "LB_OFFSET = 0x03"
definition LB_LENGTH :: u64 where "LB_LENGTH = 0x04"
definition LB_PIN_UV_AUTH_PARAM :: u64 where "LB_PIN_UV_AUTH_PARAM = 0x05"
definition LB_PIN_UV_AUTH_PROTOCOL :: u64 where "LB_PIN_UV_AUTH_PROTOCOL = 0x06"
definition RESP_CONFIG :: u64 where "RESP_CONFIG = 0x01"
definition ENTRY_CIPHERTEXT :: u64 where "ENTRY_CIPHERTEXT = 0x01"
definition ENTRY_NONCE :: u64 where "ENTRY_NONCE = 0x02"
definition ENTRY_ORIG_SIZE :: u64 where "ENTRY_ORIG_SIZE = 0x03"
definition CHECKSUM_LEN :: nat where "CHECKSUM_LEN = 16"
definition DEFAULT_MAX_MSG_SIZE :: u64 where "DEFAULT_MAX_MSG_SIZE = 1024"
definition MSG_SIZE_OVERHEAD :: nat where "MSG_SIZE_OVERHEAD = 64"
definition SPEC_MIN_SERIALIZED_ARRAY :: u64 where "SPEC_MIN_SERIALIZED_ARRAY = 1024"
definition KR_NOTE_MAGIC :: bytes where "KR_NOTE_MAGIC = [0x4b, 0x52, 0x31, 0x00]"

lemmas lb_defs = CTAP2_LARGE_BLOBS_def LB_GET_def LB_SET_def LB_OFFSET_def LB_LENGTH_def
  LB_PIN_UV_AUTH_PARAM_def LB_PIN_UV_AUTH_PROTOCOL_def RESP_CONFIG_def ENTRY_CIPHERTEXT_def
  ENTRY_NONCE_def ENTRY_ORIG_SIZE_def

record blob_capacity =
  bc_max_bytes :: nat
  bc_used_bytes :: nat
  bc_free_bytes :: nat
  bc_entry_count :: nat

definition empty_array_serialized :: "'k ctap_crypto \<Rightarrow> bytes" where
  "empty_array_serialized c = encode (Array []) @ left16_sha256 c (encode (Array []))"

subsection \<open>Entries\<close>

record large_blob_entry =
  lb_ciphertext :: bytes
  lb_nonce :: bytes
  lb_orig_size :: u64
  lb_original :: "bytes option"

definition entry_from_text :: "bytes \<Rightarrow> large_blob_entry" where
  "entry_from_text text = \<lparr>lb_ciphertext = KR_NOTE_MAGIC @ text, lb_nonce = replicate 12 0,
     lb_orig_size = word_of_nat (length text), lb_original = None\<rparr>"

definition entry_built :: "bytes \<Rightarrow> bytes \<Rightarrow> u64 \<Rightarrow> large_blob_entry" where
  "entry_built ciphertext nonce orig_size =
     \<lparr>lb_ciphertext = ciphertext, lb_nonce = nonce, lb_orig_size = orig_size, lb_original = None\<rparr>"

definition entry_as_text :: "large_blob_entry \<Rightarrow> bytes option" where
  "entry_as_text e =
     (if take 4 (lb_ciphertext e) = KR_NOTE_MAGIC then from_utf8 (drop 4 (lb_ciphertext e)) else None)"

definition is_kr_note :: "large_blob_entry \<Rightarrow> bool" where
  "is_kr_note e \<longleftrightarrow> take 4 (lb_ciphertext e) = KR_NOTE_MAGIC"

definition encode_blob_entry :: "large_blob_entry \<Rightarrow> bytes" where
  "encode_blob_entry e = encode (Map
     [(UInt ENTRY_CIPHERTEXT, Bytes (lb_ciphertext e)), (UInt ENTRY_NONCE, Bytes (lb_nonce e)),
      (UInt ENTRY_ORIG_SIZE, UInt (lb_orig_size e))])"

text \<open>The three slots of the loop in \<^verbatim>\<open>conforming_entry\<close>; \<open>None\<close> is its early return.\<close>

type_synonym entry_slots = "bytes option \<times> bytes option \<times> u64 option"

fun fill_slot :: "u64 \<Rightarrow> cbor_value \<Rightarrow> entry_slots \<Rightarrow> entry_slots option" where
  "fill_slot key value (ct, n, sz) =
     (case value of
        Bytes b \<Rightarrow>
          if key = ENTRY_CIPHERTEXT then (if ct = None then Some (Some b, n, sz) else None)
          else if key = ENTRY_NONCE \<and> length b = 12 then (if n = None then Some (ct, Some b, sz) else None)
          else None
      | UInt v \<Rightarrow>
          if key = ENTRY_ORIG_SIZE then (if sz = None then Some (ct, n, Some v) else None) else None
      | _ \<Rightarrow> None)"

fun entry_slots_of :: "(bytes \<times> bytes) list \<Rightarrow> entry_slots \<Rightarrow> entry_slots option" where
  "entry_slots_of [] slots = Some slots"
| "entry_slots_of ((k, v) # pairs) slots =
     (case (case decode k of
              Ok (UInt n, []) \<Rightarrow> if ENTRY_CIPHERTEXT \<le> n \<and> n \<le> ENTRY_ORIG_SIZE then Some n else None
            | _ \<Rightarrow> None) of
        None \<Rightarrow> entry_slots_of pairs slots
      | Some key \<Rightarrow>
          (case decode v of
             Ok (value, []) \<Rightarrow> Option.bind (fill_slot key value slots) (entry_slots_of pairs)
           | _ \<Rightarrow> None))"

definition conforming_entry :: "bytes \<Rightarrow> large_blob_entry option" where
  "conforming_entry raw =
     (case split_map raw of
        Err _ \<Rightarrow> None
      | Ok (pairs, rest) \<Rightarrow>
          if rest \<noteq> [] then None
          else (case entry_slots_of pairs (None, None, None) of
             Some (Some ct, Some n, Some sz) \<Rightarrow>
               Some \<lparr>lb_ciphertext = ct, lb_nonce = n, lb_orig_size = sz, lb_original = Some raw\<rparr>
           | _ \<Rightarrow> None))"

subsection \<open>The array\<close>

datatype blob_item = EntryItem large_blob_entry | SkippedItem bytes

record large_blob_array =
  la_items :: "blob_item list"
  la_raw :: bytes
  la_trailing :: nat

fun read_item :: "bytes \<Rightarrow> blob_item" where
  "read_item raw = (case conforming_entry raw of Some e \<Rightarrow> EntryItem e | None \<Rightarrow> SkippedItem raw)"

definition parse_items :: "bytes \<Rightarrow> (blob_item list \<times> nat, ctap_error) result" where
  "parse_items array_bytes =
     (if \<not> (case array_bytes of b # _ \<Rightarrow> drop_bit 5 b = 4 | [] \<Rightarrow> False)
      then Err (InvalidResponseShape ''largeBlobs: not an array'')
      else case split_array array_bytes of
        Err e \<Rightarrow> Err (CborFailed e)
      | Ok (elements, rest) \<Rightarrow> Ok (map read_item elements, length rest))"

definition blob_parse :: "bytes \<Rightarrow> (large_blob_array, ctap_error) result" where
  "blob_parse array_bytes =
     bind_result (parse_items array_bytes) (\<lambda>(items, trailing).
       Ok \<lparr>la_items = items, la_raw = array_bytes, la_trailing = trailing\<rparr>)"

fun item_entry :: "blob_item \<Rightarrow> large_blob_entry option" where
  "item_entry (EntryItem e) = Some e"
| "item_entry (SkippedItem _) = None"

definition entries :: "large_blob_array \<Rightarrow> large_blob_entry list" where
  "entries a = List.map_filter item_entry (la_items a)"

definition nth_opt :: "'a list \<Rightarrow> nat \<Rightarrow> 'a option" where
  "nth_opt xs i = (if i < length xs then Some (xs ! i) else None)"

definition blob_entry :: "large_blob_array \<Rightarrow> nat \<Rightarrow> large_blob_entry option" where
  "blob_entry a idx = nth_opt (entries a) idx"

definition blob_len :: "large_blob_array \<Rightarrow> nat" where
  "blob_len a = length (entries a)"

definition skipped_count :: "large_blob_array \<Rightarrow> nat" where
  "skipped_count a = length (filter (\<lambda>i. item_entry i = None) (la_items a))"

definition item_index :: "large_blob_array \<Rightarrow> nat \<Rightarrow> nat option" where
  "item_index a idx =
     map_option fst (nth_opt (filter (\<lambda>(_, i). item_entry i \<noteq> None) (enumerate 0 (la_items a))) idx)"

definition changed :: "large_blob_array \<Rightarrow> blob_item list \<Rightarrow> large_blob_array" where
  "changed a items = \<lparr>la_items = items, la_raw = [], la_trailing = la_trailing a\<rparr>"

fun item_bytes :: "blob_item \<Rightarrow> bytes" where
  "item_bytes (SkippedItem raw) = raw"
| "item_bytes (EntryItem e) = (case lb_original e of Some raw \<Rightarrow> raw | None \<Rightarrow> encode_blob_entry e)"

definition array_bytes :: "large_blob_array \<Rightarrow> bytes" where
  "array_bytes a = array_header (length (la_items a)) @ concat (map item_bytes (la_items a))"

definition serialize_with_checksum :: "'k ctap_crypto \<Rightarrow> large_blob_array \<Rightarrow> (bytes, ctap_error) result" where
  "serialize_with_checksum c a =
     (if 0 < la_trailing a
      then Err (InvalidResponseShape ''largeBlobs: the stored array has extra bytes after its end; refusing to rewrite it, which would drop them'')
      else Ok (array_bytes a @ left16_sha256 c (array_bytes a)))"

definition with_text_note :: "large_blob_array \<Rightarrow> bytes \<Rightarrow> large_blob_array" where
  "with_text_note a text = changed a (la_items a @ [EntryItem (entry_from_text text)])"

definition with_replaced_note :: "large_blob_array \<Rightarrow> nat \<Rightarrow> bytes \<Rightarrow> large_blob_array option" where
  "with_replaced_note a idx text =
     Option.bind (blob_entry a idx) (\<lambda>e.
       if \<not> is_kr_note e then None
       else Option.bind (item_index a idx) (\<lambda>pos.
         Some (changed a ((la_items a)[pos := EntryItem (entry_from_text text)]))))"

definition without_entry :: "large_blob_array \<Rightarrow> nat \<Rightarrow> large_blob_array option" where
  "without_entry a idx =
     Option.bind (item_index a idx) (\<lambda>pos.
       Some (changed a (take pos (la_items a) @ drop (Suc pos) (la_items a))))"

definition blob_max :: "authenticator_info \<Rightarrow> nat" where
  "blob_max info = unat (case ai_max_serialized_large_blob_array info of
     Some n \<Rightarrow> n | None \<Rightarrow> SPEC_MIN_SERIALIZED_ARRAY)"

definition blob_capacity :: "large_blob_array \<Rightarrow> authenticator_info \<Rightarrow> blob_capacity" where
  "blob_capacity a info =
     (let used = length (array_bytes a) + la_trailing a + CHECKSUM_LEN
      in \<lparr>bc_max_bytes = blob_max info, bc_used_bytes = used, bc_free_bytes = blob_max info - used,
          bc_entry_count = blob_len a\<rparr>)"

subsection \<open>The transfer\<close>

definition max_fragment_length :: "authenticator_info \<Rightarrow> nat" where
  "max_fragment_length info =
     max (unat (case ai_max_msg_size info of Some n \<Rightarrow> n | None \<Rightarrow> DEFAULT_MAX_MSG_SIZE) - MSG_SIZE_OVERHEAD) 1"

definition blob_dispatch :: "'d ctap_transport \<Rightarrow> cbor_value \<Rightarrow> 'd \<Rightarrow> (cbor_value, ctap_error) result \<times> 'd" where
  "blob_dispatch dev params d =
     bind_dev (transact_on dev CTAPHID_CBOR (CTAP2_LARGE_BLOBS # encode params) d) (\<lambda>resp d.
       (bind_result (split_status resp) (\<lambda>(status, body).
          if status \<noteq> 0 then Err (StatusCode status)
          else if body = [] then Ok Null
          else decode_value body), d))"

fun find_config :: "(cbor_value \<times> cbor_value) list \<Rightarrow> (bytes, ctap_error) result" where
  "find_config [] = Err (InvalidResponseShape ''largeBlobs get: missing config'')"
| "find_config ((k, v) # es) =
     (if k = UInt RESP_CONFIG then
        (case v of Bytes b \<Rightarrow> Ok b
         | _ \<Rightarrow> Err (InvalidResponseShape ''largeBlobs get: config not a byte string''))
      else find_config es)"

definition read_fragment :: "'d ctap_transport \<Rightarrow> u64 \<Rightarrow> u64 \<Rightarrow> 'd \<Rightarrow> (bytes, ctap_error) result \<times> 'd" where
  "read_fragment dev offset count d =
     bind_dev (blob_dispatch dev (Map [(UInt LB_GET, UInt count), (UInt LB_OFFSET, UInt offset)]) d) (\<lambda>resp d.
       (case resp of Map es \<Rightarrow> find_config es
        | _ \<Rightarrow> Err (InvalidResponseShape ''largeBlobs get: not a map''), d))"

lemma max_fragment_pos [simp]: "0 < max_fragment_length info" "max_fragment_length info \<noteq> 0"
  by (simp_all add: max_fragment_length_def)

lemma fragment_advances: "offset < n \<Longrightarrow> n - min (offset + max_fragment_length info) n < n - offset"
  using max_fragment_pos(1) [of info] by linarith

function read_loop :: "'d ctap_transport \<Rightarrow> authenticator_info \<Rightarrow> nat \<Rightarrow> bytes \<Rightarrow> 'd
    \<Rightarrow> (bytes, ctap_error) result \<times> 'd" where
  "read_loop dev info offset data d =
     (let frag = max_fragment_length info in
      case read_fragment dev (word_of_nat offset) (word_of_nat frag) d of
        (Err e, d) \<Rightarrow> (Err e, d)
      | (Ok chunk, d) \<Rightarrow>
          (let got = length chunk; data = data @ chunk in
           if got < frag then (Ok data, d)
           else if 64 * 1024 < length data
           then (Err (InvalidResponseShape ''largeBlobs: array too large''), d)
           else read_loop dev info (offset + got) data d))"
  by pat_completeness auto
termination
  by (relation "measure (\<lambda>(_, _, _, data, _). 64 * 1024 + 1 - length data)")
     (auto simp: not_less intro!: diff_less_mono2 less_le_trans [OF max_fragment_pos(1)])

declare read_loop.simps [simp del]

definition blob_read :: "'k ctap_crypto \<Rightarrow> 'd ctap_transport \<Rightarrow> authenticator_info \<Rightarrow> 'd
    \<Rightarrow> (large_blob_array, ctap_error) result \<times> 'd" where
  "blob_read c dev info d =
     bind_dev (read_loop dev info 0 [] d) (\<lambda>data d.
       (if length data < CHECKSUM_LEN
        then Err (InvalidResponseShape ''largeBlobs: array shorter than checksum'')
        else let bytes = take (length data - CHECKSUM_LEN) data; trailer = drop (length data - CHECKSUM_LEN) data in
          if trailer \<noteq> left16_sha256 c bytes
          then Err (InvalidResponseShape ''largeBlobs: checksum mismatch'')
          else blob_parse bytes, d))"

definition write_auth_param :: "'k ctap_crypto \<Rightarrow> pin_uv_auth_token \<Rightarrow> u32 \<Rightarrow> bytes \<Rightarrow> bytes" where
  "write_auth_param c token offset fragment =
     token_authenticate c token
       (replicate 32 0xff @ [CTAP2_LARGE_BLOBS, 0x00] @ rev (u32_to_be offset) @ cr_sha256 c fragment)"

definition write_request :: "'k ctap_crypto \<Rightarrow> pin_uv_auth_token \<Rightarrow> nat \<Rightarrow> nat \<Rightarrow> bytes \<Rightarrow> cbor_value" where
  "write_request c token tot offset fragment = Map
     ([(UInt LB_SET, Bytes fragment), (UInt LB_OFFSET, UInt (word_of_nat offset))]
      @ (if offset = 0 then [(UInt LB_LENGTH, UInt (word_of_nat tot))] else [])
      @ [(UInt LB_PIN_UV_AUTH_PARAM, Bytes (write_auth_param c token (word_of_nat offset) fragment)),
         (UInt LB_PIN_UV_AUTH_PROTOCOL, UInt (ucast (tk_protocol token)))])"

function write_loop :: "'k ctap_crypto \<Rightarrow> 'd ctap_transport \<Rightarrow> authenticator_info \<Rightarrow> pin_uv_auth_token
    \<Rightarrow> bytes \<Rightarrow> nat \<Rightarrow> 'd \<Rightarrow> (unit, ctap_error) result \<times> 'd" where
  "write_loop c dev info token serialized offset d =
     (if offset < length serialized then
        (let stop = min (offset + max_fragment_length info) (length serialized);
             fragment = take (stop - offset) (drop offset serialized)
         in case blob_dispatch dev (write_request c token (length serialized) offset fragment) d of
              (Err e, d) \<Rightarrow> (Err e, d)
            | (Ok _, d) \<Rightarrow> write_loop c dev info token serialized stop d)
      else (Ok (), d))"
  by pat_completeness auto
termination
  by (relation "measure (\<lambda>(_, _, _, _, serialized, offset, _). length serialized - offset)") (auto simp: fragment_advances)

declare write_loop.simps [simp del]

definition blob_write :: "'k ctap_crypto \<Rightarrow> 'd ctap_transport \<Rightarrow> authenticator_info \<Rightarrow> pin_uv_auth_token
    \<Rightarrow> bytes \<Rightarrow> 'd \<Rightarrow> (unit, ctap_error) result \<times> 'd" where
  "blob_write c dev info token serialized d = write_loop c dev info token serialized 0 d"


subsection \<open>Entries read back\<close>

lemma split_map_loop_join:
  "list_all (\<lambda>(k, v). item_len_at k 1 = Ok (length k) \<and> item_len_at v 1 = Ok (length v)) pairs \<Longrightarrow>
    split_map_loop (length pairs) (concat (map (\<lambda>(k, v). k @ v) pairs) @ r) = Ok (pairs, r)"
proof (induction pairs)
  case (Cons p pairs)
  obtain k v where p: "p = (k, v)" by (cases p)
  have k: "item_len_at (take (length k) k @ v @ s) 1 = Ok (length k)" for s
    using Cons.prems p by (intro local_atD(3) [OF local_at_all]) simp
  have v: "item_len_at (take (length v) v @ s) 1 = Ok (length v)" for s
    using Cons.prems p by (intro local_atD(3) [OF local_at_all]) simp
  show ?case using Cons k v by (simp add: p Let_def)
qed simp

lemma encoded_measure:
  assumes "fits 1 v" "length (encode v) < usize_limit"
  shows "item_len_at (encode v) 1 = Ok (length (encode v))"
proof -
  have "decode_at (encode v) 1 = Ok (v, [])" using decode_at_encode [OF assms(1), of "[]"] by simp
  from measures_atD [OF measures_at_all this assms(2)] show ?thesis by auto
qed

text \<open>An entry that can be written: what \<^verbatim>\<open>conforming_entry\<close> asks for, at lengths an
  address space can hold.\<close>

definition entry_ok :: "large_blob_entry \<Rightarrow> bool" where
  "entry_ok e \<longleftrightarrow> length (lb_nonce e) = 12 \<and> length (lb_ciphertext e) < 2 ^ 48"

lemma length_encode_header_le: "length (encode_header m n) \<le> 9"
  by (simp add: length_encode_header)

lemma entry_values_small:
  assumes "entry_ok e"
  shows "length (encode (Bytes (lb_ciphertext e))) < usize_limit" "length (encode (Bytes (lb_nonce e))) < usize_limit"
    "length (encode (UInt n)) < usize_limit" "length (encode_blob_entry e) < usize_limit"
  using assms length_encode_header_le [of MT_BYTES "word_of_nat (length (lb_ciphertext e))"]
    length_encode_header_le [of MT_BYTES "word_of_nat (length (lb_nonce e))"]
    length_encode_header_le [of MT_UINT n] length_encode_header_le [of MT_UINT "lb_orig_size e"]
    length_encode_header_le [of MT_UINT 1] length_encode_header_le [of MT_UINT 2]
    length_encode_header_le [of MT_UINT 3] length_encode_header_le [of MT_MAP 3]
  by (auto simp: entry_ok_def usize_limit_def encode_blob_entry_def lb_defs)

lemma split_map_encoded:
  assumes "list_all (\<lambda>(k, v). fits 1 k \<and> fits 1 v \<and> length (encode k) < usize_limit \<and> length (encode v) < usize_limit) m"
    and "length m < 2 ^ 64"
  shows "split_map (encode (Map m)) = Ok (map (\<lambda>(k, v). (encode k, encode v)) m, [])"
proof -
  let ?pairs = "map (\<lambda>(k, v). (encode k, encode v)) m"
  obtain b tail where h: "encode_header MT_MAP (word_of_nat (length m)) = b # tail" "drop_bit 5 b = MT_MAP"
    "\<And>r. read_arg (tail @ r) (b AND 0x1f) = Ok (word_of_nat (length m), r)"
    using encode_header_read [of MT_MAP "word_of_nat (length m)"] by auto
  have body: "concat (map (\<lambda>(k, v). encode k @ encode v) m) = concat (map (\<lambda>(k, v). k @ v) ?pairs)"
    by (simp add: comp_def case_prod_unfold)
  have "split_map_loop (length ?pairs) (concat (map (\<lambda>(k, v). k @ v) ?pairs) @ []) = Ok (?pairs, [])"
    using assms(1) by (intro split_map_loop_join) (fastforce simp: list_all_iff intro: encoded_measure [unfolded One_nat_def])
  then show ?thesis
    using h assms(2) by (simp add: split_map_def body unat_of_nat)
qed

lemma conforming_encoded:
  assumes "entry_ok e"
  shows "conforming_entry (encode_blob_entry e) = Some (e\<lparr>lb_original := Some (encode_blob_entry e)\<rparr>)"
proof -
  let ?m = "[(UInt ENTRY_CIPHERTEXT, Bytes (lb_ciphertext e)), (UInt ENTRY_NONCE, Bytes (lb_nonce e)),
      (UInt ENTRY_ORIG_SIZE, UInt (lb_orig_size e))]"
  have dec: "decode (encode v) = Ok (v, [])" if "fits 0 v" for v
    using decode_encode [OF that, of "[]"] by simp
  have f: "fits 0 (Bytes (lb_ciphertext e))" "fits 0 (Bytes (lb_nonce e))" "fits 0 (UInt n)" for n
    using assms by (simp_all add: entry_ok_def)
  have "split_map (encode (Map ?m)) = Ok (map (\<lambda>(k, v). (encode k, encode v)) ?m, [])"
    using assms entry_values_small [OF assms] by (intro split_map_encoded) (simp_all add: entry_ok_def)
  then show ?thesis
    using assms by (simp add: conforming_entry_def encode_blob_entry_def dec f lb_defs entry_ok_def del: encode.simps)
qed

lemma encoded_entry_measure:
  assumes "entry_ok e"
  shows "item_len_at (encode_blob_entry e) 1 = Ok (length (encode_blob_entry e))"
  unfolding encode_blob_entry_def
  using assms entry_values_small(4) [OF assms]
  by (intro encoded_measure) (simp_all add: entry_ok_def encode_blob_entry_def del: encode.simps)


subsection \<open>The invariant of an array\<close>

fun item_ok :: "blob_item \<Rightarrow> bool" where
  "item_ok (EntryItem e) \<longleftrightarrow>
     (case lb_original e of
        Some raw \<Rightarrow> conforming_entry raw = Some e \<and> item_len_at raw 1 = Ok (length raw)
      | None \<Rightarrow> entry_ok e)"
| "item_ok (SkippedItem raw) \<longleftrightarrow> conforming_entry raw = None \<and> item_len_at raw 1 = Ok (length raw)"

definition array_ok :: "large_blob_array \<Rightarrow> bool" where
  "array_ok a \<longleftrightarrow> list_all item_ok (la_items a) \<and> length (la_items a) < 2 ^ 48"

text \<open>An item as a reader sees it once it was written.\<close>

fun stored_item :: "blob_item \<Rightarrow> blob_item" where
  "stored_item (EntryItem e) = EntryItem (e\<lparr>lb_original := Some (item_bytes (EntryItem e))\<rparr>)"
| "stored_item (SkippedItem raw) = SkippedItem raw"

lemma conforming_original: "conforming_entry raw = Some e \<Longrightarrow> lb_original e = Some raw"
  by (auto simp: conforming_entry_def split: result.splits prod.splits option.splits if_splits)

definition slots_ok :: "entry_slots \<Rightarrow> bool" where
  "slots_ok s \<longleftrightarrow> (case s of (_, Some n, _) \<Rightarrow> length n = 12 | _ \<Rightarrow> True)"

lemma fill_slot_ok: "fill_slot key val s = Some s' \<Longrightarrow> slots_ok s \<Longrightarrow> slots_ok s'"
  by (cases s; cases val) (auto simp: slots_ok_def split: if_splits option.splits)

lemma entry_slots_step:
  obtains "entry_slots_of (p # ps) s = None" | "entry_slots_of (p # ps) s = entry_slots_of ps s"
  | key val s' where "fill_slot key val s = Some s'" "entry_slots_of (p # ps) s = entry_slots_of ps s'"
proof (cases "entry_slots_of (p # ps) s = None \<or> entry_slots_of (p # ps) s = entry_slots_of ps s")
  case False
  obtain k v where p: "p = (k, v)" by (cases p)
  obtain key where "entry_slots_of (p # ps) s = (case decode v of
      Ok (val, []) \<Rightarrow> Option.bind (fill_slot key val s) (entry_slots_of ps) | _ \<Rightarrow> None)"
    using False by (auto simp: p simp del: fill_slot.simps split: option.splits)
  moreover have "(case x of Ok (val, []) \<Rightarrow> F val | _ \<Rightarrow> None) = None
      \<or> (\<exists>val. (case x of Ok (val, []) \<Rightarrow> F val | _ \<Rightarrow> None) = F val)"
    for x :: "(cbor_value \<times> bytes, cbor_error) result" and F :: "cbor_value \<Rightarrow> entry_slots option"
    by (auto split: result.splits list.splits)
  ultimately obtain val where "entry_slots_of (p # ps) s = Option.bind (fill_slot key val s) (entry_slots_of ps)"
    using False by metis
  with False that(3) show ?thesis by (cases "fill_slot key val s") auto
qed (use that in \<open>blast\<close>)

lemma entry_slots_ok: "entry_slots_of ps s = Some s' \<Longrightarrow> slots_ok s \<Longrightarrow> slots_ok s'"
proof (induction ps arbitrary: s)
  case (Cons p ps)
  show ?case
    by (rule entry_slots_step [of p ps s]) (use Cons fill_slot_ok in \<open>auto simp del: entry_slots_of.simps fill_slot.simps\<close>)
qed simp

lemma conforming_nonce: "conforming_entry raw = Some e \<Longrightarrow> length (lb_nonce e) = 12"
  by (auto simp: conforming_entry_def slots_ok_def dest!: entry_slots_ok
      split: result.splits prod.splits option.splits if_splits)

lemma read_item_ok: "item_len_at raw 1 = Ok (length raw) \<Longrightarrow> item_ok (read_item raw)"
  using conforming_original [of raw] by (cases "conforming_entry raw") simp_all

lemma item_bytes_read [simp]: "item_bytes (read_item raw) = raw"
  by (auto dest: conforming_original split: option.splits)

lemma read_item_bytes: "item_ok i \<Longrightarrow> read_item (item_bytes i) = stored_item i"
  by (cases i) (auto simp: conforming_encoded dest: conforming_original split: option.splits)

lemma item_bytes_measure: "item_ok i \<Longrightarrow> item_len_at (item_bytes i) 1 = Ok (length (item_bytes i))"
  by (cases i) (auto simp: encoded_entry_measure [unfolded One_nat_def] split: option.splits)

lemma stored_item_bytes [simp]: "item_bytes (stored_item i) = item_bytes i"
  by (cases i) simp_all

lemma stored_item_ok: "item_ok i \<Longrightarrow> item_ok (stored_item i)"
  using read_item_ok [OF item_bytes_measure, of i] by (simp only: read_item_bytes)

text \<open>What was parsed satisfies the invariant, and what is serialized parses back.\<close>

lemma parse_items_cases:
  "parse_items bs = Ok (items, trailing) \<longleftrightarrow>
    (\<exists>elements rest. split_array bs = Ok (elements, rest) \<and> items = map read_item elements \<and> trailing = length rest)"
  by (auto simp: parse_items_def split_array_def split: list.splits if_splits result.splits prod.splits)

lemma parse_ok:
  assumes "blob_parse bs = Ok a" "length bs < 2 ^ 48"
  shows "array_ok a \<and> map item_bytes (la_items a) = fst (the_ok (split_array bs))"
proof -
  obtain elements rest where sp: "split_array bs = Ok (elements, rest)" and it: "la_items a = map read_item elements"
    using assms(1) by (auto simp: blob_parse_def parse_items_cases)
  note s = split_array_sound [OF sp]
  have pos: "0 < length i" if "i \<in> set elements" for i
    using s(2) that local_atD(1) [OF local_at_all, of i 1 "length i"] by (auto simp: list_all_iff)
  have "length elements \<le> length (concat elements)" using pos
  proof (induction elements)
    case (Cons x xs)
    have "0 < length x" "length xs \<le> length (concat xs)" using Cons by auto
    then have "Suc (length xs) \<le> length x + length (concat xs)" by linarith
    then show ?case by simp
  qed simp
  also have "\<dots> \<le> length bs" using s(1) by auto
  finally have "length elements < 2 ^ 48" using assms(2) by simp
  moreover have "list_all item_ok (map read_item elements)"
    using s(2) read_item_ok by (auto simp: list_all_iff simp del: read_item.simps)
  ultimately show ?thesis using sp by (simp add: array_ok_def it comp_def del: read_item.simps)
qed

lemma parse_array_bytes:
  assumes "array_ok a"
  shows "blob_parse (array_bytes a @ rest)
    = Ok \<lparr>la_items = map stored_item (la_items a), la_raw = array_bytes a @ rest, la_trailing = length rest\<rparr>"
proof -
  let ?els = "map item_bytes (la_items a)"
  have "list_all (\<lambda>i. item_len_at i 1 = Ok (length i)) ?els" "length ?els < 2 ^ 64"
    using assms item_bytes_measure by (auto simp: array_ok_def list_all_iff)
  from split_array_join [OF this, of rest]
  have "split_array (array_bytes a @ rest) = Ok (?els, rest)" by (simp add: array_bytes_def)
  moreover have "map read_item ?els = map stored_item (la_items a)"
    using assms read_item_bytes by (auto simp: array_ok_def list_all_iff simp del: read_item.simps)
  ultimately show ?thesis by (simp add: blob_parse_def parse_items_cases bind_result_eq_Ok del: read_item.simps)
qed


subsection \<open>Edits\<close>

text \<open>The abstract array: the fields of its conforming entries, and all its elements as bytes.\<close>

definition contents :: "large_blob_array \<Rightarrow> (bytes \<times> bytes \<times> u64) list" where
  "contents a = map (\<lambda>e. (lb_ciphertext e, lb_nonce e, lb_orig_size e)) (entries a)"

definition elements :: "large_blob_array \<Rightarrow> bytes list" where
  "elements a = map item_bytes (la_items a)"

definition note_fields :: "bytes \<Rightarrow> bytes \<times> bytes \<times> u64" where
  "note_fields text = (KR_NOTE_MAGIC @ text, replicate 12 0, word_of_nat (length text))"

text \<open>\<open>reopened a es els\<close>: the array can be written, and reading the result gives the
  fields \<open>es\<close> and the elements \<open>els\<close>.\<close>

definition reopened :: "large_blob_array \<Rightarrow> (bytes \<times> bytes \<times> u64) list \<Rightarrow> bytes list \<Rightarrow> bool" where
  "reopened a es els \<longleftrightarrow> array_ok a
     \<and> (case blob_parse (array_bytes a) of
          Ok b \<Rightarrow> array_ok b \<and> contents b = es \<and> elements b = els \<and> la_trailing b = 0 | Err _ \<Rightarrow> False)"

abbreviation is_entry :: "blob_item \<Rightarrow> bool" where
  "is_entry i \<equiv> item_entry i \<noteq> None"

lemma entry_positions:
  "length (filter (\<lambda>(_, i). is_entry i) (enumerate n items)) = length (List.map_filter item_entry items)"
  by (induction items arbitrary: n) (auto simp: List.map_filter_simps)

lemma entry_position_nth:
  "idx < length (List.map_filter item_entry items) \<Longrightarrow>
    \<exists>p e. fst (filter (\<lambda>(_, i). is_entry i) (enumerate n items) ! idx) = n + p \<and> p < length items
      \<and> items ! p = EntryItem e \<and> length (List.map_filter item_entry (take p items)) = idx"
proof (induction items arbitrary: n idx)
  case (Cons x items)
  show ?case
  proof (cases x)
    case (EntryItem e)
    show ?thesis
    proof (cases idx)
      case 0
      then show ?thesis by (intro exI [of _ 0]) (simp add: EntryItem List.map_filter_simps)
    next
      case (Suc k)
      with Cons.prems have "k < length (List.map_filter item_entry items)"
        by (simp add: EntryItem List.map_filter_simps)
      from Cons.IH [OF this, of "Suc n"] obtain p e' where
        "fst (filter (\<lambda>(_, i). is_entry i) (enumerate (Suc n) items) ! k) = Suc n + p" "p < length items"
        "items ! p = EntryItem e'" "length (List.map_filter item_entry (take p items)) = k" by blast
      then show ?thesis by (intro exI [of _ "Suc p"] exI [of _ e']) (simp add: EntryItem Suc List.map_filter_simps)
    qed
  next
    case (SkippedItem raw)
    with Cons.prems have "idx < length (List.map_filter item_entry items)" by (simp add: List.map_filter_simps)
    from Cons.IH [OF this, of "Suc n"] obtain p e' where
      "fst (filter (\<lambda>(_, i). is_entry i) (enumerate (Suc n) items) ! idx) = Suc n + p" "p < length items"
      "items ! p = EntryItem e'" "length (List.map_filter item_entry (take p items)) = idx" by blast
    then show ?thesis by (intro exI [of _ "Suc p"] exI [of _ e']) (simp add: SkippedItem List.map_filter_simps)
  qed
qed (simp add: List.map_filter_simps)

lemma map_filter_append: "List.map_filter f (xs @ ys) = List.map_filter f xs @ List.map_filter f ys"
  by (simp add: List.map_filter_def)

text \<open>The position behind an entry number, and the array cut there.\<close>

lemma item_index_none: "item_index a idx = None \<longleftrightarrow> blob_len a \<le> idx"
  by (simp add: item_index_def nth_opt_def entry_positions blob_len_def entries_def not_less del: not_None_eq)

lemma item_index_some:
  assumes "item_index a idx = Some pos"
  obtains e where "idx < blob_len a" "pos < length (la_items a)"
    "la_items a = take pos (la_items a) @ EntryItem e # drop (Suc pos) (la_items a)"
    "entries a = take idx (entries a) @ e # drop (Suc idx) (entries a)"
    "List.map_filter item_entry (take pos (la_items a)) = take idx (entries a)"
    "List.map_filter item_entry (drop (Suc pos) (la_items a)) = drop (Suc idx) (entries a)"
proof -
  have idx: "idx < length (List.map_filter item_entry (la_items a))"
    using assms item_index_none [of a idx] by (simp add: blob_len_def entries_def not_le [symmetric])
  obtain e where p: "pos < length (la_items a)" "la_items a ! pos = EntryItem e"
    "length (List.map_filter item_entry (take pos (la_items a))) = idx"
    using entry_position_nth [OF idx, of 0] assms
    by (auto simp: item_index_def nth_opt_def split: if_splits)
  have items: "la_items a = take pos (la_items a) @ EntryItem e # drop (Suc pos) (la_items a)"
    using id_take_nth_drop [OF p(1)] p(2) by simp
  have es: "entries a = List.map_filter item_entry (take pos (la_items a))
      @ e # List.map_filter item_entry (drop (Suc pos) (la_items a))"
    unfolding entries_def by (subst items) (simp add: map_filter_append List.map_filter_simps)
  have pre: "List.map_filter item_entry (take pos (la_items a)) = take idx (entries a)"
    and post: "List.map_filter item_entry (drop (Suc pos) (la_items a)) = drop (Suc idx) (entries a)"
    using p(3) by (simp_all add: es)
  show ?thesis
    using that [OF _ p(1) items _ pre post] es pre post idx by (simp add: blob_len_def entries_def)
qed

lemma entries_stored: "map (\<lambda>e. (lb_ciphertext e, lb_nonce e, lb_orig_size e)) (List.map_filter item_entry (map stored_item items))
    = map (\<lambda>e. (lb_ciphertext e, lb_nonce e, lb_orig_size e)) (List.map_filter item_entry items)"
proof (induction items)
  case (Cons i items)
  then show ?case by (cases i) (simp_all add: List.map_filter_simps)
qed simp

lemma reopenedI:
  assumes "array_ok a"
  shows "reopened a (contents a) (elements a)"
proof -
  have "array_ok \<lparr>la_items = map stored_item (la_items a), la_raw = array_bytes a, la_trailing = 0\<rparr>"
    using assms stored_item_ok by (auto simp: array_ok_def list_all_iff)
  then show ?thesis
    using assms parse_array_bytes [OF assms, of "[]"]
    by (simp add: reopened_def contents_def elements_def entries_def entries_stored comp_def)
qed

lemma note_ok: "length text < 2 ^ 40 \<Longrightarrow> item_ok (EntryItem (entry_from_text text))"
  by (simp add: entry_from_text_def entry_ok_def KR_NOTE_MAGIC_def)

lemma note_as_text: "entry_as_text (entry_from_text text) = from_utf8 text"
  by (simp add: entry_as_text_def entry_from_text_def KR_NOTE_MAGIC_def)

lemma with_text_note_refines:
  assumes "array_ok a" "length text < 2 ^ 40" "Suc (length (la_items a)) < 2 ^ 48"
  shows "reopened (with_text_note a text) (contents a @ [note_fields text])
    (elements a @ [encode_blob_entry (entry_from_text text)])"
proof -
  have "array_ok (with_text_note a text)"
    using assms note_ok by (simp add: array_ok_def with_text_note_def changed_def)
  from reopenedI [OF this] show ?thesis
    by (simp add: with_text_note_def changed_def contents_def elements_def entries_def map_filter_append
        List.map_filter_simps note_fields_def entry_from_text_def)
qed

lemma without_entry_refines:
  assumes "array_ok a" "item_index a idx = Some pos"
  shows "reopened (changed a (take pos (la_items a) @ drop (Suc pos) (la_items a)))
    (take idx (contents a) @ drop (Suc idx) (contents a)) (take pos (elements a) @ drop (Suc pos) (elements a))"
proof -
  let ?b = "changed a (take pos (la_items a) @ drop (Suc pos) (la_items a))"
  have "array_ok ?b" using assms(1)
    by (auto simp: array_ok_def changed_def list_all_iff dest: in_set_takeD in_set_dropD)
  moreover have "contents ?b = take idx (contents a) @ drop (Suc idx) (contents a)"
    using item_index_some [OF assms(2)]
    by (metis (no_types, lifting) changed_def contents_def drop_map entries_def large_blob_array.select_convs(1) map_append map_filter_append take_map)
  moreover have "elements ?b = take pos (elements a) @ drop (Suc pos) (elements a)"
    by (simp add: elements_def changed_def take_map drop_map)
  ultimately show ?thesis using reopenedI [of ?b] by simp
qed

lemma replaced_note_refines:
  assumes "array_ok a" "item_index a idx = Some pos" "length text < 2 ^ 40"
  shows "reopened (changed a ((la_items a)[pos := EntryItem (entry_from_text text)]))
    ((contents a)[idx := note_fields text]) ((elements a)[pos := encode_blob_entry (entry_from_text text)])"
proof -
  let ?i = "EntryItem (entry_from_text text)"
  let ?b = "changed a ((la_items a)[pos := ?i])"
  obtain e where c: "idx < blob_len a" "pos < length (la_items a)"
    "entries a = take idx (entries a) @ e # drop (Suc idx) (entries a)"
    "List.map_filter item_entry (take pos (la_items a)) = take idx (entries a)"
    "List.map_filter item_entry (drop (Suc pos) (la_items a)) = drop (Suc idx) (entries a)"
    by (rule item_index_some [OF assms(2)])
  have upd: "(la_items a)[pos := ?i] = take pos (la_items a) @ ?i # drop (Suc pos) (la_items a)"
    using c(2) by (rule upd_conv_take_nth_drop)
  have "array_ok ?b" using assms(1) note_ok [OF assms(3)] c(2) unfolding array_ok_def changed_def
    by (auto simp: list_all_iff dest: set_update_subset_insert [THEN subsetD])
  moreover have "contents ?b = (contents a)[idx := note_fields text]"
  proof -
    have "entries ?b = (entries a)[idx := entry_from_text text]"
      using c(1) by (simp add: entries_def changed_def upd map_filter_append List.map_filter_simps c(4,5)
          upd_conv_take_nth_drop blob_len_def)
    then show ?thesis by (simp add: contents_def map_update note_fields_def entry_from_text_def)
  qed
  moreover have "elements ?b = (elements a)[pos := encode_blob_entry (entry_from_text text)]"
    by (simp add: elements_def changed_def map_update entry_from_text_def)
  ultimately show ?thesis using reopenedI [of ?b] by simp
qed


subsection \<open>Transfer\<close>

text \<open>What a key does with the requests (CTAP 2.1, 6.10): \<open>get\<close> returns the fragment of
  the stored bytes; \<open>set\<close> with a valid authentication appends the fragment to what was sent
  since offset 0 and stores the whole once the announced length is reached and its checksum
  holds.  \<open>stored\<close> and \<open>pending\<close> observe the key's state.\<close>

definition key_gets :: "'d ctap_transport \<Rightarrow> ('d \<Rightarrow> bytes) \<Rightarrow> bool" where
  "key_gets dev stored \<longleftrightarrow> (\<forall>d count offset. length (stored d) < 2 ^ 32 \<longrightarrow> (\<exists>d'. stored d' = stored d
     \<and> transact_on dev CTAPHID_CBOR
         (CTAP2_LARGE_BLOBS # encode (Map [(UInt LB_GET, UInt count), (UInt LB_OFFSET, UInt offset)])) d
       = (Ok (0 # encode (Map [(UInt RESP_CONFIG, Bytes (take (unat count) (drop (unat offset) (stored d))))])), d')))"

definition checksummed :: "'k ctap_crypto \<Rightarrow> bytes \<Rightarrow> bool" where
  "checksummed c bs \<longleftrightarrow> (\<exists>a. bs = a @ left16_sha256 c a)"

definition key_sets :: "'k ctap_crypto \<Rightarrow> pin_uv_auth_token \<Rightarrow> 'd ctap_transport \<Rightarrow> ('d \<Rightarrow> bytes) \<Rightarrow> ('d \<Rightarrow> nat \<times> bytes) \<Rightarrow> bool" where
  "key_sets c token dev stored pending \<longleftrightarrow> (\<forall>d tot offset fragment.
     tot < 2 ^ 32 \<and> length fragment < 2 ^ 32
     \<and> (offset = 0 \<or> pending d = (tot, snd (pending d)) \<and> offset = length (snd (pending d))) \<longrightarrow>
     (let sent = (if offset = 0 then [] else snd (pending d)) @ fragment in
      (length sent < tot \<or> length sent = tot \<and> checksummed c sent) \<longrightarrow>
      (\<exists>d'. transact_on dev CTAPHID_CBOR (CTAP2_LARGE_BLOBS # encode (write_request c token tot offset fragment)) d = (Ok [0], d')
        \<and> (if length sent < tot then stored d' = stored d \<and> pending d' = (tot, sent) else stored d' = sent))))"

lemma read_fragment_got:
  assumes "key_gets dev stored" "length (stored d) < 2 ^ 32"
  shows "\<exists>d'. stored d' = stored d
    \<and> read_fragment dev offset count d = (Ok (take (unat count) (drop (unat offset) (stored d))), d')"
proof -
  let ?b = "take (unat count) (drop (unat offset) (stored d))"
  let ?v = "Map [(UInt RESP_CONFIG, Bytes ?b)]"
  obtain d' where d': "stored d' = stored d" "transact_on dev CTAPHID_CBOR
      (CTAP2_LARGE_BLOBS # encode (Map [(UInt LB_GET, UInt count), (UInt LB_OFFSET, UInt offset)])) d = (Ok (0 # encode ?v), d')"
    using assms unfolding key_gets_def by blast
  have "fits 0 ?v" using assms(2) by simp
  from decode_encode [OF this, of "[]"] have dec: "decode (encode ?v) = Ok (?v, [])" by simp
  have "encode ?v \<noteq> []" using encode_pos [of ?v] by auto
  with dec d' show ?thesis
    by (intro exI [of _ d'])
       (simp add: read_fragment_def blob_dispatch_def split_status_def decode_value_def del: encode.simps)
qed

lemma read_loop_got:
  assumes "key_gets dev stored"
  shows "length (stored d) \<le> 65536 \<Longrightarrow> offset \<le> length (stored d) \<Longrightarrow> data = take offset (stored d) \<Longrightarrow>
    \<exists>d'. stored d' = stored d \<and> read_loop dev info offset data d = (Ok (stored d), d')"
proof (induction "length (stored d) - offset" arbitrary: d offset data rule: less_induct)
  case (less d offset data)
  let ?n = "max_fragment_length info" and ?s = "stored d"
  have small: "offset < 2 ^ 64" "length ?s < 2 ^ 32" using less.prems(1,2) by simp_all
  have nn: "unat (word_of_nat ?n :: u64) = ?n"
    using unsigned_less [where ?'a = nat, of "case ai_max_msg_size info of None \<Rightarrow> DEFAULT_MAX_MSG_SIZE | Some n \<Rightarrow> n"]
    by (simp add: unat_of_nat max_fragment_length_def max_def)
  have oo: "unat (word_of_nat offset :: u64) = offset" using small(1) by (simp add: unat_of_nat)
  obtain d' where f: "read_fragment dev (word_of_nat offset) (word_of_nat ?n) d = (Ok (take ?n (drop offset ?s)), d')"
    and d': "stored d' = ?s" using read_fragment_got [OF assms small(2), of "word_of_nat offset" "word_of_nat ?n"] nn oo by auto
  have app: "data @ take ?n (drop offset ?s) = take (offset + ?n) ?s"
    using less.prems(3) by (simp add: take_add)
  show ?case
  proof (cases "length ?s - offset < ?n")
    case True
    then have "take (offset + ?n) ?s = ?s" by simp
    with True app f d' show ?thesis
      by (intro exI [of _ d']) (subst read_loop.simps, simp add: Let_def)
  next
    case False
    then have le: "offset + ?n \<le> length ?s" using less.prems(2) by simp
    have lt: "length ?s - (offset + ?n) < length ?s - offset"
      using le max_fragment_pos(1) [of info] by linarith
    have step: "read_loop dev info offset data d = read_loop dev info (offset + ?n) (take (offset + ?n) ?s) d'"
      using False app f le less.prems(1) by (subst read_loop.simps) (simp add: Let_def min_def)
    have "\<exists>d''. stored d'' = stored d' \<and> read_loop dev info (offset + ?n) (take (offset + ?n) ?s) d' = (Ok (stored d'), d'')"
      using le lt less.prems(1) by (intro less.hyps) (simp_all add: d')
    with step d' show ?thesis by auto
  qed
qed


lemma write_loop_sent:
  assumes "key_sets c token dev stored pending" "checksummed c s" "length s < 2 ^ 32"
  shows "offset < length s \<Longrightarrow> offset = 0 \<or> pending d = (length s, take offset s) \<Longrightarrow>
    \<exists>d'. write_loop c dev info token s offset d = (Ok (), d') \<and> stored d' = s"
proof (induction "length s - offset" arbitrary: d offset rule: less_induct)
  case (less offset d)
  define stop where "stop = min (offset + max_fragment_length info) (length s)"
  let ?fragment = "take (stop - offset) (drop offset s)"
  have le: "offset \<le> stop" "stop \<le> length s" using less.prems(1) by (auto simp: stop_def)
  have lt: "length s - stop < length s - offset" using fragment_advances less.prems(1) by (simp add: stop_def)
  have sent: "(if offset = 0 then [] else snd (pending d)) @ ?fragment = take stop s"
    using less.prems(2) le take_add [of offset "stop - offset" s] by auto
  have p: "offset = 0 \<or> pending d = (length s, snd (pending d)) \<and> offset = length (snd (pending d))"
    using less.prems by auto
  have "length ?fragment < 2 ^ 32" using assms(3) by simp
  with p assms(3) have key: "length (take stop s) < length s \<or> length (take stop s) = length s \<and> checksummed c (take stop s) \<longrightarrow>
      (\<exists>d'. transact_on dev CTAPHID_CBOR (CTAP2_LARGE_BLOBS # encode (write_request c token (length s) offset ?fragment)) d = (Ok [0], d')
        \<and> (if length (take stop s) < length s then stored d' = stored d \<and> pending d' = (length s, take stop s) else stored d' = take stop s))"
    using assms(1) unfolding key_sets_def Let_def by (metis (no_types, lifting) sent)
  have "length (take stop s) < length s \<or> length (take stop s) = length s \<and> checksummed c (take stop s)"
    using le assms(2) by (cases "stop < length s") auto
  with key obtain d' where d': "transact_on dev CTAPHID_CBOR
      (CTAP2_LARGE_BLOBS # encode (write_request c token (length s) offset ?fragment)) d = (Ok [0], d')"
    "if stop < length s then pending d' = (length s, take stop s) else stored d' = s"
    using le by (auto split: if_splits)
  have step: "write_loop c dev info token s offset d = write_loop c dev info token s stop d'"
    using less.prems(1) d'(1)
    by (subst write_loop.simps) (simp add: Let_def stop_def [symmetric] blob_dispatch_def split_status_def)
  show ?case
  proof (cases "stop < length s")
    case True
    with less.hyps [OF lt True, of d'] d'(2) step show ?thesis by simp
  next
    case False
    then have "write_loop c dev info token s stop d' = (Ok (), d')" by (subst write_loop.simps) simp
    with step d'(2) False show ?thesis by auto
  qed
qed

text \<open>Writing stores the serialized array, and reading parses what is stored.\<close>

lemma blob_write_stores:
  assumes "key_sets c token dev stored pending" "checksummed c s" "length s < 2 ^ 32" "s \<noteq> []"
  shows "\<exists>d'. blob_write c dev info token s d = (Ok (), d') \<and> stored d' = s"
  using write_loop_sent [OF assms(1-3), of 0 d info] assms(4) by (simp add: blob_write_def)

lemma blob_read_stored:
  assumes "key_gets dev stored" "pin_primitives c" "stored d = bs @ left16_sha256 c bs" "length (stored d) \<le> 65536"
  shows "\<exists>d'. stored d' = stored d \<and> blob_read c dev info d = (blob_parse bs, d')"
proof -
  obtain d' where "stored d' = stored d" "read_loop dev info 0 [] d = (Ok (stored d), d')"
    using read_loop_got [OF assms(1,4), of 0 "[]" info] by auto
  then show ?thesis
    by (intro exI [of _ d'])
       (simp add: blob_read_def CHECKSUM_LEN_def assms(3) length_left16 [OF assms(2)])
qed

text \<open>A transport that counts its exchanges.\<close>

definition counted :: "'d ctap_transport \<Rightarrow> ('d \<times> nat) ctap_transport" where
  "counted dev =
     \<lparr>transact_on = (\<lambda>cmd payload (d, n). case transact_on dev cmd payload d of (r, d') \<Rightarrow> (r, d', Suc n)),
      read_timeout = (\<lambda>(d, n). read_timeout dev d), set_timeout = (\<lambda>t (d, n). (set_timeout dev t d, n))\<rparr>"

lemma blob_dispatch_counted:
  "blob_dispatch (counted dev) v (d, n) = (case blob_dispatch dev v d of (r, d') \<Rightarrow> (r, d', Suc n))"
proof -
  obtain r d' where "transact_on dev CTAPHID_CBOR (CTAP2_LARGE_BLOBS # encode v) d = (r, d')"
    by (cases "transact_on dev CTAPHID_CBOR (CTAP2_LARGE_BLOBS # encode v) d")
  then show ?thesis unfolding blob_dispatch_def counted_def by (cases r) simp_all
qed

lemma read_fragment_counted:
  "read_fragment (counted dev) off count (d, n) = (case read_fragment dev off count d of (r, d') \<Rightarrow> (r, d', Suc n))"
proof -
  let ?v = "Map [(UInt LB_GET, UInt count), (UInt LB_OFFSET, UInt off)]"
  obtain r d' where "blob_dispatch dev ?v d = (r, d')" by (cases "blob_dispatch dev ?v d")
  then show ?thesis unfolding read_fragment_def blob_dispatch_counted by (cases r) simp_all
qed

lemma read_loop_bounded:
  "length data \<le> 65536 \<Longrightarrow>
    \<exists>m. read_loop (counted dev) info offset data (d, n)
        = (case read_loop dev info offset data d of (r, d') \<Rightarrow> (r, d', n + m))
      \<and> m \<le> Suc ((65536 - length data) div max_fragment_length info)"
proof (induction "65536 - length data" arbitrary: data offset d n rule: less_induct)
  case (less data offset d n)
  let ?n = "max_fragment_length info"
  obtain r d' where f: "read_fragment dev (word_of_nat offset) (word_of_nat ?n) d = (r, d')"
    by (cases "read_fragment dev (word_of_nat offset) (word_of_nat ?n) d")
  show ?case
  proof (cases "\<exists>chunk. r = Ok chunk \<and> ?n \<le> length chunk \<and> length (data @ chunk) \<le> 65536")
    case True
    then obtain chunk where c: "r = Ok chunk" "?n \<le> length chunk" "length (data @ chunk) \<le> 65536" by blast
    have lt: "65536 - length (data @ chunk) < 65536 - length data"
    proof -
      have "0 < length chunk" using c(2) max_fragment_pos(1) [of info] by linarith
      with c(3) show ?thesis unfolding length_append by linarith
    qed
    from less.hyps [OF lt c(3), of "offset + length chunk" d' "Suc n"] obtain m where
      m: "read_loop (counted dev) info (offset + length chunk) (data @ chunk) (d', Suc n)
        = (case read_loop dev info (offset + length chunk) (data @ chunk) d' of (r, d'') \<Rightarrow> (r, d'', Suc n + m))"
      "m \<le> Suc ((65536 - length (data @ chunk)) div ?n)" by blast
    have "(65536 - length (data @ chunk)) + ?n \<le> 65536 - length data" using c by simp
    then have "Suc ((65536 - length (data @ chunk)) div ?n) \<le> (65536 - length data) div ?n"
      by (metis div_add_self2 div_le_mono max_fragment_pos(2) Suc_eq_plus1)
    with m c f show ?thesis
      by (intro exI [of _ "Suc m"])
         (subst (1 2) read_loop.simps, simp add: read_fragment_counted Let_def not_less)
  next
    case False
    with f show ?thesis
      by (intro exI [of _ 1], cases r)
         (auto simp: read_loop.simps [of "counted dev"] read_loop.simps [of dev] read_fragment_counted Let_def not_less)
  qed
qed

lemma write_loop_bounded:
  "\<exists>m. write_loop c (counted dev) info token s offset (d, n)
      = (case write_loop c dev info token s offset d of (r, d') \<Rightarrow> (r, d', n + m))
    \<and> m * max_fragment_length info < length s - offset + max_fragment_length info"
proof (induction "length s - offset" arbitrary: offset d n rule: less_induct)
  case (less offset d n)
  let ?n = "max_fragment_length info"
  let ?stop = "min (offset + ?n) (length s)"
  let ?v = "write_request c token (length s) offset (take (?stop - offset) (drop offset s))"
  obtain r d' where f: "blob_dispatch dev ?v d = (r, d')" by (cases "blob_dispatch dev ?v d")
  show ?case
  proof (cases "offset < length s \<and> (\<exists>x. r = Ok x)")
    case True
    then obtain x where r: "r = Ok x" "offset < length s" by blast
    from less.hyps [OF fragment_advances [OF r(2)], of info d' "Suc n"] obtain m where
      m: "write_loop c (counted dev) info token s ?stop (d', Suc n)
        = (case write_loop c dev info token s ?stop d' of (r, d'') \<Rightarrow> (r, d'', Suc n + m))"
      "m * ?n < length s - ?stop + ?n" by blast
    have "Suc m * ?n < length s - offset + ?n"
    proof (cases "offset + ?n \<le> length s")
      case True
      with m(2) show ?thesis by simp
    next
      case False
      with m(2) have "m * ?n < ?n" by simp
      then have "m = 0" by simp
      with r(2) show ?thesis by simp
    qed
    with m r f show ?thesis
      by (intro exI [of _ "Suc m"])
         (subst (1 2) write_loop.simps, simp add: blob_dispatch_counted Let_def)
  next
    case False
    show ?thesis
    proof (cases "offset < length s")
      case True
      with False f obtain e where "r = Err e" by (cases r) auto
      with True f show ?thesis
        by (intro exI [of _ 1]) (subst (1 2) write_loop.simps, simp add: blob_dispatch_counted Let_def)
    next
      case False
      then show ?thesis by (intro exI [of _ 0]) (subst (1 2) write_loop.simps, simp)
    qed
  qed
qed


subsection \<open>Properties\<close>

text \<open>C2: the edits refine list operations on the stored array and keep its invariant.  When an edited
  array is written and read again, a new note has become the last entry, a replaced note has only changed its
  own entry, a removed entry is gone, and every other element, conforming or not, is there unchanged
  and in its place.  Out-of-range numbers and entries that are not notes of keyroost are refused.\<close>

theorem blob_edits_refine:
  assumes "array_ok a" "length text < 2 ^ 40" "Suc (length (la_items a)) < 2 ^ 48"
  shows "reopened (with_text_note a text) (contents a @ [note_fields text])
      (elements a @ [encode_blob_entry (entry_from_text text)])
    \<and> entry_as_text (entry_from_text text) = from_utf8 text
    \<and> (case without_entry a idx of
         None \<Rightarrow> blob_len a \<le> idx
       | Some b \<Rightarrow> idx < blob_len a \<and> (\<exists>pos < length (elements a).
           reopened b (take idx (contents a) @ drop (Suc idx) (contents a))
             (take pos (elements a) @ drop (Suc pos) (elements a))))
    \<and> (case with_replaced_note a idx text of
         None \<Rightarrow> blob_len a \<le> idx \<or> \<not> is_kr_note (entries a ! idx)
       | Some b \<Rightarrow> idx < blob_len a \<and> is_kr_note (entries a ! idx) \<and> (\<exists>pos < length (elements a).
           reopened b ((contents a)[idx := note_fields text])
             ((elements a)[pos := encode_blob_entry (entry_from_text text)])))"
proof (intro conjI)
  show "reopened (with_text_note a text) (contents a @ [note_fields text])
      (elements a @ [encode_blob_entry (entry_from_text text)])"
    by (rule with_text_note_refines [OF assms])
  show "case without_entry a idx of
         None \<Rightarrow> blob_len a \<le> idx
       | Some b \<Rightarrow> idx < blob_len a \<and> (\<exists>pos < length (elements a).
           reopened b (take idx (contents a) @ drop (Suc idx) (contents a))
             (take pos (elements a) @ drop (Suc pos) (elements a)))"
  proof (cases "item_index a idx")
    case None
    with item_index_none [THEN iffD1, OF None] show ?thesis by (simp add: without_entry_def)
  next
    case (Some pos)
    with without_entry_refines [OF assms(1) Some] item_index_some [OF Some] show ?thesis
      by (auto simp: without_entry_def elements_def)
  qed
  show "case with_replaced_note a idx text of
         None \<Rightarrow> blob_len a \<le> idx \<or> \<not> is_kr_note (entries a ! idx)
       | Some b \<Rightarrow> idx < blob_len a \<and> is_kr_note (entries a ! idx) \<and> (\<exists>pos < length (elements a).
           reopened b ((contents a)[idx := note_fields text])
             ((elements a)[pos := encode_blob_entry (entry_from_text text)]))"
  proof (cases "item_index a idx")
    case None
    with item_index_none [THEN iffD1, OF None] show ?thesis
      by (simp add: with_replaced_note_def blob_entry_def nth_opt_def blob_len_def)
  next
    case (Some pos)
    with replaced_note_refines [OF assms(1) Some assms(2)] item_index_some [OF Some] show ?thesis
      by (auto simp: with_replaced_note_def blob_entry_def nth_opt_def blob_len_def elements_def)
  qed
qed (rule note_as_text)

theorem blob_edits_refine_witness:
  "reopened (with_text_note \<lparr>la_items = [SkippedItem [5], EntryItem (entry_from_text [65])], la_raw = [], la_trailing = 0\<rparr> [66])
     [note_fields [65], note_fields [66]]
     [[5], encode_blob_entry (entry_from_text [65]), encode_blob_entry (entry_from_text [66])]"
proof -
  let ?a = "\<lparr>la_items = [SkippedItem [5], EntryItem (entry_from_text [65])], la_raw = [], la_trailing = 0\<rparr> :: large_blob_array"
  have "conforming_entry [5] = None" by (simp add: conforming_entry_def split_map_def)
  moreover have "item_len_at [5] 1 = Ok (length [5 :: byte])" by (simp add: item_len_at.simps read_arg_def)
  ultimately have "array_ok ?a" using note_ok [of "[65]"] by (simp add: array_ok_def)
  from blob_edits_refine [OF this, of "[66]" 0] show ?thesis
    by (simp add: contents_def entries_def elements_def List.map_filter_simps note_fields_def entry_from_text_def)
qed


definition demo_blob_key :: "(bytes \<times> nat \<times> bytes) ctap_transport" where
  "demo_blob_key = default_transport (\<lambda>cmd payload (st, tot, sent).
     case decode (tl payload) of
       Ok (v, _) \<Rightarrow>
         (case (get_uint_key v LB_GET, get_uint_key v LB_OFFSET, get_uint_key v LB_SET) of
            (Some (UInt count), Some (UInt off), _) \<Rightarrow>
              (Ok (0 # encode (Map [(UInt RESP_CONFIG, Bytes (take (unat count) (drop (unat off) st)))])), st, tot, sent)
          | (_, Some (UInt off), Some (Bytes f)) \<Rightarrow>
              (let tot' = (case get_uint_key v LB_LENGTH of Some (UInt n) \<Rightarrow> unat n | _ \<Rightarrow> tot);
                   sent' = (if off = 0 then [] else sent) @ f
               in (Ok [0], if length sent' < tot' then (st, tot', sent') else (sent', tot', sent')))
          | _ \<Rightarrow> (Ok [1], st, tot, sent))
     | Err _ \<Rightarrow> (Ok [1], st, tot, sent))"

lemma demo_gets: "key_gets demo_blob_key fst"
proof -
  have "decode (encode (Map [(UInt LB_GET, UInt count), (UInt LB_OFFSET, UInt offset)]))
      = Ok (Map [(UInt LB_GET, UInt count), (UInt LB_OFFSET, UInt offset)], [])" for count offset
    using decode_encode [of "Map [(UInt LB_GET, UInt count), (UInt LB_OFFSET, UInt offset)]" "[]"] by simp
  then show ?thesis
    by (auto simp: key_gets_def demo_blob_key_def default_transport_def get_uint_key_def lb_defs simp del: encode.simps)
qed

lemma demo_sets: "key_sets demo_crypto token demo_blob_key fst snd"
proof -
  have "decode (encode (write_request demo_crypto token tot offset fragment))
      = Ok (write_request demo_crypto token tot offset fragment, [])"
    if "length fragment < 2 ^ 32" for tot offset fragment
    using that decode_encode [of "write_request demo_crypto token tot offset fragment" "[]"]
    by (simp add: write_request_def write_auth_param_def token_authenticate_def demo_crypto_def Let_def)
  moreover have "(word_of_nat n :: u64) = 0 \<longleftrightarrow> n = 0" "unat (word_of_nat n :: u64) = n" if "n < 2 ^ 32" for n
    using that by (auto simp: unat_of_nat word_of_nat_eq_0_iff dest: dvd_imp_le)
  ultimately show ?thesis
    unfolding key_sets_def demo_blob_key_def default_transport_def
    by (auto simp: write_request_def get_uint_key_def lb_defs Let_def simp del: encode.simps)
qed



text \<open>C11: the transfers end on every key, whatever it answers.  Reading makes at most one request more
  than there are fragments in 64 KiB, writing at most one per fragment; counting the exchanges
  changes nothing else.\<close>

theorem blob_transfers_end:
  "(\<exists>m \<le> Suc (65536 div max_fragment_length info).
      blob_read c (counted dev) info (d, 0) = (case blob_read c dev info d of (r, d') \<Rightarrow> (r, d', m)))
   \<and> (\<exists>m. m * max_fragment_length info < length s + max_fragment_length info
      \<and> blob_write c (counted dev) info token s (d, 0) = (case blob_write c dev info token s d of (r, d') \<Rightarrow> (r, d', m)))"
proof
  obtain m where m: "read_loop (counted dev) info 0 [] (d, 0)
      = (case read_loop dev info 0 [] d of (r, d') \<Rightarrow> (r, d', 0 + m))" "m \<le> Suc (65536 div max_fragment_length info)"
    using read_loop_bounded [of "[]" dev info 0 d 0] by auto
  obtain r d' where "read_loop dev info 0 [] d = (r, d')" by (cases "read_loop dev info 0 [] d")
  with m show "\<exists>m \<le> Suc (65536 div max_fragment_length info).
      blob_read c (counted dev) info (d, 0) = (case blob_read c dev info d of (r, d') \<Rightarrow> (r, d', m))"
    by (intro exI [of _ m], cases r) (simp_all add: blob_read_def)
qed (use write_loop_bounded [of c dev info token s 0 d 0] in \<open>auto simp: blob_write_def\<close>)

end
