(* ===== verification/Civil.thy ===== *)
theory Civil
  imports Prelude "HOL-Library.Signed_Division"
begin

text \<open>
  The calendar arithmetic of \<^verbatim>\<open>crates/keyroost-piv/src/lib.rs\<close> (expiration dates),
  with the copies of the two conversions in \<^verbatim>\<open>keyroost-ctap/src/ssh_cert.rs\<close> and
  \<^verbatim>\<open>keyroost-pgpkey/src/cert.rs\<close>.  The numbers stay far inside 64 bits (a \<^verbatim>\<open>u64\<close> of seconds
  is less than \<open>2^48\<close> days), so they are integers; \<open>sdiv\<close> is the division that rounds to zero.
\<close>

subsection \<open>The two conversions\<close>

type_synonym ymd = "int \<times> int \<times> int"

definition civil_from_days :: "int \<Rightarrow> ymd" where
  "civil_from_days z =
     (let z = z + 719468;
          era = (if 0 \<le> z then z else z - 146096) sdiv 146097;
          doe = z - era * 146097;
          yoe = (doe - doe div 1460 + doe div 36524 - doe div 146096) div 365;
          y = yoe + era * 400;
          doy = doe - (365 * yoe + yoe div 4 - yoe div 100);
          mp = (5 * doy + 2) div 153;
          d = doy - (153 * mp + 2) div 5 + 1;
          m = (if mp < 10 then mp + 3 else mp - 9)
      in (y + (if m \<le> 2 then 1 else 0), m, d))"

definition days_from_civil :: "int \<Rightarrow> int \<Rightarrow> int \<Rightarrow> int" where
  "days_from_civil y m d =
     (let y = (if m \<le> 2 then y - 1 else y);
          era = (if 0 \<le> y then y else y - 399) sdiv 400;
          yoe = y - era * 400;
          doy = (153 * (m + (if m > 2 then - 3 else 9)) + 2) div 5 + d - 1;
          doe = yoe * 365 + yoe div 4 - yoe div 100 + doy
      in era * 146097 + doe - 719468)"

definition pgp_days_from_civil :: "int \<Rightarrow> int \<Rightarrow> int \<Rightarrow> int" where
  "pgp_days_from_civil y m d =
     (let y = y - (if m \<le> 2 then 1 else 0);
          era = y div 400;
          yoe = y - era * 400;
          doy = (153 * (if m > 2 then m - 3 else m + 9) + 2) div 5 + d - 1;
          doe = yoe * 365 + yoe div 4 - yoe div 100 + doy
      in era * 146097 + doe - 719468)"

definition pgp_civil_from_days :: "int \<Rightarrow> ymd" where
  "pgp_civil_from_days z =
     (let z = z + 719468;
          era = z div 146097;
          doe = z - era * 146097;
          yoe = (doe - doe div 1460 + doe div 36524 - doe div 146096) div 365;
          y = yoe + era * 400;
          doy = doe - (365 * yoe + yoe div 4 - yoe div 100);
          mp = (5 * doy + 2) div 153;
          d = doy - (153 * mp + 2) div 5 + 1;
          m = (if mp < 10 then mp + 3 else mp - 9)
      in (y + (if m \<le> 2 then 1 else 0), m, d))"

definition is_leap_year :: "int \<Rightarrow> bool" where
  "is_leap_year y \<longleftrightarrow> y mod 4 = 0 \<and> (y mod 100 \<noteq> 0 \<or> y mod 400 = 0)"

definition days_in_month :: "int \<Rightarrow> int \<Rightarrow> int" where
  "days_in_month y m =
     (if m \<in> {1, 3, 5, 7, 8, 10, 12} then 31
      else if m \<in> {4, 6, 9, 11} then 30
      else if is_leap_year y then 29 else 28)"

subsection \<open>A calendar to compare with\<close>

definition valid_date :: "ymd \<Rightarrow> bool" where
  "valid_date = (\<lambda>(y, m, d). 1 \<le> m \<and> m \<le> 12 \<and> 1 \<le> d \<and> d \<le> days_in_month y m)"

definition next_date :: "ymd \<Rightarrow> ymd" where
  "next_date = (\<lambda>(y, m, d).
     if d < days_in_month y m then (y, m, d + 1)
     else if m < 12 then (y, m + 1, 1) else (y + 1, 1, 1))"

definition date_less :: "ymd \<Rightarrow> ymd \<Rightarrow> bool" where
  "date_less = (\<lambda>(y, m, d) (y', m', d'). y < y' \<or> y = y' \<and> (m < m' \<or> m = m' \<and> d < d'))"

subsection \<open>Rounding\<close>

lemma div_unique_pos: "0 \<le> a \<Longrightarrow> a < n \<Longrightarrow> (a + b * n) div n = (b :: int)"
  by simp

lemma sdiv_floor:
  assumes "0 < n"
  shows "z < 0 \<Longrightarrow> (z - (n - 1)) sdiv n = (z :: int) div n" "0 \<le> z \<Longrightarrow> z sdiv n = (z :: int) div n"
proof -
  assume z: "z < 0"
  have sd: "(z - (n - 1)) sdiv n = - ((n - 1 - z) div n)"
    using z assms by (simp add: signed_divide_int_def sgn_if)
  have split: "n - 1 - z = (n - 1 - z mod n) + (- (z div n)) * n"
    using mult_div_mod_eq [of n z] by (simp add: algebra_simps)
  have "0 \<le> n - 1 - z mod n" "n - 1 - z mod n < n"
    using pos_mod_bound [OF assms, of z] pos_mod_sign [OF assms, of z] by linarith+
  from div_unique_pos [OF this, of "- (z div n)"]
  have "(n - 1 - z) div n = - (z div n)" by (simp only: split [symmetric])
  with sd show "(z - (n - 1)) sdiv n = z div n" by simp
qed (use assms in \<open>simp add: signed_divide_int_def sgn_if\<close>)

lemma pgp_same: "pgp_civil_from_days = civil_from_days" "pgp_days_from_civil = days_from_civil"
proof -
  have floor: "(if 0 \<le> z then z else z - (n - 1)) sdiv n = z div n" if "0 < n" for n z :: int
    using sdiv_floor [OF that, of z] by (cases "0 \<le> z") simp_all
  have n: "146097 - 1 = (146096 :: int)" "400 - 1 = (399 :: int)" by simp_all
  have e: "(if 0 \<le> z then z else z - 146096) sdiv 146097 = (z :: int) div 146097"
      "(if 0 \<le> z then z else z - 399) sdiv 400 = (z :: int) div 400" for z
    by (rule floor [of 146097 z, unfolded n, OF zero_less_numeral], rule floor [of 400 z, unfolded n, OF zero_less_numeral])
  show "pgp_civil_from_days = civil_from_days"
    by (rule ext) (simp only: pgp_civil_from_days_def civil_from_days_def e)
  show "pgp_days_from_civil = days_from_civil"
    by (intro ext) (simp add: pgp_days_from_civil_def days_from_civil_def e Let_def cong: if_cong)
qed

subsection \<open>Days and years counted from March\<close>

text \<open>The first day of a year that begins on 1 March, and the day of such a year as a month and a
  day.\<close>

definition year_start :: "int \<Rightarrow> int" where
  "year_start y = 365 * y + y div 4 - y div 100 + y div 400 - 719468"

definition from_march :: "int \<Rightarrow> int \<Rightarrow> ymd" where
  "from_march y doy =
     (let mp = (5 * doy + 2) div 153; m = (if mp < 10 then mp + 3 else mp - 9)
      in (y + (if m \<le> 2 then 1 else 0), m, doy - (153 * mp + 2) div 5 + 1))"

lemma days_from_civil_year:
  "days_from_civil y m d = year_start (if m \<le> 2 then y - 1 else y)
     + (153 * (if m > 2 then m - 3 else m + 9) + 2) div 5 + d - 1"
proof -
  define y' where "y' = (if m \<le> 2 then y - 1 else y)"
  define e where "e = y' div 400"
  define yoe where "yoe = y' - e * 400"
  have y': "y' = 400 * e + yoe" by (simp add: yoe_def)
  have r: "0 \<le> yoe" "yoe < 400" by (simp_all add: yoe_def e_def minus_div_mult_eq_mod)
  have "y' = yoe + (100 * e) * 4" "y' = yoe + (4 * e) * 100" using y' by simp_all
  then have d: "y' div 4 = 100 * e + yoe div 4" "y' div 100 = 4 * e + yoe div 100"
    by (metis div_mult_self1 zero_neq_numeral add.commute)+
  have d400: "y' div 400 = e" by (simp add: e_def)
  have "year_start y' = e * 146097 + (yoe * 365 + yoe div 4 - yoe div 100) - 719468"
    unfolding year_start_def d d400 using y' by simp
  moreover have "days_from_civil y m d = e * 146097 + (yoe * 365 + yoe div 4 - yoe div 100
      + ((153 * (if m > 2 then m - 3 else m + 9) + 2) div 5 + d - 1)) - 719468"
    unfolding pgp_same(2) [symmetric] pgp_days_from_civil_def Let_def
    by (simp add: yoe_def e_def y'_def)
  ultimately show ?thesis unfolding y'_def by simp
qed

text \<open>A year of an era is \<open>100 c + 4 q + r\<close>; its day \<open>doy\<close> is the day
  \<open>36524 c + 1461 q + 365 r + doy\<close> of the era.\<close>

lemma civil_core:
  assumes "0 \<le> c" "c \<le> 3" "0 \<le> q" "q \<le> 24" "0 \<le> r" "r \<le> 3" "0 \<le> doy" "doy \<le> 365"
    and leap: "doy = 365 \<Longrightarrow> r = 3 \<and> (q \<noteq> 24 \<or> c = 3)"
  shows "civil_from_days (146097 * era + (36524 * c + 1461 * q + 365 * r + doy) - 719468)
    = from_march (400 * era + (100 * c + 4 * q + r)) doy"
proof -
  define doe where "doe = 36524 * c + 1461 * q + 365 * r + doy"
  define t where "t = 24 * c + q + 365 * r + doy"
  have bound: "0 \<le> doe" "doe < 146097"
  proof -
    have "365 * r + doy \<le> 1460" using assms by (cases "doy = 365") auto
    moreover have "1461 * q + (365 * r + doy) \<le> 36523 \<or> (c = 3 \<and> 1461 * q + (365 * r + doy) \<le> 36524)"
      using assms leap by (cases "doy = 365") auto
    ultimately show "0 \<le> doe" "doe < 146097" unfolding doe_def using assms by linarith+
  qed
  have q1460: "doe div 1460 = 25 * c + q + (if 1460 \<le> t then 1 else 0)"
  proof -
    have "doe = (25 * c + q) * 1460 + t" by (simp add: doe_def t_def)
    moreover have "t div 1460 = (if 1460 \<le> t then 1 else 0)"
      using assms unfolding t_def by auto
    ultimately show ?thesis by simp
  qed
  define last where "last = (c = 3 \<and> q = 24 \<and> r = 3 \<and> doy = 365)"
  have q36524: "doe div 36524 = c + (if last then 1 else 0)"
  proof -
    have "doe = c * 36524 + (1461 * q + 365 * r + doy)" by (simp add: doe_def)
    moreover have "(1461 * q + 365 * r + doy) div 36524 = (if last then 1 else 0)"
      using assms leap unfolding last_def by (cases "doy = 365"; cases "q = 24"; cases "r = 3") auto
    ultimately show ?thesis by simp
  qed
  have q146096: "doe div 146096 = (if last then 1 else 0)"
  proof (cases last)
    case True
    then show ?thesis by (simp add: last_def doe_def)
  next
    case False
    have "doe < 146096" using assms leap False unfolding doe_def last_def
      by (cases "doy = 365"; cases "q = 24"; cases "c = 3"; simp; linarith)
    with bound(1) False show ?thesis by simp
  qed
  have "(doe - doe div 1460 + doe div 36524 - doe div 146096) = 365 * (100 * c + 4 * q + r) + (doy - (if 1460 \<le> t then 1 else 0))"
    unfolding q1460 q36524 q146096 by (simp add: doe_def)
  moreover have "0 \<le> doy - (if 1460 \<le> t then 1 else 0)" "doy - (if 1460 \<le> t then 1 else 0) < 365"
    using assms leap unfolding t_def by (cases "doy = 365"; auto)+
  ultimately have yoe: "(doe - doe div 1460 + doe div 36524 - doe div 146096) div 365 = 100 * c + 4 * q + r"
    by simp
  have dv: "(100 * c + 4 * q + r) div 4 = 25 * c + q" "(100 * c + 4 * q + r) div 100 = c"
    using assms by auto
  have doy: "doe - (365 * (100 * c + 4 * q + r) + (100 * c + 4 * q + r) div 4 - (100 * c + 4 * q + r) div 100) = doy"
    unfolding dv by (simp add: doe_def)
  have era: "(146097 * era + doe) div 146097 = era" "146097 * era + doe - era * 146097 = doe"
    "146097 * era + doe - 719468 + 719468 = 146097 * era + doe"
    using div_unique_pos [OF bound, of era] by (simp_all only: add.commute mult.commute)
  show ?thesis
    unfolding pgp_same(1) [symmetric] pgp_civil_from_days_def from_march_def doe_def [symmetric] Let_def era yoe doy
    by (simp add: algebra_simps)
qed


lemma era_split:
  obtains era c q r doy :: int where
    "z = 146097 * era + (36524 * c + 1461 * q + 365 * r + doy) - 719468"
    "0 \<le> c" "c \<le> 3" "0 \<le> q" "q \<le> 24" "0 \<le> r" "r \<le> 3" "0 \<le> doy" "doy \<le> 365"
    "doy = 365 \<longrightarrow> r = 3 \<and> (q \<noteq> 24 \<or> c = 3)"
proof -
  define era doe where "era = (z + 719468) div 146097" and "doe = (z + 719468) mod 146097"
  have doe: "0 \<le> doe" "doe \<le> 146096" "z = 146097 * era + doe - 719468"
    using pos_mod_bound [of 146097 "z + 719468"] pos_mod_sign [of 146097 "z + 719468"]
      mult_div_mod_eq [of 146097 "z + 719468"] by (simp_all add: era_def doe_def)
  define c a where "c = min 3 (doe div 36524)" and "a = doe - 36524 * c"
  have c: "0 \<le> c" "c \<le> 3" "0 \<le> a" "a \<le> 36524" "c < 3 \<Longrightarrow> a < 36524"
    using doe(1,2) unfolding a_def c_def by linarith+
  define q b where "q = a div 1461" and "b = a - 1461 * q"
  have q: "0 \<le> q" "q \<le> 24" "0 \<le> b" "b \<le> 1460" using c(3,4) unfolding b_def q_def by linarith+
  define r doy where "r = min 3 (b div 365)" and "doy = b - 365 * r"
  have r: "0 \<le> r" "r \<le> 3" "0 \<le> doy" "doy \<le> 365" "r < 3 \<Longrightarrow> doy < 365"
    using q(3,4) unfolding doy_def r_def by linarith+
  have leap: "r = 3 \<and> (q \<noteq> 24 \<or> c = 3)" if "doy = 365"
  proof -
    have "r = 3" using r(2,5) that by linarith
    moreover have "a < 36524 \<Longrightarrow> q = 24 \<Longrightarrow> r = 3 \<Longrightarrow> False"
      using that unfolding doy_def b_def by linarith
    ultimately show ?thesis using c(2,5) by (cases "c = 3") auto
  qed
  have leap': "doy = 365 \<longrightarrow> r = 3 \<and> (q \<noteq> 24 \<or> c = 3)" using leap by blast
  show thesis
    by (rule that [OF _ c(1,2) q(1,2) r(1-4) leap']) (simp add: doe(3) a_def b_def doy_def)
qed

lemma div_eqI: "n * k \<le> x \<Longrightarrow> x < n * k + n \<Longrightarrow> x div n = (k :: int)"
  using div_unique_pos [of "x - n * k" n k] by (simp add: algebra_simps)

lemma march_cases:
  fixes m :: int
  assumes "1 \<le> m" "m \<le> 12"
  obtains "m = 1" | "m = 2" | "m = 3" | "m = 4" | "m = 5" | "m = 6" | "m = 7" | "m = 8" | "m = 9"
    | "m = 10" | "m = 11" | "m = 12"
proof -
  have "m = 1 \<or> m = 2 \<or> m = 3 \<or> m = 4 \<or> m = 5 \<or> m = 6 \<or> m = 7 \<or> m = 8 \<or> m = 9 \<or> m = 10 \<or> m = 11 \<or> m = 12"
    using assms by presburger
  with that show thesis by (elim disjE)
qed

definition march_day :: "int \<Rightarrow> int \<Rightarrow> int" where
  "march_day m d = (153 * (if m > 2 then m - 3 else m + 9) + 2) div 5 + d - 1"

definition march_year :: "int \<Rightarrow> int \<Rightarrow> int" where
  "march_year y m = (if m \<le> 2 then y - 1 else y)"

lemma from_march_inverse:
  assumes "1 \<le> m" "m \<le> 12" "1 \<le> d" "d \<le> days_in_month y m"
  shows "from_march (march_year y m) (march_day m d) = (y, m, d)"
    "0 \<le> march_day m d" "march_day m d \<le> 365" "march_day m d = 365 \<Longrightarrow> is_leap_year (march_year y m + 1)"
proof -
  define mp where "mp = (if m > 2 then m - 3 else m + 9)"
  have doy: "march_day m d = (153 * mp + 2) div 5 + d - 1" by (simp add: march_day_def mp_def)
  have mp: "(5 * march_day m d + 2) div 153 = mp"
    by (rule march_cases [OF assms(1,2)])
       (use assms(3,4) in \<open>auto simp: march_day_def mp_def days_in_month_def intro!: div_eqI split: if_splits\<close>)
  show "from_march (march_year y m) (march_day m d) = (y, m, d)"
    using assms(1,2) unfolding from_march_def mp Let_def by (auto simp: doy mp_def march_year_def)
  show "0 \<le> march_day m d" "march_day m d \<le> 365"
    by (rule march_cases [OF assms(1,2)];
        use assms(3,4) in \<open>auto simp: march_day_def days_in_month_def split: if_splits\<close>)+
  show "is_leap_year (march_year y m + 1)" if "march_day m d = 365"
    by (rule march_cases [OF assms(1,2)];
        use assms(3,4) that in \<open>auto simp: march_day_def march_year_def days_in_month_def split: if_splits\<close>)
qed

lemma from_march_valid:
  assumes "0 \<le> doy" "doy \<le> 365" "doy = 365 \<Longrightarrow> is_leap_year (y + 1)"
  shows "valid_date (from_march y doy)"
    "case from_march y doy of (y', m, d) \<Rightarrow> march_year y' m = y \<and> march_day m d = doy"
proof -
  define mp where "mp = (5 * doy + 2) div 153"
  have mp: "153 * mp \<le> 5 * doy + 2" "5 * doy + 2 < 153 * mp + 153" unfolding mp_def by linarith+
  then have range: "0 \<le> mp" "mp \<le> 11" using assms(1,2) by linarith+
  then have cs: "mp = 0 \<or> mp = 1 \<or> mp = 2 \<or> mp = 3 \<or> mp = 4 \<or> mp = 5 \<or> mp = 6 \<or> mp = 7 \<or> mp = 8
    \<or> mp = 9 \<or> mp = 10 \<or> mp = 11" by presburger
  show "valid_date (from_march y doy)"
    unfolding from_march_def mp_def [symmetric] Let_def valid_date_def
  proof (cases "doy = 365")
    case True
    with mp have "mp = 11" by linarith
    with True assms(3) show "case (y + (if (if mp < 10 then mp + 3 else mp - 9) \<le> 2 then 1 else 0),
        if mp < 10 then mp + 3 else mp - 9, doy - (153 * mp + 2) div 5 + 1) of
        (y, m, d) \<Rightarrow> 1 \<le> m \<and> m \<le> 12 \<and> 1 \<le> d \<and> d \<le> days_in_month y m"
      by (simp add: days_in_month_def)
  next
    case False
    with cs mp assms(1,2) show "case (y + (if (if mp < 10 then mp + 3 else mp - 9) \<le> 2 then 1 else 0),
        if mp < 10 then mp + 3 else mp - 9, doy - (153 * mp + 2) div 5 + 1) of
        (y, m, d) \<Rightarrow> 1 \<le> m \<and> m \<le> 12 \<and> 1 \<le> d \<and> d \<le> days_in_month y m"
      by (elim disjE; simp add: days_in_month_def)
  qed
  show "case from_march y doy of (y', m, d) \<Rightarrow> march_year y' m = y \<and> march_day m d = doy"
    unfolding from_march_def mp_def [symmetric] Let_def march_year_def march_day_def
    using cs by (elim disjE; simp)
qed


subsection \<open>The conversions are inverse\<close>

text \<open>A pair of a March year and a day in it that exists.\<close>

definition march_ok :: "int \<Rightarrow> int \<Rightarrow> bool" where
  "march_ok y doy \<longleftrightarrow> 0 \<le> doy \<and> doy \<le> 365 \<and> (doy = 365 \<longrightarrow> is_leap_year (y + 1))"

lemma leap_split:
  assumes "0 \<le> c" "c \<le> 3" "0 \<le> q" "q \<le> 24" "0 \<le> r" "r \<le> 3"
  shows "is_leap_year (400 * era + (100 * c + 4 * q + r) + 1) \<longleftrightarrow> r = 3 \<and> (q \<noteq> 24 \<or> c = 3)"
proof -
  define y where "y = 400 * era + (100 * c + 4 * q + r) + 1"
  have y: "y = (r + 1) + (100 * era + 25 * c + q) * 4" "y = (4 * q + r + 1) + (4 * era + c) * 100"
    "y = (100 * c + 4 * q + r + 1) + era * 400" by (simp_all add: y_def)
  have m4: "y mod 4 = (r + 1) mod 4" by (subst y(1)) (rule mod_mult_self1)
  have m100: "y mod 100 = (4 * q + r + 1) mod 100" by (subst y(2)) (rule mod_mult_self1)
  have m400: "y mod 400 = (100 * c + 4 * q + r + 1) mod 400" by (subst y(3)) (rule mod_mult_self1)
  have "is_leap_year y \<longleftrightarrow> r = 3 \<and> ((4 * q + 4) mod 100 \<noteq> 0 \<or> (100 * c + 4 * q + 4) mod 400 = 0)"
  proof (cases "r = 3")
    case True
    then show ?thesis unfolding is_leap_year_def m4 m100 m400 by (simp add: add.assoc)
  next
    case False
    then have "(r + 1) mod 4 \<noteq> 0" using assms(5,6) by (simp add: mod_pos_pos_trivial)
    with False show ?thesis unfolding is_leap_year_def m4 by simp
  qed
  also have "(4 * q + 4) mod 100 \<noteq> 0 \<longleftrightarrow> q \<noteq> 24"
    using assms(3,4) by (cases "q = 24") (auto simp: mod_pos_pos_trivial)
  also have "r = 3 \<and> (q \<noteq> 24 \<or> (100 * c + 4 * q + 4) mod 400 = 0) \<longleftrightarrow> r = 3 \<and> (q \<noteq> 24 \<or> c = 3)"
    using assms(1,2) by (cases "c = 3") (auto simp: mod_pos_pos_trivial)
  finally show ?thesis by (simp only: y_def)
qed

lemma year_start_split:
  assumes "0 \<le> c" "c \<le> 3" "0 \<le> q" "q \<le> 24" "0 \<le> r" "r \<le> 3"
  shows "year_start (400 * era + (100 * c + 4 * q + r)) = 146097 * era + (36524 * c + 1461 * q + 365 * r) - 719468"
proof -
  define y where "y = 400 * era + (100 * c + 4 * q + r)"
  have "y div 4 = 100 * era + 25 * c + q" "y div 100 = 4 * era + c" "y div 400 = era"
    using assms by (auto simp: y_def intro!: div_eqI)
  then show ?thesis unfolding year_start_def y_def [symmetric] by (simp add: y_def)
qed

lemma year_parts:
  obtains era c q r :: int where "y = 400 * era + (100 * c + 4 * q + r)"
    "0 \<le> c" "c \<le> 3" "0 \<le> q" "q \<le> 24" "0 \<le> r" "r \<le> 3"
proof
  let ?a = "y mod 400"
  have a: "0 \<le> ?a" "?a < 400" "y = 400 * (y div 400) + ?a" by simp_all
  show "0 \<le> ?a div 100" "?a div 100 \<le> 3" using a(1,2) by linarith+
  show "0 \<le> ?a mod 100 div 4" "?a mod 100 div 4 \<le> 24" "0 \<le> ?a mod 100 mod 4" "?a mod 100 mod 4 \<le> 3"
    using pos_mod_bound [of 100 ?a] pos_mod_sign [of 100 ?a] pos_mod_bound [of 4 "?a mod 100"] by linarith+
  show "y = 400 * (y div 400) + (100 * (?a div 100) + 4 * (?a mod 100 div 4) + ?a mod 100 mod 4)"
    using a(3) mult_div_mod_eq [of 100 ?a] mult_div_mod_eq [of 4 "?a mod 100"] by linarith
qed

lemma civil_march:
  assumes "march_ok y doy"
  shows "civil_from_days (year_start y + doy) = from_march y doy"
proof -
  obtain era c q r where y: "y = 400 * era + (100 * c + 4 * q + r)"
    and b: "0 \<le> c" "c \<le> 3" "0 \<le> q" "q \<le> 24" "0 \<le> r" "r \<le> 3" by (rule year_parts [of y])
  have "doy = 365 \<Longrightarrow> r = 3 \<and> (q \<noteq> 24 \<or> c = 3)" "0 \<le> doy" "doy \<le> 365"
    using assms leap_split [OF b, of era] by (simp_all add: march_ok_def y)
  note core = civil_core [OF b this(2,3,1), of era]
  show ?thesis using core unfolding y year_start_split [OF b] by (simp add: algebra_simps)
qed

lemma march_exists: "\<exists>y doy. march_ok y doy \<and> z = year_start y + doy"
proof -
  obtain era c q r doy where z: "z = 146097 * era + (36524 * c + 1461 * q + 365 * r + doy) - 719468"
    and b: "0 \<le> c" "c \<le> 3" "0 \<le> q" "q \<le> 24" "0 \<le> r" "r \<le> 3" and d: "0 \<le> doy" "doy \<le> 365"
      "doy = 365 \<longrightarrow> r = 3 \<and> (q \<noteq> 24 \<or> c = 3)" by (rule era_split [of z])
  have "march_ok (400 * era + (100 * c + 4 * q + r)) doy"
    using d unfolding march_ok_def leap_split [OF b] by blast
  moreover have "z = year_start (400 * era + (100 * c + 4 * q + r)) + doy"
    unfolding z year_start_split [OF b] by simp
  ultimately show ?thesis by blast
qed

lemma days_march: "days_from_civil y m d = year_start (march_year y m) + march_day m d"
  by (simp add: days_from_civil_year march_year_def march_day_def)

lemma civil_days:
  assumes "valid_date (y, m, d)"
  shows "civil_from_days (days_from_civil y m d) = (y, m, d)"
proof -
  have v: "1 \<le> m" "m \<le> 12" "1 \<le> d" "d \<le> days_in_month y m" using assms by (simp_all add: valid_date_def)
  have "march_ok (march_year y m) (march_day m d)" using from_march_inverse [OF v] by (simp add: march_ok_def)
  from civil_march [OF this] from_march_inverse(1) [OF v] show ?thesis by (simp add: days_march)
qed

lemma civil_valid_days:
  "valid_date (civil_from_days z) \<and> (case civil_from_days z of (y, m, d) \<Rightarrow> days_from_civil y m d = z)"
proof -
  obtain y doy where ok: "march_ok y doy" and z: "z = year_start y + doy" using march_exists by blast
  have d: "0 \<le> doy" "doy \<le> 365" "doy = 365 \<Longrightarrow> is_leap_year (y + 1)" using ok by (simp_all add: march_ok_def)
  note f = from_march_valid [OF d]
  have "civil_from_days z = from_march y doy" unfolding z by (rule civil_march [OF ok])
  with f show ?thesis by (auto simp: days_march z split: prod.splits)
qed

lemma days_civil: "civil_from_days z = (y, m, d) \<Longrightarrow> days_from_civil y m d = z"
  using civil_valid_days [of z] by simp

lemma civil_valid: "civil_from_days z = (y, m, d) \<Longrightarrow> valid_date (y, m, d)"
  using civil_valid_days [of z] by simp

text \<open>The day after a date.\<close>

lemma div_pred: "0 < n \<Longrightarrow> y div n - (y - 1) div n = (if y mod n = 0 then 1 else 0 :: int)"
proof -
  assume n: "0 < n"
  have y: "y = n * (y div n) + y mod n" "0 \<le> y mod n" "y mod n < n" using n by simp_all
  show ?thesis
  proof (cases "y mod n = 0")
    case True
    have "(y - 1) div n = y div n - 1" using y True n by (intro div_eqI) (simp_all add: algebra_simps)
    with True show ?thesis by simp
  next
    case False
    have "(y - 1) div n = y div n" using y False by (intro div_eqI) linarith+
    with False show ?thesis by simp
  qed
qed

lemma year_start_Suc: "year_start y - year_start (y - 1) = 337 + days_in_month y 2"
proof -
  note p = div_pred [of 4 y, OF zero_less_numeral] div_pred [of 100 y, OF zero_less_numeral] div_pred [of 400 y, OF zero_less_numeral]
  have m: "y mod 100 = 0" if "y mod 400 = 0" using that mod_mod_cancel [of 100 400 y] by simp
  have m4: "y mod 4 = 0" if "y mod 100 = 0" using that mod_mod_cancel [of 4 100 y] by simp
  have "year_start y - year_start (y - 1) = 365 + (y div 4 - (y - 1) div 4) - (y div 100 - (y - 1) div 100)
      + (y div 400 - (y - 1) div 400)" by (simp add: year_start_def)
  also have "\<dots> = 337 + days_in_month y 2"
    unfolding p days_in_month_def is_leap_year_def using m m4
    by (cases "y mod 400 = 0"; cases "y mod 100 = 0"; cases "y mod 4 = 0"; simp only: if_True if_False simp_thms) simp_all
  finally show ?thesis .
qed

lemma days_next:
  assumes "valid_date (y, m, d)"
  shows "case next_date (y, m, d) of (y', m', d') \<Rightarrow> valid_date (y', m', d') \<and> days_from_civil y' m' d' = days_from_civil y m d + 1"
proof -
  have v: "1 \<le> m" "m \<le> 12" "1 \<le> d" "d \<le> days_in_month y m" using assms by (simp_all add: valid_date_def)
  show ?thesis
  proof (cases "d < days_in_month y m")
    case True
    with v show ?thesis by (simp add: next_date_def days_march march_day_def valid_date_def)
  next
    case False
    with v(4) have d: "d = days_in_month y m" by simp
    have one: "1 \<le> days_in_month y' m'" for y' m' by (simp add: days_in_month_def)
    consider "m = 2" | "m = 12" | "m \<noteq> 2" "m < 12" using v(2) by linarith
    then show ?thesis
    proof cases
      case 1
      with False d show ?thesis using year_start_Suc [of y] one [of y 3]
        by (simp add: next_date_def days_march march_day_def march_year_def valid_date_def)
    next
      case 2
      with False d show ?thesis using one [of "y + 1" 1]
        by (simp add: next_date_def days_march march_day_def march_year_def valid_date_def days_in_month_def)
    next
      case 3
      have "march_day (m + 1) 1 = march_day m (days_in_month y m) + 1"
        by (rule march_cases [OF v(1,2)]; use 3 in \<open>simp add: march_day_def days_in_month_def\<close>)
      with 3 False d show ?thesis using one [of y "m + 1"] v(1)
        by (simp add: next_date_def days_march march_year_def valid_date_def)
    qed
  qed
qed


lemma civil_next: "civil_from_days (z + 1) = next_date (civil_from_days z)"
proof -
  obtain y m d where c: "civil_from_days z = (y, m, d)" by (cases "civil_from_days z")
  obtain y' m' d' where n: "next_date (y, m, d) = (y', m', d')" by (cases "next_date (y, m, d)")
  have "valid_date (y', m', d')" "days_from_civil y' m' d' = z + 1"
    using days_next [OF civil_valid [OF c]] days_civil [OF c] n by simp_all
  with civil_days show ?thesis by (metis c n)
qed

lemma civil_epoch: "civil_from_days 0 = (1970, 1, 1)"
proof -
  have "valid_date (1970, 1, 1)" by (simp add: valid_date_def days_in_month_def)
  moreover have "days_from_civil 1970 1 1 = 0" by (simp add: days_from_civil_year year_start_def)
  ultimately show ?thesis using civil_days by metis
qed

subsection \<open>The order of dates\<close>

lemma date_less_trans: "date_less a b \<Longrightarrow> date_less b c \<Longrightarrow> date_less a c"
  by (auto simp: date_less_def split: prod.splits)

lemma date_less_irrefl [simp]: "\<not> date_less a a"
  by (auto simp: date_less_def split: prod.splits)

lemma date_less_next: "date_less a (next_date a)"
  by (auto simp: date_less_def next_date_def split: prod.splits)

lemma civil_strict_mono: "z < z' \<Longrightarrow> date_less (civil_from_days z) (civil_from_days z')"
proof (induction z' rule: int_gr_induct)
  case base
  show ?case using date_less_next by (simp add: civil_next)
next
  case (step i)
  show ?case using date_less_trans [OF step.IH date_less_next] by (simp add: civil_next)
qed

lemma days_less_iff:
  assumes "valid_date (y, m, d)" "valid_date (y', m', d')"
  shows "days_from_civil y m d < days_from_civil y' m' d' \<longleftrightarrow> date_less (y, m, d) (y', m', d')"
proof
  assume "days_from_civil y m d < days_from_civil y' m' d'"
  from civil_strict_mono [OF this] show "date_less (y, m, d) (y', m', d')" by (simp only: civil_days assms)
next
  assume l: "date_less (y, m, d) (y', m', d')"
  show "days_from_civil y m d < days_from_civil y' m' d'"
  proof (rule ccontr)
    assume "\<not> ?thesis"
    then consider "days_from_civil y m d = days_from_civil y' m' d'" | "days_from_civil y' m' d' < days_from_civil y m d"
      by linarith
    then show False
    proof cases
      case 1
      then have "(y, m, d) = (y', m', d')" using civil_days assms by metis
      with l show False by simp
    next
      case 2
      from civil_strict_mono [OF this] have "date_less (y', m', d') (y, m, d)" by (simp only: civil_days assms)
      from date_less_trans [OF l this] show False by simp
    qed
  qed
qed

subsection \<open>Properties\<close>



end
