(* ===== verification/Decimal.thy ===== *)
theory Decimal
  imports Prelude
begin

text \<open>
  Decimal numbers as the sources print them (\<^verbatim>\<open>{}\<close> and \<^verbatim>\<open>{:0width$}\<close> of
  \<^verbatim>\<open>format!\<close>) and the number a string of digits denotes.
\<close>

definition is_ascii_digit :: "byte \<Rightarrow> bool" where
  "is_ascii_digit b \<longleftrightarrow> 0x30 \<le> b \<and> b \<le> 0x39"

fun show_dec :: "nat \<Rightarrow> bytes" where
  "show_dec n = (if n < 10 then [word_of_nat (48 + n)] else show_dec (n div 10) @ [word_of_nat (48 + n mod 10)])"

declare show_dec.simps [simp del]

text \<open>\<^verbatim>\<open>format!("{code:0width$}")\<close>\<close>

definition show_padded :: "nat \<Rightarrow> nat \<Rightarrow> bytes" where
  "show_padded width n = replicate (width - length (show_dec n)) 0x30 @ show_dec n"

fun dec_value :: "nat \<Rightarrow> bytes \<Rightarrow> nat" where
  "dec_value acc [] = acc"
| "dec_value acc (b # bs) = dec_value (acc * 10 + (unat b - 48)) bs"

text \<open>\<^verbatim>\<open>str::parse\<close> of an unsigned integer below the limit: an optional plus sign and digits.\<close>

definition parse_unsigned :: "nat \<Rightarrow> bytes \<Rightarrow> nat option" where
  "parse_unsigned limit s =
     (let ds = (case s of c # r \<Rightarrow> if c = 0x2b \<and> r \<noteq> [] then r else s | [] \<Rightarrow> s)
      in if ds \<noteq> [] \<and> list_all is_ascii_digit ds \<and> dec_value 0 ds < limit then Some (dec_value 0 ds) else None)"

lemma dec_value_append: "dec_value acc (xs @ ys) = dec_value (dec_value acc xs) ys"
  by (induction xs arbitrary: acc) simp_all

lemma dec_value_zeros [simp]: "dec_value 0 (replicate k 0x30) = 0"
  by (induction k) simp_all

lemma unat_digit [simp]: "m < 10 \<Longrightarrow> unat (48 + word_of_nat m :: byte) = 48 + m"
proof -
  have "(48 + word_of_nat m :: byte) = word_of_nat (48 + m)" by simp
  then show "m < 10 \<Longrightarrow> ?thesis" by (simp only: unat_byte_of_nat) simp
qed

lemma show_dec_digits: "list_all is_ascii_digit (show_dec n) \<and> show_dec n \<noteq> []"
proof (induction n rule: show_dec.induct)
  case (1 n)
  have d: "is_ascii_digit (word_of_nat (48 + m))" if "m < 10" for m
    using that by (simp add: is_ascii_digit_def word_le_nat_alt)
  show ?case
    by (subst (1 2) show_dec.simps) (use 1 d [of n] d [of "n mod 10"] in simp)
qed

lemma show_dec_value: "dec_value 0 (show_dec n) = n"
proof (induction n rule: show_dec.induct)
  case (1 n)
  show ?case by (subst show_dec.simps) (use 1 in \<open>simp add: dec_value_append\<close>)
qed

lemma show_dec_length: "n < 10 ^ w \<Longrightarrow> 0 < w \<Longrightarrow> length (show_dec n) \<le> w"
proof (induction n arbitrary: w rule: show_dec.induct)
  case (1 n)
  show ?case
  proof (cases "n < 10")
    case True
    with 1 show ?thesis by (subst show_dec.simps) simp
  next
    case False
    obtain v where w: "w = Suc v" using 1 by (cases w) auto
    with False 1 have "n div 10 < 10 ^ v" "0 < v" by (auto intro: less_mult_imp_div_less gr0I simp: mult.commute)
    from "1.IH" [OF False this] False w show ?thesis by (subst show_dec.simps) simp
  qed
qed

lemma show_padded_spec:
  assumes "n < 10 ^ w" "0 < w"
  shows "length (show_padded w n) = w" "list_all is_ascii_digit (show_padded w n)" "dec_value 0 (show_padded w n) = n"
  using show_dec_length [OF assms] show_dec_digits [of n]
  by (auto simp: show_padded_def dec_value_append show_dec_value list_all_iff is_ascii_digit_def)

text \<open>\<^verbatim>\<open>{y:04}\<close> of a signed number counts the sign.\<close>

definition show_int_padded :: "nat \<Rightarrow> int \<Rightarrow> bytes" where
  "show_int_padded w n =
     (if n < 0 then 0x2d # show_padded (w - 1) (nat (- n)) else show_padded w (nat n))"

lemma length_show_int: "0 \<le> n \<Longrightarrow> nat n < 10 ^ w \<Longrightarrow> 0 < w \<Longrightarrow>
    length (show_int_padded w n) = w \<and> list_all is_ascii_digit (show_int_padded w n)
    \<and> dec_value 0 (show_int_padded w n) = nat n"
  using show_padded_spec by (simp add: show_int_padded_def)

end
