(* ===== verification/Ssh_Cert.thy ===== *)
theory Ssh_Cert
  imports Codec Civil Decimal "HOL-Library.Monad_Syntax"
begin

text \<open>
  \<^verbatim>\<open>crates/keyroost-ctap/src/ssh_cert.rs\<close>: the OpenSSH certificates found in
  large-blob storage, in the wire form and as the text of a \<^verbatim>\<open>-cert.pub\<close> file.  A
  \<^verbatim>\<open>Reader\<close> is the part of its buffer that has not been read; text is its UTF-8 bytes.
\<close>

definition CERT_TYPE_USER :: u32 where "CERT_TYPE_USER = 1"
definition CERT_TYPE_HOST :: u32 where "CERT_TYPE_HOST = 2"

record ssh_cert_info =
  sc_key_type :: bytes
  sc_serial :: u64
  sc_cert_type :: u32
  sc_key_id :: bytes
  sc_principals :: "bytes list"
  sc_valid_after :: u64
  sc_valid_before :: u64
  sc_critical_options :: "(bytes \<times> bytes) list"
  sc_extensions :: "bytes list"

subsection \<open>The reader\<close>

definition wire_take :: "nat \<Rightarrow> bytes \<Rightarrow> (bytes \<times> bytes) option" where
  "wire_take n r = (if n \<le> length r then Some (take n r, drop n r) else None)"

definition wire_u32 :: "bytes \<Rightarrow> (u32 \<times> bytes) option" where
  "wire_u32 r = do { (b, r) \<leftarrow> wire_take 4 r; Some (u32_from_be b, r) }"

definition wire_u64 :: "bytes \<Rightarrow> (u64 \<times> bytes) option" where
  "wire_u64 r = do { (b, r) \<leftarrow> wire_take 8 r; Some (u64_from_be b, r) }"

definition wire_bytes :: "bytes \<Rightarrow> (bytes \<times> bytes) option" where
  "wire_bytes r = do { (n, r) \<leftarrow> wire_u32 r; wire_take (unat n) r }"

definition wire_string :: "bytes \<Rightarrow> (bytes \<times> bytes) option" where
  "wire_string r = do { (b, r) \<leftarrow> wire_bytes r; s \<leftarrow> from_utf8 b; Some (s, r) }"

definition pubkey_field_count :: "bytes \<Rightarrow> nat option" where
  "pubkey_field_count key_type =
     (if key_type = ascii ''ssh-ed25519-cert-v01@openssh.com'' then Some 1
      else if key_type = ascii ''ssh-rsa-cert-v01@openssh.com'' then Some 2
      else if key_type \<in> {ascii ''ecdsa-sha2-nistp256-cert-v01@openssh.com'',
                          ascii ''ecdsa-sha2-nistp384-cert-v01@openssh.com'',
                          ascii ''ecdsa-sha2-nistp521-cert-v01@openssh.com''} then Some 2
      else if key_type = ascii ''sk-ssh-ed25519-cert-v01@openssh.com'' then Some 2
      else if key_type = ascii ''sk-ecdsa-sha2-nistp256-cert-v01@openssh.com'' then Some 3
      else None)"

fun skip_fields :: "nat \<Rightarrow> bytes \<Rightarrow> bytes option" where
  "skip_fields 0 r = Some r"
| "skip_fields (Suc n) r = do { (_, r) \<leftarrow> wire_bytes r; skip_fields n r }"

lemma wire_bytes_shorter: "wire_bytes r = Some (b, r') \<Longrightarrow> length r' + 4 \<le> length r"
  by (auto simp: wire_bytes_def wire_u32_def wire_take_def split: if_splits bind_splits)

lemma wire_string_shorter: "wire_string r = Some (s, r') \<Longrightarrow> length r' + 4 \<le> length r"
  by (auto simp: wire_string_def wire_bytes_shorter split: bind_splits)

function packed_strings :: "bytes \<Rightarrow> bytes list option" where
  "packed_strings r =
     (if r = [] then Some []
      else case wire_string r of
        None \<Rightarrow> None
      | Some (s, r) \<Rightarrow> map_option ((#) s) (packed_strings r))"
  by pat_completeness auto
termination
  by (relation "measure length") (auto dest: wire_string_shorter)

declare packed_strings.simps [simp del]

definition pair_value :: "bytes \<Rightarrow> bytes option" where
  "pair_value data =
     (if data = [] then Some []
      else do { (v, inner) \<leftarrow> wire_string data; if inner = [] then Some v else None })"

definition packed_pair :: "bytes \<Rightarrow> ((bytes \<times> bytes) \<times> bytes) option" where
  "packed_pair r =
     do { (name, r) \<leftarrow> wire_string r; (data, r) \<leftarrow> wire_bytes r; v \<leftarrow> pair_value data; Some ((name, v), r) }"

lemma packed_pair_shorter: "packed_pair r = Some (p, r') \<Longrightarrow> length r' + 8 \<le> length r"
  by (auto simp: packed_pair_def split: bind_splits dest!: wire_string_shorter wire_bytes_shorter)

function packed_pairs :: "bytes \<Rightarrow> (bytes \<times> bytes) list option" where
  "packed_pairs r =
     (if r = [] then Some []
      else case packed_pair r of
        None \<Rightarrow> None
      | Some (p, r) \<Rightarrow> map_option ((#) p) (packed_pairs r))"
  by pat_completeness auto
termination
  by (relation "measure length") (auto dest: packed_pair_shorter)

declare packed_pairs.simps [simp del]

definition parse_wire :: "bytes \<Rightarrow> ssh_cert_info option" where
  "parse_wire blob =
     do { (key_type, r) \<leftarrow> wire_string blob;
          pubkey_fields \<leftarrow> pubkey_field_count key_type;
          (_, r) \<leftarrow> wire_bytes r;
          r \<leftarrow> skip_fields pubkey_fields r;
          (serial, r) \<leftarrow> wire_u64 r;
          (cert_type, r) \<leftarrow> wire_u32 r;
          if cert_type \<noteq> CERT_TYPE_USER \<and> cert_type \<noteq> CERT_TYPE_HOST then None
          else do {
            (key_id, r) \<leftarrow> wire_string r;
            (buf, r) \<leftarrow> wire_bytes r;
            principals \<leftarrow> packed_strings buf;
            (valid_after, r) \<leftarrow> wire_u64 r;
            (valid_before, r) \<leftarrow> wire_u64 r;
            (buf, r) \<leftarrow> wire_bytes r;
            critical_options \<leftarrow> packed_pairs buf;
            (buf, r) \<leftarrow> wire_bytes r;
            extensions \<leftarrow> packed_pairs buf;
            (_, r) \<leftarrow> wire_bytes r;
            (_, r) \<leftarrow> wire_bytes r;
            (_, r) \<leftarrow> wire_bytes r;
            if r \<noteq> [] then None
            else Some \<lparr>sc_key_type = key_type, sc_serial = serial, sc_cert_type = cert_type,
              sc_key_id = key_id, sc_principals = principals, sc_valid_after = valid_after,
              sc_valid_before = valid_before, sc_critical_options = critical_options,
              sc_extensions = map fst extensions\<rparr> } }"

subsection \<open>Text\<close>

definition format_timestamp :: "u64 \<Rightarrow> bytes" where
  "format_timestamp secs =
     (let days = uint secs div 86400; rem = unat secs mod 86400; (y, m, d) = civil_from_days days
      in show_int_padded 4 y @ ascii ''-'' @ show_int_padded 2 m @ ascii ''-'' @ show_int_padded 2 d @ ascii '' ''
         @ show_padded 2 (rem div 3600) @ ascii '':'' @ show_padded 2 (rem mod 3600 div 60) @ ascii '':''
         @ show_padded 2 (rem mod 60) @ ascii '' UTC'')"

definition format_validity :: "u64 \<Rightarrow> u64 \<Rightarrow> bytes" where
  "format_validity valid_after valid_before =
     (if valid_after = 0 \<and> valid_before = - 1 then ascii ''always valid''
      else (if valid_after = 0 then ascii ''beginning of time'' else format_timestamp valid_after)
        @ ascii '' to '' @ (if valid_before = - 1 then ascii ''forever'' else format_timestamp valid_before))"

definition ends_with :: "bytes \<Rightarrow> bytes \<Rightarrow> bool" where
  "ends_with suffix s \<longleftrightarrow> length suffix \<le> length s \<and> drop (length s - length suffix) s = suffix"

definition strip_suffix :: "bytes \<Rightarrow> bytes \<Rightarrow> bytes option" where
  "strip_suffix suffix s =
     (if ends_with suffix s then Some (take (length s - length suffix) s) else None)"

definition parse_text :: "bytes \<Rightarrow> (ssh_cert_info \<times> bytes) option" where
  "parse_text s =
     (case split_ascii_whitespace s of
        declared # body # _ \<Rightarrow>
          if \<not> ends_with (ascii ''-cert-v01@openssh.com'') declared then None
          else (case base64_decode body of
            Err _ \<Rightarrow> None
          | Ok wire \<Rightarrow> do { info \<leftarrow> parse_wire wire;
                            if sc_key_type info \<noteq> declared then None else Some (info, wire) })
      | _ \<Rightarrow> None)"

definition to_cert_pub :: "bytes \<Rightarrow> bytes option" where
  "to_cert_pub wire =
     do { info \<leftarrow> parse_wire wire; Some (sc_key_type info @ [0x20] @ base64_encode wire @ [0x0a]) }"

definition plain_cert_line :: "bytes \<Rightarrow> bytes option" where
  "plain_cert_line text =
     (let line = (case strip_suffix [0x0d, 0x0a] text of Some l \<Rightarrow> l
                  | None \<Rightarrow> (case strip_suffix [0x0a] text of Some l \<Rightarrow> l | None \<Rightarrow> text))
      in if list_all (\<lambda>b. 0x20 \<le> b \<and> b < 0x7f) line then Some line else None)"

record stored_cert =
  st_info :: ssh_cert_info
  st_wire :: bytes
  st_cert_pub :: bytes

definition from_stored :: "bytes \<Rightarrow> stored_cert option" where
  "from_stored bytes =
     (case parse_wire bytes of
        Some info \<Rightarrow>
          do { pub \<leftarrow> to_cert_pub bytes;
               Some \<lparr>st_info = info, st_wire = bytes, st_cert_pub = pub\<rparr> }
      | None \<Rightarrow>
          do { text \<leftarrow> from_utf8 bytes;
               (info, wire) \<leftarrow> parse_text (str_trim text);
               pub \<leftarrow> (case plain_cert_line text of Some line \<Rightarrow> Some (line @ [0x0a]) | None \<Rightarrow> to_cert_pub wire);
               Some \<lparr>st_info = info, st_wire = wire, st_cert_pub = pub\<rparr> })"

definition safe_char :: "nat \<Rightarrow> bool" where
  "safe_char c \<longleftrightarrow> 0x30 \<le> c \<and> c \<le> 0x39 \<or> 0x41 \<le> c \<and> c \<le> 0x5a \<or> 0x61 \<le> c \<and> c \<le> 0x7a
     \<or> c = 0x2e \<or> c = 0x5f \<or> c = 0x2d"

definition default_cert_filename :: "bytes \<Rightarrow> bytes" where
  "default_cert_filename rp_id =
     map (\<lambda>c. if safe_char c then word_of_nat c else 0x5f) (chars rp_id) @ ascii ''-cert.pub''"


subsection \<open>What the reader accepts\<close>

definition wire_str :: "bytes \<Rightarrow> bytes" where
  "wire_str s = u32_to_be (word_of_nat (length s)) @ s"

definition wire_small :: "bytes \<Rightarrow> bool" where
  "wire_small s \<longleftrightarrow> length s < 2 ^ 32"

definition wire_text :: "bytes \<Rightarrow> bool" where
  "wire_text s \<longleftrightarrow> wire_small s \<and> utf8_valid s"

named_theorems wire_iffs

lemma wire_take_iff: "wire_take n r = Some (b, r') \<longleftrightarrow> r = b @ r' \<and> length b = n"
  by (auto simp: wire_take_def)

lemma wire_u32_iff [wire_iffs]: "wire_u32 r = Some (w, r') \<longleftrightarrow> r = u32_to_be w @ r'"
proof -
  have "wire_u32 r = Some (w, r') \<longleftrightarrow> (\<exists>b. r = b @ r' \<and> length b = 4 \<and> u32_from_be b = w)"
    by (auto simp: wire_u32_def wire_take_iff bind_eq_Some_conv)
  then show ?thesis by (auto simp: u32_to_from_be u32_from_to_be)
qed

lemma u64_to_from_be: "length bs = 8 \<Longrightarrow> u64_to_be (u64_from_be bs) = bs"
  using be_bytes_from_be [of bs] from_be_less [of bs] by (simp add: u64_to_be_def u64_from_be_def unsigned_of_nat take_bit_eq_mod)

lemma wire_u64_iff [wire_iffs]: "wire_u64 r = Some (w, r') \<longleftrightarrow> r = u64_to_be w @ r'"
proof -
  have "wire_u64 r = Some (w, r') \<longleftrightarrow> (\<exists>b. r = b @ r' \<and> length b = 8 \<and> u64_from_be b = w)"
    by (auto simp: wire_u64_def wire_take_iff bind_eq_Some_conv)
  then show ?thesis by (auto simp: u64_to_from_be u64_from_to_be)
qed

lemma wire_bytes_iff [wire_iffs]: "wire_bytes r = Some (b, r') \<longleftrightarrow> r = wire_str b @ r' \<and> wire_small b"
proof -
  have "wire_bytes r = Some (b, r') \<longleftrightarrow> (\<exists>n. r = u32_to_be n @ b @ r' \<and> length b = unat n)"
    by (auto simp: wire_bytes_def wire_u32_iff wire_take_iff bind_eq_Some_conv)
  moreover have "length b = unat (n :: u32) \<longleftrightarrow> wire_small b \<and> n = word_of_nat (length b)" for n
    using unsigned_less [of n] by (auto simp: wire_small_def unsigned_of_nat take_bit_eq_mod)
  ultimately show ?thesis by (auto simp: wire_str_def)
qed

lemma wire_string_iff [wire_iffs]: "wire_string r = Some (s, r') \<longleftrightarrow> r = wire_str s @ r' \<and> wire_text s"
  by (auto simp: wire_string_def wire_bytes_iff bind_eq_Some_conv from_utf8_def wire_text_def)

lemma length_wire_str [simp]: "length (wire_str s) = 4 + length s" "wire_str s \<noteq> []" "[] \<noteq> wire_str s"
  by (auto simp: wire_str_def length_0_conv [symmetric] simp del: length_0_conv)

lemma ex_list_Suc: "(\<exists>xs. length xs = Suc n \<and> P xs) \<longleftrightarrow> (\<exists>x xs. length xs = n \<and> P (x # xs))"
  by (auto simp: length_Suc_conv)

lemma skip_fields_iff [wire_iffs]:
  "skip_fields n r = Some r' \<longleftrightarrow>
     (\<exists>fs. length fs = n \<and> r = concat (map wire_str fs) @ r' \<and> list_all wire_small fs)"
proof (induction n arbitrary: r)
  case (Suc n)
  show ?case by (auto simp: ex_list_Suc bind_eq_Some_conv wire_bytes_iff Suc)
qed auto

text \<open>A loop that reads items until its buffer is empty accepts the concatenations of items.\<close>

lemma packed_loop_iff:
  assumes unfold: "\<And>r. L r = (if r = [] then Some [] else case I r of None \<Rightarrow> None
      | Some (x, r') \<Rightarrow> map_option ((#) x) (L r'))"
    and item: "\<And>r x r'. I r = Some (x, r') \<longleftrightarrow> (\<exists>d. r = d @ r' \<and> W x d)"
    and nonempty: "\<And>x d. W x d \<Longrightarrow> d \<noteq> []"
  shows "L r = Some xs \<longleftrightarrow> (\<exists>ds. r = concat ds \<and> list_all2 W xs ds)"
proof (induction "length r" arbitrary: r xs rule: less_induct)
  case less
  show ?case
  proof (cases xs)
    case Nil
    have "L r = Some [] \<longleftrightarrow> r = []" by (subst unfold) (auto split: option.splits)
    with Nil show ?thesis by simp
  next
    case (Cons x xs')
    have "L r = Some (x # xs') \<longleftrightarrow> (\<exists>r'. I r = Some (x, r') \<and> L r' = Some xs') \<and> r \<noteq> []"
      by (subst unfold) (auto split: option.splits)
    also have "\<dots> \<longleftrightarrow> (\<exists>d r'. r = d @ r' \<and> W x d \<and> L r' = Some xs')"
      using nonempty by (auto simp: item)
    also have "\<dots> \<longleftrightarrow> (\<exists>d r'. r = d @ r' \<and> W x d \<and> (\<exists>ds. r' = concat ds \<and> list_all2 W xs' ds))"
    proof -
      have "L r' = Some xs' \<longleftrightarrow> (\<exists>ds. r' = concat ds \<and> list_all2 W xs' ds)" if "r = d @ r'" "W x d" for d r'
        using that nonempty [OF that(2)] by (intro less) simp
      then show ?thesis by blast
    qed
    also have "\<dots> \<longleftrightarrow> (\<exists>ds. r = concat ds \<and> list_all2 W (x # xs') ds)"
      by (simp add: list_all2_Cons1) (metis concat.simps(2))
    finally show ?thesis using Cons by simp
  qed
qed

definition string_wire :: "bytes \<Rightarrow> bytes \<Rightarrow> bool" where
  "string_wire s d \<longleftrightarrow> d = wire_str s \<and> wire_text s"

definition pair_wire :: "bytes \<times> bytes \<Rightarrow> bytes \<Rightarrow> bool" where
  "pair_wire p d \<longleftrightarrow> (\<exists>data. d = wire_str (fst p) @ wire_str data \<and> wire_text (fst p) \<and> wire_small data
     \<and> (data = [] \<and> snd p = [] \<or> data = wire_str (snd p) \<and> wire_text (snd p)))"

lemma packed_strings_iff [wire_iffs]:
  "packed_strings r = Some ss \<longleftrightarrow> (\<exists>ds. r = concat ds \<and> list_all2 string_wire ss ds)"
proof (rule packed_loop_iff [where I = wire_string])
  fix r show "packed_strings r = (if r = [] then Some [] else case wire_string r of None \<Rightarrow> None
      | Some (s, r) \<Rightarrow> map_option ((#) s) (packed_strings r))" by (rule packed_strings.simps)
qed (auto simp: wire_string_iff string_wire_def)

lemma pair_value_iff:
  "pair_value data = Some v \<longleftrightarrow> data = [] \<and> v = [] \<or> data = wire_str v \<and> wire_text v"
  by (auto simp: pair_value_def bind_eq_Some_conv wire_string_iff split: if_splits)

lemma packed_pair_iff: "packed_pair r = Some (p, r') \<longleftrightarrow> (\<exists>d. r = d @ r' \<and> pair_wire p d)"
proof -
  obtain n v where p: "p = (n, v)" by (cases p)
  have "packed_pair r = Some (p, r') \<longleftrightarrow>
      (\<exists>q data. wire_string r = Some (n, q) \<and> wire_bytes q = Some (data, r') \<and> pair_value data = Some v)"
    unfolding packed_pair_def bind_eq_Some_conv p by (simp add: bind_eq_Some_conv, fast)
  also have "\<dots> \<longleftrightarrow> (\<exists>data. r = wire_str n @ wire_str data @ r' \<and> wire_text n \<and> wire_small data \<and> pair_value data = Some v)"
    by (simp add: wire_iffs) fast
  finally show ?thesis by (auto simp: pair_wire_def p pair_value_iff)
qed

lemma packed_pairs_iff [wire_iffs]:
  "packed_pairs r = Some ps \<longleftrightarrow> (\<exists>ds. r = concat ds \<and> list_all2 pair_wire ps ds)"
proof (rule packed_loop_iff [where I = packed_pair])
  fix r show "packed_pairs r = (if r = [] then Some [] else case packed_pair r of None \<Rightarrow> None
      | Some (p, r) \<Rightarrow> map_option ((#) p) (packed_pairs r))" by (rule packed_pairs.simps)
qed (auto simp: packed_pair_iff pair_wire_def)


text \<open>The layout of PROTOCOL.certkeys: the fields of a certificate in order, and nothing after
  them.\<close>

definition cert_layout :: "ssh_cert_info \<Rightarrow> bytes \<Rightarrow> bool" where
  "cert_layout info blob \<longleftrightarrow>
     (\<exists>nonce key principals options pairs extensions reserved ca_key signature.
        blob = wire_str (sc_key_type info) @ wire_str nonce @ concat (map wire_str key)
          @ u64_to_be (sc_serial info) @ u32_to_be (sc_cert_type info) @ wire_str (sc_key_id info)
          @ wire_str (concat principals) @ u64_to_be (sc_valid_after info) @ u64_to_be (sc_valid_before info)
          @ wire_str (concat options) @ wire_str (concat extensions)
          @ wire_str reserved @ wire_str ca_key @ wire_str signature
        \<and> pubkey_field_count (sc_key_type info) = Some (length key)
        \<and> sc_cert_type info \<in> {CERT_TYPE_USER, CERT_TYPE_HOST}
        \<and> list_all wire_text [sc_key_type info, sc_key_id info]
        \<and> list_all wire_small (key @ [nonce, concat principals, concat options, concat extensions,
            reserved, ca_key, signature])
        \<and> list_all2 string_wire (sc_principals info) principals
        \<and> list_all2 pair_wire (sc_critical_options info) options
        \<and> list_all2 pair_wire pairs extensions \<and> sc_extensions info = map fst pairs)"

lemma guard_eq_Some: "(if b then None else r) = Some x \<longleftrightarrow> \<not> b \<and> r = Some x"
  by simp

lemma parse_wire_layout: "parse_wire blob = Some info \<Longrightarrow> cert_layout info blob"
  unfolding parse_wire_def bind_eq_Some_conv wire_iffs
  apply (simp add: bind_eq_Some_conv wire_iffs guard_eq_Some del: not_None_eq)
  apply (hypsubst | (elim exE conjE))+
  apply (simp only: cert_layout_def ssh_cert_info.simps)
  apply (rule exI)+
  apply (intro conjI)
  apply (rule refl)
  apply (auto simp: wire_text_def)
  done

lemma wire_forward:
  "wire_text s \<Longrightarrow> wire_string (wire_str s @ r) = Some (s, r)"
  "wire_small s \<Longrightarrow> wire_bytes (wire_str s @ r) = Some (s, r)"
  "wire_small s \<Longrightarrow> wire_bytes (wire_str s) = Some (s, [])"
  "list_all wire_small fs \<Longrightarrow> skip_fields (length fs) (concat (map wire_str fs) @ r) = Some r"
  "wire_u32 (u32_to_be w @ r) = Some (w, r)" "wire_u64 (u64_to_be x @ r) = Some (x, r)"
  "list_all2 string_wire ss ds \<Longrightarrow> packed_strings (concat ds) = Some ss"
  "list_all2 pair_wire ps ds \<Longrightarrow> packed_pairs (concat ds) = Some ps"
  by (auto simp: wire_iffs)

lemma layout_parse_wire:
  assumes "cert_layout info blob"
  shows "parse_wire blob = Some info"
proof -
  from assms obtain nonce key principals options pairs extensions reserved ca_key signature where
    b: "blob = wire_str (sc_key_type info) @ wire_str nonce @ concat (map wire_str key)
          @ u64_to_be (sc_serial info) @ u32_to_be (sc_cert_type info) @ wire_str (sc_key_id info)
          @ wire_str (concat principals) @ u64_to_be (sc_valid_after info) @ u64_to_be (sc_valid_before info)
          @ wire_str (concat options) @ wire_str (concat extensions)
          @ wire_str reserved @ wire_str ca_key @ wire_str signature"
    and k: "pubkey_field_count (sc_key_type info) = Some (length key)"
      "sc_cert_type info \<in> {CERT_TYPE_USER, CERT_TYPE_HOST}"
      "list_all wire_text [sc_key_type info, sc_key_id info]"
      "list_all wire_small (key @ [nonce, concat principals, concat options, concat extensions, reserved, ca_key, signature])"
    and l: "list_all2 string_wire (sc_principals info) principals"
      "list_all2 pair_wire (sc_critical_options info) options"
      "list_all2 pair_wire pairs extensions" "sc_extensions info = map fst pairs"
    unfolding cert_layout_def by blast
  have "list_all wire_small key" "wire_small nonce" "wire_small (concat principals)" "wire_small (concat options)"
    "wire_small (concat extensions)" "wire_small reserved" "wire_small ca_key" "wire_small signature"
    "wire_text (sc_key_type info)" "wire_text (sc_key_id info)"
    using k(3,4) by auto
  with k(1,2) l show ?thesis unfolding b parse_wire_def by (auto simp: wire_forward)
qed

subsection \<open>Exported text\<close>

definition ascii_ws :: "byte set" where
  "ascii_ws = {0x20, 0x09, 0x0a, 0x0c, 0x0d}"

definition printable :: "byte \<Rightarrow> bool" where
  "printable b \<longleftrightarrow> 0x20 \<le> b \<and> b < 0x7f"

lemma split_ws_nonempty: "split_ws_loop s \<noteq> []"
  by (induction s) (auto split: list.splits)

lemma split_ws_at: "c \<in> ascii_ws \<Longrightarrow> split_ws_loop (s @ c # r) = split_ws_loop s @ split_ws_loop r"
proof (induction s)
  case (Cons b s)
  then show ?case using split_ws_nonempty [of s] by (auto simp: neq_Nil_conv)
qed (auto simp: ascii_ws_def)

lemma split_ascii_whitespace_at:
  "c \<in> ascii_ws \<Longrightarrow> split_ascii_whitespace (s @ c # r) = split_ascii_whitespace s @ split_ascii_whitespace r"
  by (simp add: split_ascii_whitespace_def split_ws_at)

lemma split_ascii_whitespace_Nil [simp]: "split_ascii_whitespace [] = []"
  by (simp add: split_ascii_whitespace_def)

lemma split_ascii_whitespace_word: "set s \<inter> ascii_ws = {} \<Longrightarrow> s \<noteq> [] \<Longrightarrow> split_ascii_whitespace s = [s]"
  by (simp add: split_ascii_whitespace_def ascii_ws_def split_ws_loop_none)

lemma split_ascii_whitespace_left: "set a \<subseteq> ascii_ws \<Longrightarrow> split_ascii_whitespace (a @ s) = split_ascii_whitespace s"
  by (induction a) (use split_ascii_whitespace_at [of _ "[]"] in auto)

lemma split_ascii_whitespace_right: "set a \<subseteq> ascii_ws \<Longrightarrow> split_ascii_whitespace (s @ a) = split_ascii_whitespace s"
proof (induction a rule: rev_induct)
  case (snoc x xs)
  then show ?case using split_ascii_whitespace_at [of x "s @ xs" "[]"] by simp
qed simp

lemma dropWhile_parts: "\<exists>a. s = a @ dropWhile P s \<and> list_all P a"
  by (intro exI [of _ "takeWhile P s"]) (auto simp: list_all_iff dest: set_takeWhileD)

lemma str_trim_parts:
  assumes "list_all (\<lambda>b. b < 0x80) s"
  shows "\<exists>a z. s = a @ str_trim s @ z \<and> list_all (\<lambda>b. is_whitespace (unat b)) (a @ z)"
proof -
  let ?w = "\<lambda>b :: byte. is_whitespace (unat b)"
  let ?d = "dropWhile ?w s"
  have "str_trim s = rev (dropWhile ?w (rev ?d))"
    by (simp add: str_trim_def utf8_split_ascii [OF assms] dropWhile_map comp_def rev_map Let_def)
  moreover obtain z where "rev ?d = z @ dropWhile ?w (rev ?d)" and z: "list_all ?w z"
    using dropWhile_parts [of "rev ?d" ?w] by blast
  then have "?d = rev (dropWhile ?w (rev ?d)) @ rev z" by (metis rev_append rev_rev_ident)
  ultimately have d: "?d = str_trim s @ rev z" by (simp only:)
  obtain a where a: "s = a @ ?d" "list_all ?w a" using dropWhile_parts [of s ?w] by blast
  from a(1) have "s = a @ str_trim s @ rev z" unfolding d .
  moreover have "list_all ?w (a @ rev z)" using a(2) z by (auto simp: list_all_iff)
  ultimately show ?thesis by blast
qed

lemma split_trimmed:
  assumes "list_all (\<lambda>b. printable b \<or> b = 0x0a \<or> b = 0x0d) s"
  shows "split_ascii_whitespace (str_trim s) = split_ascii_whitespace s"
proof -
  have "list_all (\<lambda>b. b < 0x80) s"
    using assms by (auto simp: list_all_iff printable_def word_less_nat_alt)
  from str_trim_parts [OF this] obtain a z where
    s: "s = a @ str_trim s @ z" and w: "list_all (\<lambda>b. is_whitespace (unat b)) (a @ z)" by blast
  have "b \<in> ascii_ws" if "b \<in> set (a @ z)" for b
  proof -
    have "b \<in> set s" using that by (subst s) auto
    then have "0x20 \<le> unat b \<and> unat b < 0x7f \<or> unat b = 0x0a \<or> unat b = 0x0d"
      using assms by (auto simp: list_all_iff printable_def word_less_nat_alt word_le_nat_alt)
    moreover have "is_whitespace (unat b)" using w that by (auto simp: list_all_iff)
    ultimately have "unat b \<in> {0x20, 0x0a, 0x0d}" by (auto simp: is_whitespace_def)
    then show ?thesis by (auto simp: ascii_ws_def word_unat_eq_iff)
  qed
  then have "set a \<subseteq> ascii_ws" "set z \<subseteq> ascii_ws" by auto
  then have "split_ascii_whitespace (a @ str_trim s @ z) = split_ascii_whitespace (str_trim s)"
    by (simp add: split_ascii_whitespace_left split_ascii_whitespace_right)
  with s show ?thesis by simp
qed

definition key_type_ok :: "bytes \<Rightarrow> bool" where
  "key_type_ok kt \<longleftrightarrow> list_all printable kt \<and> list_all (\<lambda>b. b \<notin> ascii_ws) kt \<and> kt \<noteq> []
     \<and> ends_with (ascii ''-cert-v01@openssh.com'') kt"

lemma key_types_ok:
  "key_type_ok (ascii ''ssh-ed25519-cert-v01@openssh.com'')"
  "key_type_ok (ascii ''ssh-rsa-cert-v01@openssh.com'')"
  "key_type_ok (ascii ''ecdsa-sha2-nistp256-cert-v01@openssh.com'')"
  "key_type_ok (ascii ''ecdsa-sha2-nistp384-cert-v01@openssh.com'')"
  "key_type_ok (ascii ''ecdsa-sha2-nistp521-cert-v01@openssh.com'')"
  "key_type_ok (ascii ''sk-ssh-ed25519-cert-v01@openssh.com'')"
  "key_type_ok (ascii ''sk-ecdsa-sha2-nistp256-cert-v01@openssh.com'')"
  unfolding key_type_ok_def ascii_def printable_def ascii_ws_def ends_with_def
  by (simp_all del: One_nat_def)

lemma key_type_text: "pubkey_field_count kt = Some n \<Longrightarrow> key_type_ok kt"
  unfolding pubkey_field_count_def using key_types_ok by (auto split: if_splits simp del: ascii_def)

lemma words_of_line:
  assumes "set kt \<inter> ascii_ws = {}" "kt \<noteq> []" "set b \<inter> ascii_ws = {}" "b \<noteq> []"
  shows "split_ascii_whitespace (kt @ [0x20] @ b @ [0x0a]) = [kt, b]"
proof -
  have "0x20 \<in> ascii_ws" "0x0a \<in> ascii_ws" by (simp_all add: ascii_ws_def)
  with assms show ?thesis
    using split_ascii_whitespace_at [of "0x20" kt "b @ [0x0a]"] split_ascii_whitespace_at [of "0x0a" b "[]"]
    by (simp add: split_ascii_whitespace_word)
qed

lemma cert_pub_reads:
  assumes "parse_wire wire = Some info" "to_cert_pub wire = Some pub"
  shows "parse_text pub = Some (info, wire)"
    "\<exists>line. pub = line @ [0x0a] \<and> list_all printable line"
proof -
  let ?kt = "sc_key_type info" and ?b = "base64_encode wire"
  have pub: "pub = ?kt @ [0x20] @ ?b @ [0x0a]" using assms by (simp add: to_cert_pub_def)
  have l: "cert_layout info wire" by (rule parse_wire_layout [OF assms(1)])
  then have "pubkey_field_count ?kt \<noteq> None" "wire \<noteq> []" by (auto simp: cert_layout_def)
  then have kt: "key_type_ok ?kt" and w: "wire \<noteq> []" using key_type_text by blast+
  have b: "?b \<noteq> []" using w base64_decode_encode [of wire] base64_decode_encode [of "[]"]
    by (metis base64_encode_simps(1) result.inject(1))
  have g: "list_all (\<lambda>b. 0x20 < b \<and> b < 0x7f) ?b" by (rule base64_encode_graphic)
  have "c \<notin> ascii_ws \<and> printable c" if "c \<in> set ?b" for c
    using g that by (auto simp: list_all_iff ascii_ws_def printable_def)
  with kt have ws: "set ?kt \<inter> ascii_ws = {}" "?kt \<noteq> []" "set ?b \<inter> ascii_ws = {}"
    and p: "list_all printable (?kt @ [0x20] @ ?b)"
    by (auto simp: key_type_ok_def list_all_iff, simp add: printable_def)
  show "parse_text pub = Some (info, wire)"
    using kt assms(1) words_of_line [OF ws b] unfolding pub
    by (simp add: parse_text_def base64_decode_encode key_type_ok_def)
  show "\<exists>line. pub = line @ [0x0a] \<and> list_all printable line"
    using p unfolding pub by (intro exI [of _ "?kt @ [0x20] @ ?b"]) simp
qed

lemma strip_suffix_Some: "strip_suffix z s = Some l \<Longrightarrow> s = l @ z"
  by (auto simp: strip_suffix_def ends_with_def split: if_splits) (metis append_take_drop_id)

lemma plain_line:
  assumes "plain_cert_line text = Some line"
  shows "list_all printable line" "split_ascii_whitespace (str_trim text) = split_ascii_whitespace (line @ [0x0a])"
proof -
  show l: "list_all printable line"
    using assms by (auto simp: plain_cert_line_def Let_def printable_def list_all_iff split: if_splits)
  have "text = line @ [0x0d, 0x0a] \<or> text = line @ [0x0a] \<or> text = line"
    using assms by (auto simp: plain_cert_line_def Let_def dest!: strip_suffix_Some split: if_splits option.splits)
  then obtain z where z: "text = line @ z" "set z \<subseteq> {0x0d, 0x0a}" by auto
  then have "list_all (\<lambda>b. printable b \<or> b = 0x0a \<or> b = 0x0d) text"
    using l by (auto simp: list_all_iff)
  moreover have "set z \<subseteq> ascii_ws" "set [0x0a] \<subseteq> ascii_ws" using z(2) by (auto simp: ascii_ws_def)
  ultimately show "split_ascii_whitespace (str_trim text) = split_ascii_whitespace (line @ [0x0a])"
    unfolding z(1) by (simp only: split_trimmed split_ascii_whitespace_right)
qed

lemma parse_text_words: "split_ascii_whitespace s = split_ascii_whitespace t \<Longrightarrow> parse_text s = parse_text t"
  by (simp add: parse_text_def)

lemma parse_text_wire: "parse_text s = Some (info, wire) \<Longrightarrow> parse_wire wire = Some info"
  by (auto simp: parse_text_def bind_eq_Some_conv guard_eq_Some split: list.splits result.splits if_splits)


lemma layout_type: "cert_layout info blob \<Longrightarrow> pubkey_field_count (sc_key_type info) \<noteq> None"
  by (auto simp: cert_layout_def)

lemma filename_chars:
  "list_all (\<lambda>b. safe_char (unat b)) (default_cert_filename rp_id)"
proof -
  have "safe_char c \<Longrightarrow> c < 256" for c by (auto simp: safe_char_def)
  then have "safe_char c \<Longrightarrow> safe_char (unat (word_of_nat c :: byte))" for c by simp
  moreover have "safe_char 95" by (simp add: safe_char_def)
  moreover have "list_all (\<lambda>b. safe_char (unat b)) (ascii ''-cert.pub'')"
    by (simp add: ascii_def safe_char_def)
  ultimately show ?thesis by (auto simp: default_cert_filename_def list_all_iff)
qed

text \<open>\<^verbatim>\<open>parse_wire\<close> recognizes exactly the certificates of PROTOCOL.certkeys: it
  returns fields if and only if the bytes are those fields in the wire layout of a supported type, with
  nothing missing and nothing after them, so no other large-blob entry is taken for a
  certificate and every such certificate is recognized with the values it carries.\<close>

theorem ssh_cert_layout: "parse_wire blob = Some info \<longleftrightarrow> cert_layout info blob"
  using parse_wire_layout layout_parse_wire by blast

text \<open>C7: whatever bytes a key stores, what is written back out of a recognized certificate is one
  line of printable ASCII and a newline, and that line reads back as the same certificate, field for field
  and byte for byte; the file name proposed for it is made of letters, digits, dots, underscores and dashes
  alone and ends in \<^verbatim>\<open>-cert.pub\<close>, so it cannot leave its directory.\<close>

theorem stored_cert_exports:
  assumes "from_stored data = Some st"
  shows "parse_wire (st_wire st) = Some (st_info st)
    \<and> parse_text (st_cert_pub st) = Some (st_info st, st_wire st)
    \<and> (\<exists>line. st_cert_pub st = line @ [0x0a] \<and> list_all printable line)
    \<and> list_all (\<lambda>b. safe_char (unat b)) (default_cert_filename rp_id)
    \<and> ends_with (ascii ''-cert.pub'') (default_cert_filename rp_id)"
proof -
  have n: "ends_with (ascii ''-cert.pub'') (default_cert_filename rp_id)"
    by (simp add: default_cert_filename_def ends_with_def)
  have "parse_wire (st_wire st) = Some (st_info st)
    \<and> parse_text (st_cert_pub st) = Some (st_info st, st_wire st)
    \<and> (\<exists>line. st_cert_pub st = line @ [0x0a] \<and> list_all printable line)"
  proof (cases "parse_wire data")
    case (Some info)
    with assms obtain pub where "to_cert_pub data = Some pub"
      "st = \<lparr>st_info = info, st_wire = data, st_cert_pub = pub\<rparr>"
      by (auto simp: from_stored_def bind_eq_Some_conv)
    with cert_pub_reads [OF Some] Some show ?thesis by simp
  next
    case None
    with assms obtain info wire pub where t: "parse_text (str_trim data) = Some (info, wire)"
      and pub: "(case plain_cert_line data of Some line \<Rightarrow> Some (line @ [0x0a]) | None \<Rightarrow> to_cert_pub wire) = Some pub"
      and st: "st = \<lparr>st_info = info, st_wire = wire, st_cert_pub = pub\<rparr>"
      by (auto simp: from_stored_def bind_eq_Some_conv from_utf8_def split: if_splits)
    note w = parse_text_wire [OF t]
    show ?thesis
    proof (cases "plain_cert_line data")
      case None
      with pub have "to_cert_pub wire = Some pub" by simp
      with cert_pub_reads [OF w] w st show ?thesis by simp
    next
      case (Some line)
      note pl = plain_line [OF this]
      have "parse_text (line @ [0x0a]) = Some (info, wire)" using parse_text_words [OF pl(2)] t by simp
      with Some pub pl(1) w st show ?thesis by auto
    qed
  qed
  with n filename_chars show ?thesis by blast
qed


definition demo_cert :: bytes where
  "demo_cert = wire_str (ascii ''ssh-ed25519-cert-v01@openssh.com'') @ wire_str [7] @ wire_str [9]
     @ u64_to_be 42 @ u32_to_be 1 @ wire_str (ascii ''id'') @ wire_str (concat [wire_str (ascii ''alice'')])
     @ u64_to_be 0 @ u64_to_be (- 1) @ wire_str (concat []) @ wire_str (concat [])
     @ wire_str [] @ wire_str [] @ wire_str []"

lemma demo_cert_parses: "parse_wire demo_cert \<noteq> None"
proof -
  let ?kt = "ascii ''ssh-ed25519-cert-v01@openssh.com''"
  have ws: "wire_text ?kt" "wire_text (ascii ''id'')" "wire_text (ascii ''alice'')"
    by (auto simp: wire_text_def wire_small_def ascii_def intro!: utf8_valid_ascii)
  have "cert_layout \<lparr>sc_key_type = ?kt, sc_serial = 42, sc_cert_type = 1, sc_key_id = ascii ''id'',
      sc_principals = [ascii ''alice''], sc_valid_after = 0, sc_valid_before = - 1, sc_critical_options = [],
      sc_extensions = []\<rparr> demo_cert"
    unfolding cert_layout_def demo_cert_def
    by (rule exI [of _ "[7]"], rule exI [of _ "[[9]]"], rule exI [of _ "[wire_str (ascii ''alice'')]"],
        rule exI [of _ "[]"], rule exI [of _ "[]"], rule exI [of _ "[]"], rule exI [of _ "[]"],
        rule exI [of _ "[]"], rule exI [of _ "[]"])
       (simp add: ws string_wire_def wire_small_def pubkey_field_count_def CERT_TYPE_USER_def)
  then show ?thesis by (simp add: layout_parse_wire del: not_None_eq)
qed

theorem stored_cert_exports_witness:
  "\<exists>st. from_stored demo_cert = Some st \<and> parse_text (st_cert_pub st) = Some (st_info st, demo_cert)"
proof -
  from demo_cert_parses obtain info where p: "parse_wire demo_cert = Some info" by auto
  then obtain st where st: "from_stored demo_cert = Some st" "st_wire st = demo_cert"
    by (auto simp: from_stored_def to_cert_pub_def)
  with stored_cert_exports [OF st(1), of "[]"] show ?thesis by auto
qed

end
