(* ===== verification/Device_Label.thy ===== *)
theory Device_Label
  imports Large_Blobs Ssh_Cert
begin

text \<open>
  \<^verbatim>\<open>crates/keyroost-ctap/src/device_label.rs\<close>, a key's own name in its large-blob
  array, and the parts of \<^verbatim>\<open>large_blobs.rs\<close> that look into entries: classification,
  the name operations of an array and the search for a credential's certificate.  AES-256-GCM and the
  DEFLATE decoder are fields of \<open>ctap_crypto\<close>.
\<close>

definition LABEL_KEY_INFO :: bytes where "LABEL_KEY_INFO = ascii ''FIDO2 large-blob device label v1''"
definition LABEL_FORMAT_VERSION :: u64 where "LABEL_FORMAT_VERSION = 1"
definition MAX_LABEL_CHARS :: nat where "MAX_LABEL_CHARS = 64"
definition P_VERSION :: u64 where "P_VERSION = 1"
definition P_LABEL :: u64 where "P_LABEL = 2"
definition P_WRITER :: u64 where "P_WRITER = 3"
definition MAX_BLOB_PLAINTEXT :: nat where "MAX_BLOB_PLAINTEXT = 1024 * 1024"

lemmas label_defs = LABEL_FORMAT_VERSION_def P_VERSION_def P_LABEL_def P_WRITER_def

record device_label =
  dl_label :: bytes
  dl_writer :: "bytes option"

datatype label_error =
    InvalidLabel
  | LabelUnsupported
  | NoPin
  | TooLarge nat nat
  | LabelChanged
  | LabelCtap ctap_error

subsection \<open>Decryption and decompression of entries\<close>

definition blob_aad :: "u64 \<Rightarrow> bytes" where
  "blob_aad orig_size = ascii ''blob'' @ rev (u64_to_be orig_size)"

definition gcm_decrypt :: "'k ctap_crypto \<Rightarrow> bytes \<Rightarrow> bytes \<Rightarrow> bytes \<Rightarrow> u64 \<Rightarrow> bytes option" where
  "gcm_decrypt c key nonce ciphertext orig_size =
     (if length nonce \<noteq> 12 then None else cr_gcm_decrypt c key nonce ciphertext (blob_aad orig_size))"

definition gcm_encrypt :: "'k ctap_crypto \<Rightarrow> bytes \<Rightarrow> bytes \<Rightarrow> bytes \<Rightarrow> u64 \<Rightarrow> bytes" where
  "gcm_encrypt c key nonce plain orig_size = cr_gcm_encrypt c key nonce plain (blob_aad orig_size)"

definition inflate_raw :: "'k ctap_crypto \<Rightarrow> bytes \<Rightarrow> u64 \<Rightarrow> bytes option" where
  "inflate_raw c compressed orig_size =
     (let limit = unat orig_size in
      if MAX_BLOB_PLAINTEXT < limit then None
      else case cr_inflate c compressed limit of
             None \<Rightarrow> None
           | Some out \<Rightarrow> if length out = limit then Some out else None)"

definition inflate_blob :: "'k ctap_crypto \<Rightarrow> bytes \<Rightarrow> u64 \<Rightarrow> bytes option" where
  "inflate_blob c compressed orig_size =
     (let limit = unat orig_size in
      if MAX_BLOB_PLAINTEXT < limit then None
      else case cr_inflate_zlib c compressed limit of
             None \<Rightarrow> inflate_raw c compressed orig_size
           | Some out \<Rightarrow> if length out = limit then Some out else inflate_raw c compressed orig_size)"

subsection \<open>Name entries\<close>

definition label_key :: "'k ctap_crypto \<Rightarrow> bytes" where
  "label_key c = cr_sha256 c LABEL_KEY_INFO"

definition label_fits :: "bytes \<Rightarrow> bool" where
  "label_fits s \<longleftrightarrow> 1 \<le> length (chars s) \<and> length (chars s) \<le> MAX_LABEL_CHARS"

definition label_map :: "device_label \<Rightarrow> cbor_value" where
  "label_map l = Map
     ([(UInt P_VERSION, UInt LABEL_FORMAT_VERSION), (UInt P_LABEL, Text (dl_label l))]
      @ (case dl_writer l of Some w \<Rightarrow> [(UInt P_WRITER, Text w)] | None \<Rightarrow> []))"

definition plaintext :: "device_label \<Rightarrow> (bytes, label_error) result" where
  "plaintext l =
     (if \<not> label_fits (dl_label l) \<or> (case dl_writer l of Some w \<Rightarrow> \<not> label_fits w | None \<Rightarrow> False)
      then Err InvalidLabel else Ok (encode (label_map l)))"

definition stored_deflate :: "bytes \<Rightarrow> bytes" where
  "stored_deflate data =
     (let len = word_of_nat (length data) :: u16
      in [0x01] @ rev (u16_to_be len) @ rev (u16_to_be (NOT len)) @ data)"

definition encode_entry :: "'k ctap_crypto \<Rightarrow> device_label \<Rightarrow> bytes \<Rightarrow> (large_blob_entry, label_error) result" where
  "encode_entry c l nonce =
     bind_result (plaintext l) (\<lambda>p.
       let orig_size = word_of_nat (length p)
       in Ok (entry_built (gcm_encrypt c (label_key c) nonce (stored_deflate p) orig_size) nonce orig_size))"

definition label_text :: "cbor_value \<Rightarrow> bytes option" where
  "label_text v = Option.bind (as_text v) (\<lambda>s. if label_fits s then Some s else None)"

definition decode_entry :: "'k ctap_crypto \<Rightarrow> large_blob_entry \<Rightarrow> device_label option" where
  "decode_entry c e =
     do { compressed \<leftarrow> gcm_decrypt c (label_key c) (lb_nonce e) (lb_ciphertext e) (lb_orig_size e);
          p \<leftarrow> inflate_raw c compressed (lb_orig_size e);
          (case decode p of
             Err _ \<Rightarrow> None
           | Ok (m, rest) \<Rightarrow>
               if rest \<noteq> [] \<or> as_map m = None then None
               else do {
                 version \<leftarrow> Option.bind (get_uint_key m P_VERSION) as_uint;
                 if version \<noteq> LABEL_FORMAT_VERSION then None
                 else do {
                   label \<leftarrow> Option.bind (get_uint_key m P_LABEL) label_text;
                   Some \<lparr>dl_label = label, dl_writer = Option.bind (get_uint_key m P_WRITER) label_text\<rparr> } }) }"

subsection \<open>Names in an array\<close>

fun is_label_item :: "'k ctap_crypto \<Rightarrow> blob_item \<Rightarrow> bool" where
  "is_label_item c (EntryItem e) \<longleftrightarrow> decode_entry c e \<noteq> None"
| "is_label_item c (SkippedItem _) \<longleftrightarrow> False"

definition blob_label :: "'k ctap_crypto \<Rightarrow> large_blob_array \<Rightarrow> (nat \<times> device_label) option" where
  "blob_label c a =
     (case List.map_filter (\<lambda>(i, e). map_option (Pair i) (decode_entry c e)) (enumerate 0 (entries a)) of
        [] \<Rightarrow> None | found \<Rightarrow> Some (last found))"

definition with_label :: "'k ctap_crypto \<Rightarrow> large_blob_array \<Rightarrow> device_label option \<Rightarrow> bytes
    \<Rightarrow> (large_blob_array, label_error) result" where
  "with_label c a label nonce =
     (let items = filter (\<lambda>i. \<not> is_label_item c i) (la_items a) in
      case label of
        None \<Rightarrow> Ok (changed a items)
      | Some l \<Rightarrow> bind_result (encode_entry c l nonce) (\<lambda>e. Ok (changed a (items @ [EntryItem e]))))"

definition only_label :: "'k ctap_crypto \<Rightarrow> large_blob_array \<Rightarrow> large_blob_array" where
  "only_label c a = changed a (filter (is_label_item c) (la_items a))"

datatype entry_kind =
    Note bytes
  | KeyName device_label
  | SshCert ssh_cert_info bytes bytes
  | Opaque

definition classify :: "'k ctap_crypto \<Rightarrow> large_blob_entry \<Rightarrow> entry_kind" where
  "classify c e =
     (case decode_entry c e of
        Some label \<Rightarrow> KeyName label
      | None \<Rightarrow>
          (case entry_as_text e of
             Some text \<Rightarrow> Note text
           | None \<Rightarrow>
               (case from_stored (lb_ciphertext e) of
                  Some st \<Rightarrow> SshCert (st_info st) (st_wire st) (st_cert_pub st)
                | None \<Rightarrow> Opaque)))"

fun extract_cert_loop :: "'k ctap_crypto \<Rightarrow> bytes \<Rightarrow> large_blob_entry list \<Rightarrow> stored_cert option" where
  "extract_cert_loop c key [] = None"
| "extract_cert_loop c key (e # es) =
     (case gcm_decrypt c key (lb_nonce e) (lb_ciphertext e) (lb_orig_size e) of
        None \<Rightarrow> extract_cert_loop c key es
      | Some plain \<Rightarrow>
          (case inflate_blob c plain (lb_orig_size e) of
             None \<Rightarrow> extract_cert_loop c key es
           | Some wire \<Rightarrow> from_stored wire))"

definition extract_cert_from_entries :: "'k ctap_crypto \<Rightarrow> bytes \<Rightarrow> large_blob_array \<Rightarrow> stored_cert option" where
  "extract_cert_from_entries c large_blob_key a = extract_cert_loop c large_blob_key (entries a)"

subsection \<open>Reading and changing the name\<close>

datatype label_state = StateUnsupported | Absent | Present device_label

definition read_label :: "'k ctap_crypto \<Rightarrow> 'd ctap_transport \<Rightarrow> authenticator_info \<Rightarrow> 'd
    \<Rightarrow> (label_state, ctap_error) result \<times> 'd" where
  "read_label c dev info d =
     (if info_option info ''largeBlobs'' \<noteq> Some True then (Ok StateUnsupported, d)
      else bind_dev (blob_read c dev info d) (\<lambda>a d.
        (Ok (case blob_label c a of Some (_, label) \<Rightarrow> Present label | None \<Rightarrow> Absent), d)))"

record label_plan =
  lp_before_raw :: bytes
  lp_serialized :: bytes
  lp_previous :: "device_label option"
  lp_after :: large_blob_array

definition plan_label_change :: "'k ctap_crypto \<Rightarrow> large_blob_array \<Rightarrow> authenticator_info
    \<Rightarrow> device_label option \<Rightarrow> bytes \<Rightarrow> (label_plan, label_error) result" where
  "plan_label_change c current info label nonce =
     (if info_option info ''largeBlobs'' \<noteq> Some True then Err LabelUnsupported
      else if info_option info ''clientPin'' \<noteq> Some True then Err NoPin
      else bind_result (with_label c current label nonce) (\<lambda>after.
        case serialize_with_checksum c after of
          Err e \<Rightarrow> Err (LabelCtap e)
        | Ok serialized \<Rightarrow>
            (let size = length serialized; max = bc_max_bytes (blob_capacity current info) in
             if max < size then Err (TooLarge size max)
             else Ok \<lparr>lp_before_raw = la_raw current, lp_serialized = serialized,
                      lp_previous = map_option snd (blob_label c current), lp_after = after\<rparr>)))"

definition apply_label_plan :: "'k ctap_crypto \<Rightarrow> 'd ctap_transport \<Rightarrow> authenticator_info \<Rightarrow> pin_uv_auth_token
    \<Rightarrow> label_plan \<Rightarrow> 'd \<Rightarrow> (unit, label_error) result \<times> 'd" where
  "apply_label_plan c dev info token plan d =
     (case blob_read c dev info d of
        (Err e, d) \<Rightarrow> (Err (LabelCtap e), d)
      | (Ok now, d) \<Rightarrow>
          if la_raw now \<noteq> lp_before_raw plan then (Err LabelChanged, d)
          else (case blob_write c dev info token (lp_serialized plan) d of
                  (Err e, d) \<Rightarrow> (Err (LabelCtap e), d)
                | (Ok _, d) \<Rightarrow> (Ok (), d)))"


subsection \<open>A name reads back\<close>

text \<open>What the third-party code does: AES-GCM opens what it sealed and adds a short tag, and a DEFLATE decoder
  unpacks a stored block.\<close>

definition label_primitives :: "'k ctap_crypto \<Rightarrow> bool" where
  "label_primitives c \<longleftrightarrow>
     (\<forall>k n p a. cr_gcm_decrypt c k n (cr_gcm_encrypt c k n p a) a = Some p)
     \<and> (\<forall>k n p a. length a \<le> 16 \<longrightarrow> length (cr_gcm_encrypt c k n p a) \<le> length p + 16)
     \<and> (\<forall>p limit. length p \<le> 0xffff \<longrightarrow> length p \<le> limit \<longrightarrow> cr_inflate c (stored_deflate p) limit = Some p)"

lemma demo_label_primitives: "label_primitives demo_crypto"
  by (simp add: label_primitives_def demo_crypto_def stored_deflate_def blob_aad_def Let_def)

lemma utf8_step_width: "utf8_step b bs = (n, Some x) \<Longrightarrow> n \<le> 4"
  by (auto simp: utf8_step_def Let_def split: if_splits list.splits)

lemma valid_length: "utf8_valid s \<Longrightarrow> length s \<le> 4 * length (chars s)"
proof (induction s rule: utf8_split.induct)
  case (2 b bs)
  obtain n x where st: "utf8_step b bs = (n, Some x)"
    using 2 by (cases "utf8_step b bs") (auto simp: utf8_valid_def utf8_split.simps(2))
  have v: "utf8_valid (drop n (b # bs))" using 2 st by (simp add: utf8_valid_def utf8_split.simps(2))
  have "length (drop n (b # bs)) \<le> 4 * length (chars (drop n (b # bs)))"
    using 2 v st by simp
  moreover have "chars (b # bs) = x # chars (drop n (b # bs))"
    using st by (simp add: chars_def utf8_split.simps(2))
  moreover have "n \<le> 4" by (rule utf8_step_width [OF st])
  ultimately show ?case by simp
qed simp

text \<open>Labels as \<^verbatim>\<open>String\<close>s: their bytes are UTF-8.\<close>

definition label_strings :: "device_label \<Rightarrow> bool" where
  "label_strings l \<longleftrightarrow> utf8_valid (dl_label l) \<and> (case dl_writer l of Some w \<Rightarrow> utf8_valid w | None \<Rightarrow> True)"

lemma plaintext_Ok:
  assumes "plaintext l = Ok p" "label_strings l"
  shows "p = encode (label_map l)" "label_fits (dl_label l)" "\<And>w. dl_writer l = Some w \<Longrightarrow> label_fits w"
    "fits 0 (label_map l)" "length p \<le> 600"
proof -
  show p: "p = encode (label_map l)" and l: "label_fits (dl_label l)"
    and w: "\<And>w. dl_writer l = Some w \<Longrightarrow> label_fits w"
    using assms(1) by (auto simp: plaintext_def split: if_splits option.splits)
  have len: "length s \<le> 256" if "label_fits s" "utf8_valid s" for s
    using valid_length [OF that(2)] that(1) by (simp add: label_fits_def MAX_LABEL_CHARS_def)
  have sl: "length (dl_label l) \<le> 256" and sw: "\<And>w. dl_writer l = Some w \<Longrightarrow> length w \<le> 256"
    using assms(2) l w len by (auto simp: label_strings_def)
  then show "fits 0 (label_map l)"
    using assms(2) by (fastforce simp: label_map_def label_strings_def split: option.splits)
  note h = length_encode_header_le
  have "length (encode (label_map l)) \<le> 600"
  proof (cases "dl_writer l")
    case None
    then show ?thesis
      using sl h [of MT_MAP 2] h [of MT_UINT P_VERSION] h [of MT_UINT LABEL_FORMAT_VERSION] h [of MT_UINT P_LABEL]
        h [of MT_TEXT "word_of_nat (length (dl_label l))"]
      by (simp add: label_map_def del: mt_defs)
  next
    case (Some w)
    with sw have "length w \<le> 256" by blast
    with Some sl show ?thesis
      using h [of MT_MAP 3] h [of MT_UINT P_VERSION] h [of MT_UINT LABEL_FORMAT_VERSION] h [of MT_UINT P_LABEL]
        h [of MT_TEXT "word_of_nat (length (dl_label l))"] h [of MT_UINT P_WRITER] h [of MT_TEXT "word_of_nat (length w)"]
      by (simp add: label_map_def del: mt_defs)
  qed
  then show "length p \<le> 600" by (simp add: p)
qed

lemma label_map_lookups:
  "get_uint_key (label_map l) P_VERSION = Some (UInt LABEL_FORMAT_VERSION)"
  "get_uint_key (label_map l) P_LABEL = Some (Text (dl_label l))"
  "get_uint_key (label_map l) P_WRITER = map_option Text (dl_writer l)"
  by (simp_all add: get_uint_key_def label_map_def label_defs split: option.splits)

lemma length_blob_aad [simp]: "length (blob_aad n) = 12"
  by (simp add: blob_aad_def)

lemma encode_entry_spec:
  assumes "label_primitives c" "label_strings l" "length nonce = 12" "encode_entry c l nonce = Ok e"
  shows "decode_entry c e = Some l" "entry_ok e" "lb_original e = None"
proof -
  obtain p where p: "plaintext l = Ok p"
    and e: "e = entry_built (gcm_encrypt c (label_key c) nonce (stored_deflate p) (word_of_nat (length p))) nonce (word_of_nat (length p))"
    using assms(4) by (auto simp: encode_entry_def Let_def)
  note pl = plaintext_Ok [OF p assms(2)]
  have n: "unat (word_of_nat (length p) :: u64) = length p" using pl(5) by (simp add: unat_of_nat)
  have "cr_inflate c (stored_deflate p) (length p) = Some p"
    using assms(1) pl(5) by (simp add: label_primitives_def)
  then have inf: "inflate_raw c (stored_deflate p) (word_of_nat (length p)) = Some p"
    using pl(5) by (simp add: inflate_raw_def n MAX_BLOB_PLAINTEXT_def)
  have dec: "decode p = Ok (label_map l, [])" using decode_encode [OF pl(4), of "[]"] by (simp add: pl(1))
  have m: "as_map (label_map l) \<noteq> None" by (simp add: label_map_def)
  have w: "Option.bind (map_option Text (dl_writer l)) label_text = dl_writer l"
    using pl(3) by (cases "dl_writer l") (simp_all add: label_text_def)
  show "decode_entry c e = Some l"
    using assms(1,3) inf dec m w pl(2)
    by (simp add: decode_entry_def e entry_built_def gcm_decrypt_def gcm_encrypt_def label_primitives_def
        label_map_lookups label_text_def del: not_None_eq)
  show "lb_original e = None" by (simp add: e entry_built_def)
  have "length (stored_deflate p) \<le> 605" using pl(5) by (simp add: stored_deflate_def Let_def)
  moreover have "length (gcm_encrypt c (label_key c) nonce (stored_deflate p) (word_of_nat (length p)))
      \<le> length (stored_deflate p) + 16"
    using assms(1) by (simp add: gcm_encrypt_def label_primitives_def)
  ultimately show "entry_ok e" using assms(3) by (simp add: entry_ok_def e entry_built_def)
qed


subsection \<open>The names of an array\<close>

definition names_in :: "'k ctap_crypto \<Rightarrow> large_blob_array \<Rightarrow> device_label list" where
  "names_in c a = List.map_filter (decode_entry c) (entries a)"

definition other_items :: "'k ctap_crypto \<Rightarrow> large_blob_array \<Rightarrow> blob_item list" where
  "other_items c a = filter (\<lambda>i. \<not> is_label_item c i) (la_items a)"

definition label_now :: "'k ctap_crypto \<Rightarrow> large_blob_array \<Rightarrow> device_label option" where
  "label_now c a = map_option snd (blob_label c a)"

lemma map_filter_enumerate:
  "map snd (List.map_filter (\<lambda>(i, e). map_option (Pair i) (f e)) (enumerate n es)) = List.map_filter f es"
proof (induction es arbitrary: n)
  case (Cons e es)
  then show ?case by (cases "f e") (simp_all add: List.map_filter_simps)
qed (simp add: List.map_filter_simps)

lemma label_now_last: "label_now c a = (if names_in c a = [] then None else Some (last (names_in c a)))"
proof -
  let ?f = "List.map_filter (\<lambda>(i, e). map_option (Pair i) (decode_entry c e)) (enumerate 0 (entries a))"
  have m: "map snd ?f = names_in c a" by (simp add: names_in_def map_filter_enumerate)
  show ?thesis
  proof (cases "?f = []")
    case True
    with m show ?thesis by (simp add: label_now_def blob_label_def)
  next
    case False
    then have "last (map snd ?f) = snd (last ?f)" by (simp add: last_map)
    moreover have "map snd ?f \<noteq> []" using False by simp
    ultimately have "last (names_in c a) = snd (last ?f)" "names_in c a \<noteq> []" by (simp_all only: m) auto
    moreover have "blob_label c a = Some (last ?f)" using False by (simp add: blob_label_def split: list.splits)
    ultimately show ?thesis by (simp add: label_now_def)
  qed
qed

lemma decode_stored [simp]: "decode_entry c (e\<lparr>lb_original := x\<rparr>) = decode_entry c e"
  by (simp add: decode_entry_def)

lemma stored_is_label [simp]: "is_label_item c (stored_item i) = is_label_item c i"
  by (cases i) simp_all

lemma names_of_others: "List.map_filter (decode_entry c) (List.map_filter item_entry (filter (\<lambda>i. \<not> is_label_item c i) items)) = []"
proof (induction items)
  case (Cons i items)
  then show ?case by (cases i) (auto simp: List.map_filter_simps)
qed (simp add: List.map_filter_simps)

lemma names_stored:
  "List.map_filter (decode_entry c) (List.map_filter item_entry (map stored_item items))
     = List.map_filter (decode_entry c) (List.map_filter item_entry items)"
proof (induction items)
  case (Cons i items)
  then show ?case by (cases i) (simp_all add: List.map_filter_simps split: option.split)
qed (simp add: List.map_filter_simps)

text \<open>What a change of the name is: the other items stay, in their order, and the array holds the new
  name alone.\<close>

definition renamed :: "'k ctap_crypto \<Rightarrow> large_blob_array \<Rightarrow> device_label option \<Rightarrow> large_blob_array \<Rightarrow> bool" where
  "renamed c a label b \<longleftrightarrow> array_ok b \<and> label_now c b = label
     \<and> names_in c b = (case label of None \<Rightarrow> [] | Some l \<Rightarrow> [l])
     \<and> map item_bytes (other_items c b) = map item_bytes (other_items c a) \<and> la_trailing b = la_trailing a"

lemma with_label_renames:
  assumes "label_primitives c" "array_ok a" "Suc (length (la_items a)) < 2 ^ 48" "length nonce = 12"
    and "\<And>l. label = Some l \<Longrightarrow> label_strings l" and "with_label c a label nonce = Ok b"
  shows "renamed c a label b"
proof -
  let ?o = "filter (\<lambda>i. \<not> is_label_item c i) (la_items a)"
  have "Suc (length ?o) \<le> Suc (length (la_items a))" by simp
  from le_less_trans [OF this assms(3)] have len: "Suc (length ?o) < 281474976710656" by simp
  have ok: "list_all item_ok ?o" using assms(2) by (auto simp: array_ok_def list_all_iff)
  show ?thesis
  proof (cases label)
    case None
    with assms(6) have b: "b = changed a ?o" by (simp add: with_label_def)
    have n: "names_in c b = []" by (simp add: b names_in_def entries_def changed_def names_of_others)
    moreover have "array_ok b" using ok len by (simp add: b array_ok_def changed_def)
    ultimately show ?thesis
      using None by (simp add: renamed_def label_now_last other_items_def b changed_def)
  next
    case (Some l)
    with assms(6) obtain e where e: "encode_entry c l nonce = Ok e" and b: "b = changed a (?o @ [EntryItem e])"
      by (auto simp: with_label_def)
    note spec = encode_entry_spec [OF assms(1) assms(5) [OF Some] assms(4) e]
    have n: "names_in c b = [l]"
      by (simp add: b names_in_def entries_def changed_def map_filter_append names_of_others List.map_filter_simps spec(1))
    moreover have "array_ok b" using ok len spec(2,3) by (simp add: b array_ok_def changed_def)
    ultimately show ?thesis
      using Some spec(1) by (simp add: renamed_def label_now_last other_items_def b changed_def)
  qed
qed

text \<open>Reading a renamed array back.\<close>

lemma renamed_reread:
  assumes "renamed c a label b" "la_trailing b = 0"
  shows "\<exists>r. blob_parse (array_bytes b) = Ok r \<and> la_raw r = array_bytes b \<and> renamed c a label r"
proof -
  let ?r = "\<lparr>la_items = map stored_item (la_items b), la_raw = array_bytes b, la_trailing = 0\<rparr>"
  have ok: "array_ok b" using assms(1) by (simp add: renamed_def)
  have "blob_parse (array_bytes b) = Ok ?r" using parse_array_bytes [OF ok, of "[]"] by simp
  moreover have "array_ok ?r" using ok stored_item_ok by (auto simp: array_ok_def list_all_iff)
  moreover have "names_in c ?r = names_in c b" by (simp add: names_in_def entries_def names_stored)
  moreover have "map item_bytes (other_items c ?r) = map item_bytes (other_items c b)"
    by (simp add: other_items_def filter_map comp_def)
  ultimately show ?thesis using assms by (simp add: renamed_def label_now_last split: option.split)
qed

lemma plan_cases:
  assumes "plan_label_change c a info label nonce = Ok plan"
  obtains "info_option info ''largeBlobs'' = Some True" "info_option info ''clientPin'' = Some True"
    "with_label c a label nonce = Ok (lp_after plan)"
    "serialize_with_checksum c (lp_after plan) = Ok (lp_serialized plan)"
    "length (lp_serialized plan) \<le> blob_max info"
    "lp_before_raw plan = la_raw a" "lp_previous plan = label_now c a"
proof -
  from assms obtain after where g: "info_option info ''largeBlobs'' = Some True" "info_option info ''clientPin'' = Some True"
    and w: "with_label c a label nonce = Ok after"
    and k: "(case serialize_with_checksum c after of Err e \<Rightarrow> Err (LabelCtap e)
        | Ok serialized \<Rightarrow>
            (let size = length serialized; max = bc_max_bytes (blob_capacity a info) in
             if max < size then Err (TooLarge size max)
             else Ok \<lparr>lp_before_raw = la_raw a, lp_serialized = serialized,
                      lp_previous = map_option snd (blob_label c a), lp_after = after\<rparr>)) = Ok plan"
    by (auto simp: plan_label_change_def split: if_splits)
  then obtain s where "serialize_with_checksum c after = Ok s" by (auto split: result.splits)
  with g w k that show ?thesis
    by (auto simp: Let_def label_now_def blob_capacity_def split: if_splits)
qed


subsection \<open>Properties\<close>

text \<open>A planned change of a key's name does that and nothing else.  It exists only for a key with
  large-blob storage and a PIN and only if the result fits the key; what is going to be written reads back as
  an array that holds the given name alone (or none), with every other item, conforming or not,
  byte for byte and in its place.\<close>

theorem label_plan_sound:
  assumes "label_primitives c" "array_ok a" "Suc (length (la_items a)) < 2 ^ 48" "length nonce = 12"
    and "\<And>l. label = Some l \<Longrightarrow> label_strings l"
    and "plan_label_change c a info label nonce = Ok plan"
  shows "info_option info ''largeBlobs'' = Some True \<and> info_option info ''clientPin'' = Some True
    \<and> length (lp_serialized plan) \<le> blob_max info
    \<and> lp_before_raw plan = la_raw a \<and> lp_previous plan = label_now c a
    \<and> (\<exists>bs r. lp_serialized plan = bs @ left16_sha256 c bs \<and> blob_parse bs = Ok r \<and> renamed c a label r)"
proof (rule plan_cases [OF assms(6)])
  assume w: "with_label c a label nonce = Ok (lp_after plan)"
    and z: "serialize_with_checksum c (lp_after plan) = Ok (lp_serialized plan)"
    and g: "info_option info ''largeBlobs'' = Some True" "info_option info ''clientPin'' = Some True"
      "length (lp_serialized plan) \<le> blob_max info" "lp_before_raw plan = la_raw a" "lp_previous plan = label_now c a"
  have r: "renamed c a label (lp_after plan)" by (rule with_label_renames [OF assms(1-5) w])
  have t: "la_trailing (lp_after plan) = 0"
    "lp_serialized plan = array_bytes (lp_after plan) @ left16_sha256 c (array_bytes (lp_after plan))"
    using z by (auto simp: serialize_with_checksum_def split: if_splits)
  from renamed_reread [OF r t(1)] g t(2) show ?thesis by blast
qed


definition demo_info :: authenticator_info where
  "demo_info = info_default\<lparr>ai_options := [(ascii ''largeBlobs'', True), (ascii ''clientPin'', True)]\<rparr>"

definition demo_array :: large_blob_array where
  "demo_array = \<lparr>la_items = [], la_raw = array_header 0, la_trailing = 0\<rparr>"

lemma demo_options: "info_option demo_info ''largeBlobs'' = Some True" "info_option demo_info ''clientPin'' = Some True"
  by (simp_all add: info_option_def demo_info_def ascii_def)

lemma demo_array_ok: "array_ok demo_array" "la_trailing demo_array = 0" "la_items demo_array = []"
    "array_bytes demo_array = array_header 0" "blob_max demo_info = 1024"
  by (simp_all add: demo_array_def array_ok_def array_bytes_def blob_max_def demo_info_def info_default_def
      SPEC_MIN_SERIALIZED_ARRAY_def)

lemma demo_plan: "\<exists>plan. plan_label_change demo_crypto demo_array demo_info None (replicate 12 0) = Ok plan
    \<and> lp_serialized plan = array_header 0 @ left16_sha256 demo_crypto (array_header 0)"
proof -
  have "with_label demo_crypto demo_array None (replicate 12 0) = Ok (changed demo_array [])"
    by (simp add: with_label_def demo_array_ok)
  moreover have "serialize_with_checksum demo_crypto (changed demo_array [])
      = Ok (array_header 0 @ left16_sha256 demo_crypto (array_header 0))"
    by (simp add: serialize_with_checksum_def changed_def array_bytes_def demo_array_ok)
  moreover have "length (array_header 0 @ left16_sha256 demo_crypto (array_header 0)) \<le> 1024"
    by (simp add: array_header_def length_encode_header length_left16 [OF demo_primitives])
  ultimately show ?thesis by (simp add: plan_label_change_def demo_options blob_capacity_def demo_array_ok Let_def)
qed

theorem label_plan_sound_witness:
  "\<exists>plan r. plan_label_change demo_crypto demo_array demo_info None (replicate 12 0) = Ok plan
     \<and> renamed demo_crypto demo_array None r"
proof -
  obtain plan where p: "plan_label_change demo_crypto demo_array demo_info None (replicate 12 0) = Ok plan"
    using demo_plan by blast
  have "Suc (length (la_items demo_array)) < 2 ^ 48" by (simp add: demo_array_ok)
  from label_plan_sound [OF demo_label_primitives demo_array_ok(1) this _ _ p] p show ?thesis by auto
qed


end
