(* ===== verification/Expiry.thy ===== *)
theory Expiry
  imports Civil Decimal Rust_Str
begin

text \<open>
  The expiry choices of an OpenPGP key (\<^verbatim>\<open>crates/keyroost-pgpkey/src/cert.rs\<close>), the date
  model behind the expiry field (\<^verbatim>\<open>crates/keyroost/src/ui/date.rs\<close>) and the expiration
  dates of PIV objects (\<^verbatim>\<open>crates/keyroost-piv/src/lib.rs\<close>), over the calendar of \<open>Civil\<close>.
  A panic of the fixed-width copy in \<^verbatim>\<open>format_yyyymmdd\<close> is \<open>None\<close>.
\<close>

subsection \<open>PIV expiration dates\<close>

definition MAX_EXPIRATION_YEAR :: int where "MAX_EXPIRATION_YEAR = 9999"

definition max_expiration_days :: int where
  "max_expiration_days = days_from_civil MAX_EXPIRATION_YEAR 12 31"

definition max_expiration_unix_secs :: int where
  "max_expiration_unix_secs = max_expiration_days * 86400 + 86399"

definition format_yyyymmdd :: "ymd \<Rightarrow> bytes option" where
  "format_yyyymmdd = (\<lambda>(y, m, d).
     let s = show_int_padded 4 y @ show_int_padded 2 m @ show_int_padded 2 d
     in if length s = 8 then Some s else None)"

definition yyyymmdd_from_unix_secs :: "int \<Rightarrow> bytes option" where
  "yyyymmdd_from_unix_secs unix_secs = format_yyyymmdd (civil_from_days (unix_secs div 86400))"

definition clamp_u32 :: "int \<Rightarrow> nat" where
  "clamp_u32 n = nat (max 0 (min n (2 ^ 32 - 1)))"

definition max_valid_days :: "u64 \<Rightarrow> nat" where
  "max_valid_days now = clamp_u32 (max_expiration_days - uint now div 86400)"

definition chuid_expiration_in_days :: "u64 \<Rightarrow> u32 \<Rightarrow> bytes option" where
  "chuid_expiration_in_days now valid_days =
     (let expiry_secs = min (2 ^ 64 - 1) (uint now + min (2 ^ 64 - 1) (uint valid_days * 86400));
          days = min (expiry_secs div 86400) max_expiration_days
      in format_yyyymmdd (civil_from_days days))"

definition max_valid_years :: "u64 \<Rightarrow> nat" where
  "max_valid_years now =
     (let (y, _, _) = civil_from_days (uint now div 86400) in clamp_u32 (MAX_EXPIRATION_YEAR - y))"

definition max_valid_months :: "u64 \<Rightarrow> nat" where
  "max_valid_months now =
     (let (y, m, _) = civil_from_days (uint now div 86400)
      in clamp_u32 ((MAX_EXPIRATION_YEAR - y) * 12 + (12 - m)))"

text \<open>The common end of the two calendar additions.\<close>

definition end_of_day :: "int \<Rightarrow> int \<Rightarrow> int" where
  "end_of_day new_days time_of_day =
     (if max_expiration_days \<le> new_days then max_expiration_days * 86400 + 86399
      else new_days * 86400 + time_of_day)"

definition add_calendar_years :: "u64 \<Rightarrow> u32 \<Rightarrow> int" where
  "add_calendar_years now years =
     (let now_secs = sint now;
          days = now_secs div 86400;
          time_of_day = now_secs mod 86400;
          (y, m, d) = civil_from_days days;
          target_year = y + uint years;
          d = (if m = 2 \<and> d = 29 \<and> \<not> is_leap_year target_year then 28 else d)
      in end_of_day (days_from_civil target_year m d) time_of_day)"

definition add_calendar_months :: "u64 \<Rightarrow> u32 \<Rightarrow> int" where
  "add_calendar_months now months =
     (let now_secs = sint now;
          days = now_secs div 86400;
          time_of_day = now_secs mod 86400;
          (y, m, d) = civil_from_days days;
          total_months = (m - 1) + uint months;
          target_year = y + total_months div 12;
          target_month = total_months mod 12 + 1;
          d = min d (days_in_month target_year target_month)
      in end_of_day (days_from_civil target_year target_month d) time_of_day)"

definition chuid_expiration_in_years :: "u64 \<Rightarrow> u32 \<Rightarrow> bytes option" where
  "chuid_expiration_in_years now valid_years =
     format_yyyymmdd (civil_from_days (add_calendar_years now valid_years div 86400))"

definition chuid_expiration_in_months :: "u64 \<Rightarrow> u32 \<Rightarrow> bytes option" where
  "chuid_expiration_in_months now valid_months =
     format_yyyymmdd (civil_from_days (add_calendar_months now valid_months div 86400))"

definition add_calendar_period :: "u64 \<Rightarrow> u32 \<Rightarrow> u32 \<Rightarrow> u32 \<Rightarrow> int" where
  "add_calendar_period now years months days =
     (let after_years = (if 0 < years then add_calendar_years now years else sint now);
          after_months = (if 0 < months then add_calendar_months (word_of_int after_years) months else after_years)
      in min (min (2 ^ 63 - 1) (after_months + uint days * 86400)) max_expiration_unix_secs)"

subsection \<open>The expiry of an OpenPGP key\<close>

definition DAY :: int where "DAY = 86400"
definition DATE_FORMAT :: string where "DATE_FORMAT = ''Enter the date as YYYY-MM-DD.''"

datatype expiry = Never | Years byte | OnDate ymd

text \<open>The two checks \<^verbatim>\<open>Date::parse\<close> and \<^verbatim>\<open>Expiry::parse_date\<close> share: three groups of four, two
  and two digits.  So short, the numbers fit every integer type of the source.\<close>

definition date_groups :: "bytes \<Rightarrow> ymd option" where
  "date_groups s =
     (case split_on 0x2d (str_trim s) of
        [ys, ms, ds] \<Rightarrow>
          if length ys = 4 \<and> length ms = 2 \<and> length ds = 2
             \<and> list_all is_ascii_digit ys \<and> list_all is_ascii_digit ms \<and> list_all is_ascii_digit ds
          then Some (int (dec_value 0 ys), int (dec_value 0 ms), int (dec_value 0 ds)) else None
      | _ \<Rightarrow> None)"

definition expiry_parse_date :: "bytes \<Rightarrow> (expiry, string) result" where
  "expiry_parse_date s =
     (case date_groups s of
        None \<Rightarrow> Err DATE_FORMAT
      | Some (y, m, d) \<Rightarrow>
          if \<not> (1 \<le> m \<and> m \<le> 12) \<or> d = 0 \<or> days_in_month y m < d then Err ''That date does not exist.''
          else if 2105 < y then Err ''Pick a date before 2106.''
          else if y < 1970 then Err ''That date is in the past.''
          else Ok (OnDate (y, m, d)))"

definition expiry_parse :: "bytes \<Rightarrow> (expiry, string) result" where
  "expiry_parse s =
     (let s = to_ascii_lowercase (str_trim s) in
      if s = ascii ''never'' then Ok Never
      else if s \<noteq> [] \<and> last s = 0x79 then
        (if butlast s = ascii ''1'' then Ok (Years 1)
         else if butlast s = ascii ''2'' then Ok (Years 2)
         else if butlast s = ascii ''3'' then Ok (Years 3)
         else if butlast s = ascii ''5'' then Ok (Years 5)
         else Err ''Choose never, 1y, 2y, 3y, 5y or a date (YYYY-MM-DD).'')
      else expiry_parse_date s)"

text \<open>The day an expiry falls on, and midday of it.\<close>

definition expiry_day :: "expiry \<Rightarrow> u32 \<Rightarrow> (ymd option, string) result" where
  "expiry_day e from =
     (case e of
        Never \<Rightarrow> Ok None
      | Years n \<Rightarrow>
          (let (cy, cm, cd) = civil_from_days (uint from div DAY); y = cy + uint n
           in Ok (Some (y, cm, min cd (days_in_month y cm))))
      | OnDate (y, m, d) \<Rightarrow>
          (let day = days_from_civil y m d; today = uint from div DAY in
           if day < today then Err ''That date is in the past.''
           else if day = today then Err ''Pick a date after today.''
           else Ok (Some (y, m, d))))"

definition expiry_end_time :: "expiry \<Rightarrow> u32 \<Rightarrow> (u32 option, string) result" where
  "expiry_end_time e from =
     bind_result (expiry_day e from) (\<lambda>day.
       case day of None \<Rightarrow> Ok None
       | Some (y, m, d) \<Rightarrow>
           (let end_secs = days_from_civil y m d * DAY + DAY div 2 in
            if end_secs \<le> uint from then Err ''That date is in the past.''
            else if 2 ^ 32 \<le> end_secs then Err ''That date is too far in the future.''
            else Ok (Some (word_of_int end_secs))))"

definition expiry_seconds_after :: "expiry \<Rightarrow> u32 \<Rightarrow> (u32 option, string) result" where
  "expiry_seconds_after e created =
     bind_result (expiry_end_time e created) (\<lambda>end_secs. Ok (map_option (\<lambda>t. t - created) end_secs))"

text \<open>\<^verbatim>\<open>current_expiry\<close>, from the creation time and the seconds of the self-signature.\<close>

definition current_expiry :: "u32 \<Rightarrow> u32 option \<Rightarrow> ymd option" where
  "current_expiry created expires =
     map_option (\<lambda>secs. civil_from_days ((uint created + uint secs - 1) div DAY)) expires"

subsection \<open>The date field\<close>

definition date_parse :: "bytes \<Rightarrow> ymd option" where
  "date_parse s =
     (case date_groups s of
        None \<Rightarrow> None
      | Some (y, m, d) \<Rightarrow>
          if \<not> (1 \<le> m \<and> m \<le> 12) \<or> d = 0 \<or> days_in_month y m < d then None else Some (y, m, d))"

definition date_iso :: "ymd \<Rightarrow> bytes" where
  "date_iso = (\<lambda>(y, m, d). show_int_padded 4 y @ [0x2d] @ show_int_padded 2 m @ [0x2d] @ show_int_padded 2 d)"

definition next_day :: "ymd \<Rightarrow> ymd" where
  "next_day = (\<lambda>(y, m, d). civil_from_days (days_from_civil y m d + 1))"

definition add_years :: "ymd \<Rightarrow> int \<Rightarrow> ymd" where
  "add_years = (\<lambda>(y, m, d) n. (y + n, m, min d (days_in_month (y + n) m)))"

definition weekday :: "ymd \<Rightarrow> int" where
  "weekday = (\<lambda>(y, m, d). (days_from_civil y m d + 3) mod 7)"

definition next_month :: "ymd \<Rightarrow> ymd" where
  "next_month = (\<lambda>(y, m, d). if m = 12 then (y + 1, 1, 1) else (y, m + 1, 1))"

definition prev_month :: "ymd \<Rightarrow> ymd" where
  "prev_month = (\<lambda>(y, m, d). if m = 1 then (y - 1, 12, 1) else (y, m - 1, 1))"

definition day_number :: "ymd \<Rightarrow> int" where
  "day_number = (\<lambda>(y, m, d). days_from_civil y m d)"

definition is_after :: "ymd \<Rightarrow> ymd \<Rightarrow> bool" where
  "is_after = (\<lambda>(y, m, d) (y', m', d'). y' < y \<or> y' = y \<and> (m' < m \<or> m' = m \<and> d' < d))"

definition first_of_month :: "ymd \<Rightarrow> ymd" where
  "first_of_month = (\<lambda>(y, m, d). (y, m, 1))"

definition month_grid :: "ymd \<Rightarrow> ymd list" where
  "month_grid month =
     (let first = first_of_month month; start = day_number first - weekday first
      in map (\<lambda>i. civil_from_days (start + int i)) [0..<42])"

datatype expiry_choice = ChooseNever | ChooseYears byte | ChooseDate

record expiry_input =
  xi_choice :: expiry_choice
  xi_text :: bytes
  xi_calendar_open :: bool
  xi_month :: ymd

definition expiry_for_new :: "ymd \<Rightarrow> expiry_input" where
  "expiry_for_new today = (let d = add_years today 3 in
     \<lparr>xi_choice = ChooseYears 3, xi_text = date_iso d, xi_calendar_open = False, xi_month = first_of_month d\<rparr>)"

definition expiry_for_existing :: "ymd option \<Rightarrow> ymd \<Rightarrow> expiry_input" where
  "expiry_for_existing current today = (let d = (case current of Some d \<Rightarrow> d | None \<Rightarrow> next_day today) in
     \<lparr>xi_choice = ChooseDate, xi_text = date_iso d, xi_calendar_open = False, xi_month = first_of_month d\<rparr>)"

definition expiry_resolve :: "expiry_input \<Rightarrow> ymd \<Rightarrow> (expiry, string) result" where
  "expiry_resolve input today =
     (case xi_choice input of
        ChooseNever \<Rightarrow> Ok Never
      | ChooseYears n \<Rightarrow> Ok (Years n)
      | ChooseDate \<Rightarrow>
          bind_result (expiry_parse_date (xi_text input)) (\<lambda>e.
            case e of
              OnDate day \<Rightarrow>
                if is_after today day then Err ''That date is in the past.''
                else if day = today then Err ''Pick a date after today.''
                else Ok e
            | _ \<Rightarrow> Ok e))"


subsection \<open>Fixed-width dates\<close>

lemma date_widths:
  assumes "valid_date (y, m, d)" "0 \<le> y" "y \<le> 9999"
  shows "length (show_int_padded 4 y) = 4" "length (show_int_padded 2 m) = 2" "length (show_int_padded 2 d) = 2"
    "list_all is_ascii_digit (show_int_padded 4 y)" "list_all is_ascii_digit (show_int_padded 2 m)"
    "list_all is_ascii_digit (show_int_padded 2 d)"
    "dec_value 0 (show_int_padded 4 y) = nat y" "dec_value 0 (show_int_padded 2 m) = nat m" "dec_value 0 (show_int_padded 2 d) = nat d"
proof -
  have "days_in_month y m \<le> 31" by (simp add: days_in_month_def)
  then have "nat y < 10 ^ 4" "0 \<le> m" "nat m < 10 ^ 2" "0 \<le> d" "nat d < 10 ^ 2"
    using assms by (auto simp: valid_date_def)
  with assms(2) show "length (show_int_padded 4 y) = 4" "length (show_int_padded 2 m) = 2" "length (show_int_padded 2 d) = 2"
    "list_all is_ascii_digit (show_int_padded 4 y)" "list_all is_ascii_digit (show_int_padded 2 m)"
    "list_all is_ascii_digit (show_int_padded 2 d)"
    "dec_value 0 (show_int_padded 4 y) = nat y" "dec_value 0 (show_int_padded 2 m) = nat m" "dec_value 0 (show_int_padded 2 d) = nat d"
    using length_show_int by simp_all
qed

lemma format_valid:
  assumes "valid_date (y, m, d)" "0 \<le> y" "y \<le> 9999"
  shows "\<exists>s. format_yyyymmdd (y, m, d) = Some s \<and> length s = 8 \<and> list_all is_ascii_digit s"
  using date_widths [OF assms] by (simp add: format_yyyymmdd_def Let_def)

lemma date_groups_iso:
  assumes "valid_date (y, m, d)" "0 \<le> y" "y \<le> 9999"
  shows "date_groups (date_iso (y, m, d)) = Some (y, m, d)"
proof -
  note w = date_widths [OF assms]
  let ?y = "show_int_padded 4 y" and ?m = "show_int_padded 2 m" and ?d = "show_int_padded 2 d"
  have digit: "b < 0x80 \<and> b \<noteq> 0x2d \<and> \<not> is_whitespace (unat b)" if "is_ascii_digit b" for b
    using that by (auto simp: is_ascii_digit_def is_whitespace_def word_le_nat_alt word_less_nat_alt)
  have sep: "0x2d \<notin> set ?y" "0x2d \<notin> set ?m" "0x2d \<notin> set ?d"
    using w(4-6) digit by (auto simp: list_all_iff)
  have ne: "?y \<noteq> []" "?d \<noteq> []" using w(1,3) by (auto simp: length_0_conv [symmetric] simp del: length_0_conv)
  have ends: "is_ascii_digit (hd ?y)" "is_ascii_digit (last ?d)" using w(4,6) ne by (auto simp: list_all_iff)
  let ?s = "?y @ [0x2d] @ ?m @ [0x2d] @ ?d"
  have "list_all (\<lambda>b. b < 0x80) ?s" using w(4-6) digit by (auto simp: list_all_iff)
  moreover have "hd ?s = hd ?y" "last ?s = last ?d" using ne by simp_all
  ultimately have "str_trim ?s = ?s" using digit [OF ends(1)] digit [OF ends(2)] ne by (intro str_trim_ascii) simp_all
  moreover have "split_on 0x2d ?s = [?y, ?m, ?d]"
    using sep by (simp add: split_on_append split_on_none)
  ultimately show ?thesis using w assms by (simp add: date_groups_def date_iso_def valid_date_def)
qed

lemma date_parse_iso:
  assumes "valid_date (y, m, d)" "0 \<le> y" "y \<le> 9999"
  shows "date_parse (date_iso (y, m, d)) = Some (y, m, d)"
  using assms(1) by (simp add: date_parse_def date_groups_iso [OF assms]) (simp add: valid_date_def)

subsection \<open>Calendar additions\<close>

lemma max_date_valid: "valid_date (9999, 12, 31)" "valid_date (1970, 1, 1)"
  by (simp_all add: valid_date_def days_in_month_def)

lemma days_in_month_pos: "28 \<le> days_in_month y m"
  by (simp add: days_in_month_def)

lemma before_max:
  "valid_date (y, m, d) \<Longrightarrow> days_from_civil y m d < max_expiration_days \<longleftrightarrow> date_less (y, m, d) (9999, 12, 31)"
  using days_less_iff [OF _ max_date_valid(1)] by (simp add: max_expiration_days_def MAX_EXPIRATION_YEAR_def)

lemma epoch_day: "days_from_civil 1970 1 1 = 0"
  using days_civil [OF civil_epoch] .

lemma days_nonneg:
  assumes "valid_date (y, m, d)"
  shows "0 \<le> days_from_civil y m d \<longleftrightarrow> 1970 \<le> y"
proof -
  have "0 \<le> days_from_civil y m d \<longleftrightarrow> \<not> date_less (y, m, d) (1970, 1, 1)"
    using days_less_iff [OF assms max_date_valid(2)] epoch_day by linarith
  also have "\<dots> \<longleftrightarrow> 1970 \<le> y" using assms by (auto simp: date_less_def valid_date_def)
  finally show ?thesis .
qed

lemma civil_range:
  assumes "0 \<le> z" "z \<le> max_expiration_days"
  shows "\<exists>s. format_yyyymmdd (civil_from_days z) = Some s \<and> length s = 8 \<and> list_all is_ascii_digit s"
proof -
  obtain y m d where c: "civil_from_days z = (y, m, d)" by (cases "civil_from_days z")
  note v = civil_valid [OF c] and z = days_civil [OF c]
  have "1970 \<le> y" using days_nonneg [OF v] assms(1) z by simp
  moreover have "y \<le> 9999"
  proof (rule ccontr)
    assume "\<not> y \<le> 9999"
    then have "date_less (9999, 12, 31) (y, m, d)" by (simp add: date_less_def)
    with days_less_iff [OF max_date_valid(1) v] assms(2) z show False
      by (simp add: max_expiration_days_def MAX_EXPIRATION_YEAR_def)
  qed
  ultimately show ?thesis using format_valid [OF v] by (simp add: c)
qed

lemma max_days_pos: "0 \<le> max_expiration_days"
  using days_nonneg [OF max_date_valid(1)] by (simp add: max_expiration_days_def MAX_EXPIRATION_YEAR_def)

text \<open>Adding a calendar period to a moment: the target date is reached, at the same time of the day,
  unless it is not before the last day.\<close>

lemma end_of_day_spec:
  assumes "valid_date (y, m, d)" "1970 \<le> y" "0 \<le> tod" "tod < 86400"
  defines "t \<equiv> end_of_day (days_from_civil y m d) tod"
  shows "if date_less (y, m, d) (9999, 12, 31)
         then civil_from_days (t div 86400) = (y, m, d) \<and> t mod 86400 = tod
         else t = max_expiration_unix_secs"
    "0 \<le> t div 86400" "t div 86400 \<le> max_expiration_days" "t \<le> max_expiration_unix_secs"
proof -
  let ?n = "days_from_civil y m d"
  have n: "0 \<le> ?n" using days_nonneg [OF assms(1)] assms(2) by simp
  have dm: "(?n * 86400 + tod) div 86400 = ?n" "(?n * 86400 + tod) mod 86400 = tod"
    using assms(3,4) by simp_all
  show "if date_less (y, m, d) (9999, 12, 31)
         then civil_from_days (t div 86400) = (y, m, d) \<and> t mod 86400 = tod
         else t = max_expiration_unix_secs"
    using before_max [OF assms(1)] civil_days [OF assms(1)] dm
    by (auto simp: t_def end_of_day_def max_expiration_unix_secs_def)
  have big: "(max_expiration_days * 86400 + 86399) div 86400 = max_expiration_days" by simp
  show "0 \<le> t div 86400" "t div 86400 \<le> max_expiration_days"
    using n dm(1) big max_days_pos by (auto simp: t_def end_of_day_def)
  show "t \<le> max_expiration_unix_secs"
    using assms(3,4) by (simp add: t_def end_of_day_def max_expiration_unix_secs_def)
qed


text \<open>The month and year arithmetic of \<^verbatim>\<open>add_calendar_months\<close> and \<^verbatim>\<open>add_calendar_years\<close>.\<close>

definition months_after :: "ymd \<Rightarrow> int \<Rightarrow> ymd" where
  "months_after = (\<lambda>(y, m, d) k.
     let y' = y + (m - 1 + k) div 12; m' = (m - 1 + k) mod 12 + 1 in (y', m', min d (days_in_month y' m')))"

lemma months_after_valid:
  assumes "valid_date (y, m, d)" "0 \<le> k"
  shows "valid_date (months_after (y, m, d) k)" "y \<le> fst (months_after (y, m, d) k)"
proof -
  let ?y = "y + (m - 1 + k) div 12" and ?m = "(m - 1 + k) mod 12 + 1"
  have m: "1 \<le> m" "1 \<le> d" "m \<le> 12" using assms(1) by (auto simp: valid_date_def)
  have "1 \<le> ?m" "?m \<le> 12" by simp_all
  then show "valid_date (months_after (y, m, d) k)"
    using days_in_month_pos [of ?y ?m] m by (simp add: months_after_def valid_date_def Let_def)
  have "0 \<le> (m - 1 + k) div 12" using m(1) assms(2) by (simp add: pos_imp_zdiv_nonneg_iff)
  then show "y \<le> fst (months_after (y, m, d) k)" by (simp add: months_after_def Let_def)
qed

lemma months_after_years:
  assumes "valid_date (y, m, d)"
  shows "months_after (y, m, d) (12 * n) =
    (y + n, m, if m = 2 \<and> d = 29 \<and> \<not> is_leap_year (y + n) then 28 else d)"
proof -
  have m: "0 \<le> m - 1" "m - 1 < 12" using assms by (auto simp: valid_date_def)
  have "(m - 1 + 12 * n) div 12 = n" "(m - 1 + 12 * n) mod 12 = m - 1" using m by simp_all
  moreover have "min d (days_in_month (y + n) m) =
      (if m = 2 \<and> d = 29 \<and> \<not> is_leap_year (y + n) then 28 else d)"
  proof (cases "m = 2")
    case True
    then have "d \<le> 29" "28 \<le> d \<Longrightarrow> d = 28 \<or> d = 29"
      using assms by (auto simp: valid_date_def days_in_month_def split: if_splits)
    with True show ?thesis by (auto simp: days_in_month_def)
  next
    case False
    moreover have "m = 1 \<or> m = 3 \<or> m = 4 \<or> m = 5 \<or> m = 6 \<or> m = 7 \<or> m = 8 \<or> m = 9 \<or> m = 10
        \<or> m = 11 \<or> m = 12" using m False by presburger
    ultimately have "days_in_month (y + n) m = days_in_month y m" by (auto simp: days_in_month_def)
    with False assms show ?thesis by (simp add: valid_date_def)
  qed
  ultimately show ?thesis unfolding months_after_def Let_def by simp
qed

lemma add_months_end:
  assumes "0 \<le> sint now" "civil_from_days (sint now div 86400) = (y, m, d)"
    "months_after (y, m, d) (uint k) = (y', m', d')"
  shows "add_calendar_months now k = end_of_day (days_from_civil y' m' d') (sint now mod 86400)"
  using assms by (auto simp: add_calendar_months_def months_after_def Let_def)

lemma add_years_end:
  assumes "civil_from_days (sint now div 86400) = (y, m, d)"
    "months_after (y, m, d) (12 * uint n) = (y', m', d')"
  shows "add_calendar_years now n = end_of_day (days_from_civil y' m' d') (sint now mod 86400)"
  using months_after_years [OF civil_valid [OF assms(1)]] assms
  by (auto simp: add_calendar_years_def Let_def)

text \<open>One statement covers both additions: \<open>k\<close> counts months.\<close>

lemma months_end_spec:
  assumes "0 \<le> sint now" "civil_from_days (sint now div 86400) = (y, m, d)" "0 \<le> k"
  defines "target \<equiv> months_after (y, m, d) k"
  defines "t \<equiv> (case target of (y', m', d') \<Rightarrow> end_of_day (days_from_civil y' m' d') (sint now mod 86400))"
  shows "if date_less target (9999, 12, 31)
         then civil_from_days (t div 86400) = target \<and> t mod 86400 = sint now mod 86400
         else t = max_expiration_unix_secs"
    "0 \<le> t div 86400" "t div 86400 \<le> max_expiration_days" "t \<le> max_expiration_unix_secs"
proof -
  obtain y' m' d' where tg: "target = (y', m', d')" by (cases target)
  have v: "valid_date (y, m, d)" by (rule civil_valid [OF assms(2)])
  have "0 \<le> sint now div 86400" using assms(1) by (simp add: pos_imp_zdiv_nonneg_iff)
  then have "1970 \<le> y" using days_nonneg [OF v] days_civil [OF assms(2)] by simp
  moreover note months_after_valid [OF v assms(3)]
  ultimately have v': "valid_date (y', m', d')" "1970 \<le> y'" using tg by (auto simp: target_def)
  note spec = end_of_day_spec [OF v', of "sint now mod 86400"]
  show "if date_less target (9999, 12, 31)
        then civil_from_days (t div 86400) = target \<and> t mod 86400 = sint now mod 86400
        else t = max_expiration_unix_secs"
    using spec(1) by (simp add: t_def tg)
  show "0 \<le> t div 86400" "t div 86400 \<le> max_expiration_days" "t \<le> max_expiration_unix_secs"
    using spec(2-4) by (simp_all add: t_def tg)
qed


text \<open>The eight digits of a day, and how far the day counts of the callers reach.\<close>

lemma max_days: "max_expiration_days = 2932896" by code_simp

lemma max_date_text: "format_yyyymmdd (civil_from_days max_expiration_days) = Some (ascii ''99991231'')"
proof -
  have "civil_from_days max_expiration_days = (9999, 12, 31)"
    using civil_days [OF max_date_valid(1)] by (simp add: max_expiration_days_def MAX_EXPIRATION_YEAR_def)
  then show ?thesis
    by (simp add: format_yyyymmdd_def show_int_padded_def show_padded_def show_dec.simps ascii_def)
qed

lemma days_from_now:
  assumes "uint now \<le> max_expiration_unix_secs"
  shows "chuid_expiration_in_days now n = format_yyyymmdd (civil_from_days
    (if uint n \<le> int (max_valid_days now) then uint now div 86400 + uint n else max_expiration_days))"
proof -
  have n: "uint n < 4294967296" "0 \<le> uint n" using uint_lt2p [of n] by simp_all
  let ?t = "uint now"
  have t: "0 \<le> ?t" "?t div 86400 \<le> 2932896" using assms by (simp_all add: max_expiration_unix_secs_def max_days)
  have "?t \<le> 253402300799" using assms by (simp add: max_expiration_unix_secs_def max_days)
  then have s: "min (2 ^ 64 - 1) (?t + min (2 ^ 64 - 1) (uint n * 86400)) = ?t + uint n * 86400"
    using n by simp
  have d: "(?t + uint n * 86400) div 86400 = ?t div 86400 + uint n" by simp
  have "0 \<le> ?t div 86400" using t by (simp add: pos_imp_zdiv_nonneg_iff)
  then have mx: "int (max_valid_days now) = 2932896 - ?t div 86400"
    using t by (simp add: max_valid_days_def clamp_u32_def max_days)
  show ?thesis unfolding chuid_expiration_in_days_def Let_def s d mx max_days by (simp add: min_def)
qed

text \<open>The end of a moment's period, as one record of what it must satisfy.\<close>

definition period_end :: "u64 \<Rightarrow> int \<Rightarrow> int \<Rightarrow> bool" where
  "period_end now k t \<longleftrightarrow>
     (let target = months_after (civil_from_days (sint now div 86400)) k in
      if date_less target (9999, 12, 31)
      then civil_from_days (t div 86400) = target \<and> t mod 86400 = sint now mod 86400
      else t = max_expiration_unix_secs)"

definition eight_digits :: "bytes option \<Rightarrow> bool" where
  "eight_digits r \<longleftrightarrow> (\<exists>s. r = Some s \<and> length s = 8 \<and> list_all is_ascii_digit s)"

lemma months_end:
  assumes "0 \<le> sint now"
  shows "period_end now (uint k) (add_calendar_months now k)"
    "eight_digits (chuid_expiration_in_months now k)"
    "add_calendar_months now k \<le> max_expiration_unix_secs" "0 \<le> add_calendar_months now k div 86400"
proof -
  obtain y m d where c: "civil_from_days (sint now div 86400) = (y, m, d)" by (cases "civil_from_days (sint now div 86400)")
  obtain y' m' d' where t: "months_after (y, m, d) (uint k) = (y', m', d')" by (cases "months_after (y, m, d) (uint k)")
  note e = add_months_end [OF assms c t]
  note spec = months_end_spec [OF assms c, of "uint k", unfolded t prod.case, folded e, simplified]
  show "period_end now (uint k) (add_calendar_months now k)" using spec(1) by (simp add: period_end_def c t)
  show "eight_digits (chuid_expiration_in_months now k)"
    unfolding chuid_expiration_in_months_def eight_digits_def by (rule civil_range [OF spec(2,3)])
  show "add_calendar_months now k \<le> max_expiration_unix_secs" "0 \<le> add_calendar_months now k div 86400"
    using spec(2,4) by simp_all
qed

lemma years_end:
  assumes "0 \<le> sint now"
  shows "period_end now (12 * uint n) (add_calendar_years now n)"
    "eight_digits (chuid_expiration_in_years now n)"
    "add_calendar_years now n \<le> max_expiration_unix_secs" "0 \<le> add_calendar_years now n div 86400"
proof -
  obtain y m d where c: "civil_from_days (sint now div 86400) = (y, m, d)" by (cases "civil_from_days (sint now div 86400)")
  obtain y' m' d' where t: "months_after (y, m, d) (12 * uint n) = (y', m', d')"
    by (cases "months_after (y, m, d) (12 * uint n)")
  note e = add_years_end [OF c t]
  note spec = months_end_spec [OF assms c, of "12 * uint n", unfolded t prod.case, folded e, simplified]
  show "period_end now (12 * uint n) (add_calendar_years now n)" using spec(1) by (simp add: period_end_def c t)
  show "eight_digits (chuid_expiration_in_years now n)"
    unfolding chuid_expiration_in_years_def eight_digits_def by (rule civil_range [OF spec(2,3)])
  show "add_calendar_years now n \<le> max_expiration_unix_secs" "0 \<le> add_calendar_years now n div 86400"
    using spec(2,4) by simp_all
qed

lemma days_end: "eight_digits (chuid_expiration_in_days now n)"
  unfolding chuid_expiration_in_days_def eight_digits_def Let_def
  by (rule civil_range) (use max_days_pos in \<open>auto simp: pos_imp_zdiv_nonneg_iff\<close>)

lemma max_secs: "max_expiration_unix_secs = 253402300799"
  by (simp add: max_expiration_unix_secs_def max_days)

lemma flat_days:
  assumes "0 \<le> sint now"
  shows "add_calendar_period now 0 0 n = min (sint now + uint n * 86400) max_expiration_unix_secs"
  by (simp add: add_calendar_period_def max_secs)

text \<open>C35: An expiry counted in calendar months or years falls on the same day of the month (or on the
  last one, where the month is shorter) at the same time of the day, and never after the last second of
  the year 9999; the composed period never ends later either, and a flat number of days is added as it
  is.  The expiration text of a CHUID always has its eight digits, so the copy into the fixed array
  cannot panic, and counted in days it is the date that many days from today as long as the count is
  at most the one \<^verbatim>\<open>max_valid_days\<close> announces, the last day of 9999 beyond.\<close>

theorem piv_expiry_dates:
  assumes "0 \<le> sint now"
  shows "period_end now (uint k) (add_calendar_months now k) \<and>
    period_end now (12 * uint n) (add_calendar_years now n) \<and>
    add_calendar_period now n k l \<le> max_expiration_unix_secs \<and>
    add_calendar_period now 0 0 l = min (sint now + uint l * 86400) max_expiration_unix_secs \<and>
    eight_digits (chuid_expiration_in_days now l) \<and>
    eight_digits (chuid_expiration_in_months now k) \<and>
    eight_digits (chuid_expiration_in_years now n) \<and>
    (uint now \<le> max_expiration_unix_secs \<longrightarrow>
     chuid_expiration_in_days now l =
       (if uint l \<le> int (max_valid_days now) then format_yyyymmdd (civil_from_days (uint now div 86400 + uint l))
        else Some (ascii ''99991231'')))"
proof -
  have "add_calendar_period now n k l \<le> max_expiration_unix_secs" by (simp add: add_calendar_period_def Let_def)
  with months_end [OF assms] years_end [OF assms] days_end flat_days [OF assms] days_from_now max_date_text
  show ?thesis by simp
qed

theorem piv_expiry_dates_witness:
  "0 \<le> sint (1706745600 :: u64) \<and> period_end 1706745600 1 (add_calendar_months 1706745600 1)"
proof -
  have "0 \<le> sint (1706745600 :: u64)" by code_simp
  with piv_expiry_dates [of 1706745600 1 1 1] show ?thesis by simp
qed

lemma date_groups_valid:
  assumes "expiry_parse_date s = Ok e"
  shows "\<exists>y m d. e = OnDate (y, m, d) \<and> valid_date (y, m, d) \<and> 1970 \<le> y \<and> y \<le> 2105"
  using assms
  by (auto simp: expiry_parse_date_def date_groups_def valid_date_def split: option.splits list.splits if_splits)

lemma is_after_less: "is_after a b \<longleftrightarrow> date_less b a"
  by (cases a, cases b) (auto simp: is_after_def date_less_def)

lemma resolve_on_date:
  assumes "expiry_resolve input today = Ok (OnDate day)"
  shows "valid_date day \<and> is_after day today \<and> 1970 \<le> fst day \<and> fst day \<le> 2105"
proof -
  have "xi_choice input = ChooseDate" using assms by (cases "xi_choice input") (simp_all add: expiry_resolve_def)
  with assms obtain e where p': "expiry_parse_date (xi_text input) = Ok e"
    and k: "(case e of OnDate day \<Rightarrow>
                if is_after today day then Err ''That date is in the past.''
                else if day = today then Err ''Pick a date after today.'' else Ok e | _ \<Rightarrow> Ok e) = Ok (OnDate day)"
    by (auto simp: expiry_resolve_def)
  then have e: "e = OnDate day" and l: "\<not> is_after today day" "day \<noteq> today"
    by (cases e; simp split: if_splits)+
  from p' e have p: "expiry_parse_date (xi_text input) = Ok (OnDate day)" by simp
  moreover have "is_after day today" using l by (cases day, cases today) (auto simp: is_after_def)
  ultimately show ?thesis using date_groups_valid [OF p] by auto
qed

lemma last_second_2105:
  assumes "valid_date (y, m, d)" "y \<le> 2105"
  shows "days_from_civil y m d \<le> 49672"
proof -
  have v: "valid_date (2105, 12, 31)" by (simp add: valid_date_def days_in_month_def)
  have "\<not> date_less (2105, 12, 31) (y, m, d)"
    using assms days_in_month_pos [of y m] by (auto simp: date_less_def valid_date_def days_in_month_def split: if_splits)
  moreover have "days_from_civil 2105 12 31 = 49672" by code_simp
  ultimately show ?thesis using days_less_iff [OF v assms(1)] by linarith
qed

lemma on_date_round:
  fixes created :: u32
  assumes "valid_date (y, m, d)" "y \<le> 2105" "is_after (y, m, d) (civil_from_days (uint created div DAY))"
  shows "\<exists>secs. expiry_seconds_after (OnDate (y, m, d)) created = Ok (Some secs) \<and> 0 < uint secs
    \<and> uint created + uint secs = days_from_civil y m d * DAY + DAY div 2
    \<and> current_expiry created (Some secs) = Some (y, m, d)"
proof -
  let ?n = "days_from_civil y m d" and ?today = "uint created div 86400"
  obtain ty tm td where t: "civil_from_days ?today = (ty, tm, td)" by (cases "civil_from_days ?today")
  have "?today < ?n"
    using days_less_iff [OF civil_valid [OF t] assms(1)] days_civil [OF t] assms(3) t
    by (simp add: is_after_less DAY_def)
  then have gt: "uint created < ?n * 86400" by simp
  have le: "?n \<le> 49672" by (rule last_second_2105 [OF assms(1,2)])
  let ?e = "?n * 86400 + 43200"
  have nn: "0 \<le> uint created" by simp
  have e: "0 \<le> ?e" "?e < 4294967296" using gt le nn by linarith+
  then have ue: "uint (word_of_int ?e :: u32) = ?e" by (simp only: uint_word_of_int) simp
  let ?s = "word_of_int ?e - created"
  have us: "uint ?s = ?e - uint created"
    using ue gt uint_sub_lem [of created "word_of_int ?e"] by simp
  have "expiry_seconds_after (OnDate (y, m, d)) created = Ok (Some ?s)"
    using \<open>?today < ?n\<close> gt e
    by (simp add: expiry_seconds_after_def expiry_end_time_def expiry_day_def DAY_def Let_def)
  moreover have "(?e - 1) div 86400 = ?n" by simp
  then have "current_expiry created (Some ?s) = Some (y, m, d)"
    using us civil_days [OF assms(1)] by (simp add: current_expiry_def DAY_def)
  ultimately show ?thesis using us gt by (auto simp: DAY_def)
qed

text \<open>The date the expiry field shows reads back as the same date, and a date the form accepts is a
  date of the calendar after today and within what OpenPGP's 32-bit times reach: the expiry is then
  written without an error, lies at midday of that day, and shows as that very day afterwards.\<close>

theorem expiry_field_date:
  fixes created :: u32
  assumes "valid_date (y, m, d)" "0 \<le> y" "y \<le> 9999"
    and "expiry_resolve input (civil_from_days (uint created div DAY)) = Ok (OnDate day)"
  shows "date_parse (date_iso (y, m, d)) = Some (y, m, d) \<and>
    valid_date day \<and> is_after day (civil_from_days (uint created div DAY)) \<and>
    (\<exists>secs. expiry_seconds_after (OnDate day) created = Ok (Some secs) \<and> 0 < uint secs
       \<and> uint created + uint secs = day_number day * DAY + DAY div 2
       \<and> current_expiry created (Some secs) = Some day)"
proof -
  obtain y' m' d' where day: "day = (y', m', d')" by (cases day)
  note r = resolve_on_date [OF assms(4)]
  with day on_date_round [of y' m' d' created] date_parse_iso [OF assms(1-3)]
  show ?thesis by (simp add: day_number_def)
qed

theorem expiry_field_date_witness:
  "expiry_resolve (expiry_for_existing (Some (2030, 2, 28)) (2026, 1, 1)) (civil_from_days (uint (1767225600 :: u32) div DAY))
     = Ok (OnDate (2030, 2, 28))
   \<and> (\<exists>secs. expiry_seconds_after (OnDate (2030, 2, 28)) 1767225600 = Ok (Some secs)
        \<and> current_expiry 1767225600 (Some secs) = Some (2030, 2, 28))"
proof -
  have v: "valid_date (2030, 2, 28)" by code_simp
  have g: "date_groups (date_iso (2030, 2, 28)) = Some (2030, 2, 28)" by (rule date_groups_iso [OF v]) simp_all
  have today: "civil_from_days (uint (1767225600 :: u32) div DAY) = (2026, 1, 1)" by code_simp
  have r: "expiry_resolve (expiry_for_existing (Some (2030, 2, 28)) (2026, 1, 1))
      (civil_from_days (uint (1767225600 :: u32) div DAY)) = Ok (OnDate (2030, 2, 28))"
    unfolding today
    by (simp add: expiry_resolve_def expiry_for_existing_def Let_def expiry_parse_date_def g
        is_after_def days_in_month_def)
  from expiry_field_date [OF v _ _ r] r show ?thesis by auto
qed

end
