(* ===== verification/Sha.thy ===== *)
theory Sha
  imports Prelude
begin

text \<open>
  \<^verbatim>\<open>crates/keyroost-proto/src/sha1.rs\<close>, \<^verbatim>\<open>sha256.rs\<close> and
  \<^verbatim>\<open>sha512.rs\<close>.  The three files have the same incremental frame around different
  compression functions, so \<open>update_with\<close> and \<open>finish_with\<close> are written once over the block
  size and the compression function, and each hash's \<^verbatim>\<open>update\<close> and
  \<^verbatim>\<open>finalize\<close> is an instance.  The buffer is the fixed array of the source, stale bytes
  included.  The locale \<open>block_hash\<close> shows that any sequence of updates hashes the
  concatenation, padded as in FIPS 180-4.
\<close>

record ('w, 'l) hasher =
  hstate :: "'w list"
  hbuf :: bytes
  hbuf_len :: nat
  hbits :: 'l

text \<open>\<^verbatim>\<open>xs[at..at + ys.len()].copy_from_slice(ys)\<close>.\<close>

definition copy_at :: "nat \<Rightarrow> 'a list \<Rightarrow> 'a list \<Rightarrow> 'a list" where
  "copy_at at ys xs = take at xs @ ys @ drop (at + length ys) xs"

text \<open>\<^verbatim>\<open>for i in a..b { xs[i] = 0 }\<close>.\<close>

definition zero_range :: "nat \<Rightarrow> nat \<Rightarrow> bytes \<Rightarrow> bytes" where
  "zero_range a b xs = copy_at a (replicate (b - a) 0) xs"

type_synonym 'w compress = "'w list \<Rightarrow> bytes \<Rightarrow> 'w list"

definition process_with :: "'w compress \<Rightarrow> bytes \<Rightarrow> ('w, 'l) hasher \<Rightarrow> ('w, 'l) hasher" where
  "process_with compress block st = st\<lparr>hstate := compress (hstate st) block\<rparr>"

text \<open>The block loop of \<^verbatim>\<open>update\<close>: returns the state and the rest of the data.\<close>

function update_blocks :: "nat \<Rightarrow> 'w compress \<Rightarrow> ('w, 'l) hasher \<Rightarrow> bytes
    \<Rightarrow> ('w, 'l) hasher \<times> bytes" where
  "update_blocks B compress st data =
     (if 0 < B \<and> B \<le> length data
      then update_blocks B compress (process_with compress (take B data) st) (drop B data)
      else (st, data))"
  by pat_completeness auto
termination
  by (relation "measure (\<lambda>(B, _, _, data). length data)") auto

declare update_blocks.simps [simp del]

definition update_buffered :: "nat \<Rightarrow> 'w compress \<Rightarrow> ('w, 'l) hasher \<Rightarrow> bytes
    \<Rightarrow> ('w, 'l) hasher \<times> bytes" where
  "update_buffered B compress st data =
     (if 0 < hbuf_len st then
        (let n = min (B - hbuf_len st) (length data);
             st = st\<lparr>hbuf := copy_at (hbuf_len st) (take n data) (hbuf st), hbuf_len := hbuf_len st + n\<rparr>;
             data = drop n data
         in if hbuf_len st = B
            then ((process_with compress (hbuf st) st)\<lparr>hbuf_len := 0\<rparr>, data)
            else (st, data))
      else (st, data))"

definition update_with :: "nat \<Rightarrow> 'w compress \<Rightarrow> ('w, 'l::len word) hasher \<Rightarrow> bytes \<Rightarrow> ('w, 'l word) hasher" where
  "update_with B compress st data =
     (let st = st\<lparr>hbits := hbits st + word_of_nat (length data) * 8\<rparr>;
          (st, data) = update_buffered B compress st data;
          (st, data) = update_blocks B compress st data
      in if data \<noteq> [] then st\<lparr>hbuf := copy_at 0 data (hbuf st), hbuf_len := length data\<rparr> else st)"

text \<open>Padding and the last blocks; \<open>L\<close> is the size of the length field.\<close>

definition finish_with :: "nat \<Rightarrow> nat \<Rightarrow> 'w compress \<Rightarrow> ('w, 'l::len word) hasher \<Rightarrow> 'w list" where
  "finish_with B L compress st =
     (let bit_len = hbits st;
          st = st\<lparr>hbuf := (hbuf st)[hbuf_len st := 0x80], hbuf_len := hbuf_len st + 1\<rparr>;
          st = (if B - L < hbuf_len st
                then (process_with compress (zero_range (hbuf_len st) B (hbuf st)) st)
                       \<lparr>hbuf := zero_range (hbuf_len st) B (hbuf st), hbuf_len := 0\<rparr>
                else st);
          st = st\<lparr>hbuf := zero_range (hbuf_len st) (B - L) (hbuf st)\<rparr>;
          st = st\<lparr>hbuf := copy_at (B - L) (be_bytes L (unat bit_len)) (hbuf st)\<rparr>
      in hstate (process_with compress (hbuf st) st))"

definition new_hasher :: "nat \<Rightarrow> 'w list \<Rightarrow> ('w, 'l::len word) hasher" where
  "new_hasher B iv = \<lparr>hstate = iv, hbuf = replicate B 0, hbuf_len = 0, hbits = 0\<rparr>"

definition block_words :: "(bytes \<Rightarrow> 'w) \<Rightarrow> nat \<Rightarrow> bytes \<Rightarrow> 'w list" where
  "block_words conv n block = map (\<lambda>i. conv (take n (drop (i * n) block))) [0..<16]"

subsection \<open>SHA-1\<close>

definition sha1_schedule :: "bytes \<Rightarrow> u32 list" where
  "sha1_schedule block =
     fold (\<lambda>i w. w[i := word_rotl 1 (w ! (i - 3) XOR w ! (i - 8) XOR w ! (i - 14) XOR w ! (i - 16))])
       [16..<80] (block_words u32_from_be 4 block @ replicate 64 0)"

type_synonym sha1_regs = "u32 \<times> u32 \<times> u32 \<times> u32 \<times> u32"

definition sha1_round :: "u32 list \<Rightarrow> nat \<Rightarrow> sha1_regs \<Rightarrow> sha1_regs" where
  "sha1_round w i = (\<lambda>(a, b, c, d, e).
     let (f, k) = (if i \<le> 19 then ((b AND c) OR (NOT b AND d), 0x5a827999)
                   else if i \<le> 39 then (b XOR c XOR d, 0x6ed9eba1)
                   else if i \<le> 59 then ((b AND c) OR (b AND d) OR (c AND d), 0x8f1bbcdc)
                   else (b XOR c XOR d, 0xca62c1d6));
         temp = word_rotl 5 a + f + e + k + w ! i
     in (temp, a, word_rotl 30 b, c, d))"

definition sha1_process_block :: "u32 list \<Rightarrow> bytes \<Rightarrow> u32 list" where
  "sha1_process_block hs block =
     (let (a, b, c, d, e) = fold (sha1_round (sha1_schedule block)) [0..<80]
            (hs ! 0, hs ! 1, hs ! 2, hs ! 3, hs ! 4)
      in [hs ! 0 + a, hs ! 1 + b, hs ! 2 + c, hs ! 3 + d, hs ! 4 + e])"

definition SHA1_IV :: "u32 list" where
  "SHA1_IV = [0x67452301, 0xefcdab89, 0x98badcfe, 0x10325476, 0xc3d2e1f0]"

definition sha1_new :: "(u32, u64) hasher" where "sha1_new = new_hasher 64 SHA1_IV"
definition sha1_update :: "(u32, u64) hasher \<Rightarrow> bytes \<Rightarrow> (u32, u64) hasher" where
  "sha1_update = update_with 64 sha1_process_block"
definition sha1_finalize :: "(u32, u64) hasher \<Rightarrow> bytes" where
  "sha1_finalize st = concat (map u32_to_be (finish_with 64 8 sha1_process_block st))"

definition sha1 :: "bytes \<Rightarrow> bytes" where
  "sha1 data = sha1_finalize (sha1_update sha1_new data)"

subsection \<open>SHA-256\<close>

definition SHA256_K :: "u32 list" where
  "SHA256_K = concat
    [[0x428a2f98, 0x71374491, 0xb5c0fbcf, 0xe9b5dba5],
     [0x3956c25b, 0x59f111f1, 0x923f82a4, 0xab1c5ed5],
     [0xd807aa98, 0x12835b01, 0x243185be, 0x550c7dc3],
     [0x72be5d74, 0x80deb1fe, 0x9bdc06a7, 0xc19bf174],
     [0xe49b69c1, 0xefbe4786, 0x0fc19dc6, 0x240ca1cc],
     [0x2de92c6f, 0x4a7484aa, 0x5cb0a9dc, 0x76f988da],
     [0x983e5152, 0xa831c66d, 0xb00327c8, 0xbf597fc7],
     [0xc6e00bf3, 0xd5a79147, 0x06ca6351, 0x14292967],
     [0x27b70a85, 0x2e1b2138, 0x4d2c6dfc, 0x53380d13],
     [0x650a7354, 0x766a0abb, 0x81c2c92e, 0x92722c85],
     [0xa2bfe8a1, 0xa81a664b, 0xc24b8b70, 0xc76c51a3],
     [0xd192e819, 0xd6990624, 0xf40e3585, 0x106aa070],
     [0x19a4c116, 0x1e376c08, 0x2748774c, 0x34b0bcb5],
     [0x391c0cb3, 0x4ed8aa4a, 0x5b9cca4f, 0x682e6ff3],
     [0x748f82ee, 0x78a5636f, 0x84c87814, 0x8cc70208],
     [0x90befffa, 0xa4506ceb, 0xbef9a3f7, 0xc67178f2]]"

definition sha256_schedule :: "bytes \<Rightarrow> u32 list" where
  "sha256_schedule block =
     fold (\<lambda>i w.
         let s0 = word_rotr 7 (w ! (i - 15)) XOR word_rotr 18 (w ! (i - 15)) XOR drop_bit 3 (w ! (i - 15));
             s1 = word_rotr 17 (w ! (i - 2)) XOR word_rotr 19 (w ! (i - 2)) XOR drop_bit 10 (w ! (i - 2))
         in w[i := w ! (i - 16) + s0 + w ! (i - 7) + s1])
       [16..<64] (block_words u32_from_be 4 block @ replicate 48 0)"

type_synonym 'w sha2_regs = "'w word \<times> 'w word \<times> 'w word \<times> 'w word \<times> 'w word \<times> 'w word \<times> 'w word \<times> 'w word"

definition sha256_round :: "u32 list \<Rightarrow> nat \<Rightarrow> 32 sha2_regs \<Rightarrow> 32 sha2_regs" where
  "sha256_round w i = (\<lambda>(a, b, c, d, e, f, g, h).
     let big_s1 = word_rotr 6 e XOR word_rotr 11 e XOR word_rotr 25 e;
         ch = (e AND f) XOR (NOT e AND g);
         t1 = h + big_s1 + ch + SHA256_K ! i + w ! i;
         big_s0 = word_rotr 2 a XOR word_rotr 13 a XOR word_rotr 22 a;
         maj = (a AND b) XOR (a AND c) XOR (b AND c);
         t2 = big_s0 + maj
     in (t1 + t2, a, b, c, d + t1, e, f, g))"

definition sha256_process_block :: "u32 list \<Rightarrow> bytes \<Rightarrow> u32 list" where
  "sha256_process_block hs block =
     (let (a, b, c, d, e, f, g, h) = fold (sha256_round (sha256_schedule block)) [0..<64]
            (hs ! 0, hs ! 1, hs ! 2, hs ! 3, hs ! 4, hs ! 5, hs ! 6, hs ! 7)
      in [hs ! 0 + a, hs ! 1 + b, hs ! 2 + c, hs ! 3 + d, hs ! 4 + e, hs ! 5 + f, hs ! 6 + g, hs ! 7 + h])"

definition SHA256_IV :: "u32 list" where
  "SHA256_IV = concat
    [[0x6a09e667, 0xbb67ae85, 0x3c6ef372, 0xa54ff53a],
     [0x510e527f, 0x9b05688c, 0x1f83d9ab, 0x5be0cd19]]"

definition sha256_new :: "(u32, u64) hasher" where "sha256_new = new_hasher 64 SHA256_IV"
definition sha256_update :: "(u32, u64) hasher \<Rightarrow> bytes \<Rightarrow> (u32, u64) hasher" where
  "sha256_update = update_with 64 sha256_process_block"
definition sha256_finalize :: "(u32, u64) hasher \<Rightarrow> bytes" where
  "sha256_finalize st = concat (map u32_to_be (finish_with 64 8 sha256_process_block st))"

definition sha256 :: "bytes \<Rightarrow> bytes" where
  "sha256 data = sha256_finalize (sha256_update sha256_new data)"

subsection \<open>SHA-384 and SHA-512\<close>

definition SHA512_K :: "u64 list" where
  "SHA512_K = concat
    [[0x428a2f98d728ae22, 0x7137449123ef65cd, 0xb5c0fbcfec4d3b2f, 0xe9b5dba58189dbbc],
     [0x3956c25bf348b538, 0x59f111f1b605d019, 0x923f82a4af194f9b, 0xab1c5ed5da6d8118],
     [0xd807aa98a3030242, 0x12835b0145706fbe, 0x243185be4ee4b28c, 0x550c7dc3d5ffb4e2],
     [0x72be5d74f27b896f, 0x80deb1fe3b1696b1, 0x9bdc06a725c71235, 0xc19bf174cf692694],
     [0xe49b69c19ef14ad2, 0xefbe4786384f25e3, 0x0fc19dc68b8cd5b5, 0x240ca1cc77ac9c65],
     [0x2de92c6f592b0275, 0x4a7484aa6ea6e483, 0x5cb0a9dcbd41fbd4, 0x76f988da831153b5],
     [0x983e5152ee66dfab, 0xa831c66d2db43210, 0xb00327c898fb213f, 0xbf597fc7beef0ee4],
     [0xc6e00bf33da88fc2, 0xd5a79147930aa725, 0x06ca6351e003826f, 0x142929670a0e6e70],
     [0x27b70a8546d22ffc, 0x2e1b21385c26c926, 0x4d2c6dfc5ac42aed, 0x53380d139d95b3df],
     [0x650a73548baf63de, 0x766a0abb3c77b2a8, 0x81c2c92e47edaee6, 0x92722c851482353b],
     [0xa2bfe8a14cf10364, 0xa81a664bbc423001, 0xc24b8b70d0f89791, 0xc76c51a30654be30],
     [0xd192e819d6ef5218, 0xd69906245565a910, 0xf40e35855771202a, 0x106aa07032bbd1b8],
     [0x19a4c116b8d2d0c8, 0x1e376c085141ab53, 0x2748774cdf8eeb99, 0x34b0bcb5e19b48a8],
     [0x391c0cb3c5c95a63, 0x4ed8aa4ae3418acb, 0x5b9cca4f7763e373, 0x682e6ff3d6b2b8a3],
     [0x748f82ee5defb2fc, 0x78a5636f43172f60, 0x84c87814a1f0ab72, 0x8cc702081a6439ec],
     [0x90befffa23631e28, 0xa4506cebde82bde9, 0xbef9a3f7b2c67915, 0xc67178f2e372532b],
     [0xca273eceea26619c, 0xd186b8c721c0c207, 0xeada7dd6cde0eb1e, 0xf57d4f7fee6ed178],
     [0x06f067aa72176fba, 0x0a637dc5a2c898a6, 0x113f9804bef90dae, 0x1b710b35131c471b],
     [0x28db77f523047d84, 0x32caab7b40c72493, 0x3c9ebe0a15c9bebc, 0x431d67c49c100d4c],
     [0x4cc5d4becb3e42b6, 0x597f299cfc657e2a, 0x5fcb6fab3ad6faec, 0x6c44198c4a475817]]"

definition sha512_schedule :: "bytes \<Rightarrow> u64 list" where
  "sha512_schedule block =
     fold (\<lambda>i w.
         let s0 = word_rotr 1 (w ! (i - 15)) XOR word_rotr 8 (w ! (i - 15)) XOR drop_bit 7 (w ! (i - 15));
             s1 = word_rotr 19 (w ! (i - 2)) XOR word_rotr 61 (w ! (i - 2)) XOR drop_bit 6 (w ! (i - 2))
         in w[i := w ! (i - 16) + s0 + w ! (i - 7) + s1])
       [16..<80] (block_words u64_from_be 8 block @ replicate 64 0)"

definition sha512_round :: "u64 list \<Rightarrow> nat \<Rightarrow> 64 sha2_regs \<Rightarrow> 64 sha2_regs" where
  "sha512_round w i = (\<lambda>(a, b, c, d, e, f, g, h).
     let big_s1 = word_rotr 14 e XOR word_rotr 18 e XOR word_rotr 41 e;
         ch = (e AND f) XOR (NOT e AND g);
         t1 = h + big_s1 + ch + SHA512_K ! i + w ! i;
         big_s0 = word_rotr 28 a XOR word_rotr 34 a XOR word_rotr 39 a;
         maj = (a AND b) XOR (a AND c) XOR (b AND c);
         t2 = big_s0 + maj
     in (t1 + t2, a, b, c, d + t1, e, f, g))"

definition sha512_process_block :: "u64 list \<Rightarrow> bytes \<Rightarrow> u64 list" where
  "sha512_process_block hs block =
     (let (a, b, c, d, e, f, g, h) = fold (sha512_round (sha512_schedule block)) [0..<80]
            (hs ! 0, hs ! 1, hs ! 2, hs ! 3, hs ! 4, hs ! 5, hs ! 6, hs ! 7)
      in [hs ! 0 + a, hs ! 1 + b, hs ! 2 + c, hs ! 3 + d, hs ! 4 + e, hs ! 5 + f, hs ! 6 + g, hs ! 7 + h])"

definition H384 :: "u64 list" where
  "H384 = concat
    [[0xcbbb9d5dc1059ed8, 0x629a292a367cd507, 0x9159015a3070dd17, 0x152fecd8f70e5939],
     [0x67332667ffc00b31, 0x8eb44a8768581511, 0xdb0c2e0d64f98fa7, 0x47b5481dbefa4fa4]]"

definition H512 :: "u64 list" where
  "H512 = concat
    [[0x6a09e667f3bcc908, 0xbb67ae8584caa73b, 0x3c6ef372fe94f82b, 0xa54ff53a5f1d36f1],
     [0x510e527fade682d1, 0x9b05688c2b3e6c1f, 0x1f83d9abfb41bd6b, 0x5be0cd19137e2179]]"

definition core_new :: "u64 list \<Rightarrow> (u64, 128 word) hasher" where "core_new iv = new_hasher 128 iv"
definition core_update :: "(u64, 128 word) hasher \<Rightarrow> bytes \<Rightarrow> (u64, 128 word) hasher" where
  "core_update = update_with 128 sha512_process_block"
definition core_finalize :: "(u64, 128 word) hasher \<Rightarrow> bytes" where
  "core_finalize st = concat (map u64_to_be (finish_with 128 16 sha512_process_block st))"

definition sha384_finalize :: "(u64, 128 word) hasher \<Rightarrow> bytes" where
  "sha384_finalize st = take 48 (core_finalize st)"

definition sha384 :: "bytes \<Rightarrow> bytes" where
  "sha384 data = sha384_finalize (core_update (core_new H384) data)"

definition sha512 :: "bytes \<Rightarrow> bytes" where
  "sha512 data = core_finalize (core_update (core_new H512) data)"

subsection \<open>Streaming\<close>

text \<open>The padded message of FIPS 180-4, section 5.1, for blocks of \<open>B\<close> bytes and a length field of
  \<open>L\<close> bytes.\<close>

definition fips_pad :: "nat \<Rightarrow> nat \<Rightarrow> bytes \<Rightarrow> bytes" where
  "fips_pad B L m = m @ [0x80] @ replicate ((B - (length m + 1 + L) mod B) mod B) 0 @ be_bytes L (8 * length m)"

text \<open>A hasher has absorbed a message: whole blocks went through the compression function, the rest
  is in the buffer.\<close>

definition holds_parts :: "nat \<Rightarrow> 'w compress \<Rightarrow> 'w list \<Rightarrow> ('w, 'l) hasher \<Rightarrow> bytes list \<Rightarrow> bytes \<Rightarrow> bool" where
  "holds_parts B compress iv st blocks tail \<longleftrightarrow>
     list_all (\<lambda>b. length b = B) blocks \<and> length tail < B \<and> hstate st = foldl compress iv blocks \<and>
     hbuf_len st = length tail \<and> length (hbuf st) = B \<and> take (length tail) (hbuf st) = tail"

definition absorbed :: "nat \<Rightarrow> 'w compress \<Rightarrow> 'w list \<Rightarrow> ('w, 'l::len word) hasher \<Rightarrow> bytes \<Rightarrow> bool" where
  "absorbed B compress iv st m \<longleftrightarrow>
     (\<exists>blocks tail. m = concat blocks @ tail \<and> holds_parts B compress iv st blocks tail) \<and>
     hbits st = word_of_nat (length m) * 8"

lemma length_copy_at [simp]: "at + length ys \<le> length xs \<Longrightarrow> length (copy_at at ys xs) = length xs"
  by (simp add: copy_at_def)

lemma update_blocks_split:
  "0 < B \<Longrightarrow> \<exists>blocks r. update_blocks B compress st data = (st\<lparr>hstate := foldl compress (hstate st) blocks\<rparr>, r) \<and>
    data = concat blocks @ r \<and> list_all (\<lambda>b. length b = B) blocks \<and> length r < B"
proof (induction B compress st data rule: update_blocks.induct)
  case (1 B compress st data)
  show ?case
  proof (cases "B \<le> length data")
    case True
    with 1 obtain blocks r where IH: "update_blocks B compress (process_with compress (take B data) st) (drop B data)
        = ((process_with compress (take B data) st)\<lparr>hstate := foldl compress (hstate (process_with compress (take B data) st)) blocks\<rparr>, r)"
      "drop B data = concat blocks @ r" "list_all (\<lambda>b. length b = B) blocks" "length r < B"
      by blast
    from IH(2) have "data = concat (take B data # blocks) @ r" by (metis append_assoc append_take_drop_id concat.simps(2))
    with IH True "1.prems" show ?thesis
      by (intro exI [of _ "take B data # blocks"] exI [of _ r], subst update_blocks.simps)
         (simp add: process_with_def)
  next
    case False
    then show ?thesis
      by (intro exI [of _ "[]"] exI [of _ data], subst update_blocks.simps) simp
  qed
qed

lemma holds_parts_no_tail:
  "holds_parts B compress iv st blocks tail \<Longrightarrow> 0 < B \<Longrightarrow> hbuf_len st = 0 \<Longrightarrow>
    \<exists>blocks' tail'. (let (st, data) = update_blocks B compress st data in
       holds_parts B compress iv (if data \<noteq> [] then st\<lparr>hbuf := copy_at 0 data (hbuf st), hbuf_len := length data\<rparr> else st)
         (blocks @ blocks') tail') \<and> concat blocks' @ tail' = data"
  using update_blocks_split [of B compress st data]
  by (auto simp: holds_parts_def copy_at_def)

lemma update_buffered_parts:
  assumes "holds_parts B compress iv st blocks tail" "0 < B"
  obtains blocks' tail' rest st' where "update_buffered B compress st data = (st', rest)"
    "holds_parts B compress iv st' (blocks @ blocks') tail'" "concat blocks' @ tail' @ rest = tail @ data"
    "hbits st' = hbits st" "rest = [] \<or> tail' = []"
proof -
  note a = assms(1) [unfolded holds_parts_def]
  show thesis
  proof (cases "hbuf_len st = 0")
    case True
    then show thesis using that [of st data "[]" tail] assms a by (simp add: update_buffered_def)
  next
    case False
    define n where "n = min (B - hbuf_len st) (length data)"
    let ?tail = "tail @ take n data"
    have t: "take (length ?tail) (copy_at (hbuf_len st) (take n data) (hbuf st)) = ?tail"
      "length (copy_at (hbuf_len st) (take n data) (hbuf st)) = B"
      using a by (auto simp: copy_at_def n_def)
    show thesis
    proof (cases "hbuf_len st + n = B")
      case True
      then have "copy_at (hbuf_len st) (take n data) (hbuf st) = ?tail"
        using t a by (metis length_append length_take min.absorb2 n_def take_all_iff min.cobounded2 order_refl)
      with True False t a n_def show thesis
        using that [of _ "drop n data" "[?tail]" "[]"]
        by (simp add: update_buffered_def process_with_def holds_parts_def Let_def assms(2))
    next
      case False': False
      then have "n = length data" "length ?tail < B" using a by (auto simp: n_def min_def split: if_splits)
      with False' False t a n_def show thesis
        using that [of _ "drop n data" "[]" ?tail]
        by (simp add: update_buffered_def holds_parts_def Let_def)
    qed
  qed
qed

lemma pad_count:
  assumes "t < B" "L < B" "n mod B = t"
  shows "(B - (n + 1 + L) mod B) mod B = (if B - L < t + 1 then (B - t - 1) + (B - L) else B - L - t - (1 :: nat))"
proof -
  have "(n + 1 + L) mod B = (t + 1 + L) mod B" using assms(3) by (metis add.assoc mod_add_left_eq)
  moreover have "(B - (t + 1 + L) mod B) mod B = (if B - L < t + 1 then (B - t - 1) + (B - L) else B - L - t - 1)"
  proof (cases "t + 1 + L < B")
    case False
    then have "(t + 1 + L) mod B = t + 1 + L - B" using assms by (simp add: mod_if)
    with False assms show ?thesis by (cases "t + 1 + L = B") auto
  qed (use assms in auto)
  ultimately show ?thesis by simp
qed

lemma concat_blocks_length: "list_all (\<lambda>b. length b = B) blocks \<Longrightarrow> length (concat blocks) = B * length blocks"
  by (induction blocks) auto

text \<open>The buffer after the 0x80 byte and the zeros.\<close>

lemma zero_after_mark:
  assumes "take t b = tail" "t = length tail" "t < length b" "t < e" "e \<le> length b"
  shows "take e (zero_range (t + 1) e (b[t := 0x80])) = tail @ [0x80] @ replicate (e - t - 1) 0"
    "length (zero_range (t + 1) e (b[t := 0x80])) = length b"
proof -
  have "take (t + 1) (b[t := 0x80]) = tail @ [0x80]"
    using assms by (simp add: take_Suc_conv_app_nth)
  then have "zero_range (t + 1) e (b[t := 0x80]) = (tail @ [0x80] @ replicate (e - t - 1) 0) @ drop e (b[t := 0x80])"
    using assms(4) by (simp add: zero_range_def copy_at_def)
  moreover have "length (tail @ [0x80 :: byte] @ replicate (e - t - 1) 0) = e" using assms by simp
  ultimately show "take e (zero_range (t + 1) e (b[t := 0x80])) = tail @ [0x80] @ replicate (e - t - 1) 0"
    by (metis append_eq_conv_conj)
  show "length (zero_range (t + 1) e (b[t := 0x80])) = length b"
    using assms by (simp add: zero_range_def)
qed

text \<open>The contract of a block hash: a compression function that returns \<open>N\<close> words, and a length
  field of the size of the bit counter that fits into a block.\<close>

locale block_hash =
  fixes B L N :: nat
    and compress :: "'w list \<Rightarrow> bytes \<Rightarrow> 'w list"
    and counter :: "'l::len itself"
  assumes counter_size: "L * 8 = LENGTH('l)"
    and length_fits: "L < B"
    and compress_size: "length (compress hs block) = N"
begin

lemma block_pos: "0 < B"
  using length_fits by simp

lemma update_absorbs:
  assumes "absorbed B compress iv (st :: ('w, 'l word) hasher) m"
  shows "absorbed B compress iv (update_with B compress st data) (m @ data)"
proof -
  let ?st = "st\<lparr>hbits := hbits st + word_of_nat (length data) * 8\<rparr>"
  from assms obtain blocks tail where m: "m = concat blocks @ tail" "holds_parts B compress iv ?st blocks tail"
    unfolding absorbed_def holds_parts_def by auto
  have bits: "hbits ?st = word_of_nat (length (m @ data)) * 8"
    using assms by (simp add: absorbed_def algebra_simps)
  obtain blocks' tail' rest st' where
    b: "update_buffered B compress ?st data = (st', rest)" "holds_parts B compress iv st' (blocks @ blocks') tail'"
      "concat blocks' @ tail' @ rest = tail @ data" "hbits st' = hbits ?st" "rest = [] \<or> tail' = []"
    by (rule update_buffered_parts [OF m(2) block_pos, of data]) blast
  obtain bl r where u: "update_blocks B compress st' rest = (st'\<lparr>hstate := foldl compress (hstate st') bl\<rparr>, r)"
    "rest = concat bl @ r" "list_all (\<lambda>b. length b = B) bl" "length r < B"
    using update_blocks_split [OF block_pos] by blast
  let ?new = "update_with B compress st data"
  have new: "?new = (if r \<noteq> [] then st'\<lparr>hstate := foldl compress (hstate st') bl, hbuf := copy_at 0 r (hbuf st'), hbuf_len := length r\<rparr>
      else st'\<lparr>hstate := foldl compress (hstate st') bl\<rparr>)"
    by (simp add: update_with_def Let_def b(1) u(1))
  have "\<exists>bs t. m @ data = concat bs @ t \<and> holds_parts B compress iv ?new bs t"
  proof (cases "r = []")
    case True
    with u(2) b(5) have "tail' @ concat bl = concat bl @ tail'" by (auto simp del: concat_eq_Nil_conv)
    then have "tail @ data = concat blocks' @ concat bl @ tail'" using b(3) u(2) True by (metis append_Nil2)
    then show ?thesis using b(2) u True m(1)
      by (intro exI [of _ "blocks @ blocks' @ bl"] exI [of _ tail']) (auto simp: new holds_parts_def)
  next
    case False
    with u(2) b(5) have "tail' = []" by auto
    with False b(2,3) u m(1) show ?thesis
      by (intro exI [of _ "blocks @ blocks' @ bl"] exI [of _ r]) (simp add: new holds_parts_def copy_at_def)
  qed
  moreover have "hbits ?new = word_of_nat (length (m @ data)) * 8"
    using b(4) bits by (simp add: new)
  ultimately show ?thesis unfolding absorbed_def by blast
qed

lemma new_absorbs: "absorbed B compress iv (new_hasher B iv :: ('w, 'l word) hasher) []"
  using block_pos by (auto simp: absorbed_def new_hasher_def holds_parts_def intro!: exI [of _ "[]"])

lemma updates_absorb:
  "absorbed B compress iv (st :: ('w, 'l word) hasher) m \<Longrightarrow>
   absorbed B compress iv (foldl (update_with B compress) st ds) (m @ concat ds)"
proof (induction ds arbitrary: st m)
  case (Cons d ds)
  from Cons.IH [OF update_absorbs [OF Cons.prems, of d]] show ?case by simp
qed simp

lemma finish_padded:
  assumes "absorbed B compress iv (st :: ('w, 'l word) hasher) m"
  shows "finish_with B L compress st = foldl compress iv (chunks B (fips_pad B L m))"
proof -
  from assms obtain blocks tail where m: "m = concat blocks @ tail" and p: "holds_parts B compress iv st blocks tail"
    and bits: "hbits st = word_of_nat (length m) * 8"
    by (auto simp: absorbed_def)
  note p = p [unfolded holds_parts_def]
  let ?t = "length tail" and ?len = "be_bytes L (8 * length m)"
  have bl: "list_all (\<lambda>b. length b = B) blocks" "?t < B" "hbuf_len st = ?t" "length (hbuf st) = B"
    "take ?t (hbuf st) = tail" "hstate st = foldl compress iv blocks" using p by auto
  have "unat (hbits st) = (8 * length m) mod 256 ^ L"
  proof -
    have "hbits st = word_of_nat (8 * length m)" unfolding bits by simp
    then have "unat (hbits st) = (8 * length m) mod 2 ^ LENGTH('l)" by (simp only: unat_of_nat)
    moreover have "(2 :: nat) ^ LENGTH('l) = (2 ^ 8) ^ L" unfolding counter_size [symmetric] by (metis mult.commute power_mult)
    ultimately show ?thesis by simp
  qed
  then have len: "be_bytes L (unat (hbits st)) = ?len" by (simp add: be_bytes_mod)
  have mod: "length m mod B = ?t" using m bl(1,2) by (simp add: concat_blocks_length)
  note k = pad_count [OF bl(2) length_fits mod]
  show ?thesis
  proof (cases "B - L < ?t + 1")
    case True
    let ?b1 = "tail @ [0x80] @ replicate (B - ?t - 1) 0" and ?b2 = "replicate (B - L) 0 @ ?len"
    have z: "zero_range (?t + 1) B ((hbuf st)[?t := 0x80]) = ?b1"
      using zero_after_mark [OF bl(5) refl, of B] bl(2,4) by simp
    have "fips_pad B L m = concat (blocks @ [?b1, ?b2])"
      using True unfolding fips_pad_def k by (simp add: m replicate_add)
    moreover have "list_all (\<lambda>b. length b = B) (blocks @ [?b1, ?b2])"
      using bl length_fits by simp
    ultimately have "chunks B (fips_pad B L m) = blocks @ [?b1, ?b2]"
      by (simp only: chunks_concat [OF block_pos])
    moreover have "copy_at (B - L) ?len (zero_range 0 (B - L) ?b1) = ?b2"
      using bl(2) length_fits by (simp add: copy_at_def zero_range_def)
    ultimately show ?thesis
      using True z by (simp add: finish_with_def Let_def process_with_def bl(3,6) len)
  next
    case False
    let ?b = "tail @ [0x80] @ replicate (B - L - ?t - 1) 0 @ ?len"
    let ?z = "zero_range (?t + 1) (B - L) ((hbuf st)[?t := 0x80])"
    have z: "take (B - L) ?z = tail @ [0x80] @ replicate (B - L - ?t - 1) 0" "length ?z = B"
      using zero_after_mark [OF bl(5) refl, of "B - L"] bl(2,4) False by simp_all
    have "fips_pad B L m = concat (blocks @ [?b])"
      using False unfolding fips_pad_def k by (simp add: m)
    moreover have "list_all (\<lambda>b. length b = B) (blocks @ [?b])"
      using bl length_fits False by simp
    ultimately have "chunks B (fips_pad B L m) = blocks @ [?b]"
      by (simp only: chunks_concat [OF block_pos])
    moreover have "copy_at (B - L) ?len ?z = ?b"
      using z length_fits by (simp add: copy_at_def)
    ultimately show ?thesis
      using False by (simp add: finish_with_def Let_def process_with_def bl(3,6) len)
  qed
qed

lemma stream_hash:
  "finish_with B L compress (foldl (update_with B compress) (new_hasher B iv :: ('w, 'l word) hasher) ds)
     = foldl compress iv (chunks B (fips_pad B L (concat ds)))"
  using finish_padded [OF updates_absorb [OF new_absorbs, of iv ds]] by simp

lemma finish_size: "length (finish_with B L compress (st :: ('w, 'l word) hasher)) = N"
  by (simp add: finish_with_def Let_def process_with_def compress_size)

end

interpretation sha1h: block_hash 64 8 5 sha1_process_block "TYPE(64)"
  by unfold_locales (simp_all add: sha1_process_block_def split: prod.splits)

interpretation sha256h: block_hash 64 8 8 sha256_process_block "TYPE(64)"
  by unfold_locales (simp_all add: sha256_process_block_def split: prod.splits)

interpretation sha512h: block_hash 128 16 8 sha512_process_block "TYPE(128)"
  by unfold_locales (simp_all add: sha512_process_block_def split: prod.splits)

lemma one_update: "update_with B c st m = foldl (update_with B c) st [m]"
  by simp

lemma length_concat_words:
  "length (concat (map u32_to_be ws)) = 4 * length ws" "length (concat (map u64_to_be xs)) = 8 * length xs"
  by (induction ws, simp_all) (induction xs, simp_all)

lemmas sha_defs = sha1_def sha1_new_def sha1_update_def sha1_finalize_def
  sha256_def sha256_new_def sha256_update_def sha256_finalize_def
  sha384_def sha384_finalize_def sha512_def core_new_def core_update_def core_finalize_def

lemma sha_lengths [simp]:
  "length (sha1 m) = 20" "length (sha256 m) = 32" "length (sha384 m) = 48" "length (sha512 m) = 64"
  by (simp_all add: sha_defs length_concat_words sha1h.finish_size sha256h.finish_size sha512h.finish_size)

text \<open>C36: each hash, fed in any number of pieces, returns the digest of the concatenation: the
  compression function run over the blocks of the message padded as FIPS 180-4 prescribes.  In particular
  the pieces do not matter, so the incremental result is the one-shot one.\<close>

theorem sha_streaming:
  "sha1_finalize (foldl sha1_update sha1_new ds)
     = concat (map u32_to_be (foldl sha1_process_block SHA1_IV (chunks 64 (fips_pad 64 8 (concat ds)))))
   \<and> sha1_finalize (foldl sha1_update sha1_new ds) = sha1 (concat ds)
   \<and> sha256_finalize (foldl sha256_update sha256_new ds)
     = concat (map u32_to_be (foldl sha256_process_block SHA256_IV (chunks 64 (fips_pad 64 8 (concat ds)))))
   \<and> sha256_finalize (foldl sha256_update sha256_new ds) = sha256 (concat ds)
   \<and> core_finalize (foldl core_update (core_new iv) ds)
     = concat (map u64_to_be (foldl sha512_process_block iv (chunks 128 (fips_pad 128 16 (concat ds)))))
   \<and> sha384_finalize (foldl core_update (core_new H384) ds) = sha384 (concat ds)
   \<and> core_finalize (foldl core_update (core_new H512) ds) = sha512 (concat ds)"
  unfolding sha_defs one_update sha1h.stream_hash sha256h.stream_hash sha512h.stream_hash by simp

end
