(* ===== verification/Sm4.thy ===== *)
theory Sm4
  imports Prelude
begin

text \<open>
  \<^verbatim>\<open>crates/keyroost-proto/src/sm4.rs\<close>: the SM4 block cipher, ECB and CBC.  The working array
  of 36 words is a list, filled by the source's loops; \<open>fill_spec\<close> characterises such a loop by
  its recurrence.  An assertion that fails is \<open>None\<close>.  The wipes of key material in
  \<^verbatim>\<open>new\<close> and \<^verbatim>\<open>drop\<close> have no functional effect and are left out.
\<close>

definition SBOX :: "byte list" where
  "SBOX =
    [0xd6, 0x90, 0xe9, 0xfe, 0xcc, 0xe1, 0x3d, 0xb7, 0x16, 0xb6, 0x14, 0xc2, 0x28, 0xfb, 0x2c, 0x05,
     0x2b, 0x67, 0x9a, 0x76, 0x2a, 0xbe, 0x04, 0xc3, 0xaa, 0x44, 0x13, 0x26, 0x49, 0x86, 0x06, 0x99,
     0x9c, 0x42, 0x50, 0xf4, 0x91, 0xef, 0x98, 0x7a, 0x33, 0x54, 0x0b, 0x43, 0xed, 0xcf, 0xac, 0x62,
     0xe4, 0xb3, 0x1c, 0xa9, 0xc9, 0x08, 0xe8, 0x95, 0x80, 0xdf, 0x94, 0xfa, 0x75, 0x8f, 0x3f, 0xa6,
     0x47, 0x07, 0xa7, 0xfc, 0xf3, 0x73, 0x17, 0xba, 0x83, 0x59, 0x3c, 0x19, 0xe6, 0x85, 0x4f, 0xa8,
     0x68, 0x6b, 0x81, 0xb2, 0x71, 0x64, 0xda, 0x8b, 0xf8, 0xeb, 0x0f, 0x4b, 0x70, 0x56, 0x9d, 0x35,
     0x1e, 0x24, 0x0e, 0x5e, 0x63, 0x58, 0xd1, 0xa2, 0x25, 0x22, 0x7c, 0x3b, 0x01, 0x21, 0x78, 0x87,
     0xd4, 0x00, 0x46, 0x57, 0x9f, 0xd3, 0x27, 0x52, 0x4c, 0x36, 0x02, 0xe7, 0xa0, 0xc4, 0xc8, 0x9e,
     0xea, 0xbf, 0x8a, 0xd2, 0x40, 0xc7, 0x38, 0xb5, 0xa3, 0xf7, 0xf2, 0xce, 0xf9, 0x61, 0x15, 0xa1,
     0xe0, 0xae, 0x5d, 0xa4, 0x9b, 0x34, 0x1a, 0x55, 0xad, 0x93, 0x32, 0x30, 0xf5, 0x8c, 0xb1, 0xe3,
     0x1d, 0xf6, 0xe2, 0x2e, 0x82, 0x66, 0xca, 0x60, 0xc0, 0x29, 0x23, 0xab, 0x0d, 0x53, 0x4e, 0x6f,
     0xd5, 0xdb, 0x37, 0x45, 0xde, 0xfd, 0x8e, 0x2f, 0x03, 0xff, 0x6a, 0x72, 0x6d, 0x6c, 0x5b, 0x51,
     0x8d, 0x1b, 0xaf, 0x92, 0xbb, 0xdd, 0xbc, 0x7f, 0x11, 0xd9, 0x5c, 0x41, 0x1f, 0x10, 0x5a, 0xd8,
     0x0a, 0xc1, 0x31, 0x88, 0xa5, 0xcd, 0x7b, 0xbd, 0x2d, 0x74, 0xd0, 0x12, 0xb8, 0xe5, 0xb4, 0xb0,
     0x89, 0x69, 0x97, 0x4a, 0x0c, 0x96, 0x77, 0x7e, 0x65, 0xb9, 0xf1, 0x09, 0xc5, 0x6e, 0xc6, 0x84,
     0x18, 0xf0, 0x7d, 0xec, 0x3a, 0xdc, 0x4d, 0x20, 0x79, 0xee, 0x5f, 0x3e, 0xd7, 0xcb, 0x39, 0x48]"

definition FK :: "u32 list" where
  "FK = [0xa3b1bac6, 0x56aa3350, 0x677d9197, 0xb27022dc]"

definition CK :: "u32 list" where
  "CK = map (\<lambda>i.
     let b0 = word_of_nat ((4 * i) * 7) AND 0xff;
         b1 = word_of_nat ((4 * i + 1) * 7) AND 0xff;
         b2 = word_of_nat ((4 * i + 2) * 7) AND 0xff;
         b3 = word_of_nat ((4 * i + 3) * 7) AND 0xff
     in push_bit 24 b0 OR push_bit 16 b1 OR push_bit 8 b2 OR b3) [0..<32]"

definition tau :: "u32 \<Rightarrow> u32" where
  "tau a =
     (let b0 = ucast (SBOX ! unat (drop_bit 24 a AND 0xff));
          b1 = ucast (SBOX ! unat (drop_bit 16 a AND 0xff));
          b2 = ucast (SBOX ! unat (drop_bit 8 a AND 0xff));
          b3 = ucast (SBOX ! unat (a AND 0xff))
      in push_bit 24 b0 OR push_bit 16 b1 OR push_bit 8 b2 OR b3)"

definition l_round :: "u32 \<Rightarrow> u32" where
  "l_round b = b XOR word_rotl 2 b XOR word_rotl 10 b XOR word_rotl 18 b XOR word_rotl 24 b"

definition l_key :: "u32 \<Rightarrow> u32" where
  "l_key b = b XOR word_rotl 13 b XOR word_rotl 23 b"

definition t_round :: "u32 \<Rightarrow> u32" where "t_round x = l_round (tau x)"
definition t_key :: "u32 \<Rightarrow> u32" where "t_key x = l_key (tau x)"

text \<open>The four words of a block, and the loop that fills the array from index 4 on; \<open>f\<close> is the
  round transformation and \<open>rk i\<close> the word mixed in at step \<open>i\<close>.\<close>

definition four_words :: "bytes \<Rightarrow> u32 list" where
  "four_words block = map (\<lambda>i. u32_from_be (take 4 (drop (i * 4) block))) [0..<4]"

definition fill :: "(u32 \<Rightarrow> u32) \<Rightarrow> (nat \<Rightarrow> u32) \<Rightarrow> u32 list \<Rightarrow> u32 list" where
  "fill f rk x = fold (\<lambda>i x. x[i + 4 := x ! i XOR f (x ! (i + 1) XOR x ! (i + 2) XOR x ! (i + 3) XOR rk i)])
     [0..<32] x"

record sm4 =
  rk :: "u32 list"

definition sm4_new :: "bytes \<Rightarrow> sm4" where
  "sm4_new key =
     (let k = map (\<lambda>i. four_words key ! i XOR FK ! i) [0..<4] @ replicate 32 0
      in \<lparr>rk = drop 4 (fill t_key (\<lambda>i. CK ! i) k)\<rparr>)"

definition encrypt_block :: "sm4 \<Rightarrow> bytes \<Rightarrow> bytes" where
  "encrypt_block c block =
     (let x = fill t_round (\<lambda>i. rk c ! i) (four_words block @ replicate 32 0)
      in concat (map (\<lambda>i. u32_to_be (x ! (35 - i))) [0..<4]))"

definition decrypt_block :: "sm4 \<Rightarrow> bytes \<Rightarrow> bytes" where
  "decrypt_block c block =
     (let x = fill t_round (\<lambda>i. rk c ! (31 - i)) (four_words block @ replicate 32 0)
      in concat (map (\<lambda>i. u32_to_be (x ! (35 - i))) [0..<4]))"

text \<open>The modes; the chunk loop runs over the whole blocks, as \<^verbatim>\<open>as_chunks_mut().0\<close> does.\<close>

definition encrypt_ecb :: "sm4 \<Rightarrow> bytes \<Rightarrow> bytes option" where
  "encrypt_ecb c data =
     (if length data mod 16 = 0 then Some (concat (map (encrypt_block c) (chunks 16 data))) else None)"

fun cbc_blocks :: "sm4 \<Rightarrow> bytes \<Rightarrow> bytes list \<Rightarrow> bytes list" where
  "cbc_blocks c prev [] = []"
| "cbc_blocks c prev (block # blocks) =
     (let ct = encrypt_block c (map2 (XOR) block prev) in ct # cbc_blocks c ct blocks)"

definition encrypt_cbc :: "sm4 \<Rightarrow> bytes \<Rightarrow> bytes \<Rightarrow> bytes option" where
  "encrypt_cbc c iv data =
     (if length data mod 16 = 0 then Some (concat (cbc_blocks c iv (chunks 16 data))) else None)"

subsection \<open>The loop as a recurrence\<close>

definition follows :: "(u32 \<Rightarrow> u32) \<Rightarrow> (nat \<Rightarrow> u32) \<Rightarrow> nat \<Rightarrow> u32 list \<Rightarrow> bool" where
  "follows f ks n x \<longleftrightarrow> (\<forall>i < n. x ! (i + 4) = x ! i XOR f (x ! (i + 1) XOR x ! (i + 2) XOR x ! (i + 3) XOR ks i))"

lemma fill_prefix:
  fixes f :: "u32 \<Rightarrow> u32" and ks :: "nat \<Rightarrow> u32"
  assumes "length x = n + 4"
  defines "y m \<equiv> fold (\<lambda>i x. x[i + 4 := x ! i XOR f (x ! (i + 1) XOR x ! (i + 2) XOR x ! (i + 3) XOR ks i)]) [0..<m] x"
  shows "m \<le> n \<Longrightarrow> length (y m) = n + 4 \<and> take 4 (y m) = take 4 x \<and> follows f ks m (y m)"
proof (induction m)
  case (Suc m)
  then have IH: "length (y m) = n + 4" "take 4 (y m) = take 4 x" "follows f ks m (y m)" by auto
  have y: "y (Suc m) = (y m)[m + 4 := y m ! m XOR f (y m ! (m + 1) XOR y m ! (m + 2) XOR y m ! (m + 3) XOR ks m)]"
    by (simp add: y_def)
  have "follows f ks (Suc m) (y (Suc m))"
    using IH(1,3) Suc.prems by (auto simp: follows_def y less_Suc_eq)
  then show ?case using IH by (simp add: y)
qed (simp_all add: y_def assms(1) follows_def)

lemma fill_spec:
  assumes "length x = 36"
  shows "length (fill f ks x) = 36" "take 4 (fill f ks x) = take 4 x" "follows f ks 32 (fill f ks x)"
  using fill_prefix [of x 32 32 f ks] assms by (simp_all add: fill_def)

lemma follows_unique:
  assumes "follows f ks n x" "follows f ks n y" "take 4 x = take 4 y" "length x = n + 4" "length y = n + 4"
  shows "x = y"
proof -
  have "x ! i = y ! i" if "i < n + 4" for i
    using that
  proof (induction i rule: less_induct)
    case (less i)
    show ?case
    proof (cases "i < 4")
      case True
      then show ?thesis using assms(3) by (metis nth_take)
    next
      case False
      then obtain j where j: "i = j + 4" by (metis le_add_diff_inverse2 not_less)
      with less assms(1,2) show ?thesis by (simp add: follows_def)
    qed
  qed
  with assms(4,5) show ?thesis by (simp add: list_eq_iff_nth_eq)
qed

text \<open>The Feistel argument: read backwards, the array follows the recurrence of the reversed keys.\<close>

lemma follows_rev:
  assumes "follows f ks n x" "length x = n + 4"
  shows "follows f (\<lambda>i. ks (n - 1 - i)) n (rev x)"
  unfolding follows_def
proof (intro allI impI)
  fix i assume i: "i < n"
  define k where "k = n - 1 - i"
  have kn: "k < n" using i by (simp add: k_def)
  have r: "rev x ! i = x ! (k + 4)" "rev x ! (i + 1) = x ! (k + 3)" "rev x ! (i + 2) = x ! (k + 2)"
    "rev x ! (i + 3) = x ! (k + 1)" "rev x ! (i + 4) = x ! k"
    using i assms(2) by (auto simp: rev_nth k_def intro!: arg_cong [where f = "nth x"])
  have "x ! (k + 4) = x ! k XOR f (x ! (k + 1) XOR x ! (k + 2) XOR x ! (k + 3) XOR ks k)"
    using assms(1) kn unfolding follows_def by blast
  moreover have "x ! (k + 3) XOR x ! (k + 2) XOR x ! (k + 1) = x ! (k + 1) XOR x ! (k + 2) XOR x ! (k + 3)"
    by (simp add: ac_simps)
  ultimately show "rev x ! (i + 4) = rev x ! i XOR f (rev x ! (i + 1) XOR rev x ! (i + 2) XOR rev x ! (i + 3)
      XOR ks (n - 1 - i))"
    unfolding r k_def [symmetric] by (simp add: xor.assoc [symmetric]) (simp add: xor.assoc)
qed

lemma upt4: "[0..<4] = [0, 1, 2, 3 :: nat]"
  by (simp add: upt_conv_Cons)

lemma length_four_words [simp]: "length (four_words b) = 4"
  by (simp add: four_words_def)

lemma four_words_concat:
  "length xs = 4 \<Longrightarrow> four_words (concat (map u32_to_be xs)) = xs"
  by (auto simp: four_words_def upt4 length_Suc_conv numeral_eq_Suc u32_from_to_be) 

lemma concat_four_words: "length b = 16 \<Longrightarrow> concat (map u32_to_be (four_words b)) = b"
proof -
  assume b: "length b = 16"
  have "b = take 4 b @ take 4 (drop 4 b) @ take 4 (drop 8 b) @ take 4 (drop 12 b)"
  proof -
    have "drop 4 b = take 4 (drop 4 b) @ drop 8 b" "drop 8 b = take 4 (drop 8 b) @ drop 12 b"
      using append_take_drop_id [of 4 "drop 4 b"] append_take_drop_id [of 4 "drop 8 b"]
      by (simp_all del: append_take_drop_id)
    moreover have "take 4 (drop 12 b) = drop 12 b" using b by simp
    ultimately show ?thesis using append_take_drop_id [of 4 b] by metis
  qed
  then show ?thesis using b by (simp add: four_words_def upt4 u32_to_from_be)
qed

lemma last_words:
  assumes "length x = 36"
  shows "concat (map (\<lambda>i. u32_to_be (x ! (35 - i))) [0..<4]) = concat (map u32_to_be (take 4 (rev x)))"
proof -
  have "take 4 (rev x) = map (\<lambda>i. x ! (35 - i)) [0..<4]"
    using assms by (intro nth_equalityI) (auto simp: rev_nth)
  then show ?thesis by (simp add: comp_def)
qed

lemma encrypt_block_alt:
  "encrypt_block c b = concat (map u32_to_be (take 4 (rev (fill t_round (\<lambda>i. rk c ! i) (four_words b @ replicate 32 0)))))"
  "decrypt_block c b = concat (map u32_to_be (take 4 (rev (fill t_round (\<lambda>i. rk c ! (31 - i)) (four_words b @ replicate 32 0)))))"
  unfolding encrypt_block_def decrypt_block_def Let_def
  by (rule last_words; simp add: fill_spec)+

lemma feistel_inverse:
  assumes "length b = 16"
  shows "concat (map u32_to_be (take 4 (rev (fill f (\<lambda>i. k (31 - i)) (four_words
     (concat (map u32_to_be (take 4 (rev (fill f k (four_words b @ replicate 32 0)))))) @ replicate 32 0))))) = b"
proof -
  let ?x = "fill f k (four_words b @ replicate 32 0)"
  have len: "length (four_words b @ replicate 32 (0 :: u32)) = 36" by simp
  note x = fill_spec [OF len, of f k]
  let ?s = "four_words (concat (map u32_to_be (take 4 (rev ?x)))) @ replicate 32 0"
  have s: "take 4 ?s = take 4 (rev ?x)" using x(1) by (simp add: four_words_concat)
  have "length ?s = 36" by simp
  note y = fill_spec [OF this, of f "\<lambda>i. k (31 - i)"]
  have "fill f (\<lambda>i. k (31 - i)) ?s = rev ?x"
  proof (rule follows_unique [OF y(3)])
    show "follows f (\<lambda>i. k (31 - i)) 32 (rev ?x)" using follows_rev [OF x(3)] x(1) by simp
    show "take 4 (fill f (\<lambda>i. k (31 - i)) ?s) = take 4 (rev ?x)" unfolding y(2) s ..
    show "length (fill f (\<lambda>i. k (31 - i)) ?s) = 32 + 4" unfolding y(1) by simp
    show "length (rev ?x) = 32 + 4" unfolding length_rev x(1) by simp
  qed
  then have "take 4 (rev (fill f (\<lambda>i. k (31 - i)) ?s)) = four_words b" using x(2) by simp
  then show ?thesis by (simp only: concat_four_words assms)
qed

lemma fill_cong: "(\<And>i. i < 32 \<Longrightarrow> k i = k' i) \<Longrightarrow> fill f k x = fill f k' x"
  unfolding fill_def by (intro fold_cong) auto

lemma decrypt_encrypt: "length b = 16 \<Longrightarrow> decrypt_block c (encrypt_block c b) = b"
  using feistel_inverse [of b t_round "\<lambda>i. rk c ! i"] by (simp only: encrypt_block_alt)

lemma encrypt_decrypt: "length b = 16 \<Longrightarrow> encrypt_block c (decrypt_block c b) = b"
proof -
  have "fill t_round (\<lambda>i. rk c ! (31 - (31 - i))) x = fill t_round (\<lambda>i. rk c ! i) x" for x
    by (rule fill_cong) simp
  then show "length b = 16 \<Longrightarrow> ?thesis"
    using feistel_inverse [of b t_round "\<lambda>i. rk c ! (31 - i)"] by (simp only: encrypt_block_alt)
qed

lemma length_concat_u32: "length (concat (map u32_to_be ws)) = 4 * length ws"
  by (induction ws) simp_all

lemma length_encrypt_block [simp]: "length (encrypt_block c b) = 16"
  unfolding encrypt_block_def Let_def by (simp add: upt4)

subsection \<open>Modes of operation\<close>

text \<open>The contract of a block cipher on 16-byte blocks, and what its two modes promise.\<close>

fun cbc_seal :: "(bytes \<Rightarrow> bytes) \<Rightarrow> bytes \<Rightarrow> bytes list \<Rightarrow> bytes list" where
  "cbc_seal enc prev [] = []"
| "cbc_seal enc prev (b # bs) = enc (map2 (XOR) b prev) # cbc_seal enc (enc (map2 (XOR) b prev)) bs"

fun cbc_open :: "(bytes \<Rightarrow> bytes) \<Rightarrow> bytes \<Rightarrow> bytes list \<Rightarrow> bytes list" where
  "cbc_open dec prev [] = []"
| "cbc_open dec prev (ct # cts) = map2 (XOR) (dec ct) prev # cbc_open dec ct cts"

lemma map2_xor_cancel: "length x = length y \<Longrightarrow> map2 (XOR) (map2 (XOR) x y) y = (x :: bytes)"
  by (induction x y rule: list_induct2) (simp_all add: xor.assoc)

locale block_cipher =
  fixes enc dec :: "bytes \<Rightarrow> bytes"
  assumes dec_enc: "length b = 16 \<Longrightarrow> dec (enc b) = b"
    and enc_length: "length (enc b) = 16"
begin

lemma ecb_open:
  "list_all (\<lambda>b. length b = 16) bs \<Longrightarrow>
   concat (map dec (chunks 16 (concat (map enc bs)))) = concat bs"
  by (induction bs) (simp_all add: chunks_append enc_length dec_enc)

lemma cbc_seal_lengths: "list_all (\<lambda>b. length b = 16) (cbc_seal enc prev bs)"
  by (induction bs arbitrary: prev) (simp_all add: enc_length)

lemma cbc_inverse:
  "list_all (\<lambda>b. length b = 16) bs \<Longrightarrow> length prev = 16 \<Longrightarrow> cbc_open dec prev (cbc_seal enc prev bs) = bs"
  by (induction bs arbitrary: prev) (simp_all add: dec_enc enc_length map2_xor_cancel)

lemma cbc_length: "length (concat (cbc_seal enc prev bs)) = 16 * length bs"
  by (induction bs arbitrary: prev) (simp_all add: enc_length)

end

interpretation sm4: block_cipher "encrypt_block c" "decrypt_block c" for c
  by unfold_locales (simp_all add: decrypt_encrypt)

lemma cbc_blocks_seal: "cbc_blocks c prev bs = cbc_seal (encrypt_block c) prev bs"
  by (induction bs arbitrary: prev) (simp_all add: Let_def)

lemma whole_chunks: "length d mod 16 = 0 \<Longrightarrow> list_all (\<lambda>b. length b = 16) (chunks 16 d)"
  by (auto simp: list_all_iff dvd_eq_mod_eq_0 intro: chunks_lengths)

lemma encrypt_ecb_open:
  assumes "encrypt_ecb c data = Some ct"
  shows "concat (map (decrypt_block c) (chunks 16 ct)) = data" "length ct = length data"
proof -
  from assms have m: "length data mod 16 = 0" and ct: "ct = concat (map (encrypt_block c) (chunks 16 data))"
    by (auto simp: encrypt_ecb_def split: if_splits)
  show "concat (map (decrypt_block c) (chunks 16 ct)) = data"
    unfolding ct by (simp add: sm4.ecb_open [OF whole_chunks [OF m]])
  have "length (concat (map (encrypt_block c) bs)) = length (concat bs)" if "list_all (\<lambda>b. length b = 16) bs" for bs
    using that by (induction bs) simp_all
  from this [OF whole_chunks [OF m]] show "length ct = length data" unfolding ct by simp
qed

lemma encrypt_cbc_open:
  assumes "encrypt_cbc c iv data = Some ct" "length iv = 16"
  shows "concat (cbc_open (decrypt_block c) iv (chunks 16 ct)) = data" "length ct = length data"
proof -
  from assms have m: "length data mod 16 = 0" and ct: "ct = concat (cbc_seal (encrypt_block c) iv (chunks 16 data))"
    by (auto simp: encrypt_cbc_def cbc_blocks_seal split: if_splits)
  have "chunks 16 ct = cbc_seal (encrypt_block c) iv (chunks 16 data)"
    unfolding ct by (simp add: chunks_concat sm4.cbc_seal_lengths)
  then show "concat (cbc_open (decrypt_block c) iv (chunks 16 ct)) = data"
    by (simp add: sm4.cbc_inverse whole_chunks [OF m] assms(2))
  have "16 * length bs = length (concat bs)" if "list_all (\<lambda>b. length b = 16) bs" for bs :: "bytes list"
    using that by (induction bs) simp_all
  from this [OF whole_chunks [OF m]] show "length ct = length data" unfolding ct sm4.cbc_length by simp
qed

subsection \<open>Properties\<close>

text \<open>For every key schedule, decryption inverts encryption on 16-byte blocks and the other way round,
  so encryption permutes the blocks.\<close>

theorem sm4_permutation:
  assumes "length b = 16"
  shows "decrypt_block c (encrypt_block c b) = b \<and> encrypt_block c (decrypt_block c b) = b"
  using assms by (simp add: decrypt_encrypt encrypt_decrypt)

theorem sm4_permutation_witness:
  "decrypt_block (sm4_new (replicate 16 7)) (encrypt_block (sm4_new (replicate 16 7)) (replicate 16 1)) = replicate 16 1"
  using sm4_permutation [of "replicate 16 1" "sm4_new (replicate 16 7)"] by simp

text \<open>the modes refuse (panic on) data that is not a whole number of blocks; otherwise they keep the
  length, and block-wise decryption, chained for CBC with the same initialization vector, gives the
  data back.\<close>

theorem sm4_modes:
  assumes "length iv = 16"
  shows "(case encrypt_ecb c data of None \<Rightarrow> length data mod 16 \<noteq> 0
          | Some ct \<Rightarrow> length data mod 16 = 0 \<and> length ct = length data
              \<and> concat (map (decrypt_block c) (chunks 16 ct)) = data)
    \<and> (case encrypt_cbc c iv data of None \<Rightarrow> length data mod 16 \<noteq> 0
          | Some ct \<Rightarrow> length data mod 16 = 0 \<and> length ct = length data
              \<and> concat (cbc_open (decrypt_block c) iv (chunks 16 ct)) = data)"
proof (cases "length data mod 16 = 0")
  case True
  then obtain e b where e: "encrypt_ecb c data = Some e" and b: "encrypt_cbc c iv data = Some b"
    by (simp add: encrypt_ecb_def encrypt_cbc_def)
  show ?thesis
    unfolding e b option.case using True encrypt_ecb_open [OF e] encrypt_cbc_open [OF b assms] by blast
next
  case False
  then show ?thesis by (simp add: encrypt_ecb_def encrypt_cbc_def)
qed

theorem sm4_modes_witness:
  "\<exists>ct. encrypt_cbc (sm4_new (replicate 16 7)) (replicate 16 0) (replicate 32 1) = Some ct \<and> length ct = 32
    \<and> concat (cbc_open (decrypt_block (sm4_new (replicate 16 7))) (replicate 16 0) (chunks 16 ct)) = replicate 32 1"
  using sm4_modes [of "replicate 16 0" "replicate 32 1" "sm4_new (replicate 16 7)"]
  by (auto split: option.splits)

end
