(* ===== verification/Apdu.thy ===== *)
theory Apdu
  imports Sm4
begin

text \<open>
  \<^verbatim>\<open>crates/keyroost-proto/src/apdu.rs\<close>: ISO 7816-4 command APDUs, the two paddings and the
  MAC of the secure Molto2 commands.  A panic (an assertion, an over-long body in
  \<^verbatim>\<open>build_apdu\<close>) is \<open>None\<close>.
\<close>

definition CLA_PLAIN :: byte where "CLA_PLAIN = 0x80"
definition CLA_SECURE :: byte where "CLA_SECURE = 0x84"

text \<open>\<^verbatim>\<open>while out.len() % 16 != 0 { out.push(0x00) }\<close>\<close>

function pad_zeros :: "bytes \<Rightarrow> bytes" where
  "pad_zeros out = (if length out mod 16 \<noteq> 0 then pad_zeros (out @ [0x00]) else out)"
  by pat_completeness auto
termination
  by (relation "measure (\<lambda>out. (16 - length out mod 16) mod 16)") (auto simp: mod_Suc)

declare pad_zeros.simps [simp del]

definition pad_iso7816 :: "bytes \<Rightarrow> bytes" where
  "pad_iso7816 data = pad_zeros (data @ [0x80])"

definition pad_iso7816_minimal :: "bytes \<Rightarrow> bytes" where
  "pad_iso7816_minimal data = (if length data mod 16 = 0 then data else pad_zeros (data @ [0x80]))"

definition mac :: "bytes \<Rightarrow> bytes \<Rightarrow> bytes \<Rightarrow> bytes option" where
  "mac sm4_key header payload =
     (let padded = pad_iso7816_minimal (header @ payload) in
      case encrypt_cbc (sm4_new sm4_key) (replicate 16 0) padded of
        None \<Rightarrow> None
      | Some buf \<Rightarrow> if length buf < 16 then None else Some (take 4 (drop (length buf - 16) buf)))"

datatype apdu_body_too_long = ApduBodyTooLong nat

definition try_build_apdu :: "byte \<Rightarrow> byte \<Rightarrow> byte \<Rightarrow> byte \<Rightarrow> bytes \<Rightarrow> (bytes, apdu_body_too_long) result" where
  "try_build_apdu cla ins p1 p2 data =
     (if 255 < length data then Err (ApduBodyTooLong (length data))
      else Ok ([cla, ins, p1, p2, word_of_nat (length data)] @ data))"

definition build_apdu :: "byte \<Rightarrow> byte \<Rightarrow> byte \<Rightarrow> byte \<Rightarrow> bytes \<Rightarrow> bytes option" where
  "build_apdu cla ins p1 p2 data =
     (case try_build_apdu cla ins p1 p2 data of Ok apdu \<Rightarrow> Some apdu | Err _ \<Rightarrow> None)"

definition build_apdu_get :: "byte \<Rightarrow> byte \<Rightarrow> byte \<Rightarrow> byte \<Rightarrow> byte \<Rightarrow> bytes" where
  "build_apdu_get cla ins p1 p2 le = [cla, ins, p1, p2, le]"

definition ends_in_le :: "bytes \<Rightarrow> bool" where
  "ends_in_le out =
     (if length out \<le> 4 then False
      else if length out = 5 then True
      else length out = 5 + unat (out ! 4) + 1)"

definition resend_with_le :: "bytes \<Rightarrow> byte \<Rightarrow> bytes" where
  "resend_with_le original le =
     (if ends_in_le original then original[length original - 1 := le] else original @ [le])"

subsection \<open>Padding\<close>

lemma pad_zeros_eq: "pad_zeros out = out @ replicate ((16 - length out mod 16) mod 16) 0"
proof (induction out rule: pad_zeros.induct)
  case (1 out)
  show ?case
  proof (cases "length out mod 16 = 0")
    case False
    have "pad_zeros out = (out @ [0]) @ replicate ((16 - length (out @ [0]) mod 16) mod 16) 0"
      using 1 False by (subst pad_zeros.simps) simp
    moreover have "(16 - length out mod 16) mod 16 = Suc ((16 - Suc (length out) mod 16) mod 16)"
      using False by (auto simp: mod_Suc)
    ultimately show ?thesis by simp
  qed (subst pad_zeros.simps, simp)
qed

lemma pad_zeros_aligned: "length (pad_zeros out) mod 16 = 0"
  by (induction out rule: pad_zeros.induct) (subst pad_zeros.simps, simp)

lemma pad_minimal_aligned: "length (pad_iso7816_minimal d) mod 16 = 0"
  by (simp add: pad_iso7816_minimal_def pad_zeros_aligned)

lemma dropWhile_zeros: "dropWhile (\<lambda>b. b = 0) (rev (d @ 0x80 # replicate n (0 :: byte))) = 0x80 # rev d"
  by (simp, subst dropWhile_append2) simp_all

lemma pad_mark_inj:
  assumes "d @ 0x80 # replicate m (0 :: byte) = e @ 0x80 # replicate n 0"
  shows "d = e"
proof -
  have "0x80 # rev d = 0x80 # rev e" using arg_cong [OF assms, of "\<lambda>x. dropWhile (\<lambda>b. b = 0) (rev x)"]
    unfolding dropWhile_zeros .
  then show ?thesis by simp
qed

lemma pad_iso7816_inj: "pad_iso7816 d = pad_iso7816 e \<longleftrightarrow> d = e"
  by (auto simp: pad_iso7816_def pad_zeros_eq dest: pad_mark_inj)

lemma pad_minimal_prefix: "\<exists>rest. pad_iso7816_minimal d = d @ rest"
  by (simp add: pad_iso7816_minimal_def pad_zeros_eq)

lemma pad_minimal_same_length: "pad_iso7816_minimal d = pad_iso7816_minimal e \<Longrightarrow> length d = length e \<Longrightarrow> d = e"
  using pad_minimal_prefix [of d] pad_minimal_prefix [of e] by auto


lemma pad_minimal_pos: "d \<noteq> [] \<Longrightarrow> pad_iso7816_minimal d \<noteq> []"
  using pad_minimal_prefix [of d] by auto

lemma mac_some:
  assumes "header \<noteq> []"
  obtains m where "mac key header payload = Some m" "length m = 4"
proof -
  let ?p = "pad_iso7816_minimal (header @ payload)"
  have p: "?p \<noteq> []" using assms by (simp add: pad_minimal_pos)
  obtain ct where ct: "encrypt_cbc (sm4_new key) (replicate 16 0) ?p = Some ct"
    by (simp add: encrypt_cbc_def pad_minimal_aligned)
  from encrypt_cbc_open(2) [OF ct] have "length ct = length ?p" by simp
  moreover have "length ?p \<ge> 16" using p pad_minimal_aligned [of "header @ payload"]
    by (metis dvd_imp_le length_greater_0_conv mod_0_imp_dvd)
  ultimately show thesis using that [of "take 4 (drop (length ct - 16) ct)"] by (simp add: mac_def ct)
qed

subsection \<open>Properties\<close>

text \<open>The paddings.  Both give whole blocks; \<^verbatim>\<open>pad_iso7816\<close> is injective, the
  minimal one is not (a message and the same message with its padding written out collide), but the MAC
  input is: its header carries the payload length, so two secure commands with the same padded input have
  the same header and payload.\<close>

theorem padding_and_mac_input:
  assumes "length h1 = 4" "length h2 = 4" "length p1 < 256" "length p2 < 256"
  shows "length (pad_iso7816 d) mod 16 = 0 \<and> length (pad_iso7816_minimal d) mod 16 = 0
    \<and> (pad_iso7816 d = pad_iso7816 e \<longleftrightarrow> d = e)
    \<and> pad_iso7816_minimal (replicate 15 1) = pad_iso7816_minimal (replicate 15 1 @ [0x80])
    \<and> (pad_iso7816_minimal (h1 @ word_of_nat (length p1) # p1) = pad_iso7816_minimal (h2 @ word_of_nat (length p2) # p2)
        \<longrightarrow> h1 = h2 \<and> p1 = p2)"
proof -
  have inj: "h1 = h2 \<and> p1 = p2"
    if "pad_iso7816_minimal (h1 @ word_of_nat (length p1) # p1) = pad_iso7816_minimal (h2 @ word_of_nat (length p2) # p2)"
  proof -
    obtain r1 r2 where "pad_iso7816_minimal (h1 @ word_of_nat (length p1) # p1) = (h1 @ word_of_nat (length p1) # p1) @ r1"
      "pad_iso7816_minimal (h2 @ word_of_nat (length p2) # p2) = (h2 @ word_of_nat (length p2) # p2) @ r2"
      using pad_minimal_prefix by blast
    with that have "(h1 @ word_of_nat (length p1) # p1) @ r1 = (h2 @ word_of_nat (length p2) # p2) @ r2" by simp
    then have h: "h1 = h2" and "(word_of_nat (length p1) :: byte) = word_of_nat (length p2)" using assms by simp_all
    then have "length p1 = length p2" using assms(3,4) by (metis unat_byte_of_nat mod_less)
    then show ?thesis using h pad_minimal_same_length [OF that] by simp
  qed
  have "length (pad_iso7816 d) mod 16 = 0" by (simp add: pad_iso7816_def pad_zeros_aligned)
  moreover have "pad_iso7816_minimal (replicate 15 1) = pad_iso7816_minimal (replicate 15 1 @ [0x80 :: byte])"
    by (simp add: pad_iso7816_minimal_def pad_zeros_eq)
  ultimately show ?thesis using inj by (simp add: pad_minimal_aligned pad_iso7816_inj)
qed

theorem padding_and_mac_input_witness:
  "pad_iso7816_minimal ([0x84, 0xc5, 1, 0] @ 1 # [7]) \<noteq> pad_iso7816_minimal ([0x84, 0xc5, 1, 0] @ 2 # [7, 0x80])"
  using padding_and_mac_input [of "[0x84, 0xc5, 1, 0]" "[0x84, 0xc5, 1, 0]" "[7]" "[7, 0x80]" "[]" "[]"] by simp

text \<open>Resending after 6C xx puts the length where it belongs in all four cases of a short command:
  it is appended to a bare header and to a command with data, and it replaces the one that is there,
  with or without data; a data byte is never overwritten.\<close>

theorem resend_cases:
  assumes "length hdr = 4" "d \<noteq> []" "length d < 256"
  shows "resend_with_le hdr le = hdr @ [le]
    \<and> resend_with_le (hdr @ [old]) le = hdr @ [le]
    \<and> resend_with_le (hdr @ [word_of_nat (length d)] @ d) le = (hdr @ [word_of_nat (length d)] @ d) @ [le]
    \<and> resend_with_le (hdr @ [word_of_nat (length d)] @ d @ [old]) le = hdr @ [word_of_nat (length d)] @ d @ [le]"
proof -
  have "0 < length d" using assms(2) by simp
  with assms(1,3) show ?thesis
    by (auto simp: resend_with_le_def ends_in_le_def nth_append list_update_append)
qed

theorem resend_cases_witness:
  "resend_with_le [0, 0xa4, 4, 0, 2, 0x11, 0x22] 9 = [0, 0xa4, 4, 0, 2, 0x11, 0x22, 9]"
  using resend_cases [of "[0, 0xa4, 4, 0]" "[0x11, 0x22]" 9 0] by simp

end
