(* ===== verification/Molto2.thy ===== *)
theory Molto2
  imports Apdu Sha Rust_Str "HOL-Library.Sublist"
begin

text \<open>
  \<^verbatim>\<open>crates/keyroost-proto/src/commands.rs\<close>: the command builders of the Molto2 token and the
  parsers of its two responses, and \<^verbatim>\<open>crates/keyroost-proto/src/lib.rs\<close>: the table of
  Token2 products.  A command is built or the source panics (\<open>None\<close>).
\<close>

subsection \<open>Commands\<close>

definition DEFAULT_CUSTOMER_KEY :: bytes where "DEFAULT_CUSTOMER_KEY = ascii ''TOKEN2MOLTO1-KEY''"

definition derive_sm4_key :: "bytes \<Rightarrow> bytes" where
  "derive_sm4_key customer_key = take 16 (sha1 customer_key)"

datatype hmac_algo = Sha1 | Sha256
datatype time_step = Seconds30 | Seconds60
datatype display_timeout = Sec15 | Sec30 | Sec60 | Sec120
datatype otp_digits = Four | Six | Eight | Ten

fun hmac_code :: "hmac_algo \<Rightarrow> byte" where "hmac_code Sha1 = 1" | "hmac_code Sha256 = 2"
fun step_code :: "time_step \<Rightarrow> byte" where "step_code Seconds30 = 0x1e" | "step_code Seconds60 = 0x3c"
fun timeout_code :: "display_timeout \<Rightarrow> byte" where
  "timeout_code Sec15 = 0" | "timeout_code Sec30 = 1" | "timeout_code Sec60 = 2" | "timeout_code Sec120 = 3"
fun digits_as_byte :: "otp_digits \<Rightarrow> byte" where
  "digits_as_byte Four = 4" | "digits_as_byte Six = 6" | "digits_as_byte Eight = 8" | "digits_as_byte Ten = 10"

record profile_config =
  cfg_display_timeout :: display_timeout
  cfg_algorithm :: hmac_algo
  cfg_digits :: otp_digits
  cfg_time_step :: time_step
  cfg_utc_time :: u32

record command =
  label :: string
  apdu :: bytes

definition command_of :: "string \<Rightarrow> bytes option \<Rightarrow> command option" where
  "command_of l a = map_option (\<lambda>a. \<lparr>label = l, apdu = a\<rparr>) a"

definition get_info :: command where
  "get_info = \<lparr>label = ''get info (serial + time)'', apdu = build_apdu_get CLA_PLAIN 0x41 0x00 0x00 0x00\<rparr>"

definition read_public_data :: "byte \<Rightarrow> command option" where
  "read_public_data profile = command_of ''read public data'' (build_apdu CLA_PLAIN 0x41 0x00 profile [0x70])"

definition delete_seed :: "byte \<Rightarrow> command" where
  "delete_seed profile = \<lparr>label = ''delete seed'', apdu = build_apdu_get CLA_PLAIN 0xE6 0x00 profile 0x00\<rparr>"

definition get_challenge :: command where
  "get_challenge = \<lparr>label = ''get challenge'', apdu = build_apdu_get CLA_PLAIN 0x4B 0x08 0x00 0x00\<rparr>"

definition answer_challenge :: "bytes \<Rightarrow> bytes \<Rightarrow> command option" where
  "answer_challenge sm4_key challenge =
     (let block = challenge @ replicate 8 0
      in command_of ''answer challenge''
           (build_apdu CLA_PLAIN 0xCE 0x00 0x00 (encrypt_block (sm4_new sm4_key) block)))"

definition set_seed :: "bytes \<Rightarrow> byte \<Rightarrow> bytes \<Rightarrow> command option" where
  "set_seed sm4_key profile seed =
     (if \<not> (seed \<noteq> [] \<and> length seed \<le> 63) then None
      else Option.bind (encrypt_ecb (sm4_new sm4_key) (pad_iso7816_minimal seed)) (\<lambda>enc.
           Option.bind (mac sm4_key [CLA_PLAIN, 0xC5, 0x01, profile, word_of_nat (length enc)] enc) (\<lambda>mac_bytes.
           command_of ''set seed'' (build_apdu CLA_SECURE 0xC5 0x01 profile (enc @ mac_bytes)))))"

definition set_title :: "bytes \<Rightarrow> byte \<Rightarrow> bytes \<Rightarrow> command option" where
  "set_title sm4_key profile title =
     (if \<not> (title \<noteq> [] \<and> length title \<le> 12) then None
      else Option.bind (encrypt_ecb (sm4_new sm4_key) (pad_iso7816_minimal title)) (\<lambda>enc.
           Option.bind (mac sm4_key [CLA_PLAIN, 0xD5, 0x00, profile, 0x10] enc) (\<lambda>mac_bytes.
           command_of ''set title'' (build_apdu CLA_SECURE 0xD5 0x00 profile (enc @ mac_bytes)))))"

definition config_tlv :: "profile_config \<Rightarrow> bytes" where
  "config_tlv cfg =
     [0x81, 0x14, 0x1F, 0x01, timeout_code (cfg_display_timeout cfg), 0x0F, 0x04] @ u32_to_be (cfg_utc_time cfg)
     @ [0x86, 0x09, 0x0A, 0x01, hmac_code (cfg_algorithm cfg), 0x0B, 0x01, digits_as_byte (cfg_digits cfg),
        0x0D, 0x01, step_code (cfg_time_step cfg)]"

definition set_config :: "bytes \<Rightarrow> byte \<Rightarrow> profile_config \<Rightarrow> command option" where
  "set_config sm4_key profile cfg =
     (let tlv = config_tlv cfg in
      Option.bind (mac sm4_key [CLA_PLAIN, 0xD4, 0x01, profile, word_of_nat (length tlv)] tlv) (\<lambda>mac_bytes.
      command_of ''set config'' (build_apdu CLA_SECURE 0xD4 0x01 profile (tlv @ mac_bytes))))"

definition sync_time :: "bytes \<Rightarrow> byte \<Rightarrow> u32 \<Rightarrow> command option" where
  "sync_time sm4_key profile utc_time =
     (let tlv = [0x81, 0x06, 0x0F, 0x04] @ u32_to_be utc_time in
      Option.bind (mac sm4_key [CLA_PLAIN, 0xD4, 0x01, profile, word_of_nat (length tlv)] tlv) (\<lambda>mac_bytes.
      command_of ''sync time'' (build_apdu CLA_SECURE 0xD4 0x01 profile (tlv @ mac_bytes))))"

definition set_customer_key :: "bytes \<Rightarrow> bytes \<Rightarrow> command option" where
  "set_customer_key sm4_key new_key =
     (let plaintext = [0x00] @ derive_sm4_key new_key @ [0x80] @ replicate 14 0 in
      Option.bind (encrypt_ecb (sm4_new sm4_key) plaintext) (\<lambda>enc.
      Option.bind (mac sm4_key [CLA_PLAIN, 0xD7, 0x00, 0x00, 0x20] enc) (\<lambda>mac_bytes.
      command_of ''set customer key'' (build_apdu CLA_SECURE 0xD7 0x00 0x00 (enc @ mac_bytes)))))"

definition factory_reset :: command where
  "factory_reset = \<lparr>label = ''factory reset'', apdu = build_apdu_get CLA_PLAIN 0x56 0x00 0x00 0x00\<rparr>"

definition sw_ok :: "byte \<Rightarrow> byte \<Rightarrow> bool" where
  "sw_ok sw1 sw2 \<longleftrightarrow> sw1 = 0x90 \<and> (sw2 = 0x00 \<or> sw2 = 0x60)"
definition sw_completed :: "byte \<Rightarrow> byte \<Rightarrow> bool" where
  "sw_completed sw1 sw2 \<longleftrightarrow> sw1 = 0x90 \<and> sw2 = 0x00"
definition sw_awaiting_button :: "byte \<Rightarrow> byte \<Rightarrow> bool" where
  "sw_awaiting_button sw1 sw2 \<longleftrightarrow> sw1 = 0x90 \<and> sw2 = 0x60"
definition sw_auth_failed :: "byte \<Rightarrow> bool" where
  "sw_auth_failed sw1 \<longleftrightarrow> sw1 = 0x63"

subsection \<open>Responses\<close>

text \<open>Strings are their UTF-8 bytes.\<close>

record profile_public_data =
  pd_flag :: byte
  pd_title :: "bytes option"
  pd_time_a :: u32
  pd_time_b :: u32
  pd_algorithm :: byte
  pd_time_step :: byte
  pd_digits :: byte
  pd_seed_present :: bool

datatype public_data_error = Truncated | BadOuterTag | BadOuterLength | BadInnerTag | BadInnerLength

datatype info_error = TooShort nat nat

definition parse_info :: "bytes \<Rightarrow> (bytes \<times> u32, info_error) result" where
  "parse_info data =
     (if length data < 4 then Err (TooShort (length data) 4)
      else
        (let serial_len = unat (data ! 3); serial_end = 4 + serial_len; need = serial_end + 6 in
         if length data < need then Err (TooShort (length data) need)
         else
           (let serial = from_utf8_lossy (take serial_len (drop 4 data)); time_offset = serial_end + 2 in
            Ok (serial, u32_from_be [data ! time_offset, data ! (time_offset + 1), data ! (time_offset + 2),
                                     data ! (time_offset + 3)]))))"

text \<open>\<^verbatim>\<open>iter().rposition(|&b| b != 0).map_or(0, |i| i + 1)\<close>\<close>

definition title_length :: "bytes \<Rightarrow> nat" where
  "title_length raw_title = length (dropWhile (\<lambda>b. b = 0) (rev raw_title))"

definition parse_public_data :: "bytes \<Rightarrow> (profile_public_data, public_data_error) result" where
  "parse_public_data resp =
     (if length resp < 4 then Err Truncated
      else if resp ! 0 \<noteq> 0x95 then Err BadOuterTag
      else if resp ! 1 \<noteq> 0x1F then Err BadOuterLength
      else if resp ! 2 \<noteq> 0x70 then Err BadInnerTag
      else if resp ! 3 \<noteq> 0x1D then Err BadInnerLength
      else if length resp \<noteq> 33 then Err BadOuterLength
      else
        (let body = drop 4 resp;
             raw_title = take 16 (drop 1 body);
             title_len = title_length raw_title;
             title = (if title_len = 0 then None else Some (from_utf8_lossy (take title_len raw_title)))
         in Ok \<lparr>pd_flag = body ! 0, pd_title = title, pd_time_a = u32_from_be (take 4 (drop 17 body)),
                pd_time_b = u32_from_be (take 4 (drop 21 body)), pd_algorithm = body ! 25, pd_time_step = body ! 26,
                pd_digits = body ! 27, pd_seed_present = (body ! 28 \<noteq> 0)\<rparr>))"

subsection \<open>Products\<close>

definition USB_VID :: u16 where "USB_VID = 0x349E"

datatype token2_product_kind = Molto2 | Fido | NfcReader

record token2_functions_rec =
  fn_fido :: bool
  fn_otp :: bool
  fn_pgp :: bool

definition functions_new :: "bool \<Rightarrow> bool \<Rightarrow> bool \<Rightarrow> token2_functions_rec" where
  "functions_new fido otp pgp = \<lparr>fn_fido = fido, fn_otp = otp, fn_pgp = pgp\<rparr>"

definition F_NONE :: token2_functions_rec where "F_NONE = functions_new False False False"
definition F_FIDO :: token2_functions_rec where "F_FIDO = functions_new True False False"
definition F_OTP :: token2_functions_rec where "F_OTP = functions_new False True False"
definition F_PGP :: token2_functions_rec where "F_PGP = functions_new False False True"
definition F_FIDO_OTP :: token2_functions_rec where "F_FIDO_OTP = functions_new True True False"
definition F_FIDO_PGP :: token2_functions_rec where "F_FIDO_PGP = functions_new True False True"
definition F_OTP_PGP :: token2_functions_rec where "F_OTP_PGP = functions_new False True True"
definition F_OTP_PGP_FIDO :: token2_functions_rec where "F_OTP_PGP_FIDO = functions_new True True True"

definition TOKEN2_PRODUCTS :: "(u16 \<times> token2_product_kind \<times> token2_functions_rec \<times> string) list" where
  "TOKEN2_PRODUCTS =
    [(0x0010, Fido, F_FIDO, ''PIN+ Mini (FIDO)''),
     (0x0011, Fido, F_OTP, ''PIN+ Mini (OTP)''),
     (0x0012, Fido, F_FIDO_OTP, ''PIN+ Mini (FIDO + OTP)''),
     (0x0013, Fido, F_OTP_PGP, ''PIN+ Mini (OTP + PGP)''),
     (0x0014, Fido, F_FIDO_PGP, ''PIN+ Mini (FIDO + PGP)''),
     (0x0015, Fido, F_PGP, ''PIN+ Mini (PGP)''),
     (0x0016, Fido, F_OTP_PGP_FIDO, ''PIN+ Mini (OTP + PGP + FIDO)''),
     (0x0020, Fido, F_FIDO, ''PIN+ Series (FIDO)''),
     (0x0021, Fido, F_OTP, ''PIN+ Series (OTP)''),
     (0x0022, Fido, F_FIDO_OTP, ''PIN+ Series (FIDO + OTP)''),
     (0x0023, Fido, F_OTP_PGP, ''PIN+ Series (OTP + PGP)''),
     (0x0024, Fido, F_FIDO_PGP, ''PIN+ Series (FIDO + PGP)''),
     (0x0025, Fido, F_PGP, ''PIN+ Series (PGP)''),
     (0x0026, Fido, F_OTP_PGP_FIDO, ''PIN+ Series (OTP + PGP + FIDO)''),
     (0x0200, Fido, F_FIDO, ''Bio3 Dual (FIDO)''),
     (0x0201, Fido, F_OTP, ''Bio3 Dual (OTP)''),
     (0x0202, Fido, F_FIDO_OTP, ''Bio3 Dual (FIDO + OTP)''),
     (0x0203, Fido, F_OTP_PGP, ''Bio3 Dual (OTP + PGP)''),
     (0x0204, Fido, F_FIDO_PGP, ''Bio3 Dual (FIDO + PGP)''),
     (0x0205, Fido, F_PGP, ''Bio3 Dual (PGP)''),
     (0x0206, Fido, F_OTP_PGP_FIDO, ''Bio3 Dual (OTP + PGP + FIDO)''),
     (0x0300, Molto2, F_NONE, ''Molto2''),
     (0x0430, NfcReader, F_NONE, ''TOKEN2 MFA NFC Reader'')]"

fun find_map :: "('a \<Rightarrow> 'b option) \<Rightarrow> 'a list \<Rightarrow> 'b option" where
  "find_map f [] = None"
| "find_map f (x # xs) = (case f x of None \<Rightarrow> find_map f xs | Some y \<Rightarrow> Some y)"

definition token2_product :: "u16 \<Rightarrow> token2_product_kind option" where
  "token2_product pid = find_map (\<lambda>(p, kind, _, _). if p = pid then Some kind else None) TOKEN2_PRODUCTS"

definition token2_pid_label :: "u16 \<Rightarrow> string option" where
  "token2_pid_label pid = find_map (\<lambda>(p, _, _, label). if p = pid then Some label else None) TOKEN2_PRODUCTS"

definition token2_functions :: "u16 \<Rightarrow> token2_functions_rec option" where
  "token2_functions pid = find_map (\<lambda>(p, _, funcs, _). if p = pid then Some funcs else None) TOKEN2_PRODUCTS"

definition token2_pid_may_have_otp :: "u16 \<Rightarrow> bool" where
  "token2_pid_may_have_otp pid = (case token2_functions pid of None \<Rightarrow> True | Some f \<Rightarrow> fn_otp f)"

definition is_molto2_usb :: "u16 \<Rightarrow> u16 \<Rightarrow> bool" where
  "is_molto2_usb vid pid \<longleftrightarrow> vid = USB_VID \<and> token2_product pid = Some Molto2"

definition is_molto2_reader :: "bytes \<Rightarrow> bool" where
  "is_molto2_reader reader_name \<longleftrightarrow> sublist (ascii ''molto'') (to_ascii_lowercase reader_name)"

subsection \<open>Secure commands\<close>

lemma build_apdu_some: "length d \<le> 255 \<Longrightarrow> build_apdu cla ins p1 p2 d = Some ([cla, ins, p1, p2, word_of_nat (length d)] @ d)"
  by (simp add: build_apdu_def try_build_apdu_def)

lemma derive_length: "length (derive_sm4_key k) = 16"
  by (simp add: derive_sm4_key_def)

text \<open>The frame of a secure command over a payload: header, length, payload and a 4-byte MAC computed
  over the plain class byte.\<close>

definition secure_frame :: "bytes \<Rightarrow> byte \<Rightarrow> byte \<Rightarrow> byte \<Rightarrow> bytes \<Rightarrow> bytes \<Rightarrow> bool" where
  "secure_frame key ins p1 p2 payload a \<longleftrightarrow>
     (\<exists>m. mac key [CLA_PLAIN, ins, p1, p2, word_of_nat (length payload)] payload = Some m \<and> length m = 4 \<and>
        a = [CLA_SECURE, ins, p1, p2, word_of_nat (length payload + 4)] @ payload @ m)"

lemma secure_build:
  assumes "length payload \<le> 251"
  shows "\<exists>a. Option.bind (mac key [CLA_PLAIN, ins, p1, p2, word_of_nat (length payload)] payload) (\<lambda>m.
      command_of l (build_apdu CLA_SECURE ins p1 p2 (payload @ m))) = Some \<lparr>label = l, apdu = a\<rparr>
      \<and> secure_frame key ins p1 p2 payload a"
proof -
  obtain m where "mac key [CLA_PLAIN, ins, p1, p2, word_of_nat (length payload)] payload = Some m" "length m = 4"
    by (rule mac_some [of "[CLA_PLAIN, ins, p1, p2, word_of_nat (length payload)]"]) auto
  with assms show ?thesis by (simp add: command_of_def build_apdu_some secure_frame_def)
qed

lemma pad_minimal_le: "length (pad_iso7816_minimal d) \<le> length d + 15"
proof (cases "length d mod 16 = 0")
  case False
  have "(16 - Suc (length d) mod 16) mod 16 \<le> 14"
  proof (cases "Suc (length d mod 16) = 16")
    case True
    then show ?thesis by (simp add: mod_Suc)
  next
    case False': False
    then have "Suc (length d) mod 16 = Suc (length d mod 16)" by (simp add: mod_Suc)
    with False show ?thesis by simp
  qed
  with False show ?thesis by (simp add: pad_iso7816_minimal_def pad_zeros_eq)
qed (simp add: pad_iso7816_minimal_def)

lemma pad_minimal_sizes:
  "length d \<le> 63 \<Longrightarrow> length (pad_iso7816_minimal d) \<le> 64"
  "d \<noteq> [] \<Longrightarrow> length d \<le> 12 \<Longrightarrow> length (pad_iso7816_minimal d) = 16"
proof -
  obtain q where q: "length (pad_iso7816_minimal d) = 16 * q" using pad_minimal_aligned [of d] by auto
  show "length d \<le> 63 \<Longrightarrow> length (pad_iso7816_minimal d) \<le> 64" using pad_minimal_le [of d] q by simp
  assume "d \<noteq> []" "length d \<le> 12"
  with pad_minimal_le [of d] pad_minimal_pos [of d] q have "0 < q" "16 * q \<le> 27" by (cases q; auto)+
  then show "length (pad_iso7816_minimal d) = 16" using q by simp
qed

lemma ecb_some:
  assumes "length d mod 16 = 0"
  obtains e where "encrypt_ecb c d = Some e" "length e = length d"
    "concat (map (decrypt_block c) (chunks 16 e)) = d"
proof -
  from assms obtain e where e: "encrypt_ecb c d = Some e" by (simp add: encrypt_ecb_def)
  with encrypt_ecb_open [OF e] that show thesis by blast
qed


lemma set_seed_built:
  assumes "seed \<noteq> []" "length seed \<le> 63"
  obtains enc a where "set_seed key profile seed = Some \<lparr>label = ''set seed'', apdu = a\<rparr>"
    "secure_frame key 0xC5 0x01 profile enc a" "length enc \<le> 64"
    "concat (map (decrypt_block (sm4_new key)) (chunks 16 enc)) = pad_iso7816_minimal seed"
proof -
  obtain enc where e: "encrypt_ecb (sm4_new key) (pad_iso7816_minimal seed) = Some enc"
    "length enc = length (pad_iso7816_minimal seed)"
    "concat (map (decrypt_block (sm4_new key)) (chunks 16 enc)) = pad_iso7816_minimal seed"
    using ecb_some [OF pad_minimal_aligned] by metis
  have l: "length enc \<le> 64" using e(2) pad_minimal_sizes(1) [OF assms(2)] by simp
  then have "length enc \<le> 251" by simp
  from secure_build [OF this, of key "0xC5" "0x01" profile "''set seed''"] e l show thesis
    using assms by (auto simp: set_seed_def intro: that)
qed

lemma set_title_built:
  assumes "title \<noteq> []" "length title \<le> 12"
  obtains enc a where "set_title key profile title = Some \<lparr>label = ''set title'', apdu = a\<rparr>"
    "secure_frame key 0xD5 0x00 profile enc a" "length enc = 16"
    "concat (map (decrypt_block (sm4_new key)) (chunks 16 enc)) = pad_iso7816_minimal title"
proof -
  obtain enc where e: "encrypt_ecb (sm4_new key) (pad_iso7816_minimal title) = Some enc"
    "length enc = length (pad_iso7816_minimal title)"
    "concat (map (decrypt_block (sm4_new key)) (chunks 16 enc)) = pad_iso7816_minimal title"
    using ecb_some [OF pad_minimal_aligned] by metis
  have l: "length enc = 16" using e(2) pad_minimal_sizes(2) [OF assms] by simp
  then have "length enc \<le> 251" by simp
  from secure_build [OF this, of key "0xD5" "0x00" profile "''set title''"] e l show thesis
    using assms by (auto simp: set_title_def intro: that)
qed

lemma set_customer_key_built:
  obtains enc a where "set_customer_key key new = Some \<lparr>label = ''set customer key'', apdu = a\<rparr>"
    "secure_frame key 0xD7 0x00 0x00 enc a" "length enc = 32"
    "concat (map (decrypt_block (sm4_new key)) (chunks 16 enc)) = [0] @ derive_sm4_key new @ [0x80] @ replicate 14 0"
proof -
  let ?p = "[0] @ derive_sm4_key new @ [0x80] @ replicate 14 0"
  have "length ?p mod 16 = 0" by (simp add: derive_length)
  then obtain enc where e: "encrypt_ecb (sm4_new key) ?p = Some enc" "length enc = length ?p"
    "concat (map (decrypt_block (sm4_new key)) (chunks 16 enc)) = ?p"
    using ecb_some by metis
  have l: "length enc = 32" using e(2) by (simp add: derive_length)
  then have "length enc \<le> 251" by simp
  from secure_build [OF this, of key "0xD7" "0x00" "0x00" "''set customer key''"] e l show thesis
    by (auto simp: set_customer_key_def intro: that)
qed

lemma tlv_built:
  "\<exists>a. set_config key profile cfg = Some \<lparr>label = ''set config'', apdu = a\<rparr>
    \<and> secure_frame key 0xD4 0x01 profile (config_tlv cfg) a"
  "\<exists>a. sync_time key profile t = Some \<lparr>label = ''sync time'', apdu = a\<rparr>
    \<and> secure_frame key 0xD4 0x01 profile ([0x81, 0x06, 0x0F, 0x04] @ u32_to_be t) a"
  unfolding set_config_def sync_time_def Let_def
  by (rule secure_build; simp add: config_tlv_def)+

text \<open>What \<^verbatim>\<open>parse_public_data\<close> reads back.\<close>

definition public_block :: "byte \<Rightarrow> bytes \<Rightarrow> u32 \<Rightarrow> u32 \<Rightarrow> byte \<Rightarrow> byte \<Rightarrow> byte \<Rightarrow> byte \<Rightarrow> bytes" where
  "public_block flag title ta tb algo step digits seed =
     [0x95, 0x1F, 0x70, 0x1D, flag] @ title @ replicate (16 - length title) 0 @ u32_to_be ta @ u32_to_be tb
     @ [algo, step, digits, seed]"

lemma title_length_pad:
  "title = [] \<or> last title \<noteq> 0 \<Longrightarrow> title_length (title @ replicate n 0) = length title"
proof -
  assume t: "title = [] \<or> last title \<noteq> 0"
  have "dropWhile (\<lambda>b. b = 0) (rev title) = rev title"
    using t by (cases title rule: rev_cases) auto
  then show ?thesis unfolding title_length_def rev_append by (subst dropWhile_append2) simp_all
qed

lemma parse_public_block:
  assumes "length title \<le> 16" "title = [] \<or> last title \<noteq> 0"
  shows "parse_public_data (public_block flag title ta tb algo step digits seed) =
    Ok \<lparr>pd_flag = flag, pd_title = (if title = [] then None else Some (from_utf8_lossy title)), pd_time_a = ta,
        pd_time_b = tb, pd_algorithm = algo, pd_time_step = step, pd_digits = digits, pd_seed_present = (seed \<noteq> 0)\<rparr>"
proof -
  define raw where "raw = title @ replicate (16 - length title) 0"
  have raw: "length raw = 16" "title_length raw = length title" "take (length title) raw = title"
    using assms by (simp_all add: raw_def title_length_pad)
  have b: "public_block flag title ta tb algo step digits seed
      = [0x95, 0x1F, 0x70, 0x1D, flag] @ raw @ u32_to_be ta @ u32_to_be tb @ [algo, step, digits, seed]"
    by (simp add: public_block_def raw_def)
  show ?thesis
    by (simp add: b parse_public_data_def Let_def raw nth_append u32_from_to_be)
qed

lemma parse_public_data_ok:
  "(\<exists>d. parse_public_data resp = Ok d) \<longleftrightarrow> length resp = 33 \<and> take 4 resp = [0x95, 0x1F, 0x70, 0x1D]"
proof -
  have "take 4 resp = [resp ! 0, resp ! 1, resp ! 2, resp ! 3]" if "length resp = 33"
    using that by (intro nth_equalityI) (auto simp: less_Suc_eq numeral_eq_Suc)
  then show ?thesis by (auto simp: parse_public_data_def Let_def)
qed


lemma parse_info_block:
  assumes "length hdr = 3" "length serial < 256" "length sep = 2"
  shows "parse_info (hdr @ [word_of_nat (length serial)] @ serial @ sep @ u32_to_be t @ rest) = Ok (from_utf8_lossy serial, t)"
proof -
  let ?d = "hdr @ [word_of_nat (length serial)] @ serial @ sep @ u32_to_be t @ rest"
  have n: "unat (?d ! 3) = length serial" using assms by (simp add: nth_append)
  have s: "take (length serial) (drop 4 ?d) = serial" using assms by simp
  let ?pre = "hdr @ [word_of_nat (length serial)] @ serial @ sep"
  have "length ?pre = length serial + 6" using assms by simp
  then have "(?pre @ u32_to_be t @ rest) ! (length serial + 6 + i) = u32_to_be t ! i" if "i < 4" for i
    using that by (metis nth_append_length_plus nth_append length_to_be(2))
  then have "?d ! (length serial + 6 + i) = u32_to_be t ! i" if "i < 4" for i
    using that by (simp only: append_assoc)
  from this [of 0] this [of 1] this [of 2] this [of 3]
  have i: "?d ! (length serial + 6) = u32_to_be t ! 0" "?d ! (length serial + 7) = u32_to_be t ! 1"
    "?d ! (length serial + 8) = u32_to_be t ! 2" "?d ! (length serial + 9) = u32_to_be t ! 3"
    by (simp_all only: add_0_right add.assoc, simp_all)
  have "[u32_to_be t ! 0, u32_to_be t ! 1, u32_to_be t ! 2, u32_to_be t ! 3] = u32_to_be t"
    by (intro nth_equalityI) (auto simp: less_Suc_eq numeral_eq_Suc)
  with i n s assms show ?thesis by (simp add: parse_info_def Let_def u32_from_to_be add.commute)
qed

subsection \<open>Properties\<close>

text \<open>C37: the secure commands.  Each builder panics exactly on a seed or title outside its length limits;
  otherwise it gives a short APDU whose body is the payload and a MAC over the plain-class header, and for
  the encrypted ones the payload decrypts under the same key to the padded seed, title or new key.\<close>

theorem secure_commands:
  "(case set_seed key profile seed of None \<Rightarrow> seed = [] \<or> 63 < length seed
      | Some c \<Rightarrow> seed \<noteq> [] \<and> length seed \<le> 63 \<and> (\<exists>enc. secure_frame key 0xC5 0x01 profile enc (apdu c)
          \<and> length enc \<le> 64 \<and> concat (map (decrypt_block (sm4_new key)) (chunks 16 enc)) = pad_iso7816_minimal seed))
   \<and> (case set_title key profile title of None \<Rightarrow> title = [] \<or> 12 < length title
      | Some c \<Rightarrow> title \<noteq> [] \<and> length title \<le> 12 \<and> (\<exists>enc. secure_frame key 0xD5 0x00 profile enc (apdu c)
          \<and> length enc = 16 \<and> concat (map (decrypt_block (sm4_new key)) (chunks 16 enc)) = pad_iso7816_minimal title))
   \<and> (\<exists>c enc. set_customer_key key new = Some c \<and> secure_frame key 0xD7 0x00 0x00 enc (apdu c) \<and> length enc = 32
          \<and> concat (map (decrypt_block (sm4_new key)) (chunks 16 enc)) = [0] @ derive_sm4_key new @ [0x80] @ replicate 14 0)
   \<and> (\<exists>c. set_config key profile cfg = Some c \<and> secure_frame key 0xD4 0x01 profile (config_tlv cfg) (apdu c))
   \<and> (\<exists>c. sync_time key profile t = Some c
          \<and> secure_frame key 0xD4 0x01 profile ([0x81, 0x06, 0x0F, 0x04] @ u32_to_be t) (apdu c))"
proof (intro conjI)
  show "case set_seed key profile seed of None \<Rightarrow> seed = [] \<or> 63 < length seed
      | Some c \<Rightarrow> seed \<noteq> [] \<and> length seed \<le> 63 \<and> (\<exists>enc. secure_frame key 0xC5 0x01 profile enc (apdu c)
          \<and> length enc \<le> 64 \<and> concat (map (decrypt_block (sm4_new key)) (chunks 16 enc)) = pad_iso7816_minimal seed)"
  proof (cases "seed \<noteq> [] \<and> length seed \<le> 63")
    case True
    then have "seed \<noteq> []" "length seed \<le> 63" by auto
    then show ?thesis by (rule set_seed_built [where key = key and profile = profile]) (use True in auto)
  qed (auto simp: set_seed_def)
  show "case set_title key profile title of None \<Rightarrow> title = [] \<or> 12 < length title
      | Some c \<Rightarrow> title \<noteq> [] \<and> length title \<le> 12 \<and> (\<exists>enc. secure_frame key 0xD5 0x00 profile enc (apdu c)
          \<and> length enc = 16 \<and> concat (map (decrypt_block (sm4_new key)) (chunks 16 enc)) = pad_iso7816_minimal title)"
  proof (cases "title \<noteq> [] \<and> length title \<le> 12")
    case True
    then have "title \<noteq> []" "length title \<le> 12" by auto
    then show ?thesis by (rule set_title_built [where key = key and profile = profile]) (use True in auto)
  qed (auto simp: set_title_def)
  show "\<exists>c enc. set_customer_key key new = Some c \<and> secure_frame key 0xD7 0x00 0x00 enc (apdu c) \<and> length enc = 32
      \<and> concat (map (decrypt_block (sm4_new key)) (chunks 16 enc)) = [0] @ derive_sm4_key new @ [0x80] @ replicate 14 0"
    by (rule set_customer_key_built [of key new]) auto
  show "\<exists>c. set_config key profile cfg = Some c \<and> secure_frame key 0xD4 0x01 profile (config_tlv cfg) (apdu c)"
    using tlv_built(1) [of key profile cfg] by auto
  show "\<exists>c. sync_time key profile t = Some c
      \<and> secure_frame key 0xD4 0x01 profile ([0x81, 0x06, 0x0F, 0x04] @ u32_to_be t) (apdu c)"
    using tlv_built(2) [of key profile t] by auto
qed

text \<open>The response parsers.  \<^verbatim>\<open>parse_public_data\<close> accepts exactly the 33-byte responses with the
  envelope 95 1F 70 1D and reads back every field of a block, a zero-padded title without its padding;
  \<^verbatim>\<open>parse_info\<close> reads back the serial and the time of a well-formed response.\<close>

theorem molto2_responses:
  assumes "length title \<le> 16" "title = [] \<or> last title \<noteq> 0"
    and "length hdr = 3" "length serial < 256" "length sep = 2"
  shows "((\<exists>d. parse_public_data resp = Ok d) \<longleftrightarrow> length resp = 33 \<and> take 4 resp = [0x95, 0x1F, 0x70, 0x1D])
    \<and> parse_public_data (public_block flag title ta tb algo step digits seed) =
      Ok \<lparr>pd_flag = flag, pd_title = (if title = [] then None else Some (from_utf8_lossy title)), pd_time_a = ta,
          pd_time_b = tb, pd_algorithm = algo, pd_time_step = step, pd_digits = digits, pd_seed_present = (seed \<noteq> 0)\<rparr>
    \<and> parse_info (hdr @ [word_of_nat (length serial)] @ serial @ sep @ u32_to_be t @ rest) = Ok (from_utf8_lossy serial, t)"
  using parse_public_data_ok parse_public_block [OF assms(1,2)] parse_info_block [OF assms(3-5)] by blast

theorem molto2_responses_witness:
  "parse_info [0, 0, 0, 1, 0x41, 9, 9, 0, 0, 0, 5] = Ok (from_utf8_lossy [0x41], u32_from_be [0, 0, 0, 5])"
proof -
  have "u32_to_be (u32_from_be [0, 0, 0, 5]) = [0, 0, 0, 5]" by (rule u32_to_from_be) simp
  then show ?thesis
    using molto2_responses [of "[0x41]" "[0, 0, 0]" "[0x41]" "[9, 9]" "[]" 0 0 0 0 0 0 0 "u32_from_be [0, 0, 0, 5]" "[]"] by simp
qed

text \<open>The product table.  A USB id is the Molto2 exactly for 349E:0300; ids are listed once; the OTP
  applet is ruled out exactly for listed ids whose function set lacks it, so for no unknown id; and the function
  set of every FIDO-line entry agrees with the functions its description names.\<close>

theorem token2_table:
  "(is_molto2_usb vid pid \<longleftrightarrow> vid = 0x349E \<and> pid = 0x0300)
   \<and> distinct (map fst TOKEN2_PRODUCTS)
   \<and> (\<not> token2_pid_may_have_otp pid \<longleftrightarrow>
        pid \<in> {0x10, 0x14, 0x15, 0x20, 0x24, 0x25, 0x200, 0x204, 0x205, 0x300, 0x430})
   \<and> list_all (\<lambda>(_, _, f, descr). (fn_fido f \<longleftrightarrow> sublist ''FIDO'' descr)
        \<and> (fn_otp f \<longleftrightarrow> sublist ''OTP'' descr) \<and> (fn_pgp f \<longleftrightarrow> sublist ''PGP'' descr))
        (filter (\<lambda>(_, kind, _, _). kind = Fido) TOKEN2_PRODUCTS)"
proof (intro conjI)
  show "is_molto2_usb vid pid \<longleftrightarrow> vid = 0x349E \<and> pid = 0x0300"
    by (simp add: is_molto2_usb_def USB_VID_def token2_product_def TOKEN2_PRODUCTS_def)
  show "distinct (map fst TOKEN2_PRODUCTS)" by (simp add: TOKEN2_PRODUCTS_def)
  show "\<not> token2_pid_may_have_otp pid \<longleftrightarrow>
        pid \<in> {0x10, 0x14, 0x15, 0x20, 0x24, 0x25, 0x200, 0x204, 0x205, 0x300, 0x430}"
    by (simp add: token2_pid_may_have_otp_def token2_functions_def TOKEN2_PRODUCTS_def functions_new_def
        F_NONE_def F_FIDO_def F_OTP_def F_PGP_def F_FIDO_OTP_def F_FIDO_PGP_def F_OTP_PGP_def F_OTP_PGP_FIDO_def)
  show "list_all (\<lambda>(_, _, f, descr). (fn_fido f \<longleftrightarrow> sublist ''FIDO'' descr)
        \<and> (fn_otp f \<longleftrightarrow> sublist ''OTP'' descr) \<and> (fn_pgp f \<longleftrightarrow> sublist ''PGP'' descr))
        (filter (\<lambda>(_, kind, _, _). kind = Fido) TOKEN2_PRODUCTS)"
    by (simp add: TOKEN2_PRODUCTS_def functions_new_def F_NONE_def F_FIDO_def F_OTP_def F_PGP_def F_FIDO_OTP_def
        F_FIDO_PGP_def F_OTP_PGP_def F_OTP_PGP_FIDO_def sublist_code)
qed

end
