(* ===== verification/Oath_Crypto.thy ===== *)
theory Oath_Crypto
  imports Sha
begin

text \<open>
  \<^verbatim>\<open>crates/keyroost-oath/src/crypto.rs\<close>: HMAC-SHA1 and PBKDF2-HMAC-SHA1.  The scrubbing of
  intermediates has no functional effect and is left out.
\<close>

definition BLOCK :: nat where "BLOCK = 64"
definition OUT :: nat where "OUT = 20"

definition hmac_key_block :: "bytes \<Rightarrow> bytes" where
  "hmac_key_block key =
     (if BLOCK < length key then copy_at 0 (sha1 key) (replicate BLOCK 0)
      else copy_at 0 key (replicate BLOCK 0))"

definition hmac_sha1 :: "bytes \<Rightarrow> bytes \<Rightarrow> bytes" where
  "hmac_sha1 key data =
     (let k = hmac_key_block key;
          ipad = map2 (XOR) (replicate BLOCK 0x36) k;
          opad = map2 (XOR) (replicate BLOCK 0x5c) k;
          inner_hash = sha1 (ipad @ data)
      in sha1 (opad @ inner_hash))"

text \<open>One output block: the pair is \<open>(u, t)\<close>, updated \<open>iterations - 1\<close> times.\<close>

definition pbkdf2_block :: "bytes \<Rightarrow> bytes \<Rightarrow> nat \<Rightarrow> u32 \<Rightarrow> bytes" where
  "pbkdf2_block password salt iterations block_index =
     (let u = hmac_sha1 password (salt @ u32_to_be block_index)
      in snd (((\<lambda>(u, t). let u = hmac_sha1 password u in (u, map2 (XOR) t u)) ^^ (iterations - 1)) (u, u)))"

lemma length_hmac_sha1 [simp]: "length (hmac_sha1 key data) = 20"
  by (simp add: hmac_sha1_def Let_def)

lemma length_pbkdf2_block [simp]: "length (pbkdf2_block password salt iterations i) = 20"
proof -
  have "length (snd (((\<lambda>(u, t). let u = hmac_sha1 password u in (u, map2 (XOR) t u)) ^^ n) (u, u))) = 20"
    if "length u = 20" for n u
    using that by (induction n) (auto simp add: Let_def split: prod.splits)
  then show ?thesis by (simp add: pbkdf2_block_def Let_def)
qed

function pbkdf2_loop :: "bytes \<Rightarrow> bytes \<Rightarrow> nat \<Rightarrow> nat \<Rightarrow> u32 \<Rightarrow> bytes \<Rightarrow> bytes" where
  "pbkdf2_loop password salt iterations dk_len block_index out =
     (if length out < dk_len then
        (let t = pbkdf2_block password salt iterations block_index;
             need = dk_len - length out
         in pbkdf2_loop password salt iterations dk_len (block_index + 1) (out @ take (min need (length t)) t))
      else out)"
  by pat_completeness auto
termination
  by (relation "measure (\<lambda>(_, _, _, dk_len, _, out). dk_len - length out)") auto

declare pbkdf2_loop.simps [simp del]

definition pbkdf2_hmac_sha1 :: "bytes \<Rightarrow> bytes \<Rightarrow> nat \<Rightarrow> nat \<Rightarrow> bytes" where
  "pbkdf2_hmac_sha1 password salt iterations dk_len = pbkdf2_loop password salt iterations dk_len 1 []"

subsection \<open>Key padding\<close>

lemma hmac_key_block_pad: "length key + n \<le> 64 \<Longrightarrow> hmac_key_block (key @ replicate n 0) = hmac_key_block key"
  by (simp add: hmac_key_block_def BLOCK_def copy_at_def flip: replicate_add)

lemma length_hmac_key_block: "length (hmac_key_block key) = 64"
  by (simp add: hmac_key_block_def BLOCK_def)

lemma pbkdf2_loop_spec:
  "length out \<le> dk_len \<Longrightarrow> dk_len \<le> length out + 20 * m \<Longrightarrow>
   pbkdf2_loop password salt iterations dk_len i out
     = take dk_len (out @ concat (map (\<lambda>j. pbkdf2_block password salt iterations (i + word_of_nat j)) [0..<m]))"
proof (induction m arbitrary: i out)
  case 0
  then show ?case by (subst pbkdf2_loop.simps) simp
next
  case (Suc m)
  let ?b = "\<lambda>i. pbkdf2_block password salt iterations i"
  have blocks: "map (\<lambda>j. ?b (i + word_of_nat j)) [0..<Suc m] = ?b i # map (\<lambda>j. ?b (i + 1 + word_of_nat j)) [0..<m]"
    by (simp add: upt_conv_Cons map_Suc_upt [symmetric] comp_def add.assoc del: upt_Suc)
  show ?case
  proof (cases "length out < dk_len")
    case True
    define new where "new = take (min (dk_len - length out) 20) (?b i)"
    have "length new = min (dk_len - length out) 20" by (simp add: new_def)
    then have "pbkdf2_loop password salt iterations dk_len (i + 1) (out @ new)
       = take dk_len ((out @ new) @ concat (map (\<lambda>j. ?b (i + 1 + word_of_nat j)) [0..<m]))"
      using Suc.prems True by (intro Suc.IH) auto
    moreover have "take dk_len ((out @ new) @ r) = take dk_len (out @ ?b i @ r)" for r
      by (cases "dk_len - length out \<le> 20") (simp_all add: new_def)
    moreover have "pbkdf2_loop password salt iterations dk_len i out = pbkdf2_loop password salt iterations dk_len (i + 1) (out @ new)"
      using True by (subst pbkdf2_loop.simps) (simp add: new_def Let_def)
    ultimately show ?thesis unfolding blocks by simp
  next
    case False
    with Suc.prems show ?thesis by (subst pbkdf2_loop.simps) simp
  qed
qed

lemma length_pbkdf2 [simp]: "length (pbkdf2_hmac_sha1 password salt iterations dk_len) = dk_len"
proof -
  have "length (concat (map (\<lambda>j. pbkdf2_block password salt iterations (f j)) xs)) = 20 * length xs" for f and xs :: "nat list"
    by (induction xs) simp_all
  then show ?thesis unfolding pbkdf2_hmac_sha1_def by (simp add: pbkdf2_loop_spec [of _ _ dk_len])
qed

subsection \<open>Properties\<close>

text \<open>padding a key with zeros up to the block size does not change any HMAC, and PBKDF2 gives exactly the
  first \<open>dk_len\<close> bytes of the concatenated blocks T1, T2, \<open>\<dots>\<close> of RFC 2898.\<close>

theorem hmac_padding_pbkdf2:
  assumes "length key + n \<le> 64" "dk_len \<le> 20 * m"
  shows "hmac_sha1 (key @ replicate n 0) data = hmac_sha1 key data
    \<and> pbkdf2_hmac_sha1 password salt iterations dk_len
      = take dk_len (concat (map (\<lambda>j. pbkdf2_block password salt iterations (1 + word_of_nat j)) [0..<m]))
    \<and> length (pbkdf2_hmac_sha1 password salt iterations dk_len) = dk_len"
  using hmac_key_block_pad [OF assms(1)] pbkdf2_loop_spec [of "[]" dk_len m] assms(2)
  by (simp add: hmac_sha1_def pbkdf2_hmac_sha1_def [symmetric]) (simp add: pbkdf2_hmac_sha1_def)

theorem hmac_padding_pbkdf2_witness:
  "hmac_sha1 ([1, 2, 3] @ replicate 11 0) [9] = hmac_sha1 [1, 2, 3] [9]
   \<and> pbkdf2_hmac_sha1 [1] [2] 1000 16 = take 16 (pbkdf2_block [1] [2] 1000 1)"
  using hmac_padding_pbkdf2 [of "[1, 2, 3]" 11 16 1 "[9]" "[1]" "[2]" 1000] by simp

end
