(* ===== verification/Oath.thy ===== *)
theory Oath
  imports Oath_Crypto Apdu Rust_Str Decimal
begin

text \<open>
  \<^verbatim>\<open>crates/keyroost-oath/src/lib.rs\<close>: the byte layer of the OATH applet, with its APDU
  builders, the TLV parser and the response parsers.  Strings are their UTF-8 bytes; a panic is
  \<open>None\<close>, a \<^verbatim>\<open>BuildError\<close> or \<^verbatim>\<open>ParseError\<close> is an \<open>Err\<close>.
\<close>

subsection \<open>Codes\<close>

definition AID :: bytes where "AID = [0xA0, 0x00, 0x00, 0x05, 0x27, 0x21, 0x01]"
definition INS_SELECT :: byte where "INS_SELECT = 0xA4"
definition P1_SELECT_BY_NAME :: byte where "P1_SELECT_BY_NAME = 0x04"
definition INS_GET_RESPONSE :: byte where "INS_GET_RESPONSE = 0xC0"

datatype instruction = IPut | IDelete | ISetCode | IReset | IRename | IList | ICalculate | IValidate
  | ICalculateAll | ISendRemaining

fun instruction_code :: "instruction \<Rightarrow> byte" where
  "instruction_code IPut = 0x01"
| "instruction_code IDelete = 0x02"
| "instruction_code ISetCode = 0x03"
| "instruction_code IReset = 0x04"
| "instruction_code IRename = 0x05"
| "instruction_code IList = 0xA1"
| "instruction_code ICalculate = 0xA2"
| "instruction_code IValidate = 0xA3"
| "instruction_code ICalculateAll = 0xA4"
| "instruction_code ISendRemaining = 0xA5"

datatype tag = TName | TNameList | TKey | TChallenge | TResponse | TTruncatedResponse | TNoResponse
  | TProperty | TVersion | TImf | TAlgorithm | TTouch | TSerialNumber

fun tag_code :: "tag \<Rightarrow> byte" where
  "tag_code TName = 0x71"
| "tag_code TNameList = 0x72"
| "tag_code TKey = 0x73"
| "tag_code TChallenge = 0x74"
| "tag_code TResponse = 0x75"
| "tag_code TTruncatedResponse = 0x76"
| "tag_code TNoResponse = 0x77"
| "tag_code TProperty = 0x78"
| "tag_code TVersion = 0x79"
| "tag_code TImf = 0x7A"
| "tag_code TAlgorithm = 0x7B"
| "tag_code TTouch = 0x7C"
| "tag_code TSerialNumber = 0x8F"

definition PROPERTY_REQUIRE_TOUCH :: byte where "PROPERTY_REQUIRE_TOUCH = 0x02"
definition P2_TRUNCATED :: byte where "P2_TRUNCATED = 0x01"
definition LIST_PROPERTY_TOUCH :: byte where "LIST_PROPERTY_TOUCH = 0x01"
definition MAX_SHORT_LEN :: nat where "MAX_SHORT_LEN = 255"
definition MIN_HMAC_KEY_LEN :: nat where "MIN_HMAC_KEY_LEN = 14"
definition ACCESS_KEY_ITERATIONS :: nat where "ACCESS_KEY_ITERATIONS = 1000"
definition ACCESS_KEY_LEN :: nat where "ACCESS_KEY_LEN = 16"

datatype oath_type = Hotp | Totp
datatype algorithm = ASha1 | ASha256 | ASha512

fun type_nibble :: "oath_type \<Rightarrow> byte" where
  "type_nibble Hotp = 0x10" | "type_nibble Totp = 0x20"

definition type_from_prefix :: "byte \<Rightarrow> oath_type option" where
  "type_from_prefix prefix =
     (let n = prefix AND 0xF0 in if n = 0x10 then Some Hotp else if n = 0x20 then Some Totp else None)"

fun algo_nibble :: "algorithm \<Rightarrow> byte" where
  "algo_nibble ASha1 = 0x01" | "algo_nibble ASha256 = 0x02" | "algo_nibble ASha512 = 0x03"

definition algo_from_prefix :: "byte \<Rightarrow> algorithm option" where
  "algo_from_prefix prefix =
     (let n = prefix AND 0x0F in
      if n = 0x01 then Some ASha1 else if n = 0x02 then Some ASha256 else if n = 0x03 then Some ASha512 else None)"

definition prefix_byte :: "oath_type \<Rightarrow> algorithm \<Rightarrow> byte" where
  "prefix_byte oath_type algorithm = type_nibble oath_type OR algo_nibble algorithm"

subsection \<open>Builders\<close>

datatype build_error = ValueTooLong string nat | BodyTooLong nat

definition push_tlv :: "bytes \<Rightarrow> tag \<Rightarrow> bytes \<Rightarrow> bytes option" where
  "push_tlv out t value =
     (if length value \<le> 255 then Some (out @ [tag_code t, word_of_nat (length value)] @ value) else None)"

definition try_push_tlv :: "bytes \<Rightarrow> tag \<Rightarrow> string \<Rightarrow> bytes \<Rightarrow> (bytes, build_error) result" where
  "try_push_tlv out t what value =
     (if MAX_SHORT_LEN < length value then Err (ValueTooLong what (length value))
      else Ok (out @ [tag_code t, word_of_nat (length value)] @ value))"

definition finish_apdu :: "byte \<Rightarrow> byte \<Rightarrow> byte \<Rightarrow> bytes \<Rightarrow> (bytes, build_error) result" where
  "finish_apdu ins p1 p2 data =
     (case try_build_apdu 0x00 ins p1 p2 data of
        Ok apdu \<Rightarrow> Ok apdu
      | Err (ApduBodyTooLong n) \<Rightarrow> Err (BodyTooLong n))"

definition with_le :: "bytes \<Rightarrow> bytes" where "with_le apdu = apdu @ [0x00]"

definition select :: "bytes option" where
  "select = map_option with_le (build_apdu 0x00 INS_SELECT P1_SELECT_BY_NAME 0x00 AID)"

record put_params =
  put_name :: bytes
  put_secret :: bytes
  put_type :: oath_type
  put_algorithm :: algorithm
  put_digits :: byte
  put_touch :: bool
  put_imf :: u32

text \<open>\<^verbatim>\<open>while key.len() < 2 + MIN_HMAC_KEY_LEN { key.push(0) }\<close>\<close>

function pad_key :: "bytes \<Rightarrow> bytes" where
  "pad_key key = (if length key < 2 + MIN_HMAC_KEY_LEN then pad_key (key @ [0]) else key)"
  by pat_completeness auto
termination
  by (relation "measure (\<lambda>key. 2 + MIN_HMAC_KEY_LEN - length key)") auto

declare pad_key.simps [simp del]

definition put :: "put_params \<Rightarrow> (bytes, build_error) result" where
  "put p =
     bind_result (try_push_tlv [] TName ''name'' (put_name p)) (\<lambda>data.
     bind_result (try_push_tlv data TKey ''key''
                    (pad_key ([prefix_byte (put_type p) (put_algorithm p), put_digits p] @ put_secret p))) (\<lambda>data.
     let data = (if put_touch p then data @ [tag_code TProperty, PROPERTY_REQUIRE_TOUCH] else data) in
     bind_result (if put_imf p \<noteq> 0 then try_push_tlv data TImf ''imf'' (u32_to_be (put_imf p)) else Ok data) (\<lambda>data.
     finish_apdu (instruction_code IPut) 0x00 0x00 data)))"

definition delete :: "bytes \<Rightarrow> (bytes, build_error) result" where
  "delete name =
     bind_result (try_push_tlv [] TName ''name'' name) (\<lambda>data.
     finish_apdu (instruction_code IDelete) 0x00 0x00 data)"

definition rename :: "bytes \<Rightarrow> bytes \<Rightarrow> (bytes, build_error) result" where
  "rename old new =
     bind_result (try_push_tlv [] TName ''old name'' old) (\<lambda>data.
     bind_result (try_push_tlv data TName ''new name'' new) (\<lambda>data.
     finish_apdu (instruction_code IRename) 0x00 0x00 data))"

definition list_apdu :: bytes where
  "list_apdu = build_apdu_get 0x00 (instruction_code IList) 0x00 0x00 0x00"

definition list_with_properties :: "bytes option" where
  "list_with_properties = map_option with_le (build_apdu 0x00 (instruction_code IList) 0x00 0x00 [0x01])"

definition reset :: bytes where
  "reset = [0x00, instruction_code IReset, 0xDE, 0xAD]"

text \<open>The outer option is the panic of \<^verbatim>\<open>push_tlv\<close>.\<close>

definition calculate_with :: "bytes \<Rightarrow> bytes \<Rightarrow> (bytes, build_error) result option" where
  "calculate_with name challenge =
     (case try_push_tlv [] TName ''name'' name of
        Err e \<Rightarrow> Some (Err e)
      | Ok data \<Rightarrow> map_option (\<lambda>data. bind_result
            (finish_apdu (instruction_code ICalculate) 0x00 P2_TRUNCATED data) (\<lambda>apdu. Ok (with_le apdu)))
          (push_tlv data TChallenge challenge))"

definition calculate :: "bytes \<Rightarrow> bytes \<Rightarrow> (bytes, build_error) result option" where
  "calculate name challenge = calculate_with name challenge"

definition calculate_hotp :: "bytes \<Rightarrow> (bytes, build_error) result option" where
  "calculate_hotp name = calculate_with name []"

definition calculate_all :: "bytes \<Rightarrow> bytes option" where
  "calculate_all challenge =
     Option.bind (push_tlv [] TChallenge challenge) (\<lambda>data.
     map_option with_le (build_apdu 0x00 (instruction_code ICalculateAll) 0x00 P2_TRUNCATED data))"

definition send_remaining :: bytes where
  "send_remaining = build_apdu_get 0x00 (instruction_code ISendRemaining) 0x00 0x00 0x00"

definition get_response :: bytes where
  "get_response = build_apdu_get 0x00 INS_GET_RESPONSE 0x00 0x00 0x00"

subsection \<open>TLV parsing\<close>

datatype parse_error = Truncated | BadPrefix byte | InvalidUtf8 | BadTruncatedResponse | MissingTag byte

record tlv =
  tlv_tag :: byte
  tlv_value :: bytes

text \<open>The loop of \<^verbatim>\<open>parse_tlvs\<close> on what is left from index \<open>i\<close> on; \<open>checked_add\<close>
  cannot fail below a slice's length plus 257.\<close>

fun parse_tlvs :: "bytes \<Rightarrow> (tlv list, parse_error) result" where
  "parse_tlvs [] = Ok []"
| "parse_tlvs [t] = Err Truncated"
| "parse_tlvs (t # n # rest) =
     (let len = unat n in
      if length rest < len then Err Truncated
      else bind_result (parse_tlvs (drop len rest)) (\<lambda>out.
             Ok (\<lparr>tlv_tag = t, tlv_value = take len rest\<rparr> # out)))"

definition find_tag :: "tlv list \<Rightarrow> tag \<Rightarrow> bytes option" where
  "find_tag tlvs t = map_option tlv_value (find (\<lambda>x. tlv_tag x = tag_code t) tlvs)"

subsection \<open>The SELECT response and the password\<close>

record select_info =
  si_version :: bytes
  si_device_id :: bytes
  si_challenge :: "bytes option"
  si_serial :: "bytes option"

datatype more_data_kind = SendRemaining | GetResponse

definition password_required :: "select_info \<Rightarrow> bool" where
  "password_required s \<longleftrightarrow> si_challenge s \<noteq> None"

definition more_data :: "select_info \<Rightarrow> more_data_kind" where
  "more_data s = (if si_serial s \<noteq> None then GetResponse else SendRemaining)"

definition lists_properties :: "select_info \<Rightarrow> bool" where "lists_properties s \<longleftrightarrow> si_serial s \<noteq> None"
definition asks_touch_to_delete :: "select_info \<Rightarrow> bool" where "asks_touch_to_delete s \<longleftrightarrow> si_serial s \<noteq> None"
definition asks_touch_to_save_touch :: "select_info \<Rightarrow> bool" where "asks_touch_to_save_touch s \<longleftrightarrow> si_serial s \<noteq> None"
definition asks_touch_to_reset :: "select_info \<Rightarrow> bool" where "asks_touch_to_reset s \<longleftrightarrow> si_serial s \<noteq> None"

definition unwrap_or_default :: "bytes option \<Rightarrow> bytes" where
  "unwrap_or_default x = (case x of None \<Rightarrow> [] | Some v \<Rightarrow> v)"

definition parse_select :: "bytes \<Rightarrow> (select_info, parse_error) result" where
  "parse_select buf =
     bind_result (parse_tlvs buf) (\<lambda>tlvs.
     Ok \<lparr>si_version = unwrap_or_default (find_tag tlvs TVersion),
         si_device_id = unwrap_or_default (find_tag tlvs TName),
         si_challenge = (case find_tag tlvs TChallenge of None \<Rightarrow> None | Some c \<Rightarrow> if c \<noteq> [] then Some c else None),
         si_serial = find_tag tlvs TSerialNumber\<rparr>)"

definition derive_access_key :: "bytes \<Rightarrow> bytes \<Rightarrow> bytes" where
  "derive_access_key password device_id =
     pbkdf2_hmac_sha1 password device_id ACCESS_KEY_ITERATIONS ACCESS_KEY_LEN"

definition respond :: "bytes \<Rightarrow> bytes \<Rightarrow> bytes" where
  "respond access_key challenge = hmac_sha1 access_key challenge"

definition validate :: "bytes \<Rightarrow> bytes \<Rightarrow> bytes \<Rightarrow> bytes option" where
  "validate access_key card_challenge host_challenge =
     Option.bind (push_tlv [] TResponse (respond access_key card_challenge)) (\<lambda>data.
     Option.bind (push_tlv data TChallenge host_challenge) (\<lambda>data.
     map_option with_le (build_apdu 0x00 (instruction_code IValidate) 0x00 0x00 data)))"

text \<open>\<^verbatim>\<open>ct_eq\<close>: the differences are collected over the whole length.\<close>

definition ct_eq :: "bytes \<Rightarrow> bytes \<Rightarrow> bool" where
  "ct_eq a b = (if length a \<noteq> length b then False
                else fold (\<lambda>(x, y) diff. diff OR (x XOR y)) (zip a b) 0 = 0)"

definition verify_validate :: "bytes \<Rightarrow> bytes \<Rightarrow> bytes \<Rightarrow> (bool, parse_error) result" where
  "verify_validate access_key host_challenge reply =
     bind_result (parse_tlvs reply) (\<lambda>tlvs.
     bind_result (ok_or (MissingTag (tag_code TResponse)) (find_tag tlvs TResponse)) (\<lambda>card_resp.
     Ok (ct_eq card_resp (respond access_key host_challenge))))"

definition set_code :: "bytes \<Rightarrow> bytes \<Rightarrow> bytes option" where
  "set_code access_key challenge =
     Option.bind (push_tlv [] TKey ([prefix_byte Totp ASha1] @ access_key)) (\<lambda>data.
     Option.bind (push_tlv data TChallenge challenge) (\<lambda>data.
     Option.bind (push_tlv data TResponse (respond access_key challenge)) (\<lambda>data.
     build_apdu 0x00 (instruction_code ISetCode) 0x00 0x00 data)))"

definition clear_code :: "bytes option" where
  "clear_code = Option.bind (push_tlv [] TKey []) (\<lambda>data.
     build_apdu 0x00 (instruction_code ISetCode) 0x00 0x00 data)"

definition totp_challenge :: "u64 \<Rightarrow> u32 \<Rightarrow> bytes option" where
  "totp_challenge unix_seconds period =
     (if period = 0 then None else Some (u64_to_be (unix_seconds div ucast period)))"

subsection \<open>Names\<close>

record name_parts =
  np_period :: "u32 option"
  np_issuer :: "bytes option"
  np_account :: bytes

fun split_once :: "byte \<Rightarrow> bytes \<Rightarrow> (bytes \<times> bytes) option" where
  "split_once c [] = None"
| "split_once c (b # bs) =
     (if b = c then Some ([], bs) else map_option (\<lambda>(x, y). (b # x, y)) (split_once c bs))"

text \<open>\<^verbatim>\<open>str::parse::<u32>\<close> of a text of digits: \<open>None\<close> on overflow.\<close>

fun parse_u32 :: "nat \<Rightarrow> bytes \<Rightarrow> u32 option" where
  "parse_u32 acc [] = Some (word_of_nat acc)"
| "parse_u32 acc (b # bs) =
     (let acc = acc * 10 + (unat b - 48) in if acc < 2 ^ 32 then parse_u32 acc bs else None)"

definition split_period :: "bytes \<Rightarrow> u32 option \<times> bytes" where
  "split_period name =
     (case split_once 0x2F name of
        None \<Rightarrow> (None, name)
      | Some (head, rest) \<Rightarrow>
          if head \<noteq> [] \<and> list_all is_ascii_digit head \<and> rest \<noteq> [] then
            (case parse_u32 0 head of
               Some p \<Rightarrow> if p \<noteq> 0 then (Some p, rest) else (None, name)
             | None \<Rightarrow> (None, name))
          else (None, name))"

definition split_issuer :: "bytes \<Rightarrow> bytes option \<times> bytes" where
  "split_issuer rest =
     (case split_once 0x3A rest of
        None \<Rightarrow> (None, rest)
      | Some (issuer, account) \<Rightarrow>
          if issuer \<noteq> [] \<and> account \<noteq> [] then (Some issuer, account) else (None, rest))"

definition parse_name :: "bytes \<Rightarrow> oath_type \<Rightarrow> name_parts" where
  "parse_name name oath_type =
     (let (period, rest) = (case oath_type of Totp \<Rightarrow> split_period name | Hotp \<Rightarrow> (None, name));
          (issuer, account) = split_issuer rest
      in \<lparr>np_period = period, np_issuer = issuer, np_account = account\<rparr>)"

definition totp_period :: "bytes \<Rightarrow> u32" where
  "totp_period name = (case np_period (parse_name name Totp) of None \<Rightarrow> 30 | Some p \<Rightarrow> p)"

subsection \<open>Listings\<close>

record credential_info =
  ci_name :: bytes
  ci_type :: oath_type
  ci_algorithm :: algorithm

record listing =
  credentials :: "credential_info list"
  skipped :: nat
  touch_required :: "bytes list"

definition lacks :: "listing \<Rightarrow> bytes \<Rightarrow> bool" where
  "lacks l name \<longleftrightarrow> skipped l = 0 \<and> \<not> list_ex (\<lambda>c. ci_name c = name) (credentials l)"

text \<open>One pass of the loop; \<open>skip\<close> is \<^verbatim>\<open>skipped += 1; continue\<close>.\<close>

definition skip :: "listing \<Rightarrow> listing" where
  "skip l = l\<lparr>skipped := skipped l + 1\<rparr>"

definition decode_named :: "byte \<Rightarrow> bytes \<Rightarrow> listing \<Rightarrow> listing" where
  "decode_named properties value l =
     (case value of
        [] \<Rightarrow> skip l
      | prefix # name \<Rightarrow>
          (case (type_from_prefix prefix, algo_from_prefix prefix) of
             (Some oath_type, Some algorithm) \<Rightarrow>
               (case from_utf8 name of
                  None \<Rightarrow> skip l
                | Some name \<Rightarrow>
                    l\<lparr>credentials := credentials l @ [\<lparr>ci_name = name, ci_type = oath_type, ci_algorithm = algorithm\<rparr>],
                      touch_required := (if properties AND LIST_PROPERTY_TOUCH \<noteq> 0
                                         then touch_required l @ [name] else touch_required l)\<rparr>)
           | _ \<Rightarrow> skip l))"

definition list_entry :: "bool \<Rightarrow> tlv \<Rightarrow> listing \<Rightarrow> listing" where
  "list_entry with_properties t l =
     (if tlv_tag t \<noteq> tag_code TNameList then l
      else if with_properties then
        (if length (tlv_value t) < 2 then skip l
         else decode_named (last (tlv_value t)) (butlast (tlv_value t)) l)
      else decode_named 0 (tlv_value t) l)"

definition empty_listing :: listing where
  "empty_listing = \<lparr>credentials = [], skipped = 0, touch_required = []\<rparr>"

definition parse_name_list :: "bytes \<Rightarrow> bool \<Rightarrow> (listing, parse_error) result" where
  "parse_name_list buf with_properties =
     bind_result (parse_tlvs buf) (\<lambda>tlvs. Ok (fold (list_entry with_properties) tlvs empty_listing))"

definition parse_list :: "bytes \<Rightarrow> (listing, parse_error) result" where
  "parse_list buf = parse_name_list buf False"

definition parse_list_with_properties :: "bytes \<Rightarrow> (listing, parse_error) result" where
  "parse_list_with_properties buf = parse_name_list buf True"

subsection \<open>Codes\<close>

definition format_truncated :: "bytes \<Rightarrow> byte \<Rightarrow> bytes option" where
  "format_truncated bs digits =
     (if \<not> (1 \<le> digits \<and> digits \<le> 9) then None
      else (let raw = u32_from_be bs AND 0x7FFFFFFF;
                modulus = (10 :: u32) ^ unat digits;
                code = raw mod modulus
            in Some (show_padded (unat digits) (unat code))))"

record otp_code =
  oc_digits :: byte
  oc_code :: bytes

text \<open>The source checks the digit count before it calls \<open>format_truncated\<close>; the check and the
  assertion are the same condition, so its panic is the error here.\<close>

definition parse_truncated_response :: "bytes \<Rightarrow> (otp_code, parse_error) result" where
  "parse_truncated_response value =
     (case value of
        [digits, b0, b1, b2, b3] \<Rightarrow>
          (case format_truncated [b0, b1, b2, b3] digits of
             None \<Rightarrow> Err BadTruncatedResponse
           | Some code \<Rightarrow> Ok \<lparr>oc_digits = digits, oc_code = code\<rparr>)
      | _ \<Rightarrow> Err BadTruncatedResponse)"

definition parse_calculate :: "bytes \<Rightarrow> (otp_code, parse_error) result" where
  "parse_calculate buf =
     bind_result (parse_tlvs buf) (\<lambda>tlvs.
     bind_result (ok_or (MissingTag (tag_code TTruncatedResponse)) (find_tag tlvs TTruncatedResponse))
       parse_truncated_response)"

datatype calculate_all_result = Code otp_code | Touch | HotpEntry

record calculate_all_entry =
  ce_name :: bytes
  ce_result :: calculate_all_result

definition pair_result :: "tlv \<Rightarrow> calculate_all_result option" where
  "pair_result t =
     (if tlv_tag t = tag_code TTruncatedResponse then
        (case parse_truncated_response (tlv_value t) of Ok c \<Rightarrow> Some (Code c) | Err _ \<Rightarrow> None)
      else if tlv_tag t = tag_code TTouch then Some Touch
      else if tlv_tag t = tag_code TNoResponse then Some HotpEntry
      else None)"

text \<open>The loop over the TLVs: the entries found and the number skipped.\<close>

fun calculate_all_loop :: "tlv list \<Rightarrow> calculate_all_entry list \<times> nat" where
  "calculate_all_loop [] = ([], 0)"
| "calculate_all_loop [t] = ([], 1)"
| "calculate_all_loop (t # next # ts) =
     (if tlv_tag t \<noteq> tag_code TName then (let (es, n) = calculate_all_loop (next # ts) in (es, n + 1))
      else if tlv_tag next = tag_code TName then (let (es, n) = calculate_all_loop (next # ts) in (es, n + 1))
      else (let (es, n) = calculate_all_loop ts in
            case (from_utf8 (tlv_value t), pair_result next) of
              (Some name, Some result) \<Rightarrow> (\<lparr>ce_name = name, ce_result = result\<rparr> # es, n)
            | _ \<Rightarrow> (es, n + 1)))"

definition parse_calculate_all :: "bytes \<Rightarrow> (calculate_all_entry list \<times> nat, parse_error) result" where
  "parse_calculate_all buf = bind_result (parse_tlvs buf) (\<lambda>tlvs. Ok (calculate_all_loop tlvs))"

subsection \<open>Encoded TLVs\<close>

definition enc_tlv :: "tlv \<Rightarrow> bytes" where
  "enc_tlv t = [tlv_tag t, word_of_nat (length (tlv_value t))] @ tlv_value t"

lemma parse_tlvs_enc:
  "list_all (\<lambda>t. length (tlv_value t) < 256) ts \<Longrightarrow> parse_tlvs (concat (map enc_tlv ts)) = Ok ts"
  by (induction ts) (simp_all add: enc_tlv_def)

lemma parse_tlvs_sound:
  "parse_tlvs buf = Ok ts \<Longrightarrow> list_all (\<lambda>t. length (tlv_value t) < 256) ts \<and> buf = concat (map enc_tlv ts)"
proof (induction buf arbitrary: ts rule: parse_tlvs.induct)
  case (3 t n rest)
  then obtain out where rest: "\<not> length rest < unat n" "parse_tlvs (drop (unat n) rest) = Ok out"
    "ts = \<lparr>tlv_tag = t, tlv_value = take (unat n) rest\<rparr> # out"
    by (auto simp: Let_def split: if_splits)
  from "3.IH" [OF refl rest(1,2)] rest(1)
  have out: "list_all (\<lambda>t. length (tlv_value t) < 256) out" "drop (unat n) rest = concat (map enc_tlv out)" by simp_all
  have "length (take (unat n) rest) = unat n" using rest(1) by simp
  then have "enc_tlv \<lparr>tlv_tag = t, tlv_value = take (unat n) rest\<rparr> = t # n # take (unat n) rest"
    by (simp add: enc_tlv_def)
  then have "concat (map enc_tlv ts) = t # n # take (unat n) rest @ drop (unat n) rest"
    by (simp add: rest(3) out(2))
  then show ?case using out(1) rest(1) by (simp add: rest(3))
qed simp_all

lemma parse_tlvs_iff:
  "parse_tlvs buf = Ok ts \<longleftrightarrow> list_all (\<lambda>t. length (tlv_value t) < 256) ts \<and> buf = concat (map enc_tlv ts)"
  using parse_tlvs_enc parse_tlvs_sound by blast

lemma parse_tlvs_append:
  "parse_tlvs xs = Ok ts \<Longrightarrow> parse_tlvs ys = Ok us \<Longrightarrow> parse_tlvs (xs @ ys) = Ok (ts @ us)"
  by (simp add: parse_tlvs_iff)

subsection \<open>Builders\<close>

lemma pad_key_eq: "pad_key key = key @ replicate (16 - length key) 0"
proof (induction key rule: pad_key.induct)
  case (1 key)
  show ?case
  proof (cases "length key < 16")
    case True
    then have "16 - length key = Suc (16 - Suc (length key))" by simp
    moreover have "pad_key key = pad_key (key @ [0])" using True by (subst pad_key.simps) (simp add: MIN_HMAC_KEY_LEN_def)
    ultimately show ?thesis using 1 True by (simp add: MIN_HMAC_KEY_LEN_def)
  qed (subst pad_key.simps, simp add: MIN_HMAC_KEY_LEN_def)
qed

definition put_key :: "put_params \<Rightarrow> bytes" where
  "put_key p = [prefix_byte (put_type p) (put_algorithm p), put_digits p]
     @ put_secret p @ replicate (14 - length (put_secret p)) 0"

definition put_body :: "put_params \<Rightarrow> bytes" where
  "put_body p = [0x71, word_of_nat (length (put_name p))] @ put_name p
     @ [0x73, word_of_nat (length (put_key p))] @ put_key p
     @ (if put_touch p then [0x78, 0x02] else [])
     @ (if put_imf p \<noteq> 0 then [0x7A, 4] @ u32_to_be (put_imf p) else [])"

lemma pad_key_put: "pad_key ([prefix_byte (put_type p) (put_algorithm p), put_digits p] @ put_secret p) = put_key p"
  by (simp add: pad_key_eq put_key_def)

lemma put_layout:
  "put p = (if 255 < length (put_name p) then Err (ValueTooLong ''name'' (length (put_name p)))
     else if 255 < length (put_key p) then Err (ValueTooLong ''key'' (length (put_key p)))
     else if 255 < length (put_body p) then Err (BodyTooLong (length (put_body p)))
     else Ok ([0, 1, 0, 0, word_of_nat (length (put_body p))] @ put_body p))"
  unfolding put_def pad_key_put
  by (simp add: try_push_tlv_def MAX_SHORT_LEN_def Let_def finish_apdu_def try_build_apdu_def put_body_def
      PROPERTY_REQUIRE_TOUCH_def)

lemma padded_secret: "hmac_sha1 (drop 2 (put_key p)) data = hmac_sha1 (put_secret p) data"
  using hmac_key_block_pad [of "put_secret p" "14 - length (put_secret p)"]
  by (cases "length (put_secret p) \<le> 14") (simp_all add: hmac_sha1_def put_key_def)

subsection \<open>Authentication\<close>

lemma fold_xor_or:
  "length a = length b \<Longrightarrow> fold (\<lambda>(x, y) diff. diff OR (x XOR y)) (zip a b) d = (0 :: byte) \<longleftrightarrow> d = 0 \<and> a = b"
proof (induction a b arbitrary: d rule: list_induct2)
  case (Cons x xs y ys)
  have "d OR (x XOR y) = 0 \<longleftrightarrow> d = 0 \<and> x = y"
    by (auto simp: bit_eq_iff bit_simps)
  then show ?case using Cons.IH [of "d OR (x XOR y)"] by auto
qed simp

lemma ct_eq_iff: "ct_eq a b \<longleftrightarrow> a = b"
  by (auto simp: ct_eq_def fold_xor_or)

lemma find_tag_single [simp]: "find_tag [\<lparr>tlv_tag = tag_code t, tlv_value = v\<rparr>] t = Some v"
  by (simp add: find_tag_def)

lemma verify_validate_iff:
  "verify_validate key hc reply = Ok b \<longleftrightarrow>
     (\<exists>tlvs r. parse_tlvs reply = Ok tlvs \<and> find_tag tlvs TResponse = Some r \<and> b = (r = hmac_sha1 key hc))"
  by (auto simp: verify_validate_def ct_eq_iff respond_def)

lemma parse_single:
  assumes "length v < 256"
  shows "parse_tlvs ([t, word_of_nat (length v)] @ v) = Ok [\<lparr>tlv_tag = t, tlv_value = v\<rparr>]"
  using parse_tlvs_enc [of "[\<lparr>tlv_tag = t, tlv_value = v\<rparr>]"] assms by (simp add: enc_tlv_def)

lemma verify_honest: "verify_validate key hc ([0x75, 20] @ hmac_sha1 key hc) = Ok True"
proof -
  have "parse_tlvs ([0x75, 20] @ hmac_sha1 key hc) = Ok [\<lparr>tlv_tag = tag_code TResponse, tlv_value = hmac_sha1 key hc\<rparr>]"
    using parse_single [of "hmac_sha1 key hc" "0x75"] by simp
  then show ?thesis unfolding verify_validate_iff by (metis find_tag_single)
qed

subsection \<open>Listings\<close>

definition merge :: "listing \<Rightarrow> listing \<Rightarrow> listing" where
  "merge l m = \<lparr>credentials = credentials l @ credentials m, skipped = skipped l + skipped m,
                touch_required = touch_required l @ touch_required m\<rparr>"

lemma merge_empty [simp]: "merge l empty_listing = l" "merge empty_listing l = l"
  by (simp_all add: merge_def empty_listing_def)

lemma merge_assoc: "merge (merge a b) c = merge a (merge b c)"
  by (simp add: merge_def)

lemma decode_named_merge: "decode_named p v (merge a b) = merge a (decode_named p v b)"
  by (auto simp: decode_named_def merge_def skip_def split: list.splits option.splits)

lemma list_entry_merge: "list_entry wp t (merge a b) = merge a (list_entry wp t b)"
  by (simp add: list_entry_def decode_named_merge) (simp add: merge_def skip_def)

lemma fold_entries_merge: "fold (list_entry wp) ts (merge a b) = merge a (fold (list_entry wp) ts b)"
  by (induction ts arbitrary: b) (simp_all add: list_entry_merge)

lemma parse_name_list_append:
  assumes "parse_name_list xs wp = Ok l" "parse_name_list ys wp = Ok m"
  shows "parse_name_list (xs @ ys) wp = Ok (merge l m)"
proof -
  from assms obtain ts us where t: "parse_tlvs xs = Ok ts" "l = fold (list_entry wp) ts empty_listing"
    and u: "parse_tlvs ys = Ok us" "m = fold (list_entry wp) us empty_listing"
    by (auto simp: parse_name_list_def)
  have "fold (list_entry wp) (ts @ us) empty_listing = merge l m"
    using fold_entries_merge [of wp us l empty_listing] by (simp add: t(2) u(2))
  then show ?thesis by (simp add: parse_name_list_def parse_tlvs_append [OF t(1) u(1)])
qed

lemma prefix_byte_decode: "type_from_prefix (prefix_byte t a) = Some t" "algo_from_prefix (prefix_byte t a) = Some a"
  by (cases t; cases a; simp add: prefix_byte_def type_from_prefix_def algo_from_prefix_def)+

text \<open>A listed credential as the card writes it.\<close>

definition enc_credential :: "bool \<Rightarrow> credential_info \<Rightarrow> bool \<Rightarrow> bytes" where
  "enc_credential wp c touch =
     (let v = prefix_byte (ci_type c) (ci_algorithm c) # ci_name c @ (if wp then [if touch then 1 else 0] else [])
      in [0x72, word_of_nat (length v)] @ v)"

lemma parse_credential:
  assumes "utf8_valid (ci_name c)" "length (ci_name c) < 254"
  shows "parse_name_list (enc_credential wp c touch) wp
    = Ok \<lparr>credentials = [c], skipped = 0, touch_required = (if wp \<and> touch then [ci_name c] else [])\<rparr>"
proof -
  define v where "v = prefix_byte (ci_type c) (ci_algorithm c) # ci_name c @ (if wp then [if touch then 1 else 0] else [])"
  have "length v < 256" using assms(2) by (simp add: v_def)
  then have p: "parse_tlvs (enc_credential wp c touch) = Ok [\<lparr>tlv_tag = 0x72, tlv_value = v\<rparr>]"
    using parse_single [of v "0x72"] by (simp add: enc_credential_def v_def Let_def)
  show ?thesis
    by (simp add: parse_name_list_def p)
       (auto simp: v_def list_entry_def decode_named_def prefix_byte_decode from_utf8_def assms(1) empty_listing_def
         LIST_PROPERTY_TOUCH_def butlast_append)
qed

lemma skip_pos: "skipped l \<le> skipped (list_entry wp t l)"
  by (auto simp: list_entry_def decode_named_def skip_def split: list.splits option.splits)

lemma fold_skip_mono: "skipped l \<le> skipped (fold (list_entry wp) ts l)"
  by (induction ts arbitrary: l) (auto intro: order_trans [OF skip_pos])

lemma credentials_mono: "set (credentials l) \<subseteq> set (credentials (list_entry wp t l))"
  by (auto simp: list_entry_def decode_named_def skip_def split: list.splits option.splits)

lemma fold_credentials_mono: "set (credentials l) \<subseteq> set (credentials (fold (list_entry wp) ts l))"
  by (induction ts arbitrary: l) (auto dest: subsetD [OF credentials_mono])

lemma list_entry_name:
  assumes "tlv_tag t = 0x72" "skipped (list_entry False t l) = skipped l"
  shows "\<exists>c \<in> set (credentials (list_entry False t l)). ci_name c = tl (tlv_value t)"
  using assms by (auto simp: list_entry_def decode_named_def skip_def from_utf8_def split: list.splits option.splits if_splits)

lemma fold_lacks:
  assumes "skipped (fold (list_entry False) ts l) = skipped l" "t \<in> set ts" "tlv_tag t = 0x72"
  shows "\<exists>c \<in> set (credentials (fold (list_entry False) ts l)). ci_name c = tl (tlv_value t)"
  using assms
proof (induction ts arbitrary: l)
  case (Cons u ts)
  have s: "skipped (list_entry False u l) = skipped l"
    "skipped (fold (list_entry False) ts (list_entry False u l)) = skipped (list_entry False u l)"
    using Cons.prems(1) skip_pos [of l False u] fold_skip_mono [of "list_entry False u l" False ts] by auto
  show ?case
  proof (cases "t = u")
    case True
    then show ?thesis
      using list_entry_name [OF Cons.prems(3), of l] s(1) fold_credentials_mono [of "list_entry False u l" False ts] by auto
  next
    case False
    with Cons.prems Cons.IH [OF s(2)] show ?thesis by auto
  qed
qed simp

lemma lacks_sound:
  assumes "parse_list buf = Ok l" "lacks l name" "parse_tlvs buf = Ok ts"
  shows "list_all (\<lambda>t. tlv_tag t \<noteq> 0x72 \<or> tl (tlv_value t) \<noteq> name) ts"
proof -
  have l: "l = fold (list_entry False) ts empty_listing" using assms(1,3) by (simp add: parse_list_def parse_name_list_def)
  with assms(2) have "skipped (fold (list_entry False) ts empty_listing) = skipped empty_listing"
    by (simp add: lacks_def empty_listing_def)
  from fold_lacks [OF this] assms(2) show ?thesis by (auto simp: l lacks_def list_all_iff list_ex_iff)
qed

subsection \<open>Decimal codes\<close>

lemma format_truncated_spec:
  "format_truncated bs digits =
     (if 1 \<le> digits \<and> digits \<le> 9
      then Some (show_padded (unat digits) (unat (u32_from_be bs) mod 2 ^ 31 mod 10 ^ unat digits)) else None)"
proof (cases "1 \<le> digits \<and> digits \<le> 9")
  case True
  then have d: "unat digits \<le> 9" by (simp add: word_le_nat_alt)
  then have "(10 :: nat) ^ unat digits \<le> 10 ^ 9" by (intro power_increasing) simp_all
  then have ten: "unat ((10 :: u32) ^ unat digits) = 10 ^ unat digits"
    using unat_of_nat [of "10 ^ unat digits", where ?'a = 32] by simp
  have "unat (u32_from_be bs AND mask 31) = unat (u32_from_be bs) mod 2 ^ 31"
    using unat_drop_mask [of 0 "u32_from_be bs" 31] by simp
  then have raw: "unat (u32_from_be bs AND 0x7FFFFFFF) = unat (u32_from_be bs) mod 2 ^ 31"
    by (simp add: mask_eq_exp_minus_1)
  show ?thesis using True by (simp add: format_truncated_def Let_def unat_mod ten raw)
qed (auto simp: format_truncated_def)

subsection \<open>Responses to CALCULATE ALL\<close>

text \<open>What one pair of TLVs stands for.\<close>

definition pair_entry :: "tlv \<times> tlv \<Rightarrow> calculate_all_entry option" where
  "pair_entry = (\<lambda>(a, b). case (from_utf8 (tlv_value a), pair_result b) of
     (Some name, Some r) \<Rightarrow> Some \<lparr>ce_name = name, ce_result = r\<rparr> | _ \<Rightarrow> None)"

lemma calculate_all_pairs:
  "list_all (\<lambda>(a, b). tlv_tag a = 0x71 \<and> tlv_tag b \<noteq> 0x71) ps \<Longrightarrow>
   calculate_all_loop (concat (map (\<lambda>(a, b). [a, b]) ps))
     = (List.map_filter pair_entry ps, length (filter (\<lambda>p. pair_entry p = None) ps))"
  by (induction ps) (auto simp: map_filter_simps pair_entry_def split: option.splits)

lemma calculate_all_count: "length (fst (calculate_all_loop ts)) + snd (calculate_all_loop ts) \<le> length ts
    \<and> length ts \<le> 2 * (length (fst (calculate_all_loop ts)) + snd (calculate_all_loop ts))"
proof (induction ts rule: calculate_all_loop.induct)
  case (3 t u ts)
  show ?case
    using 3 by (auto split: prod.splits option.splits)
qed simp_all

subsection \<open>Names\<close>

lemma split_once_some: "split_once c xs = Some (a, b) \<longleftrightarrow> xs = a @ c # b \<and> c \<notin> set a"
proof (induction xs arbitrary: a)
  case (Cons x xs)
  show ?case
  proof (cases "x = c")
    case True
    then show ?thesis by (cases a) auto
  next
    case False
    then have step: "split_once c (x # xs) = map_option (\<lambda>(u, v). (x # u, v)) (split_once c xs)" by simp
    show ?thesis
    proof (cases a)
      case Nil
      with False show ?thesis unfolding step by auto
    next
      case (Cons y ys)
      have "split_once c (x # xs) = Some (a, b) \<longleftrightarrow> x = y \<and> split_once c xs = Some (ys, b)"
        unfolding step Cons by auto
      with False show ?thesis unfolding Cons.IH [of ys] Cons by auto
    qed
  qed
qed simp

lemma parse_u32_value: "parse_u32 acc bs = Some p \<Longrightarrow> acc < 2 ^ 32 \<Longrightarrow> dec_value acc bs < 2 ^ 32 \<and> unat p = dec_value acc bs"
  by (induction bs arbitrary: acc) (auto simp: Let_def unat_of_nat split: if_splits)

lemma dec_value_mono: "acc \<le> dec_value acc bs"
proof (induction bs arbitrary: acc)
  case (Cons b bs)
  have "acc \<le> acc * 10 + (unat b - 48)" by simp
  also have "\<dots> \<le> dec_value (acc * 10 + (unat b - 48)) bs" by (rule Cons.IH)
  finally show ?case by simp
qed simp

lemma parse_u32_complete: "dec_value acc bs < 2 ^ 32 \<Longrightarrow> parse_u32 acc bs = Some (word_of_nat (dec_value acc bs))"
proof (induction bs arbitrary: acc)
  case (Cons b bs)
  have "acc * 10 + (unat b - 48) < 2 ^ 32"
    using dec_value_mono [of "acc * 10 + (unat b - 48)" bs] Cons.prems by simp
  with Cons show ?case by (simp add: Let_def)
qed simp

lemma split_period_cases:
  obtains "split_period name = (None, name)"
  | p head rest where "split_period name = (Some p, rest)" "name = head @ 0x2F # rest" "p \<noteq> 0" "rest \<noteq> []"
    "list_all is_ascii_digit head" "dec_value 0 head = unat p"
proof (cases "split_period name")
  case (Pair x y)
  show thesis
  proof (cases x)
    case None
    then have "y = name" using Pair by (auto simp: split_period_def split: option.splits if_splits)
    with None Pair that(1) show thesis by simp
  next
    case (Some p)
    with Pair obtain head where h: "split_once 0x2F name = Some (head, y)" "list_all is_ascii_digit head" "y \<noteq> []"
      "parse_u32 0 head = Some p" "p \<noteq> 0"
      by (auto simp: split_period_def split: option.splits if_splits)
    from that(2) [of p y head] h Pair Some parse_u32_value [OF h(4)] show thesis by (simp add: split_once_some)
  qed
qed

lemma split_issuer_cases:
  obtains "split_issuer rest = (None, rest)"
  | issuer account where "split_issuer rest = (Some issuer, account)" "rest = issuer @ 0x3A # account"
    "issuer \<noteq> []" "account \<noteq> []" "0x3A \<notin> set issuer"
proof (cases "split_once 0x3A rest")
  case None
  with that(1) show thesis by (simp add: split_issuer_def)
next
  case (Some ia)
  then obtain i a where "split_once 0x3A rest = Some (i, a)" by (cases ia) auto
  note s = this this [unfolded split_once_some]
  show thesis
  proof (cases "i \<noteq> [] \<and> a \<noteq> []")
    case True
    then have "split_issuer rest = (Some i, a)" by (simp add: split_issuer_def s(1))
    with that(2) True s(2) show thesis by blast
  next
    case False
    then have "split_issuer rest = (None, rest)" by (auto simp: split_issuer_def s(1))
    with that(1) show thesis by blast
  qed
qed

lemma split_period_canonical:
  assumes "p \<noteq> 0" "rest \<noteq> []"
  shows "split_period (show_dec (unat p) @ 0x2F # rest) = (Some p, rest)"
proof -
  have d: "list_all is_ascii_digit (show_dec (unat p))" "show_dec (unat p) \<noteq> []" using show_dec_digits by blast+
  then have "0x2F \<notin> set (show_dec (unat p))" by (auto simp: list_all_iff is_ascii_digit_def)
  then have s: "split_once 0x2F (show_dec (unat p) @ 0x2F # rest) = Some (show_dec (unat p), rest)"
    by (simp add: split_once_some)
  have "unat p < 2 ^ 32" using unsigned_less [of p, where ?'a = nat] by simp
  then have "parse_u32 0 (show_dec (unat p)) = Some p"
    using parse_u32_complete [of 0 "show_dec (unat p)"] by (simp add: show_dec_value)
  with s d assms show ?thesis by (simp add: split_period_def)
qed

lemma split_issuer_canonical:
  "issuer \<noteq> [] \<Longrightarrow> account \<noteq> [] \<Longrightarrow> 0x3A \<notin> set issuer \<Longrightarrow>
   split_issuer (issuer @ 0x3A # account) = (Some issuer, account)"
proof -
  assume a: "issuer \<noteq> []" "account \<noteq> []" "0x3A \<notin> set issuer"
  then have "split_once 0x3A (issuer @ 0x3A # account) = Some (issuer, account)" by (simp add: split_once_some)
  with a show ?thesis by (simp add: split_issuer_def)
qed

subsection \<open>Properties\<close>

text \<open>\<^verbatim>\<open>parse_tlvs\<close> accepts exactly the concatenations of short-form TLVs and returns
  those TLVs.\<close>

theorem tlv_roundtrip:
  "parse_tlvs buf = Ok ts \<longleftrightarrow>
     list_all (\<lambda>t. length (tlv_value t) < 256) ts \<and> buf = concat (map enc_tlv ts)"
  by (rule parse_tlvs_iff)


text \<open>The password handshake.  The check of the card's answer returns a verdict exactly when the reply is
  a TLV list with a response in it, and the verdict is true exactly when the first response is the HMAC of the
  host's challenge; an honest reply passes.  VALIDATE carries the HMAC of the card's challenge.\<close>

theorem validate_mutual:
  "(verify_validate key hc reply = Ok b \<longleftrightarrow>
      (\<exists>tlvs r. parse_tlvs reply = Ok tlvs \<and> find_tag tlvs TResponse = Some r \<and> b = (r = hmac_sha1 key hc)))
   \<and> verify_validate key hc ([0x75, 20] @ hmac_sha1 key hc) = Ok True
   \<and> validate key cc hc = (if length hc \<le> 231
        then Some ([0, 0xA3, 0, 0, word_of_nat (24 + length hc), 0x75, 20] @ hmac_sha1 key cc
                   @ [0x74, word_of_nat (length hc)] @ hc @ [0])
        else None)"
proof (intro conjI verify_validate_iff verify_honest)
  show "validate key cc hc = (if length hc \<le> 231
        then Some ([0, 0xA3, 0, 0, word_of_nat (24 + length hc), 0x75, 20] @ hmac_sha1 key cc
                   @ [0x74, word_of_nat (length hc)] @ hc @ [0])
        else None)"
    by (simp add: validate_def push_tlv_def respond_def build_apdu_def try_build_apdu_def with_le_def)
qed

text \<open>Listings.  The listing of two responses one after the other is the two listings joined, so an
  entry that cannot be decoded is counted and hides no other; a listed credential is read back, with its touch
  property; and a name that a listing lacks is the name of no NAME\_LIST entry of the response.\<close>

theorem listing_entries:
  assumes "parse_name_list xs wp = Ok l" "parse_name_list ys wp = Ok m"
    and "utf8_valid (ci_name c)" "length (ci_name c) < 254"
    and "parse_list buf = Ok k" "lacks k name"
  shows "parse_name_list (xs @ ys) wp = Ok (merge l m)
    \<and> parse_name_list (enc_credential wp c touch) wp
       = Ok \<lparr>credentials = [c], skipped = 0, touch_required = (if wp \<and> touch then [ci_name c] else [])\<rparr>
    \<and> (\<exists>ts. parse_tlvs buf = Ok ts \<and> list_all (\<lambda>t. tlv_tag t \<noteq> 0x72 \<or> tl (tlv_value t) \<noteq> name) ts)"
proof -
  obtain ts where ts: "parse_tlvs buf = Ok ts" using assms(5) by (auto simp: parse_list_def parse_name_list_def)
  from parse_name_list_append [OF assms(1,2)] parse_credential [OF assms(3,4)] lacks_sound [OF assms(5,6) ts] ts
  show ?thesis by blast
qed

theorem listing_entries_witness:
  "parse_name_list ([0x72, 1, 0x99] @ [0x72, 2, 0x21, 0x41]) False
   = Ok (merge \<lparr>credentials = [], skipped = 1, touch_required = []\<rparr>
           \<lparr>credentials = [\<lparr>ci_name = [0x41], ci_type = Totp, ci_algorithm = ASha1\<rparr>], skipped = 0, touch_required = []\<rparr>)"
proof -
  have u: "utf8_valid [0x41]" by (rule utf8_valid_ascii) simp
  let ?c = "\<lparr>ci_name = [0x41], ci_type = Totp, ci_algorithm = ASha1\<rparr>"
  have a: "parse_name_list [0x72, 1, 0x99] False = Ok \<lparr>credentials = [], skipped = 1, touch_required = []\<rparr>"
    by (simp add: parse_name_list_def list_entry_def decode_named_def type_from_prefix_def skip_def empty_listing_def)
  have b: "parse_name_list [0x72, 2, 0x21, 0x41] False = Ok \<lparr>credentials = [?c], skipped = 0, touch_required = []\<rparr>"
    using parse_credential [of ?c False False] u by (simp add: enc_credential_def prefix_byte_def)
  have c: "parse_list [] = Ok empty_listing" "lacks empty_listing [0x42]"
    by (simp_all add: parse_list_def parse_name_list_def lacks_def empty_listing_def)
  show ?thesis using listing_entries [OF a b, of ?c "[]" empty_listing "[0x42]" False] u c by simp
qed

text \<open>CALCULATE ALL.  Of a response made of name and result pairs, the decodable pairs are returned in
  order and the others counted; whatever the response, every TLV is accounted for: an entry or a skip stands for
  one or two TLVs.\<close>

theorem calculate_all_accounts:
  assumes "list_all (\<lambda>(a, b). tlv_tag a = 0x71 \<and> tlv_tag b \<noteq> 0x71
      \<and> length (tlv_value a) < 256 \<and> length (tlv_value b) < 256) ps"
    and "parse_calculate_all buf = Ok (es, n)" "parse_tlvs buf = Ok ts"
  shows "parse_calculate_all (concat (map (\<lambda>(a, b). enc_tlv a @ enc_tlv b) ps))
      = Ok (List.map_filter pair_entry ps, length (filter (\<lambda>p. pair_entry p = None) ps))
    \<and> length es + n \<le> length ts \<and> length ts \<le> 2 * (length es + n)"
proof -
  let ?ts = "concat (map (\<lambda>(a, b). [a, b]) ps)"
  have "concat (map (\<lambda>(a, b). enc_tlv a @ enc_tlv b) ps) = concat (map enc_tlv ?ts)"
    by (induction ps) auto
  moreover have "list_all (\<lambda>t. length (tlv_value t) < 256) ?ts"
    using assms(1) by (induction ps) auto
  moreover have "list_all (\<lambda>(a, b). tlv_tag a = 0x71 \<and> tlv_tag b \<noteq> 0x71) ps"
    using assms(1) by (auto simp: list_all_iff)
  ultimately have "parse_calculate_all (concat (map (\<lambda>(a, b). enc_tlv a @ enc_tlv b) ps))
      = Ok (List.map_filter pair_entry ps, length (filter (\<lambda>p. pair_entry p = None) ps))"
    by (simp add: parse_calculate_all_def parse_tlvs_enc calculate_all_pairs)
  then show ?thesis using calculate_all_count [of ts] assms(2,3) by (auto simp: parse_calculate_all_def)
qed

theorem calculate_all_accounts_witness:
  "\<exists>es n. parse_calculate_all [0x71, 1, 0x41, 0x7C, 0, 0x77, 0] = Ok (es, n) \<and> length es + n \<le> 3 \<and> 3 \<le> 2 * (length es + n)"
proof -
  let ?ts = "[\<lparr>tlv_tag = 0x71, tlv_value = [0x41]\<rparr>, \<lparr>tlv_tag = 0x7C, tlv_value = []\<rparr>, \<lparr>tlv_tag = 0x77, tlv_value = []\<rparr>]"
  have t: "parse_tlvs [0x71, 1, 0x41, 0x7C, 0, 0x77, 0] = Ok ?ts" by simp
  obtain es n where p: "parse_calculate_all [0x71, 1, 0x41, 0x7C, 0, 0x77, 0] = Ok (es, n)"
    by (cases "calculate_all_loop ?ts") (simp add: parse_calculate_all_def)
  show ?thesis using calculate_all_accounts [of "[]", OF _ p t] p by simp
qed

text \<open>A code has exactly the digits the card reported and shows the low 31 bits of the four bytes modulo
  the power of ten; the formatter panics exactly outside 1 to 9 digits.\<close>

theorem format_truncated_exact:
  "case format_truncated bs digits of
     None \<Rightarrow> digits = 0 \<or> 9 < digits
   | Some code \<Rightarrow> 1 \<le> digits \<and> digits \<le> 9 \<and> length code = unat digits \<and> list_all is_ascii_digit code
       \<and> dec_value 0 code = unat (u32_from_be bs) mod 2 ^ 31 mod 10 ^ unat digits"
proof (cases "1 \<le> digits \<and> digits \<le> 9")
  case True
  then have "0 < unat digits" by (simp add: word_le_nat_alt)
  moreover have "unat (u32_from_be bs) mod 2 ^ 31 mod 10 ^ unat digits < 10 ^ unat digits" by simp
  ultimately show ?thesis
    using True show_padded_spec by (simp add: format_truncated_spec)
next
  case False
  then show ?thesis by (auto simp: format_truncated_spec not_le word_less_nat_alt word_le_nat_alt word_unat_eq_iff)
qed

text \<open>Names.  Splitting loses nothing: the name is the period prefix, the issuer with its colon and the account,
  and a period that is read is a non-zero one written in digits.  A name composed of a period, an
  issuer without a colon and an account is split into these again, and the period decides the challenge.\<close>

theorem parse_name_exact:
  assumes "p \<noteq> 0" "issuer \<noteq> []" "account \<noteq> []" "0x3A \<notin> set issuer"
  shows "parse_name (show_dec (unat p) @ 0x2F # issuer @ 0x3A # account) Totp
      = \<lparr>np_period = Some p, np_issuer = Some issuer, np_account = account\<rparr>
    \<and> totp_period (show_dec (unat p) @ 0x2F # issuer @ 0x3A # account) = p
    \<and> (\<exists>head. list_all is_ascii_digit head
        \<and> name = (case np_period (parse_name name t) of None \<Rightarrow> [] | Some q \<Rightarrow> head @ [0x2F])
               @ (case np_issuer (parse_name name t) of None \<Rightarrow> [] | Some i \<Rightarrow> i @ [0x3A]) @ np_account (parse_name name t)
        \<and> (case np_period (parse_name name t) of None \<Rightarrow> True | Some q \<Rightarrow> q \<noteq> 0 \<and> dec_value 0 head = unat q))"
proof -
  have canon: "parse_name (show_dec (unat p) @ 0x2F # issuer @ 0x3A # account) Totp
      = \<lparr>np_period = Some p, np_issuer = Some issuer, np_account = account\<rparr>"
    using split_period_canonical [OF assms(1), of "issuer @ 0x3A # account"] split_issuer_canonical [OF assms(2-4)]
    by (simp add: parse_name_def)
  let ?period = "case t of Totp \<Rightarrow> split_period name | Hotp \<Rightarrow> (None, name)"
  obtain head where head: "list_all is_ascii_digit head"
    "name = (case fst ?period of None \<Rightarrow> [] | Some q \<Rightarrow> head @ [0x2F]) @ snd ?period"
    "case fst ?period of None \<Rightarrow> True | Some q \<Rightarrow> q \<noteq> 0 \<and> dec_value 0 head = unat q"
  proof (cases t)
    case Hotp
    with that [of "[]"] show thesis by simp
  next
    case Totp
    show thesis
      by (rule split_period_cases [of name]) (use Totp that [of "[]"] that in auto)
  qed
  have iss: "snd ?period = (case fst (split_issuer (snd ?period)) of None \<Rightarrow> [] | Some i \<Rightarrow> i @ [0x3A]) @ snd (split_issuer (snd ?period))"
    by (rule split_issuer_cases [of "snd ?period"]) auto
  have parts: "np_period (parse_name name t) = fst ?period" "np_issuer (parse_name name t) = fst (split_issuer (snd ?period))"
    "np_account (parse_name name t) = snd (split_issuer (snd ?period))"
    by (simp_all add: parse_name_def split: prod.splits)
  from head iss canon show ?thesis unfolding parts by (intro conjI exI [of _ head]) (simp_all add: totp_period_def)
qed

theorem parse_name_exact_witness:
  "totp_period (show_dec 60 @ 0x2F # [0x41] @ 0x3A # [0x42]) = 60"
  using parse_name_exact [of 60 "[0x41]" "[0x42]" "[]" Hotp] by simp

end
