(* ===== verification/Otp_Frames.thy ===== *)
theory Otp_Frames
  imports Prelude
begin

text \<open>
  \<^verbatim>\<open>crates/keyroost-token2otp/src/hidframe.rs\<close>: the framing of the Token2 OTP applet over HID,
  a 64-byte payload behind a report id, with 61 data bytes, a 4-bit sequence number and busy frames.  The
  counter of busy frames wraps in the model; the source would need 2^32 consecutive busy frames to
  overflow it.
\<close>

definition REPORT_PAYLOAD :: nat where "REPORT_PAYLOAD = 64"
definition PAYLOAD_HEADER :: nat where "PAYLOAD_HEADER = 3"
definition MAX_CHUNK :: nat where "MAX_CHUNK = REPORT_PAYLOAD - PAYLOAD_HEADER"
definition MAGIC :: byte where "MAGIC = 0x21"
definition FLAG_MORE :: byte where "FLAG_MORE = 0x20"
definition FLAG_BUSY :: byte where "FLAG_BUSY = 0xC0"
definition FLAG_LAST :: byte where "FLAG_LAST = 0x00"
definition MAX_RESPONSE :: nat where "MAX_RESPONSE = 64 * 1024"

lemmas frame_defs = REPORT_PAYLOAD_def PAYLOAD_HEADER_def MAX_CHUNK_def MAGIC_def FLAG_MORE_def FLAG_BUSY_def
  FLAG_LAST_def MAX_RESPONSE_def

definition otp_frame :: "byte \<Rightarrow> byte \<Rightarrow> bytes \<Rightarrow> bytes" where
  "otp_frame flags seq chunk =
     [0x00, MAGIC, flags OR seq, word_of_nat (length chunk)] @ chunk
     @ replicate (REPORT_PAYLOAD + 1 - (4 + length chunk)) 0"

definition build_send_frames :: "bytes \<Rightarrow> bytes list" where
  "build_send_frames apdu =
     (if apdu = [] then [otp_frame FLAG_LAST 0 []]
      else (let total_chunks = (length apdu + (MAX_CHUNK - 1)) div MAX_CHUNK in
            map (\<lambda>(i, chunk).
                let is_last = (i + 1 = total_chunks);
                    flags = (if is_last then FLAG_LAST else FLAG_MORE)
                in otp_frame flags (word_of_nat (i mod 16)) chunk)
              (enumerate 0 (chunks MAX_CHUNK apdu))))"

datatype step = NeedMore | Busy u32 | Done

datatype frame_error = BadMagic | ChunkTooLong byte | OutOfSequence byte byte | ShortFrame | ResponseTooLong

record response_assembler =
  ra_buf :: bytes
  ra_received :: byte
  ra_busy_retries :: u32
  ra_done :: bool

definition new_assembler :: response_assembler where
  "new_assembler = \<lparr>ra_buf = [], ra_received = 0, ra_busy_retries = 0, ra_done = False\<rparr>"

text \<open>The payload of a report: without the report id where the platform kept it.\<close>

definition strip_report_id :: "bytes \<Rightarrow> bytes" where
  "strip_report_id raw = (if 2 \<le> length raw \<and> raw ! 0 = 0x00 \<and> raw ! 1 = MAGIC then tl raw else raw)"

definition push :: "response_assembler \<Rightarrow> bytes \<Rightarrow> response_assembler \<times> (step, frame_error) result" where
  "push st raw =
     (let payload = strip_report_id raw in
      if length payload < PAYLOAD_HEADER then (st, Err ShortFrame)
      else if payload ! 0 \<noteq> MAGIC then (st, Err BadMagic)
      else
        (let flags = payload ! 1 AND 0xF0; seq = payload ! 1 AND 0x0F in
         if flags = FLAG_BUSY then
           (let st = st\<lparr>ra_busy_retries := ra_busy_retries st + 1\<rparr> in (st, Ok (Busy (ra_busy_retries st))))
         else
           (let st = st\<lparr>ra_busy_retries := 0\<rparr> in
            if seq \<noteq> ra_received st mod 16 then (st, Err (OutOfSequence (ra_received st mod 16) seq))
            else
              (let st = st\<lparr>ra_received := ra_received st + 1\<rparr>; len = payload ! 2 in
               if MAX_CHUNK < unat len then (st, Err (ChunkTooLong len))
               else if length payload < PAYLOAD_HEADER + unat len then (st, Err ShortFrame)
               else
                 (let chunk = take (unat len) (drop PAYLOAD_HEADER payload) in
                  if MAX_RESPONSE < length (ra_buf st) + length chunk then (st, Err ResponseTooLong)
                  else
                    (let st = st\<lparr>ra_buf := ra_buf st @ chunk\<rparr> in
                     if flags AND FLAG_MORE \<noteq> 0 then (st, Ok NeedMore)
                     else (st\<lparr>ra_done := True\<rparr>, Ok Done)))))))"

definition into_response :: "response_assembler \<Rightarrow> (bytes \<times> u16) option" where
  "into_response st =
     (if length (ra_buf st) < 2 then None
      else (let split = length (ra_buf st) - 2;
                sw = push_bit 8 (ucast (ra_buf st ! split)) OR ucast (ra_buf st ! (split + 1))
            in Some (take split (ra_buf st), sw)))"

subsection \<open>Frames in sequence\<close>

fun frames_from :: "nat \<Rightarrow> bytes list \<Rightarrow> bytes list" where
  "frames_from i [] = []"
| "frames_from i (c # cs) =
     otp_frame (if cs = [] then FLAG_LAST else FLAG_MORE) (word_of_nat (i mod 16)) c # frames_from (i + 1) cs"

lemma length_chunks: "0 < n \<Longrightarrow> length (chunks n xs) = (length xs + (n - 1)) div n"
proof (induction n xs rule: chunks.induct)
  case (1 n xs)
  show ?case
  proof (cases "xs = []")
    case False
    then have "length (chunks n xs) = Suc ((length xs - n + (n - 1)) div n)"
      using 1 by (subst chunks_step) auto
    also have "\<dots> = (length xs + (n - 1)) div n"
    proof (cases "n \<le> length xs")
      case True
      then have "length xs + (n - 1) = (length xs - n + (n - 1)) + n" by simp
      then show ?thesis using "1.prems" by (metis div_add_self2 Suc_eq_plus1 not_less0)
    next
      case False': False
      then have "(length xs + (n - 1)) div n = 1"
        using False "1.prems" by (intro div_nat_eqI) (auto simp: Suc_le_eq neq_Nil_conv)
      then show ?thesis using False' "1.prems" by simp
    qed
    finally show ?thesis .
  qed (use "1.prems" in simp)
qed

lemma frames_from_enumerate:
  "frames_from i cs = map (\<lambda>(j, c). otp_frame (if j + 1 = i + length cs then FLAG_LAST else FLAG_MORE) (word_of_nat (j mod 16)) c)
     (enumerate i cs)"
proof (induction cs arbitrary: i)
  case (Cons c cs)
  show ?case using Cons.IH [of "i + 1"] by (auto simp: neq_Nil_conv)
qed simp

lemma build_send_frames_alt:
  "build_send_frames apdu = frames_from 0 (if apdu = [] then [[]] else chunks 61 apdu)"
  by (simp add: build_send_frames_def frames_from_enumerate Let_def length_chunks frame_defs)

lemma flags_seq:
  assumes "unat (s :: byte) < 16"
  shows "(FLAG_MORE OR s) AND 0xF0 = FLAG_MORE" "(FLAG_LAST OR s) AND 0xF0 = FLAG_LAST"
    "(FLAG_MORE OR s) AND 0x0F = s" "(FLAG_LAST OR s) AND 0x0F = s"
proof -
  have "list_all (\<lambda>n. (FLAG_MORE OR word_of_nat n) AND 0xF0 = FLAG_MORE \<and> (FLAG_LAST OR word_of_nat n) AND 0xF0 = FLAG_LAST
      \<and> (FLAG_MORE OR word_of_nat n) AND 0x0F = (word_of_nat n :: byte) \<and> (FLAG_LAST OR word_of_nat n) AND 0x0F = (word_of_nat n :: byte))
      [0..<16]"
    by (simp add: upt_conv_Cons, simp add: frame_defs)
  then have "\<forall>n < 16. (FLAG_MORE OR word_of_nat n) AND 0xF0 = FLAG_MORE \<and> (FLAG_LAST OR word_of_nat n) AND 0xF0 = FLAG_LAST
      \<and> (FLAG_MORE OR word_of_nat n) AND 0x0F = (word_of_nat n :: byte) \<and> (FLAG_LAST OR word_of_nat n) AND 0x0F = (word_of_nat n :: byte)"
    by (simp only: list_all_iff set_upt atLeastLessThan_iff) simp
  from this [rule_format, OF assms] show "(FLAG_MORE OR s) AND 0xF0 = FLAG_MORE" "(FLAG_LAST OR s) AND 0xF0 = FLAG_LAST"
    "(FLAG_MORE OR s) AND 0x0F = s" "(FLAG_LAST OR s) AND 0x0F = s" by simp_all
qed

lemma strip_frame: "strip_report_id (otp_frame f s c) = tl (otp_frame f s c)"
  "strip_report_id (tl (otp_frame f s c)) = tl (otp_frame f s c)"
  by (simp_all add: strip_report_id_def otp_frame_def frame_defs)

text \<open>A data frame in sequence is appended.\<close>

lemma push_frame:
  assumes "raw = otp_frame f (word_of_nat (i mod 16)) c \<or> raw = tl (otp_frame f (word_of_nat (i mod 16)) c)"
    and "f = FLAG_MORE \<or> f = FLAG_LAST" "length c \<le> 61" "ra_received st = word_of_nat i"
    and "length (ra_buf st) + length c \<le> 65536"
  shows "push st raw = (st\<lparr>ra_busy_retries := 0, ra_received := word_of_nat (i + 1), ra_buf := ra_buf st @ c,
       ra_done := (ra_done st \<or> f = FLAG_LAST)\<rparr>, Ok (if f = FLAG_LAST then Done else NeedMore))"
proof -
  let ?s = "word_of_nat (i mod 16) :: byte"
  let ?p = "tl (otp_frame f ?s c)"
  have strip: "strip_report_id raw = ?p" using assms(1) strip_frame by auto
  have s: "unat ?s < 16" by (simp add: unat_of_nat)
  have "unat (word_of_nat i mod 16 :: byte) = i mod 256 mod 16" by (simp add: unat_mod)
  then have "?s = word_of_nat i mod 16" by (simp add: word_unat_eq_iff mod_mod_cancel)
  then have seq: "?s = ra_received st mod 16" unfolding assms(4) .
  have p: "\<not> length ?p < 3" "?p ! 0 = MAGIC" "?p ! 1 = f OR ?s" "unat (?p ! 2) = length c" "take (length c) (drop 3 ?p) = c"
    "\<not> length ?p < 3 + length c" "length ?p = 64"
    using assms(3) by (simp_all add: otp_frame_def REPORT_PAYLOAD_def)
  have fl: "(f OR ?s) AND 0xF0 = f" "(f OR ?s) AND 0x0F = ?s" using assms(2) flags_seq [OF s] by auto
  have nb: "f \<noteq> FLAG_BUSY" using assms(2) by (auto simp: frame_defs)
  show ?thesis
    unfolding push_def strip Let_def p(3) fl
    using p assms nb seq by (auto simp: PAYLOAD_HEADER_def MAX_CHUNK_def REPORT_PAYLOAD_def MAX_RESPONSE_def FLAG_MORE_def FLAG_LAST_def)
qed


lemma push_busy:
  assumes "strip_report_id raw = MAGIC # b # rest" "b AND 0xF0 = FLAG_BUSY" "rest \<noteq> []"
  shows "push st raw = (st\<lparr>ra_busy_retries := ra_busy_retries st + 1\<rparr>, Ok (Busy (ra_busy_retries st + 1)))"
  using assms(2,3) by (cases rest) (simp_all add: push_def assms(1) PAYLOAD_HEADER_def)

subsection \<open>A whole response\<close>

text \<open>The read loop of a caller: reports are pushed until one completes the response or is refused; the
  reports left over are returned.\<close>

fun feed :: "response_assembler \<Rightarrow> bytes list \<Rightarrow> response_assembler \<times> (bytes list, frame_error) result option" where
  "feed st [] = (st, None)"
| "feed st (r # rs) =
     (case push st r of
        (st', Ok Done) \<Rightarrow> (st', Some (Ok rs))
      | (st', Ok _) \<Rightarrow> feed st' rs
      | (st', Err e) \<Rightarrow> (st', Some (Err e)))"

text \<open>Reports that carry frames: each frame with or without its report id, and busy frames before it.\<close>

inductive carries :: "bytes list \<Rightarrow> bytes list \<Rightarrow> bytes list \<Rightarrow> bool" where
  finish: "carries [] qs qs"
| busy: "carries (f # fs) rs qs \<Longrightarrow> strip_report_id r = MAGIC # b # rest \<Longrightarrow> b AND 0xF0 = FLAG_BUSY \<Longrightarrow>
    rest \<noteq> [] \<Longrightarrow> carries (f # fs) (r # rs) qs"
| frame: "carries fs rs qs \<Longrightarrow> r = f \<or> r = tl f \<Longrightarrow> carries (f # fs) (r # rs) qs"

inductive_cases carries_NilE: "carries [] rs qs"

lemma feed_first:
  "carries (f # fs) rs qs \<Longrightarrow>
   \<exists>n r rs'. (r = f \<or> r = tl f) \<and> carries fs rs' qs \<and> feed st rs = feed (st\<lparr>ra_busy_retries := n\<rparr>) (r # rs')"
proof (induction "f # fs" rs qs arbitrary: st rule: carries.induct)
  case (busy rs qs r b rest)
  let ?st = "st\<lparr>ra_busy_retries := ra_busy_retries st + 1\<rparr>"
  have step: "feed st (r # rs) = feed ?st rs"
    by (simp only: feed.simps push_busy [OF busy.hyps(3-5)] prod.case result.case step.case)
  from busy.hyps(2) [of ?st] obtain n r' rs' where
    "r' = f \<or> r' = tl f" "carries fs rs' qs" "feed ?st rs = feed (?st\<lparr>ra_busy_retries := n\<rparr>) (r' # rs')" by blast
  then show ?case unfolding step by (intro exI [of _ n] exI [of _ r'] exI [of _ rs']) simp
next
  case (frame rs qs r)
  then show ?case
    by (intro exI [of _ "ra_busy_retries st"] exI [of _ r] exI [of _ rs] conjI) (simp_all del: feed.simps)
qed

lemma feed_frames:
  "carries (frames_from i cs) rs qs \<Longrightarrow> cs \<noteq> [] \<Longrightarrow> list_all (\<lambda>c. length c \<le> 61) cs \<Longrightarrow>
   ra_received st = word_of_nat i \<Longrightarrow> length (ra_buf st) + length (concat cs) \<le> 65536 \<Longrightarrow>
   \<exists>st'. feed st rs = (st', Some (Ok qs)) \<and> ra_buf st' = ra_buf st @ concat cs \<and> ra_done st'"
proof (induction cs arbitrary: i st rs)
  case (Cons c cs)
  let ?f = "if cs = [] then FLAG_LAST else FLAG_MORE"
  have "carries (otp_frame ?f (word_of_nat (i mod 16)) c # frames_from (i + 1) cs) rs qs"
    using Cons.prems(1) by (simp only: frames_from.simps)
  from feed_first [OF this, of st] obtain n r rs' where
    r: "r = otp_frame ?f (word_of_nat (i mod 16)) c \<or> r = tl (otp_frame ?f (word_of_nat (i mod 16)) c)"
    "carries (frames_from (i + 1) cs) rs' qs" "feed st rs = feed (st\<lparr>ra_busy_retries := n\<rparr>) (r # rs')"
    by (elim exE conjE) (rule that)
  have flag: "?f = FLAG_MORE \<or> ?f = FLAG_LAST" by simp
  have c: "length c \<le> 61" "length (ra_buf (st\<lparr>ra_busy_retries := n\<rparr>)) + length c \<le> 65536"
    "ra_received (st\<lparr>ra_busy_retries := n\<rparr>) = word_of_nat i" using Cons.prems by simp_all
  note push = push_frame [OF r(1) flag c(1,3,2)]
  show ?case
  proof (cases "cs = []")
    case True
    with r(2) have "rs' = qs" by (auto elim: carries_NilE)
    with True push show ?thesis unfolding r(3) by simp
  next
    case False
    have "FLAG_MORE \<noteq> FLAG_LAST" by (simp add: frame_defs)
    with push False have "feed st rs = feed (st\<lparr>ra_busy_retries := 0, ra_received := word_of_nat (i + 1), ra_buf := ra_buf st @ c,
       ra_done := ra_done st\<rparr>) rs'" unfolding r(3) by simp
    with Cons.IH [OF r(2) False, of "st\<lparr>ra_busy_retries := 0, ra_received := word_of_nat (i + 1), ra_buf := ra_buf st @ c,
       ra_done := ra_done st\<rparr>"] Cons.prems show ?thesis by simp
  qed
qed simp

lemma push_bounded: "length (ra_buf st) \<le> 65536 \<Longrightarrow> length (ra_buf (fst (push st raw))) \<le> 65536"
  by (simp add: push_def Let_def MAX_RESPONSE_def)

lemma feed_bounded: "length (ra_buf st) \<le> 65536 \<Longrightarrow> length (ra_buf (fst (feed st rs))) \<le> 65536"
proof (induction rs arbitrary: st)
  case (Cons r rs)
  have "length (ra_buf (fst (push st r))) \<le> 65536" by (rule push_bounded [OF Cons.prems])
  then show ?case using Cons.IH by (cases "push st r") (auto split: result.splits step.splits)
qed simp

subsection \<open>Properties\<close>

text \<open>C39: the frames that \<^verbatim>\<open>build_send_frames\<close> makes of a message of at most 64 KiB are assembled
  into that message, whether or not the platform keeps the report id and however many busy frames come in between;
  the sequence number of 4 bits survives the wrap of the 8-bit counter.  A response from any device stays
  within 64 KiB.\<close>

theorem otp_frames_roundtrip:
  assumes "carries (build_send_frames apdu) rs qs" "length apdu \<le> MAX_RESPONSE"
  shows "(\<exists>st. feed new_assembler rs = (st, Some (Ok qs)) \<and> ra_buf st = apdu \<and> ra_done st)
    \<and> length (ra_buf (fst (feed new_assembler any))) \<le> MAX_RESPONSE"
proof -
  let ?cs = "if apdu = [] then [[]] else chunks 61 apdu"
  have "list_all (\<lambda>c. length c \<le> 61) ?cs" by (auto simp: list_all_iff dest: chunk_le)
  moreover have "?cs \<noteq> []" by (simp add: chunks_step)
  moreover have "concat ?cs = apdu" by simp
  ultimately have "\<exists>st'. feed new_assembler rs = (st', Some (Ok qs)) \<and> ra_buf st' = ra_buf new_assembler @ apdu \<and> ra_done st'"
    using feed_frames [of 0 ?cs rs qs new_assembler] assms by (simp add: build_send_frames_alt new_assembler_def MAX_RESPONSE_def)
  then show ?thesis using feed_bounded [of new_assembler any] by (simp add: new_assembler_def MAX_RESPONSE_def)
qed

theorem otp_frames_roundtrip_witness:
  "\<exists>st. feed new_assembler ([0x21, 0xC0, 0] # tl (otp_frame FLAG_LAST 0 [7, 8]) # [[5]]) = (st, Some (Ok [[5]])) \<and> ra_buf st = [7, 8]"
proof -
  have "build_send_frames [7, 8] = [otp_frame FLAG_LAST 0 [7, 8]]"
    by (simp add: build_send_frames_alt chunks_step)
  then have "carries (build_send_frames [7, 8]) (tl (otp_frame FLAG_LAST 0 [7, 8]) # [[5]]) [[5]]"
    using carries.frame [OF carries.finish] by simp
  then have "carries (build_send_frames [7, 8]) ([0x21, 0xC0, 0] # tl (otp_frame FLAG_LAST 0 [7, 8]) # [[5]]) [[5]]"
    unfolding \<open>build_send_frames [7, 8] = _\<close>
    by (rule carries.busy [where b = "0xC0" and rest = "[0]"]) (simp_all add: strip_report_id_def frame_defs)
  from otp_frames_roundtrip [OF this, of "[]"] show ?thesis by (auto simp: MAX_RESPONSE_def)
qed

end
