(* ===== verification/Otp_Entry.thy ===== *)
theory Otp_Entry
  imports Rust_Str
begin

text \<open>
  \<^verbatim>\<open>crates/keyroost-token2otp/src/entry.rs\<close> and \<^verbatim>\<open>lib.rs\<close>: the entries of the
  Token2 OTP applet, the bodies that write, read and delete them, the parser of a
  \<^verbatim>\<open>READ_ALL\<close> page, the commands and the status words.  A \<^verbatim>\<open>Cursor\<close> is the part of
  its buffer that has not been read.
\<close>

datatype otp_type = Hotp | Totp

fun otp_type_byte :: "otp_type \<Rightarrow> byte" where
  "otp_type_byte Hotp = 0x00"
| "otp_type_byte Totp = 0x01"

definition otp_type_from_byte :: "byte \<Rightarrow> otp_type option" where
  "otp_type_from_byte b = (if b = 0x00 then Some Hotp else if b = 0x01 then Some Totp else None)"

datatype otp_algorithm = OtpSha1 | OtpSha256

fun otp_algorithm_byte :: "otp_algorithm \<Rightarrow> byte" where
  "otp_algorithm_byte OtpSha1 = 0xC1"
| "otp_algorithm_byte OtpSha256 = 0xC2"

definition otp_algorithm_from_byte :: "byte \<Rightarrow> otp_algorithm option" where
  "otp_algorithm_from_byte b = (if b = 0xC1 then Some OtpSha1 else if b = 0xC2 then Some OtpSha256 else None)"

record otp_entry =
  oe_type :: otp_type
  oe_algorithm :: otp_algorithm
  oe_timestep :: u16
  oe_code_length :: byte
  oe_button_required :: bool
  oe_app_name :: bytes
  oe_account_name :: bytes
  oe_code :: "bytes option"

record write_entry =
  we_type :: otp_type
  we_algorithm :: otp_algorithm
  we_timestep :: u16
  we_code_length :: byte
  we_button_required :: bool
  we_app_name :: bytes
  we_account_name :: bytes
  we_seed :: bytes

datatype otp_parse_error = OtpTruncated | OtpMalformed string | OtpInvalid string

record enum_page =
  ep_entries :: "otp_entry list"
  ep_more_pages :: bool

definition SUB_READ_ONE :: byte where "SUB_READ_ONE = 0x01"
definition SUB_READ_ALL :: byte where "SUB_READ_ALL = 0x03"

definition str_is_ascii :: "bytes \<Rightarrow> bool" where
  "str_is_ascii s \<longleftrightarrow> list_all (\<lambda>b. b < 0x80) s"

subsection \<open>Bodies\<close>

definition check_names :: "bytes \<Rightarrow> bytes \<Rightarrow> (unit, otp_parse_error) result" where
  "check_names app_name account_name =
     (if \<not> str_is_ascii app_name \<or> 64 < length app_name
      then Err (OtpInvalid ''app_name must be ASCII, 0..=64 bytes'')
      else if \<not> str_is_ascii account_name \<or> account_name = [] \<or> 64 < length account_name
      then Err (OtpInvalid ''account_name must be ASCII, 1..=64 bytes'')
      else Ok ())"

definition validate_common :: "u16 \<Rightarrow> byte \<Rightarrow> bytes \<Rightarrow> bytes \<Rightarrow> bool \<Rightarrow> (unit, otp_parse_error) result" where
  "validate_common timestep code_length app_name account_name is_totp =
     (if is_totp \<and> timestep = 0 then Err (OtpInvalid ''timestep must be 1..=0xFFFF for TOTP'')
      else if \<not> (4 \<le> code_length \<and> code_length \<le> 10) then Err (OtpInvalid ''code_length must be 4..=10'')
      else check_names app_name account_name)"

definition len_byte :: "bytes \<Rightarrow> byte" where
  "len_byte s = word_of_nat (length s)"

definition bool_byte :: "bool \<Rightarrow> byte" where
  "bool_byte b = (if b then 1 else 0)"

definition serialize_write_entry :: "write_entry \<Rightarrow> (bytes, otp_parse_error) result" where
  "serialize_write_entry e =
     bind_result (validate_common (we_timestep e) (we_code_length e) (we_app_name e) (we_account_name e)
         (we_type e = Totp)) (\<lambda>_.
       if we_seed e = [] \<or> 64 < length (we_seed e) then Err (OtpInvalid ''seed must be 1..=64 bytes (decoded)'')
       else Ok ([otp_type_byte (we_type e), otp_algorithm_byte (we_algorithm e)] @ u16_to_be (we_timestep e)
         @ [we_code_length e, bool_byte (we_button_required e)]
         @ [len_byte (we_app_name e)] @ we_app_name e
         @ [len_byte (we_account_name e)] @ we_account_name e
         @ [len_byte (we_seed e)] @ we_seed e))"

definition serialize_delete_entry :: "bytes \<Rightarrow> bytes \<Rightarrow> (bytes, otp_parse_error) result" where
  "serialize_delete_entry app_name account_name =
     bind_result (check_names app_name account_name) (\<lambda>_.
       Ok ([0, 0, 0, 0, 0, 0] @ [len_byte app_name] @ app_name @ [len_byte account_name] @ account_name @ [0x00]))"

definition serialize_read_entry :: "u64 \<Rightarrow> bytes \<Rightarrow> bytes \<Rightarrow> (bytes, otp_parse_error) result" where
  "serialize_read_entry timestamp app_name account_name =
     bind_result (check_names app_name account_name) (\<lambda>_.
       Ok ([SUB_READ_ONE] @ u64_to_be timestamp @ [len_byte app_name] @ app_name
         @ [len_byte account_name] @ account_name))"

definition serialize_enum_all :: "u64 \<Rightarrow> bytes" where
  "serialize_enum_all timestamp = [SUB_READ_ALL] @ u64_to_be timestamp"

subsection \<open>The page parser\<close>

type_synonym 'a otp_read = "('a \<times> bytes, otp_parse_error) result"

definition cursor_u8 :: "bytes \<Rightarrow> byte otp_read" where
  "cursor_u8 c = (case c of [] \<Rightarrow> Err OtpTruncated | b # r \<Rightarrow> Ok (b, r))"

definition cursor_u16 :: "bytes \<Rightarrow> u16 otp_read" where
  "cursor_u16 c =
     bind_result (cursor_u8 c) (\<lambda>(hi, c). bind_result (cursor_u8 c) (\<lambda>(lo, c).
       Ok (push_bit 8 (ucast hi) OR ucast lo, c)))"

definition cursor_ascii :: "nat \<Rightarrow> bytes \<Rightarrow> bytes otp_read" where
  "cursor_ascii n c =
     (if length c < n then Err OtpTruncated
      else if \<not> str_is_ascii (take n c) then Err (OtpMalformed ''non-ASCII text field'')
      else Ok (from_utf8_lossy (take n c), drop n c))"

definition parse_one_entry :: "bool \<Rightarrow> bytes \<Rightarrow> otp_entry otp_read" where
  "parse_one_entry force_code c =
     bind_result (cursor_u8 c) (\<lambda>(type_byte, c).
     bind_result (ok_or (OtpMalformed ''unknown OTP type byte'') (otp_type_from_byte type_byte)) (\<lambda>ty.
     bind_result (cursor_u8 c) (\<lambda>(algorithm_byte, c).
     bind_result (ok_or (OtpMalformed ''unknown algorithm byte'') (otp_algorithm_from_byte algorithm_byte)) (\<lambda>algorithm.
     bind_result (cursor_u16 c) (\<lambda>(timestep, c).
     bind_result (cursor_u8 c) (\<lambda>(code_length, c).
     bind_result (cursor_u8 c) (\<lambda>(button, c).
     bind_result (if button = 0 then Ok False else if button = 1 then Ok True
                  else Err (OtpMalformed ''button flag not 0/1'')) (\<lambda>button_required.
     bind_result (cursor_u8 c) (\<lambda>(app_len, c).
     bind_result (cursor_ascii (unat app_len) c) (\<lambda>(app_name, c).
     bind_result (cursor_u8 c) (\<lambda>(account_len, c).
       if account_len = 0 then Err (OtpMalformed ''account_name length is zero'')
       else
     bind_result (cursor_ascii (unat account_len) c) (\<lambda>(account_name, c).
     bind_result (if force_code \<or> ty = Totp \<and> \<not> button_required
        then bind_result (cursor_u8 c) (\<lambda>(code_len, c).
          bind_result (cursor_ascii (unat code_len) c) (\<lambda>(code, c). Ok (Some code, c)))
        else Ok (None, c)) (\<lambda>(code, c).
       Ok (\<lparr>oe_type = ty, oe_algorithm = algorithm, oe_timestep = timestep, oe_code_length = code_length,
            oe_button_required = button_required, oe_app_name = app_name, oe_account_name = account_name,
            oe_code = code\<rparr>, c))))))))))))))"

lemma cursor_u8_iff [simp]: "cursor_u8 c = Ok (b, r) \<longleftrightarrow> c = b # r"
  by (cases c) (auto simp: cursor_u8_def)

lemma unat_from_be_two: "unat (u16_from_be [a, b]) = unat a * 256 + unat b"
proof -
  have "from_be [a, b] < 2 ^ 16" using from_be_less [of "[a, b]"] by (simp only: length_Cons list.size) simp
  then have "unat (u16_from_be [a, b]) = from_be [a, b]"
    by (simp only: u16_from_be_def unsigned_of_nat) (simp add: take_bit_nat_eq_self)
  then show ?thesis by simp
qed

lemma cursor_u16_iff [simp]: "cursor_u16 c = Ok (w, r) \<longleftrightarrow> c = u16_to_be w @ r"
proof -
  have j: "push_bit 8 (ucast hi) OR ucast lo = (w :: u16) \<longleftrightarrow> u16_to_be w = [hi, lo]" for hi lo :: byte
  proof -
    have "unat (push_bit 8 (ucast hi) OR ucast lo :: u16) = unat hi * 256 + unat lo"
    proof -
      have "unat (push_bit 8 (ucast hi) OR ucast lo :: u16)
          = take_bit 16 (push_bit 8 (unat hi)) OR unat lo"
        using less_trans [OF unat_byte_less, of "2 ^ 16" lo]
        by (simp add: unsigned_or_eq unsigned_push_bit_eq)
      also have "take_bit 16 (push_bit 8 (unat hi)) = push_bit 8 (unat hi)"
        using unat_byte_less [of hi] by (simp add: take_bit_nat_eq_self push_bit_nat_def)
      finally show ?thesis using push_or_add [of "unat lo" 8 "unat hi"] by simp
    qed
    then have "push_bit 8 (ucast hi) OR ucast lo = u16_from_be [hi, lo]"
      using unat_from_be_two [of hi lo] by (simp only: word_unat_eq_iff)
    moreover have "u16_from_be [hi, lo] = w \<longleftrightarrow> u16_to_be w = [hi, lo]"
    proof
      assume "u16_to_be w = [hi, lo]"
      then show "u16_from_be [hi, lo] = w" using u16_from_to_be [of w] by simp
    next
      assume "u16_from_be [hi, lo] = w"
      then have "unat w = from_be [hi, lo]" using unat_from_be_two [of hi lo] by simp
      moreover have "be_bytes 2 (from_be [hi, lo]) = [hi, lo]"
        using be_bytes_from_be [of "[hi, lo]"] by (metis length_Cons list.size(3) numeral_2_eq_2)
      ultimately show "u16_to_be w = [hi, lo]" by (simp only: u16_to_be_def)
    qed
    ultimately show ?thesis by simp
  qed
  have "cursor_u16 c = Ok (w, r) \<longleftrightarrow> (\<exists>hi lo. c = hi # lo # r \<and> push_bit 8 (ucast hi) OR ucast lo = w)"
    by (auto simp: cursor_u16_def)
  also have "\<dots> \<longleftrightarrow> c = u16_to_be w @ r"
  proof -
    obtain a b where "u16_to_be w = [a, b]" using list_split2 [of "u16_to_be w"] by auto
    then show ?thesis by (auto simp: j)
  qed
  finally show ?thesis .
qed

lemma ascii_valid: "str_is_ascii s \<Longrightarrow> utf8_valid s"
  by (simp add: str_is_ascii_def utf8_valid_ascii)

lemma cursor_ascii_iff [simp]: "cursor_ascii n c = Ok (s, r) \<longleftrightarrow> c = s @ r \<and> length s = n \<and> str_is_ascii s"
  by (auto simp: cursor_ascii_def from_utf8_lossy_id ascii_valid)

text \<open>A text of an entry, behind its length.\<close>

definition otp_text :: "bytes \<Rightarrow> bool" where
  "otp_text s \<longleftrightarrow> length s < 256 \<and> str_is_ascii s"

lemma text_length: "length s = unat (n :: byte) \<longleftrightarrow> length s < 256 \<and> n = len_byte s"
  using unat_byte_less [of n] by (auto simp: len_byte_def word_unat_eq_iff)

lemma len_byte_Nil [simp]: "len_byte [] = 0"
  by (simp add: len_byte_def)

text \<open>What the applet emits for an entry; the code is there only where the rule of the protocol
  has it.\<close>

definition entry_bytes :: "otp_entry \<Rightarrow> bytes" where
  "entry_bytes e =
     [otp_type_byte (oe_type e), otp_algorithm_byte (oe_algorithm e)] @ u16_to_be (oe_timestep e)
     @ [oe_code_length e, bool_byte (oe_button_required e), len_byte (oe_app_name e)] @ oe_app_name e
     @ [len_byte (oe_account_name e)] @ oe_account_name e
     @ (case oe_code e of Some code \<Rightarrow> len_byte code # code | None \<Rightarrow> [])"

definition entry_emitted :: "bool \<Rightarrow> otp_entry \<Rightarrow> bool" where
  "entry_emitted force_code e \<longleftrightarrow> otp_text (oe_app_name e) \<and> otp_text (oe_account_name e) \<and> oe_account_name e \<noteq> []
     \<and> (case oe_code e of
          Some code \<Rightarrow> otp_text code \<and> (force_code \<or> oe_type e = Totp \<and> \<not> oe_button_required e)
        | None \<Rightarrow> \<not> (force_code \<or> oe_type e = Totp \<and> \<not> oe_button_required e))"

lemma type_from_byte_iff [simp]: "otp_type_from_byte b = Some t \<longleftrightarrow> b = otp_type_byte t"
  by (cases t) (auto simp: otp_type_from_byte_def)

lemma algorithm_from_byte_iff [simp]: "otp_algorithm_from_byte b = Some a \<longleftrightarrow> b = otp_algorithm_byte a"
  by (cases a) (auto simp: otp_algorithm_from_byte_def)

lemma button_iff [simp]: "(if b = 0 then Ok False else if b = 1 then Ok True else Err e) = Ok t \<longleftrightarrow> b = bool_byte t"
  by (cases t) (auto simp: bool_byte_def)

lemma button_ok:
  "(if bool_byte t = 0 then Ok False else if bool_byte t = 1 then Ok True else Err e) = Ok t"
  "otp_type_from_byte (otp_type_byte ty) = Some ty"
  "otp_algorithm_from_byte (otp_algorithm_byte a) = Some a"
  by simp_all

lemma cursor_text_iff:
  "(\<exists>n c1. c = n # c1 \<and> (\<exists>s r. c1 = s @ r \<and> length s = unat n \<and> str_is_ascii s \<and> P n s r))
    \<longleftrightarrow> (\<exists>s r. c = len_byte s # s @ r \<and> otp_text s \<and> P (len_byte s) s r)"
  by (auto simp: text_length otp_text_def)

lemma parse_one_entry_iff: "parse_one_entry f c = Ok (e, r) \<longleftrightarrow> entry_emitted f e \<and> c = entry_bytes e @ r"
proof
  assume "parse_one_entry f c = Ok (e, r)"
  then show "entry_emitted f e \<and> c = entry_bytes e @ r"
    unfolding parse_one_entry_def
    by (auto simp: text_length entry_emitted_def entry_bytes_def otp_text_def split: if_splits)
next
  assume e: "entry_emitted f e \<and> c = entry_bytes e @ r"
  have n: "len_byte s = 0 \<longleftrightarrow> s = []" "unat (len_byte s) = length s" if "otp_text s" for s
    using that by (auto simp: len_byte_def otp_text_def word_unat_eq_iff)
  have u8: "cursor_u8 (b # x) = Ok (b, x)" for b x by simp
  have u16: "cursor_u16 (u16_to_be w @ x) = Ok (w, x)" for w x by simp
  have asc: "cursor_ascii (length s) (s @ x) = Ok (s, x)" if "otp_text s" for s x
    using that n [of s] by (simp add: otp_text_def)
  show "parse_one_entry f c = Ok (e, r)"
    using e unfolding parse_one_entry_def
    by (cases "oe_code e")
      (auto simp: entry_emitted_def entry_bytes_def u8 u16 asc n button_ok simp del: cursor_u8_iff cursor_u16_iff cursor_ascii_iff bind_result_eq_Ok)
qed

lemma bind_result_cong [fundef_cong]:
  "r = r' \<Longrightarrow> (\<And>x. r' = Ok x \<Longrightarrow> f x = f' x) \<Longrightarrow> bind_result r f = bind_result r' f'"
  by (cases r') auto

lemma entry_bytes_length: "6 \<le> length (entry_bytes e)"
  by (simp add: entry_bytes_def)

function parse_entries :: "bytes \<Rightarrow> (otp_entry list, otp_parse_error) result" where
  "parse_entries c =
     (if c = [] then Ok []
      else bind_result (parse_one_entry False c) (\<lambda>(e, c').
        bind_result (parse_entries c') (\<lambda>es. Ok (e # es))))"
  by pat_completeness auto
termination
proof (relation "measure length")
  fix c x e c'
  assume "parse_one_entry False c = Ok x" "(e, c') = x"
  then show "(c', c) \<in> measure length"
    using entry_bytes_length [of e] by (auto simp: parse_one_entry_iff [of False c e c'])
qed simp

declare parse_entries.simps [simp del]

definition parse_enum_page :: "bytes \<Rightarrow> (enum_page, otp_parse_error) result" where
  "parse_enum_page data = (case data of
     [] \<Rightarrow> Err OtpTruncated
   | b # rest \<Rightarrow>
       bind_result (parse_entries ((b AND 0x7F) # rest)) (\<lambda>entries.
         Ok \<lparr>ep_entries = entries, ep_more_pages = (b AND 0x80 \<noteq> 0)\<rparr>))"

definition parse_read_one :: "bytes \<Rightarrow> (otp_entry, otp_parse_error) result" where
  "parse_read_one data = bind_result (parse_one_entry True data) (\<lambda>(entry, _). Ok entry)"

subsection \<open>What the parsers accept\<close>

lemma parse_entries_iff:
  "parse_entries c = Ok es \<longleftrightarrow> list_all (entry_emitted False) es \<and> c = concat (map entry_bytes es)"
proof (induction es arbitrary: c)
  case Nil
  then show ?case by (subst parse_entries.simps) (auto simp: split_beta)
next
  case (Cons e es)
  have "c \<noteq> []" if "c = entry_bytes e @ r" for r
    using that entry_bytes_length [of e] by auto
  moreover have "parse_entries c = Ok (e # es) \<longleftrightarrow> c \<noteq> [] \<and>
      (\<exists>r. parse_one_entry False c = Ok (e, r) \<and> parse_entries r = Ok es)"
    by (subst parse_entries.simps) (auto simp: split_beta)
  ultimately show ?case by (auto simp: parse_one_entry_iff Cons.IH)
qed

text \<open>The page of a list of entries: their bytes, the more-pages flag on the first of them.\<close>

definition page_bytes :: "enum_page \<Rightarrow> bytes" where
  "page_bytes p = (case concat (map entry_bytes (ep_entries p)) of
     [] \<Rightarrow> []
   | b # rest \<Rightarrow> (b OR (if ep_more_pages p then 0x80 else 0)) # rest)"

lemma flag_byte:
  fixes b t :: byte
  assumes "t = 0 \<or> t = 1"
  shows "b AND 0x7F = t \<and> (b AND 0x80 \<noteq> 0) = m \<longleftrightarrow> b = t OR (if m then 0x80 else 0)"
proof -
  have split: "b = (b AND 0x7F) OR (b AND 0x80)" for b :: byte
  proof -
    have "(b AND 0x7F) OR (b AND 0x80) = b AND (0x7F OR 0x80)" by (simp only: bit.conj_disj_distrib)
    also have "0x7F OR 0x80 = (- 1 :: byte)" by simp
    finally show ?thesis by simp
  qed
  have "(0x80 :: byte) = push_bit 7 1" by simp
  then have bit7: "bit (0x80 :: byte) n \<longleftrightarrow> n = 7" for n
    by (simp only: bit_push_bit_iff bit_1_iff) auto
  have top: "b AND 0x80 = (if b AND 0x80 \<noteq> 0 then 0x80 else 0)" for b :: byte
  proof -
    have "bit (b AND 0x80) n \<longleftrightarrow> bit b 7 \<and> n = 7" for n
      by (simp only: bit_and_iff bit7) blast
    then have "\<not> bit b 7 \<Longrightarrow> b AND 0x80 = 0" and "bit b 7 \<Longrightarrow> b AND 0x80 = 0x80"
      by (simp_all only: bit_eq_iff bit7 bit_0_eq bot_apply bot_bool_def simp_thms)
    then show ?thesis by (cases "bit b 7") simp_all
  qed
  show ?thesis
  proof
    assume "b AND 0x7F = t \<and> (b AND 0x80 \<noteq> 0) = m"
    then show "b = t OR (if m then 0x80 else 0)" using split [of b] top [of b] by metis
  next
    assume "b = t OR (if m then 0x80 else 0)"
    then show "b AND 0x7F = t \<and> (b AND 0x80 \<noteq> 0) = m" using assms by auto
  qed
qed

lemma entry_bytes_Cons: "\<exists>r. entry_bytes e = otp_type_byte (oe_type e) # r"
  by (simp add: entry_bytes_def)

lemma enum_page_iff:
  "parse_enum_page data = Ok p \<longleftrightarrow>
     ep_entries p \<noteq> [] \<and> list_all (entry_emitted False) (ep_entries p) \<and> data = page_bytes p"
proof (cases data)
  case Nil
  have "page_bytes p \<noteq> []" if "ep_entries p \<noteq> []"
    using that entry_bytes_Cons [of "hd (ep_entries p)"]
    by (cases "ep_entries p") (auto simp: page_bytes_def)
  then show ?thesis using Nil by (auto simp: parse_enum_page_def)
next
  case (Cons b rest)
  obtain es m where p: "p = \<lparr>ep_entries = es, ep_more_pages = m\<rparr>" by (cases p) auto
  have "parse_enum_page data = Ok p \<longleftrightarrow>
      list_all (entry_emitted False) es \<and> (b AND 0x7F) # rest = concat (map entry_bytes es)
      \<and> (b AND 0x80 \<noteq> 0) = m"
    using Cons p by (auto simp: parse_enum_page_def parse_entries_iff)
  also have "\<dots> \<longleftrightarrow> es \<noteq> [] \<and> list_all (entry_emitted False) es \<and> data = page_bytes p"
  proof (cases es)
    case (Cons e es')
    obtain r where r: "entry_bytes e = otp_type_byte (oe_type e) # r" using entry_bytes_Cons by blast
    have t: "otp_type_byte (oe_type e) = 0 \<or> otp_type_byte (oe_type e) = 1" by (cases "oe_type e") simp_all
    show ?thesis
      using flag_byte [OF t, of b m] \<open>data = b # rest\<close> Cons p r by (auto simp: page_bytes_def)
  qed simp
  finally show ?thesis using p by simp
qed

lemma read_one_iff:
  "parse_read_one data = Ok e \<longleftrightarrow> entry_emitted True e \<and> (\<exists>r. data = entry_bytes e @ r)"
  by (auto simp: parse_read_one_def parse_one_entry_iff)

subsection \<open>What the writers send\<close>

lemma check_names_Ok:
  "check_names a b = Ok () \<longleftrightarrow>
     str_is_ascii a \<and> length a \<le> 64 \<and> str_is_ascii b \<and> b \<noteq> [] \<and> length b \<le> 64"
  by (auto simp: check_names_def)

lemma validate_common_Ok:
  "validate_common ts n a b t = Ok () \<longleftrightarrow>
     (t \<longrightarrow> ts \<noteq> 0) \<and> 4 \<le> n \<and> n \<le> 10 \<and> check_names a b = Ok ()"
  by (auto simp: validate_common_def)

text \<open>The entry a body of \<^verbatim>\<open>WRITE_SEED\<close> creates, as the key can list it with a code.\<close>

definition written :: "write_entry \<Rightarrow> bytes option \<Rightarrow> otp_entry" where
  "written e code = \<lparr>oe_type = we_type e, oe_algorithm = we_algorithm e, oe_timestep = we_timestep e,
     oe_code_length = we_code_length e, oe_button_required = we_button_required e,
     oe_app_name = we_app_name e, oe_account_name = we_account_name e, oe_code = code\<rparr>"

lemma serialize_write_layout:
  "serialize_write_entry e = Ok body \<longleftrightarrow>
     validate_common (we_timestep e) (we_code_length e) (we_app_name e) (we_account_name e) (we_type e = Totp) = Ok ()
     \<and> we_seed e \<noteq> [] \<and> length (we_seed e) \<le> 64
     \<and> body = entry_bytes (written e (Some (we_seed e)))"
  by (auto simp: serialize_write_entry_def entry_bytes_def written_def)

lemma len_byte_append_eq:
  assumes "len_byte s # s @ r = len_byte s' # s' @ r'" and "length s < 256" and "length s' < 256"
  shows "s = s' \<and> r = r'"
  using assms by (auto simp: len_byte_def word_unat_eq_iff unsigned_of_nat take_bit_eq_mod)

lemma u16_to_be_inj: "u16_to_be v = u16_to_be w \<longleftrightarrow> v = w"
  using u16_from_to_be by metis

lemma otp_type_byte_inj [simp]: "otp_type_byte t = otp_type_byte t' \<longleftrightarrow> t = t'"
  by (cases t; cases t'; simp)

lemma otp_algorithm_byte_inj [simp]: "otp_algorithm_byte a = otp_algorithm_byte a' \<longleftrightarrow> a = a'"
  by (cases a; cases a'; simp)

lemma otp_algorithm_byte_neq [simp]: "otp_algorithm_byte a \<noteq> 0"
  by (cases a; simp)

lemma bool_byte_inj [simp]: "bool_byte x = bool_byte x' \<longleftrightarrow> x = x'"
  by (simp add: bool_byte_def)

lemma entry_bytes_inj:
  assumes "entry_bytes e = entry_bytes e'" and "oe_code e = Some s" and "oe_code e' = Some s'"
    and "length (oe_app_name e) < 256" "length (oe_app_name e') < 256"
    and "length (oe_account_name e) < 256" "length (oe_account_name e') < 256"
    and "length s < 256" "length s' < 256"
  shows "e = e'"
proof -
  have fixed: "oe_type e = oe_type e'" "oe_algorithm e = oe_algorithm e'" "oe_timestep e = oe_timestep e'"
      "oe_code_length e = oe_code_length e'" "oe_button_required e = oe_button_required e'"
    and rest: "len_byte (oe_app_name e) # oe_app_name e @ len_byte (oe_account_name e) # oe_account_name e @ len_byte s # s @ []
      = len_byte (oe_app_name e') # oe_app_name e' @ len_byte (oe_account_name e') # oe_account_name e' @ len_byte s' # s' @ []"
    using assms(1-3) by (auto simp: entry_bytes_def u16_to_be_inj append_eq_append_conv)
  note a = len_byte_append_eq [OF rest assms(4,5)]
  note b = len_byte_append_eq [OF conjunct2 [OF a] assms(6,7)]
  note c = len_byte_append_eq [OF conjunct2 [OF b] assms(8,9)]
  show ?thesis using fixed a b c assms(2,3) by simp
qed

lemma serialize_write_inj:
  assumes "serialize_write_entry e = Ok body" and "serialize_write_entry e' = Ok body"
  shows "e = e'"
proof -
  have "written e (Some (we_seed e)) = written e' (Some (we_seed e'))"
    using assms by (intro entry_bytes_inj)
      (auto simp: serialize_write_layout validate_common_Ok check_names_Ok written_def)
  then show ?thesis by (simp add: written_def)
qed

lemma serialize_delete_layout:
  "serialize_delete_entry a b = Ok body \<longleftrightarrow> check_names a b = Ok () \<and>
     body = [0, 0, 0, 0, 0, 0, len_byte a] @ a @ [len_byte b] @ b @ [0]"
  by (auto simp: serialize_delete_entry_def)

lemma serialize_delete_inj:
  assumes "serialize_delete_entry a b = Ok body" and "serialize_delete_entry a' b' = Ok body"
  shows "a = a' \<and> b = b'"
proof -
  have n: "length a < 256" "length a' < 256" "length b < 256" "length b' < 256"
    using assms by (simp_all add: serialize_delete_layout check_names_Ok)
  have "len_byte a # a @ len_byte b # b @ [0] = len_byte a' # a' @ len_byte b' # b' @ [0]"
    using assms by (simp add: serialize_delete_layout)
  from len_byte_append_eq [OF this n(1,2)] len_byte_append_eq [OF _ n(3,4)] show ?thesis by blast
qed

lemma write_not_delete:
  assumes "serialize_write_entry e = Ok body" shows "serialize_delete_entry a b \<noteq> Ok body"
  using assms by (auto simp: serialize_write_layout serialize_delete_layout entry_bytes_def)

subsection \<open>Property\<close>

text \<open>C31: the parsers of the OTP applet accept exactly what the protocol describes.  A page is read iff
  it holds at least one entry, each with a code only where the rule of the protocol has one, and is
  their bytes with the more-pages flag on the first; then entries and flag come back unchanged.  The
  answer to a read of one entry always has a code, and bytes behind it are ignored.\<close>

theorem otp_pages_read:
  "(parse_enum_page data = Ok p \<longleftrightarrow>
      ep_entries p \<noteq> [] \<and> list_all (entry_emitted False) (ep_entries p) \<and> data = page_bytes p)
   \<and> (parse_read_one data = Ok e \<longleftrightarrow> entry_emitted True e \<and> (\<exists>r. data = entry_bytes e @ r))"
  using enum_page_iff read_one_iff by simp

end
