(* ===== verification/Otp_Applet.thy ===== *)
theory Otp_Applet
  imports Codec Decimal Otp_Entry
begin

text \<open>
  \<^verbatim>\<open>crates/keyroost-token2otp/src/lib.rs\<close>: the commands of the Token2 OTP applet, its status
  words, the blocks it answers with and the base32 seeds users type.  A failed assertion is \<open>None\<close>.
\<close>

subsection \<open>Commands and status words\<close>

definition OTP_APPLET_AID :: bytes where
  "OTP_APPLET_AID = [0xF0, 0x00, 0x00, 0x01, 0x4F, 0x74, 0x70, 0x01]"
definition FIDO_APPLET_AID :: bytes where
  "FIDO_APPLET_AID = [0xA0, 0x00, 0x00, 0x06, 0x47, 0x2F, 0x00, 0x01]"

definition WRITE_HOTP_SEED :: bytes where "WRITE_HOTP_SEED = [0x80, 0xC5, 0x00, 0x00]"
definition GET_ECDH_PUBKEY :: bytes where "GET_ECDH_PUBKEY = [0x80, 0xC5, 0x01, 0x00]"
definition READ_CONFIG :: bytes where "READ_CONFIG = [0x80, 0xC5, 0x02, 0x00]"
definition SET_DEVICE_TYPE :: bytes where "SET_DEVICE_TYPE = [0x80, 0xC5, 0x02, 0x01]"
definition ENABLE_TOTP :: bytes where "ENABLE_TOTP = [0x80, 0xC5, 0x02, 0x05]"
definition ENUM_CODES :: bytes where "ENUM_CODES = [0x80, 0xC5, 0x05, 0x00]"
definition ENUM_CODES_CONTINUE :: bytes where "ENUM_CODES_CONTINUE = [0x80, 0xC5, 0x05, 0x01]"
definition WRITE_SEED :: bytes where "WRITE_SEED = [0x80, 0xC5, 0x05, 0x02]"
definition READ_SERIAL_INS :: bytes where "READ_SERIAL_INS = [0x80, 0x33, 0x00, 0x00]"
definition READ_OTP_PIN_FLAG :: bytes where "READ_OTP_PIN_FLAG = [0x80, 0xC5, 0x05, 0x04]"
definition SET_OTP_PIN :: bytes where "SET_OTP_PIN = [0x80, 0xC5, 0x05, 0x05]"
definition VERIFY_OTP_PIN :: bytes where "VERIFY_OTP_PIN = [0x80, 0xC5, 0x05, 0x06]"
definition CHANGE_OTP_PIN :: bytes where "CHANGE_OTP_PIN = [0x80, 0xC5, 0x05, 0x08]"
definition READ_AGREEMENT_PUBKEY :: bytes where "READ_AGREEMENT_PUBKEY = [0x80, 0xC5, 0x05, 0x09]"

definition PIN_ALG_AES256 :: byte where "PIN_ALG_AES256 = 0x07"
definition PIN_DEFAULT_MAX_RETRY :: byte where "PIN_DEFAULT_MAX_RETRY = 0x64"

definition SW_OK :: u16 where "SW_OK = 0x9000"
definition ENTRY_NOT_FOUND :: u16 where "ENTRY_NOT_FOUND = 0x6A80"
definition ENTRY_NOT_FOUND_ALT :: u16 where "ENTRY_NOT_FOUND_ALT = 0x6A83"
definition NOT_ENOUGH_SPACE :: u16 where "NOT_ENOUGH_SPACE = 0x6A84"
definition HID_NOT_SUPPORTED :: u16 where "HID_NOT_SUPPORTED = 0x6A86"
definition BUTTON_TIMEOUT :: u16 where "BUTTON_TIMEOUT = 0x6FF9"
definition FUNCTION_NOT_SUPPORTED :: u16 where "FUNCTION_NOT_SUPPORTED = 0x6A81"
definition PIN_CONDITIONS_NOT_SATISFIED :: u16 where "PIN_CONDITIONS_NOT_SATISFIED = 0x6985"
definition PIN_INVALID :: u16 where "PIN_INVALID = 0x6982"
definition PIN_LOCKED :: u16 where "PIN_LOCKED = 0x6983"

lemmas otp_sw_defs = SW_OK_def ENTRY_NOT_FOUND_def ENTRY_NOT_FOUND_ALT_def NOT_ENOUGH_SPACE_def
  HID_NOT_SUPPORTED_def BUTTON_TIMEOUT_def FUNCTION_NOT_SUPPORTED_def PIN_CONDITIONS_NOT_SATISFIED_def
  PIN_INVALID_def PIN_LOCKED_def

definition is_applet_status :: "u16 \<Rightarrow> bool" where
  "is_applet_status sw \<longleftrightarrow> sw = SW_OK \<or> 0x6000 \<le> sw \<and> sw \<le> 0x6FFF"

datatype otp_error =
    EntryNotFound | NotEnoughSpace | ButtonPressRequired | HidNotSupported | FunctionNotSupported
  | PinConditionsNotSatisfied | PinInvalid | PinInvalidRetries byte | PinLocked | PinRejected
  | BadStatusCode u16

definition check :: "u16 \<Rightarrow> (unit, otp_error) result" where
  "check sw =
     (if sw = SW_OK then Ok ()
      else if sw = ENTRY_NOT_FOUND \<or> sw = ENTRY_NOT_FOUND_ALT then Err EntryNotFound
      else if sw = NOT_ENOUGH_SPACE then Err NotEnoughSpace
      else if sw = BUTTON_TIMEOUT then Err ButtonPressRequired
      else if sw = HID_NOT_SUPPORTED then Err HidNotSupported
      else if sw = FUNCTION_NOT_SUPPORTED then Err FunctionNotSupported
      else if sw = PIN_CONDITIONS_NOT_SATISFIED then Err PinConditionsNotSatisfied
      else if sw = PIN_INVALID then Err PinInvalid
      else if sw = PIN_LOCKED then Err PinLocked
      else Err (BadStatusCode sw))"

definition check_pin :: "u16 \<Rightarrow> (unit, otp_error) result" where
  "check_pin sw =
     (if 0x6300 \<le> sw \<and> sw \<le> 0x63FF then Err (PinInvalidRetries (ucast (sw AND 0x00FF))) else check sw)"

definition check_new_pin :: "u16 \<Rightarrow> (unit, otp_error) result" where
  "check_new_pin sw = (if sw = ENTRY_NOT_FOUND then Err PinRejected else check_pin sw)"

definition is_empty_token :: "otp_error \<Rightarrow> bool" where
  "is_empty_token e \<longleftrightarrow> e = EntryNotFound"

fun status_word :: "otp_error \<Rightarrow> u16" where
  "status_word EntryNotFound = ENTRY_NOT_FOUND"
| "status_word NotEnoughSpace = NOT_ENOUGH_SPACE"
| "status_word ButtonPressRequired = BUTTON_TIMEOUT"
| "status_word HidNotSupported = HID_NOT_SUPPORTED"
| "status_word FunctionNotSupported = FUNCTION_NOT_SUPPORTED"
| "status_word PinConditionsNotSatisfied = PIN_CONDITIONS_NOT_SATISFIED"
| "status_word PinInvalid = PIN_INVALID"
| "status_word (PinInvalidRetries n) = 0x6300 OR ucast n"
| "status_word PinLocked = PIN_LOCKED"
| "status_word PinRejected = ENTRY_NOT_FOUND"
| "status_word (BadStatusCode sw) = sw"

subsection \<open>Requests\<close>

definition build_apdu :: "bytes \<Rightarrow> bytes \<Rightarrow> bytes option" where
  "build_apdu header data =
     (if 0xFFFF < length data then None
      else Some (header @
        (if 0 < length data
         then (if length data \<le> 0xFF then [word_of_nat (length data)]
               else [0x00, word_of_nat (length data div 2 ^ 8), word_of_nat (length data mod 256)]) @ data
         else [])))"

definition build_select :: "bytes \<Rightarrow> bytes option" where
  "build_select aid =
     (if aid = [] \<or> 255 < length aid then None
      else Some ([0x00, 0xA4, 0x04, 0x00] @ [word_of_nat (length aid)] @ aid))"

definition read_otp_pin_flag :: "byte \<Rightarrow> bytes" where
  "read_otp_pin_flag len = READ_OTP_PIN_FLAG @ [len] @ replicate (unat len) 0x00"

definition lock_otp_pin :: bytes where
  "lock_otp_pin = VERIFY_OTP_PIN @ [0x01, 0x00]"

definition verify_fingerprint :: bytes where
  "verify_fingerprint = VERIFY_OTP_PIN @ [0x01, 0x01]"

definition fingerprint_poll :: bytes where
  "fingerprint_poll = [0x80, 0x11, 0x00, 0x00, 0x00]"

definition read_agreement_pubkey :: "bytes \<Rightarrow> bytes option" where
  "read_agreement_pubkey host_pub_xy = build_apdu READ_AGREEMENT_PUBKEY host_pub_xy"

definition enable_totp :: "bool \<Rightarrow> bytes option" where
  "enable_totp enabled = build_apdu ENABLE_TOTP [bool_byte enabled]"

definition get_ecdh_pubkey :: bytes where
  "get_ecdh_pubkey = GET_ECDH_PUBKEY @ [0x00]"

definition clamp_1_64 :: "byte \<Rightarrow> byte" where
  "clamp_1_64 n = (if n < 1 then 1 else if 64 < n then 64 else n)"

definition read_config :: "byte \<Rightarrow> bytes" where
  "read_config num_bytes = READ_CONFIG @ [clamp_1_64 num_bytes]"

definition erase_all :: "bytes option" where
  "erase_all = build_apdu WRITE_SEED []"

definition erase_all_usb :: bytes where
  "erase_all_usb = WRITE_SEED @ [0x00, 0x00, 0x00]"

definition read_config_usb :: "byte \<Rightarrow> bytes" where
  "read_config_usb num_bytes = READ_CONFIG @ [0x00, 0x00, 0x01, clamp_1_64 num_bytes]"

definition read_config_usb_padded :: "byte \<Rightarrow> bytes" where
  "read_config_usb_padded num_bytes =
     (let n = clamp_1_64 num_bytes in READ_CONFIG @ [n] @ replicate (unat n) 0)"

definition read_serial_request :: "bytes option" where
  "read_serial_request = build_apdu READ_SERIAL_INS ([0xD1, 0x10] @ replicate 16 0)"

definition DEV_FIDO :: byte where "DEV_FIDO = 0x01"
definition DEV_KEYBOARD :: byte where "DEV_KEYBOARD = 0x02"
definition DEV_CCID :: byte where "DEV_CCID = 0x04"
definition DEV_ALL :: byte where "DEV_ALL = (DEV_FIDO OR DEV_KEYBOARD) OR DEV_CCID"

datatype set_device_type_error = WouldBrick

definition set_device_type :: "byte \<Rightarrow> (bytes, set_device_type_error) result option" where
  "set_device_type disable_mask =
     (if disable_mask AND DEV_ALL = DEV_ALL then Some (Err WouldBrick)
      else map_option Ok (build_apdu SET_DEVICE_TYPE [disable_mask]))"

subsection \<open>Answers\<close>

record pin_flag =
  pf_alg_id :: byte
  pf_retries_left :: byte
  pf_pin_len :: byte
  pf_max_retries :: byte
  pf_fp_enable :: bool
  pf_challenge :: "(bytes \<times> bytes) option"

definition is_set :: "pin_flag \<Rightarrow> bool" where
  "is_set f \<longleftrightarrow> pf_pin_len f \<noteq> 0"

definition parse_pin_flag :: "bytes \<Rightarrow> (pin_flag, otp_parse_error) result" where
  "parse_pin_flag data =
     (if length data < 4 then Err OtpTruncated
      else Ok \<lparr>pf_alg_id = data ! 0, pf_retries_left = data ! 1, pf_pin_len = data ! 2,
        pf_max_retries = data ! 3,
        pf_fp_enable = (4 < length data \<and> data ! 4 \<noteq> 0),
        pf_challenge =
          (if 41 \<le> length data then Some (take (25 - 9) (drop 9 data), take (41 - 25) (drop 25 data))
           else None)\<rparr>)"

definition otp_hex_nibble :: "byte \<Rightarrow> byte option" where
  "otp_hex_nibble c =
     (if 0x30 \<le> c \<and> c \<le> 0x39 then Some (c - 0x30)
      else if 0x61 \<le> c \<and> c \<le> 0x66 then Some (c - 0x61 + 10)
      else if 0x41 \<le> c \<and> c \<le> 0x46 then Some (c - 0x41 + 10)
      else None)"

fun ascii_hex_pairs :: "bytes \<Rightarrow> (bytes, otp_parse_error) result" where
  "ascii_hex_pairs (a # b # r) =
     bind_result (ok_or (OtpMalformed ''non-hex char in serial'') (otp_hex_nibble a)) (\<lambda>hi.
     bind_result (ok_or (OtpMalformed ''non-hex char in serial'') (otp_hex_nibble b)) (\<lambda>lo.
     bind_result (ascii_hex_pairs r) (\<lambda>out. Ok ((push_bit 4 hi OR lo) # out))))"
| "ascii_hex_pairs _ = Ok []"

definition decode_ascii_hex :: "bytes \<Rightarrow> (bytes, otp_parse_error) result" where
  "decode_ascii_hex hex =
     (if length hex mod 2 \<noteq> 0 then Err (OtpMalformed ''serial hex length is odd'') else ascii_hex_pairs hex)"

text \<open>The \<open>len\<close> bytes behind \<^verbatim>\<open>D1 len\<close>.\<close>

definition serial_field :: "bytes \<Rightarrow> (bytes, otp_parse_error) result" where
  "serial_field data =
     (if length data < 2 \<or> data ! 0 \<noteq> 0xD1 then Err OtpTruncated
      else let sn_len = unat (data ! 1) in
        if length data < 2 + sn_len then Err OtpTruncated else Ok (take sn_len (drop 2 data)))"

definition parse_serial :: "bytes \<Rightarrow> (bytes, otp_parse_error) result" where
  "parse_serial data = bind_result (serial_field data) decode_ascii_hex"

text \<open>\<^verbatim>\<open>str::parse::<u128>\<close>\<close>

definition parse_u128 :: "bytes \<Rightarrow> 128 word option" where
  "parse_u128 s =
     (let d = (case s of b # r \<Rightarrow> (if b = 0x2b \<and> r \<noteq> [] then r else s) | [] \<Rightarrow> [])
      in if d = [] \<or> \<not> list_all is_ascii_digit d \<or> 2 ^ 128 \<le> dec_value 0 d then None
         else Some (word_of_nat (dec_value 0 d)))"

definition parse_otp_serial :: "bytes \<Rightarrow> (128 word, otp_parse_error) result" where
  "parse_otp_serial data =
     bind_result (serial_field data) (\<lambda>asc.
     bind_result (ok_or (OtpMalformed ''serial is not ASCII'') (from_utf8 asc)) (\<lambda>s.
       ok_or (OtpMalformed ''serial is not a decimal number'') (parse_u128 s)))"

record device_info =
  di_transfer_type :: byte
  di_device_config :: byte
  di_appearance :: bytes
  di_fido_version :: bytes
  di_device_extension :: byte
  di_raw_tail :: bytes
  di_raw_len :: nat

definition parse_device_info :: "bytes \<Rightarrow> (device_info, otp_parse_error) result" where
  "parse_device_info data =
     (if data = [] then Err OtpTruncated
      else let get = (\<lambda>i. if i < length data then data ! i else 0) in
        Ok \<lparr>di_transfer_type = data ! 0, di_device_config = get 1,
            di_appearance = [get 2, get 3, get 4, get 5], di_fido_version = [get 6, get 7, get 8],
            di_device_extension = get 9, di_raw_tail = drop 10 data, di_raw_len = length data\<rparr>)"

definition has_config_byte :: "device_info \<Rightarrow> bool" where "has_config_byte i \<longleftrightarrow> 2 \<le> di_raw_len i"
definition fido_disabled :: "device_info \<Rightarrow> bool" where "fido_disabled i \<longleftrightarrow> di_transfer_type i AND 0x01 \<noteq> 0"
definition hotp_keystroke_disabled :: "device_info \<Rightarrow> bool" where
  "hotp_keystroke_disabled i \<longleftrightarrow> di_transfer_type i AND 0x02 \<noteq> 0"
definition ccid_disabled :: "device_info \<Rightarrow> bool" where "ccid_disabled i \<longleftrightarrow> di_transfer_type i AND 0x04 \<noteq> 0"
definition hotp_suppresses_enter :: "device_info \<Rightarrow> bool" where
  "hotp_suppresses_enter i \<longleftrightarrow> di_device_config i AND 0x01 \<noteq> 0"
definition fido_pin_set :: "device_info \<Rightarrow> bool" where "fido_pin_set i \<longleftrightarrow> di_device_config i AND 0x02 \<noteq> 0"
definition hotp_supported :: "device_info \<Rightarrow> bool" where "hotp_supported i \<longleftrightarrow> di_device_config i AND 0x04 \<noteq> 0"
definition fingerprint_present :: "device_info \<Rightarrow> bool" where
  "fingerprint_present i \<longleftrightarrow> di_device_config i AND 0x08 \<noteq> 0"
definition nfc_supported :: "device_info \<Rightarrow> bool" where "nfc_supported i \<longleftrightarrow> di_device_config i AND 0x10 \<noteq> 0"
definition hotp_long_press :: "device_info \<Rightarrow> bool" where
  "hotp_long_press i \<longleftrightarrow> di_device_config i AND 0x20 \<noteq> 0"
definition pin_locked :: "device_info \<Rightarrow> bool" where "pin_locked i \<longleftrightarrow> di_device_config i AND 0x40 \<noteq> 0"
definition button_hotp_configured :: "device_info \<Rightarrow> bool" where
  "button_hotp_configured i \<longleftrightarrow> di_device_config i AND 0x80 \<noteq> 0"
definition totp_supported :: "device_info \<Rightarrow> bool" where
  "totp_supported i \<longleftrightarrow> di_device_extension i AND 0x01 \<noteq> 0"
definition fido_21_supported :: "device_info \<Rightarrow> bool" where
  "fido_21_supported i \<longleftrightarrow> di_device_extension i AND 0x02 \<noteq> 0"
definition hotp_uses_numpad :: "device_info \<Rightarrow> bool" where
  "hotp_uses_numpad i \<longleftrightarrow> di_device_extension i AND 0x08 \<noteq> 0"
definition ccid_supported :: "device_info \<Rightarrow> bool" where
  "ccid_supported i \<longleftrightarrow> di_device_extension i AND 0x10 \<noteq> 0"
definition button_hotp_supported :: "device_info \<Rightarrow> bool" where
  "button_hotp_supported i \<longleftrightarrow> di_device_extension i AND 0x20 = 0"

subsection \<open>Seeds\<close>

definition validate_seed_len :: "nat \<Rightarrow> (unit, string) result" where
  "validate_seed_len decoded_len =
     (if 1 \<le> decoded_len \<and> decoded_len \<le> 64 then Ok ()
      else if decoded_len = 0 then Err ''seed is empty after Base32 decode''
      else Err ''seed exceeds 64 bytes after Base32 decode'')"

definition SEED_ALPHABET :: bytes where "SEED_ALPHABET = ascii ''ABCDEFGHIJKLMNOPQRSTUVWXYZ234567''"

text \<open>\<^verbatim>\<open>Iterator::position\<close>\<close>

definition seed_digit :: "byte \<Rightarrow> nat option" where
  "seed_digit ch =
     (if ch \<in> set SEED_ALPHABET then Some (length (takeWhile (\<lambda>a. a \<noteq> ch) SEED_ALPHABET)) else None)"

fun seed_base32_loop :: "u64 \<Rightarrow> nat \<Rightarrow> bytes \<Rightarrow> bytes \<Rightarrow> (bytes, string) result" where
  "seed_base32_loop buffer bits out [] = Ok out"
| "seed_base32_loop buffer bits out (ch # s) =
     (case seed_digit ch of
        None \<Rightarrow> Err ''invalid Base32 character in seed''
      | Some val \<Rightarrow>
          (let buffer = push_bit 5 buffer OR word_of_nat val; bits = bits + 5 in
           if 8 \<le> bits
           then seed_base32_loop buffer (bits - 8) (out @ [ucast (drop_bit (bits - 8) buffer)]) s
           else seed_base32_loop buffer bits out s))"

definition seed_base32_decode :: "bytes \<Rightarrow> (bytes, string) result" where
  "seed_base32_decode s = seed_base32_loop 0 0 [] s"

definition drop_whitespace :: "bytes \<Rightarrow> bytes" where
  "drop_whitespace s =
     concat (map fst (filter (\<lambda>(_, c). case c of Some x \<Rightarrow> \<not> is_whitespace x | None \<Rightarrow> True) (utf8_split s)))"

definition decode_base32_seed :: "bytes \<Rightarrow> (bytes, string) result" where
  "decode_base32_seed s =
     (let cleaned = drop_whitespace s;
          upper = to_ascii_uppercase (rev (dropWhile (\<lambda>b. b = 0x3d) (rev cleaned)))
      in bind_result (seed_base32_decode upper) (\<lambda>decoded.
         bind_result (validate_seed_len (length decoded)) (\<lambda>_. Ok decoded)))"

subsection \<open>Status words\<close>

lemma retries_word:
  assumes "0x6300 \<le> sw" "sw \<le> (0x63FF :: u16)"
  shows "0x6300 OR ucast (ucast (sw AND 0x00FF) :: byte) = sw"
proof -
  have "unat (drop_bit 8 sw) = 0x63"
    using assms by (simp add: unat_drop_bit_eq drop_bit_eq_div word_le_nat_alt unat_div)
  then have "drop_bit 8 sw = 0x63" by (simp add: word_unat_eq_iff)
  then have hi: "push_bit 8 (drop_bit 8 sw) = 0x6300" by simp
  have "sw AND 0x00FF = take_bit 8 sw" by (simp add: take_bit_eq_mask mask_eq_exp_minus_1)
  then have lo: "ucast (ucast (sw AND 0x00FF) :: byte) = take_bit 8 sw"
    by (simp only:) (rule bit_word_eqI, auto simp: bit_simps)
  have "sw = push_bit 8 (drop_bit 8 sw) OR take_bit 8 sw"
    by (rule bit_word_eqI) (auto simp: bit_simps)
  then show ?thesis unfolding hi lo by simp
qed

lemma check_Ok: "check sw = Ok () \<longleftrightarrow> sw = SW_OK"
  by (simp add: check_def)

lemma check_Err: "check sw = Err e \<Longrightarrow> status_word e = sw \<or> e = EntryNotFound \<and> sw = ENTRY_NOT_FOUND_ALT"
  by (auto simp: check_def split: if_splits)

lemma check_pin_Err:
  "check_pin sw = Err e \<Longrightarrow> status_word e = sw \<or> e = EntryNotFound \<and> sw = ENTRY_NOT_FOUND_ALT"
  using retries_word [of sw] check_Err by (auto simp: check_pin_def split: if_splits)

lemma check_new_pin_Err:
  "check_new_pin sw = Err e \<Longrightarrow> status_word e = sw \<or> e = EntryNotFound \<and> sw = ENTRY_NOT_FOUND_ALT"
  using check_pin_Err by (auto simp: check_new_pin_def split: if_splits)

lemma check_pin_Ok: "check_pin sw = Ok () \<longleftrightarrow> sw = SW_OK"
  by (auto simp: check_pin_def check_Ok otp_sw_defs)

lemma check_new_pin_Ok: "check_new_pin sw = Ok () \<longleftrightarrow> sw = SW_OK"
  by (auto simp: check_new_pin_def check_pin_Ok otp_sw_defs)

subsection \<open>The guard of \<^verbatim>\<open>SET_DEVICE_TYPE\<close>\<close>

lemma DEV_ALL_mask: "DEV_ALL = mask 3"
  by (simp add: DEV_ALL_def DEV_FIDO_def DEV_KEYBOARD_def DEV_CCID_def mask_eq_exp_minus_1)

lemma all_bits: "(x :: byte) AND DEV_ALL = DEV_ALL \<longleftrightarrow> bit x 0 \<and> bit x 1 \<and> bit x 2"
proof -
  have "x AND DEV_ALL = DEV_ALL \<longleftrightarrow> (\<forall>n < 3. bit x n)"
  proof (intro iffI allI impI)
    fix n :: nat
    assume "x AND DEV_ALL = DEV_ALL" and "n < 3"
    then have "bit (x AND mask 3) n \<longleftrightarrow> bit (mask 3 :: byte) n" by (simp add: DEV_ALL_mask)
    with \<open>n < 3\<close> show "bit x n" by (simp add: bit_and_iff bit_mask_iff)
  next
    assume "\<forall>n < 3. bit x n"
    then show "x AND DEV_ALL = DEV_ALL"
      unfolding DEV_ALL_mask by (intro bit_eqI) (auto simp: bit_and_iff bit_mask_iff)
  qed
  then show ?thesis by (auto simp: numeral_3_eq_3 less_Suc_eq numeral_2_eq_2)
qed

lemma one_bit: "(x :: byte) AND 0x01 = 0 \<longleftrightarrow> \<not> bit x 0" "x AND 0x02 = 0 \<longleftrightarrow> \<not> bit x 1" "x AND 0x04 = 0 \<longleftrightarrow> \<not> bit x 2"
  using and_exp_eq_0_iff_not_bit [of x 0] and_exp_eq_0_iff_not_bit [of x 1] and_exp_eq_0_iff_not_bit [of x 2]
  by simp_all

lemma set_device_type_iff:
  assumes "di_transfer_type i = m"
  shows "set_device_type m = Some (Ok apdu) \<longleftrightarrow>
      \<not> (fido_disabled i \<and> hotp_keystroke_disabled i \<and> ccid_disabled i)
      \<and> apdu = [0x80, 0xC5, 0x02, 0x01, 0x01, m]"
    and "set_device_type m \<noteq> None"
  using assms
  by (auto simp: set_device_type_def all_bits fido_disabled_def hotp_keystroke_disabled_def ccid_disabled_def
      one_bit build_apdu_def SET_DEVICE_TYPE_def simp del: One_nat_def)

subsection \<open>The two decoders of base32\<close>

lemma SEED_ALPHABET_bytes:
  "SEED_ALPHABET = [65, 66, 67, 68, 69, 70, 71, 72, 73, 74, 75, 76, 77, 78, 79, 80, 81, 82, 83, 84, 85, 86, 87, 88,
     89, 90, 50, 51, 52, 53, 54, 55]"
  by (simp add: SEED_ALPHABET_def ascii_def)

lemma seed_digit_upper:
  assumes "base32_digit (unat c) = Some v"
  shows "seed_digit (if 0x61 \<le> c \<and> c \<le> 0x7a then c - 0x20 else c) = Some (unat v)"
    and "\<not> is_whitespace (unat c)" and "c \<noteq> 0x3d"
proof -
  let ?P = "\<lambda>n. (case base32_digit n of None \<Rightarrow> True | Some v \<Rightarrow>
     seed_digit (if 0x61 \<le> (word_of_nat n :: byte) \<and> (word_of_nat n :: byte) \<le> 0x7a then word_of_nat n - 0x20 else word_of_nat n)
       = Some (unat v) \<and> \<not> is_whitespace n \<and> n \<noteq> 0x3d)"
  have all: "list_all ?P ([65..<91] @ [97..<123] @ [50..<56])"
    by (simp add: upt_conv_Cons, simp add: base32_digit_def seed_digit_def SEED_ALPHABET_bytes is_whitespace_def)
  have "unat c \<in> set ([65..<91] @ [97..<123] @ [50..<56])"
    using assms by (auto simp: base32_digit_def simp del: upt_rec_numeral split: if_splits)
  with all have "?P (unat c)" unfolding list_all_iff by blast
  then show "seed_digit (if 0x61 \<le> c \<and> c \<le> 0x7a then c - 0x20 else c) = Some (unat v)"
    and "\<not> is_whitespace (unat c)" and "c \<noteq> 0x3d"
    using assms by auto
qed

lemma ucast_low: "ucast (w AND 0xff) = (ucast (w :: u64) :: byte)"
proof -
  have "w AND 0xff = take_bit 8 w" by (simp add: take_bit_eq_mask mask_eq_exp_minus_1)
  then show ?thesis by (simp only:) (rule bit_word_eqI, auto simp: bit_simps)
qed

lemma seed_base32_of:
  assumes "base32_loop buf bits out padded (map unat s) = Ok (buf', bits', out')" and "0x2d \<notin> set s"
  shows "\<exists>t k. filter (\<lambda>b. \<not> is_whitespace (unat b)) s = t @ replicate k 0x3d \<and> 0x3d \<notin> set t
    \<and> (padded \<longrightarrow> t = []) \<and> seed_base32_loop buf bits out (to_ascii_uppercase t) = Ok out'"
  using assms
proof (induction s arbitrary: buf bits out padded)
  case Nil
  then show ?case by (auto simp: to_ascii_uppercase_def)
next
  case (Cons c s)
  have pad: "unat c = 0x3d \<longleftrightarrow> c = 0x3d" by (simp add: word_unat_eq_iff)
  consider "base32_skip (unat c)" | "\<not> base32_skip (unat c)" "c = 0x3d"
    | v where "\<not> base32_skip (unat c)" "c \<noteq> 0x3d" "\<not> padded" "base32_digit (unat c) = Some v"
    using Cons.prems(1) by (auto simp: pad split: if_splits option.splits)
  then show ?case
  proof cases
    case 1
    then have "is_whitespace (unat c)"
      using Cons.prems(2) by (auto simp: base32_skip_def is_whitespace_def word_unat_eq_iff)
    then show ?thesis using Cons 1 by auto
  next
    case 2
    then obtain k where "filter (\<lambda>b. \<not> is_whitespace (unat b)) s = replicate k 0x3d"
      "seed_base32_loop buf bits out [] = Ok out'"
      using Cons.IH [of buf bits out True] Cons.prems by (auto simp: to_ascii_uppercase_def)
    then show ?thesis using 2
      by (intro exI [of _ "[]"] exI [of _ "Suc k"]) (simp add: is_whitespace_def to_ascii_uppercase_def)
  next
    case (3 v)
    let ?w = "push_bit 5 buf OR ucast v"
    let ?b = "if 8 \<le> bits + 5 then bits + 5 - 8 else bits + 5"
    let ?o = "if 8 \<le> bits + 5 then out @ [ucast (drop_bit (bits + 5 - 8) ?w AND 0xff)] else out"
    have "base32_loop ?w ?b ?o False (map unat s) = Ok (buf', bits', out')"
      using Cons.prems(1) 3 by (auto simp: Let_def word_unat_eq_iff split: if_splits)
    from Cons.IH [OF this] Cons.prems(2) obtain t k where
      t: "filter (\<lambda>b. \<not> is_whitespace (unat b)) s = t @ replicate k 0x3d" "0x3d \<notin> set t"
        "seed_base32_loop ?w ?b ?o (to_ascii_uppercase t) = Ok out'" by auto
    note d = seed_digit_upper [OF 3(4)] and t' = t(3) [unfolded ucast_low]
    show ?thesis
      using t(1,2) t' d 3 by (intro exI [of _ "c # t"] exI [of _ k]) (auto simp: to_ascii_uppercase_def Let_def)
  qed
qed

lemma drop_whitespace_ascii:
  "str_is_ascii s \<Longrightarrow> drop_whitespace s = filter (\<lambda>b. \<not> is_whitespace (unat b)) s"
  by (induction s) (simp_all add: drop_whitespace_def str_is_ascii_def utf8_split_ascii)

lemma decode_base32_seed_of:
  assumes "base32_decode s = Ok out" and "str_is_ascii s" and "0x2d \<notin> set s"
    and "out \<noteq> []" and "length out \<le> 64"
  shows "decode_base32_seed s = Ok out"
proof -
  have "chars s = map unat s" using assms(2) by (intro chars_ascii) (simp add: str_is_ascii_def)
  then obtain buf bits where "base32_loop 0 0 [] False (map unat s) = Ok (buf, bits, out)"
    using assms(1) by (auto simp: base32_decode_def split: if_splits)
  from seed_base32_of [OF this assms(3)] obtain t k where
    t: "filter (\<lambda>b. \<not> is_whitespace (unat b)) s = t @ replicate k 0x3d" "0x3d \<notin> set t"
      "seed_base32_loop 0 0 [] (to_ascii_uppercase t) = Ok out" by blast
  have "dropWhile (\<lambda>b. b = 0x3d) (rev (t @ replicate k 0x3d)) = rev t"
    using t(2) by (cases t rule: rev_cases) (auto simp: dropWhile_append)
  then show ?thesis
    using t(3) assms(4,5)
    by (simp add: decode_base32_seed_def drop_whitespace_ascii [OF assms(2)] t(1) seed_base32_decode_def
        validate_seed_len_def Suc_le_eq)
qed

text \<open>A check reports a status word: success only for \<^verbatim>\<open>9000\<close>, and an error that names the word
  again, but for the alias \<^verbatim>\<open>6A83\<close> of \<^verbatim>\<open>EntryNotFound\<close>.\<close>

definition reports :: "(unit, otp_error) result \<Rightarrow> u16 \<Rightarrow> bool" where
  "reports r sw = (case r of
     Ok _ \<Rightarrow> sw = SW_OK
   | Err e \<Rightarrow> status_word e = (if e = EntryNotFound \<and> sw = ENTRY_NOT_FOUND_ALT then ENTRY_NOT_FOUND else sw))"

lemma reportsI:
  assumes "r = Ok () \<Longrightarrow> sw = SW_OK"
    and "\<And>e. r = Err e \<Longrightarrow> status_word e = sw \<or> e = EntryNotFound \<and> sw = ENTRY_NOT_FOUND_ALT"
  shows "reports r sw"
proof (cases r)
  case (Ok u)
  with assms(1) show ?thesis by (simp add: reports_def)
next
  case (Err e)
  with assms(2) [of e] show ?thesis by (auto simp: reports_def)
qed

lemma retries_byte:
  "0x6300 \<le> (0x6300 OR ucast n :: u16) \<and> (0x6300 OR ucast n :: u16) \<le> 0x63FF
   \<and> ucast ((0x6300 OR ucast n :: u16) AND 0x00FF) = (n :: byte)"
proof -
  have hi: "(0x6300 :: u16) = push_bit 8 0x63" by simp
  have "unat (0x6300 OR ucast n :: u16) = push_bit 8 0x63 OR unat n"
    using less_trans [OF unat_byte_less, of "2 ^ 16" n] by (simp add: unsigned_or_eq)
  also have "\<dots> = 0x63 * 2 ^ 8 + unat n" using unat_byte_less [of n] by (intro push_or_add) simp
  finally have u: "unat (0x6300 OR ucast n :: u16) = 0x6300 + unat n" by simp
  have "(0x6300 OR ucast n :: u16) AND 0x00FF = take_bit 8 (push_bit 8 0x63 OR ucast n)"
    unfolding hi by (simp only: take_bit_eq_mask) (simp add: mask_eq_exp_minus_1)
  also have "\<dots> = ucast n" by (rule bit_word_eqI) (auto simp: bit_simps dest: bit_imp_le_length)
  finally have lo: "(0x6300 OR ucast n :: u16) AND 0x00FF = ucast n" .
  have id: "ucast (ucast n :: u16) = n" by (rule bit_word_eqI) (auto simp: bit_simps dest: bit_imp_le_length)
  show ?thesis using unat_byte_less [of n] by (simp only: word_le_nat_alt u lo id) simp
qed

lemma erase_only_empty:
  assumes "build_apdu WRITE_SEED data = Some apdu"
  shows "Some apdu = erase_all \<or> apdu = erase_all_usb \<longleftrightarrow> data = []"
proof (cases "data = []")
  case False
  then have "(word_of_nat (length data) :: byte) \<noteq> 0" if "length data \<le> 0xFF"
    using that by (simp add: word_unat_eq_iff unsigned_of_nat take_bit_eq_mod)
  then show ?thesis
    using False assms by (auto simp: build_apdu_def erase_all_def erase_all_usb_def WRITE_SEED_def split: if_splits)
qed (use assms in \<open>simp add: erase_all_def\<close>)

subsection \<open>The properties of the applet\<close>

text \<open>The status words.  Every check accepts exactly \<^verbatim>\<open>9000\<close>; an error gives back the
  status word it stands for, but for the alias \<^verbatim>\<open>6A83\<close> of \<^verbatim>\<open>EntryNotFound\<close>; a wrong
  PIN keeps its number of attempts; and a rejected new PIN is never reported as a missing entry.\<close>

theorem otp_status_words:
  "reports (check sw) sw \<and> reports (check_pin sw) sw \<and> reports (check_new_pin sw) sw
   \<and> check SW_OK = Ok () \<and> check_pin SW_OK = Ok () \<and> check_new_pin SW_OK = Ok ()
   \<and> check_pin (0x6300 OR ucast n) = Err (PinInvalidRetries n)
   \<and> check_new_pin ENTRY_NOT_FOUND = Err PinRejected"
proof -
  have "check_pin (0x6300 OR ucast n) = Err (PinInvalidRetries n)"
    using retries_byte [of n] by (simp only: check_pin_def simp_thms if_True)
  then show ?thesis
    using check_Err [of sw] check_pin_Err [of sw] check_new_pin_Err [of sw]
    by (auto intro!: reportsI simp: check_Ok check_pin_Ok check_new_pin_Ok)
      (simp add: check_new_pin_def)
qed

text \<open>C30: requests that change or destroy are what was asked for.  The body of a write determines the
  entry, that of a delete the names, and none is both; a request to write or delete an entry is an
  erase-all only with an empty body; and an interface mask is sent exactly when a key with that
  \<^verbatim>\<open>transfer_type\<close> still has an interface, so the host never disables all of them.\<close>

theorem otp_requests_distinct:
  assumes "serialize_write_entry e = Ok body" and "serialize_delete_entry a b = Ok del"
    and "build_apdu WRITE_SEED data = Some apdu"
  shows "(serialize_write_entry e' = Ok body \<longleftrightarrow> e' = e)
   \<and> (serialize_delete_entry a' b' = Ok del \<longleftrightarrow> a' = a \<and> b' = b) \<and> body \<noteq> del
   \<and> (Some apdu = erase_all \<or> apdu = erase_all_usb \<longleftrightarrow> data = [])
   \<and> (set_device_type (di_transfer_type i) = Some (Ok req) \<longleftrightarrow>
        \<not> (fido_disabled i \<and> hotp_keystroke_disabled i \<and> ccid_disabled i)
        \<and> req = [0x80, 0xC5, 0x02, 0x01, 0x01, di_transfer_type i])"
proof (intro conjI)
  show "serialize_write_entry e' = Ok body \<longleftrightarrow> e' = e"
    using serialize_write_inj [of e' body e] assms(1) by auto
  show "serialize_delete_entry a' b' = Ok del \<longleftrightarrow> a' = a \<and> b' = b"
    using serialize_delete_inj [of a' b' del a b] assms(2) by auto
  show "body \<noteq> del" using write_not_delete [OF assms(1), of a b] assms(2) by auto
qed (rule erase_only_empty [OF assms(3)], rule set_device_type_iff(1) [OF refl])

definition demo_write :: write_entry where
  "demo_write = \<lparr>we_type = Totp, we_algorithm = OtpSha1, we_timestep = 30, we_code_length = 6,
     we_button_required = False, we_app_name = [0x54], we_account_name = [0x61], we_seed = [0x48]\<rparr>"

theorem otp_requests_distinct_witness:
  "serialize_write_entry (demo_write\<lparr>we_seed := [0x49]\<rparr>)
     \<noteq> Ok [1, 0xC1, 0, 30, 6, 0, 1, 0x54, 1, 0x61, 1, 0x48]
   \<and> serialize_delete_entry [0x54] [0x62] \<noteq> Ok [0, 0, 0, 0, 0, 0, 1, 0x54, 1, 0x61, 0]"
proof -
  have t: "u16_to_be 30 = [0, 30]"
    by (simp only: u16_to_be_def numeral_2_eq_2 be_bytes.simps) simp
  have w: "serialize_write_entry demo_write = Ok [1, 0xC1, 0, 30, 6, 0, 1, 0x54, 1, 0x61, 1, 0x48]"
    by (simp add: serialize_write_layout validate_common_Ok check_names_Ok demo_write_def entry_bytes_def written_def
        str_is_ascii_def t bool_byte_def len_byte_def)
  have d: "serialize_delete_entry [0x54] [0x61] = Ok [0, 0, 0, 0, 0, 0, 1, 0x54, 1, 0x61, 0]"
    by (simp add: serialize_delete_layout check_names_Ok str_is_ascii_def len_byte_def)
  have b: "build_apdu WRITE_SEED [7] = Some (WRITE_SEED @ [1, 7])" by (simp add: build_apdu_def)
  show ?thesis
    using otp_requests_distinct [OF w d b, of "demo_write\<lparr>we_seed := [0x49]\<rparr>" "[0x54]" "[0x62]"]
    by (simp add: demo_write_def)
qed

text \<open>The two base32 decoders of the workspace agree: a secret of 1 to 64 bytes that
  \<^verbatim>\<open>keyroost-proto\<close> accepts, written without hyphens, is the same seed for the OTP applet.\<close>

theorem seed_decoders_agree:
  assumes "base32_decode s = Ok out" and "str_is_ascii s" and "0x2d \<notin> set s"
    and "1 \<le> length out" and "length out \<le> 64"
  shows "decode_base32_seed s = Ok out"
  using assms by (intro decode_base32_seed_of) auto

theorem seed_decoders_agree_witness: "decode_base32_seed (ascii ''jbSWy 3dP='') = Ok (ascii ''Hello'')"
proof -
  have a: "str_is_ascii (ascii ''jbSWy 3dP='')" by (simp add: str_is_ascii_def ascii_def)
  have "chars (ascii ''jbSWy 3dP='') = map unat (ascii ''jbSWy 3dP='')"
    using a by (intro chars_ascii) (simp add: str_is_ascii_def)
  then have b: "base32_decode (ascii ''jbSWy 3dP='') = Ok (ascii ''Hello'')"
    unfolding base32_decode_def b32.decoder_spec
    by (intro exI [of _ "[9, 1, 18, 22, 24, 27, 3, 15]"])
      (simp add: ascii_def base32_skip_def base32_digit_def)
  show ?thesis using seed_decoders_agree [OF b a] by (simp add: ascii_def)
qed

end
