(* ===== verification/Otp_Session.thy ===== *)
theory Otp_Session
  imports Otp_Applet
begin

text \<open>
  \<^verbatim>\<open>crates/keyroost-token2otp/src/crypto.rs\<close>: the sealing of seeds and the session of the
  OTP PIN.  The crates it calls (P-256, AES-256-CBC with and without PKCS#7, SHA-256, HMAC) are the
  fields of \<open>otp_crypto\<close>; the ephemeral secret and the IVs it draws are arguments.
\<close>

record 'k otp_crypto =
  oc_sha256 :: "bytes \<Rightarrow> bytes"
  oc_hmac :: "bytes \<Rightarrow> bytes \<Rightarrow> bytes"
  oc_cbc_encrypt :: "bytes \<Rightarrow> bytes \<Rightarrow> bytes \<Rightarrow> bytes"
  oc_cbc_decrypt :: "bytes \<Rightarrow> bytes \<Rightarrow> bytes \<Rightarrow> bytes"
  oc_encrypt_pkcs7 :: "bytes \<Rightarrow> bytes \<Rightarrow> bytes \<Rightarrow> bytes"
  oc_decrypt_pkcs7 :: "bytes \<Rightarrow> bytes \<Rightarrow> bytes \<Rightarrow> bytes option"
  oc_public_xy :: "'k \<Rightarrow> bytes"
  oc_ecdh :: "'k \<Rightarrow> bytes \<Rightarrow> bytes option"

definition IV_OTP :: bytes where
  "IV_OTP = [0x9D, 0xD8, 0x91, 0x8E, 0x34, 0xF3, 0xCC, 0xAB, 0x08, 0xCB, 0x75, 0x18, 0xF7, 0x19, 0x38, 0xF1]"

definition IV_HOTP :: bytes where "IV_HOTP = replicate 16 0"

datatype encrypt_error = BadDevicePubkey | RngFailed | BadCiphertext | BadAuthTag | BadLength

subsection \<open>Seeds\<close>

text \<open>The point is checked when it is read: \<open>oc_ecdh\<close> is \<open>None\<close> for bytes that are not a point.\<close>

definition encrypt_seed_payload :: "'k otp_crypto \<Rightarrow> 'k \<Rightarrow> bytes \<Rightarrow> bytes \<Rightarrow> bytes \<Rightarrow> (bytes, encrypt_error) result" where
  "encrypt_seed_payload c host_secret device_pub_xy cleartext iv =
     (if length device_pub_xy \<noteq> 64 then Err BadDevicePubkey
      else bind_result (ok_or BadDevicePubkey (oc_ecdh c host_secret device_pub_xy)) (\<lambda>shared.
        let session_key = oc_sha256 c shared
        in Ok (oc_public_xy c host_secret @ oc_encrypt_pkcs7 c session_key iv cleartext)))"

subsection \<open>The PIN session\<close>

record session_keys =
  sk_enc :: bytes
  sk_mac :: bytes

definition derive_session_keys :: "'k otp_crypto \<Rightarrow> 'k \<Rightarrow> bytes \<Rightarrow> (session_keys, encrypt_error) result" where
  "derive_session_keys c host_secret device_agreement_xy =
     (if length device_agreement_xy \<noteq> 64 then Err BadDevicePubkey
      else bind_result (ok_or BadDevicePubkey (oc_ecdh c host_secret device_agreement_xy)) (\<lambda>shared.
        let pu1_pr = oc_hmac c (replicate 32 0) shared;
            mac_info = ascii ''TOTP HMAC key'' @ [0x01];
            enc_info = ascii ''TOTP AES key'' @ [0x01]
        in Ok \<lparr>sk_enc = oc_hmac c pu1_pr enc_info, sk_mac = oc_hmac c pu1_pr mac_info\<rparr>))"

text \<open>\<^verbatim>\<open>HostAgreement\<close>: a secret with its public half.\<close>

record 'k host_agreement =
  ha_secret :: 'k
  ha_public_xy :: bytes

definition new_host_agreement :: "'k otp_crypto \<Rightarrow> 'k \<Rightarrow> 'k host_agreement" where
  "new_host_agreement c secret = \<lparr>ha_secret = secret, ha_public_xy = oc_public_xy c secret\<rparr>"

definition establish_session :: "'k otp_crypto \<Rightarrow> 'k host_agreement \<Rightarrow> bytes \<Rightarrow> (session_keys, encrypt_error) result" where
  "establish_session c h device_agreement_xy = derive_session_keys c (ha_secret h) device_agreement_xy"

definition session_encrypt :: "'k otp_crypto \<Rightarrow> bytes \<Rightarrow> bytes \<Rightarrow> bytes \<Rightarrow> bytes" where
  "session_encrypt c key iv cleartext = oc_encrypt_pkcs7 c key iv cleartext"

definition session_decrypt_raw :: "'k otp_crypto \<Rightarrow> bytes \<Rightarrow> bytes \<Rightarrow> bytes \<Rightarrow> bytes" where
  "session_decrypt_raw c key iv ciphertext =
     (if ciphertext = [] \<or> length ciphertext mod 16 \<noteq> 0 then [] else oc_cbc_decrypt c key iv ciphertext)"

definition session_decrypt :: "'k otp_crypto \<Rightarrow> bytes \<Rightarrow> bytes \<Rightarrow> bytes \<Rightarrow> (bytes, encrypt_error) result" where
  "session_decrypt c key iv ciphertext =
     (if ciphertext = [] \<or> length ciphertext mod 16 \<noteq> 0 then Err BadCiphertext
      else ok_or BadCiphertext (oc_decrypt_pkcs7 c key iv ciphertext))"

definition session_auth_tag :: "'k otp_crypto \<Rightarrow> bytes \<Rightarrow> bytes \<Rightarrow> bytes" where
  "session_auth_tag c mac_key data = take 16 (oc_hmac c mac_key data)"

definition verify_auth_tag :: "'k otp_crypto \<Rightarrow> bytes \<Rightarrow> bytes \<Rightarrow> bytes \<Rightarrow> (unit, encrypt_error) result" where
  "verify_auth_tag c mac_key data tag =
     (if length tag \<noteq> 16 then Err BadAuthTag
      else let expect = session_auth_tag c mac_key data;
               diff = foldl (\<lambda>diff (a, b). diff OR (a XOR b)) 0 (zip expect tag)
           in if diff = 0 then Ok () else Err BadAuthTag)"

definition aes256_cbc_encrypt_nopad :: "'k otp_crypto \<Rightarrow> bytes \<Rightarrow> bytes \<Rightarrow> bytes \<Rightarrow> (bytes, encrypt_error) result" where
  "aes256_cbc_encrypt_nopad c key iv data =
     (if data = [] \<or> length data mod 16 \<noteq> 0 then Err BadLength else Ok (oc_cbc_encrypt c key iv data))"

definition pkcs7_pad16 :: "bytes \<Rightarrow> bytes" where
  "pkcs7_pad16 data = (let n = 16 - length data mod 16 in data @ replicate n (word_of_nat n))"

definition build_protected_write_data :: "'k otp_crypto \<Rightarrow> bytes \<Rightarrow> session_keys \<Rightarrow> bytes \<Rightarrow> bytes" where
  "build_protected_write_data c iv keys cleartext =
     (let enc = session_encrypt c (sk_enc keys) iv cleartext;
          auth = session_auth_tag c (sk_mac keys) enc
      in iv @ enc @ auth)"

definition u8_len :: "bytes \<Rightarrow> (byte, encrypt_error) result" where
  "u8_len pin = (if 255 < length pin then Err BadLength else Ok (word_of_nat (length pin)))"

definition build_set_pin_data :: "'k otp_crypto \<Rightarrow> bytes \<Rightarrow> session_keys \<Rightarrow> bytes \<Rightarrow> byte \<Rightarrow> (bytes, encrypt_error) result" where
  "build_set_pin_data c iv keys pin retry =
     bind_result (u8_len pin) (\<lambda>pin_len.
       let newpin = [PIN_ALG_AES256, retry, pin_len] @ pin;
           enc = session_encrypt c (sk_enc keys) iv newpin;
           auth = session_auth_tag c (sk_mac keys) enc
       in Ok (iv @ enc @ auth))"

text \<open>The two layers of a verification, without and with the \<^verbatim>\<open>EncConfig\<close> block.\<close>

definition verify_layers :: "'k otp_crypto \<Rightarrow> bytes \<Rightarrow> session_keys \<Rightarrow> bytes \<Rightarrow> bytes \<Rightarrow> (bytes, encrypt_error) result" where
  "verify_layers c iv keys pin rand =
     (let pin_hash = oc_sha256 c pin; iv2 = take 16 (oc_sha256 c rand) in
      bind_result (aes256_cbc_encrypt_nopad c pin_hash iv2 rand) (\<lambda>inner.
        aes256_cbc_encrypt_nopad c (sk_enc keys) iv inner))"

definition build_verify_pin_data :: "'k otp_crypto \<Rightarrow> bytes \<Rightarrow> session_keys \<Rightarrow> bytes \<Rightarrow> bytes \<Rightarrow> (bytes, encrypt_error) result" where
  "build_verify_pin_data c iv keys pin rand =
     bind_result (verify_layers c iv keys pin rand) (\<lambda>outer. Ok (iv @ outer))"

definition build_verify_pin_data_with_config ::
    "'k otp_crypto \<Rightarrow> bytes \<Rightarrow> session_keys \<Rightarrow> bytes \<Rightarrow> bytes \<Rightarrow> bool \<Rightarrow> (bytes, encrypt_error) result" where
  "build_verify_pin_data_with_config c iv keys pin rand fp_enable =
     bind_result (verify_layers c iv keys pin rand) (\<lambda>outer.
       let cfg_byte = (if fp_enable then 0x01 else 0x00); cfg_padded = pkcs7_pad16 [cfg_byte] in
       bind_result (aes256_cbc_encrypt_nopad c (sk_enc keys) iv cfg_padded) (\<lambda>enc_config.
         Ok (iv @ outer @ enc_config)))"

definition build_change_pin_data :: "'k otp_crypto \<Rightarrow> bytes \<Rightarrow> session_keys \<Rightarrow> bytes \<Rightarrow> bytes \<Rightarrow> (bytes, encrypt_error) result" where
  "build_change_pin_data c iv keys new_pin current_pin =
     bind_result (u8_len new_pin) (\<lambda>new_len.
       let body = pkcs7_pad16 ([PIN_ALG_AES256, PIN_DEFAULT_MAX_RETRY, new_len] @ new_pin) in
       bind_result (aes256_cbc_encrypt_nopad c (sk_enc keys) iv body) (\<lambda>new_pin_enc.
       bind_result (aes256_cbc_encrypt_nopad c (sk_enc keys) iv (take 16 (oc_sha256 c current_pin))) (\<lambda>old_pin_hash_enc.
         let new_pin_auth = session_auth_tag c (sk_mac keys) (new_pin_enc @ old_pin_hash_enc)
         in Ok (iv @ new_pin_enc @ new_pin_auth @ old_pin_hash_enc))))"

subsection \<open>The crates\<close>

text \<open>What the session relies on of them: the lengths of hashes, tags and public keys; CBC
  decryption undoes an encryption and keeps the length; PKCS#7 fills the last block with its number of
  missing bytes, and is removed again.\<close>

definition otp_primitives :: "'k otp_crypto \<Rightarrow> bool" where
  "otp_primitives c \<longleftrightarrow>
     (\<forall>x. length (oc_sha256 c x) = 32) \<and> (\<forall>k x. length (oc_hmac c k x) = 32)
     \<and> (\<forall>s. length (oc_public_xy c s) = 64)
     \<and> (\<forall>k iv p. 16 dvd length p \<longrightarrow>
          length (oc_cbc_encrypt c k iv p) = length p \<and> oc_cbc_decrypt c k iv (oc_cbc_encrypt c k iv p) = p)
     \<and> (\<forall>k iv p. oc_encrypt_pkcs7 c k iv p = oc_cbc_encrypt c k iv (pkcs7_pad16 p)
          \<and> oc_decrypt_pkcs7 c k iv (oc_encrypt_pkcs7 c k iv p) = Some p)"

lemma pkcs7_pad16_blocks: "16 dvd length (pkcs7_pad16 p)" "pkcs7_pad16 p \<noteq> []"
proof -
  have "n + (16 - n mod 16) = 16 * (n div 16 + 1)" for n :: nat by presburger
  then show "16 dvd length (pkcs7_pad16 p)" by (simp only: pkcs7_pad16_def Let_def length_append length_replicate) simp
  show "pkcs7_pad16 p \<noteq> []" by (simp add: pkcs7_pad16_def Let_def)
qed

lemma fold_xor_zero:
  "foldl (\<lambda>diff (a, b). diff OR (a XOR b)) d ps = (0 :: byte) \<longleftrightarrow> d = 0 \<and> list_all (\<lambda>(a, b). a = b) ps"
proof (induction ps arbitrary: d)
  case (Cons p ps)
  have "a XOR b = 0 \<longleftrightarrow> a = b" for a b :: byte
    by (auto simp: bit_eq_iff [of "a XOR b"] bit_eq_iff [of a] bit_xor_iff)
  then have "d OR (a XOR b) = 0 \<longleftrightarrow> d = 0 \<and> a = b" for a b
    by (simp add: or_eq_0_iff)
  then show ?case using Cons by (cases p) auto
qed simp

lemma zip_all_eq: "length xs = length ys \<Longrightarrow> list_all (\<lambda>(a, b). a = b) (zip xs ys) \<longleftrightarrow> xs = ys"
  by (induction xs ys rule: list_induct2) auto

text \<open>The folded comparison accepts the tag and nothing else.\<close>

lemma verify_auth_tag_iff:
  assumes "otp_primitives c"
  shows "verify_auth_tag c k d tag = Ok () \<longleftrightarrow> tag = session_auth_tag c k d"
proof -
  have len: "length (session_auth_tag c k d) = 16"
    using assms by (simp add: session_auth_tag_def otp_primitives_def)
  show ?thesis
    using zip_all_eq [of "session_auth_tag c k d" tag] len
    by (auto simp: verify_auth_tag_def Let_def fold_xor_zero)
qed

lemma cbc_blocks:
  assumes "otp_primitives c" and "p \<noteq> []" and "16 dvd length p"
  shows "length (oc_cbc_encrypt c k iv p) = length p" "oc_cbc_encrypt c k iv p \<noteq> []"
    "oc_cbc_decrypt c k iv (oc_cbc_encrypt c k iv p) = p"
proof -
  show l: "length (oc_cbc_encrypt c k iv p) = length p" and "oc_cbc_decrypt c k iv (oc_cbc_encrypt c k iv p) = p"
    using assms by (simp_all add: otp_primitives_def)
  from l assms(2) show "oc_cbc_encrypt c k iv p \<noteq> []" by auto
qed

lemma nopad_Ok:
  assumes "otp_primitives c" and "p \<noteq> []" and "16 dvd length p"
  shows "aes256_cbc_encrypt_nopad c k iv p = Ok (oc_cbc_encrypt c k iv p)"
    and "session_decrypt_raw c k iv (oc_cbc_encrypt c k iv p) = p"
  using assms cbc_blocks [OF assms]
  by (simp_all add: aes256_cbc_encrypt_nopad_def session_decrypt_raw_def mod_eq_0_iff_dvd)

lemma session_encrypt_cbc:
  "otp_primitives c \<Longrightarrow> session_encrypt c k iv p = oc_cbc_encrypt c k iv (pkcs7_pad16 p)"
  by (simp add: session_encrypt_def otp_primitives_def)

lemma pkcs7_removed:
  "otp_primitives c \<Longrightarrow> oc_decrypt_pkcs7 c k iv (oc_cbc_encrypt c k iv (pkcs7_pad16 p)) = Some p"
  by (metis otp_primitives_def)

lemma session_round:
  assumes "otp_primitives c"
  shows "session_decrypt c k iv (oc_cbc_encrypt c k iv (pkcs7_pad16 p)) = Ok p"
proof -
  show ?thesis
    using pkcs7_removed [OF assms] cbc_blocks [OF assms pkcs7_pad16_blocks(2,1)] pkcs7_pad16_blocks [of p]
    by (simp add: session_decrypt_def mod_eq_0_iff_dvd)
qed

subsection \<open>The key\<close>

text \<open>The key's side of the protocol: the point both sides of an exchange hold, the tagged block of a
  PIN or a protected entry, the change of a PIN and the two layers of a verification.\<close>

definition otp_ecdh_agrees :: "'k otp_crypto \<Rightarrow> 'k \<Rightarrow> 'k \<Rightarrow> bool" where
  "otp_ecdh_agrees c host dev \<longleftrightarrow>
     oc_ecdh c host (oc_public_xy c dev) \<noteq> None
     \<and> oc_ecdh c dev (oc_public_xy c host) = oc_ecdh c host (oc_public_xy c dev)"

definition open_seed :: "'k otp_crypto \<Rightarrow> 'k \<Rightarrow> bytes \<Rightarrow> bytes \<Rightarrow> bytes option" where
  "open_seed c dev iv blob =
     (case oc_ecdh c dev (take 64 blob) of
        None \<Rightarrow> None
      | Some shared \<Rightarrow> oc_decrypt_pkcs7 c (oc_sha256 c shared) iv (drop 64 blob))"

definition open_block :: "'k otp_crypto \<Rightarrow> session_keys \<Rightarrow> bytes \<Rightarrow> (bytes, encrypt_error) result" where
  "open_block c keys data =
     (let iv = take 16 data; rest = drop 16 data;
          enc = take (length rest - 16) rest; auth = drop (length rest - 16) rest
      in bind_result (verify_auth_tag c (sk_mac keys) enc auth) (\<lambda>_. session_decrypt c (sk_enc keys) iv enc))"

definition open_change :: "'k otp_crypto \<Rightarrow> session_keys \<Rightarrow> bytes \<Rightarrow> (bytes \<times> bytes, encrypt_error) result" where
  "open_change c keys data =
     (let iv = take 16 data; rest = drop 16 data;
          enc = take (length rest - 32) rest; auth = take 16 (drop (length rest - 32) rest);
          old = drop (length rest - 16) rest
      in bind_result (verify_auth_tag c (sk_mac keys) (enc @ old) auth) (\<lambda>_.
         bind_result (session_decrypt c (sk_enc keys) iv enc) (\<lambda>body.
           Ok (body, session_decrypt_raw c (sk_enc keys) iv old))))"

definition open_verify :: "'k otp_crypto \<Rightarrow> session_keys \<Rightarrow> bytes \<Rightarrow> bytes \<Rightarrow> bytes \<Rightarrow> bool" where
  "open_verify c keys pin rand data \<longleftrightarrow>
     (let iv = take 16 data; inner = session_decrypt_raw c (sk_enc keys) iv (drop 16 data)
      in session_decrypt_raw c (oc_sha256 c pin) (take 16 (oc_sha256 c rand)) inner = rand)"

lemma length_tag: "otp_primitives c \<Longrightarrow> length (session_auth_tag c k d) = 16"
  by (simp add: session_auth_tag_def otp_primitives_def)

lemma open_block_tagged:
  assumes "otp_primitives c" "length iv = 16"
    and "enc = oc_cbc_encrypt c (sk_enc keys) iv (pkcs7_pad16 p)"
  shows "open_block c keys (iv @ enc @ session_auth_tag c (sk_mac keys) enc) = Ok p"
  using assms(2) length_tag [OF assms(1)] session_round [OF assms(1)]
    verify_auth_tag_iff [OF assms(1), of "sk_mac keys" enc "session_auth_tag c (sk_mac keys) enc"]
  by (simp add: open_block_def assms(3))

lemma u8_len_Ok [simp]: "u8_len p = Ok n \<longleftrightarrow> length p \<le> 255 \<and> n = word_of_nat (length p)"
  by (auto simp: u8_len_def)

lemma u8_len_fits: "length p \<le> 255 \<Longrightarrow> u8_len p = Ok (word_of_nat (length p))"
  by simp

lemma set_pin_opens:
  assumes "otp_primitives c" "length iv = 16" "length pin \<le> 255"
  shows "\<exists>data. build_set_pin_data c iv keys pin retry = Ok data \<and>
    open_block c keys data = Ok ([PIN_ALG_AES256, retry, word_of_nat (length pin)] @ pin)"
  using open_block_tagged [OF assms(1,2) refl] session_encrypt_cbc [OF assms(1)]
  by (simp add: build_set_pin_data_def u8_len_fits [OF assms(3)] Let_def)

lemma protected_write_opens:
  assumes "otp_primitives c" "length iv = 16"
  shows "open_block c keys (build_protected_write_data c iv keys p) = Ok p"
  using open_block_tagged [OF assms refl] session_encrypt_cbc [OF assms(1)]
  by (simp add: build_protected_write_data_def Let_def)

lemma hash16:
  assumes "otp_primitives c"
  shows "16 dvd length (take 16 (oc_sha256 c x))" "take 16 (oc_sha256 c x) \<noteq> []" "length (take 16 (oc_sha256 c x)) = 16"
proof -
  have "length (oc_sha256 c x) = 32" using assms by (simp add: otp_primitives_def)
  then show "16 dvd length (take 16 (oc_sha256 c x))" "take 16 (oc_sha256 c x) \<noteq> []" "length (take 16 (oc_sha256 c x)) = 16"
    by auto
qed

lemma open_change_layout:
  assumes "length iv = 16" "length auth = 16" "length old = 16"
  shows "open_change c keys (iv @ enc @ auth @ old) =
    bind_result (verify_auth_tag c (sk_mac keys) (enc @ old) auth) (\<lambda>_.
    bind_result (session_decrypt c (sk_enc keys) iv enc) (\<lambda>body.
      Ok (body, session_decrypt_raw c (sk_enc keys) iv old)))"
  using assms by (simp add: open_change_def Let_def)

lemma change_opens:
  assumes "otp_primitives c" "length iv = 16" "length new \<le> 255"
  shows "\<exists>data. build_change_pin_data c iv keys new current = Ok data \<and>
    open_change c keys data
      = Ok ([PIN_ALG_AES256, PIN_DEFAULT_MAX_RETRY, word_of_nat (length new)] @ new, take 16 (oc_sha256 c current))"
proof -
  let ?p = "[PIN_ALG_AES256, PIN_DEFAULT_MAX_RETRY, word_of_nat (length new)] @ new"
  let ?enc = "oc_cbc_encrypt c (sk_enc keys) iv (pkcs7_pad16 ?p)"
  let ?h = "take 16 (oc_sha256 c current)"
  let ?old = "oc_cbc_encrypt c (sk_enc keys) iv ?h"
  let ?auth = "session_auth_tag c (sk_mac keys) (?enc @ ?old)"
  note n = nopad_Ok [OF assms(1) pkcs7_pad16_blocks(2,1)] and h = nopad_Ok [OF assms(1) hash16(2,1) [OF assms(1)]]
  have lo: "length ?old = 16"
    using cbc_blocks(1) [OF assms(1) hash16(2,1) [OF assms(1)]] hash16(3) [OF assms(1)] by simp
  have "build_change_pin_data c iv keys new current = Ok (iv @ ?enc @ ?auth @ ?old)"
    unfolding build_change_pin_data_def u8_len_fits [OF assms(3)] bind_result.simps Let_def n(1) h(1) ..
  moreover have "open_change c keys (iv @ ?enc @ ?auth @ ?old) = Ok (?p, ?h)"
    using verify_auth_tag_iff [OF assms(1), of "sk_mac keys" "?enc @ ?old" ?auth]
    by (simp only: open_change_layout [OF assms(2) length_tag [OF assms(1)] lo] session_round [OF assms(1)] h(2)
        bind_result.simps simp_thms)
  ultimately show ?thesis by blast
qed

lemma verify_opens:
  assumes "otp_primitives c" "length iv = 16" "rand \<noteq> []" "16 dvd length rand"
  shows "\<exists>data. build_verify_pin_data c iv keys pin rand = Ok data \<and> open_verify c keys pin rand data"
proof -
  let ?iv2 = "take 16 (oc_sha256 c rand)"
  let ?inner = "oc_cbc_encrypt c (oc_sha256 c pin) ?iv2 rand"
  note r = nopad_Ok [OF assms(1,3,4)] and b = cbc_blocks [OF assms(1,3,4)]
  have "16 dvd length ?inner" "?inner \<noteq> []" using b(1,2) assms(4) by simp_all
  note o = nopad_Ok [OF assms(1) this(2,1)]
  show ?thesis
    by (simp add: build_verify_pin_data_def verify_layers_def Let_def r(1) o(1) open_verify_def assms(2) o(2) r(2))
qed

lemma seed_opens:
  assumes "otp_primitives c" "otp_ecdh_agrees c host dev"
  shows "\<exists>blob. encrypt_seed_payload c host (oc_public_xy c dev) p iv = Ok blob \<and> open_seed c dev iv blob = Some p"
  using assms pkcs7_removed [OF assms(1)] session_encrypt_cbc [OF assms(1)]
  by (auto simp: otp_primitives_def [of c] otp_ecdh_agrees_def encrypt_seed_payload_def open_seed_def)

lemma session_agrees:
  assumes "otp_primitives c" "otp_ecdh_agrees c host dev"
  shows "\<exists>keys. establish_session c (new_host_agreement c host) (oc_public_xy c dev) = Ok keys \<and>
    derive_session_keys c dev (ha_public_xy (new_host_agreement c host)) = Ok keys"
  using assms by (auto simp: otp_primitives_def otp_ecdh_agrees_def establish_session_def new_host_agreement_def
    derive_session_keys_def Let_def)

lemma builder_errors:
  assumes "otp_primitives c"
  shows "build_set_pin_data c iv keys p retry = Err e \<longleftrightarrow> e = BadLength \<and> 255 < length p"
    and "build_change_pin_data c iv keys p current = Err e \<longleftrightarrow> e = BadLength \<and> 255 < length p"
    and "build_verify_pin_data c iv keys p rand = Err e \<longleftrightarrow> e = BadLength \<and> (rand = [] \<or> \<not> 16 dvd length rand)"
proof -
  note n = nopad_Ok(1) [OF assms pkcs7_pad16_blocks(2,1)] and h = nopad_Ok(1) [OF assms hash16(2,1) [OF assms]]
  show "build_set_pin_data c iv keys p retry = Err e \<longleftrightarrow> e = BadLength \<and> 255 < length p"
    by (auto simp: build_set_pin_data_def u8_len_def Let_def)
  show "build_change_pin_data c iv keys p current = Err e \<longleftrightarrow> e = BadLength \<and> 255 < length p"
    unfolding build_change_pin_data_def Let_def n h by (auto simp: u8_len_def)
  show "build_verify_pin_data c iv keys p rand = Err e \<longleftrightarrow> e = BadLength \<and> (rand = [] \<or> \<not> 16 dvd length rand)"
  proof (cases "rand = [] \<or> \<not> 16 dvd length rand")
    case True
    then show ?thesis
      by (auto simp: build_verify_pin_data_def verify_layers_def aes256_cbc_encrypt_nopad_def Let_def mod_eq_0_iff_dvd)
  next
    case False
    then have r: "rand \<noteq> []" "16 dvd length rand" by simp_all
    note b = cbc_blocks [OF assms r]
    have "16 dvd length (oc_cbc_encrypt c (oc_sha256 c p) (take 16 (oc_sha256 c rand)) rand)" using b(1) r(2) by simp
    from nopad_Ok(1) [OF assms r] nopad_Ok(1) [OF assms b(2) this] r show ?thesis
      by (simp add: build_verify_pin_data_def verify_layers_def Let_def)
  qed
qed

subsection \<open>Property\<close>

text \<open>C17: what the host seals, the key opens, and nothing else.  Both sides of an exchange derive the
  same session keys; the key recovers from every request the seed, the PIN with its retry budget, the
  entry, the new PIN with the hash of the current one, and the challenge it sent; a tag is accepted
  exactly when it is the tag of the data; and a PIN that the length byte cannot carry or a challenge
  that is not whole blocks is an error, never a different request.\<close>

theorem otp_session_understood:
  assumes "otp_primitives c" and "otp_ecdh_agrees c host dev" and "length iv = 16"
    and "length pin \<le> 255" and "length new \<le> 255" and "rand \<noteq> []" and "16 dvd length rand"
  shows "(\<exists>blob. encrypt_seed_payload c host (oc_public_xy c dev) entry iv = Ok blob \<and> open_seed c dev iv blob = Some entry)
   \<and> (\<exists>keys set change verify.
        establish_session c (new_host_agreement c host) (oc_public_xy c dev) = Ok keys
        \<and> derive_session_keys c dev (ha_public_xy (new_host_agreement c host)) = Ok keys
        \<and> build_set_pin_data c iv keys pin retry = Ok set
        \<and> open_block c keys set = Ok ([0x07, retry, word_of_nat (length pin)] @ pin)
        \<and> open_block c keys (build_protected_write_data c iv keys entry) = Ok entry
        \<and> build_change_pin_data c iv keys new pin = Ok change
        \<and> open_change c keys change = Ok ([0x07, 0x64, word_of_nat (length new)] @ new, take 16 (oc_sha256 c pin))
        \<and> build_verify_pin_data c iv keys pin rand = Ok verify \<and> open_verify c keys pin rand verify
        \<and> (verify_auth_tag c (sk_mac keys) d tag = Ok () \<longleftrightarrow> tag = session_auth_tag c (sk_mac keys) d)
        \<and> (build_set_pin_data c iv keys other retry = Err err \<longleftrightarrow> err = BadLength \<and> 255 < length other)
        \<and> (build_change_pin_data c iv keys other pin = Err err \<longleftrightarrow> err = BadLength \<and> 255 < length other)
        \<and> (build_verify_pin_data c iv keys pin other = Err err \<longleftrightarrow> err = BadLength \<and> (other = [] \<or> length other mod 16 \<noteq> 0)))"
proof (intro conjI)
  show "\<exists>blob. encrypt_seed_payload c host (oc_public_xy c dev) entry iv = Ok blob \<and> open_seed c dev iv blob = Some entry"
    using assms by (intro seed_opens)
  obtain keys where "establish_session c (new_host_agreement c host) (oc_public_xy c dev) = Ok keys"
    "derive_session_keys c dev (ha_public_xy (new_host_agreement c host)) = Ok keys"
    using session_agrees [OF assms(1,2)] by blast
  moreover note set_pin_opens [OF assms(1,3,4), of keys retry] change_opens [OF assms(1,3,5), of keys pin]
    verify_opens [OF assms(1,3,6,7), of keys pin]
  ultimately show "\<exists>keys set change verify.
        establish_session c (new_host_agreement c host) (oc_public_xy c dev) = Ok keys
        \<and> derive_session_keys c dev (ha_public_xy (new_host_agreement c host)) = Ok keys
        \<and> build_set_pin_data c iv keys pin retry = Ok set
        \<and> open_block c keys set = Ok ([0x07, retry, word_of_nat (length pin)] @ pin)
        \<and> open_block c keys (build_protected_write_data c iv keys entry) = Ok entry
        \<and> build_change_pin_data c iv keys new pin = Ok change
        \<and> open_change c keys change = Ok ([0x07, 0x64, word_of_nat (length new)] @ new, take 16 (oc_sha256 c pin))
        \<and> build_verify_pin_data c iv keys pin rand = Ok verify \<and> open_verify c keys pin rand verify
        \<and> (verify_auth_tag c (sk_mac keys) d tag = Ok () \<longleftrightarrow> tag = session_auth_tag c (sk_mac keys) d)
        \<and> (build_set_pin_data c iv keys other retry = Err err \<longleftrightarrow> err = BadLength \<and> 255 < length other)
        \<and> (build_change_pin_data c iv keys other pin = Err err \<longleftrightarrow> err = BadLength \<and> 255 < length other)
        \<and> (build_verify_pin_data c iv keys pin other = Err err \<longleftrightarrow> err = BadLength \<and> (other = [] \<or> length other mod 16 \<noteq> 0))"
    unfolding PIN_ALG_AES256_def PIN_DEFAULT_MAX_RETRY_def protected_write_opens [OF assms(1,3)]
      verify_auth_tag_iff [OF assms(1)] builder_errors [OF assms(1)] mod_eq_0_iff_dvd by blast
qed

text \<open>A small instance of the crates.\<close>

definition demo_otp_crypto :: "byte otp_crypto" where
  "demo_otp_crypto =
     \<lparr>oc_sha256 = (\<lambda>_. replicate 32 7), oc_hmac = (\<lambda>_ _. replicate 32 9),
      oc_cbc_encrypt = (\<lambda>_ _ p. p), oc_cbc_decrypt = (\<lambda>_ _ p. p),
      oc_encrypt_pkcs7 = (\<lambda>_ _ p. pkcs7_pad16 p),
      oc_decrypt_pkcs7 = (\<lambda>_ _ ct. if ct = [] then None else Some (take (length ct - unat (last ct)) ct)),
      oc_public_xy = (\<lambda>k. replicate 64 k),
      oc_ecdh = (\<lambda>k xy. Some (map (\<lambda>b. k + b) xy))\<rparr>"

lemma demo_otp_primitives: "otp_primitives demo_otp_crypto"
proof -
  have "unat (last (pkcs7_pad16 p)) = 16 - length p mod 16" for p
  proof -
    have "last (pkcs7_pad16 p) = word_of_nat (16 - length p mod 16)"
      by (simp only: pkcs7_pad16_def Let_def) (simp del: of_nat_diff)
    moreover have "16 - length p mod 16 < 2 ^ LENGTH(8)" by simp
    ultimately show ?thesis by (simp only: unsigned_of_nat take_bit_nat_eq_self of_nat_id)
  qed
  moreover have "length (pkcs7_pad16 p) - (16 - length p mod 16) = length p" for p
    by (simp add: pkcs7_pad16_def Let_def)
  moreover have "take (length p) (pkcs7_pad16 p) = p" for p by (simp add: pkcs7_pad16_def Let_def)
  ultimately show ?thesis
    using pkcs7_pad16_blocks(2) by (simp add: otp_primitives_def demo_otp_crypto_def)
qed

theorem otp_session_understood_witness:
  "\<exists>blob. encrypt_seed_payload demo_otp_crypto 3 (oc_public_xy demo_otp_crypto 5) [1, 2] IV_OTP = Ok blob
     \<and> open_seed demo_otp_crypto 5 IV_OTP blob = Some [1, 2]"
proof -
  have "otp_ecdh_agrees demo_otp_crypto 3 5" by (simp add: otp_ecdh_agrees_def demo_otp_crypto_def)
  from otp_session_understood [OF demo_otp_primitives this, of IV_OTP "[0x31]" "[]" "replicate 16 0" "[1, 2]"]
  show ?thesis by (simp add: IV_OTP_def)
qed

end
