(* ===== verification/Ber.thy ===== *)
theory Ber
  imports Prelude
begin

text \<open>
  \<^verbatim>\<open>crates/keyroost-p12/src/ber.rs\<close>: the BER reader of PKCS#12 files, with definite and
  indefinite lengths, a bound of 32 levels and constructed octet strings joined into one value.  The walk over an
  indefinite element is a \<^theory_text>\<open>partial_function\<close>, whose result \<open>None\<close> would be a loop that
  does not end; \<open>extent_some\<close> shows that it always ends.  The recursion over the nesting counts the levels
  left, \<open>32 - depth\<close>.
\<close>

datatype p12_error = Malformed string | WrongPassword | Unsupported string | NoKey | TooLarge

definition MAX_DEPTH :: nat where "MAX_DEPTH = 32"

definition bad :: "string \<Rightarrow> ('a, p12_error) result" where "bad what = Err (Malformed what)"

text \<open>A tag, the length unless it is indefinite, and the size of the header.\<close>

definition header :: "bytes \<Rightarrow> (byte \<times> nat option \<times> nat, p12_error) result" where
  "header input =
     (case input of
        [] \<Rightarrow> bad ''truncated element''
      | tag # rest1 \<Rightarrow>
          if tag AND 0x1F = 0x1F then bad ''multi-byte tags are not used''
          else (case rest1 of
            [] \<Rightarrow> bad ''truncated length''
          | first # _ \<Rightarrow>
              if first < 0x80 then Ok (tag, Some (unat first), 2)
              else
                (let n = unat (first AND 0x7F) in
                 if n = 0 then
                   (if tag AND 0x20 = 0 then bad ''indefinite length on a primitive element'' else Ok (tag, None, 2))
                 else if 8 < n then bad ''length too large''
                 else if length input < 2 + n then bad ''truncated length''
                 else Ok (tag, Some (fold (\<lambda>b len. push_bit 8 len OR unat b) (take n (drop 2 input)) 0), 2 + n))))"

record extent_rec =
  ex_tag :: byte
  ex_hlen :: nat
  ex_clen :: nat
  ex_total :: nat

partial_function (option) eoc_loop ::
    "(bytes \<Rightarrow> (extent_rec, p12_error) result option) \<Rightarrow> bytes \<Rightarrow> nat \<Rightarrow> (nat, p12_error) result option" where
  "eoc_loop sub body pos =
     (if length body < pos then Some (bad ''missing end of contents'')
      else if length (drop pos body) < 2 then Some (bad ''missing end of contents'')
      else if drop pos body ! 0 = 0 \<and> drop pos body ! 1 = 0 then Some (Ok pos)
      else Option.bind (sub (drop pos body)) (\<lambda>r. case r of
             Err e \<Rightarrow> Some (Err e)
           | Ok e \<Rightarrow> eoc_loop sub body (pos + ex_total e)))"

fun extent_within :: "nat \<Rightarrow> bytes \<Rightarrow> (extent_rec, p12_error) result option" where
  "extent_within 0 input = Some (bad ''nesting too deep'')"
| "extent_within (Suc levels) input =
     (case header input of
        Err e \<Rightarrow> Some (Err e)
      | Ok (tag, len, hlen) \<Rightarrow>
          if length input < hlen then Some (bad ''truncated element'')
          else
            (let body = drop hlen input in
             case len of
               Some clen \<Rightarrow>
                 if length body < clen then Some (bad ''length exceeds input'')
                 else Some (Ok \<lparr>ex_tag = tag, ex_hlen = hlen, ex_clen = clen, ex_total = hlen + clen\<rparr>)
             | None \<Rightarrow>
                 Option.bind (eoc_loop (extent_within levels) body 0) (\<lambda>r. case r of
                   Err e \<Rightarrow> Some (Err e)
                 | Ok pos \<Rightarrow> Some (Ok \<lparr>ex_tag = tag, ex_hlen = hlen, ex_clen = pos, ex_total = hlen + pos + 2\<rparr>))))"

definition extent :: "bytes \<Rightarrow> nat \<Rightarrow> (extent_rec, p12_error) result option" where
  "extent input depth = extent_within (MAX_DEPTH - depth) input"

subsection \<open>The walk ends and stays inside the input\<close>

definition fits_input :: "bytes \<Rightarrow> extent_rec \<Rightarrow> bool" where
  "fits_input input e \<longleftrightarrow> 2 \<le> ex_hlen e \<and> ex_hlen e + ex_clen e \<le> ex_total e \<and> ex_total e \<le> length input"

lemma header_len: "header input = Ok (tag, len, hlen) \<Longrightarrow> 2 \<le> hlen \<and> hlen \<le> length input"
  by (auto simp: header_def bad_def Let_def split: list.splits if_splits)

lemma eoc_loop_total:
  assumes "\<And>here. sub here \<noteq> None" "\<And>here e. sub here = Some (Ok e) \<Longrightarrow> fits_input here e"
  shows "\<exists>r. eoc_loop sub body pos = Some r \<and> (\<forall>p. r = Ok p \<longrightarrow> pos \<le> p \<and> p + 2 \<le> length body)"
proof (induction "length body - pos" arbitrary: pos rule: less_induct)
  case less
  show ?case
  proof (cases "length body < pos \<or> length (drop pos body) < 2 \<or> (drop pos body ! 0 = 0 \<and> drop pos body ! 1 = 0)")
    case True
    then show ?thesis by (subst eoc_loop.simps) (auto simp: bad_def)
  next
    case False
    obtain r where r: "sub (drop pos body) = Some r" using assms(1) by blast
    show ?thesis
    proof (cases r)
      case (Err e)
      with False r show ?thesis by (subst eoc_loop.simps) auto
    next
      case (Ok e)
      with r have f: "fits_input (drop pos body) e" using assms(2) by blast
      then have adv: "0 < ex_total e" "pos + ex_total e \<le> length body" using False by (auto simp: fits_input_def)
      then have "length body - (pos + ex_total e) < length body - pos" by simp
      from less.hyps [OF this] False r Ok adv show ?thesis by (subst eoc_loop.simps) (auto intro: order_trans)
    qed
  qed
qed

lemma extent_within_total: "\<exists>r. extent_within levels input = Some r \<and> (\<forall>e. r = Ok e \<longrightarrow> fits_input input e)"
proof (induction levels arbitrary: input)
  case 0
  then show ?case by (simp add: bad_def)
next
  case (Suc levels)
  show ?case
  proof (cases "header input")
    case (Err e)
    then show ?thesis by simp
  next
    case (Ok h)
    obtain tag len hlen where h: "h = (tag, len, hlen)" by (cases h) auto
    note hl = header_len [OF Ok [unfolded h]]
    have sub: "extent_within levels here \<noteq> None" "extent_within levels here = Some (Ok e) \<Longrightarrow> fits_input here e" for here e
      using Suc [of here] by auto
    obtain r where r: "eoc_loop (extent_within levels) (drop hlen input) 0 = Some r"
      "\<And>p. r = Ok p \<Longrightarrow> p + 2 \<le> length (drop hlen input)"
      using eoc_loop_total [of "extent_within levels" "drop hlen input" 0] sub by blast
    show ?thesis
      using Ok h hl r by (cases len; cases r) (auto simp: bad_def fits_input_def Let_def)
  qed
qed

lemma extent_some: "\<exists>r. extent input depth = Some r"
  using extent_within_total by (metis extent_def)

lemma extent_fits: "extent input depth = Some (Ok e) \<Longrightarrow> fits_input input e"
  using extent_within_total by (metis extent_def option.inject)


subsection \<open>Reading elements\<close>

record ber_tlv =
  bt_tag :: byte
  bt_constructed :: bool
  bt_value :: bytes

text \<open>Join the segments of a constructed octet string; \<open>flatten_octets\<close> recurses into nested ones.\<close>

function flatten_octets :: "bytes \<Rightarrow> nat \<Rightarrow> bytes \<Rightarrow> (bytes, p12_error) result option" where
  "flatten_octets content depth out =
     (if content = [] then Some (Ok out)
      else (case extent content (depth + 1) of
          None \<Rightarrow> None
        | Some (Err e) \<Rightarrow> Some (Err e)
        | Some (Ok e) \<Rightarrow>
            if length content < ex_hlen e + ex_clen e then Some (bad ''truncated element'')
            else
              (let seg = take (ex_clen e) (drop (ex_hlen e) content) in
               if length content < ex_total e then Some (bad ''truncated element'')
               else if ex_tag e = 0x04 then flatten_octets (drop (ex_total e) content) depth (out @ seg)
               else if ex_tag e = 0x24 then
                 (case flatten_octets seg (depth + 1) out of
                    None \<Rightarrow> None
                  | Some (Err e) \<Rightarrow> Some (Err e)
                  | Some (Ok out) \<Rightarrow> flatten_octets (drop (ex_total e) content) depth out)
               else Some (bad ''unexpected element inside an octet string''))))"
  by pat_completeness auto
termination
proof (relation "measure (\<lambda>(content, _, _). length content)", goal_cases)
  case 1
  then show ?case by simp
next
  case (2 content depth out r e seg)
  with extent_fits [of content "depth + 1" e] show ?case by (auto simp: fits_input_def)
next
  case (3 content depth out r e seg)
  with extent_fits [of content "depth + 1" e] show ?case by (auto simp: fits_input_def)
next
  case (4 content depth out r e seg r' out')
  with extent_fits [of content "depth + 1" e] show ?case by (auto simp: fits_input_def)
qed

declare flatten_octets.simps [simp del]

definition read_at :: "bytes \<Rightarrow> nat \<Rightarrow> (ber_tlv \<times> bytes, p12_error) result option" where
  "read_at input depth =
     (case extent input depth of
        None \<Rightarrow> None
      | Some (Err e) \<Rightarrow> Some (Err e)
      | Some (Ok e) \<Rightarrow>
          if length input < ex_hlen e + ex_clen e then Some (bad ''truncated element'')
          else if length input < ex_total e then Some (bad ''truncated element'')
          else
            (let content = take (ex_clen e) (drop (ex_hlen e) input);
                 rest = drop (ex_total e) input;
                 value = (if ex_tag e = 0x24 then flatten_octets content depth [] else Some (Ok content))
             in case value of
                  None \<Rightarrow> None
                | Some (Err e) \<Rightarrow> Some (Err e)
                | Some (Ok v) \<Rightarrow> Some (Ok (\<lparr>bt_tag = ex_tag e, bt_constructed = (ex_tag e AND 0x20 \<noteq> 0), bt_value = v\<rparr>, rest))))"

definition read_tlv :: "bytes \<Rightarrow> (ber_tlv \<times> bytes, p12_error) result option" where
  "read_tlv input = read_at input 0"

lemma read_tlv_extent:
  assumes "read_tlv input = Some (Ok (t, rest))"
  obtains e where "extent input 0 = Some (Ok e)" "fits_input input e" "rest = drop (ex_total e) input" "bt_tag t = ex_tag e"
    "ex_tag e \<noteq> 0x24 \<Longrightarrow> bt_value t = take (ex_clen e) (drop (ex_hlen e) input)"
proof -
  from assms obtain e where e: "extent input 0 = Some (Ok e)" "rest = drop (ex_total e) input" "bt_tag t = ex_tag e"
    "ex_tag e \<noteq> 0x24 \<Longrightarrow> bt_value t = take (ex_clen e) (drop (ex_hlen e) input)"
    by (auto simp: read_tlv_def read_at_def Let_def bad_def split: option.splits result.splits if_splits)
  then show thesis using that extent_fits [OF e(1)] by blast
qed

lemma read_tlv_consumes: "read_tlv input = Some (Ok (t, rest)) \<Longrightarrow> \<exists>n. 2 \<le> n \<and> n \<le> length input \<and> rest = drop n input"
proof (erule read_tlv_extent)
  fix e assume "fits_input input e" "rest = drop (ex_total e) input"
  then show "\<exists>n. 2 \<le> n \<and> n \<le> length input \<and> rest = drop n input"
    by (intro exI [of _ "ex_total e"]) (auto simp: fits_input_def)
qed

function children :: "bytes \<Rightarrow> (ber_tlv list, p12_error) result option" where
  "children rest =
     (if rest = [] then Some (Ok [])
      else (case read_tlv rest of
          None \<Rightarrow> None
        | Some (Err e) \<Rightarrow> Some (Err e)
        | Some (Ok (tlv, next)) \<Rightarrow>
            (case children next of
               None \<Rightarrow> None
             | Some (Err e) \<Rightarrow> Some (Err e)
             | Some (Ok out) \<Rightarrow> Some (Ok (tlv # out)))))"
  by pat_completeness auto
termination
proof (relation "measure length", goal_cases)
  case 1
  then show ?case by simp
next
  case (2 rest r p tlv u)
  then have "read_tlv rest = Some (Ok (tlv, u))" by simp
  from read_tlv_consumes [OF this] 2(1) show ?case by auto
qed

declare children.simps [simp del]

lemma flatten_returns [simp]: "flatten_octets content depth out \<noteq> None"
proof (induction content depth out rule: flatten_octets.induct)
  case (1 content depth out)
  obtain r where r: "extent content (depth + 1) = Some r" using extent_some by blast
  show ?case
  proof (cases "content = []")
    case False
    show ?thesis
    proof (cases r)
      case (Err e)
      with False r show ?thesis by (subst flatten_octets.simps) simp
    next
      case (Ok e)
      have f: "\<not> length content < ex_hlen e + ex_clen e" "\<not> length content < ex_total e"
        using extent_fits [OF r [unfolded Ok]] by (auto simp: fits_input_def)
      note IH = "1.IH" [OF False r Ok f(1) refl f(2)]
      show ?thesis
        using False r Ok f IH by (subst flatten_octets.simps) (auto simp: Let_def split: option.split result.split)
    qed
  qed (subst flatten_octets.simps, simp)
qed

lemma read_at_returns [simp]: "read_at input depth \<noteq> None"
proof -
  obtain r where r: "extent input depth = Some r" using extent_some by blast
  show ?thesis
    by (cases r) (auto simp: read_at_def r Let_def split: option.split result.split)
qed

lemma children_returns [simp]: "children rest \<noteq> None"
proof (induction rest rule: children.induct)
  case (1 rest)
  obtain r where r: "read_tlv rest = Some r" using read_at_returns unfolding read_tlv_def by blast
  show ?case
  proof (cases "rest = []")
    case False
    show ?thesis
    proof (cases r)
      case (Ok p)
      obtain t u where p: "(t, u) = p" by (cases p) auto
      from p [symmetric] False r Ok "1.IH" [OF False r Ok p] show ?thesis
        by (subst children.simps) (auto split: option.split result.split)
    qed (use False r in \<open>subst children.simps, simp\<close>)
  qed (subst children.simps, simp)
qed

subsection \<open>Reading back what was written\<close>

text \<open>A length field: one byte, or \<open>n\<close> big-endian bytes behind their count, leading zeros allowed.\<close>

definition ber_length :: "nat \<Rightarrow> nat \<Rightarrow> bytes" where
  "ber_length n len = (if n = 0 then [word_of_nat len] else word_of_nat (128 + n) # be_bytes n len)"

definition length_ok :: "nat \<Rightarrow> nat \<Rightarrow> bool" where
  "length_ok n len \<longleftrightarrow> (if n = 0 then len < 128 else n \<le> 8 \<and> len < 256 ^ n)"

definition ber_elem :: "byte \<Rightarrow> nat \<Rightarrow> bytes \<Rightarrow> bytes" where
  "ber_elem tag n v = tag # ber_length n (length v) @ v"

lemma fold_from_be: "fold (\<lambda>b len. push_bit 8 len OR unat b) bs acc = acc * 256 ^ length bs + from_be bs"
proof (induction bs arbitrary: acc)
  case (Cons b bs)
  have "push_bit 8 acc OR unat b = acc * 256 + unat b" using push_or_add [of "unat b" 8 acc] by simp
  then show ?case using Cons by (simp add: algebra_simps)
qed simp

lemma header_elem:
  assumes "tag AND 0x1F \<noteq> 0x1F" "length_ok n (length v)"
  shows "header (ber_elem tag n v @ rest) = Ok (tag, Some (length v), 1 + length (ber_length n (length v)))"
proof (cases "n = 0")
  case True
  then have l: "length v < 128" using assms(2) by (simp add: length_ok_def)
  then have u: "unat (word_of_nat (length v) :: byte) = length v" by simp
  then have "(word_of_nat (length v) :: byte) < 0x80" using l by (simp add: word_less_nat_alt)
  with True u assms(1) show ?thesis by (simp add: header_def ber_elem_def ber_length_def)
next
  case False
  then have n: "n \<le> 8" "length v < 256 ^ n" using assms(2) by (simp_all add: length_ok_def)
  let ?f = "word_of_nat (128 + n) :: byte"
  have u: "unat ?f = 128 + n" using n(1) unat_byte_of_nat [of "128 + n"] by simp
  then have ge: "\<not> ?f < 0x80" by (simp add: word_less_nat_alt del: of_nat_add)
  have "unat (?f AND 0x7F) = (128 + n) mod 128"
    using unat_drop_mask [of 0 ?f 7] u by (simp add: mask_eq_exp_minus_1 del: of_nat_add)
  then have m: "unat (?f AND 0x7F) = n" using n(1) by simp
  have "fold (\<lambda>b len. push_bit 8 len OR unat b) (be_bytes n (length v)) 0 = length v"
    using n(2) by (simp add: fold_from_be from_be_be_bytes)
  with False n(1) ge m assms(1) show ?thesis
    by (simp add: header_def ber_elem_def ber_length_def Let_def del: of_nat_add)
qed

lemma extent_elem:
  assumes "tag AND 0x1F \<noteq> 0x1F" "length_ok n (length v)"
  shows "extent_within (Suc levels) (ber_elem tag n v @ rest) =
    Some (Ok \<lparr>ex_tag = tag, ex_hlen = 1 + length (ber_length n (length v)), ex_clen = length v,
              ex_total = length (ber_elem tag n v)\<rparr>)"
  using header_elem [OF assms, of rest] by (simp add: ber_elem_def)

lemma elem_content: "take (length v) (drop (1 + length (ber_length n (length v))) (ber_elem tag n v @ rest)) = v"
  by (simp add: ber_elem_def)

lemma read_elem:
  assumes "tag AND 0x1F \<noteq> 0x1F" "length_ok n (length v)" "tag \<noteq> 0x24"
  shows "read_tlv (ber_elem tag n v @ rest)
    = Some (Ok (\<lparr>bt_tag = tag, bt_constructed = (tag AND 0x20 \<noteq> 0), bt_value = v\<rparr>, rest))"
proof -
  have "extent (ber_elem tag n v @ rest) 0 = Some (Ok \<lparr>ex_tag = tag, ex_hlen = 1 + length (ber_length n (length v)),
      ex_clen = length v, ex_total = length (ber_elem tag n v)\<rparr>)"
    using extent_elem [OF assms(1,2), of 31 rest] by (simp add: extent_def MAX_DEPTH_def del: extent_within.simps)
  moreover have "length (ber_elem tag n v) = 1 + length (ber_length n (length v)) + length v" by (simp add: ber_elem_def)
  ultimately show ?thesis
    using elem_content [of v n tag rest] assms(3) by (simp add: read_tlv_def read_at_def Let_def)
qed

text \<open>The segments of a constructed octet string, behind an indefinite length.\<close>

definition segs_ok :: "(nat \<times> bytes) list \<Rightarrow> bool" where
  "segs_ok segs \<longleftrightarrow> list_all (\<lambda>(n, v). length_ok n (length v)) segs"

definition seg_bytes :: "(nat \<times> bytes) list \<Rightarrow> bytes" where
  "seg_bytes segs = concat (map (\<lambda>(n, v). ber_elem 0x04 n v) segs)"

lemma eoc_loop_segs:
  "segs_ok segs \<Longrightarrow> eoc_loop (extent_within (Suc levels)) (pre @ seg_bytes segs @ [0, 0] @ rest) (length pre)
     = Some (Ok (length pre + length (seg_bytes segs)))"
proof (induction segs arbitrary: pre)
  case Nil
  then show ?case by (subst eoc_loop.simps) (simp add: seg_bytes_def)
next
  case (Cons s segs)
  obtain n v where s: "s = (n, v)" by (cases s) auto
  have ok: "length_ok n (length v)" "segs_ok segs" using Cons.prems by (auto simp: segs_ok_def s)
  let ?tail = "seg_bytes segs @ [0, 0] @ rest"
  have sb: "seg_bytes (s # segs) = ber_elem 0x04 n v @ seg_bytes segs" by (simp add: seg_bytes_def s)
  have nz: "(ber_elem 0x04 n v @ ?tail) ! 0 \<noteq> 0" by (simp add: ber_elem_def)
  have sub: "extent_within (Suc levels) (ber_elem 0x04 n v @ ?tail) = Some (Ok \<lparr>ex_tag = 0x04,
      ex_hlen = 1 + length (ber_length n (length v)), ex_clen = length v, ex_total = length (ber_elem 0x04 n v)\<rparr>)"
    by (rule extent_elem) (use ok in simp_all)
  have "eoc_loop (extent_within (Suc levels)) (pre @ seg_bytes (s # segs) @ [0, 0] @ rest) (length pre)
      = eoc_loop (extent_within (Suc levels)) ((pre @ ber_elem 0x04 n v) @ ?tail) (length (pre @ ber_elem 0x04 n v))"
    unfolding sb by (subst eoc_loop.simps) (use nz sub in \<open>simp del: extent_within.simps\<close>)
  also have "\<dots> = Some (Ok (length (pre @ ber_elem 0x04 n v) + length (seg_bytes segs)))"
    by (rule Cons.IH [OF ok(2)])
  finally show ?case by (simp add: sb del: extent_within.simps)
qed

lemma flatten_segs:
  "segs_ok segs \<Longrightarrow> depth < 31 \<Longrightarrow> flatten_octets (seg_bytes segs) depth out = Some (Ok (out @ concat (map snd segs)))"
proof (induction segs arbitrary: out)
  case Nil
  then show ?case by (subst flatten_octets.simps) (simp add: seg_bytes_def)
next
  case (Cons s segs)
  obtain n v where s: "s = (n, v)" by (cases s) auto
  have ok: "length_ok n (length v)" "segs_ok segs" using Cons.prems(1) by (auto simp: segs_ok_def s)
  obtain k where k: "MAX_DEPTH - (depth + 1) = Suc k" using Cons.prems(2) by (cases "MAX_DEPTH - (depth + 1)") (auto simp: MAX_DEPTH_def)
  have b: "seg_bytes (s # segs) = ber_elem 0x04 n v @ seg_bytes segs" by (simp add: seg_bytes_def s)
  have ne: "ber_elem 0x04 n v \<noteq> []" by (simp add: ber_elem_def)
  have e: "extent (ber_elem 0x04 n v @ seg_bytes segs) (depth + 1) = Some (Ok \<lparr>ex_tag = 0x04,
      ex_hlen = 1 + length (ber_length n (length v)), ex_clen = length v, ex_total = length (ber_elem 0x04 n v)\<rparr>)"
    unfolding extent_def k by (rule extent_elem) (use ok in simp_all)
  have "length (ber_elem 0x04 n v) = 1 + length (ber_length n (length v)) + length v" by (simp add: ber_elem_def)
  then have "flatten_octets (seg_bytes (s # segs)) depth out = flatten_octets (seg_bytes segs) depth (out @ v)"
    using ne e elem_content [of v n "0x04" "seg_bytes segs"] unfolding b
    by (subst flatten_octets.simps) (simp add: Let_def)
  also have "\<dots> = Some (Ok ((out @ v) @ concat (map snd segs)))" by (rule Cons.IH [OF ok(2) Cons.prems(2)])
  finally show ?case by (simp add: s)
qed


lemma read_constructed:
  assumes "segs_ok segs"
  shows "read_tlv ([0x24, 0x80] @ seg_bytes segs @ [0, 0] @ rest)
    = Some (Ok (\<lparr>bt_tag = 0x24, bt_constructed = True, bt_value = concat (map snd segs)\<rparr>, rest))"
proof -
  let ?in = "[0x24, 0x80] @ seg_bytes segs @ [0, 0] @ rest"
  have "header ?in = Ok (0x24, None, 2)" by (simp add: header_def)
  moreover have "eoc_loop (extent_within (Suc 30)) (seg_bytes segs @ [0, 0] @ rest) 0 = Some (Ok (length (seg_bytes segs)))"
    using eoc_loop_segs [OF assms, of 30 "[]" rest] by simp
  ultimately have "extent_within (Suc (Suc 30)) ?in = Some (Ok \<lparr>ex_tag = 0x24, ex_hlen = 2,
      ex_clen = length (seg_bytes segs), ex_total = 2 + length (seg_bytes segs) + 2\<rparr>)"
    by (subst extent_within.simps) (simp del: extent_within.simps)
  then have "extent ?in 0 = Some (Ok \<lparr>ex_tag = 0x24, ex_hlen = 2,
      ex_clen = length (seg_bytes segs), ex_total = 2 + length (seg_bytes segs) + 2\<rparr>)"
    by (simp add: extent_def MAX_DEPTH_def del: extent_within.simps)
  then show ?thesis
    using flatten_segs [OF assms, of 0 "[]"] by (simp add: read_tlv_def read_at_def Let_def)
qed

subsection \<open>Properties\<close>

text \<open>C40: the BER reader.  Reading and splitting end on every input; an element read off the front occupies
  at least two bytes of the input and the rest is what follows it; a definite-length element is read back with either
  length form, and the segments of a constructed octet string of indefinite length are read as one value.\<close>

theorem ber_reader:
  assumes "tag AND 0x1F \<noteq> 0x1F" "length_ok n (length v)" "tag \<noteq> 0x24" "segs_ok segs"
    and "read_tlv input = Some (Ok (t, r))"
  shows "read_at any depth \<noteq> None \<and> children any \<noteq> None
    \<and> (\<exists>k. 2 \<le> k \<and> k \<le> length input \<and> r = drop k input)
    \<and> read_tlv (ber_elem tag n v @ rest)
      = Some (Ok (\<lparr>bt_tag = tag, bt_constructed = (tag AND 0x20 \<noteq> 0), bt_value = v\<rparr>, rest))
    \<and> read_tlv ([0x24, 0x80] @ seg_bytes segs @ [0, 0] @ rest)
      = Some (Ok (\<lparr>bt_tag = 0x24, bt_constructed = True, bt_value = concat (map snd segs)\<rparr>, rest))"
  using read_elem [OF assms(1-3)] read_constructed [OF assms(4)] read_tlv_consumes [OF assms(5)] by simp

theorem ber_reader_witness:
  "read_tlv [0x24, 0x80, 4, 2, 1, 2, 4, 0x81, 1, 3, 0, 0, 9]
    = Some (Ok (\<lparr>bt_tag = 0x24, bt_constructed = True, bt_value = [1, 2, 3]\<rparr>, [9]))"
proof -
  have ok: "segs_ok [(0, [1, 2]), (1, [3])]" "length_ok 0 (length [7 :: byte])" by (simp_all add: segs_ok_def length_ok_def)
  have "read_tlv (ber_elem 4 0 [7] @ []) = Some (Ok (\<lparr>bt_tag = 4, bt_constructed = False, bt_value = [7]\<rparr>, []))"
    by (subst read_elem) (simp_all add: length_ok_def)
  from ber_reader [OF _ ok(2) _ ok(1) this, of 4 "[]" 0 "[9]"]
  show ?thesis by (simp add: seg_bytes_def ber_elem_def ber_length_def)
qed

end
