(* ===== verification/Ctap_Auth.thy ===== *)
theory Ctap_Auth
  imports Client_Pin
begin

text \<open>
  The requests of \<^verbatim>\<open>crates/keyroost-ctap/src/cred_mgmt.rs\<close>, \<^verbatim>\<open>config.rs\<close> and
  \<^verbatim>\<open>bio_enroll.rs\<close> that carry a \<^verbatim>\<open>pinUvAuthParam\<close>.  The three commands authenticate a sub-command
  and its parameters behind a prefix of their own; the locale states what that gives them.
\<close>

definition unwrap_or :: "'a \<Rightarrow> 'a option \<Rightarrow> 'a" where
  "unwrap_or d x = (case x of Some y \<Rightarrow> y | None \<Rightarrow> d)"

definition field_uint :: "cbor_value \<Rightarrow> u64 \<Rightarrow> u64 option" where
  "field_uint v key = Option.bind (get_uint_key v key) as_uint"

definition decode_response :: "bytes \<Rightarrow> (cbor_value, ctap_error) result" where
  "decode_response resp =
     bind_result (split_status resp) (\<lambda>(status, body).
       if status \<noteq> 0 then Err (StatusCode status)
       else if body = [] then Ok (Map [])
       else decode_value body)"

definition params_bytes :: "cbor_value option \<Rightarrow> bytes" where
  "params_bytes params = (case params of None \<Rightarrow> [] | Some p \<Rightarrow> encode p)"

definition params_entry :: "u64 \<Rightarrow> cbor_value option \<Rightarrow> (cbor_value \<times> cbor_value) list" where
  "params_entry key params = (case params of None \<Rightarrow> [] | Some p \<Rightarrow> [(UInt key, p)])"

text \<open>Parameters as the commands send them: a map that fits behind a key of the request.\<close>

definition sendable :: "cbor_value option \<Rightarrow> bool" where
  "sendable params \<longleftrightarrow> (case params of None \<Rightarrow> True | Some p \<Rightarrow> fits 1 p \<and> as_map p \<noteq> None)"

lemma fits_mono: "fits d v \<Longrightarrow> e \<le> d \<Longrightarrow> fits e v"
  by (induction d v arbitrary: e rule: fits.induct) (auto simp: list_all_iff)

lemma fits_0: "fits 1 v \<Longrightarrow> fits 0 v"
  by (rule fits_mono) simp_all

lemma params_bytes_inj:
  assumes "sendable p" and "sendable q" and "params_bytes p = params_bytes q"
  shows "p = q"
proof -
  have "x = y" if "fits 1 x" "fits 1 y" "encode x = encode y" for x y
    using decode_encode [OF fits_0 [OF that(1)], of "[]"] decode_encode [OF fits_0 [OF that(2)], of "[]"] that(3) by simp
  moreover have "encode x \<noteq> []" "[] \<noteq> encode x" for x using encode_pos [of x] by auto
  ultimately show ?thesis
    using assms by (auto simp: sendable_def params_bytes_def split: option.splits)
qed

text \<open>The first byte of the parameters is at least \<open>0xa0\<close>.\<close>

lemma params_bytes_map:
  assumes "sendable (Some p)"
  shows "\<exists>b r. params_bytes (Some p) = b # r \<and> 0xa0 \<le> b"
proof -
  obtain m where m: "p = Map m" using assms by (cases p) (auto simp: sendable_def)
  obtain b tail where b: "encode_header MT_MAP (word_of_nat (length m)) = b # tail" "drop_bit 5 b = MT_MAP"
    by (rule encode_header_read [of MT_MAP "word_of_nat (length m)"]) (auto simp: word_less_nat_alt)
  from b(2) have "unat b div 32 = 5"
    by (simp add: word_unat_eq_iff unat_drop_bit_eq drop_bit_eq_div unat_div)
  then have "0xa0 \<le> b" unfolding word_le_nat_alt by simp
  with b(1) show ?thesis by (simp add: m params_bytes_def)
qed

text \<open>Reading and measuring the entries of a request.\<close>

lemma find_params_entry:
  "find_uint_key k (params_entry b ps @ m) =
     (if k = b then (case ps of None \<Rightarrow> find_uint_key k m | Some p \<Rightarrow> Some p) else find_uint_key k m)"
  by (auto simp: params_entry_def split: option.splits)

lemma length_params_entry: "length (params_entry b ps) = (if ps = None then 0 else 1)"
  by (auto simp: params_entry_def split: option.splits)

lemma fits_params_entry: "sendable ps \<Longrightarrow> list_all (\<lambda>(k, v). fits (Suc 0) k \<and> fits (Suc 0) v) (params_entry b ps)"
  by (auto simp: params_entry_def sendable_def DECODE_DEPTH_LIMIT_def split: option.splits)

lemmas request_simps = field_uint_def get_uint_key_def find_params_entry length_params_entry fits_params_entry
  DECODE_DEPTH_LIMIT_def option.case_eq_if

locale authenticated =
  fixes auth_input :: "byte \<Rightarrow> cbor_value option \<Rightarrow> bytes"
    and prefix :: bytes
    and request :: "byte \<Rightarrow> cbor_value option \<Rightarrow> bytes \<Rightarrow> cbor_value"
    and sub_key params_key auth_key :: u64
  assumes input: "auth_input sub params = prefix @ sub # params_bytes params"
    and request_fits: "sendable params \<Longrightarrow> length tag < 2 ^ 64 \<Longrightarrow> fits 0 (request sub params tag)"
    and request_sub: "field_uint (request sub params tag) sub_key = Some (ucast sub)"
    and request_params: "get_uint_key (request sub params tag) params_key = params"
    and request_auth: "get_uint_key (request sub params tag) auth_key = Some (Bytes tag)"
begin

text \<open>One authentication never serves two sub-commands or two sets of parameters.\<close>

lemma input_inj:
  assumes "sendable p" and "sendable q" and "auth_input a p = auth_input b q"
  shows "a = b \<and> p = q"
  using assms params_bytes_inj [of p q] by (simp add: input)

text \<open>A key finds in the request what it has to check: the sub-command and the parameters that were
  authenticated, and the authentication.\<close>

lemma request_read:
  assumes "sendable params" and "length tag < 2 ^ 64"
  shows "\<exists>v. decode (encode (request sub params tag)) = Ok (v, [])
    \<and> field_uint v sub_key = Some (ucast sub) \<and> get_uint_key v params_key = params
    \<and> get_uint_key v auth_key = Some (Bytes tag)"
  using decode_encode [OF request_fits [OF assms], of sub "[]"] request_sub request_params request_auth by auto

end

end
