(* ===== verification/Cred_Mgmt.thy ===== *)
theory Cred_Mgmt
  imports Ctap_Auth
begin

text \<open>
  \<^verbatim>\<open>crates/keyroost-ctap/src/cred_mgmt.rs\<close>: listing and deleting the resident credentials of a
  key.  The two enumerations of the code run the same loop, which is written once; the wiping of key
  material has no functional effect.
\<close>

definition CTAP2_CREDENTIAL_MANAGEMENT :: byte where "CTAP2_CREDENTIAL_MANAGEMENT = 0x0A"
definition CTAP2_CREDENTIAL_MANAGEMENT_PREVIEW :: byte where "CTAP2_CREDENTIAL_MANAGEMENT_PREVIEW = 0x41"

definition CM_SUB_COMMAND :: u64 where "CM_SUB_COMMAND = 0x01"
definition CM_SUB_COMMAND_PARAMS :: u64 where "CM_SUB_COMMAND_PARAMS = 0x02"
definition CM_PIN_UV_AUTH_PROTOCOL :: u64 where "CM_PIN_UV_AUTH_PROTOCOL = 0x03"
definition CM_PIN_UV_AUTH_PARAM :: u64 where "CM_PIN_UV_AUTH_PARAM = 0x04"

definition SUB_GET_CREDS_METADATA :: byte where "SUB_GET_CREDS_METADATA = 0x01"
definition SUB_ENUMERATE_RPS_BEGIN :: byte where "SUB_ENUMERATE_RPS_BEGIN = 0x02"
definition SUB_ENUMERATE_RPS_NEXT :: byte where "SUB_ENUMERATE_RPS_NEXT = 0x03"
definition SUB_ENUMERATE_CREDS_BEGIN :: byte where "SUB_ENUMERATE_CREDS_BEGIN = 0x04"
definition SUB_ENUMERATE_CREDS_NEXT :: byte where "SUB_ENUMERATE_CREDS_NEXT = 0x05"
definition SUB_DELETE_CREDENTIAL :: byte where "SUB_DELETE_CREDENTIAL = 0x06"
definition CTAP2_ERR_NO_CREDENTIALS :: byte where "CTAP2_ERR_NO_CREDENTIALS = 0x2E"

definition PARAM_RP_ID_HASH :: u64 where "PARAM_RP_ID_HASH = 0x01"
definition PARAM_CREDENTIAL_ID :: u64 where "PARAM_CREDENTIAL_ID = 0x02"
definition RESP_EXISTING_COUNT :: u64 where "RESP_EXISTING_COUNT = 0x01"
definition RESP_MAX_REMAINING :: u64 where "RESP_MAX_REMAINING = 0x02"
definition RESP_RP :: u64 where "RESP_RP = 0x03"
definition RESP_RP_ID_HASH :: u64 where "RESP_RP_ID_HASH = 0x04"
definition RESP_TOTAL_RPS :: u64 where "RESP_TOTAL_RPS = 0x05"
definition RESP_USER :: u64 where "RESP_USER = 0x06"
definition RESP_CREDENTIAL_ID :: u64 where "RESP_CREDENTIAL_ID = 0x07"
definition RESP_PUBLIC_KEY :: u64 where "RESP_PUBLIC_KEY = 0x08"
definition RESP_TOTAL_CREDS :: u64 where "RESP_TOTAL_CREDS = 0x09"
definition RESP_LARGE_BLOB_KEY :: u64 where "RESP_LARGE_BLOB_KEY = 0x0B"

definition MAX_ENUMERATED :: nat where "MAX_ENUMERATED = 4096"

definition checked_total :: "nat \<Rightarrow> (nat, ctap_error) result" where
  "checked_total claimed =
     (if MAX_ENUMERATED < claimed
      then Err (InvalidResponseShape ''authenticator claimed an implausible enumeration count'')
      else Ok claimed)"

record creds_metadata =
  md_existing_count :: u64
  md_max_remaining :: u64

record relying_party =
  rp_id :: bytes
  rp_name :: "bytes option"
  rp_id_hash :: "bytes option"

record credential_user =
  cu_id :: bytes
  cu_name :: "bytes option"
  cu_display_name :: "bytes option"

text \<open>The algorithm is the 64 bits of an \<^verbatim>\<open>i64\<close>.\<close>

record credential =
  cd_credential_id :: bytes
  cd_user :: credential_user
  cd_algorithm :: "u64 option"
  cd_large_blob_key :: "bytes option"

subsection \<open>Responses\<close>

definition bytes_32 :: "bytes \<Rightarrow> bytes option" where
  "bytes_32 b = (if length b = 32 then Some b else None)"

fun rp_field :: "bytes \<times> bytes option \<Rightarrow> cbor_value \<times> cbor_value \<Rightarrow> bytes \<times> bytes option" where
  "rp_field (i, n) (k, val) =
     (if as_text k = Some (ascii ''id'') then (unwrap_or [] (as_text val), n)
      else if as_text k = Some (ascii ''name'') then (i, as_text val)
      else (i, n))"

definition map_entries :: "cbor_value \<Rightarrow> (cbor_value \<times> cbor_value) list" where
  "map_entries v = unwrap_or [] (as_map v)"

definition parse_rp :: "cbor_value \<Rightarrow> (relying_party, ctap_error) result" where
  "parse_rp v =
     bind_result (ok_or (InvalidResponseShape ''missing RP entity'') (get_uint_key v RESP_RP)) (\<lambda>rp_entity.
       let hash = Option.bind (Option.bind (get_uint_key v RESP_RP_ID_HASH) as_bytes) bytes_32;
           (i, n) = foldl rp_field ([], None) (map_entries rp_entity)
       in Ok \<lparr>rp_id = i, rp_name = n, rp_id_hash = hash\<rparr>)"

fun user_field :: "credential_user \<Rightarrow> cbor_value \<times> cbor_value \<Rightarrow> credential_user" where
  "user_field u (k, val) =
     (if as_text k = Some (ascii ''id'') then u\<lparr>cu_id := unwrap_or [] (as_bytes val)\<rparr>
      else if as_text k = Some (ascii ''name'') then u\<lparr>cu_name := as_text val\<rparr>
      else if as_text k = Some (ascii ''displayName'') then u\<lparr>cu_display_name := as_text val\<rparr>
      else u)"

fun desc_field :: "bytes \<Rightarrow> cbor_value \<times> cbor_value \<Rightarrow> bytes" where
  "desc_field i (k, val) = (if as_text k = Some (ascii ''id'') then unwrap_or [] (as_bytes val) else i)"

fun find_algorithm :: "(cbor_value \<times> cbor_value) list \<Rightarrow> u64 option" where
  "find_algorithm [] = None"
| "find_algorithm ((k, val) # m) = (if cose_label k = Some 3 then cose_label val else find_algorithm m)"

definition public_key_algorithm :: "cbor_value \<Rightarrow> u64 option" where
  "public_key_algorithm pubkey = find_algorithm (map_entries pubkey)"

definition parse_credential :: "cbor_value \<Rightarrow> (credential, ctap_error) result" where
  "parse_credential v =
     bind_result (ok_or (InvalidResponseShape ''missing user entity'') (get_uint_key v RESP_USER)) (\<lambda>user.
     bind_result (ok_or (InvalidResponseShape ''missing credentialId'') (get_uint_key v RESP_CREDENTIAL_ID)) (\<lambda>cred_desc.
       Ok \<lparr>cd_credential_id = foldl desc_field [] (map_entries cred_desc),
           cd_user = foldl user_field \<lparr>cu_id = [], cu_name = None, cu_display_name = None\<rparr> (map_entries user),
           cd_algorithm = Option.bind (get_uint_key v RESP_PUBLIC_KEY) public_key_algorithm,
           cd_large_blob_key = Option.bind (Option.bind (get_uint_key v RESP_LARGE_BLOB_KEY) as_bytes) bytes_32\<rparr>))"

subsection \<open>The manager\<close>

record cred_manager =
  cm_token :: pin_uv_auth_token
  cm_cmd_code :: byte

definition cred_manager_new :: "pin_uv_auth_token \<Rightarrow> authenticator_info \<Rightarrow> (cred_manager, ctap_error) result" where
  "cred_manager_new token info =
     (if info_option info ''credMgmt'' = Some True
      then Ok \<lparr>cm_token = token, cm_cmd_code = CTAP2_CREDENTIAL_MANAGEMENT\<rparr>
      else if info_option info ''credentialMgmtPreview'' = Some True
      then Ok \<lparr>cm_token = token, cm_cmd_code = CTAP2_CREDENTIAL_MANAGEMENT_PREVIEW\<rparr>
      else Err (InvalidResponseShape ''authenticator does not support credentialManagement''))"

definition cred_auth_input :: "byte \<Rightarrow> cbor_value option \<Rightarrow> bytes" where
  "cred_auth_input sub params = sub # params_bytes params"

definition cred_request :: "u32 \<Rightarrow> byte \<Rightarrow> cbor_value option \<Rightarrow> bytes \<Rightarrow> cbor_value" where
  "cred_request protocol sub params tag = Map
     ([(UInt CM_SUB_COMMAND, UInt (ucast sub))] @ params_entry CM_SUB_COMMAND_PARAMS params
      @ [(UInt CM_PIN_UV_AUTH_PROTOCOL, UInt (ucast protocol)), (UInt CM_PIN_UV_AUTH_PARAM, Bytes tag)])"

definition cred_build_request :: "'k ctap_crypto \<Rightarrow> cred_manager \<Rightarrow> byte \<Rightarrow> cbor_value option \<Rightarrow> bytes" where
  "cred_build_request c mgr sub params =
     (let tag = token_authenticate c (cm_token mgr) (cred_auth_input sub params)
      in encode (cred_request (tk_protocol (cm_token mgr)) sub params tag))"

definition cred_dispatch :: "'k ctap_crypto \<Rightarrow> cred_manager \<Rightarrow> 'd ctap_transport \<Rightarrow> byte \<Rightarrow> cbor_value option \<Rightarrow> 'd
    \<Rightarrow> (cbor_value, ctap_error) result \<times> 'd" where
  "cred_dispatch c mgr dev sub params d =
     bind_dev (transact_on dev CTAPHID_CBOR (cm_cmd_code mgr # cred_build_request c mgr sub params) d)
       (\<lambda>resp d. (decode_response resp, d))"

fun metadata_field :: "creds_metadata \<Rightarrow> cbor_value \<times> cbor_value \<Rightarrow> creds_metadata" where
  "metadata_field meta (k, v) =
     (if as_uint k = Some RESP_EXISTING_COUNT then meta\<lparr>md_existing_count := unwrap_or 0 (as_uint v)\<rparr>
      else if as_uint k = Some RESP_MAX_REMAINING then meta\<lparr>md_max_remaining := unwrap_or 0 (as_uint v)\<rparr>
      else meta)"

definition creds_metadata_of :: "'k ctap_crypto \<Rightarrow> cred_manager \<Rightarrow> 'd ctap_transport \<Rightarrow> 'd
    \<Rightarrow> (creds_metadata, ctap_error) result \<times> 'd" where
  "creds_metadata_of c mgr dev d =
     bind_dev (cred_dispatch c mgr dev SUB_GET_CREDS_METADATA None d) (\<lambda>resp d.
       (Ok (foldl metadata_field \<lparr>md_existing_count = 0, md_max_remaining = 0\<rparr> (map_entries resp)), d))"

text \<open>The \<^verbatim>\<open>while out.len() < total\<close> of both enumerations.\<close>

function next_loop :: "('d \<Rightarrow> (cbor_value, ctap_error) result \<times> 'd) \<Rightarrow> (cbor_value \<Rightarrow> ('a, ctap_error) result)
    \<Rightarrow> nat \<Rightarrow> 'a list \<Rightarrow> 'd \<Rightarrow> ('a list, ctap_error) result \<times> 'd" where
  "next_loop ask parse n out d =
     (if length out < n
      then bind_dev (ask d) (\<lambda>v d. case parse v of
               Err e \<Rightarrow> (Err e, d)
             | Ok x \<Rightarrow> next_loop ask parse n (out @ [x]) d)
      else (Ok out, d))"
  by pat_completeness auto
termination by (relation "measure (\<lambda>(_, _, n, out, _). n - length out)") auto

declare next_loop.simps [simp del]

text \<open>An enumeration: its first request, the count its answer claims, the rest.\<close>

definition enumerate_with :: "(cbor_value, ctap_error) result \<times> 'd \<Rightarrow> ('d \<Rightarrow> (cbor_value, ctap_error) result \<times> 'd)
    \<Rightarrow> u64 \<Rightarrow> (cbor_value \<Rightarrow> ('a, ctap_error) result) \<Rightarrow> ('a list, ctap_error) result \<times> 'd" where
  "enumerate_with begin_outcome ask total_key parse =
     (case begin_outcome of
        (Err e, d) \<Rightarrow> (if e = StatusCode CTAP2_ERR_NO_CREDENTIALS then Ok [] else Err e, d)
      | (Ok first, d) \<Rightarrow>
          (case checked_total (unat (unwrap_or 0 (field_uint first total_key))) of
             Err e \<Rightarrow> (Err e, d)
           | Ok n \<Rightarrow>
               if n = 0 then (Ok [], d)
               else (case parse first of
                 Err e \<Rightarrow> (Err e, d)
               | Ok x \<Rightarrow> next_loop ask parse n [x] d)))"

definition list_relying_parties :: "'k ctap_crypto \<Rightarrow> cred_manager \<Rightarrow> 'd ctap_transport \<Rightarrow> 'd
    \<Rightarrow> (relying_party list, ctap_error) result \<times> 'd" where
  "list_relying_parties c mgr dev d =
     enumerate_with (cred_dispatch c mgr dev SUB_ENUMERATE_RPS_BEGIN None d)
       (cred_dispatch c mgr dev SUB_ENUMERATE_RPS_NEXT None) RESP_TOTAL_RPS parse_rp"

definition list_credentials :: "'k ctap_crypto \<Rightarrow> cred_manager \<Rightarrow> 'd ctap_transport \<Rightarrow> bytes \<Rightarrow> 'd
    \<Rightarrow> (credential list, ctap_error) result \<times> 'd" where
  "list_credentials c mgr dev rp_hash d =
     enumerate_with
       (cred_dispatch c mgr dev SUB_ENUMERATE_CREDS_BEGIN (Some (Map [(UInt PARAM_RP_ID_HASH, Bytes rp_hash)])) d)
       (cred_dispatch c mgr dev SUB_ENUMERATE_CREDS_NEXT None) RESP_TOTAL_CREDS parse_credential"

definition credential_descriptor :: "bytes \<Rightarrow> cbor_value" where
  "credential_descriptor credential_id =
     Map [(Text (ascii ''id''), Bytes credential_id), (Text (ascii ''type''), Text (ascii ''public-key''))]"

definition delete_credential :: "'k ctap_crypto \<Rightarrow> cred_manager \<Rightarrow> 'd ctap_transport \<Rightarrow> bytes \<Rightarrow> 'd
    \<Rightarrow> (unit, ctap_error) result \<times> 'd" where
  "delete_credential c mgr dev credential_id d =
     bind_dev (cred_dispatch c mgr dev SUB_DELETE_CREDENTIAL
         (Some (Map [(UInt PARAM_CREDENTIAL_ID, credential_descriptor credential_id)])) d)
       (\<lambda>_ d. (Ok (), d))"

subsection \<open>Enumerations\<close>

text \<open>The answers to one request after another.\<close>

fun answered :: "('d \<Rightarrow> (cbor_value, ctap_error) result \<times> 'd) \<Rightarrow> 'd \<Rightarrow> cbor_value list \<Rightarrow> 'd \<Rightarrow> bool" where
  "answered ask d [] d' \<longleftrightarrow> d' = d"
| "answered ask d (v # vs) d' \<longleftrightarrow> fst (ask d) = Ok v \<and> answered ask (snd (ask d)) vs d'"

lemma next_loop_iff:
  "next_loop ask parse n out d = (Ok xs, d') \<longleftrightarrow>
     (\<exists>vs ys. xs = out @ ys \<and> map parse vs = map Ok ys \<and> answered ask d vs d' \<and> length ys = n - length out)"
proof (induction "n - length out" arbitrary: out d)
  case 0
  then show ?case by (subst next_loop.simps) auto
next
  case (Suc k)
  from Suc.hyps(2) have lt: "length out < n" by simp
  have n: "k = n - length (out @ [x])" for x using Suc.hyps(2) by simp
  have "next_loop ask parse n out d = (Ok xs, d') \<longleftrightarrow>
      (\<exists>v x. fst (ask d) = Ok v \<and> parse v = Ok x \<and> next_loop ask parse n (out @ [x]) (snd (ask d)) = (Ok xs, d'))"
    using lt by (subst next_loop.simps; cases "ask d"; cases "fst (ask d)") (auto split: result.splits)
  also have "\<dots> \<longleftrightarrow> (\<exists>v x vs ys. fst (ask d) = Ok v \<and> parse v = Ok x \<and> xs = (out @ [x]) @ ys \<and> map parse vs = map Ok ys
      \<and> answered ask (snd (ask d)) vs d' \<and> length ys = n - length (out @ [x]))"
    by (simp only: Suc.hyps(1) [OF n]) blast
  also have "\<dots> \<longleftrightarrow> (\<exists>vs ys. xs = out @ ys \<and> map parse vs = map Ok ys \<and> answered ask d vs d' \<and> length ys = n - length out)"
  proof safe
    fix v x vs ys
    assume "fst (ask d) = Ok v" "parse v = Ok x" "map parse vs = map Ok ys" "answered ask (snd (ask d)) vs d'"
      "length ys = n - length (out @ [x])" "xs = (out @ [x]) @ ys"
    then show "\<exists>vs' ys'. (out @ [x]) @ ys = out @ ys' \<and> map parse vs' = map Ok ys' \<and> answered ask d vs' d' \<and> length ys' = n - length out"
      using lt by (intro exI [of _ "v # vs"] exI [of _ "x # ys"]) auto
  next
    fix vs ys
    assume a: "map parse vs = map Ok ys" "answered ask d vs d'" "length ys = n - length out" "xs = out @ ys"
    with lt obtain y ys' where y: "ys = y # ys'" by (cases ys) auto
    with a obtain v vs' where "vs = v # vs'" by (cases vs) auto
    with a y show "\<exists>v x vs ys'. fst (ask d) = Ok v \<and> parse v = Ok x \<and> out @ ys = (out @ [x]) @ ys' \<and> map parse vs = map Ok ys'
      \<and> answered ask (snd (ask d)) vs d' \<and> length ys' = n - length (out @ [x])"
      by (intro exI [of _ v] exI [of _ y] exI [of _ vs'] exI [of _ ys']) auto
  qed
  finally show ?case .
qed

text \<open>What a listing may return: nothing when the key says so, or the parsed answers to the first
  request and to one request after another, as many as the first answer claims.\<close>

definition enumerated :: "(cbor_value, ctap_error) result \<times> 'd \<Rightarrow> ('d \<Rightarrow> (cbor_value, ctap_error) result \<times> 'd)
    \<Rightarrow> u64 \<Rightarrow> (cbor_value \<Rightarrow> ('a, ctap_error) result) \<Rightarrow> 'a list \<Rightarrow> 'd \<Rightarrow> bool" where
  "enumerated begin_outcome ask total_key parse xs d' \<longleftrightarrow>
     (case begin_outcome of
        (Err e, d) \<Rightarrow> e = StatusCode CTAP2_ERR_NO_CREDENTIALS \<and> xs = [] \<and> d' = d
      | (Ok first, d) \<Rightarrow>
          length xs = unat (unwrap_or 0 (field_uint first total_key)) \<and> length xs \<le> MAX_ENUMERATED
          \<and> (if xs = [] then d' = d
             else \<exists>vs. map parse (first # vs) = map Ok xs \<and> answered ask d vs d'))"

lemma enumerate_with_iff:
  "enumerate_with outcome ask key parse = (Ok xs, d') \<longleftrightarrow> enumerated outcome ask key parse xs d'"
proof (cases outcome)
  case (Pair r d)
  show ?thesis
  proof (cases r)
    case (Ok first)
    let ?n = "unat (unwrap_or 0 (field_uint first key))"
    have rest: "(\<exists>vs ys. xs = x # ys \<and> map parse vs = map Ok ys \<and> answered ask d vs d' \<and> length ys = ?n - Suc 0)
        \<longleftrightarrow> length xs = ?n \<and> (\<exists>vs. map parse (first # vs) = map Ok xs \<and> answered ask d vs d')"
      if "?n \<noteq> 0" "parse first = Ok x" for x
      using that by (cases xs) auto
    show ?thesis
      by (cases "parse first")
        (auto simp: Pair Ok enumerate_with_def enumerated_def checked_total_def next_loop_iff rest)
  qed (auto simp: Pair enumerate_with_def enumerated_def)
qed

text \<open>C28: a listing succeeds exactly in two cases: the key says it holds nothing (the status
  \<^verbatim>\<open>NO_CREDENTIALS\<close> or a count of zero), or it claims at most 4096 entries and its answers to the
  first request and to exactly as many further requests as are missing all parse; the result is then those
  entries in the order of the answers.  No count and no answer makes a listing run on.\<close>

theorem enumeration_exact:
  "(list_relying_parties c mgr dev d = (Ok rps, d') \<longleftrightarrow>
      enumerated (cred_dispatch c mgr dev SUB_ENUMERATE_RPS_BEGIN None d)
        (cred_dispatch c mgr dev SUB_ENUMERATE_RPS_NEXT None) RESP_TOTAL_RPS parse_rp rps d')
   \<and> (list_credentials c mgr dev rp_hash d = (Ok creds, d') \<longleftrightarrow>
      enumerated (cred_dispatch c mgr dev SUB_ENUMERATE_CREDS_BEGIN (Some (Map [(UInt PARAM_RP_ID_HASH, Bytes rp_hash)])) d)
        (cred_dispatch c mgr dev SUB_ENUMERATE_CREDS_NEXT None) RESP_TOTAL_CREDS parse_credential creds d')"
  by (simp add: list_relying_parties_def list_credentials_def enumerate_with_iff)

subsection \<open>Authentication\<close>

interpretation cred_auth: authenticated cred_auth_input "[]" "cred_request protocol"
    CM_SUB_COMMAND CM_SUB_COMMAND_PARAMS CM_PIN_UV_AUTH_PARAM for protocol
  by unfold_locales
    (simp_all add: cred_auth_input_def cred_request_def request_simps CM_SUB_COMMAND_def
      CM_SUB_COMMAND_PARAMS_def CM_PIN_UV_AUTH_PROTOCOL_def CM_PIN_UV_AUTH_PARAM_def)

end
