(* ===== verification/Ctap_Config.thy ===== *)
theory Ctap_Config
  imports Ctap_Auth
begin

text \<open>
  \<^verbatim>\<open>crates/keyroost-ctap/src/config.rs\<close>: the configuration commands of a key.
\<close>

definition CTAP2_CONFIG :: byte where "CTAP2_CONFIG = 0x0D"

definition CFG_SUB_COMMAND :: u64 where "CFG_SUB_COMMAND = 0x01"
definition CFG_SUB_COMMAND_PARAMS :: u64 where "CFG_SUB_COMMAND_PARAMS = 0x02"
definition CFG_PIN_UV_AUTH_PROTOCOL :: u64 where "CFG_PIN_UV_AUTH_PROTOCOL = 0x03"
definition CFG_PIN_UV_AUTH_PARAM :: u64 where "CFG_PIN_UV_AUTH_PARAM = 0x04"

definition SUB_ENABLE_ENTERPRISE_ATTESTATION :: byte where "SUB_ENABLE_ENTERPRISE_ATTESTATION = 0x01"
definition SUB_TOGGLE_ALWAYS_UV :: byte where "SUB_TOGGLE_ALWAYS_UV = 0x02"
definition SUB_SET_MIN_PIN_LENGTH :: byte where "SUB_SET_MIN_PIN_LENGTH = 0x03"

definition PARAM_NEW_MIN_PIN_LENGTH :: u64 where "PARAM_NEW_MIN_PIN_LENGTH = 0x01"
definition PARAM_MIN_PIN_LENGTH_RP_IDS :: u64 where "PARAM_MIN_PIN_LENGTH_RP_IDS = 0x02"
definition PARAM_FORCE_CHANGE_PIN :: u64 where "PARAM_FORCE_CHANGE_PIN = 0x03"

record configurator =
  cf_token :: pin_uv_auth_token
  cf_always_uv_supported :: bool
  cf_ep_supported :: bool
  cf_min_pin_supported :: bool

definition configurator_new :: "pin_uv_auth_token \<Rightarrow> authenticator_info \<Rightarrow> (configurator, ctap_error) result" where
  "configurator_new token info =
     (if info_option info ''authnrCfg'' \<noteq> Some True then Err (NotSupported ''authenticatorConfig'')
      else Ok \<lparr>cf_token = token,
               cf_always_uv_supported = (info_option info ''alwaysUv'' \<noteq> None),
               cf_ep_supported = (info_option info ''ep'' \<noteq> None),
               cf_min_pin_supported = (info_option info ''setMinPINLength'' = Some True)\<rparr>)"

definition config_auth_input :: "byte \<Rightarrow> cbor_value option \<Rightarrow> bytes" where
  "config_auth_input sub params = replicate 32 0xff @ CTAP2_CONFIG # sub # params_bytes params"

definition config_request :: "u32 \<Rightarrow> byte \<Rightarrow> cbor_value option \<Rightarrow> bytes \<Rightarrow> cbor_value" where
  "config_request protocol sub params tag = Map
     ([(UInt CFG_SUB_COMMAND, UInt (ucast sub))] @ params_entry CFG_SUB_COMMAND_PARAMS params
      @ [(UInt CFG_PIN_UV_AUTH_PROTOCOL, UInt (ucast protocol)), (UInt CFG_PIN_UV_AUTH_PARAM, Bytes tag)])"

definition config_build_request :: "'k ctap_crypto \<Rightarrow> configurator \<Rightarrow> byte \<Rightarrow> cbor_value option \<Rightarrow> bytes" where
  "config_build_request c cfg sub params =
     (let tag = token_authenticate c (cf_token cfg) (config_auth_input sub params)
      in encode (config_request (tk_protocol (cf_token cfg)) sub params tag))"

definition config_dispatch :: "'k ctap_crypto \<Rightarrow> configurator \<Rightarrow> 'd ctap_transport \<Rightarrow> byte \<Rightarrow> cbor_value option \<Rightarrow> 'd
    \<Rightarrow> (unit, ctap_error) result \<times> 'd" where
  "config_dispatch c cfg dev sub params d =
     bind_dev (transact_on dev CTAPHID_CBOR (CTAP2_CONFIG # config_build_request c cfg sub params) d) (\<lambda>resp d.
       (bind_result (split_status resp) (\<lambda>(status, _).
          if status \<noteq> 0 then Err (StatusCode status) else Ok ()), d))"

definition enable_enterprise_attestation :: "'k ctap_crypto \<Rightarrow> configurator \<Rightarrow> 'd ctap_transport \<Rightarrow> 'd
    \<Rightarrow> (unit, ctap_error) result \<times> 'd" where
  "enable_enterprise_attestation c cfg dev d =
     (if \<not> cf_ep_supported cfg then (Err (NotSupported ''enableEnterpriseAttestation''), d)
      else config_dispatch c cfg dev SUB_ENABLE_ENTERPRISE_ATTESTATION None d)"

definition toggle_always_uv :: "'k ctap_crypto \<Rightarrow> configurator \<Rightarrow> 'd ctap_transport \<Rightarrow> 'd
    \<Rightarrow> (unit, ctap_error) result \<times> 'd" where
  "toggle_always_uv c cfg dev d =
     (if \<not> cf_always_uv_supported cfg then (Err (NotSupported ''toggleAlwaysUv''), d)
      else config_dispatch c cfg dev SUB_TOGGLE_ALWAYS_UV None d)"

definition min_pin_entries :: "u32 option \<Rightarrow> bytes list \<Rightarrow> bool \<Rightarrow> (cbor_value \<times> cbor_value) list" where
  "min_pin_entries new_min rp_ids force_change =
     (case new_min of None \<Rightarrow> [] | Some n \<Rightarrow> [(UInt PARAM_NEW_MIN_PIN_LENGTH, UInt (ucast n))])
     @ (if rp_ids = [] then [] else [(UInt PARAM_MIN_PIN_LENGTH_RP_IDS, Array (map Text rp_ids))])
     @ (if force_change then [(UInt PARAM_FORCE_CHANGE_PIN, Bool True)] else [])"

definition min_pin_params :: "u32 option \<Rightarrow> bytes list \<Rightarrow> bool \<Rightarrow> cbor_value option" where
  "min_pin_params new_min rp_ids force_change =
     (let entries = min_pin_entries new_min rp_ids force_change
      in if entries = [] then None else Some (Map entries))"

definition set_min_pin_length :: "'k ctap_crypto \<Rightarrow> configurator \<Rightarrow> 'd ctap_transport \<Rightarrow> u32 option \<Rightarrow> bytes list \<Rightarrow> bool
    \<Rightarrow> 'd \<Rightarrow> (unit, ctap_error) result \<times> 'd" where
  "set_min_pin_length c cfg dev new_min rp_ids force_change d =
     (if \<not> cf_min_pin_supported cfg then (Err (NotSupported ''setMinPINLength''), d)
      else config_dispatch c cfg dev SUB_SET_MIN_PIN_LENGTH (min_pin_params new_min rp_ids force_change) d)"

definition force_pin_change :: "'k ctap_crypto \<Rightarrow> configurator \<Rightarrow> 'd ctap_transport \<Rightarrow> 'd
    \<Rightarrow> (unit, ctap_error) result \<times> 'd" where
  "force_pin_change c cfg dev d = set_min_pin_length c cfg dev None [] True d"

interpretation config_auth: authenticated config_auth_input "replicate 32 0xff @ [CTAP2_CONFIG]" "config_request protocol"
    CFG_SUB_COMMAND CFG_SUB_COMMAND_PARAMS CFG_PIN_UV_AUTH_PARAM for protocol
  by unfold_locales
    (simp_all add: config_auth_input_def config_request_def request_simps CFG_SUB_COMMAND_def
      CFG_SUB_COMMAND_PARAMS_def CFG_PIN_UV_AUTH_PROTOCOL_def CFG_PIN_UV_AUTH_PARAM_def)

subsection \<open>What a key is asked to set\<close>

definition asked_min_pin :: "cbor_value \<Rightarrow> u64 option \<times> bytes list \<times> bool" where
  "asked_min_pin request =
     (case get_uint_key request CFG_SUB_COMMAND_PARAMS of
        None \<Rightarrow> (None, [], False)
      | Some p \<Rightarrow> (field_uint p PARAM_NEW_MIN_PIN_LENGTH,
          (case get_uint_key p PARAM_MIN_PIN_LENGTH_RP_IDS of None \<Rightarrow> [] | Some a \<Rightarrow> collect_strings a),
          get_uint_key p PARAM_FORCE_CHANGE_PIN = Some (Bool True)))"

lemma collect_map_Text: "List.map_filter as_text (map Text xs) = xs"
  by (induction xs) simp_all

lemma sendable_min_pin:
  "length rp_ids < 2 ^ 64 \<Longrightarrow> list_all (\<lambda>s. utf8_valid s \<and> length s < 2 ^ 64) rp_ids
   \<Longrightarrow> sendable (min_pin_params new_min rp_ids force)"
  by (cases new_min; cases rp_ids; cases force)
    (auto simp: min_pin_params_def min_pin_entries_def sendable_def DECODE_DEPTH_LIMIT_def list_all_iff)

lemma params_asked:
  "get_uint_key v CFG_SUB_COMMAND_PARAMS = min_pin_params new_min rp_ids force
   \<Longrightarrow> asked_min_pin v = (map_option ucast new_min, rp_ids, force)"
  by (cases new_min; cases rp_ids; cases force)
    (auto simp: asked_min_pin_def min_pin_params_def min_pin_entries_def request_simps
      PARAM_NEW_MIN_PIN_LENGTH_def PARAM_MIN_PIN_LENGTH_RP_IDS_def PARAM_FORCE_CHANGE_PIN_def
      collect_strings_def collect_map_Text)

text \<open>The request that sets the minimum PIN length decodes at the key to exactly the length,
  the relying parties and the force flag the caller asked for, under the sub-command for it, and its
  authentication covers the parameters that are sent.\<close>

theorem min_pin_understood:
  assumes "length rp_ids < 2 ^ 64" and "list_all (\<lambda>s. utf8_valid s \<and> length s < 2 ^ 64) rp_ids"
    and "\<And>k m. length (cr_hmac c k m) = 32" and "cf_min_pin_supported cfg"
  shows "\<exists>request v. set_min_pin_length c cfg dev new_min rp_ids force d =
        bind_dev (transact_on dev CTAPHID_CBOR (CTAP2_CONFIG # request) d) (\<lambda>resp d.
          (bind_result (split_status resp) (\<lambda>(status, _). if status \<noteq> 0 then Err (StatusCode status) else Ok ()), d))
    \<and> decode request = Ok (v, [])
    \<and> field_uint v CFG_SUB_COMMAND = Some (ucast SUB_SET_MIN_PIN_LENGTH)
    \<and> asked_min_pin v = (map_option ucast new_min, rp_ids, force)
    \<and> get_uint_key v CFG_PIN_UV_AUTH_PARAM = Some (Bytes (token_authenticate c (cf_token cfg)
         (replicate 32 0xff @ CTAP2_CONFIG # SUB_SET_MIN_PIN_LENGTH
          # params_bytes (get_uint_key v CFG_SUB_COMMAND_PARAMS))))"
proof -
  let ?p = "min_pin_params new_min rp_ids force"
  let ?tag = "token_authenticate c (cf_token cfg) (config_auth_input SUB_SET_MIN_PIN_LENGTH ?p)"
  have "length ?tag < 2 ^ 64" using assms(3) by (simp add: token_authenticate_def Let_def)
  from config_auth.request_read [OF sendable_min_pin [OF assms(1,2)] this]
  obtain v where "decode (encode (config_request (tk_protocol (cf_token cfg)) SUB_SET_MIN_PIN_LENGTH ?p ?tag)) = Ok (v, [])"
    "field_uint v CFG_SUB_COMMAND = Some (ucast SUB_SET_MIN_PIN_LENGTH)"
    "get_uint_key v CFG_SUB_COMMAND_PARAMS = ?p" "get_uint_key v CFG_PIN_UV_AUTH_PARAM = Some (Bytes ?tag)"
    by blast
  then show ?thesis
    using assms(4) params_asked [of v new_min rp_ids force]
    by (intro exI [of _ "config_build_request c cfg SUB_SET_MIN_PIN_LENGTH ?p"] exI [of _ v])
      (simp add: set_min_pin_length_def config_dispatch_def config_build_request_def config_auth_input_def)
qed

theorem min_pin_understood_witness:
  "\<exists>v. asked_min_pin v = (Some 8, [ascii ''a.example''], True)
    \<and> field_uint v CFG_SUB_COMMAND = Some (ucast SUB_SET_MIN_PIN_LENGTH)"
proof -
  let ?cfg = "\<lparr>cf_token = \<lparr>tk_protocol = 2, tk_token = []\<rparr>, cf_always_uv_supported = True,
    cf_ep_supported = False, cf_min_pin_supported = True\<rparr>"
  have "utf8_valid (ascii ''a.example'')" by (simp add: ascii_def utf8_valid_ascii)
  then have "list_all (\<lambda>s. utf8_valid s \<and> length s < 2 ^ 64) [ascii ''a.example'']" by simp
  moreover have "length (cr_hmac demo_crypto k m) = 32" for k m by (simp add: demo_crypto_def)
  ultimately obtain v where v: "field_uint v CFG_SUB_COMMAND = Some (ucast SUB_SET_MIN_PIN_LENGTH)"
    "asked_min_pin v = (map_option ucast (Some (8 :: u32)), [ascii ''a.example''], True)"
    using min_pin_understood [of "[ascii ''a.example'']" demo_crypto ?cfg
        "default_transport (\<lambda>_ _ d. (Ok [0], d))" "Some 8" True "()"]
    by auto
  have "ucast (8 :: u32) = (8 :: u64)" by simp
  with v show ?thesis by auto
qed

end
