(* ===== verification/Bio_Enroll.thy ===== *)
theory Bio_Enroll
  imports Ctap_Auth
begin

text \<open>
  \<^verbatim>\<open>crates/keyroost-ctap/src/bio_enroll.rs\<close>: fingerprints of a key.  A session counts the
  captures of an enrolment; the count is a checked 32-bit addition, whose overflow panics (\<open>None\<close>).
\<close>

definition CTAP2_BIO_ENROLLMENT :: byte where "CTAP2_BIO_ENROLLMENT = 0x09"
definition CTAP2_BIO_ENROLLMENT_PREVIEW :: byte where "CTAP2_BIO_ENROLLMENT_PREVIEW = 0x40"
definition MODALITY_FINGERPRINT :: u64 where "MODALITY_FINGERPRINT = 0x01"
definition CAPTURE_TIMEOUT :: nat where "CAPTURE_TIMEOUT = 30000000000"
definition MAX_CAPTURE_ITERATIONS :: u32 where "MAX_CAPTURE_ITERATIONS = 64"

definition BIO_MODALITY :: u64 where "BIO_MODALITY = 0x01"
definition BIO_SUB_COMMAND :: u64 where "BIO_SUB_COMMAND = 0x02"
definition BIO_SUB_COMMAND_PARAMS :: u64 where "BIO_SUB_COMMAND_PARAMS = 0x03"
definition BIO_PIN_UV_AUTH_PROTOCOL :: u64 where "BIO_PIN_UV_AUTH_PROTOCOL = 0x04"
definition BIO_PIN_UV_AUTH_PARAM :: u64 where "BIO_PIN_UV_AUTH_PARAM = 0x05"

definition SUB_ENROLL_BEGIN :: byte where "SUB_ENROLL_BEGIN = 0x01"
definition SUB_ENROLL_CAPTURE_NEXT :: byte where "SUB_ENROLL_CAPTURE_NEXT = 0x02"
definition SUB_CANCEL_ENROLLMENT :: byte where "SUB_CANCEL_ENROLLMENT = 0x03"
definition SUB_ENUMERATE_ENROLLMENTS :: byte where "SUB_ENUMERATE_ENROLLMENTS = 0x04"
definition SUB_SET_FRIENDLY_NAME :: byte where "SUB_SET_FRIENDLY_NAME = 0x05"
definition SUB_REMOVE_ENROLLMENT :: byte where "SUB_REMOVE_ENROLLMENT = 0x06"
definition SUB_GET_SENSOR_INFO :: byte where "SUB_GET_SENSOR_INFO = 0x07"

definition PARAM_TEMPLATE_ID :: u64 where "PARAM_TEMPLATE_ID = 0x01"
definition PARAM_TEMPLATE_FRIENDLY_NAME :: u64 where "PARAM_TEMPLATE_FRIENDLY_NAME = 0x02"
definition PARAM_TIMEOUT_MS :: u64 where "PARAM_TIMEOUT_MS = 0x03"

definition RESP_FINGERPRINT_KIND :: u64 where "RESP_FINGERPRINT_KIND = 0x02"
definition RESP_MAX_CAPTURE_SAMPLES :: u64 where "RESP_MAX_CAPTURE_SAMPLES = 0x03"
definition RESP_TEMPLATE_ID :: u64 where "RESP_TEMPLATE_ID = 0x04"
definition RESP_LAST_ENROLL_SAMPLE_STATUS :: u64 where "RESP_LAST_ENROLL_SAMPLE_STATUS = 0x05"
definition RESP_REMAINING_SAMPLES :: u64 where "RESP_REMAINING_SAMPLES = 0x06"
definition RESP_TEMPLATE_INFOS :: u64 where "RESP_TEMPLATE_INFOS = 0x07"
definition RESP_MAX_FRIENDLY_NAME_BYTES :: u64 where "RESP_MAX_FRIENDLY_NAME_BYTES = 0x08"
definition TI_TEMPLATE_ID :: u64 where "TI_TEMPLATE_ID = 0x01"
definition TI_FRIENDLY_NAME :: u64 where "TI_FRIENDLY_NAME = 0x02"

record enrollment =
  en_template_id :: bytes
  en_friendly_name :: "bytes option"

record sensor_info =
  si_fingerprint_kind :: u64
  si_max_capture_samples :: u64
  si_max_friendly_name_bytes :: "u64 option"

record capture_status =
  cs_last_sample_status :: u64
  cs_remaining_samples :: u64

record bio_enrollment =
  be_token :: pin_uv_auth_token
  be_cmd_code :: byte
  be_captures :: u32

definition bio_new :: "pin_uv_auth_token \<Rightarrow> byte \<Rightarrow> bio_enrollment" where
  "bio_new token cmd_code = \<lparr>be_token = token, be_cmd_code = cmd_code, be_captures = 0\<rparr>"

subsection \<open>Requests\<close>

definition transact_cbor :: "'d ctap_transport \<Rightarrow> byte \<Rightarrow> cbor_value \<Rightarrow> 'd \<Rightarrow> (cbor_value, ctap_error) result \<times> 'd" where
  "transact_cbor dev cmd_code request d =
     bind_dev (transact_on dev CTAPHID_CBOR (cmd_code # encode request) d) (\<lambda>resp d. (decode_response resp, d))"

definition plain_request :: "byte \<Rightarrow> cbor_value" where
  "plain_request sub = Map [(UInt BIO_MODALITY, UInt MODALITY_FINGERPRINT), (UInt BIO_SUB_COMMAND, UInt (ucast sub))]"

definition bio_auth_input :: "byte \<Rightarrow> cbor_value option \<Rightarrow> bytes" where
  "bio_auth_input sub params = ucast MODALITY_FINGERPRINT # sub # params_bytes params"

definition bio_request :: "u32 \<Rightarrow> byte \<Rightarrow> cbor_value option \<Rightarrow> bytes \<Rightarrow> cbor_value" where
  "bio_request protocol sub params tag = Map
     ([(UInt BIO_MODALITY, UInt MODALITY_FINGERPRINT), (UInt BIO_SUB_COMMAND, UInt (ucast sub))]
      @ params_entry BIO_SUB_COMMAND_PARAMS params
      @ [(UInt BIO_PIN_UV_AUTH_PROTOCOL, UInt (ucast protocol)), (UInt BIO_PIN_UV_AUTH_PARAM, Bytes tag)])"

definition bio_build_request :: "'k ctap_crypto \<Rightarrow> bio_enrollment \<Rightarrow> byte \<Rightarrow> cbor_value option \<Rightarrow> cbor_value" where
  "bio_build_request c s sub params =
     bio_request (tk_protocol (be_token s)) sub params
       (token_authenticate c (be_token s) (bio_auth_input sub params))"

definition bio_dispatch :: "'k ctap_crypto \<Rightarrow> bio_enrollment \<Rightarrow> 'd ctap_transport \<Rightarrow> byte \<Rightarrow> cbor_value option \<Rightarrow> 'd
    \<Rightarrow> (cbor_value, ctap_error) result \<times> 'd" where
  "bio_dispatch c s dev sub params d =
     transact_cbor dev (be_cmd_code s) (bio_build_request c s sub params) d"

definition get_sensor_info :: "bio_enrollment \<Rightarrow> 'd ctap_transport \<Rightarrow> 'd \<Rightarrow> (sensor_info, ctap_error) result \<times> 'd" where
  "get_sensor_info s dev d =
     bind_dev (transact_cbor dev (be_cmd_code s) (plain_request SUB_GET_SENSOR_INFO) d) (\<lambda>resp d.
       (Ok \<lparr>si_fingerprint_kind = unwrap_or 1 (field_uint resp RESP_FINGERPRINT_KIND),
            si_max_capture_samples = unwrap_or 0 (field_uint resp RESP_MAX_CAPTURE_SAMPLES),
            si_max_friendly_name_bytes = field_uint resp RESP_MAX_FRIENDLY_NAME_BYTES\<rparr>, d))"

definition template_id_of :: "cbor_value \<Rightarrow> u64 \<Rightarrow> (bytes, ctap_error) result" where
  "template_id_of v key =
     ok_or (InvalidResponseShape ''missing template id'') (Option.bind (get_uint_key v key) as_bytes)"

fun read_template_infos :: "cbor_value list \<Rightarrow> (enrollment list, ctap_error) result" where
  "read_template_infos [] = Ok []"
| "read_template_infos (ti # arr) =
     bind_result (template_id_of ti TI_TEMPLATE_ID) (\<lambda>i.
     bind_result (read_template_infos arr) (\<lambda>es.
       Ok (\<lparr>en_template_id = i, en_friendly_name = Option.bind (get_uint_key ti TI_FRIENDLY_NAME) as_text\<rparr> # es)))"

definition enumerate_enrollments :: "'k ctap_crypto \<Rightarrow> bio_enrollment \<Rightarrow> 'd ctap_transport \<Rightarrow> 'd
    \<Rightarrow> (enrollment list, ctap_error) result \<times> 'd" where
  "enumerate_enrollments c s dev d =
     (case bio_dispatch c s dev SUB_ENUMERATE_ENROLLMENTS None d of
        (Err e, d) \<Rightarrow> (if e = StatusCode 0x2C then Ok [] else Err e, d)
      | (Ok resp, d) \<Rightarrow>
          (case Option.bind (get_uint_key resp RESP_TEMPLATE_INFOS) as_array of
             None \<Rightarrow> Ok []
           | Some arr \<Rightarrow> read_template_infos arr, d))"

definition capture_status_of :: "cbor_value \<Rightarrow> capture_status" where
  "capture_status_of resp =
     \<lparr>cs_last_sample_status = unwrap_or 0 (field_uint resp RESP_LAST_ENROLL_SAMPLE_STATUS),
      cs_remaining_samples = unwrap_or 0 (field_uint resp RESP_REMAINING_SAMPLES)\<rparr>"

definition timeout_entry :: "u64 option \<Rightarrow> (cbor_value \<times> cbor_value) list" where
  "timeout_entry timeout_ms = (case timeout_ms of None \<Rightarrow> [] | Some t \<Rightarrow> [(UInt PARAM_TIMEOUT_MS, UInt t)])"

definition enroll_begin :: "'k ctap_crypto \<Rightarrow> bio_enrollment \<Rightarrow> 'd ctap_transport \<Rightarrow> u64 option \<Rightarrow> 'd
    \<Rightarrow> (bytes \<times> capture_status, ctap_error) result \<times> bio_enrollment \<times> 'd" where
  "enroll_begin c s dev timeout_ms d =
     (let s = s\<lparr>be_captures := 0\<rparr>;
          params = (if timeout_ms = None then None else Some (Map (timeout_entry timeout_ms)));
          (out, d) = bind_dev (with_timeout dev CAPTURE_TIMEOUT
              (transact_cbor dev (be_cmd_code s) (bio_build_request c s SUB_ENROLL_BEGIN params)) d) (\<lambda>resp d.
            (bind_result (template_id_of resp RESP_TEMPLATE_ID) (\<lambda>i. Ok (i, capture_status_of resp)), d))
      in (out, s, d))"

definition capture_params :: "bytes \<Rightarrow> u64 option \<Rightarrow> cbor_value" where
  "capture_params template_id timeout_ms = Map ((UInt PARAM_TEMPLATE_ID, Bytes template_id) # timeout_entry timeout_ms)"

definition enroll_capture_next :: "'k ctap_crypto \<Rightarrow> bio_enrollment \<Rightarrow> 'd ctap_transport \<Rightarrow> bytes \<Rightarrow> u64 option \<Rightarrow> 'd
    \<Rightarrow> ((capture_status, ctap_error) result \<times> bio_enrollment \<times> 'd) option" where
  "enroll_capture_next c s dev template_id timeout_ms d =
     (if be_captures s = 0xffffffff then None
      else let s = s\<lparr>be_captures := be_captures s + 1\<rparr> in
      if MAX_CAPTURE_ITERATIONS < be_captures s
      then Some (Err (InvalidResponseShape
             ''authenticator kept requesting more fingerprint samples past the host cap''), s, d)
      else let request = bio_build_request c s SUB_ENROLL_CAPTURE_NEXT (Some (capture_params template_id timeout_ms));
               (out, d) = bind_dev (with_timeout dev CAPTURE_TIMEOUT
                   (transact_cbor dev (be_cmd_code s) request) d) (\<lambda>resp d. (Ok (capture_status_of resp), d))
           in Some (out, s, d))"

definition cancel_enrollment :: "bio_enrollment \<Rightarrow> 'd ctap_transport \<Rightarrow> 'd \<Rightarrow> (unit, ctap_error) result \<times> 'd" where
  "cancel_enrollment s dev d =
     bind_dev (transact_cbor dev (be_cmd_code s) (plain_request SUB_CANCEL_ENROLLMENT) d) (\<lambda>_ d. (Ok (), d))"

definition set_friendly_name :: "'k ctap_crypto \<Rightarrow> bio_enrollment \<Rightarrow> 'd ctap_transport \<Rightarrow> bytes \<Rightarrow> bytes \<Rightarrow> 'd
    \<Rightarrow> (unit, ctap_error) result \<times> 'd" where
  "set_friendly_name c s dev template_id name d =
     bind_dev (bio_dispatch c s dev SUB_SET_FRIENDLY_NAME (Some (Map
         [(UInt PARAM_TEMPLATE_ID, Bytes template_id), (UInt PARAM_TEMPLATE_FRIENDLY_NAME, Text name)])) d)
       (\<lambda>_ d. (Ok (), d))"

definition remove_enrollment :: "'k ctap_crypto \<Rightarrow> bio_enrollment \<Rightarrow> 'd ctap_transport \<Rightarrow> bytes \<Rightarrow> 'd
    \<Rightarrow> (unit, ctap_error) result \<times> 'd" where
  "remove_enrollment c s dev template_id d =
     bind_dev (bio_dispatch c s dev SUB_REMOVE_ENROLLMENT (Some (Map [(UInt PARAM_TEMPLATE_ID, Bytes template_id)])) d)
       (\<lambda>_ d. (Ok (), d))"

interpretation bio_auth: authenticated bio_auth_input "[ucast MODALITY_FINGERPRINT]" "bio_request protocol"
    BIO_SUB_COMMAND BIO_SUB_COMMAND_PARAMS BIO_PIN_UV_AUTH_PARAM for protocol
  by unfold_locales
    (simp_all add: bio_auth_input_def bio_request_def request_simps BIO_MODALITY_def BIO_SUB_COMMAND_def
      BIO_SUB_COMMAND_PARAMS_def BIO_PIN_UV_AUTH_PROTOCOL_def BIO_PIN_UV_AUTH_PARAM_def)

subsection \<open>What a session sends\<close>

text \<open>A transport that remembers the payloads handed to it.\<close>

definition logged :: "'d ctap_transport \<Rightarrow> ('d \<times> bytes list) ctap_transport" where
  "logged dev =
     \<lparr>transact_on = (\<lambda>cmd payload (d, log). let (out, d) = transact_on dev cmd payload d in (out, d, log @ [payload])),
      read_timeout = (\<lambda>(d, log). read_timeout dev d),
      set_timeout = (\<lambda>t (d, log). (set_timeout dev t d, log))\<rparr>"

datatype bio_call =
    CallSensorInfo
  | CallEnumerate
  | CallBegin "u64 option"
  | CallCapture bytes "u64 option"
  | CallCancel
  | CallRename bytes bytes
  | CallRemove bytes

text \<open>A call of a session, by what it leaves behind.\<close>

fun bio_call_run :: "'k ctap_crypto \<Rightarrow> 'd ctap_transport \<Rightarrow> bio_call \<Rightarrow> bio_enrollment \<Rightarrow> 'd \<Rightarrow> (bio_enrollment \<times> 'd) option" where
  "bio_call_run c dev CallSensorInfo s d = Some (s, snd (get_sensor_info s dev d))"
| "bio_call_run c dev CallEnumerate s d = Some (s, snd (enumerate_enrollments c s dev d))"
| "bio_call_run c dev (CallBegin t) s d = Some (snd (enroll_begin c s dev t d))"
| "bio_call_run c dev (CallCapture i t) s d = map_option snd (enroll_capture_next c s dev i t d)"
| "bio_call_run c dev CallCancel s d = Some (s, snd (cancel_enrollment s dev d))"
| "bio_call_run c dev (CallRename i name) s d = Some (s, snd (set_friendly_name c s dev i name d))"
| "bio_call_run c dev (CallRemove i) s d = Some (s, snd (remove_enrollment c s dev i d))"

inductive bio_reachable :: "'k ctap_crypto \<Rightarrow> 'd ctap_transport \<Rightarrow> bio_enrollment \<Rightarrow> 'd \<Rightarrow> bio_enrollment \<Rightarrow> 'd \<Rightarrow> bool"
  for c dev s0 d0 where
  start: "bio_reachable c dev s0 d0 s0 d0"
| call: "bio_reachable c dev s0 d0 s d \<Longrightarrow> bio_call_run c dev call s d = Some (s', d')
    \<Longrightarrow> bio_reachable c dev s0 d0 s' d'"

text \<open>The sub-command stands in the sixth byte of every payload; the captures on the wire since the
  last \<^verbatim>\<open>enrollBegin\<close>.\<close>

definition count_capture :: "nat \<Rightarrow> bytes \<Rightarrow> nat" where
  "count_capture n payload =
     (if payload ! 5 = SUB_ENROLL_BEGIN then 0
      else if payload ! 5 = SUB_ENROLL_CAPTURE_NEXT then n + 1 else n)"

definition captures_sent :: "bytes list \<Rightarrow> nat" where
  "captures_sent log = foldl count_capture 0 log"

lemma captures_sent_simps [simp]:
  "captures_sent [] = 0" "captures_sent (log @ [p]) = count_capture (captures_sent log) p"
  by (simp_all add: captures_sent_def)

lemma encode_small_uint: "n < 24 \<Longrightarrow> encode (UInt n) = [ucast n]"
  by (simp add: encode_header_def MT_UINT_def)

lemma encode_small_map: "length m < 24 \<Longrightarrow> \<exists>h. encode (Map m) = h # concat (map (\<lambda>(k, v). encode k @ encode v) m)"
  by (simp add: encode_header_def Let_def word_less_nat_alt unsigned_of_nat take_bit_nat_eq_self)

lemma encode_bio_entries:
  assumes "length m < 20" and "sub < 24"
  shows "\<exists>h r. encode (Map ([(UInt BIO_MODALITY, UInt MODALITY_FINGERPRINT), (UInt BIO_SUB_COMMAND, UInt (ucast sub))] @ m))
    = h # 1 # 1 # 2 # sub # r"
proof -
  let ?m = "[(UInt BIO_MODALITY, UInt MODALITY_FINGERPRINT), (UInt BIO_SUB_COMMAND, UInt (ucast sub))] @ m"
  have "ucast sub < (24 :: u64)" using assms(2) by (simp add: word_less_nat_alt)
  moreover have "ucast (ucast sub :: u64) = sub" by (rule bit_word_eqI) (simp add: bit_ucast_iff)
  ultimately have "encode (UInt (ucast sub)) = [sub]" using encode_small_uint [of "ucast sub"] by simp
  moreover have "encode (UInt 1) = [1]" "encode (UInt 2) = [2]" by (simp_all add: encode_small_uint del: encode.simps)
  moreover obtain h where "encode (Map ?m) = h # concat (map (\<lambda>(k, v). encode k @ encode v) ?m)"
    using encode_small_map [of ?m] assms(1) by auto
  ultimately show ?thesis by (simp add: BIO_MODALITY_def MODALITY_FINGERPRINT_def BIO_SUB_COMMAND_def del: encode.simps)
qed

lemma sixth_byte:
  assumes "sub < 24"
  shows "(cmd # encode (plain_request sub)) ! 5 = sub" and "(cmd # encode (bio_request protocol sub params tag)) ! 5 = sub"
  using encode_bio_entries [OF _ assms, of "[]"]
    encode_bio_entries [OF _ assms, of "params_entry BIO_SUB_COMMAND_PARAMS params
      @ [(UInt BIO_PIN_UV_AUTH_PROTOCOL, UInt (ucast protocol)), (UInt BIO_PIN_UV_AUTH_PARAM, Bytes tag)]"]
  by (auto simp: plain_request_def bio_request_def length_params_entry)

lemma count_request:
  assumes "sub < 24"
  shows "count_capture n (cmd # encode (plain_request sub))
      = (if sub = SUB_ENROLL_BEGIN then 0 else if sub = SUB_ENROLL_CAPTURE_NEXT then n + 1 else n)"
    and "count_capture n (cmd # encode (bio_request protocol sub params tag))
      = (if sub = SUB_ENROLL_BEGIN then 0 else if sub = SUB_ENROLL_CAPTURE_NEXT then n + 1 else n)"
  by (simp_all only: count_capture_def sixth_byte [OF assms])

lemmas bio_subs = SUB_ENROLL_BEGIN_def SUB_ENROLL_CAPTURE_NEXT_def SUB_CANCEL_ENROLLMENT_def
  SUB_ENUMERATE_ENROLLMENTS_def SUB_SET_FRIENDLY_NAME_def SUB_REMOVE_ENROLLMENT_def SUB_GET_SENSOR_INFO_def

lemma snd_bind_dev [simp]: "snd (bind_dev m (\<lambda>a d. (f a, d))) = snd m"
  by (cases m; cases "fst m") auto

text \<open>Each exchange appends its payload.\<close>

lemma snd_transact_cbor: "snd (transact_cbor dev cmd request d) = snd (transact_on dev CTAPHID_CBOR (cmd # encode request) d)"
  by (simp add: transact_cbor_def)

lemma snd_with_timeout: "snd (with_timeout dev t f d) = set_timeout dev (read_timeout dev d) (snd (f (set_timeout dev t d)))"
  by (simp add: with_timeout_def case_prod_beta Let_def)

lemma logged_exchange:
  "snd (snd (transact_cbor (logged dev) cmd request dl)) = snd dl @ [cmd # encode request]"
  "snd (snd (with_timeout (logged dev) t (transact_cbor (logged dev) cmd request) dl)) = snd dl @ [cmd # encode request]"
  by (simp_all add: snd_transact_cbor snd_with_timeout logged_def case_prod_beta Let_def)

lemma logged_enumerate:
  "snd (snd (enumerate_enrollments c s (logged dev) dl)) =
     snd dl @ [be_cmd_code s # encode (bio_build_request c s SUB_ENUMERATE_ENROLLMENTS None)]"
proof -
  have "snd (enumerate_enrollments c s (logged dev) dl) = snd (bio_dispatch c s (logged dev) SUB_ENUMERATE_ENROLLMENTS None dl)"
    by (auto simp: enumerate_enrollments_def split: prod.splits result.splits)
  then show ?thesis by (simp add: bio_dispatch_def logged_exchange)
qed

text \<open>The captures on the wire are those the session has counted, up to the cap.\<close>

definition budget :: "bio_enrollment \<Rightarrow> nat" where
  "budget s = min (unat (be_captures s)) (unat MAX_CAPTURE_ITERATIONS)"

lemma next_count: "n \<noteq> 0xffffffff \<Longrightarrow> unat (n + 1 :: u32) = unat n + 1"
  using unsigned_less [of n, where ?'a = nat] by (auto simp: unat_word_ariths word_unat_eq_iff)

lemma begin_step:
  assumes "enroll_begin c s (logged dev) t dl = (out, s', dl')"
  shows "captures_sent (snd dl') = 0 \<and> budget s' = 0"
  using assms
  by (auto simp: enroll_begin_def Let_def case_prod_beta logged_exchange count_request bio_build_request_def
      bio_subs budget_def)

lemma capture_step:
  assumes "enroll_capture_next c s (logged dev) i t dl = Some (out, s', dl')"
    and "captures_sent (snd dl) = budget s"
  shows "captures_sent (snd dl') = budget s'"
proof -
  have no_wrap: "unat (be_captures s + 1) = unat (be_captures s) + 1"
    using assms(1) by (intro next_count) (auto simp: enroll_capture_next_def)
  show ?thesis
    using assms no_wrap
    by (auto simp: enroll_capture_next_def Let_def case_prod_beta logged_exchange count_request bio_build_request_def
        bio_subs budget_def MAX_CAPTURE_ITERATIONS_def word_less_nat_alt split: if_splits)
qed

lemma call_step:
  assumes "bio_call_run c (logged dev) call s dl = Some (s', dl')" and "captures_sent (snd dl) = budget s"
  shows "captures_sent (snd dl') = budget s'"
proof (cases call)
  case (CallBegin t)
  then show ?thesis using assms begin_step [of c s dev t dl] by (cases "enroll_begin c s (logged dev) t dl") auto
next
  case (CallCapture i t)
  then show ?thesis using assms capture_step [of c s dev i t dl] by auto
qed (use assms in \<open>auto simp: get_sensor_info_def logged_enumerate cancel_enrollment_def set_friendly_name_def
      remove_enrollment_def bio_dispatch_def logged_exchange bio_build_request_def count_request bio_subs\<close>)

lemma reachable_budget:
  assumes "bio_reachable c (logged dev) s0 dl0 s dl" and "captures_sent (snd dl0) = budget s0"
  shows "captures_sent (snd dl) = budget s"
  using assms by (induction rule: bio_reachable.induct) (auto dest: call_step)

lemma capture_sends:
  assumes "captures_sent log = budget s"
  shows "case enroll_capture_next c s (logged dev) i t (d, log) of
      None \<Rightarrow> be_captures s = 0xffffffff
    | Some (out, s', d', log') \<Rightarrow>
        (if captures_sent log < 64 then captures_sent log' = captures_sent log + 1
         else (\<exists>e. out = Err e) \<and> d' = d \<and> log' = log)"
proof (cases "enroll_capture_next c s (logged dev) i t (d, log)")
  case None
  then show ?thesis by (auto simp: enroll_capture_next_def Let_def case_prod_beta split: if_splits)
next
  case (Some r)
  obtain out s' d' log' where r: "r = (out, s', d', log')" by (cases r) auto
  have ne: "be_captures s \<noteq> 0xffffffff" using Some by (auto simp: enroll_capture_next_def)
  have next_captures: "unat (be_captures s + 1) = unat (be_captures s) + 1" using ne by (rule next_count)
  have "captures_sent log < 64 \<longleftrightarrow> unat (be_captures s) < 64"
    using assms by (simp add: budget_def MAX_CAPTURE_ITERATIONS_def min_less_iff_disj)
  moreover have "budget s' = unat (be_captures s) + 1" if "unat (be_captures s) < 64"
    using Some r ne that next_captures
    by (auto simp: enroll_capture_next_def Let_def case_prod_beta budget_def MAX_CAPTURE_ITERATIONS_def
        word_less_nat_alt split: if_splits)
  moreover have "(\<exists>e. out = Err e) \<and> d' = d \<and> log' = log" if "\<not> unat (be_captures s) < 64"
    using Some r ne that next_captures
    by (auto simp: enroll_capture_next_def Let_def MAX_CAPTURE_ITERATIONS_def word_less_nat_alt)
  ultimately show ?thesis
    using Some r assms capture_step [of c s dev i t "(d, log)" out s' "(d', log')"]
    by (simp add: budget_def MAX_CAPTURE_ITERATIONS_def)
qed

text \<open>The deadline of the caller survives the capture steps.\<close>

context timed_transport
begin

lemma enroll_begin_restores: "read_timeout dev (snd (snd (enroll_begin c s dev t d))) = read_timeout dev d"
  by (simp add: enroll_begin_def Let_def case_prod_beta with_timeout_restores)

lemma enroll_capture_restores:
  "enroll_capture_next c s dev i t d = Some (out, s', d') \<Longrightarrow> read_timeout dev d' = read_timeout dev d"
  by (auto simp: enroll_capture_next_def Let_def case_prod_beta with_timeout_restores split: if_splits)

end

text \<open>C29: however a session is used, and whatever the key answers, the capture requests on the wire
  since the last \<^verbatim>\<open>enrollBegin\<close> are those the session counted, at most 64.  A capture is sent while fewer than
  64 are; from then on it is refused without touching the key.\<close>

theorem bio_capture_bounded:
  assumes "bio_reachable c (logged dev) (bio_new token cmd) (d0, []) s (d, log)"
  shows "captures_sent log = min (unat (be_captures s)) 64
    \<and> (case enroll_capture_next c s (logged dev) i t (d, log) of
         None \<Rightarrow> be_captures s = 0xffffffff
       | Some (out, s', d', log') \<Rightarrow>
           (if captures_sent log < 64 then captures_sent log' = captures_sent log + 1
            else (\<exists>e. out = Err e) \<and> d' = d \<and> log' = log))"
proof -
  have sent: "captures_sent log = budget s"
    using reachable_budget [OF assms] by (simp add: bio_new_def budget_def)
  show ?thesis
    by (rule conjI [OF _ capture_sends [OF sent]]) (simp add: sent budget_def MAX_CAPTURE_ITERATIONS_def)
qed

definition demo_sensor :: "unit ctap_transport" where
  "demo_sensor = default_transport (\<lambda>_ _ d. (Ok [0], d))"

theorem bio_capture_bounded_witness:
  "case bio_call_run demo_crypto (logged demo_sensor) (CallBegin None) (bio_new \<lparr>tk_protocol = 2, tk_token = []\<rparr> 9) ((), []) of
     None \<Rightarrow> False
   | Some (s, d, log) \<Rightarrow> be_captures s = 0 \<and> captures_sent log = 0
       \<and> (case enroll_capture_next demo_crypto s (logged demo_sensor) [1] None (d, log) of
            None \<Rightarrow> False | Some (_, _, _, log') \<Rightarrow> captures_sent log' = 1)"
proof -
  let ?s0 = "bio_new \<lparr>tk_protocol = 2, tk_token = []\<rparr> 9"
  obtain out s d log where e: "enroll_begin demo_crypto ?s0 (logged demo_sensor) None ((), []) = (out, s, d, log)"
    by (metis prod_cases4)
  then have z: "be_captures s = 0" by (auto simp: enroll_begin_def Let_def case_prod_beta)
  from e have run: "bio_call_run demo_crypto (logged demo_sensor) (CallBegin None) ?s0 ((), []) = Some (s, d, log)" by simp
  have "bio_reachable demo_crypto (logged demo_sensor) ?s0 ((), []) s (d, log)"
    by (rule bio_reachable.call [OF bio_reachable.start run])
  from bio_capture_bounded [OF this, of "[1]" None] show ?thesis
    unfolding run using z by (auto split: option.splits prod.splits)
qed

end
