(* ===== verification/Ctap_Manage.thy ===== *)
theory Ctap_Manage
  imports Cred_Mgmt Ctap_Config Bio_Enroll Large_Blobs
begin

text \<open>
  One \<^verbatim>\<open>pinUvAuthToken\<close> serves four commands.  Credential management, biometric enrolment,
  configuration and the large-blob write each authenticate a byte string of their own under it; this
  theory compares the four.
\<close>

definition blob_auth_input :: "u32 \<Rightarrow> bytes \<Rightarrow> bytes" where
  "blob_auth_input offset hash = replicate 32 0xff @ [CTAP2_LARGE_BLOBS, 0x00] @ rev (u32_to_be offset) @ hash"

text \<open>The sub-commands are at most 7, parameters start at \<open>0xa0\<close>.\<close>

lemma input_heads:
  "cred_auth_input a p = a # params_bytes p"
  "bio_auth_input a p = 1 # a # params_bytes p"
  "config_auth_input a p = replicate 32 0xff @ 0x0d # a # params_bytes p"
  by (simp_all add: cred_auth_input_def bio_auth_input_def config_auth_input_def MODALITY_FINGERPRINT_def CTAP2_CONFIG_def)

lemma params_not_sub:
  assumes "sendable p" and "b \<le> (7 :: byte)"
  shows "params_bytes p \<noteq> b # r"
proof (cases p)
  case (Some v)
  then obtain h t where "params_bytes p = h # t" "0xa0 \<le> h" using params_bytes_map assms(1) by blast
  moreover have "h \<noteq> b" using \<open>0xa0 \<le> h\<close> assms(2) by (auto simp: word_le_nat_alt)
  ultimately show ?thesis by simp
qed (simp add: params_bytes_def)

lemma replicate_32_Cons: "replicate 32 x = x # replicate 31 x"
  by (simp add: numeral_eq_Suc)

text \<open>C27: what one command authenticates is never what another of the four authenticates, and within a
  command it determines the sub-command and its parameters.  So an authentication seen on the wire cannot be
  replayed for a different operation on a key that keeps to the formats.\<close>

theorem ctap_auth_separate:
  assumes "sendable p" and "sendable q" and "a \<le> 7" and "b \<le> 7"
  shows "(cred_auth_input a p = cred_auth_input b q \<longleftrightarrow> a = b \<and> p = q)
    \<and> (bio_auth_input a p = bio_auth_input b q \<longleftrightarrow> a = b \<and> p = q)
    \<and> (config_auth_input a p = config_auth_input b q \<longleftrightarrow> a = b \<and> p = q)
    \<and> cred_auth_input a p \<noteq> bio_auth_input b q
    \<and> cred_auth_input a p \<noteq> config_auth_input b q
    \<and> bio_auth_input a p \<noteq> config_auth_input b q
    \<and> write_auth_param c token offset fragment = token_authenticate c token (blob_auth_input offset (cr_sha256 c fragment))
    \<and> blob_auth_input offset hash \<notin> {cred_auth_input a p, bio_auth_input a p, config_auth_input a p}"
proof (intro conjI)
  have a: "a \<noteq> 0xff" using assms(3) by (auto simp: word_le_nat_alt)
  show "cred_auth_input a p = cred_auth_input b q \<longleftrightarrow> a = b \<and> p = q" using cred_auth.input_inj assms(1,2) by blast
  show "bio_auth_input a p = bio_auth_input b q \<longleftrightarrow> a = b \<and> p = q" using bio_auth.input_inj assms(1,2) by blast
  show "config_auth_input a p = config_auth_input b q \<longleftrightarrow> a = b \<and> p = q" using config_auth.input_inj assms(1,2) by blast
  show "cred_auth_input a p \<noteq> bio_auth_input b q" using params_not_sub assms(1,4) by (simp add: input_heads)
  show "cred_auth_input a p \<noteq> config_auth_input b q" using a by (simp add: input_heads replicate_32_Cons)
  show "bio_auth_input a p \<noteq> config_auth_input b q" by (simp add: input_heads replicate_32_Cons)
  show "write_auth_param c token offset fragment = token_authenticate c token (blob_auth_input offset (cr_sha256 c fragment))"
    by (simp add: write_auth_param_def blob_auth_input_def)
  show "blob_auth_input offset hash \<notin> {cred_auth_input a p, bio_auth_input a p, config_auth_input a p}"
    using a by (auto simp: input_heads blob_auth_input_def CTAP2_LARGE_BLOBS_def replicate_32_Cons)
qed

theorem ctap_auth_separate_witness:
  "cred_auth_input SUB_DELETE_CREDENTIAL (Some (Map [(UInt 2, Null)])) \<noteq> bio_auth_input SUB_REMOVE_ENROLLMENT None
   \<and> blob_auth_input 0 [] \<noteq> config_auth_input SUB_DELETE_CREDENTIAL (Some (Map [(UInt 2, Null)]))"
proof -
  have "sendable (Some (Map [(UInt 2, Null)]))" "sendable None"
    by (simp_all add: sendable_def DECODE_DEPTH_LIMIT_def)
  moreover have "SUB_DELETE_CREDENTIAL \<le> 7" "SUB_REMOVE_ENROLLMENT \<le> 7"
    by (simp_all add: SUB_DELETE_CREDENTIAL_def SUB_REMOVE_ENROLLMENT_def)
  ultimately show ?thesis using ctap_auth_separate by blast
qed

end
