(* ===== verification/Import_Entry.thy ===== *)
theory Import_Entry
  imports Oath Codec Molto2
begin

text \<open>
  \<^verbatim>\<open>crates/keyroost-import/src/entry.rs\<close> and \<^verbatim>\<open>otpauth.rs\<close>: the entries an authenticator
  export can carry, and the two readers of an \<^verbatim>\<open>otpauth://\<close> URI.  The narrow reader gives
  what a Molto2 slot stores, the wide one what some key may store.
\<close>

definition MAX_SECRET_BYTES :: nat where "MAX_SECRET_BYTES = 255"
definition MAX_ENTRIES :: nat where "MAX_ENTRIES = 1000"

datatype hash_alg = HashSha1 | HashSha256 | HashSha512
datatype otp_kind = KindTotp u32 | KindHotp u64

record import_entry =
  ie_issuer :: "bytes option"
  ie_account :: "bytes option"
  ie_secret :: bytes
  ie_hash :: hash_alg
  ie_digits :: byte
  ie_kind :: otp_kind

datatype unusable =
    BadSecret
  | BadType bytes
  | BadHash bytes
  | BadDigits u32
  | BadPeriod u32
  | MalformedEntry string

record import_item =
  it_index :: nat
  it_label :: bytes
  it_entry :: "(import_entry, unusable) result"

datatype import_format = FAegis | FAegisEncrypted | FTwoFas | FOtpauthList | FQrImage | FGoogleExport

record import_file =
  if_format :: import_format
  if_items :: "import_item list"
  if_batch :: "(u32 \<times> u32) option"

definition usable :: "import_file \<Rightarrow> nat" where
  "usable f = length (filter (\<lambda>i. case it_entry i of Ok _ \<Rightarrow> True | Err _ \<Rightarrow> False) (if_items f))"

text \<open>\<^verbatim>\<open>filter(|s| !s.is_empty())\<close> and \<^verbatim>\<open>Option::or\<close>\<close>

definition non_empty :: "bytes option \<Rightarrow> bytes option" where
  "non_empty x = (case x of Some s \<Rightarrow> if s = [] then None else Some s | None \<Rightarrow> None)"

definition or_else :: "'a option \<Rightarrow> 'a option \<Rightarrow> 'a option" where
  "or_else x y = (case x of Some v \<Rightarrow> Some v | None \<Rightarrow> y)"

definition name_label :: "bytes option \<Rightarrow> bytes option \<Rightarrow> bytes option" where
  "name_label issuer account =
     (case (non_empty issuer, non_empty account) of
        (Some i, Some a) \<Rightarrow> Some (i @ 0x3a # a)
      | (Some one, None) \<Rightarrow> Some one
      | (None, Some one) \<Rightarrow> Some one
      | (None, None) \<Rightarrow> None)"

definition is_char_boundary :: "bytes \<Rightarrow> nat \<Rightarrow> bool" where
  "is_char_boundary s i \<longleftrightarrow> i = 0 \<or> i = length s \<or> i < length s \<and> \<not> utf8_cont (s ! i)"

text \<open>\<^verbatim>\<open>while end > 0 && !s.is_char_boundary(end)\<close>\<close>

fun boundary_down :: "bytes \<Rightarrow> nat \<Rightarrow> nat" where
  "boundary_down s 0 = 0"
| "boundary_down s (Suc n) = (if is_char_boundary s (Suc n) then Suc n else boundary_down s n)"

definition molto_title :: "bytes option \<Rightarrow> bytes option \<Rightarrow> bytes" where
  "molto_title issuer account =
     (let candidate = (case or_else issuer account of Some s \<Rightarrow> s | None \<Rightarrow> [])
      in take (boundary_down candidate (min (length candidate) 12)) candidate)"

definition hash_from_name :: "bytes \<Rightarrow> (hash_alg, unusable) result" where
  "hash_from_name name =
     (let upper = to_ascii_uppercase name in
      if upper = ascii ''SHA1'' then Ok HashSha1
      else if upper = ascii ''SHA256'' then Ok HashSha256
      else if upper = ascii ''SHA512'' then Ok HashSha512
      else Err (BadHash upper))"

datatype type_name = NameTotp | NameHotp

definition type_from_name :: "bytes \<Rightarrow> (type_name, unusable) result" where
  "type_from_name name =
     (if to_ascii_lowercase name = ascii ''totp'' then Ok NameTotp
      else if to_ascii_lowercase name = ascii ''hotp'' then Ok NameHotp
      else Err (BadType name))"

definition check_secret :: "bytes \<Rightarrow> (bytes, unusable) result" where
  "check_secret secret = (if secret = [] \<or> MAX_SECRET_BYTES < length secret then Err BadSecret else Ok secret)"

definition decode_secret :: "bytes \<Rightarrow> (bytes, unusable) result" where
  "decode_secret secret_b32 =
     (case base32_decode secret_b32 of Err _ \<Rightarrow> Err BadSecret | Ok secret \<Rightarrow> check_secret secret)"

definition finish_entry :: "bytes option \<Rightarrow> bytes option \<Rightarrow> bytes \<Rightarrow> hash_alg \<Rightarrow> u32 \<Rightarrow> otp_kind
    \<Rightarrow> (import_entry, unusable) result" where
  "finish_entry issuer account secret hash digits kind =
     (if \<not> (1 \<le> digits \<and> digits \<le> 10) then Err (BadDigits digits)
      else if kind = KindTotp 0 then Err (BadPeriod 0)
      else Ok \<lparr>ie_issuer = non_empty issuer, ie_account = non_empty account, ie_secret = secret,
               ie_hash = hash, ie_digits = ucast digits, ie_kind = kind\<rparr>)"

subsection \<open>Pieces of a URI\<close>

datatype split_error = SplitNotOtpAuth | SplitNoLabel

record uri_parts =
  up_typ :: bytes
  up_label_raw :: bytes
  up_query :: bytes

definition split_uri :: "bytes \<Rightarrow> (uri_parts, split_error) result" where
  "split_uri uri =
     bind_result (ok_or SplitNotOtpAuth (strip_prefix (ascii ''otpauth://'') uri)) (\<lambda>rest.
     let (typ_label, query) = (case split_once 0x3f rest of Some p \<Rightarrow> p | None \<Rightarrow> (rest, []))
     in bind_result (ok_or SplitNoLabel (split_once 0x2f typ_label)) (\<lambda>(typ, label_raw).
        Ok \<lparr>up_typ = typ, up_label_raw = label_raw, up_query = query\<rparr>))"

definition uri_hex_nibble :: "byte \<Rightarrow> byte option" where
  "uri_hex_nibble c =
     (if 0x30 \<le> c \<and> c \<le> 0x39 then Some (c - 0x30)
      else if 0x61 \<le> c \<and> c \<le> 0x66 then Some (c - 0x61 + 10)
      else if 0x41 \<le> c \<and> c \<le> 0x46 then Some (c - 0x41 + 10)
      else None)"

fun percent_loop :: "bool \<Rightarrow> bytes \<Rightarrow> bytes option" where
  "percent_loop form [] = Some []"
| "percent_loop form (c # s) =
     (if c = 0x2b \<and> form then map_option (Cons 0x20) (percent_loop form s)
      else if c = 0x25 then
        (case s of
           h # l # r \<Rightarrow>
             (case (uri_hex_nibble h, uri_hex_nibble l) of
                (Some hi, Some lo) \<Rightarrow> map_option (Cons (push_bit 4 hi OR lo)) (percent_loop form r)
              | _ \<Rightarrow> None)
         | _ \<Rightarrow> None)
      else map_option (Cons c) (percent_loop form s))"

definition percent_decode_impl :: "bytes \<Rightarrow> bool \<Rightarrow> bytes option" where
  "percent_decode_impl s plus_is_space = Option.bind (percent_loop plus_is_space s) from_utf8"

definition percent_decode :: "bytes \<Rightarrow> bytes option" where "percent_decode s = percent_decode_impl s True"
definition percent_decode_keep_plus :: "bytes \<Rightarrow> bytes option" where
  "percent_decode_keep_plus s = percent_decode_impl s False"

definition query_params :: "bytes \<Rightarrow> (bytes \<times> bytes option) list" where
  "query_params query =
     map (\<lambda>kv. let (k, v) = (case split_once 0x3d kv of Some p \<Rightarrow> p | None \<Rightarrow> (kv, []))
               in (k, percent_decode v))
       (filter (\<lambda>kv. kv \<noteq> []) (split_on 0x26 query))"

definition split_label :: "bytes \<Rightarrow> bytes option \<times> bytes option" where
  "split_label lbl =
     (case split_once 0x3a lbl of
        Some (i, a) \<Rightarrow> (Some (str_trim i), Some (str_trim a))
      | None \<Rightarrow> if lbl = [] then (None, None) else (None, Some (str_trim lbl)))"

subsection \<open>The narrow reader\<close>

datatype otp_auth_error =
    NotOtpAuth
  | UnsupportedType bytes
  | MissingSecret
  | InvalidSecret
  | UnsupportedAlgorithm bytes
  | UnsupportedDigits u32
  | UnsupportedPeriod u32
  | MalformedUri string

record otp_auth =
  oa_issuer :: "bytes option"
  oa_account :: "bytes option"
  oa_secret :: bytes
  oa_algorithm :: hmac_algo
  oa_digits :: otp_digits
  oa_time_step :: time_step

definition truncate_bytes :: "bytes \<Rightarrow> nat \<Rightarrow> bytes" where
  "truncate_bytes s n = (if length s \<le> n then s else take (boundary_down s n) s)"

definition suggested_title :: "otp_auth \<Rightarrow> bytes" where
  "suggested_title a =
     truncate_bytes (case or_else (oa_issuer a) (oa_account a) of Some s \<Rightarrow> s | None \<Rightarrow> []) 12"

definition molto_digits_of :: "u32 \<Rightarrow> (otp_digits, otp_auth_error) result" where
  "molto_digits_of n =
     (if n = 4 then Ok Four else if n = 6 then Ok Six else if n = 8 then Ok Eight
      else if n = 10 then Ok Ten else Err (UnsupportedDigits n))"

definition molto_algorithm_of :: "bytes \<Rightarrow> (hmac_algo, otp_auth_error) result" where
  "molto_algorithm_of v =
     (let upper = to_ascii_uppercase v in
      if upper = ascii ''SHA1'' then Ok Sha1 else if upper = ascii ''SHA256'' then Ok Sha256
      else Err (UnsupportedAlgorithm upper))"

definition molto_step_of :: "u32 \<Rightarrow> (time_step, otp_auth_error) result" where
  "molto_step_of p =
     (if p = 30 then Ok Seconds30 else if p = 60 then Ok Seconds60 else Err (UnsupportedPeriod p))"

definition parse_uint32 :: "bytes \<Rightarrow> u32 option" where
  "parse_uint32 s = map_option word_of_nat (parse_unsigned (2 ^ 32) s)"

definition parse_uint64 :: "bytes \<Rightarrow> u64 option" where
  "parse_uint64 s = map_option word_of_nat (parse_unsigned (2 ^ 64) s)"

record narrow_params =
  np_secret :: "bytes option"
  np_issuer_param :: "bytes option"
  np_algorithm :: hmac_algo
  np_digits :: otp_digits
  np_period_param :: u32

fun narrow_param :: "bytes \<times> bytes option \<Rightarrow> narrow_params \<Rightarrow> (narrow_params, otp_auth_error) result" where
  "narrow_param (k, None) st = Err (MalformedUri ''query value percent-encoding'')"
| "narrow_param (k, Some v) st =
     (if k = ascii ''secret'' then Ok (st\<lparr>np_secret := Some v\<rparr>)
      else if k = ascii ''issuer'' then Ok (st\<lparr>np_issuer_param := Some v\<rparr>)
      else if k = ascii ''algorithm'' then
        bind_result (molto_algorithm_of v) (\<lambda>a. Ok (st\<lparr>np_algorithm := a\<rparr>))
      else if k = ascii ''digits'' then
        bind_result (ok_or (MalformedUri ''digits'') (parse_uint32 v)) (\<lambda>n.
        bind_result (molto_digits_of n) (\<lambda>d. Ok (st\<lparr>np_digits := d\<rparr>)))
      else if k = ascii ''period'' then
        bind_result (ok_or (MalformedUri ''period'') (parse_uint32 v)) (\<lambda>n. Ok (st\<lparr>np_period_param := n\<rparr>))
      else Ok st)"

fun narrow_loop :: "(bytes \<times> bytes option) list \<Rightarrow> narrow_params \<Rightarrow> (narrow_params, otp_auth_error) result" where
  "narrow_loop [] st = Ok st"
| "narrow_loop (p # ps) st = bind_result (narrow_param p st) (narrow_loop ps)"

definition narrow_start :: narrow_params where
  "narrow_start = \<lparr>np_secret = None, np_issuer_param = None, np_algorithm = Sha1, np_digits = Six, np_period_param = 30\<rparr>"

definition molto_secret_of :: "bytes \<Rightarrow> (bytes, otp_auth_error) result" where
  "molto_secret_of b32 =
     (case base32_decode b32 of
        Err _ \<Rightarrow> Err InvalidSecret
      | Ok secret \<Rightarrow> if secret = [] \<or> 63 < length secret then Err InvalidSecret else Ok secret)"

definition otpauth_parse :: "bytes \<Rightarrow> (otp_auth, otp_auth_error) result" where
  "otpauth_parse uri =
     (case split_uri uri of
        Err SplitNotOtpAuth \<Rightarrow> Err NotOtpAuth
      | Err SplitNoLabel \<Rightarrow> Err (MalformedUri ''missing label'')
      | Ok parts \<Rightarrow>
          if to_ascii_lowercase (up_typ parts) \<noteq> ascii ''totp'' then Err (UnsupportedType (up_typ parts))
          else
            bind_result (ok_or (MalformedUri ''label percent-encoding'')
                           (percent_decode_keep_plus (up_label_raw parts))) (\<lambda>lbl.
            bind_result (narrow_loop (query_params (up_query parts)) narrow_start) (\<lambda>st.
            bind_result (molto_step_of (np_period_param st)) (\<lambda>time_step.
            bind_result (ok_or MissingSecret (np_secret st)) (\<lambda>secret_b32.
            bind_result (molto_secret_of secret_b32) (\<lambda>secret.
            let (label_issuer, account) = split_label lbl
            in Ok \<lparr>oa_issuer = non_empty (or_else (np_issuer_param st) label_issuer),
                   oa_account = non_empty account, oa_secret = secret, oa_algorithm = np_algorithm st,
                   oa_digits = np_digits st, oa_time_step = time_step\<rparr>))))))"

subsection \<open>The wide reader\<close>

record wide_params =
  wp_secret :: "bytes option"
  wp_issuer :: "bytes option"
  wp_algorithm :: "bytes option"
  wp_digits :: u32
  wp_period :: u32
  wp_counter :: u64
  wp_counter_malformed :: bool
  wp_malformed :: "string option"

definition note_malformed :: "string \<Rightarrow> wide_params \<Rightarrow> wide_params" where
  "note_malformed what st = st\<lparr>wp_malformed := or_else (wp_malformed st) (Some what)\<rparr>"

fun wide_param :: "bytes \<times> bytes option \<Rightarrow> wide_params \<Rightarrow> wide_params" where
  "wide_param (k, None) st = note_malformed ''a parameter's percent-encoding is invalid'' st"
| "wide_param (k, Some v) st =
     (if k = ascii ''secret'' then st\<lparr>wp_secret := Some v\<rparr>
      else if k = ascii ''issuer'' then st\<lparr>wp_issuer := Some v\<rparr>
      else if k = ascii ''algorithm'' then st\<lparr>wp_algorithm := Some v\<rparr>
      else if k = ascii ''digits'' then
        (case parse_uint32 v of
           Some n \<Rightarrow> st\<lparr>wp_digits := n\<rparr> | None \<Rightarrow> note_malformed ''the digits value isn't a number'' st)
      else if k = ascii ''period'' then
        (case parse_uint32 v of
           Some n \<Rightarrow> st\<lparr>wp_period := n\<rparr> | None \<Rightarrow> note_malformed ''the period value isn't a number'' st)
      else if k = ascii ''counter'' then
        (case parse_uint64 v of
           Some n \<Rightarrow> st\<lparr>wp_counter := n\<rparr> | None \<Rightarrow> st\<lparr>wp_counter_malformed := True\<rparr>)
      else st)"

definition wide_start :: wide_params where
  "wide_start = \<lparr>wp_secret = None, wp_issuer = None, wp_algorithm = None, wp_digits = 6, wp_period = 30,
     wp_counter = 0, wp_counter_malformed = False, wp_malformed = None\<rparr>"

definition wide_entry_of :: "bytes \<Rightarrow> bytes option \<Rightarrow> bytes option \<Rightarrow> wide_params \<Rightarrow> (import_entry, unusable) result" where
  "wide_entry_of typ issuer account st =
     bind_result (type_from_name typ) (\<lambda>kind.
     case wp_malformed st of
       Some what \<Rightarrow> Err (MalformedEntry what)
     | None \<Rightarrow>
         if wp_counter_malformed st \<and> kind = NameHotp
         then Err (MalformedEntry ''the counter value isn't a number'')
         else
           bind_result (decode_secret (case wp_secret st of Some s \<Rightarrow> s | None \<Rightarrow> [])) (\<lambda>secret.
           bind_result (hash_from_name (case wp_algorithm st of Some a \<Rightarrow> a | None \<Rightarrow> ascii ''SHA1'')) (\<lambda>hash.
           finish_entry issuer account secret hash (wp_digits st)
             (case kind of NameTotp \<Rightarrow> KindTotp (wp_period st) | NameHotp \<Rightarrow> KindHotp (wp_counter st)))))"

definition parse_entry_labeled :: "bytes \<Rightarrow> bytes option \<times> (import_entry, unusable) result" where
  "parse_entry_labeled uri =
     (case split_uri uri of
        Err SplitNotOtpAuth \<Rightarrow> (None, Err (MalformedEntry ''not an otpauth:// URI''))
      | Err SplitNoLabel \<Rightarrow> (None, Err (MalformedEntry ''the URI has no label''))
      | Ok parts \<Rightarrow>
          (case percent_decode_keep_plus (up_label_raw parts) of
             None \<Rightarrow> (None, Err (MalformedEntry ''the label's percent-encoding is invalid''))
           | Some lbl \<Rightarrow>
               let (label_issuer, account) = split_label lbl;
                   st = fold wide_param (query_params (up_query parts)) wide_start;
                   issuer = non_empty (or_else (wp_issuer st) label_issuer);
                   account = non_empty account
               in (name_label issuer account, wide_entry_of (up_typ parts) issuer account st)))"

definition parse_entry :: "bytes \<Rightarrow> (import_entry, unusable) result" where
  "parse_entry uri = snd (parse_entry_labeled uri)"

subsection \<open>The readers agree\<close>

fun hash_of_algo :: "hmac_algo \<Rightarrow> hash_alg" where
  "hash_of_algo Sha1 = HashSha1" | "hash_of_algo Sha256 = HashSha256"

fun digit_count :: "otp_digits \<Rightarrow> u32" where
  "digit_count Four = 4" | "digit_count Six = 6" | "digit_count Eight = 8" | "digit_count Ten = 10"

fun step_seconds :: "time_step \<Rightarrow> u32" where
  "step_seconds Seconds30 = 30" | "step_seconds Seconds60 = 60"

definition entry_of_auth :: "otp_auth \<Rightarrow> import_entry" where
  "entry_of_auth a =
     \<lparr>ie_issuer = oa_issuer a, ie_account = oa_account a, ie_secret = oa_secret a,
      ie_hash = hash_of_algo (oa_algorithm a), ie_digits = ucast (digit_count (oa_digits a)),
      ie_kind = KindTotp (step_seconds (oa_time_step a))\<rparr>"

definition same_params :: "narrow_params \<Rightarrow> wide_params \<Rightarrow> bool" where
  "same_params n w \<longleftrightarrow> wp_secret w = np_secret n \<and> wp_issuer w = np_issuer_param n \<and> wp_malformed w = None
     \<and> hash_from_name (case wp_algorithm w of Some a \<Rightarrow> a | None \<Rightarrow> ascii ''SHA1'') = Ok (hash_of_algo (np_algorithm n))
     \<and> wp_digits w = digit_count (np_digits n) \<and> wp_period w = np_period_param n"

lemma of_char_byte: "unat (of_char c :: byte) = of_char c"
proof -
  have "(of_char c :: byte) = word_of_nat (of_char c)" by (simp only: of_nat_of_char)
  then show ?thesis using nat_of_char_less_256 [of c] by (simp only: unat_byte_of_nat) simp
qed

lemma ascii_eq_iff [simp]: "ascii s = ascii t \<longleftrightarrow> s = t"
proof -
  have "inj (of_char :: char \<Rightarrow> byte)" by (rule injI) (metis of_char_byte of_char_eq_iff)
  then show ?thesis unfolding ascii_def by (simp add: inj_map_eq_map)
qed

lemma molto_algorithm_hash: "molto_algorithm_of v = Ok a \<Longrightarrow> hash_from_name v = Ok (hash_of_algo a)"
  by (auto simp: molto_algorithm_of_def hash_from_name_def Let_def split: if_splits)

lemma molto_digits_count: "molto_digits_of n = Ok d \<Longrightarrow> digit_count d = n"
  by (auto simp: molto_digits_of_def split: if_splits)

lemma molto_step_seconds: "molto_step_of p = Ok s \<Longrightarrow> step_seconds s = p"
  by (auto simp: molto_step_of_def split: if_splits)

lemma narrow_param_same:
  assumes "narrow_param p n = Ok n'" and "same_params n w"
  shows "same_params n' (wide_param p w)"
proof (cases p)
  case (Pair k v)
  with assms(1) obtain x where v: "v = Some x" by (cases v) auto
  consider "k = ascii ''secret''" | "k = ascii ''issuer''" | "k = ascii ''algorithm''" | "k = ascii ''digits''"
    | "k = ascii ''period''" | "k = ascii ''counter''"
    | "k \<notin> {ascii ''secret'', ascii ''issuer'', ascii ''algorithm'', ascii ''digits'', ascii ''period'', ascii ''counter''}"
    by blast
  then show ?thesis
    using assms by cases (auto simp: Pair v same_params_def molto_algorithm_hash molto_digits_count split: option.splits)
qed

lemma narrow_loop_same:
  "narrow_loop ps n = Ok n' \<Longrightarrow> same_params n w \<Longrightarrow> same_params n' (fold wide_param ps w)"
  by (induction ps arbitrary: n w) (auto dest: narrow_param_same)

lemma same_start: "same_params narrow_start wide_start"
  by (simp add: same_params_def narrow_start_def wide_start_def hash_from_name_def to_ascii_uppercase_def ascii_def)

lemma non_empty_idem [simp]: "non_empty (non_empty x) = non_empty x"
  by (simp add: non_empty_def split: option.splits)

lemma digit_count_range: "1 \<le> digit_count d \<and> digit_count d \<le> 10"
  by (cases d) simp_all

lemma finish_molto:
  "finish_entry (non_empty i) (non_empty a) s h (digit_count d) (KindTotp (step_seconds t))
   = Ok \<lparr>ie_issuer = non_empty i, ie_account = non_empty a, ie_secret = s, ie_hash = h,
         ie_digits = ucast (digit_count d), ie_kind = KindTotp (step_seconds t)\<rparr>"
  using digit_count_range [of d] by (cases t) (simp_all add: finish_entry_def)

lemma molto_secret_wide: "molto_secret_of b = Ok s \<Longrightarrow> decode_secret b = Ok s"
  by (auto simp: molto_secret_of_def decode_secret_def check_secret_def MAX_SECRET_BYTES_def split: result.splits if_splits)

lemma otpauth_agrees:
  "otpauth_parse uri = Ok a \<Longrightarrow> parse_entry uri = Ok (entry_of_auth a)"
proof -
  assume "otpauth_parse uri = Ok a"
  then obtain parts l st step b32 secret where p:
    "split_uri uri = Ok parts" "to_ascii_lowercase (up_typ parts) = ascii ''totp''"
    "percent_decode_keep_plus (up_label_raw parts) = Some l"
    "narrow_loop (query_params (up_query parts)) narrow_start = Ok st"
    "molto_step_of (np_period_param st) = Ok step" "np_secret st = Some b32" "molto_secret_of b32 = Ok secret"
    and a: "a = \<lparr>oa_issuer = non_empty (or_else (np_issuer_param st) (fst (split_label l))),
      oa_account = non_empty (snd (split_label l)), oa_secret = secret, oa_algorithm = np_algorithm st,
      oa_digits = np_digits st, oa_time_step = step\<rparr>"
    by (auto simp: otpauth_parse_def case_prod_beta Let_def split: result.splits split_error.splits if_splits)
  have w: "same_params st (fold wide_param (query_params (up_query parts)) wide_start)"
    by (rule narrow_loop_same [OF p(4) same_start])
  show ?thesis
    using w molto_step_seconds [OF p(5), symmetric]
    by (simp add: parse_entry_def parse_entry_labeled_def p(1,3) case_prod_beta Let_def wide_entry_of_def type_from_name_def
        p(2,6) same_params_def molto_secret_wide [OF p(7)] a entry_of_auth_def finish_molto)
qed

subsection \<open>A URI reads back\<close>

text \<open>A writer of the key URI format: values escape every byte that is not a letter or a digit.\<close>

definition plain_byte :: "byte \<Rightarrow> bool" where
  "plain_byte b \<longleftrightarrow> 0x30 \<le> b \<and> b \<le> 0x39 \<or> 0x41 \<le> b \<and> b \<le> 0x5a \<or> 0x61 \<le> b \<and> b \<le> 0x7a"

fun percent_encode :: "bytes \<Rightarrow> bytes" where
  "percent_encode [] = []"
| "percent_encode (b # s) =
     (if plain_byte b then b # percent_encode s
      else 0x25 # NIBBLES ! unat (drop_bit 4 b) # NIBBLES ! unat (b AND 0x0f) # percent_encode s)"

fun query_text :: "(bytes \<times> bytes) list \<Rightarrow> bytes" where
  "query_text [] = []"
| "query_text [(k, v)] = k @ 0x3d # v"
| "query_text ((k, v) # p # ps) = (k @ 0x3d # v) @ 0x26 # query_text (p # ps)"

fun hash_text :: "hash_alg \<Rightarrow> bytes" where
  "hash_text HashSha1 = ascii ''SHA1''"
| "hash_text HashSha256 = ascii ''SHA256''"
| "hash_text HashSha512 = ascii ''SHA512''"

fun kind_type :: "otp_kind \<Rightarrow> bytes" where
  "kind_type (KindTotp _) = ascii ''totp''" | "kind_type (KindHotp _) = ascii ''hotp''"

fun kind_param :: "otp_kind \<Rightarrow> bytes \<times> bytes" where
  "kind_param (KindTotp p) = (ascii ''period'', show_dec (unat p))"
| "kind_param (KindHotp c) = (ascii ''counter'', show_dec (unat c))"

definition otpauth_uri :: "bytes \<Rightarrow> bytes \<Rightarrow> bytes \<Rightarrow> hash_alg \<Rightarrow> u32 \<Rightarrow> otp_kind \<Rightarrow> bytes" where
  "otpauth_uri issuer account secret_b32 hash digits kind =
     ascii ''otpauth://'' @ (kind_type kind @ 0x2f # percent_encode issuer @ 0x3a # percent_encode account)
     @ 0x3f # query_text [(ascii ''secret'', percent_encode secret_b32), (ascii ''issuer'', percent_encode issuer),
         (ascii ''algorithm'', hash_text hash), (ascii ''digits'', show_dec (unat digits)), kind_param kind]"

lemma uri_hex_nibble_eq: "uri_hex_nibble c = (case hex_nibble c of Ok v \<Rightarrow> Some v | Err _ \<Rightarrow> None)"
  by (simp add: uri_hex_nibble_def hex_nibble_def)

lemma percent_loop_encode: "percent_loop form (percent_encode s @ t) = map_option (append s) (percent_loop form t)"
proof (induction s)
  case (Cons b s)
  have "plain_byte b \<Longrightarrow> b \<noteq> 0x2b \<and> b \<noteq> 0x25" by (auto simp: plain_byte_def)
  then show ?case using Cons
    by (cases "percent_loop form t") (auto simp: uri_hex_nibble_eq nibbles_join)
qed (simp add: option.map_ident)

lemma percent_loop_plain: "list_all plain_byte s \<Longrightarrow> percent_loop form s = Some s"
  by (induction s) (auto simp: plain_byte_def)

lemma plain_ascii: "plain_byte b \<Longrightarrow> b < 0x80"
  by (auto simp: plain_byte_def word_le_nat_alt word_less_nat_alt)

lemma percent_decode_plain: "list_all plain_byte s \<Longrightarrow> percent_decode s = Some s"
  using plain_ascii
  by (simp add: percent_decode_def percent_decode_impl_def percent_loop_plain from_utf8_def utf8_valid_ascii list_all_iff)

lemma percent_decode_encode: "utf8_valid s \<Longrightarrow> percent_decode (percent_encode s) = Some s"
  using percent_loop_encode [of True s "[]"] by (simp add: percent_decode_def percent_decode_impl_def from_utf8_def)

lemma label_decode:
  assumes "utf8_valid i" and "utf8_valid a"
  shows "percent_decode_keep_plus (percent_encode i @ 0x3a # percent_encode a) = Some (i @ 0x3a # a)"
proof -
  have "percent_loop False (percent_encode i @ 0x3a # percent_encode a) = Some (i @ 0x3a # a)"
    using percent_loop_encode [of False a "[]"] by (simp add: percent_loop_encode)
  moreover have "utf8_valid (0x3a # a)"
    using utf8_valid_append [of "[0x3a]" a] assms(2) by (simp add: utf8_valid_ascii)
  ultimately show ?thesis
    using utf8_valid_append [OF assms(1)] by (simp add: percent_decode_keep_plus_def percent_decode_impl_def from_utf8_def)
qed

lemma nibble_plain: "n < 16 \<Longrightarrow> plain_byte (NIBBLES ! n)"
proof -
  have "list_all (\<lambda>n. plain_byte (NIBBLES ! n)) [0..<16]"
    by (simp add: upt_conv_Cons, simp add: NIBBLES_def ascii_def plain_byte_def)
  then show "n < 16 \<Longrightarrow> plain_byte (NIBBLES ! n)" by (simp add: list_all_iff)
qed

lemma percent_encode_set: "b \<in> set (percent_encode s) \<Longrightarrow> plain_byte b \<or> b = 0x25"
  by (induction s) (auto simp: nibble_plain split: if_splits)

lemma percent_encode_free: "c \<in> {0x26, 0x2f, 0x3a, 0x3d, 0x3f} \<Longrightarrow> c \<notin> set (percent_encode s)"
  using percent_encode_set [of c s] by (auto simp: plain_byte_def)

lemma split_once_append: "c \<notin> set a \<Longrightarrow> split_once c (a @ c # b) = Some (a, b)"
  by (simp add: split_once_some)

lemma query_params_text:
  "list_all (\<lambda>(k, v). 0x26 \<notin> set k \<and> 0x3d \<notin> set k \<and> 0x26 \<notin> set v) ps
   \<Longrightarrow> query_params (query_text ps) = map (\<lambda>(k, v). (k, percent_decode v)) ps"
proof (induction ps rule: query_text.induct)
  case 1
  then show ?case by (simp add: query_params_def)
next
  case (2 k v)
  then show ?case by (simp add: query_params_def split_once_append split_on_none)
next
  case (3 k v p ps)
  then have "split_on 0x26 ((k @ 0x3d # v) @ 0x26 # query_text (p # ps)) = (k @ 0x3d # v) # split_on 0x26 (query_text (p # ps))"
    by (intro split_on_append) simp
  moreover have "query_params (query_text (p # ps)) = map (\<lambda>(k, v). (k, percent_decode v)) (p # ps)" using 3 by simp
  ultimately show ?case using 3 by (simp add: query_params_def split_once_append)
qed

lemma strip_prefix_eq_Some: "strip_prefix p s = Some r \<longleftrightarrow> s = p @ r"
  by (auto simp: strip_prefix_def) (metis append_take_drop_id)

lemma strip_prefix_append [simp]: "strip_prefix p (p @ s) = Some s"
  by (simp add: strip_prefix_def)

lemma parse_unsigned_show: "n < limit \<Longrightarrow> parse_unsigned limit (show_dec n) = Some n"
proof -
  obtain c r where c: "show_dec n = c # r" "is_ascii_digit c" using show_dec_digits [of n] by (cases "show_dec n") auto
  then have "c \<noteq> 0x2b" by (auto simp: is_ascii_digit_def)
  then show "n < limit \<Longrightarrow> ?thesis"
    using show_dec_digits [of n] show_dec_value [of n] c(1) by (simp add: parse_unsigned_def)
qed

lemma show_dec_plain: "list_all plain_byte (show_dec n)"
  using show_dec_digits [of n] by (auto simp: list_all_iff is_ascii_digit_def plain_byte_def)

lemma parse_uint_show: "parse_uint32 (show_dec (unat n)) = Some n" "parse_uint64 (show_dec (unat m)) = Some m"
  using unsigned_less [of n, where ?'a = nat] unsigned_less [of m, where ?'a = nat]
  by (simp_all add: parse_uint32_def parse_uint64_def parse_unsigned_show)

lemma kind_type_split: "0x2f \<notin> set (kind_type kind)" "0x3f \<notin> set (kind_type kind)"
  by (cases kind; simp add: ascii_def)+

lemma otpauth_uri_split:
  "split_uri (otpauth_uri issuer account text hash digits kind) = Ok
     \<lparr>up_typ = kind_type kind, up_label_raw = percent_encode issuer @ 0x3a # percent_encode account,
      up_query = query_text [(ascii ''secret'', percent_encode text), (ascii ''issuer'', percent_encode issuer),
         (ascii ''algorithm'', hash_text hash), (ascii ''digits'', show_dec (unat digits)), kind_param kind]\<rparr>"
proof -
  have "0x3f \<notin> set (kind_type kind @ 0x2f # percent_encode issuer @ 0x3a # percent_encode account)"
    using kind_type_split percent_encode_free [of "0x3f"] by auto
  from split_once_append [OF this] show ?thesis
    using split_once_append [OF kind_type_split(1)] by (simp add: otpauth_uri_def split_uri_def)
qed

lemma plain_free: "list_all plain_byte s \<Longrightarrow> 0x26 \<notin> set s"
  by (auto simp: list_all_iff plain_byte_def)

lemma hash_text_plain: "list_all plain_byte (hash_text h)"
  by (cases h) (simp_all add: ascii_def plain_byte_def)

lemma hash_from_text: "hash_from_name (hash_text h) = Ok h"
  by (cases h) (simp_all add: hash_from_name_def ascii_def to_ascii_uppercase_def)

lemma type_from_kind: "type_from_name (kind_type kind) = Ok (case kind of KindTotp _ \<Rightarrow> NameTotp | KindHotp _ \<Rightarrow> NameHotp)"
  by (cases kind) (simp_all add: type_from_name_def ascii_def to_ascii_lowercase_def)

definition written_params :: "bytes \<Rightarrow> bytes \<Rightarrow> hash_alg \<Rightarrow> u32 \<Rightarrow> otp_kind \<Rightarrow> (bytes \<times> bytes option) list" where
  "written_params text issuer hash digits kind =
     [(ascii ''secret'', Some text), (ascii ''issuer'', Some issuer), (ascii ''algorithm'', Some (hash_text hash)),
      (ascii ''digits'', Some (show_dec (unat digits))), (fst (kind_param kind), Some (snd (kind_param kind)))]"

lemma written_query:
  assumes "utf8_valid text" and "utf8_valid issuer"
  shows "query_params (query_text [(ascii ''secret'', percent_encode text), (ascii ''issuer'', percent_encode issuer),
         (ascii ''algorithm'', hash_text hash), (ascii ''digits'', show_dec (unat digits)), kind_param kind])
    = written_params text issuer hash digits kind"
proof -
  have k: "0x26 \<notin> set (fst (kind_param kind)) \<and> 0x3d \<notin> set (fst (kind_param kind)) \<and> list_all plain_byte (snd (kind_param kind))"
    by (cases kind) (simp_all add: ascii_def show_dec_plain)
  have keys: "0x26 \<notin> set (ascii s) \<and> 0x3d \<notin> set (ascii s)"
    if "s \<in> {''secret'', ''issuer'', ''algorithm'', ''digits''}" for s
    using that by (auto simp: ascii_def)
  obtain kk kv where kp: "kind_param kind = (kk, kv)" by (cases "kind_param kind")
  show ?thesis
    using k keys percent_encode_free [of "0x26"] plain_free [OF hash_text_plain] plain_free [OF show_dec_plain] plain_free [of kv]
    by (subst query_params_text)
      (simp_all add: kp written_params_def percent_decode_encode assms percent_decode_plain hash_text_plain show_dec_plain)
qed

lemma written_state:
  "fold wide_param (written_params text issuer hash digits kind) wide_start =
     \<lparr>wp_secret = Some text, wp_issuer = Some issuer, wp_algorithm = Some (hash_text hash), wp_digits = digits,
      wp_period = (case kind of KindTotp p \<Rightarrow> p | KindHotp _ \<Rightarrow> 30),
      wp_counter = (case kind of KindTotp _ \<Rightarrow> 0 | KindHotp c \<Rightarrow> c),
      wp_counter_malformed = False, wp_malformed = None\<rparr>"
  by (cases kind) (simp_all add: written_params_def wide_start_def parse_uint_show)

text \<open>C26: a written URI is read back.  The URI of any entry with an issuer (without a colon) and an account, both free of
  white space around them, percent-encoded and with the secret in base32, is read by the wide reader as that very entry, under
  the label issuer:account; type, hash, digits, period and counter included.\<close>

theorem otpauth_uri_read:
  assumes "utf8_valid issuer" and "str_trim issuer = issuer" and "issuer \<noteq> []" and "0x3a \<notin> set issuer"
    and "utf8_valid account" and "str_trim account = account" and "account \<noteq> []"
    and "utf8_valid text" and "base32_decode text = Ok secret" and "secret \<noteq> []" and "length secret \<le> 255"
    and "1 \<le> digits" and "digits \<le> 10" and "kind \<noteq> KindTotp 0"
  shows "parse_entry_labeled (otpauth_uri issuer account text hash digits kind) =
    (Some (issuer @ 0x3a # account),
     Ok \<lparr>ie_issuer = Some issuer, ie_account = Some account, ie_secret = secret, ie_hash = hash,
         ie_digits = ucast digits, ie_kind = kind\<rparr>)"
proof -
  have "split_label (issuer @ 0x3a # account) = (Some issuer, Some account)"
    using assms(2,4,6) by (simp add: split_label_def split_once_append)
  moreover have "decode_secret text = Ok secret"
    using assms(9-11) by (simp add: decode_secret_def check_secret_def MAX_SECRET_BYTES_def)
  moreover have "non_empty (Some issuer) = Some issuer" "non_empty (Some account) = Some account"
    using assms(3,7) by (simp_all add: non_empty_def)
  ultimately show ?thesis
    using assms(12-14)
    by (simp add: parse_entry_labeled_def otpauth_uri_split label_decode [OF assms(1,5)] written_query [OF assms(8,1)]
        written_state or_else_def name_label_def wide_entry_of_def type_from_kind hash_from_text finish_entry_def
        Let_def non_empty_def del: query_text.simps split: otp_kind.splits) blast
qed

lemma base32_f: "base32_decode (ascii ''MY'') = Ok [0x66]"
  by code_simp

theorem otpauth_uri_read_witness:
  "snd (parse_entry_labeled (otpauth_uri (ascii ''A'') (ascii ''b'') (ascii ''MY'') HashSha512 7 (KindHotp 5)))
   = Ok \<lparr>ie_issuer = Some (ascii ''A''), ie_account = Some (ascii ''b''), ie_secret = [0x66], ie_hash = HashSha512,
         ie_digits = 7, ie_kind = KindHotp 5\<rparr>"
proof -
  have u: "utf8_valid (ascii ''A'')" "utf8_valid (ascii ''b'')" "utf8_valid (ascii ''MY'')"
    by (simp_all add: ascii_def utf8_valid_ascii)
  have t: "str_trim (ascii ''A'') = ascii ''A''" "str_trim (ascii ''b'') = ascii ''b''"
    by (simp_all add: ascii_def str_trim_ascii is_whitespace_def)
  show ?thesis
    using otpauth_uri_read [OF u(1) t(1) _ _ u(2) t(2) _ u(3) base32_f, of 7 "KindHotp 5" HashSha512]
    by (simp add: ascii_def)
qed

lemma demo_uri: "otpauth_parse (ascii ''otpauth://totp/b?secret=MY'') = Ok
    \<lparr>oa_issuer = None, oa_account = Some [0x62], oa_secret = [0x66], oa_algorithm = Sha1, oa_digits = Six,
     oa_time_step = Seconds30\<rparr>"
proof -
  have parts: "split_uri (ascii ''otpauth://totp/b?secret=MY'') = Ok
      \<lparr>up_typ = ascii ''totp'', up_label_raw = [0x62], up_query = query_text [(ascii ''secret'', ascii ''MY'')]\<rparr>"
    by (simp add: split_uri_def strip_prefix_def ascii_def)
  have query: "query_params (query_text [(ascii ''secret'', ascii ''MY'')]) = [(ascii ''secret'', Some (ascii ''MY''))]"
    by (subst query_params_text) (simp_all add: ascii_def percent_decode_plain plain_byte_def)
  have "percent_decode_keep_plus [0x62] = Some [0x62]"
    by (simp add: percent_decode_keep_plus_def percent_decode_impl_def from_utf8_def utf8_valid_ascii)
  moreover have "split_label [0x62] = (None, Some [0x62])"
    by (simp add: split_label_def str_trim_ascii is_whitespace_def)
  moreover have "to_ascii_lowercase (ascii ''totp'') = ascii ''totp''" by (simp add: to_ascii_lowercase_def ascii_def)
  ultimately show ?thesis
    by (simp add: otpauth_parse_def parts query narrow_start_def molto_step_of_def molto_secret_of_def base32_f
        or_else_def non_empty_def del: query_text.simps)
qed

end
