(* ===== verification/Import_Migration.thy ===== *)
theory Import_Migration
  imports Import_Entry
begin

text \<open>
  \<^verbatim>\<open>crates/keyroost-import/src/migration.rs\<close>, the reader of a Google Authenticator export,
  and the lists of \<^verbatim>\<open>bulk.rs\<close>.  A \<^verbatim>\<open>Reader\<close> is the bytes it has not read.
\<close>

text \<open>The text of a JSON error is not modelled.\<close>

datatype bulk_error =
    JsonError
  | EncryptedFile string
  | UnsupportedFormat string
  | EntryRejected nat otp_auth_error
  | EmptyFile
  | TooManyEntries
  | WrongPassword

record bulk_entry =
  bk_issuer :: "bytes option"
  bk_account :: "bytes option"
  bk_secret :: bytes
  bk_algorithm :: hmac_algo
  bk_digits :: otp_digits
  bk_time_step :: time_step

definition bulk_of_auth :: "otp_auth \<Rightarrow> bulk_entry" where
  "bulk_of_auth p =
     \<lparr>bk_issuer = oa_issuer p, bk_account = oa_account p, bk_secret = oa_secret p,
      bk_algorithm = oa_algorithm p, bk_digits = oa_digits p, bk_time_step = oa_time_step p\<rparr>"

definition bulk_title :: "bulk_entry \<Rightarrow> bytes" where
  "bulk_title e = molto_title (bk_issuer e) (bk_account e)"

subsection \<open>The wire format\<close>

definition MALFORMED :: bulk_error where "MALFORMED = UnsupportedFormat ''malformed migration protobuf''"

function varint_loop :: "nat \<Rightarrow> u64 \<Rightarrow> bytes \<Rightarrow> (u64 \<times> bytes, bulk_error) result" where
  "varint_loop i v s =
     (if 10 \<le> i then Err MALFORMED
      else case s of
        [] \<Rightarrow> Err MALFORMED
      | b # rest \<Rightarrow>
          (let v = v OR push_bit (7 * i) (ucast (b AND 0x7f)) in
           if b AND 0x80 = 0 then Ok (v, rest) else varint_loop (i + 1) v rest))"
  by pat_completeness auto
termination by (relation "measure (\<lambda>(i, _, _). 10 - i)") auto

declare varint_loop.simps [simp del]

definition reader_varint :: "bytes \<Rightarrow> (u64 \<times> bytes, bulk_error) result" where
  "reader_varint s = varint_loop 0 0 s"

definition reader_key :: "bytes \<Rightarrow> ((u64 \<times> byte) option \<times> bytes, bulk_error) result" where
  "reader_key s =
     (if s = [] then Ok (None, s)
      else bind_result (reader_varint s) (\<lambda>(k, r). Ok (Some (drop_bit 3 k, ucast (k AND 0x7)), r)))"

definition reader_bytes :: "bytes \<Rightarrow> (bytes \<times> bytes, bulk_error) result" where
  "reader_bytes s =
     bind_result (reader_varint s) (\<lambda>(n, r).
       if length r < unat n then Err MALFORMED else Ok (take (unat n) r, drop (unat n) r))"

definition reader_drop :: "nat \<Rightarrow> bytes \<Rightarrow> (bytes, bulk_error) result" where
  "reader_drop n s = (if length s < n then Err MALFORMED else Ok (drop n s))"

text \<open>Every arm of the readers' \<^verbatim>\<open>match\<close> reads what the wire type says, \<^verbatim>\<open>skip\<close> as well.\<close>

datatype wire_value = WVarint u64 | WBytes bytes | WSkipped

definition reader_value :: "byte \<Rightarrow> bytes \<Rightarrow> (wire_value \<times> bytes, bulk_error) result" where
  "reader_value wire s =
     (if wire = 0 then bind_result (reader_varint s) (\<lambda>(v, r). Ok (WVarint v, r))
      else if wire = 1 then bind_result (reader_drop 8 s) (\<lambda>r. Ok (WSkipped, r))
      else if wire = 2 then bind_result (reader_bytes s) (\<lambda>(b, r). Ok (WBytes b, r))
      else if wire = 5 then bind_result (reader_drop 4 s) (\<lambda>r. Ok (WSkipped, r))
      else Err MALFORMED)"

lemma varint_loop_step:
  "i < 10 \<Longrightarrow> varint_loop i v (b # s) =
     (let v = v OR push_bit (7 * i) (ucast (b AND 0x7f)) in
      if b AND 0x80 = 0 then Ok (v, s) else varint_loop (i + 1) v s)"
  by (subst varint_loop.simps) simp

lemma varint_loop_end: "10 \<le> i \<Longrightarrow> varint_loop i v s = Err MALFORMED" "varint_loop i v [] = Err MALFORMED"
  by (subst varint_loop.simps, simp)+

lemma varint_loop_rest: "varint_loop i v s = Ok (w, r) \<Longrightarrow> length r < length s"
proof (induction s arbitrary: i v)
  case Nil
  then show ?case by (simp add: varint_loop_end)
next
  case (Cons b s)
  then show ?case
    by (cases "i < 10") (auto simp: varint_loop_step varint_loop_end Let_def less_SucI split: if_splits)
qed

lemma reader_key_rest: "reader_key s = Ok (Some f, r) \<Longrightarrow> length r < length s"
  by (auto simp: reader_key_def reader_varint_def dest: varint_loop_rest split: if_splits)

lemma reader_value_rest: "reader_value wire s = Ok (v, r) \<Longrightarrow> length r \<le> length s"
  by (auto simp: reader_value_def reader_varint_def reader_bytes_def reader_drop_def
      dest!: varint_loop_rest split: if_splits)

text \<open>\<^verbatim>\<open>while let Some((field, wire)) = r.key()?\<close>; the first argument is what an arm tests before
  it reads, the second what it does with the value.\<close>

function message_loop :: "(u64 \<Rightarrow> byte \<Rightarrow> 'a \<Rightarrow> bulk_error option) \<Rightarrow> (u64 \<Rightarrow> wire_value \<Rightarrow> 'a \<Rightarrow> ('a, bulk_error) result)
    \<Rightarrow> 'a \<Rightarrow> bytes \<Rightarrow> ('a, bulk_error) result" where
  "message_loop pre step st s =
     (case reader_key s of
        Err e \<Rightarrow> Err e
      | Ok (None, _) \<Rightarrow> Ok st
      | Ok (Some (field, wire), r) \<Rightarrow>
          (case pre field wire st of
             Some e \<Rightarrow> Err e
           | None \<Rightarrow>
               (case reader_value wire r of
                  Err e \<Rightarrow> Err e
                | Ok (v, r') \<Rightarrow>
                    (case step field v st of
                       Err e \<Rightarrow> Err e
                     | Ok st' \<Rightarrow> message_loop pre step st' r'))))"
  by pat_completeness auto
termination
  by (relation "measure (\<lambda>(_, _, _, s). length s)") (auto dest!: reader_key_rest reader_value_rest)

declare message_loop.simps [simp del]

subsection \<open>One account\<close>

record otp_parameters =
  op_secret :: bytes
  op_name :: bytes
  op_issuer :: bytes
  op_algorithm :: u64
  op_digits :: u64
  op_typ :: u64
  op_counter :: u64

definition parameters_start :: otp_parameters where
  "parameters_start = \<lparr>op_secret = [], op_name = [], op_issuer = [], op_algorithm = 0, op_digits = 0, op_typ = 0,
     op_counter = 0\<rparr>"

fun parameter_field :: "u64 \<Rightarrow> wire_value \<Rightarrow> otp_parameters \<Rightarrow> otp_parameters" where
  "parameter_field field (WBytes b) p =
     (if field = 1 then p\<lparr>op_secret := b\<rparr>
      else if field = 2 then p\<lparr>op_name := from_utf8_lossy b\<rparr>
      else if field = 3 then p\<lparr>op_issuer := from_utf8_lossy b\<rparr>
      else p)"
| "parameter_field field (WVarint v) p =
     (if field = 4 then p\<lparr>op_algorithm := v\<rparr>
      else if field = 5 then p\<lparr>op_digits := v\<rparr>
      else if field = 6 then p\<lparr>op_typ := v\<rparr>
      else if field = 7 then p\<lparr>op_counter := v\<rparr>
      else p)"
| "parameter_field field WSkipped p = p"

text \<open>Both converters run this loop; the narrow one skips the counter, which it does not use.\<close>

definition read_parameters :: "bytes \<Rightarrow> (otp_parameters, bulk_error) result" where
  "read_parameters buf = message_loop (\<lambda>_ _ _. None) (\<lambda>f v p. Ok (parameter_field f v p)) parameters_start buf"

record skipped_entry =
  sk_label :: bytes
  sk_reason :: string

definition narrow_label :: "otp_parameters \<Rightarrow> bytes" where
  "narrow_label p =
     (if op_issuer p = [] then op_name p
      else if op_name p = [] then op_issuer p
      else op_issuer p @ 0x3a # op_name p)"

definition issuer_of :: "otp_parameters \<Rightarrow> bytes option" where
  "issuer_of p = non_empty (if op_issuer p = [] then fst (split_label (op_name p)) else Some (op_issuer p))"

definition account_of :: "otp_parameters \<Rightarrow> bytes option" where
  "account_of p = non_empty (snd (split_label (op_name p)))"

definition narrow_of :: "otp_parameters \<Rightarrow> (bulk_entry, skipped_entry) result" where
  "narrow_of p =
     (let skip_it = (\<lambda>reason. Err \<lparr>sk_label = narrow_label p, sk_reason = reason\<rparr>) in
      if op_typ p \<noteq> 0 \<and> op_typ p \<noteq> 2 then skip_it ''HOTP is not supported by the Molto2''
      else if op_algorithm p \<notin> {0, 1, 2} then skip_it ''only SHA-1 / SHA-256 are supported''
      else if op_digits p \<notin> {0, 1, 2} then skip_it ''unsupported digit count''
      else if op_secret p = [] \<or> 63 < length (op_secret p) then skip_it ''secret must be 1..=63 bytes''
      else Ok \<lparr>bk_issuer = issuer_of p, bk_account = account_of p, bk_secret = op_secret p,
               bk_algorithm = (if op_algorithm p = 2 then Sha256 else Sha1),
               bk_digits = (if op_digits p = 2 then Eight else Six), bk_time_step = Seconds30\<rparr>)"

definition convert_narrow :: "bytes \<Rightarrow> ((bulk_entry, skipped_entry) result, bulk_error) result" where
  "convert_narrow buf = bind_result (read_parameters buf) (\<lambda>p. Ok (narrow_of p))"

definition wide_kind :: "otp_parameters \<Rightarrow> (otp_kind, unusable) result" where
  "wide_kind p =
     (if op_typ p = 0 \<or> op_typ p = 2 then Ok (KindTotp 30)
      else if op_typ p = 1 then Ok (KindHotp (op_counter p))
      else Err (BadType (ascii ''type '' @ show_dec (unat (op_typ p)))))"

definition wide_hash :: "otp_parameters \<Rightarrow> (hash_alg, unusable) result" where
  "wide_hash p =
     (let a = op_algorithm p in
      if a = 0 \<or> a = 1 then Ok HashSha1
      else if a = 2 then Ok HashSha256
      else if a = 3 then Ok HashSha512
      else if a = 4 then Err (BadHash (ascii ''MD5''))
      else Err (BadHash (ascii ''algorithm '' @ show_dec (unat a))))"

definition wide_digits :: "otp_parameters \<Rightarrow> (u32, unusable) result" where
  "wide_digits p =
     (if op_digits p = 0 \<or> op_digits p = 1 then Ok 6
      else if op_digits p = 2 then Ok 8
      else Err (MalformedEntry ''the digit count isn't one keyroost knows''))"

definition wide_of :: "otp_parameters \<Rightarrow> (import_entry, unusable) result" where
  "wide_of p =
     bind_result (wide_kind p) (\<lambda>kind.
     bind_result (check_secret (op_secret p)) (\<lambda>secret.
     bind_result (wide_hash p) (\<lambda>hash.
     bind_result (wide_digits p) (\<lambda>digits.
     finish_entry (issuer_of p) (account_of p) secret hash digits kind))))"

definition convert_wide :: "bytes \<Rightarrow> (bytes option \<times> (import_entry, unusable) result, bulk_error) result" where
  "convert_wide buf =
     bind_result (read_parameters buf) (\<lambda>p. Ok (name_label (issuer_of p) (account_of p), wide_of p))"

subsection \<open>Payloads\<close>

definition batch_of :: "u32 option \<Rightarrow> u32 option \<Rightarrow> (u32 \<times> u32) option" where
  "batch_of batch_index batch_size =
     (case (batch_index, batch_size) of (Some i, Some n) \<Rightarrow> if 1 < n then Some (i, n) else None | _ \<Rightarrow> None)"

record migration =
  mg_entries :: "bulk_entry list"
  mg_skipped :: "skipped_entry list"
  mg_batch :: "(u32 \<times> u32) option"

record 'a payload_state =
  ps_items :: "'a list"
  ps_size :: "u32 option"
  ps_index :: "u32 option"

definition payload_start :: "'a payload_state" where
  "payload_start = \<lparr>ps_items = [], ps_size = None, ps_index = None\<rparr>"

text \<open>The arms of both payload loops: what is collected for an account is a function of the number
  collected so far and the account's bytes.\<close>

fun payload_field :: "(nat \<Rightarrow> bytes \<Rightarrow> ('a, bulk_error) result) \<Rightarrow> u64 \<Rightarrow> wire_value \<Rightarrow> 'a payload_state
    \<Rightarrow> ('a payload_state, bulk_error) result" where
  "payload_field item field (WBytes b) st =
     (if field = 1 then bind_result (item (length (ps_items st)) b) (\<lambda>x. Ok (st\<lparr>ps_items := ps_items st @ [x]\<rparr>))
      else Ok st)"
| "payload_field item field (WVarint v) st =
     (if field = 3 then Ok (st\<lparr>ps_size := Some (ucast v)\<rparr>)
      else if field = 4 then Ok (st\<lparr>ps_index := Some (ucast v)\<rparr>)
      else Ok st)"
| "payload_field item field WSkipped st = Ok st"

text \<open>The entries and the skipped accounts are two lists in the source, filled in the order of the
  accounts.\<close>

definition parse_payload :: "bytes \<Rightarrow> (migration, bulk_error) result" where
  "parse_payload buf =
     bind_result (message_loop (\<lambda>_ _ _. None) (payload_field (\<lambda>_. convert_narrow)) payload_start buf) (\<lambda>st.
       if ps_items st = [] then Err (UnsupportedFormat ''migration payload contains no accounts'')
       else Ok \<lparr>mg_entries = List.map_filter (\<lambda>x. case x of Ok e \<Rightarrow> Some e | Err _ \<Rightarrow> None) (ps_items st),
                mg_skipped = List.map_filter (\<lambda>x. case x of Ok _ \<Rightarrow> None | Err s \<Rightarrow> Some s) (ps_items st),
                mg_batch = batch_of (ps_index st) (ps_size st)\<rparr>)"

definition wide_room :: "u64 \<Rightarrow> byte \<Rightarrow> 'a payload_state \<Rightarrow> bulk_error option" where
  "wide_room field wire st =
     (if field = 1 \<and> wire = 2 \<and> MAX_ENTRIES \<le> length (ps_items st) then Some TooManyEntries else None)"

definition wide_item :: "nat \<Rightarrow> bytes \<Rightarrow> (import_item, bulk_error) result" where
  "wide_item index buf =
     bind_result (convert_wide buf) (\<lambda>(lbl, entry).
       Ok \<lparr>it_index = index,
           it_label = (case lbl of Some l \<Rightarrow> l | None \<Rightarrow> ascii ''entry '' @ show_dec (index + 1)),
           it_entry = entry\<rparr>)"

definition parse_payload_wide :: "bytes \<Rightarrow> (import_file, bulk_error) result" where
  "parse_payload_wide buf =
     bind_result (message_loop wide_room (payload_field wide_item) payload_start buf) (\<lambda>st.
       if ps_items st = [] then Err (UnsupportedFormat ''migration payload contains no accounts'')
       else Ok \<lparr>if_format = FGoogleExport, if_items = ps_items st, if_batch = batch_of (ps_index st) (ps_size st)\<rparr>)"

subsection \<open>URIs and lists\<close>

definition is_migration_uri :: "bytes \<Rightarrow> bool" where
  "is_migration_uri uri \<longleftrightarrow> strip_prefix (ascii ''otpauth-migration://'') (str_trim_start uri) \<noteq> None"

fun last_data :: "bytes option \<Rightarrow> bytes list \<Rightarrow> bytes option" where
  "last_data found [] = found"
| "last_data found (kv # kvs) = last_data (or_else (strip_prefix (ascii ''data='') kv) found) kvs"

definition decode_uri :: "bytes \<Rightarrow> (bytes, bulk_error) result" where
  "decode_uri uri =
     bind_result (ok_or (UnsupportedFormat ''not an otpauth-migration://offline URI'')
                    (strip_prefix (ascii ''otpauth-migration://offline'') (str_trim uri))) (\<lambda>rest.
     let query = (case strip_prefix [0x3f] rest of Some q \<Rightarrow> q | None \<Rightarrow> rest) in
     bind_result (ok_or (UnsupportedFormat ''migration URI has no data= parameter'')
                    (last_data None (split_on 0x26 query))) (\<lambda>data.
     bind_result (ok_or (UnsupportedFormat ''bad percent-encoding in data'') (percent_decode_keep_plus data)) (\<lambda>data.
     (case base64_decode data of
        Err _ \<Rightarrow> Err (UnsupportedFormat ''migration data is not valid base64'')
      | Ok payload \<Rightarrow> Ok payload))))"

definition migration_parse :: "bytes \<Rightarrow> (migration, bulk_error) result" where
  "migration_parse uri = bind_result (decode_uri uri) parse_payload"

definition migration_parse_wide :: "bytes \<Rightarrow> (import_file, bulk_error) result" where
  "migration_parse_wide uri = bind_result (decode_uri uri) parse_payload_wide"

text \<open>The lines of a list that are entries, with their numbers.\<close>

definition entry_lines :: "bytes \<Rightarrow> (nat \<times> bytes) list" where
  "entry_lines s =
     filter (\<lambda>(_, line). line \<noteq> [] \<and> hd line \<noteq> 0x23)
       (map (\<lambda>(i, raw). (i, str_trim raw)) (List.enumerate 0 (str_lines s)))"

fun narrow_lines :: "(nat \<times> bytes) list \<Rightarrow> (bulk_entry list, bulk_error) result" where
  "narrow_lines [] = Ok []"
| "narrow_lines ((i, line) # ls) =
     (case otpauth_parse line of
        Err reason \<Rightarrow> Err (EntryRejected i reason)
      | Ok p \<Rightarrow> bind_result (narrow_lines ls) (\<lambda>es. Ok (bulk_of_auth p # es)))"

definition parse_otpauth_list :: "bytes \<Rightarrow> (bulk_entry list, bulk_error) result" where
  "parse_otpauth_list s =
     bind_result (narrow_lines (entry_lines s)) (\<lambda>out. if out = [] then Err EmptyFile else Ok out)"

definition line_label :: "nat \<Rightarrow> bytes" where
  "line_label i = ascii ''line '' @ show_dec (i + 1)"

fun wide_lines :: "(nat \<times> bytes) list \<Rightarrow> import_item list \<Rightarrow> (u32 \<times> u32) option
    \<Rightarrow> (import_item list \<times> (u32 \<times> u32) option, bulk_error) result" where
  "wide_lines [] items batch = Ok (items, batch)"
| "wide_lines ((i, line) # ls) items batch =
     (if MAX_ENTRIES \<le> length items then Err TooManyEntries
      else if is_migration_uri line then
        (case migration_parse_wide line of
           Ok f \<Rightarrow>
             (if MAX_ENTRIES < length items + length (if_items f) then Err TooManyEntries
              else wide_lines ls (items @ map (\<lambda>item. item\<lparr>it_index := i\<rparr>) (if_items f)) (or_else batch (if_batch f)))
         | Err e \<Rightarrow>
             (if e = TooManyEntries then Err e
              else wide_lines ls (items @ [\<lparr>it_index = i, it_label = line_label i,
                     it_entry = Err (MalformedEntry ''the Google Authenticator export couldn't be read'')\<rparr>]) batch))
      else
        (let (name, entry) = parse_entry_labeled line in
         wide_lines ls (items @ [\<lparr>it_index = i, it_label = (case name of Some n \<Rightarrow> n | None \<Rightarrow> line_label i),
                                  it_entry = entry\<rparr>]) batch))"

definition parse_list_wide :: "bytes \<Rightarrow> (import_file, bulk_error) result" where
  "parse_list_wide s =
     bind_result (wide_lines (entry_lines s) [] None) (\<lambda>(items, batch).
       if items = [] then Err EmptyFile
       else Ok \<lparr>if_format = FOtpauthList, if_items = items, if_batch = batch\<rparr>)"

subsection \<open>Entries of the JSON exports\<close>

text \<open>What both mappings of a JSON export make of the fields of one entry; reading the JSON itself is
  third-party code.\<close>

definition build_entry :: "nat \<Rightarrow> bytes option \<Rightarrow> bytes option \<Rightarrow> bytes \<Rightarrow> bytes option \<Rightarrow> u32 \<Rightarrow> u32
    \<Rightarrow> (bulk_entry, bulk_error) result" where
  "build_entry index issuer account secret_b32 algo digits period =
     (case molto_secret_of secret_b32 of
        Err e \<Rightarrow> Err (EntryRejected index e)
      | Ok secret \<Rightarrow>
          (case molto_algorithm_of (case algo of Some a \<Rightarrow> a | None \<Rightarrow> ascii ''SHA1'') of
             Err e \<Rightarrow> Err (EntryRejected index e)
           | Ok algorithm \<Rightarrow>
               (case molto_digits_of digits of
                  Err e \<Rightarrow> Err (EntryRejected index e)
                | Ok digits \<Rightarrow>
                    (case molto_step_of period of
                       Err e \<Rightarrow> Err (EntryRejected index e)
                     | Ok time_step \<Rightarrow>
                         Ok \<lparr>bk_issuer = non_empty issuer, bk_account = non_empty account, bk_secret = secret,
                             bk_algorithm = algorithm, bk_digits = digits, bk_time_step = time_step\<rparr>))))"

record json_counter =
  jc_value :: "u64 option"
  jc_repeated :: bool

definition wide_entry :: "bytes \<Rightarrow> bytes option \<Rightarrow> bytes option \<Rightarrow> bytes \<Rightarrow> bytes option \<Rightarrow> u32 \<Rightarrow> u32 \<Rightarrow> json_counter
    \<Rightarrow> (import_entry, unusable) result" where
  "wide_entry typ issuer account secret_b32 algo digits period counter =
     bind_result (type_from_name typ) (\<lambda>kind.
     bind_result (decode_secret secret_b32) (\<lambda>secret.
     bind_result (hash_from_name (case algo of Some a \<Rightarrow> a | None \<Rightarrow> ascii ''SHA1'')) (\<lambda>hash.
     bind_result (case kind of
         NameTotp \<Rightarrow> Ok (KindTotp period)
       | NameHotp \<Rightarrow>
           if jc_repeated counter then Err (MalformedEntry ''the counter is given more than once'')
           else Ok (KindHotp (case jc_value counter of Some c \<Rightarrow> c | None \<Rightarrow> 0))) (\<lambda>kind.
     finish_entry issuer account secret hash digits kind))))"

subsection \<open>The narrow readers and the wide ones\<close>

definition entry_of_bulk :: "bulk_entry \<Rightarrow> import_entry" where
  "entry_of_bulk e =
     \<lparr>ie_issuer = bk_issuer e, ie_account = bk_account e, ie_secret = bk_secret e,
      ie_hash = hash_of_algo (bk_algorithm e), ie_digits = ucast (digit_count (bk_digits e)),
      ie_kind = KindTotp (step_seconds (bk_time_step e))\<rparr>"

text \<open>What a Molto2 slot stores of an account of an export.\<close>

definition molto_view :: "(import_entry, unusable) result \<Rightarrow> import_entry option" where
  "molto_view r =
     (case r of
        Err _ \<Rightarrow> None
      | Ok w \<Rightarrow> if ie_kind w = KindTotp 30 \<and> ie_hash w \<noteq> HashSha512 \<and> length (ie_secret w) \<le> 63 then Some w else None)"

definition ok_of :: "('a, 'e) result \<Rightarrow> 'a option" where
  "ok_of r = (case r of Ok x \<Rightarrow> Some x | Err _ \<Rightarrow> None)"

lemma non_empty_parts [simp]: "non_empty (issuer_of p) = issuer_of p" "non_empty (account_of p) = account_of p"
  by (simp_all add: issuer_of_def account_of_def)

lemma narrow_view: "map_option entry_of_bulk (ok_of (narrow_of p)) = molto_view (wide_of p)"
  by (auto simp: narrow_of_def ok_of_def wide_of_def wide_kind_def wide_hash_def wide_digits_def Let_def molto_view_def
      check_secret_def MAX_SECRET_BYTES_def finish_entry_def entry_of_bulk_def)

text \<open>A loop that succeeds is followed by another loop over the same fields.\<close>

lemma message_loop_sim:
  assumes pre: "\<And>f w b. pre f w b = None \<or> pre f w b = Some TooManyEntries"
    and step: "\<And>f v a b a'. R a b \<Longrightarrow> step1 f v a = Ok a' \<Longrightarrow> \<exists>b'. step2 f v b = Ok b' \<and> R a' b'"
    and "R a b" and "message_loop (\<lambda>_ _ _. None) step1 a s = Ok a'"
  shows "message_loop pre step2 b s = Err TooManyEntries \<or> (\<exists>b'. message_loop pre step2 b s = Ok b' \<and> R a' b')"
  using assms(3,4)
proof (induction s arbitrary: a b rule: length_induct)
  case (1 s)
  show ?case
  proof (cases "reader_key s")
    case (Ok k)
    obtain key r where k: "k = (key, r)" by (cases k) auto
    show ?thesis
    proof (cases key)
      case None
      then show ?thesis using "1.prems" Ok k by (simp add: message_loop.simps [of _ _ _ s])
    next
      case (Some fw)
      obtain f w where fw: "fw = (f, w)" by (cases fw) auto
      note unfold = message_loop.simps [of _ _ _ s] Ok k Some fw
      from "1.prems"(2) obtain v r' a1 where v: "reader_value w r = Ok (v, r')" "step1 f v a = Ok a1"
        "message_loop (\<lambda>_ _ _. None) step1 a1 r' = Ok a'"
        by (auto simp: unfold split: result.splits)
      from step [OF "1.prems"(1) v(2)] obtain b1 where b1: "step2 f v b = Ok b1" "R a1 b1" by blast
      have "length r' < length s"
        using reader_key_rest [of s fw r] reader_value_rest [OF v(1)] Ok k Some by simp
      with "1.IH" b1(2) v(3) have "message_loop pre step2 b1 r' = Err TooManyEntries
          \<or> (\<exists>b'. message_loop pre step2 b1 r' = Ok b' \<and> R a' b')" by blast
      with pre [of f w b] show ?thesis by (auto simp: unfold v(1) b1(1))
    qed
  next
    case (Err e)
    then show ?thesis using "1.prems" by (simp add: message_loop.simps [of _ _ _ s])
  qed
qed

text \<open>Both states come from the same accounts.\<close>

definition same_accounts :: "(bulk_entry, skipped_entry) result payload_state \<Rightarrow> import_item payload_state \<Rightarrow> bool" where
  "same_accounts n w \<longleftrightarrow> ps_size w = ps_size n \<and> ps_index w = ps_index n
     \<and> (\<exists>ps. ps_items n = map narrow_of ps \<and> map it_entry (ps_items w) = map wide_of ps)"

lemma payload_field_same:
  assumes "same_accounts n w" and "payload_field (\<lambda>_. convert_narrow) f v n = Ok n'"
  shows "\<exists>w'. payload_field wide_item f v w = Ok w' \<and> same_accounts n' w'"
proof (cases v)
  case (WBytes b)
  show ?thesis
  proof (cases "f = 1")
    case True
    obtain p where p: "read_parameters b = Ok p" "n' = n\<lparr>ps_items := ps_items n @ [narrow_of p]\<rparr>"
      using assms(2) by (auto simp: WBytes True convert_narrow_def)
    obtain ps where ps: "ps_items n = map narrow_of ps" "map it_entry (ps_items w) = map wide_of ps"
      using assms(1) by (auto simp: same_accounts_def)
    have "ps_items n' = map narrow_of (ps @ [p])" by (simp add: p(2) ps(1))
    then show ?thesis
      using assms(1) ps(2)
      by (auto simp: WBytes True wide_item_def convert_wide_def p same_accounts_def intro!: exI [of _ "ps @ [p]"])
  qed (use assms WBytes in auto)
qed (use assms in \<open>auto simp: same_accounts_def split: if_splits\<close>)

lemma map_filter_ok: "List.map_filter ok_of (map narrow_of ps) = List.map_filter (\<lambda>p. ok_of (narrow_of p)) ps"
  by (simp add: List.map_filter_def filter_map o_def)

lemma map_of_filter: "map f (List.map_filter g xs) = List.map_filter (\<lambda>x. map_option f (g x)) xs"
  by (induction xs) (auto simp: map_filter_simps split: option.splits)

lemma filter_lengths:
  "length (List.map_filter (\<lambda>x. case x of Ok e \<Rightarrow> Some e | Err _ \<Rightarrow> None) xs)
   + length (List.map_filter (\<lambda>x. case x of Ok _ \<Rightarrow> None | Err s \<Rightarrow> Some s) xs) = length xs"
  by (induction xs) (auto simp: map_filter_simps split: result.splits)

lemma map_filter_comp: "List.map_filter g (map f xs) = List.map_filter (\<lambda>x. g (f x)) xs"
  by (induction xs) (auto simp: map_filter_simps split: option.splits)

lemma payload_agrees:
  assumes "parse_payload buf = Ok m"
  shows "parse_payload_wide buf = Err TooManyEntries \<or> (\<exists>f. parse_payload_wide buf = Ok f \<and> if_batch f = mg_batch m
      \<and> length (if_items f) = length (mg_entries m) + length (mg_skipped m)
      \<and> map entry_of_bulk (mg_entries m) = List.map_filter (\<lambda>i. molto_view (it_entry i)) (if_items f))"
proof -
  obtain n where n: "message_loop (\<lambda>_ _ _. None) (payload_field (\<lambda>_. convert_narrow)) payload_start buf = Ok n"
    "ps_items n \<noteq> []"
    and m: "mg_entries m = List.map_filter ok_of (ps_items n)" "mg_batch m = batch_of (ps_index n) (ps_size n)"
      "length (mg_entries m) + length (mg_skipped m) = length (ps_items n)"
    using assms by (auto simp: parse_payload_def ok_of_def [abs_def] filter_lengths split: if_splits)
  have "same_accounts payload_start payload_start" by (simp add: same_accounts_def payload_start_def)
  from this n(1) have "message_loop wide_room (payload_field wide_item) payload_start buf = Err TooManyEntries
      \<or> (\<exists>w. message_loop wide_room (payload_field wide_item) payload_start buf = Ok w \<and> same_accounts n w)"
    by (rule message_loop_sim [where ?step1.0 = "payload_field (\<lambda>_. convert_narrow)", rotated 2])
      (auto simp: wide_room_def dest: payload_field_same)
  then consider "message_loop wide_room (payload_field wide_item) payload_start buf = Err TooManyEntries"
    | w where "message_loop wide_room (payload_field wide_item) payload_start buf = Ok w" "same_accounts n w"
    by blast
  then show ?thesis
  proof cases
    case 1
    then show ?thesis by (simp add: parse_payload_wide_def)
  next
    case (2 w)
    from 2(2) obtain ps where ps: "ps_items n = map narrow_of ps" "map it_entry (ps_items w) = map wide_of ps"
      by (auto simp: same_accounts_def)
    have len: "length (ps_items w) = length ps" using arg_cong [OF ps(2), of length] by simp
    have "map entry_of_bulk (mg_entries m) = List.map_filter molto_view (map wide_of ps)"
      by (simp add: m(1) ps(1) map_filter_comp map_of_filter narrow_view)
    also have "\<dots> = List.map_filter (\<lambda>i. molto_view (it_entry i)) (ps_items w)"
      by (simp add: map_filter_comp flip: ps(2))
    finally show ?thesis
      using 2 n(2) len m(2,3) ps(1) by (auto simp: parse_payload_wide_def same_accounts_def)
  qed
qed

lemma otpauth_not_migration:
  assumes "otpauth_parse uri = Ok a"
  shows "\<not> is_migration_uri uri"
proof -
  from assms obtain parts where "split_uri uri = Ok parts" by (auto simp: otpauth_parse_def split: result.splits split_error.splits)
  then obtain r where u: "uri = ascii ''otpauth://'' @ r"
    by (auto simp: split_uri_def strip_prefix_eq_Some)
  then have "utf8_split uri = ([0x6f], Some 0x6f) # utf8_split (tl uri)"
    by (simp add: ascii_def utf8_split.simps(2) utf8_step_def utf8_width_def)
  then have "str_trim_start uri = uri"
    using concat_utf8_split [of uri] by (simp add: str_trim_start_def is_whitespace_def)
  then show ?thesis by (auto simp: is_migration_uri_def strip_prefix_eq_Some u ascii_def)
qed

lemma entry_of_bulk_auth: "entry_of_bulk (bulk_of_auth a) = entry_of_auth a"
  by (simp add: entry_of_bulk_def bulk_of_auth_def entry_of_auth_def)

lemma narrow_lines_agree:
  assumes "narrow_lines ls = Ok bs" and "length items \<le> MAX_ENTRIES"
  shows "wide_lines ls items batch = Err TooManyEntries \<or> (\<exists>new.
      wide_lines ls items batch = Ok (items @ new, batch) \<and> map it_entry new = map (\<lambda>b. Ok (entry_of_bulk b)) bs)"
  using assms
proof (induction ls arbitrary: bs items)
  case (Cons l ls)
  obtain i line where l: "l = (i, line)" by (cases l)
  from Cons.prems(1) obtain a bs' where a: "otpauth_parse line = Ok a" "narrow_lines ls = Ok bs'" "bs = bulk_of_auth a # bs'"
    by (auto simp: l split: result.splits)
  obtain name where p: "parse_entry_labeled line = (name, Ok (entry_of_auth a))"
    using otpauth_agrees [OF a(1)] by (cases "parse_entry_labeled line") (auto simp: parse_entry_def)
  show ?case
  proof (cases "MAX_ENTRIES \<le> length items")
    case True
    then show ?thesis by (simp add: l)
  next
    case False
    let ?item = "\<lparr>it_index = i, it_label = (case name of Some n \<Rightarrow> n | None \<Rightarrow> line_label i), it_entry = Ok (entry_of_auth a)\<rparr>"
    have "length (items @ [?item]) \<le> MAX_ENTRIES" using False by simp
    from Cons.IH [OF a(2) this] consider "wide_lines ls (items @ [?item]) batch = Err TooManyEntries"
      | new where "wide_lines ls (items @ [?item]) batch = Ok ((items @ [?item]) @ new, batch)"
        "map it_entry new = map (\<lambda>b. Ok (entry_of_bulk b)) bs'" by blast
    then show ?thesis
      using False otpauth_not_migration [OF a(1)]
      by cases (auto simp: l p a(3) entry_of_bulk_auth intro: exI [of _ "?item # _"])
  qed
qed simp

lemma list_agrees:
  assumes "parse_otpauth_list s = Ok bs"
  shows "parse_list_wide s = Err TooManyEntries \<or> (\<exists>f. parse_list_wide s = Ok f \<and> if_batch f = None
      \<and> map it_entry (if_items f) = map (\<lambda>b. Ok (entry_of_bulk b)) bs)"
proof -
  from assms have n: "narrow_lines (entry_lines s) = Ok bs" "bs \<noteq> []" by (auto simp: parse_otpauth_list_def split: if_splits)
  from narrow_lines_agree [OF n(1), of "[]" None] consider "wide_lines (entry_lines s) [] None = Err TooManyEntries"
    | new where "wide_lines (entry_lines s) [] None = Ok (new, None)" "map it_entry new = map (\<lambda>b. Ok (entry_of_bulk b)) bs"
    by auto
  then show ?thesis
  proof cases
    case (2 new)
    then have "new \<noteq> []" using n(2) by auto
    then show ?thesis using 2 by (simp add: parse_list_wide_def)
  qed (simp add: parse_list_wide_def)
qed

lemma json_agrees:
  assumes "build_entry i issuer account b32 algo digits period = Ok b" and "type_from_name typ = Ok NameTotp"
  shows "wide_entry typ issuer account b32 algo digits period counter = Ok (entry_of_bulk b)"
proof -
  from assms(1) obtain secret alg d t where p: "molto_secret_of b32 = Ok secret"
    "molto_algorithm_of (case algo of Some a \<Rightarrow> a | None \<Rightarrow> ascii ''SHA1'') = Ok alg"
    "molto_digits_of digits = Ok d" "molto_step_of period = Ok t"
    and b: "b = \<lparr>bk_issuer = non_empty issuer, bk_account = non_empty account, bk_secret = secret,
                bk_algorithm = alg, bk_digits = d, bk_time_step = t\<rparr>"
    by (auto simp: build_entry_def split: result.splits)
  show ?thesis
    using finish_molto [of issuer account secret "hash_of_algo alg" d t]
    by (simp add: wide_entry_def assms(2) molto_secret_wide [OF p(1)] molto_algorithm_hash [OF p(2)]
        molto_digits_count [OF p(3)] molto_step_seconds [OF p(4)] b entry_of_bulk_def finish_entry_def split: if_splits)
qed

text \<open>The two families of readers agree.  Whatever a narrow reader takes (one URI, a list of URIs, a migration
  payload, the fields of a JSON export), the wide one reads as the same entries in the same order, unless there are more than it
  reads at all; a migration payload gives it one item for every entry and every skipped account.\<close>

theorem narrow_readers_agree:
  "(case otpauth_parse uri of Err _ \<Rightarrow> True | Ok a \<Rightarrow> parse_entry uri = Ok (entry_of_auth a))
   \<and> (case parse_otpauth_list list of Err _ \<Rightarrow> True
      | Ok bs \<Rightarrow> parse_list_wide list = Err TooManyEntries \<or> (\<exists>f. parse_list_wide list = Ok f \<and> if_batch f = None
          \<and> map it_entry (if_items f) = map (\<lambda>b. Ok (entry_of_bulk b)) bs))
   \<and> (case parse_payload buf of Err _ \<Rightarrow> True
      | Ok m \<Rightarrow> parse_payload_wide buf = Err TooManyEntries \<or> (\<exists>f. parse_payload_wide buf = Ok f \<and> if_batch f = mg_batch m
          \<and> length (if_items f) = length (mg_entries m) + length (mg_skipped m)
          \<and> map entry_of_bulk (mg_entries m) = List.map_filter (\<lambda>i. molto_view (it_entry i)) (if_items f)))
   \<and> (case (build_entry i issuer account b32 algo digits period, type_from_name typ) of
        (Ok b, Ok NameTotp) \<Rightarrow> wide_entry typ issuer account b32 algo digits period counter = Ok (entry_of_bulk b)
      | _ \<Rightarrow> True)"
  using otpauth_agrees list_agrees payload_agrees json_agrees
  by (simp split: result.split type_name.split)

theorem narrow_readers_agree_witness:
  "parse_entry (ascii ''otpauth://totp/b?secret=MY'') = Ok
    \<lparr>ie_issuer = None, ie_account = Some [0x62], ie_secret = [0x66], ie_hash = HashSha1, ie_digits = 6, ie_kind = KindTotp 30\<rparr>"
  using narrow_readers_agree [of "ascii ''otpauth://totp/b?secret=MY''"] by (simp add: demo_uri entry_of_auth_def)

subsection \<open>An export reads back\<close>

text \<open>A writer of the export format: varints, fields, accounts and the URI.\<close>

fun enc_varint :: "nat \<Rightarrow> bytes" where
  "enc_varint n = (if n < 128 then [word_of_nat n] else word_of_nat (n mod 128 + 128) # enc_varint (n div 128))"

declare enc_varint.simps [simp del]

definition pb_varint :: "nat \<Rightarrow> nat \<Rightarrow> bytes" where
  "pb_varint field n = enc_varint (field * 8) @ enc_varint n"

definition pb_bytes :: "nat \<Rightarrow> bytes \<Rightarrow> bytes" where
  "pb_bytes field b = enc_varint (field * 8 + 2) @ enc_varint (length b) @ b"

end
