(* ===== verification/Import_Export.thy ===== *)
theory Import_Export
  imports Import_Migration
begin

text \<open>
  A writer of the migration format read in \<open>Import_Migration\<close>, as the exporting app writes it, and the
  proof that the reader inverts it.
\<close>

lemma low_bits_byte:
  assumes "m < 128"
  shows "word_of_nat m AND (0x7f :: byte) = word_of_nat m" and "word_of_nat (m + 128) AND (0x7f :: byte) = word_of_nat m"
    and "word_of_nat m AND (0x80 :: byte) = 0" and "word_of_nat (m + 128) AND (0x80 :: byte) \<noteq> 0"
proof -
  have "list_all (\<lambda>m. (word_of_nat m :: byte) AND 0x7f = word_of_nat m \<and> (word_of_nat (m + 128) :: byte) AND 0x7f = word_of_nat m
      \<and> (word_of_nat m :: byte) AND 0x80 = 0 \<and> (word_of_nat (m + 128) :: byte) AND 0x80 \<noteq> 0) [0..<128]"
    by code_simp
  then have "(word_of_nat m :: byte) AND 0x7f = word_of_nat m \<and> (word_of_nat (m + 128) :: byte) AND 0x7f = word_of_nat m
      \<and> (word_of_nat m :: byte) AND 0x80 = 0 \<and> (word_of_nat (m + 128) :: byte) AND 0x80 \<noteq> 0"
    using assms unfolding list_all_iff by (metis atLeastLessThan_iff le0 set_upt)
  then show "word_of_nat m AND (0x7f :: byte) = word_of_nat m" "word_of_nat (m + 128) AND (0x7f :: byte) = word_of_nat m"
    "word_of_nat m AND (0x80 :: byte) = 0" "word_of_nat (m + 128) AND (0x80 :: byte) \<noteq> 0" by blast+
qed

lemma ucast_small_byte: "m < 128 \<Longrightarrow> ucast (word_of_nat m :: byte) = (word_of_nat m :: u64)"
  by (simp add: word_unat_eq_iff unsigned_of_nat take_bit_nat_eq_self)

lemma split_seven: "(word_of_nat n :: u64) = word_of_nat (n mod 128) OR push_bit 7 (word_of_nat (n div 128))"
proof -
  have "push_bit 7 (n div 128) OR n mod 128 = n" using push_or_add [of "n mod 128" 7 "n div 128"] by simp
  then have "(word_of_nat n :: u64) = word_of_nat (push_bit 7 (n div 128) OR n mod 128)" by simp
  then show ?thesis by (simp only: of_nat_or_eq push_bit_of_nat or.commute)
qed

lemma varint_loop_enc:
  assumes "i < 10" and "n < 2 ^ (64 - 7 * i)"
  shows "varint_loop i v (enc_varint n @ r) = Ok (v OR push_bit (7 * i) (word_of_nat n), r)"
  using assms
proof (induction n arbitrary: i v rule: enc_varint.induct)
  case (1 n)
  show ?case
  proof (cases "n < 128")
    case True
    then show ?thesis using "1.prems"(1)
      by (simp add: enc_varint.simps [of n] varint_loop_step low_bits_byte ucast_small_byte Let_def)
  next
    case False
    obtain e where e: "64 - 7 * i = e + 7" "64 - 7 * (i + 1) = e" "i + 1 < 10"
    proof -
      have "(2 :: nat) ^ 7 < 2 ^ (64 - 7 * i)" using False "1.prems"(2) by simp
      then have "7 < 64 - 7 * i" by (simp only: power_strict_increasing_iff)
      then show thesis by (intro that [of "64 - 7 * (i + 1)"]) simp_all
    qed
    have "n < 2 ^ e * 128" using "1.prems"(2) by (simp add: e(1) power_add)
    then have "n div 128 < 2 ^ (64 - 7 * (i + 1))" unfolding e(2) by (rule less_mult_imp_div_less)
    moreover note e(3)
    ultimately have IH: "varint_loop (i + 1) w (enc_varint (n div 128) @ r)
        = Ok (w OR push_bit (7 * (i + 1)) (word_of_nat (n div 128)), r)" for w
      using "1.IH" False by blast
    have IH': "varint_loop (Suc i) w (enc_varint (n div 128) @ r) = Ok (w OR push_bit (7 + 7 * i) (word_of_nat (n div 128)), r)" for w
      using IH [of w] by simp
    have m: "n mod 128 < 128" by simp
    have "push_bit (7 * i) (word_of_nat n :: u64)
        = push_bit (7 * i) (word_of_nat (n mod 128)) OR push_bit (7 * (i + 1)) (word_of_nat (n div 128))"
      by (subst split_seven) (simp add: push_bit_or push_bit_push_bit add.commute)
    then show ?thesis
      using False "1.prems"(1)
      by (simp add: enc_varint.simps [of n] varint_loop_step low_bits_byte(2,4) [OF m] ucast_small_byte [OF m] Let_def IH'
          or.assoc del: of_nat_add)
  qed
qed

lemma reader_varint_enc: "n < 2 ^ 64 \<Longrightarrow> reader_varint (enc_varint n @ r) = Ok (word_of_nat n, r)"
  by (simp add: reader_varint_def varint_loop_enc)

lemma enc_varint_pos: "enc_varint n \<noteq> []"
  by (subst enc_varint.simps) simp

lemma unat_u64_of_nat: "n < 2 ^ 64 \<Longrightarrow> unat (word_of_nat n :: u64) = n"
  by (simp add: unsigned_of_nat take_bit_nat_eq_self)

lemma key_parts:
  assumes "k < 2 ^ 64"
  shows "drop_bit 3 (word_of_nat k :: u64) = word_of_nat (k div 8)"
    and "ucast (word_of_nat k AND (0x7 :: u64)) = (word_of_nat (k mod 8) :: byte)"
proof -
  have "unat (drop_bit 3 (word_of_nat k :: u64)) = k div 8"
    using unat_drop_bit [of 3 "word_of_nat k :: u64"] unat_u64_of_nat [OF assms] by simp
  then show "drop_bit 3 (word_of_nat k :: u64) = word_of_nat (k div 8)"
    using assms by (simp add: word_unat_eq_iff unat_u64_of_nat)
  have "(0x7 :: u64) = mask 3" by (simp add: mask_eq_exp_minus_1)
  then have "unat (word_of_nat k AND (0x7 :: u64)) = k mod 8"
    by (simp only: take_bit_eq_mask [symmetric] unsigned_take_bit_eq unat_u64_of_nat [OF assms]) (simp add: take_bit_eq_mod)
  then show "ucast (word_of_nat k AND (0x7 :: u64)) = (word_of_nat (k mod 8) :: byte)"
    by (simp add: word_unat_eq_iff unsigned_ucast_eq unsigned_of_nat take_bit_eq_mod)
qed

lemma field_key:
  assumes "field < 2 ^ 60" and "wire < 8"
  shows "reader_key (enc_varint (field * 8 + wire) @ r) = Ok (Some (word_of_nat field, word_of_nat wire), r)"
proof -
  have lim: "field * 8 + wire < 2 ^ 64" using assms by simp
  show ?thesis
    using key_parts [OF lim] assms(2) enc_varint_pos
    by (simp add: reader_key_def reader_varint_enc [OF lim] del: of_nat_add of_nat_mult)
qed

lemma message_varint:
  assumes "field < 2 ^ 60" and "n < 2 ^ 64" and "pre (word_of_nat field) 0 st = None"
  shows "message_loop pre step st (pb_varint field n @ s) =
    (case step (word_of_nat field) (WVarint (word_of_nat n)) st of
       Err e \<Rightarrow> Err e | Ok st' \<Rightarrow> message_loop pre step st' s)"
  using field_key [OF assms(1), of 0 "enc_varint n @ s"] assms(2,3)
  by (subst message_loop.simps) (simp add: pb_varint_def reader_value_def reader_varint_enc)

lemma message_bytes:
  assumes "field < 2 ^ 60" and "length b < 2 ^ 64" and "pre (word_of_nat field) 2 st = None"
  shows "message_loop pre step st (pb_bytes field b @ s) =
    (case step (word_of_nat field) (WBytes b) st of
       Err e \<Rightarrow> Err e | Ok st' \<Rightarrow> message_loop pre step st' s)"
  using field_key [OF assms(1), of 2 "enc_varint (length b) @ b @ s"] assms(2,3)
  by (subst message_loop.simps)
    (simp add: pb_bytes_def reader_value_def reader_bytes_def reader_varint_enc unat_u64_of_nat)

lemma message_end: "message_loop pre step st [] = Ok st"
  by (subst message_loop.simps) (simp add: reader_key_def)

fun hash_enum :: "hash_alg \<Rightarrow> nat" where
  "hash_enum HashSha1 = 1" | "hash_enum HashSha256 = 2" | "hash_enum HashSha512 = 3"

fun kind_fields :: "otp_kind \<Rightarrow> bytes" where
  "kind_fields (KindTotp _) = pb_varint 6 2"
| "kind_fields (KindHotp c) = pb_varint 6 1 @ pb_varint 7 (unat c)"

definition account_message :: "import_entry \<Rightarrow> bytes" where
  "account_message e =
     (let i = the (ie_issuer e); a = the (ie_account e) in
      pb_bytes 1 (ie_secret e) @ pb_bytes 2 (i @ 0x3a # a) @ pb_bytes 3 i @ pb_varint 4 (hash_enum (ie_hash e))
      @ pb_varint 5 (if ie_digits e = 8 then 2 else 1) @ kind_fields (ie_kind e))"

text \<open>An account such an export can carry.\<close>

definition exportable :: "import_entry \<Rightarrow> bool" where
  "exportable e \<longleftrightarrow>
     (case (ie_issuer e, ie_account e) of
        (Some i, Some a) \<Rightarrow> utf8_valid i \<and> utf8_valid a \<and> i \<noteq> [] \<and> a \<noteq> [] \<and> 0x3a \<notin> set i \<and> str_trim a = a
      | _ \<Rightarrow> False)
     \<and> ie_secret e \<noteq> [] \<and> length (ie_secret e) \<le> 255 \<and> (ie_digits e = 6 \<or> ie_digits e = 8)
     \<and> (case ie_kind e of KindTotp p \<Rightarrow> p = 30 | KindHotp _ \<Rightarrow> True)
     \<and> length (account_message e) < 2 ^ 64"

lemma lossy_name:
  assumes "utf8_valid i" and "utf8_valid a"
  shows "from_utf8_lossy i = i" and "from_utf8_lossy (i @ 0x3a # a) = i @ 0x3a # a"
proof -
  have "utf8_valid (0x3a # a)" using utf8_valid_append [of "[0x3a]" a] assms(2) by (simp add: utf8_valid_ascii)
  then show "from_utf8_lossy i = i" "from_utf8_lossy (i @ 0x3a # a) = i @ 0x3a # a"
    using assms(1) by (simp_all add: from_utf8_lossy_id utf8_valid_append)
qed

lemma account_read:
  assumes "exportable e"
  shows "convert_wide (account_message e) = Ok (Some (the (ie_issuer e) @ 0x3a # the (ie_account e)), Ok e)"
proof -
  obtain i a where ia: "ie_issuer e = Some i" "ie_account e = Some a" "utf8_valid i" "utf8_valid a"
    "i \<noteq> []" "a \<noteq> []" "0x3a \<notin> set i" "str_trim a = a"
    using assms by (auto simp: exportable_def split: option.splits)
  have len: "length (ie_secret e) < 2 ^ 64" "length (i @ 0x3a # a) < 2 ^ 64" "length i < 2 ^ 64"
    using assms ia by (auto simp: exportable_def account_message_def pb_bytes_def)
  let ?p = "\<lparr>op_secret = ie_secret e, op_name = i @ 0x3a # a, op_issuer = i, op_algorithm = word_of_nat (hash_enum (ie_hash e)),
    op_digits = (if ie_digits e = 8 then 2 else 1), op_typ = (case ie_kind e of KindTotp _ \<Rightarrow> 2 | KindHotp _ \<Rightarrow> 1),
    op_counter = (case ie_kind e of KindTotp _ \<Rightarrow> 0 | KindHotp c \<Rightarrow> c)\<rparr>"
  have h: "hash_enum (ie_hash e) < 2 ^ 64" by (cases "ie_hash e") simp_all
  have c: "unat (c :: u64) < 2 ^ 64" for c using unsigned_less [of c, where ?'a = nat] by simp
  have r: "read_parameters (account_message e) = Ok ?p"
    unfolding read_parameters_def account_message_def Let_def append_assoc ia option.sel
    by (cases "ie_kind e")
      (simp_all add: message_bytes message_varint message_end len [simplified] h [simplified] lossy_name [OF ia(3,4)] parameters_start_def
        message_varint [where s = "[]", simplified] c [simplified])
  have "wide_of ?p = Ok e"
    using assms ia
    by (cases "ie_hash e"; cases "ie_kind e")
      (auto simp: wide_of_def wide_kind_def wide_hash_def wide_digits_def check_secret_def MAX_SECRET_BYTES_def
        issuer_of_def account_of_def split_label_def split_once_append finish_entry_def non_empty_def exportable_def)
  moreover have "name_label (issuer_of ?p) (account_of ?p) = Some (i @ 0x3a # a)"
    using ia by (simp add: issuer_of_def account_of_def split_label_def split_once_append non_empty_def name_label_def)
  ultimately show ?thesis by (simp add: convert_wide_def r ia)
qed

definition export_payload :: "import_entry list \<Rightarrow> u32 \<Rightarrow> u32 \<Rightarrow> bytes" where
  "export_payload es batch_index batch_size =
     concat (map (\<lambda>e. pb_bytes 1 (account_message e)) es) @ pb_varint 2 1 @ pb_varint 3 (unat batch_size)
     @ pb_varint 4 (unat batch_index)"

definition exported_item :: "nat \<times> import_entry \<Rightarrow> import_item" where
  "exported_item = (\<lambda>(n, e). \<lparr>it_index = n, it_label = the (ie_issuer e) @ 0x3a # the (ie_account e), it_entry = Ok e\<rparr>)"

lemma accounts_read:
  assumes "list_all exportable es" and "length (ps_items st) + length es \<le> MAX_ENTRIES"
  shows "message_loop wide_room (payload_field wide_item) st (concat (map (\<lambda>e. pb_bytes 1 (account_message e)) es) @ s)
    = message_loop wide_room (payload_field wide_item)
        (st\<lparr>ps_items := ps_items st @ map exported_item (List.enumerate (length (ps_items st)) es)\<rparr>) s"
  using assms
proof (induction es arbitrary: st)
  case (Cons e es)
  then have e: "exportable e" by simp
  then have "length (account_message e) < 2 ^ 64" by (simp add: exportable_def)
  moreover have "wide_room (word_of_nat 1) 2 st = None" using Cons.prems(2) by (simp add: wide_room_def)
  ultimately have "message_loop wide_room (payload_field wide_item) st
      (pb_bytes 1 (account_message e) @ concat (map (\<lambda>e. pb_bytes 1 (account_message e)) es) @ s)
    = message_loop wide_room (payload_field wide_item) (st\<lparr>ps_items := ps_items st @ [exported_item (length (ps_items st), e)]\<rparr>)
        (concat (map (\<lambda>e. pb_bytes 1 (account_message e)) es) @ s)"
    by (subst message_bytes) (simp_all add: wide_item_def account_read [OF e] exported_item_def)
  then show ?case using Cons by simp
qed simp

lemma payload_read:
  assumes "list_all exportable es" and "es \<noteq> []" and "length es \<le> MAX_ENTRIES"
  shows "parse_payload_wide (export_payload es batch_index batch_size) = Ok
    \<lparr>if_format = FGoogleExport, if_items = map exported_item (List.enumerate 0 es),
     if_batch = batch_of (Some batch_index) (Some batch_size)\<rparr>"
proof -
  have lim: "unat (n :: u32) < 2 ^ 64" for n using unsigned_less [of n, where ?'a = nat] by simp
  have room: "wide_room f 0 (st :: import_item payload_state) = None" for f st by (simp add: wide_room_def)
  have cut: "ucast (ucast n :: u64) = n" for n :: "u32"
    using unsigned_less [of n, where ?'a = nat] by (intro ucast_ucast_small) simp
  have "message_loop wide_room (payload_field wide_item) payload_start (export_payload es batch_index batch_size)
    = Ok \<lparr>ps_items = map exported_item (List.enumerate 0 es), ps_size = Some batch_size, ps_index = Some batch_index\<rparr>"
    using assms(1,3) lim
    by (simp add: export_payload_def accounts_read [simplified] payload_start_def message_varint room message_end cut
        message_varint [where s = "[]", simplified])
  then show ?thesis using assms(2) by (simp add: parse_payload_wide_def enumerate_eq_zip)
qed

definition export_uri :: "import_entry list \<Rightarrow> u32 \<Rightarrow> u32 \<Rightarrow> bytes" where
  "export_uri es batch_index batch_size =
     ascii ''otpauth-migration://offline?data='' @ percent_encode (base64_encode (export_payload es batch_index batch_size))"

lemma percent_encode_last: "percent_encode s \<noteq> [] \<Longrightarrow> plain_byte (last (percent_encode s))"
  by (induction s) (auto simp: nibble_plain)

lemma percent_encode_ascii: "b \<in> set (percent_encode s) \<Longrightarrow> b < 0x80"
  using percent_encode_set [of b s] plain_ascii [of b] by auto

lemma export_uri_decode: "decode_uri (export_uri es batch_index batch_size) = Ok (export_payload es batch_index batch_size)"
proof -
  let ?b = "base64_encode (export_payload es batch_index batch_size)"
  let ?uri = "export_uri es batch_index batch_size"
  have trim: "str_trim ?uri = ?uri"
  proof (rule str_trim_ascii)
    show "list_all (\<lambda>b. b < 0x80) ?uri"
      using percent_encode_ascii by (simp add: export_uri_def list_all_iff ascii_def)
    have "plain_byte b \<Longrightarrow> \<not> is_whitespace (unat b)" for b
      by (auto simp: plain_byte_def is_whitespace_def word_le_nat_alt)
    then show "\<not> is_whitespace (unat (last ?uri))"
      using percent_encode_last [of ?b] by (cases "percent_encode ?b = []") (simp_all add: export_uri_def ascii_def is_whitespace_def)
  qed (simp_all add: export_uri_def ascii_def is_whitespace_def)
  have "utf8_valid ?b" by (rule utf8_valid_ascii [OF base64_encode_ascii])
  then have dec: "percent_decode_keep_plus (percent_encode ?b) = Some ?b"
    using percent_loop_encode [of False ?b "[]"] by (simp add: percent_decode_keep_plus_def percent_decode_impl_def from_utf8_def)
  have one: "split_on 0x26 (ascii ''data='' @ percent_encode ?b) = [ascii ''data='' @ percent_encode ?b]"
    using percent_encode_free [of "0x26" ?b] by (intro split_on_none) (auto simp: ascii_def)
  have start: "?uri = ascii ''otpauth-migration://offline'' @ [0x3f] @ ascii ''data='' @ percent_encode ?b"
    by (simp add: export_uri_def ascii_def)
  show ?thesis
    unfolding decode_uri_def trim
    unfolding start strip_prefix_append ok_or.simps bind_result.simps Let_def
    by (simp only: strip_prefix_append option.case one last_data.simps or_else_def ok_or.simps bind_result.simps dec
        base64_decode_encode result.case)
qed

text \<open>C23: an export is read back.  The migration URI of any list of exportable accounts, written as the app writes it
  (protobuf, base64, percent-encoding), is read as those accounts in that order, with the place of the batch when there is one.\<close>

theorem migration_export_read:
  assumes "list_all exportable es" and "es \<noteq> []" and "length es \<le> MAX_ENTRIES"
  shows "migration_parse_wide (export_uri es batch_index batch_size) = Ok
    \<lparr>if_format = FGoogleExport, if_items = map exported_item (List.enumerate 0 es),
     if_batch = batch_of (Some batch_index) (Some batch_size)\<rparr>"
  using payload_read [OF assms] by (simp add: migration_parse_wide_def export_uri_decode)

definition demo_account :: import_entry where
  "demo_account = \<lparr>ie_issuer = Some (ascii ''A''), ie_account = Some (ascii ''b''), ie_secret = [1, 2], ie_hash = HashSha512,
     ie_digits = 8, ie_kind = KindHotp 300\<rparr>"

theorem migration_export_read_witness:
  "migration_parse_wide (export_uri [demo_account] 0 2) = Ok
    \<lparr>if_format = FGoogleExport, if_items = [\<lparr>it_index = 0, it_label = ascii ''A:b'', it_entry = Ok demo_account\<rparr>],
     if_batch = Some (0, 2)\<rparr>"
proof -
  have "exportable demo_account"
    by (simp add: exportable_def demo_account_def utf8_valid_ascii str_trim_ascii is_whitespace_def ascii_def
        account_message_def pb_bytes_def pb_varint_def enc_varint.simps)
  then show ?thesis
    using migration_export_read [of "[demo_account]" 0 2]
    by (simp add: exported_item_def batch_of_def MAX_ENTRIES_def demo_account_def ascii_def)
qed

end
