(* ===== verification/Import_Plan.thy ===== *)
theory Import_Plan
  imports Import_Entry
begin

text \<open>
  \<^verbatim>\<open>crates/keyroost-import/src/plan.rs\<close>: what becomes of each entry of a file on one
  destination, from the table of device limits to the verdict of every row.  The sentences shown to
  a person are left out.
\<close>

datatype oath_family = YubiKey "(byte \<times> byte \<times> byte) option" | Solo2 | Nitrokey3 | OtherOath
datatype store = StMolto2 | StOath oath_family | StToken2Otp

definition takes_touch :: "store \<Rightarrow> bool" where "takes_touch s \<longleftrightarrow> s \<noteq> StMolto2"

text \<open>\<^verbatim>\<open><\<close> on version triples\<close>

fun version_less :: "byte \<times> byte \<times> byte \<Rightarrow> byte \<times> byte \<times> byte \<Rightarrow> bool" where
  "version_less (a, b, c) (x, y, z) \<longleftrightarrow> a < x \<or> a = x \<and> (b < y \<or> b = y \<and> c < z)"

definition from_vendor :: "bytes \<Rightarrow> (byte \<times> byte \<times> byte) option \<Rightarrow> oath_family" where
  "from_vendor vendor version =
     (let v = to_ascii_lowercase (str_trim vendor) in
      if v = ascii ''yubico'' then YubiKey version
      else if v = ascii ''solokeys'' then Solo2
      else if v = ascii ''nitrokey'' then Nitrokey3
      else OtherOath)"

definition SOLO2_NAME_MAX :: nat where "SOLO2_NAME_MAX = 127"
definition MOLTO_LAST_SLOT :: nat where "MOLTO_LAST_SLOT = 99"

fun name_limit :: "oath_family \<Rightarrow> nat option" where
  "name_limit (YubiKey _) = Some 64"
| "name_limit Solo2 = Some SOLO2_NAME_MAX"
| "name_limit Nitrokey3 = Some 128"
| "name_limit OtherOath = None"

fun hard_name_limit :: "oath_family \<Rightarrow> nat option" where
  "hard_name_limit Solo2 = Some SOLO2_NAME_MAX"
| "hard_name_limit _ = None"

text \<open>Whether \<^verbatim>\<open>name_refusal\<close> and \<^verbatim>\<open>prefix_refusal\<close> give a reason.\<close>

definition name_refused :: "oath_family \<Rightarrow> bytes \<Rightarrow> bool" where
  "name_refused family name = (case hard_name_limit family of None \<Rightarrow> False | Some n \<Rightarrow> n < length name)"

fun prefix_issue :: "oath_family \<Rightarrow> bool" where
  "prefix_issue (YubiKey (Some v)) \<longleftrightarrow> version_less (4, 0, 0) v \<and> version_less v (4, 3, 5)"
| "prefix_issue _ \<longleftrightarrow> False"

definition starts_other :: "bytes \<Rightarrow> bytes \<Rightarrow> bool" where
  "starts_other name other \<longleftrightarrow> other \<noteq> name \<and> strip_prefix name other \<noteq> None"

definition prefix_refused :: "oath_family \<Rightarrow> bytes \<Rightarrow> bytes list \<Rightarrow> bool" where
  "prefix_refused family name others \<longleftrightarrow> prefix_issue family \<and> list_ex (starts_other name) others"

datatype stored_name = NmOath bytes | NmToken2 bytes bytes | NmMolto2 byte bytes

record existing =
  ex_names :: "stored_name list"
  ex_hidden :: nat

record target =
  tg_store :: store
  tg_first_slot :: byte
  tg_existing :: existing
  tg_replace :: bool

datatype skip_reason =
    SkUnusable unusable
  | SkNoName
  | SkNameTooLong nat nat
  | SkNotAscii
  | SkAmbiguousName
  | SkHash hash_alg
  | SkDigits byte
  | SkPeriod u32
  | SkPeriodNotStored u32
  | SkHotp
  | SkCounter u64
  | SkSecretLength nat nat
  | SkTooLongForCommand
  | SkSameNameInFile nat
  | SkNoRoom nat
  | SkPastLastSlot
  | SkStartsAnotherName

datatype verdict = VAdd | VReplace | VExists | VSkip skip_reason

datatype plan_note =
    ReplaceMayLoseOld
  | CapacityUnknown
  | Solo2Hotp
  | Nitrokey3TouchToReplace
  | Nitrokey3TouchToSave
  | HiddenNote nat
  | MoltoReplacesSlots

record plan_row =
  pr_index :: nat
  pr_label :: bytes
  pr_name :: "stored_name option"
  pr_verdict :: verdict
  pr_touch :: bool

definition row_writes :: "plan_row \<Rightarrow> bool" where
  "row_writes r \<longleftrightarrow> pr_verdict r = VAdd \<or> pr_verdict r = VReplace"

record plan =
  pl_store :: store
  pl_rows :: "plan_row list"
  pl_capacity :: "nat option"
  pl_on_key :: nat
  pl_replace :: bool
  pl_notes :: "plan_note list"

record counts =
  ct_add :: nat
  ct_replace :: nat
  ct_exists :: nat
  ct_skip :: nat

fun count_row :: "plan_row \<Rightarrow> counts \<Rightarrow> counts" where
  "count_row r c =
     (case pr_verdict r of
        VAdd \<Rightarrow> c\<lparr>ct_add := ct_add c + 1\<rparr>
      | VReplace \<Rightarrow> c\<lparr>ct_replace := ct_replace c + 1\<rparr>
      | VExists \<Rightarrow> c\<lparr>ct_exists := ct_exists c + 1\<rparr>
      | VSkip _ \<Rightarrow> c\<lparr>ct_skip := ct_skip c + 1\<rparr>)"

definition plan_counts :: "plan \<Rightarrow> counts" where
  "plan_counts p = fold count_row (pl_rows p) \<lparr>ct_add = 0, ct_replace = 0, ct_exists = 0, ct_skip = 0\<rparr>"

definition same_rows :: "plan \<Rightarrow> plan \<Rightarrow> bool" where "same_rows p q \<longleftrightarrow> pl_rows p = pl_rows q"

definition plan_writes :: "plan \<Rightarrow> plan_row list" where "plan_writes p = filter row_writes (pl_rows p)"

definition set_touch :: "(plan_row \<Rightarrow> bool) \<Rightarrow> plan \<Rightarrow> plan" where
  "set_touch wants p =
     (let takes = takes_touch (pl_store p);
          rows = map (\<lambda>r. r\<lparr>pr_touch := takes \<and> row_writes r \<and> wants r\<rparr>) (pl_rows p);
          notes = filter (\<lambda>n. n \<noteq> Nitrokey3TouchToSave) (pl_notes p)
      in p\<lparr>pl_rows := rows,
           pl_notes := (if pl_store p = StOath Nitrokey3 \<and> list_ex pr_touch rows
                        then notes @ [Nitrokey3TouchToSave] else notes)\<rparr>)"

subsection \<open>The rule table\<close>

datatype period_rule = PeriodAny | PeriodOnly30 | PeriodMolto2 | PeriodRange u32 u32
datatype hotp_rule = HotpNo | HotpCounterU32 | HotpCounterZeroOnly

record limit_row =
  lm_name_max :: "nat option"
  lm_ascii_only :: bool
  lm_hashes :: "hash_alg list"
  lm_digits :: "byte \<times> byte"
  lm_totp :: period_rule
  lm_hotp :: hotp_rule
  lm_secret_max :: "nat option"
  lm_capacity :: "nat option"

definition SHA1_256 :: "hash_alg list" where "SHA1_256 = [HashSha1, HashSha256]"
definition SHA1_256_512 :: "hash_alg list" where "SHA1_256_512 = [HashSha1, HashSha256, HashSha512]"

fun limits :: "store \<Rightarrow> limit_row" where
  "limits (StOath (YubiKey version)) =
     \<lparr>lm_name_max = Some 64, lm_ascii_only = False,
      lm_hashes = (case version of Some v \<Rightarrow> if version_less v (4, 3, 1) then SHA1_256 else SHA1_256_512 | None \<Rightarrow> SHA1_256_512),
      lm_digits = (6, 8), lm_totp = PeriodAny, lm_hotp = HotpCounterU32, lm_secret_max = None,
      lm_capacity = (case version of
          Some v \<Rightarrow> if \<not> version_less v (5, 7, 0) then Some 64 else if \<not> version_less v (4, 0, 0) then Some 32 else None
        | None \<Rightarrow> None)\<rparr>"
| "limits (StOath Solo2) =
     \<lparr>lm_name_max = Some SOLO2_NAME_MAX, lm_ascii_only = False, lm_hashes = SHA1_256, lm_digits = (6, 8),
      lm_totp = PeriodAny, lm_hotp = HotpCounterU32, lm_secret_max = Some 64, lm_capacity = None\<rparr>"
| "limits (StOath Nitrokey3) =
     \<lparr>lm_name_max = Some 128, lm_ascii_only = False, lm_hashes = SHA1_256, lm_digits = (6, 8),
      lm_totp = PeriodOnly30, lm_hotp = HotpCounterU32, lm_secret_max = Some 128, lm_capacity = Some 50\<rparr>"
| "limits (StOath OtherOath) =
     \<lparr>lm_name_max = None, lm_ascii_only = False, lm_hashes = SHA1_256_512, lm_digits = (6, 8),
      lm_totp = PeriodAny, lm_hotp = HotpCounterU32, lm_secret_max = None, lm_capacity = None\<rparr>"
| "limits StToken2Otp =
     \<lparr>lm_name_max = Some 64, lm_ascii_only = True, lm_hashes = SHA1_256, lm_digits = (4, 10),
      lm_totp = PeriodRange 1 65535, lm_hotp = HotpCounterZeroOnly, lm_secret_max = Some 64, lm_capacity = Some 50\<rparr>"
| "limits StMolto2 =
     \<lparr>lm_name_max = Some 12, lm_ascii_only = False, lm_hashes = SHA1_256, lm_digits = (4, 10),
      lm_totp = PeriodMolto2, lm_hotp = HotpNo, lm_secret_max = Some 63, lm_capacity = Some 100\<rparr>"

definition molto_digits :: "byte \<Rightarrow> bool" where "molto_digits d \<longleftrightarrow> d \<in> {4, 6, 8, 10}"

definition oath_put_fits :: "nat \<Rightarrow> nat \<Rightarrow> bool \<Rightarrow> bool" where
  "oath_put_fits name_len secret_len imf \<longleftrightarrow>
     2 + name_len + 2 + 2 + max secret_len 14 + (if imf then 6 else 0) \<le> 255"

subsection \<open>Naming an entry\<close>

definition looks_like_period_prefix :: "bytes \<Rightarrow> bool" where
  "looks_like_period_prefix s =
     (case split_once 0x2f s of Some (head, _) \<Rightarrow> head \<noteq> [] \<and> list_all is_ascii_digit head | None \<Rightarrow> False)"

definition single_name :: "bytes \<Rightarrow> (bytes, skip_reason) result" where
  "single_name one = (if 0x3a \<in> set one then Err SkAmbiguousName else Ok one)"

definition base_name :: "import_entry \<Rightarrow> (bytes, skip_reason) result" where
  "base_name e =
     (case (ie_issuer e, ie_account e) of
        (Some i, Some a) \<Rightarrow> if 0x3a \<in> set i then Err SkAmbiguousName else Ok (i @ 0x3a # a)
      | (Some one, None) \<Rightarrow> single_name one
      | (None, Some one) \<Rightarrow> single_name one
      | (None, None) \<Rightarrow> Err SkNoName)"

fun is_totp :: "otp_kind \<Rightarrow> bool" where "is_totp (KindTotp _) = True" | "is_totp (KindHotp _) = False"

definition oath_name :: "import_entry \<Rightarrow> oath_family \<Rightarrow> (bytes, skip_reason) result" where
  "oath_name e family =
     (let period_read = (is_totp (ie_kind e) \<and> family \<noteq> Nitrokey3);
          prefix = (case ie_kind e of
              KindTotp p \<Rightarrow> if p \<noteq> 30 \<and> period_read then Some p else None
            | KindHotp _ \<Rightarrow> None)
      in bind_result (base_name e) (\<lambda>base.
         case prefix of
           Some p \<Rightarrow> Ok (show_dec (unat p) @ 0x2f # base)
         | None \<Rightarrow> if period_read \<and> looks_like_period_prefix base then Err SkAmbiguousName else Ok base))"

definition token2_name :: "import_entry \<Rightarrow> (bytes \<times> bytes, skip_reason) result" where
  "token2_name e =
     (case (ie_issuer e, ie_account e) of
        (Some i, Some a) \<Rightarrow> Ok (i, a)
      | (None, Some one) \<Rightarrow> Ok ([], one)
      | (Some one, None) \<Rightarrow> Ok ([], one)
      | (None, None) \<Rightarrow> Err SkNoName)"

definition check_digits :: "import_entry \<Rightarrow> store \<Rightarrow> limit_row \<Rightarrow> bool" where
  "check_digits e s lim \<longleftrightarrow>
     fst (lm_digits lim) \<le> ie_digits e \<and> ie_digits e \<le> snd (lm_digits lim) \<and> (s \<noteq> StMolto2 \<or> molto_digits (ie_digits e))"

definition check_kind :: "import_entry \<Rightarrow> limit_row \<Rightarrow> (unit, skip_reason) result" where
  "check_kind e lim =
     (case ie_kind e of
        KindTotp period \<Rightarrow>
          (case lm_totp lim of
             PeriodAny \<Rightarrow> Ok ()
           | PeriodOnly30 \<Rightarrow> if period \<noteq> 30 then Err (SkPeriodNotStored period) else Ok ()
           | PeriodMolto2 \<Rightarrow> if period \<noteq> 30 \<and> period \<noteq> 60 then Err (SkPeriod period) else Ok ()
           | PeriodRange lo hi \<Rightarrow> if \<not> (lo \<le> period \<and> period \<le> hi) then Err (SkPeriod period) else Ok ())
      | KindHotp counter \<Rightarrow>
          (case lm_hotp lim of
             HotpCounterU32 \<Rightarrow> if 0xffffffff < counter then Err (SkCounter counter) else Ok ()
           | HotpCounterZeroOnly \<Rightarrow> if counter \<noteq> 0 then Err (SkCounter counter) else Ok ()
           | HotpNo \<Rightarrow> Ok ()))"

definition check_params :: "import_entry \<Rightarrow> store \<Rightarrow> limit_row \<Rightarrow> (unit, skip_reason) result" where
  "check_params e s lim =
     (if \<not> is_totp (ie_kind e) \<and> lm_hotp lim = HotpNo then Err SkHotp
      else if ie_hash e \<notin> set (lm_hashes lim) then Err (SkHash (ie_hash e))
      else if \<not> check_digits e s lim then Err (SkDigits (ie_digits e))
      else bind_result (check_kind e lim) (\<lambda>_.
        case lm_secret_max lim of
          Some n \<Rightarrow> if n < length (ie_secret e) then Err (SkSecretLength (length (ie_secret e)) n) else Ok ()
        | None \<Rightarrow> Ok ()))"

definition is_ascii :: "bytes \<Rightarrow> bool" where "is_ascii s \<longleftrightarrow> list_all (\<lambda>b. b < 0x80) s"

definition too_long :: "limit_row \<Rightarrow> bytes \<Rightarrow> skip_reason option" where
  "too_long lim name =
     (case lm_name_max lim of
        Some n \<Rightarrow> if n < length name then Some (SkNameTooLong (length name) n) else None
      | None \<Rightarrow> None)"

text \<open>The panic of the last arm is \<open>None\<close>.\<close>

fun name_for :: "import_entry \<Rightarrow> store \<Rightarrow> limit_row \<Rightarrow> (stored_name, skip_reason) result option" where
  "name_for e (StOath family) lim =
     Some (bind_result (oath_name e family) (\<lambda>name.
       case too_long lim name of
         Some s \<Rightarrow> Err s
       | None \<Rightarrow>
           let imf = (case ie_kind e of KindHotp counter \<Rightarrow> counter \<noteq> 0 | KindTotp _ \<Rightarrow> False) in
           if \<not> oath_put_fits (length name) (length (ie_secret e)) imf then Err SkTooLongForCommand
           else Ok (NmOath name)))"
| "name_for e StToken2Otp lim =
     Some (bind_result (token2_name e) (\<lambda>(app, account).
       if \<not> is_ascii app \<or> \<not> is_ascii account then Err SkNotAscii
       else case too_long lim app of
         Some s \<Rightarrow> Err s
       | None \<Rightarrow>
           (case too_long lim account of
              Some s \<Rightarrow> Err s
            | None \<Rightarrow> Ok (NmToken2 app account))))"
| "name_for e StMolto2 lim = None"

subsection \<open>The plan\<close>

fun oath_text :: "stored_name \<Rightarrow> bytes option" where
  "oath_text (NmOath n) = Some n" | "oath_text _ = None"

fun starts_another_name :: "store \<Rightarrow> stored_name \<Rightarrow> existing \<Rightarrow> (stored_name \<times> nat) list \<Rightarrow> bool" where
  "starts_another_name (StOath family) (NmOath name) ex seen =
     prefix_refused family name (List.map_filter oath_text (ex_names ex @ map fst seen))"
| "starts_another_name _ _ _ _ = False"

record plan_state =
  st_seen :: "(stored_name \<times> nat) list"
  st_next_slot :: nat

definition slot_used :: "existing \<Rightarrow> byte \<Rightarrow> bool" where
  "slot_used ex slot = list_ex (\<lambda>n. case n of NmMolto2 s _ \<Rightarrow> s = slot | _ \<Rightarrow> False) (ex_names ex)"

definition decide_molto :: "target \<Rightarrow> import_entry \<Rightarrow> plan_state \<Rightarrow> (stored_name option \<times> verdict) \<times> plan_state" where
  "decide_molto t e st =
     (let title = molto_title (ie_issuer e) (ie_account e) in
      if title = [] then ((None, VSkip SkNoName), st)
      else if MOLTO_LAST_SLOT < st_next_slot st then ((None, VSkip SkPastLastSlot), st)
      else let slot = word_of_nat (st_next_slot st)
           in ((Some (NmMolto2 slot title), if slot_used (tg_existing t) slot then VReplace else VAdd),
               st\<lparr>st_next_slot := st_next_slot st + 1\<rparr>))"

definition decide_named :: "target \<Rightarrow> nat \<Rightarrow> stored_name \<Rightarrow> plan_state \<Rightarrow> verdict \<times> plan_state" where
  "decide_named t i n st =
     (case map_of (st_seen st) n of
        Some first \<Rightarrow> (VSkip (SkSameNameInFile first), st)
      | None \<Rightarrow>
          let on_key = (n \<in> set (ex_names (tg_existing t))); seen = st\<lparr>st_seen := st_seen st @ [(n, i)]\<rparr> in
          if on_key \<and> \<not> tg_replace t then (VExists, seen)
          else if starts_another_name (tg_store t) n (tg_existing t) (st_seen st) then (VSkip SkStartsAnotherName, st)
          else (if on_key then VReplace else VAdd, seen))"

definition decide :: "target \<Rightarrow> import_item \<Rightarrow> plan_state \<Rightarrow> ((stored_name option \<times> verdict) \<times> plan_state) option" where
  "decide t item st =
     (case it_entry item of
        Err u \<Rightarrow> Some ((None, VSkip (SkUnusable u)), st)
      | Ok e \<Rightarrow>
          (case check_params e (tg_store t) (limits (tg_store t)) of
             Err s \<Rightarrow> Some ((None, VSkip s), st)
           | Ok _ \<Rightarrow>
               if tg_store t = StMolto2 then Some (decide_molto t e st)
               else map_option (\<lambda>r. case r of
                    Err s \<Rightarrow> ((None, VSkip s), st)
                  | Ok n \<Rightarrow> (let (v, st') = decide_named t (it_index item) n st in ((Some n, v), st')))
                  (name_for e (tg_store t) (limits (tg_store t)))))"

fun plan_items :: "target \<Rightarrow> import_item list \<Rightarrow> plan_state \<Rightarrow> plan_row list option" where
  "plan_items t [] st = Some []"
| "plan_items t (item # items) st =
     Option.bind (decide t item st) (\<lambda>((name, verdict), st').
     map_option (Cons \<lparr>pr_index = it_index item, pr_label = it_label item, pr_name = name, pr_verdict = verdict,
                       pr_touch = False\<rparr>) (plan_items t items st'))"

fun fill_room :: "nat \<Rightarrow> nat \<Rightarrow> plan_row list \<Rightarrow> plan_row list" where
  "fill_room cap used [] = []"
| "fill_room cap used (r # rows) =
     (if pr_verdict r = VAdd then
        (if cap \<le> used then r\<lparr>pr_verdict := VSkip (SkNoRoom cap)\<rparr> # fill_room cap used rows
         else r # fill_room cap (used + 1) rows)
      else r # fill_room cap used rows)"

definition hotp_item :: "plan_row \<Rightarrow> import_item \<Rightarrow> bool" where
  "hotp_item r i \<longleftrightarrow> it_index i = pr_index r
     \<and> (case it_entry i of Ok e \<Rightarrow> \<not> is_totp (ie_kind e) | Err _ \<Rightarrow> False)"

definition notes_for :: "store \<Rightarrow> plan_row list \<Rightarrow> nat option \<Rightarrow> nat \<Rightarrow> import_file \<Rightarrow> plan_note list" where
  "notes_for s rows capacity hidden file =
     (let any_replace = list_ex (\<lambda>r. pr_verdict r = VReplace) rows in
      (if any_replace \<and> s \<in> {StOath Solo2, StOath Nitrokey3, StOath OtherOath} then [ReplaceMayLoseOld] else [])
      @ (if capacity = None \<and> s \<noteq> StMolto2 then [CapacityUnknown] else [])
      @ (if s = StOath Solo2 \<and> list_ex (\<lambda>r. list_ex (hotp_item r) (if_items file)) (filter row_writes rows)
         then [Solo2Hotp] else [])
      @ (if any_replace \<and> s = StOath Nitrokey3 then [Nitrokey3TouchToReplace] else [])
      @ (if 0 < hidden then [HiddenNote hidden] else [])
      @ (if any_replace \<and> s = StMolto2 then [MoltoReplacesSlots] else []))"

definition plan_import :: "import_file \<Rightarrow> target \<Rightarrow> plan option" where
  "plan_import file t =
     (let s = tg_store t; ex = tg_existing t;
          on_key = length (ex_names ex) + ex_hidden ex;
          capacity = (if s = StMolto2 then Some (MOLTO_LAST_SLOT + 1 - unat (tg_first_slot t)) else lm_capacity (limits s))
      in map_option (\<lambda>rows.
           let rows = (if s = StMolto2 then rows
                       else case capacity of Some cap \<Rightarrow> fill_room cap on_key rows | None \<Rightarrow> rows)
           in \<lparr>pl_store = s, pl_rows = rows, pl_capacity = capacity, pl_on_key = on_key, pl_replace = tg_replace t,
               pl_notes = notes_for s rows capacity (ex_hidden ex) file\<rparr>)
         (plan_items t (if_items file) \<lparr>st_seen = [], st_next_slot = unat (tg_first_slot t)\<rparr>))"

definition plan_for :: "import_file \<Rightarrow> store \<Rightarrow> byte \<Rightarrow> existing \<Rightarrow> bool \<Rightarrow> plan option" where
  "plan_for file s first_slot ex replace_same =
     plan_import file \<lparr>tg_store = s, tg_first_slot = first_slot, tg_existing = ex, tg_replace = replace_same\<rparr>"

definition molto_plan :: "import_file \<Rightarrow> byte \<Rightarrow> existing \<Rightarrow> plan option" where
  "molto_plan file first_slot ex = plan_for file StMolto2 first_slot ex False"

subsection \<open>What a plan promises\<close>

text \<open>A row against the item it was made from: a row that writes is of an entry whose parameters the
  store takes, under the name the store would read it by; it replaces exactly when that name (Molto2: that
  slot) is on the key, and where names are not slots only when replacing was asked for.\<close>

definition name_taken :: "target \<Rightarrow> stored_name \<Rightarrow> bool" where
  "name_taken t n =
     (case n of NmMolto2 slot _ \<Rightarrow> slot_used (tg_existing t) slot | _ \<Rightarrow> n \<in> set (ex_names (tg_existing t)))"

definition name_made :: "target \<Rightarrow> import_entry \<Rightarrow> stored_name \<Rightarrow> bool" where
  "name_made t e n =
     (if tg_store t = StMolto2
      then (case n of NmMolto2 slot title \<Rightarrow> title = molto_title (ie_issuer e) (ie_account e) \<and> title \<noteq> [] | _ \<Rightarrow> False)
      else name_for e (tg_store t) (limits (tg_store t)) = Some (Ok n))"

definition row_fits :: "target \<Rightarrow> import_item \<Rightarrow> plan_row \<Rightarrow> bool" where
  "row_fits t item r \<longleftrightarrow>
     pr_index r = it_index item \<and> pr_label r = it_label item \<and> \<not> pr_touch r
     \<and> (row_writes r \<longrightarrow>
         (case (it_entry item, pr_name r) of
            (Ok e, Some n) \<Rightarrow>
              check_params e (tg_store t) (limits (tg_store t)) = Ok ()
              \<and> name_made t e n
              \<and> (pr_verdict r = VReplace \<longleftrightarrow> name_taken t n)
              \<and> (pr_verdict r = VReplace \<longrightarrow> tg_store t = StMolto2 \<or> tg_replace t)
              \<and> \<not> starts_another_name (tg_store t) n (tg_existing t) []
          | _ \<Rightarrow> False))"

fun written_names :: "plan_row list \<Rightarrow> stored_name list" where
  "written_names [] = []"
| "written_names (r # rs) =
     (case pr_name r of Some n \<Rightarrow> if row_writes r then n # written_names rs else written_names rs
      | None \<Rightarrow> written_names rs)"

text \<open>What may be written after \<open>m\<close>: another name, on the firmwares with the prefix rule none that
  starts \<open>m\<close>, and a later slot on a Molto2.\<close>

fun may_follow :: "store \<Rightarrow> stored_name \<Rightarrow> stored_name \<Rightarrow> bool" where
  "may_follow (StOath family) (NmOath m) (NmOath n) \<longleftrightarrow> m \<noteq> n \<and> \<not> prefix_refused family n [m]"
| "may_follow s (NmMolto2 a _) (NmMolto2 b _) \<longleftrightarrow> a < b"
| "may_follow s m n \<longleftrightarrow> m \<noteq> n"

definition after :: "target \<Rightarrow> plan_state \<Rightarrow> stored_name \<Rightarrow> bool" where
  "after t st n =
     (if tg_store t = StMolto2 then (case n of NmMolto2 slot _ \<Rightarrow> st_next_slot st \<le> unat slot \<and> unat slot \<le> 99 | _ \<Rightarrow> False)
      else list_all (\<lambda>(m, _). may_follow (tg_store t) m n) (st_seen st))"

lemma prefix_refused_Cons:
  "prefix_refused family name (m # ms) \<longleftrightarrow> prefix_refused family name [m] \<or> prefix_refused family name ms"
  by (auto simp: prefix_refused_def)

lemma name_for_oath: "name_for e (StOath f) lim = Some (Ok n) \<Longrightarrow> \<exists>x. n = NmOath x"
  by (auto simp: Let_def split: option.splits if_splits)

lemma starts_another_seen: "\<not> starts_another_name s n ex seen \<Longrightarrow> \<not> starts_another_name s n ex []"
  by (cases "(s, n, ex, seen)" rule: starts_another_name.cases) (auto simp: prefix_refused_def List.map_filter_def)

lemma follow_seen:
  assumes "name_for e s lim = Some (Ok n)" "map_of seen n = None" "\<not> starts_another_name s n ex seen"
  shows "list_all (\<lambda>(m, _). may_follow s m n) seen"
  using assms(2,3)
proof (induction seen)
  case (Cons p seen)
  obtain m i where p: "p = (m, i)" by (cases p)
  have ne: "m \<noteq> n" "map_of seen n = None" using Cons.prems(1) by (auto simp: p split: if_splits)
  show ?case
  proof (cases s)
    case (StOath f)
    then obtain x where n: "n = NmOath x" using assms(1) name_for_oath by blast
    have "\<not> prefix_refused f x (List.map_filter oath_text (ex_names ex @ m # map fst seen))"
      using Cons.prems(2) by (simp add: StOath n p)
    then have r: "\<not> prefix_refused f x (List.map_filter oath_text [m])"
      "\<not> prefix_refused f x (List.map_filter oath_text (ex_names ex @ map fst seen))"
      by (auto simp: prefix_refused_def List.map_filter_def split: if_splits)
    have "may_follow s m n" using ne(1) r(1) by (cases m) (auto simp: StOath n List.map_filter_def)
    moreover have "list_all (\<lambda>(m, _). may_follow s m n) seen"
      using Cons.IH ne(2) r(2) by (simp add: StOath n)
    ultimately show ?thesis by (simp add: p)
  next
    case StToken2Otp
    then obtain a b where "n = NmToken2 a b" using assms(1) by (auto split: option.splits if_splits prod.splits)
    with StToken2Otp have "may_follow s m n" using ne(1) by (cases m) simp_all
    with StToken2Otp Cons.IH ne(2) show ?thesis by (simp add: p)
  qed (use assms(1) in simp)
qed simp

lemma may_follow_ne: "may_follow s m n \<Longrightarrow> m \<noteq> n"
  by (induction s m n rule: may_follow.induct) auto

definition verdict_writes :: "verdict \<Rightarrow> bool" where "verdict_writes v \<longleftrightarrow> v = VAdd \<or> v = VReplace"

text \<open>One item: the decision exists, its row fits the item, its name may be written where it stands,
  and what may be written afterwards may follow it.\<close>

definition step_ok :: "target \<Rightarrow> import_item \<Rightarrow> plan_state \<Rightarrow> stored_name option \<times> verdict \<Rightarrow> plan_state \<Rightarrow> bool" where
  "step_ok t item st d st' \<longleftrightarrow>
     row_fits t item \<lparr>pr_index = it_index item, pr_label = it_label item, pr_name = fst d, pr_verdict = snd d, pr_touch = False\<rparr>
     \<and> (\<forall>m. after t st' m \<longrightarrow> after t st m)
     \<and> (verdict_writes (snd d) \<longrightarrow>
          (\<exists>n. fst d = Some n \<and> after t st n \<and> (\<forall>m. after t st' m \<longrightarrow> may_follow (tg_store t) n m)))"

lemma step_skip: "\<not> verdict_writes v \<Longrightarrow> step_ok t item st (nm, v) st"
  by (auto simp: step_ok_def row_fits_def row_writes_def verdict_writes_def)

lemma decide_molto_ok:
  assumes "tg_store t = StMolto2" "it_entry item = Ok e" "check_params e StMolto2 (limits StMolto2) = Ok ()"
  shows "step_ok t item st (fst (decide_molto t e st)) (snd (decide_molto t e st))"
proof -
  let ?title = "molto_title (ie_issuer e) (ie_account e)" and ?slot = "word_of_nat (st_next_slot st) :: byte"
  consider "?title = [] \<or> 99 < st_next_slot st" | "?title \<noteq> []" "st_next_slot st \<le> 99" by linarith
  then show ?thesis
  proof cases
    case 1
    then show ?thesis by (auto simp: decide_molto_def Let_def MOLTO_LAST_SLOT_def step_skip verdict_writes_def)
  next
    case 2
    then have u: "unat ?slot = st_next_slot st" by (simp add: unat_of_nat)
    show ?thesis using 2 assms
      by (auto simp: decide_molto_def Let_def MOLTO_LAST_SLOT_def step_ok_def row_fits_def row_writes_def
            verdict_writes_def name_made_def name_taken_def after_def u word_less_nat_alt split: stored_name.splits)
  qed
qed

lemma decide_named_ok:
  assumes "tg_store t \<noteq> StMolto2" "it_entry item = Ok e" "check_params e (tg_store t) (limits (tg_store t)) = Ok ()"
    and "name_for e (tg_store t) (limits (tg_store t)) = Some (Ok n)"
  shows "step_ok t item st (Some n, fst (decide_named t i n st)) (snd (decide_named t i n st))"
proof -
  have slot: "\<And>s x. n \<noteq> NmMolto2 s x"
    using assms(1,4) by (cases "tg_store t") (auto simp: Let_def split: option.splits if_splits prod.splits)
  show ?thesis
  proof (cases "map_of (st_seen st) n")
    case (Some f)
    then show ?thesis by (auto simp: decide_named_def step_skip verdict_writes_def)
  next
    case None
    have add: "\<And>m. after t (st\<lparr>st_seen := st_seen st @ [(n, i)]\<rparr>) m \<Longrightarrow> after t st m \<and> may_follow (tg_store t) n m"
      using assms(1) by (simp add: after_def)
    let ?on = "n \<in> set (ex_names (tg_existing t))"
    consider "?on" "\<not> tg_replace t" | "\<not> (?on \<and> \<not> tg_replace t)" "starts_another_name (tg_store t) n (tg_existing t) (st_seen st)"
      | "\<not> (?on \<and> \<not> tg_replace t)" "\<not> starts_another_name (tg_store t) n (tg_existing t) (st_seen st)" by blast
    then show ?thesis
    proof cases
      case 1
      with None add show ?thesis
        by (auto simp: decide_named_def Let_def step_ok_def row_fits_def row_writes_def verdict_writes_def)
    next
      case 2
      with None show ?thesis by (auto simp: decide_named_def Let_def step_skip verdict_writes_def)
    next
      case 3
      have fits: "row_fits t item \<lparr>pr_index = it_index item, pr_label = it_label item, pr_name = Some n,
          pr_verdict = (if ?on then VReplace else VAdd), pr_touch = False\<rparr>"
        using 3(1) starts_another_seen [OF 3(2)] assms slot by (auto simp: row_fits_def row_writes_def name_made_def name_taken_def split: stored_name.splits)
      have aft: "after t st n" using follow_seen [OF assms(4) None 3(2)] assms(1) by (simp add: after_def)
      have d: "decide_named t i n st = (if ?on then VReplace else VAdd, st\<lparr>st_seen := st_seen st @ [(n, i)]\<rparr>)"
        using 3 None by (auto simp: decide_named_def Let_def)
      show ?thesis using fits aft add by (simp add: d step_ok_def)
    qed
  qed
qed

lemma decide_ok: "\<exists>d st'. decide t item st = Some (d, st') \<and> step_ok t item st d st'"
proof (cases "it_entry item")
  case (Err u)
  then show ?thesis by (simp add: decide_def step_skip verdict_writes_def)
next
  case (Ok e)
  show ?thesis
  proof (cases "check_params e (tg_store t) (limits (tg_store t))")
    case (Err s)
    with Ok show ?thesis by (simp add: decide_def step_skip verdict_writes_def)
  next
    case c: (Ok u)
    show ?thesis
    proof (cases "tg_store t = StMolto2")
      case True
      with Ok c decide_molto_ok [of t item e st] show ?thesis by (cases "decide_molto t e st") (simp add: decide_def)
    next
      case False
      then obtain r where r: "name_for e (tg_store t) (limits (tg_store t)) = Some r" by (cases "tg_store t") auto
      show ?thesis
      proof (cases r)
        case (Err s)
        with Ok c r False show ?thesis by (simp add: decide_def step_skip verdict_writes_def)
      next
        case n: (Ok n)
        obtain v st' where d: "decide_named t (it_index item) n st = (v, st')" by fastforce
        with decide_named_ok [OF False Ok, of n st "it_index item"] c r n
        have "step_ok t item st (Some n, v) st'" by simp
        with Ok c r n False d show ?thesis by (simp add: decide_def)
      qed
    qed
  qed
qed

lemma plan_items_ok:
  "\<exists>rows. plan_items t items st = Some rows \<and> list_all2 (row_fits t) items rows
     \<and> list_all (after t st) (written_names rows) \<and> sorted_wrt (may_follow (tg_store t)) (written_names rows)"
proof (induction items arbitrary: st)
  case (Cons item items)
  obtain d st' where d: "decide t item st = Some (d, st')" "step_ok t item st d st'" using decide_ok by blast
  obtain rows where r: "plan_items t items st' = Some rows" "list_all2 (row_fits t) items rows"
    "list_all (after t st') (written_names rows)" "sorted_wrt (may_follow (tg_store t)) (written_names rows)"
    using Cons.IH by blast
  show ?case using d r
    by (cases d) (auto simp: step_ok_def list_all_iff row_writes_def verdict_writes_def split: option.splits)
qed simp

subsection \<open>Room\<close>

definition adds :: "plan_row list \<Rightarrow> nat" where "adds rows = length (filter (\<lambda>r. pr_verdict r = VAdd) rows)"

lemma count_adds: "ct_add (fold count_row rows c) = ct_add c + adds rows"
  by (induction rows arbitrary: c) (auto simp: adds_def split: verdict.splits)

lemma plan_counts_add: "ct_add (plan_counts p) = adds (pl_rows p)"
  by (simp add: plan_counts_def count_adds)

lemma fill_room_adds: "used + adds (fill_room cap used rows) \<le> max cap used"
proof (induction rows arbitrary: used)
  case (Cons r rows)
  show ?case using Cons.IH [of used] Cons.IH [of "used + 1"] by (auto simp: adds_def)
qed (simp add: adds_def)

lemma row_skip_fits: "row_fits t item r \<Longrightarrow> row_fits t item (r\<lparr>pr_verdict := VSkip k\<rparr>)"
  by (simp add: row_fits_def row_writes_def)

lemma fill_room_fits: "list_all2 (row_fits t) items rows \<Longrightarrow> list_all2 (row_fits t) items (fill_room cap used rows)"
proof (induction items rows arbitrary: used rule: list_all2_induct)
  case (Cons i items r rs)
  then show ?case by (simp add: row_skip_fits)
qed simp

lemma fill_room_names: "set (written_names (fill_room cap used rows)) \<subseteq> set (written_names rows)"
  by (induction rows arbitrary: used) (auto simp: row_writes_def split: option.splits)

lemma fill_room_sorted:
  "sorted_wrt f (written_names rows) \<Longrightarrow> sorted_wrt f (written_names (fill_room cap used rows))"
proof (induction rows arbitrary: used)
  case (Cons r rows)
  then show ?case using fill_room_names [of cap "used + 1" rows] fill_room_names [of cap used rows]
    by (auto simp: row_writes_def split: option.splits if_splits)
qed simp

lemma molto_room:
  "list_all (\<lambda>n. case n of NmMolto2 slot _ \<Rightarrow> lo \<le> unat slot \<and> unat slot \<le> 99 | _ \<Rightarrow> False) ns
   \<Longrightarrow> sorted_wrt (may_follow StMolto2) ns \<Longrightarrow> length ns \<le> 100 - lo"
proof (induction ns arbitrary: lo)
  case (Cons n ns)
  obtain s x where n: "n = NmMolto2 s x" "lo \<le> unat s" "unat s \<le> 99" using Cons.prems(1) by (cases n) auto
  have "list_all (\<lambda>n. case n of NmMolto2 slot _ \<Rightarrow> Suc (unat s) \<le> unat slot \<and> unat slot \<le> 99 | _ \<Rightarrow> False) ns"
    using Cons.prems by (auto simp: n(1) list_all_iff word_less_nat_alt Suc_le_eq split: stored_name.splits)
  from Cons.IH [OF this] Cons.prems(2) have "length ns \<le> 99 - unat s" by simp
  with n(2,3) show ?case by simp
qed simp

lemma plan_sound_all:
  "case plan_import file t of
     None \<Rightarrow> False
   | Some p \<Rightarrow>
       list_all2 (row_fits t) (if_items file) (pl_rows p)
       \<and> sorted_wrt (may_follow (tg_store t)) (written_names (pl_rows p))
       \<and> (case pl_capacity p of
            None \<Rightarrow> True
          | Some cap \<Rightarrow>
              if tg_store t = StMolto2
              then cap = 100 - unat (tg_first_slot t) \<and> length (written_names (pl_rows p)) \<le> cap
                \<and> list_all (\<lambda>n. case n of NmMolto2 slot _ \<Rightarrow> tg_first_slot t \<le> slot \<and> slot \<le> 99 | _ \<Rightarrow> False)
                    (written_names (pl_rows p))
              else pl_on_key p + ct_add (plan_counts p) \<le> max cap (pl_on_key p))"
proof -
  let ?st = "\<lparr>st_seen = [], st_next_slot = unat (tg_first_slot t)\<rparr>"
  obtain rows where r: "plan_items t (if_items file) ?st = Some rows" "list_all2 (row_fits t) (if_items file) rows"
    "list_all (after t ?st) (written_names rows)" "sorted_wrt (may_follow (tg_store t)) (written_names rows)"
    using plan_items_ok by blast
  have m: "tg_store t = StMolto2 \<Longrightarrow> length (written_names rows) \<le> 100 - unat (tg_first_slot t)"
    using molto_room [of "unat (tg_first_slot t)" "written_names rows"] r(3,4) by (simp add: after_def [abs_def])
  have slots: "tg_store t = StMolto2 \<Longrightarrow>
      list_all (\<lambda>n. case n of NmMolto2 slot _ \<Rightarrow> tg_first_slot t \<le> slot \<and> slot \<le> 99 | _ \<Rightarrow> False) (written_names rows)"
    using r(3) by (auto simp: after_def list_all_iff word_le_nat_alt split: stored_name.splits)
  show ?thesis
    using r(1,2,4) m slots fill_room_fits [OF r(2)] fill_room_sorted [OF r(4)] fill_room_adds
    by (auto simp: plan_import_def Let_def plan_counts_add MOLTO_LAST_SLOT_def split: option.splits)
qed

lemma plan_sound_rows:
  assumes "plan_import file t = Some p"
  shows "list_all2 (row_fits t) (if_items file) (pl_rows p)" "sorted_wrt (may_follow (tg_store t)) (written_names (pl_rows p))"
  using plan_sound_all [of t "file"] assms by simp_all

subsection \<open>Names read back\<close>

text \<open>What a reader should find in the name of an entry.\<close>

definition entry_parts :: "import_entry \<Rightarrow> name_parts" where
  "entry_parts e =
     \<lparr>np_period = (case ie_kind e of KindTotp p \<Rightarrow> if p = 30 then None else Some p | KindHotp _ \<Rightarrow> None),
      np_issuer = (if ie_account e = None then None else ie_issuer e),
      np_account = (case ie_account e of Some a \<Rightarrow> a | None \<Rightarrow> (case ie_issuer e of Some i \<Rightarrow> i | None \<Rightarrow> []))\<rparr>"

fun kind_oath_type :: "otp_kind \<Rightarrow> oath_type" where
  "kind_oath_type (KindTotp _) = Totp" | "kind_oath_type (KindHotp _) = Hotp"

definition well_formed :: "import_entry \<Rightarrow> bool" where
  "well_formed e \<longleftrightarrow> ie_issuer e \<noteq> Some [] \<and> ie_account e \<noteq> Some [] \<and> ie_kind e \<noteq> KindTotp 0"

lemma split_once_missing: "c \<notin> set xs \<Longrightarrow> split_once c xs = None"
  by (cases "split_once c xs") (auto simp: split_once_some)

lemma base_name_read:
  assumes "base_name e = Ok base" "well_formed e"
  shows "split_issuer base = (np_issuer (entry_parts e), np_account (entry_parts e)) \<and> base \<noteq> []"
proof (cases "ie_issuer e"; cases "ie_account e")
  fix i a assume "ie_issuer e = Some i" "ie_account e = Some a"
  then show ?thesis using assms split_issuer_canonical [of i a]
    by (auto simp: base_name_def entry_parts_def well_formed_def split: if_splits)
qed (use assms in \<open>auto simp: base_name_def single_name_def entry_parts_def well_formed_def split_issuer_def split_once_missing
      split: if_splits\<close>)

lemma no_period_prefix: "\<not> looks_like_period_prefix s \<Longrightarrow> split_period s = (None, s)"
  by (auto simp: looks_like_period_prefix_def split_period_def split: option.splits)

lemma oath_name_read:
  assumes "oath_name e family = Ok n" "well_formed e" "family \<noteq> Nitrokey3"
  shows "parse_name n (kind_oath_type (ie_kind e)) = entry_parts e"
proof -
  obtain base where b: "base_name e = Ok base" using assms(1) by (auto simp: oath_name_def Let_def)
  note r = base_name_read [OF b assms(2)]
  show ?thesis
  proof (cases "ie_kind e")
    case (KindHotp c)
    then show ?thesis using assms(1) b r by (auto simp: oath_name_def parse_name_def entry_parts_def)
  next
    case (KindTotp p)
    then have "p \<noteq> 0" using assms(2) by (simp add: well_formed_def)
    show ?thesis
    proof (cases "p = 30")
      case True
      then have "n = base" "\<not> looks_like_period_prefix base" using assms(1,3) b KindTotp
        by (auto simp: oath_name_def split: if_splits)
      with True KindTotp r no_period_prefix show ?thesis by (simp add: parse_name_def entry_parts_def)
    next
      case False
      then have "n = show_dec (unat p) @ 0x2f # base" using assms(1,3) b KindTotp by (auto simp: oath_name_def)
      with False KindTotp r split_period_canonical [OF \<open>p \<noteq> 0\<close>] show ?thesis
        by (simp add: parse_name_def entry_parts_def)
    qed
  qed
qed

subsection \<open>Properties\<close>

text \<open>C21: a plan.  It always exists; its rows are the file's items in order; a row that writes is of an entry
  whose parameters the store takes, under a name within the store's limits, and replaces exactly when that name
  (that slot) is on the key and replacing was asked for.  No two rows write one name, the slots of a Molto2 rise from
  the first one to at most \#99, no written name starts a name written before it on the YubiKey firmwares that cannot
  have that, and the codes added never pass the room the key has left.\<close>

theorem plan_sound:
  "case plan_import file t of
     None \<Rightarrow> False
   | Some p \<Rightarrow>
       list_all2 (row_fits t) (if_items file) (pl_rows p)
       \<and> sorted_wrt (may_follow (tg_store t)) (written_names (pl_rows p))
       \<and> (case pl_capacity p of
            None \<Rightarrow> True
          | Some cap \<Rightarrow>
              if tg_store t = StMolto2
              then cap = 100 - unat (tg_first_slot t) \<and> length (written_names (pl_rows p)) \<le> cap
                \<and> list_all (\<lambda>n. case n of NmMolto2 slot _ \<Rightarrow> tg_first_slot t \<le> slot \<and> slot \<le> 99 | _ \<Rightarrow> False)
                    (written_names (pl_rows p))
              else pl_on_key p + ct_add (plan_counts p) \<le> max cap (pl_on_key p))"
  by (rule plan_sound_all)

text \<open>C25: names.  The name an entry gets in an OATH applet, on every family but the Nitrokey 3 (which keeps
  no period), is read back as the entry's own period, issuer and account: neither an issuer with a colon nor an account that
  begins like a period can be taken for something else.\<close>

theorem oath_name_roundtrip:
  assumes "oath_name e family = Ok n" "well_formed e" "family \<noteq> Nitrokey3"
  shows "parse_name n (kind_oath_type (ie_kind e)) = entry_parts e"
  by (rule oath_name_read [OF assms])

text \<open>On a Nitrokey 3 the name of a 30-second code may begin like a period: the reader of names, which asks no
  family, then finds a period the entry never had.\<close>

lemma sixty_text: "show_dec 60 = ascii ''60''"
  by code_simp

lemma nitrokey_name_misread:
  "oath_name \<lparr>ie_issuer = None, ie_account = Some (ascii ''60/ada''), ie_secret = [1], ie_hash = HashSha1, ie_digits = 6,
     ie_kind = KindTotp 30\<rparr> Nitrokey3 = Ok (ascii ''60/ada'')
   \<and> totp_period (ascii ''60/ada'') = 60"
proof
  show "oath_name \<lparr>ie_issuer = None, ie_account = Some (ascii ''60/ada''), ie_secret = [1], ie_hash = HashSha1,
     ie_digits = 6, ie_kind = KindTotp 30\<rparr> Nitrokey3 = Ok (ascii ''60/ada'')"
    by (simp add: oath_name_def base_name_def single_name_def ascii_def)
  have "split_period (show_dec (unat (60 :: u32)) @ 0x2F # ascii ''ada'') = (Some 60, ascii ''ada'')"
    by (rule split_period_canonical) (simp_all add: ascii_def)
  then have "split_period (ascii ''60/ada'') = (Some 60, ascii ''ada'')"
    by (simp add: sixty_text ascii_def)
  then show "totp_period (ascii ''60/ada'') = 60"
    by (simp add: totp_period_def parse_name_def split: prod.splits)
qed

lemma oath_name_roundtrip_witness:
  "parse_name (ascii ''60/Ada:x'') Totp = \<lparr>np_period = Some 60, np_issuer = Some (ascii ''Ada''), np_account = ascii ''x''\<rparr>"
proof -
  let ?e = "\<lparr>ie_issuer = Some (ascii ''Ada''), ie_account = Some (ascii ''x''), ie_secret = [1], ie_hash = HashSha1,
    ie_digits = 6, ie_kind = KindTotp 60\<rparr>"
  have "oath_name ?e Solo2 = Ok (ascii ''60/Ada:x'')"
    by (simp add: oath_name_def base_name_def ascii_def sixty_text)
  moreover have "well_formed ?e" by (simp add: well_formed_def ascii_def)
  ultimately show ?thesis using oath_name_roundtrip [of ?e Solo2 "ascii ''60/Ada:x''"] by (simp add: entry_parts_def)
qed

end
