(* ===== verification/Import_Run.thy ===== *)
theory Import_Run
  imports Import_Plan
begin

text \<open>
  \<^verbatim>\<open>crates/keyroost-import/src/run.rs\<close>: the write loop.  The key is behind the trait
  \<^verbatim>\<open>CodeStore\<close>: a \<open>code_store\<close> of functions on a state of its own, a parameter of
  everything here.  Texts that name the key's answer are kept; those that only explain an outcome to a person
  are left out.
\<close>

datatype store_error = SeExists | SeFull | SeFailed bytes

definition store_error_text :: "store_error \<Rightarrow> bytes" where
  "store_error_text e =
     (case e of
        SeExists \<Rightarrow> ascii ''the key says this name is already on it''
      | SeFull \<Rightarrow> ascii ''the key is full''
      | SeFailed m \<Rightarrow> m)"

record 's code_store =
  cs_add :: "stored_name \<Rightarrow> import_entry \<Rightarrow> bool \<Rightarrow> 's \<Rightarrow> (unit, store_error) result \<times> 's"
  cs_delete :: "stored_name \<Rightarrow> 's \<Rightarrow> (unit, store_error) result \<times> 's"

datatype outcome =
    Added
  | Replaced
  | AlreadyThere
  | RemovedNotAdded bytes
  | RunFailed bytes
  | NoRoomLeft
  | NotTried

definition went_through :: "outcome \<Rightarrow> bool" where
  "went_through out \<longleftrightarrow> out = Added \<or> out = Replaced \<or> out = AlreadyThere"

record report =
  rp_rows :: "(nat \<times> bytes \<times> outcome) list"
  rp_stopped :: "bytes option"

definition report_count :: "report \<Rightarrow> (outcome \<Rightarrow> bool) \<Rightarrow> nat" where
  "report_count r f = length (filter (\<lambda>(_, _, out). f out) (rp_rows r))"

definition report_ok :: "report \<Rightarrow> bool" where
  "report_ok r \<longleftrightarrow> list_all (\<lambda>(_, _, out). went_through out) (rp_rows r)"

text \<open>The numbers of the line shown after a run: added, replaced, left as is, skipped, not added.\<close>

definition summary_counts :: "report \<Rightarrow> plan \<Rightarrow> nat \<times> nat \<times> nat \<times> nat \<times> nat" where
  "summary_counts r p =
     (let added = report_count r (\<lambda>out. out = Added);
          replaced = report_count r (\<lambda>out. out = Replaced);
          there = report_count r (\<lambda>out. out = AlreadyThere);
          c = plan_counts p
      in (added, replaced, ct_exists c + there, ct_skip c, length (rp_rows r) - added - replaced - there))"

text \<open>\<^verbatim>\<open>Display\<close> of a stored name, and the label of a row\<close>

fun name_text :: "stored_name \<Rightarrow> bytes" where
  "name_text (NmOath n) = n"
| "name_text (NmToken2 app account) = (if app = [] then account else app @ 0x3a # account)"
| "name_text (NmMolto2 slot title) =
     0x23 # show_dec (unat slot) @ (if title = [] then [] else 0x20 # title)"

definition shown_label :: "plan_row \<Rightarrow> bytes" where
  "shown_label r =
     (case pr_name r of
        Some (NmMolto2 slot _) \<Rightarrow> 0x23 # show_padded 2 (unat slot) @ 0x20 # pr_label r
      | _ \<Rightarrow> pr_label r)"

definition is_named :: "plan_row \<Rightarrow> bytes \<Rightarrow> bool" where
  "is_named r name \<longleftrightarrow> pr_label r = name \<or> (case pr_name r of Some n \<Rightarrow> name_text n = name | None \<Rightarrow> False)"

record run_stop =
  rs_reason :: bytes
  rs_rest :: outcome

definition removed_not_added :: "stored_name \<Rightarrow> store_error \<Rightarrow> bytes" where
  "removed_not_added name why =
     ascii ''the old code '' @ name_text name
     @ ascii '' was removed from the key, but the new one could not be added ('' @ store_error_text why @ ascii '')''"

definition run_fail :: "bytes \<Rightarrow> outcome \<times> run_stop option" where
  "run_fail m = (RunFailed m, Some \<lparr>rs_reason = m, rs_rest = NotTried\<rparr>)"

definition run_full :: "outcome \<times> run_stop option" where
  "run_full = (NoRoomLeft, Some \<lparr>rs_reason = store_error_text SeFull, rs_rest = NoRoomLeft\<rparr>)"

definition find_entry :: "import_file \<Rightarrow> nat \<Rightarrow> import_entry option" where
  "find_entry f i =
     (case List.find (\<lambda>it. it_index it = i) (if_items f) of
        Some it \<Rightarrow> (case it_entry it of Ok e \<Rightarrow> Some e | Err _ \<Rightarrow> None)
      | None \<Rightarrow> None)"

definition write_one :: "import_file \<Rightarrow> plan \<Rightarrow> 's code_store \<Rightarrow> plan_row \<Rightarrow> 's
    \<Rightarrow> (outcome \<times> run_stop option) \<times> 's" where
  "write_one f p store row s =
     (case pr_name row of
        None \<Rightarrow> (run_fail (ascii ''this entry has no name to store it under''), s)
      | Some name \<Rightarrow>
     (case find_entry f (pr_index row) of
        None \<Rightarrow> (run_fail (ascii ''this entry is no longer in the file''), s)
      | Some e \<Rightarrow>
          let replacing = (pr_verdict row = VReplace) in
          (case cs_add store name e (pr_touch row) s of
             (Ok _, s) \<Rightarrow> ((if replacing then Replaced else Added, None), s)
           | (Err SeFull, s) \<Rightarrow> (run_full, s)
           | (Err (SeFailed m), s) \<Rightarrow> (run_fail m, s)
           | (Err SeExists, s) \<Rightarrow>
               if \<not> (pl_store p \<noteq> StMolto2 \<and> (replacing \<or> pl_replace p)) then ((AlreadyThere, None), s)
               else
                 (case cs_delete store name s of
                    (Err x, s) \<Rightarrow> (run_fail (store_error_text x), s)
                  | (Ok _, s) \<Rightarrow>
                      (case cs_add store name e (pr_touch row) s of
                         (Ok _, s) \<Rightarrow> ((Replaced, None), s)
                       | (Err x, s) \<Rightarrow>
                           ((RemovedNotAdded (store_error_text x),
                             Some \<lparr>rs_reason = removed_not_added name x, rs_rest = NotTried\<rparr>), s))))))"

text \<open>The loop; what the progress callback was told comes last.\<close>

fun run_rows :: "import_file \<Rightarrow> plan \<Rightarrow> 's code_store \<Rightarrow> nat \<Rightarrow> nat \<Rightarrow> plan_row list \<Rightarrow> run_stop option \<Rightarrow> 's
    \<Rightarrow> ((nat \<times> bytes \<times> outcome) list \<times> run_stop option) \<times> 's \<times> (nat \<times> nat \<times> plan_row) list" where
  "run_rows f p store n done_rows [] stop s = (([], stop), s, [])"
| "run_rows f p store n done_rows (row # rows) (Some stop) s =
     (let ((out, stop'), s', told) = run_rows f p store n (done_rows + 1) rows (Some stop) s
      in (((pr_index row, shown_label row, rs_rest stop) # out, stop'), s', told))"
| "run_rows f p store n done_rows (row # rows) None s =
     (let ((outcome, stop), s) = write_one f p store row s;
          ((out, stop'), s', told) = run_rows f p store n (done_rows + 1) rows stop s
      in (((pr_index row, shown_label row, outcome) # out, stop'), s', (done_rows, n, row) # told))"

definition run_import :: "import_file \<Rightarrow> plan \<Rightarrow> 's code_store \<Rightarrow> 's \<Rightarrow> report \<times> 's \<times> (nat \<times> nat \<times> plan_row) list" where
  "run_import f p store s =
     (let ((rows, stop), s', told) = run_rows f p store (length (plan_writes p)) 0 (plan_writes p) None s
      in (\<lparr>rp_rows = rows, rp_stopped = map_option rs_reason stop\<rparr>, s', told))"

subsection \<open>The report\<close>

text \<open>A run's outcomes: codes that went through, then at most one row that stopped it, then rows never
  tried (or without room, when the key was full).\<close>

definition stopping :: "outcome \<Rightarrow> outcome \<Rightarrow> bool" where
  "stopping out rest \<longleftrightarrow>
     (case out of NoRoomLeft \<Rightarrow> rest = NoRoomLeft | RunFailed _ \<Rightarrow> rest = NotTried | RemovedNotAdded _ \<Rightarrow> rest = NotTried
      | _ \<Rightarrow> False)"

fun outcomes_ok :: "outcome list \<Rightarrow> bool" where
  "outcomes_ok [] = True"
| "outcomes_ok (out # outs) =
     (if went_through out then outcomes_ok outs
      else list_all (\<lambda>r. stopping out r) outs \<and> stopping out (if out = NoRoomLeft then NoRoomLeft else NotTried))"

lemma write_one_stop:
  "write_one f p store row s = ((out, stop), s') \<Longrightarrow>
     (case stop of None \<Rightarrow> went_through out | Some st \<Rightarrow> stopping out (rs_rest st) \<and> \<not> went_through out)"
  by (auto simp: write_one_def run_fail_def run_full_def stopping_def went_through_def Let_def
      split: option.splits result.splits store_error.splits prod.splits if_splits)

lemma run_rows_stopped:
  "run_rows f p store n k rows (Some stop) s
   = ((map (\<lambda>r. (pr_index r, shown_label r, rs_rest stop)) rows, Some stop), s, [])"
  by (induction rows arbitrary: k) simp_all

lemma run_rows_report:
  "run_rows f p store n k rows None s = ((out, stop), s', told) \<Longrightarrow>
     map (\<lambda>(i, l, _). (i, l)) out = map (\<lambda>r. (pr_index r, shown_label r)) rows
     \<and> outcomes_ok (map (\<lambda>(_, _, x). x) out)
     \<and> (stop = None \<longleftrightarrow> list_all (\<lambda>(_, _, x). went_through x) out)"
proof (induction rows arbitrary: k s out told)
  case (Cons row rows)
  obtain x stop1 s1 where w: "write_one f p store row s = ((x, stop1), s1)" by (metis prod.collapse)
  show ?case
  proof (cases stop1)
    case None
    obtain out2 stop2 s2 told2 where r: "run_rows f p store n (k + 1) rows None s1 = ((out2, stop2), s2, told2)"
      by (metis prod.collapse)
    with Cons.prems w None have e: "out = (pr_index row, shown_label row, x) # out2" "stop = stop2" "s' = s2" by simp_all
    from Cons.IH [of "k + 1" s1 out2 told2] r e
    have "map (\<lambda>(i, l, _). (i, l)) out2 = map (\<lambda>r. (pr_index r, shown_label r)) rows
     \<and> outcomes_ok (map (\<lambda>(_, _, x). x) out2) \<and> (stop2 = None \<longleftrightarrow> list_all (\<lambda>(_, _, x). went_through x) out2)" by simp
    with e write_one_stop [OF w] None show ?thesis by simp
  next
    case (Some st)
    with Cons.prems w have e: "out = (pr_index row, shown_label row, x) # map (\<lambda>r. (pr_index r, shown_label r, rs_rest st)) rows"
      "stop = Some st" by (simp_all add: run_rows_stopped)
    from write_one_stop [OF w] Some have x: "stopping x (rs_rest st)" "\<not> went_through x" by simp_all
    then have "stopping x (if x = NoRoomLeft then NoRoomLeft else NotTried)" by (auto simp: stopping_def split: outcome.splits)
    with x e show ?thesis by (auto simp: list_all_iff)
  qed
qed simp

subsection \<open>What is deleted\<close>

text \<open>The store with the calls made on it and their answers\<close>

datatype store_call = CallAdd stored_name "(unit, store_error) result" | CallDelete stored_name "(unit, store_error) result"

definition logged :: "'s code_store \<Rightarrow> ('s \<times> store_call list) code_store" where
  "logged store =
     \<lparr>cs_add = (\<lambda>n e t (s, calls). let (r, s') = cs_add store n e t s in (r, (s', calls @ [CallAdd n r]))),
      cs_delete = (\<lambda>n (s, calls). let (r, s') = cs_delete store n s in (r, (s', calls @ [CallDelete n r])))\<rparr>"

text \<open>A delete only ever answers a refused add of the same name, is one the plan asked for, and when it
  removed something the add is tried again at once.\<close>

fun guarded :: "plan \<Rightarrow> store_call list \<Rightarrow> bool" where
  "guarded p [] = True"
| "guarded p (CallDelete n a # cs) = False"
| "guarded p (CallAdd n a # CallDelete m b # cs) =
     (a = Err SeExists \<and> m = n \<and> pl_store p \<noteq> StMolto2
      \<and> (pl_replace p \<or> list_ex (\<lambda>r. pr_name r = Some n \<and> pr_verdict r = VReplace) (pl_rows p))
      \<and> (case cs of CallAdd k _ # _ \<Rightarrow> k = n \<and> b = Ok () | _ \<Rightarrow> b \<noteq> Ok ())
      \<and> guarded p cs)"
| "guarded p (CallAdd n a # cs) = guarded p cs"

definition replace_asked :: "plan \<Rightarrow> stored_name \<Rightarrow> bool" where
  "replace_asked p n \<longleftrightarrow> pl_store p \<noteq> StMolto2
     \<and> (pl_replace p \<or> list_ex (\<lambda>r. pr_name r = Some n \<and> pr_verdict r = VReplace) (pl_rows p))"

lemma guarded_row:
  assumes "guarded p rest"
  shows "guarded p (CallAdd n a # rest)"
    and "replace_asked p n \<Longrightarrow> guarded p (CallAdd n (Err SeExists) # CallDelete n (Ok ()) # CallAdd n a # rest)"
    and "replace_asked p n \<Longrightarrow> guarded p [CallAdd n (Err SeExists), CallDelete n (Err e)]"
proof -
  show g: "guarded p (CallAdd n a # rest)" for a
    using assms by (cases rest) (auto elim: guarded.elims split: store_call.splits)
  show "replace_asked p n \<Longrightarrow> guarded p (CallAdd n (Err SeExists) # CallDelete n (Ok ()) # CallAdd n a # rest)"
    using g by (simp add: replace_asked_def)
qed (simp add: replace_asked_def)

lemma write_one_calls:
  assumes "write_one f p (logged store) row (s, calls) = ((out, stop), (s', calls'))" "row \<in> set (pl_rows p)"
  obtains "calls' = calls"
  | n a where "calls' = calls @ [CallAdd n a]"
  | n a where "calls' = calls @ [CallAdd n (Err SeExists), CallDelete n (Ok ()), CallAdd n a]" "replace_asked p n"
  | n e where "calls' = calls @ [CallAdd n (Err SeExists), CallDelete n (Err e)]" "replace_asked p n" "stop \<noteq> None"
proof (cases "pr_name row")
  case None
  with assms that(1) show thesis by (simp add: write_one_def)
next
  case name: (Some n)
  show thesis
  proof (cases "find_entry f (pr_index row)")
    case None
    with assms that(1) name show thesis by (simp add: write_one_def)
  next
    case e: (Some e)
    obtain r1 s1 where a: "cs_add store n e (pr_touch row) s = (r1, s1)" by fastforce
    let ?may = "pl_store p \<noteq> StMolto2 \<and> (pr_verdict row = VReplace \<or> pl_replace p)"
    show thesis
    proof (cases "r1 = Err SeExists \<and> ?may")
      case False
      then have "calls' = calls @ [CallAdd n r1]" using assms(1) name e a
        by (auto simp: write_one_def logged_def Let_def split: result.splits store_error.splits if_splits)
      then show thesis by (rule that(2))
    next
      case True
      then have ask: "replace_asked p n" using assms(2) name by (auto simp: replace_asked_def list_ex_iff)
      obtain r2 s2 where d: "cs_delete store n s1 = (r2, s2)" by fastforce
      show thesis
      proof (cases r2)
        case (Err x)
        with assms(1) name e a d True have "calls' = calls @ [CallAdd n (Err SeExists), CallDelete n (Err x)]" "stop \<noteq> None"
          by (auto simp: write_one_def logged_def Let_def run_fail_def)
        with ask that(4) show thesis by blast
      next
        case (Ok u)
        obtain r3 s3 where "cs_add store n e (pr_touch row) s2 = (r3, s3)" by fastforce
        with assms(1) name e a d True Ok have
          "calls' = calls @ [CallAdd n (Err SeExists), CallDelete n (Ok ()), CallAdd n r3]"
          by (auto simp: write_one_def logged_def Let_def split: result.splits)
        with ask that(3) show thesis by blast
      qed
    qed
  qed
qed

lemma run_rows_guarded:
  assumes "run_rows f p (logged store) m k rows None (s, calls) = (r, (s', calls'), told)" "set rows \<subseteq> set (pl_rows p)"
  shows "\<exists>cs. calls' = calls @ cs \<and> guarded p cs"
  using assms
proof (induction rows arbitrary: k s calls r told)
  case (Cons row rows)
  obtain x stop s1 c1 where w: "write_one f p (logged store) row (s, calls) = ((x, stop), (s1, c1))" by (metis prod.collapse)
  have later: "\<exists>cs. calls' = c1 @ cs \<and> guarded p cs \<and> (stop \<noteq> None \<longrightarrow> cs = [])"
  proof (cases stop)
    case None
    obtain r2 s2 told2 where r: "run_rows f p (logged store) m (k + 1) rows None (s1, c1) = (r2, s2, told2)"
      by (metis prod.collapse)
    with Cons.prems w None have "s2 = (s', calls')" by (auto split: prod.splits)
    with Cons.IH [of "k + 1" s1 c1 r2 told2] r Cons.prems(2) None show ?thesis by simp
  next
    case (Some st)
    with Cons.prems w show ?thesis by (simp add: run_rows_stopped)
  qed
  then obtain cs where cs: "calls' = c1 @ cs" "guarded p cs" "stop \<noteq> None \<Longrightarrow> cs = []" by blast
  have "row \<in> set (pl_rows p)" using Cons.prems(2) by simp
  from w this show ?case
  proof (cases rule: write_one_calls)
    case 1
    with cs show ?thesis by blast
  next
    case (2 n a)
    with cs guarded_row(1) [OF cs(2), of n a] show ?thesis by simp
  next
    case (3 n a)
    with cs guarded_row(2) [OF cs(2), of n a] show ?thesis by simp
  next
    case (4 n e)
    with cs guarded_row(3) [OF cs(2), of n e] show ?thesis by simp
  qed
qed simp

subsection \<open>What the key holds afterwards\<close>

text \<open>Where a name's code is kept: a Molto2 slot has one whatever its title.\<close>

definition place :: "stored_name \<Rightarrow> stored_name" where
  "place n = (case n of NmMolto2 slot _ \<Rightarrow> NmMolto2 slot [] | _ \<Rightarrow> n)"

text \<open>A view of the key, and what a store does to it: a stored code is at its place, a removed one is gone,
  a key that refuses a name it has or is full changes nothing, and any other failure touches that place alone.\<close>

type_synonym 's key_view = "'s \<Rightarrow> stored_name \<Rightarrow> (stored_name \<times> import_entry \<times> bool) option"

definition key_laws :: "'s code_store \<Rightarrow> 's key_view \<Rightarrow> bool" where
  "key_laws store view \<longleftrightarrow>
     (\<forall>n e t s. case cs_add store n e t s of
        (Ok _, s') \<Rightarrow> view s' = (view s)(place n \<mapsto> (n, e, t))
      | (Err (SeFailed _), s') \<Rightarrow> (\<forall>m. m \<noteq> place n \<longrightarrow> view s' m = view s m)
      | (Err _, s') \<Rightarrow> view s' = view s)
     \<and> (\<forall>n s. case cs_delete store n s of
        (Ok _, s') \<Rightarrow> view s' = (view s)(place n := None)
      | (Err _, s') \<Rightarrow> (\<forall>m. m \<noteq> place n \<longrightarrow> view s' m = view s m))"

definition row_place :: "plan_row \<Rightarrow> stored_name option" where "row_place r = map_option place (pr_name r)"

definition row_effect :: "import_file \<Rightarrow> (stored_name \<Rightarrow> (stored_name \<times> import_entry \<times> bool) option)
    \<Rightarrow> (stored_name \<Rightarrow> (stored_name \<times> import_entry \<times> bool) option) \<Rightarrow> plan_row \<Rightarrow> outcome \<Rightarrow> bool" where
  "row_effect f before after_run r out \<longleftrightarrow>
     (case (out, pr_name r) of
        (RunFailed _, _) \<Rightarrow> True
      | (RemovedNotAdded _, _) \<Rightarrow> True
      | (_, None) \<Rightarrow> out = NoRoomLeft \<or> out = NotTried
      | (Added, Some n) \<Rightarrow> after_run (place n) = map_option (\<lambda>e. (n, e, pr_touch r)) (find_entry f (pr_index r)) \<and> after_run (place n) \<noteq> None
      | (Replaced, Some n) \<Rightarrow> after_run (place n) = map_option (\<lambda>e. (n, e, pr_touch r)) (find_entry f (pr_index r)) \<and> after_run (place n) \<noteq> None
      | (_, Some n) \<Rightarrow> after_run (place n) = before (place n))"

lemma key_add: "key_laws store view \<Longrightarrow> cs_add store n e t s = (r, s') \<Longrightarrow>
    (r = Ok () \<longrightarrow> view s' = (view s)(place n \<mapsto> (n, e, t)))
    \<and> (r = Err SeExists \<or> r = Err SeFull \<longrightarrow> view s' = view s)
    \<and> (\<forall>m. m \<noteq> place n \<longrightarrow> view s' m = view s m)"
  unfolding key_laws_def
  by (elim conjE allE [where x = n] allE [where x = e] allE [where x = t] allE [where x = s])
    (auto split: result.splits store_error.splits)

lemma key_delete: "key_laws store view \<Longrightarrow> cs_delete store n s = (r, s') \<Longrightarrow> m \<noteq> place n \<Longrightarrow> view s' m = view s m"
  unfolding key_laws_def
  by (elim conjE allE [where x = n] allE [where x = s]) (auto split: result.splits)

lemma write_one_effect:
  assumes "key_laws store view" "write_one f p store row s = ((out, stop), s')"
  shows "row_effect f (view s) (view s') row out \<and> (\<forall>m. row_place row \<noteq> Some m \<longrightarrow> view s' m = view s m)"
proof (cases "pr_name row")
  case None
  with assms show ?thesis by (auto simp: write_one_def row_effect_def run_fail_def)
next
  case name: (Some n)
  show ?thesis
  proof (cases "find_entry f (pr_index row)")
    case None
    with assms name show ?thesis by (auto simp: write_one_def row_effect_def run_fail_def)
  next
    case e: (Some e)
    obtain r1 s1 where a: "cs_add store n e (pr_touch row) s = (r1, s1)" by fastforce
    note l1 = key_add [OF assms(1) a]
    let ?may = "pl_store p \<noteq> StMolto2 \<and> (pr_verdict row = VReplace \<or> pl_replace p)"
    show ?thesis
    proof (cases "r1 = Err SeExists \<and> ?may")
      case False
      then show ?thesis using assms(2) name e a l1
        by (auto simp: write_one_def Let_def run_fail_def run_full_def row_effect_def row_place_def
            split: result.splits store_error.splits if_splits)
    next
      case True
      obtain r2 s2 where d: "cs_delete store n s1 = (r2, s2)" by fastforce
      note l2 = key_delete [OF assms(1) d]
      show ?thesis
      proof (cases r2)
        case (Err x)
        with assms(2) name e a d True l1 l2 show ?thesis
          by (auto simp: write_one_def Let_def run_fail_def row_effect_def row_place_def)
      next
        case (Ok u)
        obtain r3 s3 where a3: "cs_add store n e (pr_touch row) s2 = (r3, s3)" by fastforce
        note l3 = key_add [OF assms(1) a3]
        have out: "s' = s3" "r3 = Ok () \<Longrightarrow> out = Replaced" "r3 \<noteq> Ok () \<Longrightarrow> \<exists>x. out = RemovedNotAdded x"
          using assms(2) name e a d a3 True Ok by (auto simp: write_one_def Let_def split: result.splits)
        have same: "\<forall>m. row_place row \<noteq> Some m \<longrightarrow> view s' m = view s m"
          using l1 l2 l3 name by (simp add: out(1) row_place_def)
        show ?thesis
        proof (cases "r3 = Ok ()")
          case True
          with l3 have "view s' (place n) = Some (n, e, pr_touch row)" by (simp add: out(1))
          with True same name e out(2) show ?thesis by (simp add: row_effect_def)
        next
          case False
          with out(3) same show ?thesis by (auto simp: row_effect_def)
        qed
      qed
    qed
  qed
qed

lemma row_effect_cong:
  assumes "\<And>m. row_place r = Some m \<Longrightarrow> before m = before' m \<and> after_run m = after_run' m"
  shows "row_effect f before after_run r out = row_effect f before' after_run' r out"
  using assms [of "place (the (pr_name r))"]
  by (cases "pr_name r") (simp_all add: row_effect_def row_place_def split: outcome.splits)

lemma run_rows_effect:
  assumes "key_laws store view" "run_rows f p store m k rows stop s = ((out, stop'), s', told)"
    and "distinct (map row_place rows)" "list_all (\<lambda>r. pr_name r \<noteq> None) rows"
    and "stop \<noteq> None \<Longrightarrow> rs_rest (the stop) = NotTried \<or> rs_rest (the stop) = NoRoomLeft"
  shows "list_all2 (row_effect f (view s) (view s')) rows (map (\<lambda>(_, _, x). x) out)
    \<and> (\<forall>m. Some m \<notin> set (map row_place rows) \<longrightarrow> view s' m = view s m)"
  using assms(2-)
proof (induction rows arbitrary: k stop s out told)
  case (Cons row rows)
  show ?case
  proof (cases stop)
    case (Some st)
    with Cons.prems show ?thesis
      by (auto simp: run_rows_stopped list_all2_map1 list_all2_map2 row_effect_def list.rel_refl_strong
          split: outcome.splits option.splits)
  next
    case None
    obtain x stop1 s1 where w: "write_one f p store row s = ((x, stop1), s1)" by (metis prod.collapse)
    obtain out2 stop2 s2 told2 where r: "run_rows f p store m (k + 1) rows stop1 s1 = ((out2, stop2), s2, told2)"
      by (metis prod.collapse)
    from Cons.prems(1) w r None have e: "out = (pr_index row, shown_label row, x) # out2" "s' = s2" "stop' = stop2" by simp_all
    have rest: "stop1 \<noteq> None \<Longrightarrow> rs_rest (the stop1) = NotTried \<or> rs_rest (the stop1) = NoRoomLeft"
      using write_one_stop [OF w] by (cases stop1) (auto simp: stopping_def split: outcome.splits)
    have ih: "list_all2 (row_effect f (view s1) (view s')) rows (map (\<lambda>(_, _, x). x) out2)"
      "\<And>m. Some m \<notin> set (map row_place rows) \<Longrightarrow> view s' m = view s1 m"
      using Cons.IH [OF _ _ _ rest, of "k + 1" s1 out2 told2] r e Cons.prems(2,3) by simp_all
    note one = write_one_effect [OF assms(1) w]
    have "row_place row \<notin> set (map row_place rows)" using Cons.prems(2) by simp
    then have "\<And>m. row_place row = Some m \<Longrightarrow> view s' m = view s1 m" using ih(2) by metis
    then have "row_effect f (view s) (view s') row x"
      using one row_effect_cong [of row "view s" "view s" "view s1" "view s'" f x] by simp
    moreover have "list_all2 (row_effect f (view s) (view s')) rows (map (\<lambda>(_, _, x). x) out2)"
    proof (rule list.rel_mono_strong [OF ih(1)])
      fix r y assume "r \<in> set rows" "row_effect f (view s1) (view s') r y"
      moreover have "row_place r \<noteq> row_place row" using Cons.prems(2) \<open>r \<in> set rows\<close> by (auto simp: image_iff)
      then have "\<And>m. row_place r = Some m \<Longrightarrow> view s1 m = view s m" using one by metis
      ultimately show "row_effect f (view s) (view s') r y"
        using row_effect_cong [of r "view s1" "view s" "view s'" "view s'" f y] by simp
    qed
    ultimately show ?thesis using e one ih(2) by auto
  qed
qed simp

subsection \<open>Planned, then run\<close>

lemma may_follow_place: "may_follow s m n \<Longrightarrow> place m \<noteq> place n"
  by (induction s m n rule: may_follow.induct) (auto simp: place_def split: stored_name.splits)

lemma writes_names:
  "list_all2 (row_fits t) items rows \<Longrightarrow> list_all (\<lambda>r. pr_name r \<noteq> None) (filter row_writes rows)
     \<and> map row_place (filter row_writes rows) = map (\<lambda>n. Some (place n)) (written_names rows)"
proof (induction items rows rule: list_all2_induct)
  case (Cons i items r rows)
  then show ?case by (cases "pr_name r") (auto simp: row_fits_def row_place_def split: result.splits)
qed simp

lemma sorted_places: "sorted_wrt (may_follow s) ns \<Longrightarrow> distinct (map (\<lambda>n. Some (place n)) ns)"
  by (induction ns) (auto dest: may_follow_place)

text \<open>The loop finds an entry by the index of its row: the row's own, where no two items share one.\<close>

definition row_finds_own :: "import_file \<Rightarrow> import_item \<Rightarrow> plan_row \<Rightarrow> bool" where
  "row_finds_own f item r \<longleftrightarrow> (row_writes r \<longrightarrow> (case it_entry item of Ok e \<Rightarrow> find_entry f (pr_index r) = Some e | Err _ \<Rightarrow> False))"

lemma find_distinct:
  "distinct (map it_index items) \<Longrightarrow> item \<in> set items \<Longrightarrow> List.find (\<lambda>it. it_index it = it_index item) items = Some item"
  by (induction items) (auto simp: image_iff)

lemma rows_find_own:
  assumes "list_all2 (row_fits t) (if_items f) rows" "distinct (map it_index (if_items f))"
  shows "list_all2 (row_finds_own f) (if_items f) rows"
proof (rule list.rel_mono_strong [OF assms(1)])
  fix item r assume "item \<in> set (if_items f)" "row_fits t item r"
  with find_distinct [OF assms(2)] show "row_finds_own f item r"
    by (auto simp: row_finds_own_def row_fits_def find_entry_def split: result.splits option.splits)
qed

text \<open>What setting the touch choice keeps of a plan\<close>

lemma touch_writes:
  "row_writes (r\<lparr>pr_touch := b\<rparr>) = row_writes r" "row_place (r\<lparr>pr_touch := b\<rparr>) = row_place r"
  by (simp_all add: row_writes_def row_place_def)

lemma set_touch_writes:
  "map row_place (plan_writes (set_touch wants p)) = map row_place (plan_writes p)"
  "list_all (\<lambda>r. pr_name r \<noteq> None) (plan_writes (set_touch wants p)) = list_all (\<lambda>r. pr_name r \<noteq> None) (plan_writes p)"
  by (induction "pl_rows p" arbitrary: p)
    (auto simp: plan_writes_def set_touch_def Let_def filter_map comp_def touch_writes list.pred_map)

subsection \<open>Properties\<close>

text \<open>C20: a run.  The report has one row for every row the plan writes, in order and under its label: codes that
  went through, then at most one that stopped the run, then rows never tried (without room, when the key was full); it
  says why the run stopped exactly when not every row went through.  On the key, a delete only ever follows a refused add of
  the same name, where the plan replaces it and never on a Molto2, and is followed at once by the second add.\<close>

theorem run_report_and_deletes:
  "case run_import f p (logged store) (s, []) of
     (rep, (s', calls), told) \<Rightarrow>
       map (\<lambda>(i, l, _). (i, l)) (rp_rows rep) = map (\<lambda>r. (pr_index r, shown_label r)) (plan_writes p)
       \<and> outcomes_ok (map (\<lambda>(_, _, out). out) (rp_rows rep))
       \<and> (rp_stopped rep = None \<longleftrightarrow> report_ok rep)
       \<and> guarded p calls"
proof -
  obtain out stop s' calls told where r:
    "run_rows f p (logged store) (length (plan_writes p)) 0 (plan_writes p) None (s, []) = ((out, stop), (s', calls), told)"
    by (metis prod.collapse)
  have "set (plan_writes p) \<subseteq> set (pl_rows p)" by (auto simp: plan_writes_def)
  with run_rows_guarded [OF r] have "guarded p calls" by simp
  with run_rows_report [OF r] show ?thesis by (simp add: run_import_def r report_ok_def)
qed


text \<open>A key that refuses a name it has, and a file of one code for it\<close>

definition refusing_store :: "(stored_name \<Rightarrow> (stored_name \<times> import_entry \<times> bool) option) code_store" where
  "refusing_store =
     \<lparr>cs_add = (\<lambda>n e t s. if s (place n) = None then (Ok (), s(place n \<mapsto> (n, e, t))) else (Err SeExists, s)),
      cs_delete = (\<lambda>n s. if s (place n) = None then (Err (SeFailed []), s) else (Ok (), s(place n := None)))\<rparr>"

definition demo_code :: import_entry where
  "demo_code = \<lparr>ie_issuer = None, ie_account = Some [0x61], ie_secret = [1, 2, 3], ie_hash = HashSha1, ie_digits = 6, ie_kind = KindTotp 30\<rparr>"

definition demo_codes :: import_file where
  "demo_codes = \<lparr>if_format = FOtpauthList, if_items = [\<lparr>it_index = 0, it_label = [0x61], it_entry = Ok demo_code\<rparr>], if_batch = None\<rparr>"

definition demo_target :: target where
  "demo_target = \<lparr>tg_store = StOath OtherOath, tg_first_slot = 0, tg_existing = \<lparr>ex_names = [NmOath [0x61]], ex_hidden = 0\<rparr>, tg_replace = True\<rparr>"

lemma refusing_laws: "key_laws refusing_store id"
  by (auto simp: key_laws_def refusing_store_def)

lemma demo_codes_plan:
  "map_option (map pr_verdict \<circ> pl_rows) (plan_import demo_codes demo_target) = Some [VReplace]"
  by (simp add: plan_import_def demo_codes_def demo_target_def demo_code_def decide_def check_params_def check_digits_def
      check_kind_def SHA1_256_512_def oath_name_def base_name_def single_name_def looks_like_period_prefix_def too_long_def
      oath_put_fits_def decide_named_def prefix_refused_def Let_def)


text \<open>Two codes with one index: both names get the seed of the first.\<close>

definition twin_codes :: import_file where
  "twin_codes = \<lparr>if_format = FOtpauthList,
     if_items = [\<lparr>it_index = 0, it_label = [0x61], it_entry = Ok demo_code\<rparr>,
                 \<lparr>it_index = 0, it_label = [0x62], it_entry = Ok (demo_code\<lparr>ie_account := Some [0x62], ie_secret := [9, 9, 9]\<rparr>)\<rparr>],
     if_batch = None\<rparr>"

definition fresh_target :: target where
  "fresh_target = \<lparr>tg_store = StOath OtherOath, tg_first_slot = 0, tg_existing = \<lparr>ex_names = [], ex_hidden = 0\<rparr>, tg_replace = False\<rparr>"

lemmas plan_eval = plan_import_def decide_def check_params_def check_digits_def check_kind_def SHA1_256_512_def oath_name_def
  base_name_def single_name_def looks_like_period_prefix_def too_long_def oath_put_fits_def decide_named_def prefix_refused_def
  Let_def

lemma twin_plan:
  "map_option (map (\<lambda>r. (pr_index r, pr_name r, pr_verdict r, pr_touch r)) \<circ> pl_rows) (plan_import twin_codes fresh_target)
   = Some [(0, Some (NmOath [0x61]), VAdd, False), (0, Some (NmOath [0x62]), VAdd, False)]"
  by (simp add: twin_codes_def fresh_target_def demo_code_def plan_eval)

lemma shared_index_first_seed:
  "map_option (\<lambda>q. fst (snd (run_import twin_codes q refusing_store Map.empty)) (NmOath [0x62])) (plan_import twin_codes fresh_target)
   = Some (Some (NmOath [0x62], demo_code, False))"
proof -
  obtain q a b where q: "plan_import twin_codes fresh_target = Some q" "pl_rows q = [a, b]"
    "pr_index a = 0" "pr_name a = Some (NmOath [0x61])" "pr_verdict a = VAdd" "pr_touch a = False"
    "pr_index b = 0" "pr_name b = Some (NmOath [0x62])" "pr_verdict b = VAdd" "pr_touch b = False"
    using twin_plan by auto
  have f: "find_entry twin_codes 0 = Some demo_code" by (simp add: find_entry_def twin_codes_def)
  show ?thesis
    by (simp add: q f run_import_def plan_writes_def row_writes_def write_one_def refusing_store_def place_def)
qed

end
