(* ===== verification/Import_Store.thy ===== *)
theory Import_Store
  imports Import_Run Otp_Applet
begin

text \<open>
  \<^verbatim>\<open>crates/keyroost-transport/src/import.rs\<close>: the stores behind the write loop, an OATH
  applet, a Token2 key and a Molto2.  What a key does with one command is a parameter: the records
  \<open>oath_io\<close>, \<open>token2_io\<close> and \<open>molto_io\<close> stand for the three traits of the file, as
  functions on the state of a session.
\<close>

text \<open>Upper-case hex of a status word, as \<^verbatim>\<open>{:04X}\<close> writes it\<close>

definition hex_digit :: "u16 \<Rightarrow> byte" where
  "hex_digit n = (if n < 10 then 0x30 + ucast n else 0x37 + ucast n)"

definition hex4 :: "u16 \<Rightarrow> bytes" where
  "hex4 sw = map (\<lambda>i. hex_digit (drop_bit i sw AND 0xF)) [12, 8, 4, 0]"

subsection \<open>OATH\<close>

datatype oath_answer = OaOk | OaExists | OaFull | OaNeedsAuth | OaOther u16

definition oath_delete_answer :: "u16 \<Rightarrow> oath_answer" where
  "oath_delete_answer sw =
     (if sw = 0x9000 then OaOk
      else if sw = 0x6A84 then OaFull
      else if sw = 0x6982 \<or> sw = 0x6985 then OaNeedsAuth
      else OaOther sw)"

definition oath_put_answer :: "u16 \<Rightarrow> oath_answer" where
  "oath_put_answer sw = (if sw = 0x6983 then OaExists else oath_delete_answer sw)"

text \<open>A transport error: the one case the adapter looks at, and the text of any other.\<close>

datatype transport_error = OathCredentialTooLong | OtherTransportError bytes

record 's oath_io =
  io_put :: "put_params \<Rightarrow> 's \<Rightarrow> (u16, transport_error) result \<times> 's"
  io_delete :: "bytes \<Rightarrow> 's \<Rightarrow> (u16, transport_error) result \<times> 's"
  io_reauth :: "'s \<Rightarrow> (bool, transport_error) result \<times> 's"

text \<open>\<^verbatim>\<open>OathSession::put_status\<close>: the command is built, or the credential is too long.\<close>

definition put_status :: "(bytes \<Rightarrow> 's \<Rightarrow> (u16, transport_error) result \<times> 's) \<Rightarrow> put_params \<Rightarrow> 's
    \<Rightarrow> (u16, transport_error) result \<times> 's" where
  "put_status transmit p s =
     (case put p of Err _ \<Rightarrow> (Err OathCredentialTooLong, s) | Ok request \<Rightarrow> transmit request s)"

fun oath_stored_name :: "stored_name \<Rightarrow> (bytes, store_error) result" where
  "oath_stored_name (NmOath n) = Ok n"
| "oath_stored_name _ = Err (SeFailed (ascii ''this entry has no OATH name to store it under''))"

fun oath_algorithm_of :: "hash_alg \<Rightarrow> algorithm" where
  "oath_algorithm_of HashSha1 = ASha1"
| "oath_algorithm_of HashSha256 = ASha256"
| "oath_algorithm_of HashSha512 = ASha512"

definition put_params_of :: "bytes \<Rightarrow> import_entry \<Rightarrow> bool \<Rightarrow> (put_params, store_error) result" where
  "put_params_of name e touch =
     bind_result
       (case ie_kind e of
          KindTotp _ \<Rightarrow> Ok (oath_type.Totp, 0)
        | KindHotp counter \<Rightarrow>
            if 0xffffffff < counter then Err (SeFailed (ascii ''the counter doesn't fit this key's 32 bits''))
            else Ok (oath_type.Hotp, ucast counter))
       (\<lambda>(oath_type, imf).
          Ok \<lparr>put_name = name, put_secret = ie_secret e, put_type = oath_type, put_algorithm = oath_algorithm_of (ie_hash e),
              put_digits = ie_digits e, put_touch = touch, put_imf = imf\<rparr>)"

definition oath_transport_failed :: "transport_error \<Rightarrow> store_error" where
  "oath_transport_failed e =
     (case e of
        OathCredentialTooLong \<Rightarrow> SeFailed (ascii ''name and seed are too long for one command'')
      | OtherTransportError text \<Rightarrow> SeFailed text)"

definition oath_final :: "oath_answer \<Rightarrow> (unit, store_error) result" where
  "oath_final a =
     (case a of
        OaOk \<Rightarrow> Ok ()
      | OaExists \<Rightarrow> Err SeExists
      | OaFull \<Rightarrow> Err SeFull
      | OaNeedsAuth \<Rightarrow> Err (SeFailed (ascii ''the key asked for its OATH password again and refused it''))
      | OaOther sw \<Rightarrow> Err (SeFailed (ascii ''the key refused it (status '' @ hex4 sw @ ascii '')'')))"

definition oath_with_reauth :: "'s oath_io \<Rightarrow> bytes \<Rightarrow> ('s \<Rightarrow> (u16, transport_error) result \<times> 's) \<Rightarrow> (u16 \<Rightarrow> oath_answer)
    \<Rightarrow> 's \<Rightarrow> (unit, store_error) result \<times> 's" where
  "oath_with_reauth io hint send answer s =
     (case send s of
        (Err e, s) \<Rightarrow> (Err (oath_transport_failed e), s)
      | (Ok sw, s) \<Rightarrow>
          if answer sw \<noteq> OaNeedsAuth then (oath_final (answer sw), s)
          else
            (case io_reauth io s of
               (Err e, s) \<Rightarrow> (Err (oath_transport_failed e), s)
             | (Ok False, s) \<Rightarrow>
                 (Err (SeFailed (ascii ''this key's authenticator storage is password-protected; '' @ hint)), s)
             | (Ok True, s) \<Rightarrow>
                 (case send s of
                    (Err e, s) \<Rightarrow> (Err (oath_transport_failed e), s)
                  | (Ok sw, s) \<Rightarrow> (oath_final (answer sw), s))))"

definition solo_refusal :: "bytes \<Rightarrow> bytes" where
  "solo_refusal name =
     ascii ''the name is '' @ show_dec (length name) @ ascii '' bytes; a Solo 2 stores names up to ''
     @ show_dec SOLO2_NAME_MAX @ ascii '' bytes (a longer one makes the key stop responding until it is unplugged)''"

definition oath_add :: "'s oath_io \<Rightarrow> oath_family \<Rightarrow> bytes \<Rightarrow> stored_name \<Rightarrow> import_entry \<Rightarrow> bool
    \<Rightarrow> 's \<Rightarrow> (unit, store_error) result \<times> 's" where
  "oath_add io family hint name e touch s =
     (case oath_stored_name name of
        Err x \<Rightarrow> (Err x, s)
      | Ok n \<Rightarrow>
          if name_refused family n then (Err (SeFailed (solo_refusal n)), s)
          else
            (case put_params_of n e touch of
               Err x \<Rightarrow> (Err x, s)
             | Ok params \<Rightarrow> oath_with_reauth io hint (io_put io params) oath_put_answer s))"

definition oath_delete :: "'s oath_io \<Rightarrow> bytes \<Rightarrow> stored_name \<Rightarrow> 's \<Rightarrow> (unit, store_error) result \<times> 's" where
  "oath_delete io hint name s =
     (case oath_stored_name name of
        Err x \<Rightarrow> (Err x, s)
      | Ok n \<Rightarrow> oath_with_reauth io hint (io_delete io n) oath_delete_answer s)"

text \<open>\<^verbatim>\<open>OathImportStore\<close>: the session, and what the front end was told about touches
  (nothing where it gave no callback).\<close>

record oath_import =
  oi_family :: oath_family
  oi_hint :: bytes
  oi_asks_save :: bool
  oi_asks_delete :: bool
  oi_has_wait :: bool

definition waiting_for_touch :: "bool \<Rightarrow> bool \<Rightarrow> ('s \<Rightarrow> 'r \<times> 's) \<Rightarrow> 's \<times> bool list \<Rightarrow> 'r \<times> ('s \<times> bool list)" where
  "waiting_for_touch asks has_wait f st =
     (let (r, s') = f (fst st)
      in (r, (s', if asks \<and> has_wait then snd st @ [True, False] else snd st)))"

definition oath_store :: "'s oath_io \<Rightarrow> oath_import \<Rightarrow> ('s \<times> bool list) code_store" where
  "oath_store io c =
     \<lparr>cs_add = (\<lambda>n e touch. waiting_for_touch (touch \<and> oi_asks_save c) (oi_has_wait c)
                  (oath_add io (oi_family c) (oi_hint c) n e touch)),
      cs_delete = (\<lambda>n. waiting_for_touch (oi_asks_delete c) (oi_has_wait c) (oath_delete io (oi_hint c) n))\<rparr>"

definition read_oath_existing :: "listing \<Rightarrow> existing" where
  "read_oath_existing l = \<lparr>ex_names = map (\<lambda>c. NmOath (ci_name c)) (credentials l), ex_hidden = skipped l\<rparr>"

subsection \<open>Token2 OTP\<close>

datatype token2_answer = TaOk | TaFull | TaPinWindow | TaPinBlocked | TaOther u16

definition token2_answer_of :: "u16 \<Rightarrow> token2_answer" where
  "token2_answer_of sw =
     (if sw = Otp_Applet.SW_OK then TaOk
      else if sw = NOT_ENOUGH_SPACE then TaFull
      else if sw = PIN_INVALID \<or> sw = PIN_CONDITIONS_NOT_SATISFIED then TaPinWindow
      else if sw = PIN_LOCKED then TaPinBlocked
      else TaOther sw)"

text \<open>\<^verbatim>\<open>OtpTransportError\<close>: the two cases the adapter looks at, and the text of any other.
  \<^verbatim>\<open>Display\<close> of \<^verbatim>\<open>OtpError\<close> is \<open>otp_error_text\<close>.\<close>

datatype otp_transport_error = AppletError otp_error | PinRequired | OtherOtpError bytes

definition EM_DASH :: bytes where "EM_DASH = [0xE2, 0x80, 0x94]"

fun otp_error_text :: "otp_error \<Rightarrow> bytes" where
  "otp_error_text EntryNotFound = ascii ''entry not found''"
| "otp_error_text NotEnoughSpace = ascii ''not enough space on device''"
| "otp_error_text ButtonPressRequired = ascii ''timed out waiting for a button press on the key''"
| "otp_error_text HidNotSupported = ascii ''HOTP-over-HID is not supported on this model''"
| "otp_error_text FunctionNotSupported = ascii ''the device does not support this operation in its current state''"
| "otp_error_text PinConditionsNotSatisfied =
     ascii ''PIN conditions not satisfied (no session established, or a read/verify was attempted out of order)''"
| "otp_error_text PinInvalid = ascii ''wrong OTP PIN (or authentication tag mismatch)''"
| "otp_error_text (PinInvalidRetries n) =
     ascii ''wrong OTP PIN '' @ EM_DASH @ ascii '' '' @ show_dec (unat n) @ ascii '' attempt'' @ (if n = 1 then [] else ascii ''s'')
     @ ascii '' remaining before lockout''"
| "otp_error_text PinLocked =
     ascii ''the OTP PIN is locked after too many wrong attempts; a global OTP reset is required to recover it''"
| "otp_error_text PinRejected =
     ascii ''the key refused this PIN: it doesn't meet the key's PIN rules (6 or more digits with no runs such as 1234, ''
     @ ascii ''no repeated or mirrored patterns, or 10 or more characters mixing two kinds)''"
| "otp_error_text (BadStatusCode sw) = ascii ''unexpected status word 0x'' @ hex4 sw"

fun otp_transport_text :: "otp_transport_error \<Rightarrow> bytes" where
  "otp_transport_text (AppletError e) = otp_error_text e"
| "otp_transport_text PinRequired = ascii ''this key's OTP codes are PIN-protected; supply the OTP PIN to unlock them''"
| "otp_transport_text (OtherOtpError text) = text"

record 's token2_io =
  t2_write :: "write_entry \<Rightarrow> bytes option \<Rightarrow> 's \<Rightarrow> (unit, otp_transport_error) result \<times> 's"
  t2_delete :: "bytes \<Rightarrow> bytes \<Rightarrow> bytes option \<Rightarrow> 's \<Rightarrow> (unit, otp_transport_error) result \<times> 's"
  t2_verify_pin :: "bytes \<Rightarrow> 's \<Rightarrow> (unit, otp_transport_error) result \<times> 's"

fun token2_stored_name :: "stored_name \<Rightarrow> (bytes \<times> bytes, store_error) result" where
  "token2_stored_name (NmToken2 app account) = Ok (app, account)"
| "token2_stored_name _ = Err (SeFailed (ascii ''this entry has no Token2 name to store it under''))"

definition token2_write_entry :: "bytes \<Rightarrow> bytes \<Rightarrow> import_entry \<Rightarrow> bool \<Rightarrow> (write_entry, store_error) result" where
  "token2_write_entry app account e touch =
     bind_result
       (case ie_hash e of
          HashSha1 \<Rightarrow> Ok OtpSha1
        | HashSha256 \<Rightarrow> Ok OtpSha256
        | HashSha512 \<Rightarrow> Err (SeFailed (ascii ''this Token2 key doesn't take SHA-512 codes'')))
       (\<lambda>algorithm.
     bind_result
       (case ie_kind e of
          KindTotp period \<Rightarrow>
            if 0xffff < period
            then Err (SeFailed (ascii ''this Token2 key doesn't take a '' @ show_dec (unat period) @ ascii '' s period''))
            else Ok (otp_type.Totp, ucast period)
        | KindHotp _ \<Rightarrow> Ok (otp_type.Hotp, 30))
       (\<lambda>(otp_type, timestep).
          Ok \<lparr>we_type = otp_type, we_algorithm = algorithm, we_timestep = timestep, we_code_length = ie_digits e,
              we_button_required = touch, we_app_name = app, we_account_name = account, we_seed = ie_secret e\<rparr>))"

definition token2_classify :: "(unit, otp_transport_error) result \<Rightarrow> (token2_answer, store_error) result" where
  "token2_classify r =
     (case r of
        Ok _ \<Rightarrow> Ok TaOk
      | Err (AppletError e) \<Rightarrow> Ok (token2_answer_of (status_word e))
      | Err PinRequired \<Rightarrow> Ok TaPinWindow
      | Err (OtherOtpError text) \<Rightarrow> Err (SeFailed text))"

definition TOKEN2_PIN_BLOCKED :: bytes where "TOKEN2_PIN_BLOCKED = ascii ''the key's OTP PIN is blocked''"

definition TOKEN2_PIN_WINDOW_CLOSED :: bytes where
  "TOKEN2_PIN_WINDOW_CLOSED =
     ascii ''the key closed its OTP PIN window; nothing more was sent, so no PIN attempt was used. Run the import again.''"

definition token2_final :: "token2_answer \<Rightarrow> (unit, store_error) result" where
  "token2_final a =
     (case a of
        TaOk \<Rightarrow> Ok ()
      | TaFull \<Rightarrow> Err SeFull
      | TaPinWindow \<Rightarrow> Err (SeFailed (ascii ''the key asked for its OTP PIN again and refused it''))
      | TaPinBlocked \<Rightarrow> Err (SeFailed TOKEN2_PIN_BLOCKED)
      | TaOther sw \<Rightarrow> Err (SeFailed (ascii ''the key refused it (status '' @ hex4 sw @ ascii '')'')))"

text \<open>The first answer is a wrong PIN: told as it is, and nothing is sent again.\<close>

definition wrong_pin :: "bytes option \<Rightarrow> bool \<Rightarrow> (unit, otp_transport_error) result \<Rightarrow> otp_error option" where
  "wrong_pin pin proven r =
     (case r of
        Err (AppletError PinInvalid) \<Rightarrow> if \<not> proven \<and> pin \<noteq> None then Some PinInvalid else None
      | Err (AppletError (PinInvalidRetries n)) \<Rightarrow> Some (PinInvalidRetries n)
      | _ \<Rightarrow> None)"

definition verify_failed :: "otp_transport_error \<Rightarrow> store_error" where
  "verify_failed e =
     (case e of
        AppletError a \<Rightarrow>
          if token2_answer_of (status_word a) = TaPinBlocked then SeFailed TOKEN2_PIN_BLOCKED
          else SeFailed (otp_transport_text e)
      | _ \<Rightarrow> SeFailed (otp_transport_text e))"

definition token2_finish :: "bytes option \<Rightarrow> bool \<Rightarrow> (token2_answer, store_error) result \<Rightarrow> 's
    \<Rightarrow> (unit, store_error) result \<times> bool \<times> 's" where
  "token2_finish pin proven r s =
     (case r of
        Err x \<Rightarrow> (Err x, proven, s)
      | Ok a \<Rightarrow> (token2_final a, proven \<or> a = TaOk \<and> pin \<noteq> None, s))"

definition token2_with_pin :: "'s token2_io \<Rightarrow> bytes option \<Rightarrow> ('s \<Rightarrow> (unit, otp_transport_error) result \<times> 's) \<Rightarrow> bool \<Rightarrow> 's
    \<Rightarrow> (unit, store_error) result \<times> bool \<times> 's" where
  "token2_with_pin io pin send proven s =
     (let (first, s) = send s in
      case wrong_pin pin proven first of
        Some e \<Rightarrow> (Err (SeFailed (otp_error_text e)), proven, s)
      | None \<Rightarrow>
          if token2_classify first \<noteq> Ok TaPinWindow then token2_finish pin proven (token2_classify first) s
          else
            (case pin of
               None \<Rightarrow> (Err (SeFailed (ascii ''the key asks for its OTP PIN'')), proven, s)
             | Some p \<Rightarrow>
                 if \<not> proven then (Err (SeFailed TOKEN2_PIN_WINDOW_CLOSED), proven, s)
                 else
                   (case t2_verify_pin io p s of
                      (Err e, s) \<Rightarrow> (Err (verify_failed e), proven, s)
                    | (Ok _, s) \<Rightarrow>
                        (let (again, s) = send s in token2_finish pin proven (token2_classify again) s))))"

definition token2_add :: "'s token2_io \<Rightarrow> bytes option \<Rightarrow> stored_name \<Rightarrow> import_entry \<Rightarrow> bool \<Rightarrow> bool \<Rightarrow> 's
    \<Rightarrow> (unit, store_error) result \<times> bool \<times> 's" where
  "token2_add io pin name e touch proven s =
     (case bind_result (token2_stored_name name) (\<lambda>(app, account). token2_write_entry app account e touch) of
        Err x \<Rightarrow> (Err x, proven, s)
      | Ok w \<Rightarrow> token2_with_pin io pin (t2_write io w pin) proven s)"

definition token2_delete :: "'s token2_io \<Rightarrow> bytes option \<Rightarrow> stored_name \<Rightarrow> bool \<Rightarrow> 's
    \<Rightarrow> (unit, store_error) result \<times> bool \<times> 's" where
  "token2_delete io pin name proven s =
     (case token2_stored_name name of
        Err x \<Rightarrow> (Err x, proven, s)
      | Ok (app, account) \<Rightarrow> token2_with_pin io pin (t2_delete io app account pin) proven s)"

definition token2_store_new :: "bytes option \<Rightarrow> bool \<Rightarrow> 's \<Rightarrow> bool \<times> 's" where
  "token2_store_new pin typed_pin_verified s = (pin \<noteq> None \<and> typed_pin_verified, s)"

definition token2_store :: "'s token2_io \<Rightarrow> bytes option \<Rightarrow> (bool \<times> 's) code_store" where
  "token2_store io pin =
     \<lparr>cs_add = (\<lambda>n e touch (proven, s). token2_add io pin n e touch proven s),
      cs_delete = (\<lambda>n (proven, s). token2_delete io pin n proven s)\<rparr>"

definition read_token2_existing :: "otp_entry list \<Rightarrow> existing" where
  "read_token2_existing es = \<lparr>ex_names = map (\<lambda>e. NmToken2 (oe_app_name e) (oe_account_name e)) es, ex_hidden = 0\<rparr>"

subsection \<open>Molto2\<close>

record 's molto_io =
  m2_seed :: "byte \<Rightarrow> bytes \<Rightarrow> 's \<Rightarrow> (unit, bytes) result \<times> 's"
  m2_title :: "byte \<Rightarrow> bytes \<Rightarrow> 's \<Rightarrow> (unit, bytes) result \<times> 's"
  m2_config :: "byte \<Rightarrow> profile_config \<Rightarrow> 's \<Rightarrow> (unit, bytes) result \<times> 's"
  m2_now :: "'s \<Rightarrow> u32 \<times> 's"

record molto_write_rec =
  mw_slot :: byte
  mw_title :: bytes
  mw_config :: profile_config

definition molto_unsupported :: "bytes \<Rightarrow> store_error" where
  "molto_unsupported what = SeFailed (ascii ''Molto2 doesn't take '' @ what)"

definition molto_write :: "stored_name \<Rightarrow> import_entry \<Rightarrow> display_timeout \<Rightarrow> u32 \<Rightarrow> (molto_write_rec, store_error) result" where
  "molto_write name e timeout utc =
     (case name of
        NmMolto2 slot title \<Rightarrow>
          if title = [] \<or> 12 < length title then Err (SeFailed (ascii ''the title must be 1 to 12 bytes''))
          else if ie_secret e = [] \<or> 63 < length (ie_secret e)
          then Err (molto_unsupported (ascii ''a '' @ show_dec (length (ie_secret e)) @ ascii ''-byte seed''))
          else
            bind_result
              (case ie_hash e of
                 HashSha1 \<Rightarrow> Ok Sha1
               | HashSha256 \<Rightarrow> Ok Sha256
               | HashSha512 \<Rightarrow> Err (molto_unsupported (ascii ''SHA-512 codes'')))
              (\<lambda>algorithm.
            bind_result
              (if ie_digits e = 4 then Ok Four else if ie_digits e = 6 then Ok Six else if ie_digits e = 8 then Ok Eight
               else if ie_digits e = 10 then Ok Ten
               else Err (molto_unsupported (show_dec (unat (ie_digits e)) @ ascii ''-digit codes'')))
              (\<lambda>digits.
            bind_result
              (case ie_kind e of
                 KindTotp period \<Rightarrow>
                   if period = 30 then Ok Seconds30 else if period = 60 then Ok Seconds60
                   else Err (molto_unsupported (ascii ''a '' @ show_dec (unat period) @ ascii '' s period''))
               | KindHotp _ \<Rightarrow> Err (molto_unsupported (ascii ''counter-based (HOTP) codes'')))
              (\<lambda>time_step.
                 Ok \<lparr>mw_slot = slot, mw_title = title,
                     mw_config = \<lparr>cfg_display_timeout = timeout, cfg_algorithm = algorithm, cfg_digits = digits,
                                  cfg_time_step = time_step, cfg_utc_time = utc\<rparr>\<rparr>)))
      | _ \<Rightarrow> Err (SeFailed (ascii ''this entry has no Molto2 slot to store it in'')))"

definition molto_add :: "'s molto_io \<Rightarrow> display_timeout \<Rightarrow> stored_name \<Rightarrow> import_entry \<Rightarrow> 's \<Rightarrow> (unit, store_error) result \<times> 's" where
  "molto_add io timeout name e s =
     (case molto_write name e timeout 0 of
        Err x \<Rightarrow> (Err x, s)
      | Ok w \<Rightarrow>
          (case m2_seed io (mw_slot w) (ie_secret e) s of
             (Err text, s) \<Rightarrow> (Err (SeFailed text), s)
           | (Ok _, s) \<Rightarrow>
               (case m2_title io (mw_slot w) (mw_title w) s of
                  (Err text, s) \<Rightarrow> (Err (SeFailed text), s)
                | (Ok _, s) \<Rightarrow>
                    (let (now, s) = m2_now io s in
                     case m2_config io (mw_slot w) ((mw_config w)\<lparr>cfg_utc_time := now\<rparr>) s of
                       (Err text, s) \<Rightarrow> (Err (SeFailed text), s)
                     | (Ok _, s) \<Rightarrow> (Ok (), s)))))"

definition molto_store :: "'s molto_io \<Rightarrow> display_timeout \<Rightarrow> 's code_store" where
  "molto_store io timeout =
     \<lparr>cs_add = (\<lambda>n e touch. molto_add io timeout n e),
      cs_delete = (\<lambda>n s. (Err (SeFailed (ascii ''not supported'')), s))\<rparr>"

definition molto_slot_used :: "profile_public_data \<Rightarrow> bool" where
  "molto_slot_used m \<longleftrightarrow> pd_seed_present m \<or> (case pd_title m of Some t \<Rightarrow> t \<noteq> [] | None \<Rightarrow> False)"

definition molto_existing :: "profile_public_data list \<Rightarrow> existing" where
  "molto_existing meta =
     \<lparr>ex_names = map (\<lambda>(slot, m). NmMolto2 (word_of_nat slot) (case pd_title m of Some t \<Rightarrow> t | None \<Rightarrow> []))
                   (filter (\<lambda>(slot, m). molto_slot_used m) (enumerate 0 meta)),
      ex_hidden = 0\<rparr>"

fun read_slots :: "(byte \<Rightarrow> 's \<Rightarrow> (profile_public_data, transport_error) result \<times> 's) \<Rightarrow> nat list \<Rightarrow> 's
    \<Rightarrow> (profile_public_data list, transport_error) result \<times> 's" where
  "read_slots rd [] s = (Ok [], s)"
| "read_slots rd (i # is) s =
     (case rd (word_of_nat i) s of
        (Err e, s) \<Rightarrow> (Err e, s)
      | (Ok m, s) \<Rightarrow>
          (case read_slots rd is s of (Err e, s) \<Rightarrow> (Err e, s) | (Ok ms, s) \<Rightarrow> (Ok (m # ms), s)))"

definition molto_existing_by :: "(byte \<Rightarrow> 's \<Rightarrow> (profile_public_data, transport_error) result \<times> 's) \<Rightarrow> 's
    \<Rightarrow> (existing, transport_error) result \<times> 's" where
  "molto_existing_by rd s =
     (case read_slots rd [0..<100] s of (Err e, s) \<Rightarrow> (Err e, s) | (Ok ms, s) \<Rightarrow> (Ok (molto_existing ms), s))"

subsection \<open>What is planned can be sent\<close>

definition is_ok :: "('a, 'e) result \<Rightarrow> bool" where
  "is_ok r = (case r of Ok _ \<Rightarrow> True | Err _ \<Rightarrow> False)"

lemma is_ok_simps [simp]: "is_ok (Ok x)" "\<not> is_ok (Err y)"
  by (simp_all add: is_ok_def)

lemma boundary_le: "boundary_down s n \<le> n"
  by (induction s n rule: boundary_down.induct) auto

lemma molto_title_short: "length (molto_title issuer account) \<le> 12"
proof -
  let ?s = "case or_else issuer account of Some s \<Rightarrow> s | None \<Rightarrow> []"
  have "boundary_down ?s (min (length ?s) 12) \<le> 12" using boundary_le [of ?s "min (length ?s) 12"] by simp
  then show ?thesis by (simp add: molto_title_def Let_def)
qed

lemma put_body_length:
  "length (put_body p) = 2 + length (put_name p) + 2 + (2 + max (length (put_secret p)) 14)
     + (if put_touch p then 2 else 0) + (if put_imf p \<noteq> 0 then 6 else 0)"
  by (auto simp: put_body_def put_key_def max_def)

lemma put_ok_iff: "is_ok (put p) \<longleftrightarrow> length (put_body p) \<le> 255"
proof -
  have "length (put_name p) \<le> length (put_body p)" "length (put_key p) \<le> length (put_body p)"
    by (simp_all add: put_body_def)
  then show ?thesis by (simp add: put_layout)
qed

definition entry_imf :: "import_entry \<Rightarrow> bool" where
  "entry_imf e = (case ie_kind e of KindHotp counter \<Rightarrow> counter \<noteq> 0 | KindTotp _ \<Rightarrow> False)"

lemma small_counter: "c \<le> 0xffffffff \<Longrightarrow> (ucast (c :: u64) :: u32) = 0 \<longleftrightarrow> c = 0"
  by (simp add: word_le_nat_alt unsigned_ucast_eq take_bit_eq_mod flip: unat_eq_zero)

lemma put_params_fields:
  assumes "put_params_of name e touch = Ok p"
  shows "put_name p = name" "put_secret p = ie_secret e" "put_touch p = touch" "put_imf p \<noteq> 0 \<longleftrightarrow> entry_imf e"
  using assms by (auto simp: put_params_of_def entry_imf_def small_counter not_less split: otp_kind.splits if_splits)

text \<open>An entry as the readers make it\<close>

definition entry_sound :: "import_entry \<Rightarrow> bool" where
  "entry_sound e \<longleftrightarrow> well_formed e \<and> ie_secret e \<noteq> []"

definition oath_sendable :: "oath_family \<Rightarrow> import_entry \<Rightarrow> bytes \<Rightarrow> bool" where
  "oath_sendable family e n \<longleftrightarrow> \<not> name_refused family n
     \<and> (case put_params_of n e False of Ok p \<Rightarrow> is_ok (put p) | Err _ \<Rightarrow> False)"

definition token2_sendable :: "import_entry \<Rightarrow> bytes \<Rightarrow> bytes \<Rightarrow> bool \<Rightarrow> bool" where
  "token2_sendable e app account touch \<longleftrightarrow>
     (case token2_write_entry app account e touch of Ok w \<Rightarrow> is_ok (serialize_write_entry w) | Err _ \<Rightarrow> False)"

definition molto_sendable :: "bytes \<Rightarrow> import_entry \<Rightarrow> byte \<Rightarrow> bytes \<Rightarrow> bool" where
  "molto_sendable key e slot title \<longleftrightarrow>
     (case molto_write (NmMolto2 slot title) e Sec30 0 of Ok w \<Rightarrow> mw_slot w = slot \<and> mw_title w = title | Err _ \<Rightarrow> False)
     \<and> set_seed key slot (ie_secret e) \<noteq> None \<and> set_title key slot title \<noteq> None"

definition row_sendable :: "bytes \<Rightarrow> target \<Rightarrow> import_item \<Rightarrow> plan_row \<Rightarrow> bool" where
  "row_sendable key t item r \<longleftrightarrow> (row_writes r \<longrightarrow>
     (case (it_entry item, pr_name r) of
        (Ok e, Some n) \<Rightarrow>
          (case (tg_store t, n) of
             (StOath family, NmOath name) \<Rightarrow> oath_sendable family e name
           | (StToken2Otp, NmToken2 app account) \<Rightarrow> token2_sendable e app account (pr_touch r)
           | (StMolto2, NmMolto2 slot title) \<Rightarrow> molto_sendable key e slot title
           | _ \<Rightarrow> False)
      | _ \<Rightarrow> False))"

lemma put_params_made:
  assumes "check_params e (StOath f) (limits (StOath f)) = Ok ()"
  obtains p where "put_params_of n e b = Ok p"
proof -
  have "lm_hotp (limits (StOath f)) = HotpCounterU32" by (cases f) simp_all
  with assms have "case ie_kind e of KindTotp _ \<Rightarrow> True | KindHotp c \<Rightarrow> c \<le> 0xffffffff"
    by (auto simp: check_params_def check_kind_def not_less split: otp_kind.splits if_splits)
  then show thesis using that by (auto simp: put_params_of_def not_less split: otp_kind.splits if_splits)
qed

lemma put_fits:
  assumes "put_params_of name e touch = Ok p"
  shows "is_ok (put p) \<longleftrightarrow> oath_put_fits (length name + (if touch then 2 else 0)) (length (ie_secret e)) (entry_imf e)"
  using put_params_fields [OF assms] by (simp add: put_ok_iff put_body_length oath_put_fits_def)

lemma oath_planned_sendable:
  assumes "check_params e (StOath f) (limits (StOath f)) = Ok ()" "name_for e (StOath f) (limits (StOath f)) = Some (Ok n)"
  obtains name where "n = NmOath name" "oath_sendable f e name"
proof -
  obtain name where n: "n = NmOath name" "too_long (limits (StOath f)) name = None"
    "oath_put_fits (length name) (length (ie_secret e)) (entry_imf e)"
    using assms(2) by (auto simp: Let_def entry_imf_def split: option.splits if_splits)
  obtain p where p: "put_params_of name e False = Ok p" using put_params_made [OF assms(1)] .
  have "\<not> name_refused f name" using n(2)
    by (cases f) (auto simp: name_refused_def too_long_def split: if_splits)
  with n p put_fits [OF p] that show thesis by (simp add: oath_sendable_def)
qed

lemma token2_planned_sendable:
  assumes "check_params e StToken2Otp (limits StToken2Otp) = Ok ()" "name_for e StToken2Otp (limits StToken2Otp) = Some (Ok n)"
    and "entry_sound e"
  obtains app account where "n = NmToken2 app account" "token2_sendable e app account touch"
proof -
  obtain app account where n: "n = NmToken2 app account" "token2_name e = Ok (app, account)" "is_ascii app" "is_ascii account"
    "length app \<le> 64" "length account \<le> 64"
    using assms(2) by (auto simp: too_long_def split: option.splits if_splits prod.splits)
  have "account \<noteq> []" using n(2) assms(3)
    by (auto simp: token2_name_def entry_sound_def well_formed_def split: option.splits)
  have c: "ie_hash e = HashSha1 \<or> ie_hash e = HashSha256" "4 \<le> ie_digits e" "ie_digits e \<le> 10" "length (ie_secret e) \<le> 64"
    "case ie_kind e of KindTotp p \<Rightarrow> 1 \<le> p \<and> p \<le> 0xffff | KindHotp _ \<Rightarrow> True"
    using assms(1) by (auto simp: check_params_def check_digits_def check_kind_def SHA1_256_def not_less
        split: otp_kind.splits if_splits)
  have step: "1 \<le> p \<Longrightarrow> p \<le> 0xffff \<Longrightarrow> (ucast p :: u16) \<noteq> 0" for p :: u32
    by (simp add: word_le_nat_alt unsigned_ucast_eq take_bit_eq_mod flip: unat_eq_zero)
  have "token2_sendable e app account touch" using n(3-) c \<open>account \<noteq> []\<close> assms(3) step
    by (auto simp: token2_sendable_def token2_write_entry_def serialize_write_entry_def validate_common_def check_names_def
        str_is_ascii_def is_ascii_def entry_sound_def not_less split: otp_kind.splits)
  with n(1) that show thesis by blast
qed

lemma molto_planned_sendable:
  assumes "check_params e StMolto2 (limits StMolto2) = Ok ()" "title = molto_title (ie_issuer e) (ie_account e)" "title \<noteq> []"
    and "entry_sound e"
  shows "molto_sendable key e slot title"
proof -
  have l: "length title \<le> 12" by (simp add: assms(2) molto_title_short)
  have c: "ie_hash e = HashSha1 \<or> ie_hash e = HashSha256" "ie_digits e \<in> {4, 6, 8, 10}" "length (ie_secret e) \<le> 63"
    "ie_kind e = KindTotp 30 \<or> ie_kind e = KindTotp 60"
    using assms(1) by (auto simp: check_params_def check_digits_def check_kind_def molto_digits_def SHA1_256_def not_less
        split: otp_kind.splits if_splits)
  have "ie_secret e \<noteq> []" using assms(4) by (simp add: entry_sound_def)
  then obtain "set_seed key slot (ie_secret e) \<noteq> None" using set_seed_built [OF _ c(3), of key slot] by blast
  moreover obtain "set_title key slot title \<noteq> None" using set_title_built [OF assms(3) l, of key slot] by blast
  moreover have "\<exists>w. molto_write (NmMolto2 slot title) e Sec30 0 = Ok w \<and> mw_slot w = slot \<and> mw_title w = title"
    using c l assms(3) \<open>ie_secret e \<noteq> []\<close> by (auto simp: molto_write_def not_less)
  ultimately show ?thesis by (auto simp: molto_sendable_def)
qed

lemma row_planned_sendable:
  assumes "row_fits t item r" "case it_entry item of Ok e \<Rightarrow> entry_sound e | Err _ \<Rightarrow> True"
  shows "row_sendable key t item r"
proof (cases "row_writes r")
  case True
  obtain e n where r: "it_entry item = Ok e" "pr_name r = Some n"
    "check_params e (tg_store t) (limits (tg_store t)) = Ok ()" "name_made t e n"
    using assms(1) True by (auto simp: row_fits_def split: result.splits option.splits)
  have sound: "entry_sound e" using assms(2) r(1) by simp
  show ?thesis
  proof (cases "tg_store t")
    case StMolto2
    then obtain slot title where "n = NmMolto2 slot title" "title = molto_title (ie_issuer e) (ie_account e)" "title \<noteq> []"
      using r(4) by (auto simp: name_made_def split: stored_name.splits)
    with StMolto2 r molto_planned_sendable [of e title key slot] sound show ?thesis by (simp add: row_sendable_def)
  next
    case (StOath f)
    with r have "name_for e (StOath f) (limits (StOath f)) = Some (Ok n)" by (simp add: name_made_def)
    with r(3) StOath obtain name where "n = NmOath name" "oath_sendable f e name"
      using oath_planned_sendable by metis
    with StOath r show ?thesis by (simp add: row_sendable_def)
  next
    case StToken2Otp
    with r have "name_for e StToken2Otp (limits StToken2Otp) = Some (Ok n)" by (simp add: name_made_def)
    with r(3) StToken2Otp sound obtain app account where "n = NmToken2 app account" "token2_sendable e app account (pr_touch r)"
      using token2_planned_sendable [of e n "pr_touch r"] by metis
    with StToken2Otp r show ?thesis by (simp add: row_sendable_def)
  qed
qed (simp add: row_sendable_def)

subsection \<open>PIN attempts on a Token2 key\<close>

datatype token2_event = EvSend "(unit, otp_transport_error) result" | EvVerify "(unit, otp_transport_error) result"

text \<open>The commands of an import with their answers\<close>

definition watched :: "'s token2_io \<Rightarrow> ('s \<times> token2_event list) token2_io" where
  "watched io =
     \<lparr>t2_write = (\<lambda>w pin (s, evs). let (r, s') = t2_write io w pin s in (r, (s', evs @ [EvSend r]))),
      t2_delete = (\<lambda>app account pin (s, evs). let (r, s') = t2_delete io app account pin s in (r, (s', evs @ [EvSend r]))),
      t2_verify_pin = (\<lambda>p (s, evs). let (r, s') = t2_verify_pin io p s in (r, (s', evs @ [EvVerify r])))\<rparr>"

text \<open>A PIN is verified only after it has worked, and an answer that says it is wrong is the last.\<close>

fun pin_safe :: "bytes option \<Rightarrow> bool \<Rightarrow> token2_event list \<Rightarrow> bool" where
  "pin_safe pin proven [] = True"
| "pin_safe pin proven (EvSend r # evs) =
     ((wrong_pin pin proven r = None \<or> evs = []) \<and> pin_safe pin (proven \<or> token2_classify r = Ok TaOk \<and> pin \<noteq> None) evs)"
| "pin_safe pin proven (EvVerify r # evs) = (proven \<and> pin \<noteq> None \<and> (r = Ok () \<or> evs = []) \<and> pin_safe pin proven evs)"

definition watched_send :: "(('s \<times> token2_event list) \<Rightarrow> (unit, otp_transport_error) result \<times> ('s \<times> token2_event list)) \<Rightarrow> bool" where
  "watched_send send \<longleftrightarrow> (\<forall>s evs. \<exists>r s'. send (s, evs) = (r, (s', evs @ [EvSend r])))"

lemma watched_sends: "watched_send (t2_write (watched io) w pin)" "watched_send (t2_delete (watched io) app account pin)"
  by (auto simp: watched_send_def watched_def split: prod.splits)

lemma token2_final_failed: "token2_final a = Err x \<Longrightarrow> x \<noteq> SeExists"
  by (auto simp: token2_final_def split: token2_answer.splits)

lemma wrong_pin_status:
  "(0x6300 OR ucast (n :: byte) :: u16) \<noteq> 0x9000" "(0x6300 OR ucast (n :: byte) :: u16) \<noteq> 0x6A84"
proof -
  have "bit (0x6300 OR ucast n :: u16) 15 = False" "bit (0x6300 OR ucast n :: u16) 11 = False"
    using bit_imp_le_length [of n 15] bit_imp_le_length [of n 11] by (auto simp: bit_simps bit_numeral_rec)
  moreover have "bit (0x9000 :: u16) 15" "bit (0x6A84 :: u16) 11" by (simp_all add: bit_numeral_rec)
  ultimately show "(0x6300 OR ucast n :: u16) \<noteq> 0x9000" "(0x6300 OR ucast n :: u16) \<noteq> 0x6A84" by metis+
qed

lemma wrong_pin_fails:
  assumes "wrong_pin pin True r \<noteq> None"
  obtains a x where "token2_classify r = Ok a" "token2_final a = Err (SeFailed x)" "a \<noteq> TaOk"
proof -
  obtain n where "r = Err (AppletError (PinInvalidRetries n))"
    using assms by (auto simp: wrong_pin_def split: result.splits otp_transport_error.splits otp_error.splits)
  then have c: "token2_classify r = Ok (token2_answer_of (0x6300 OR ucast n))" by (simp add: token2_classify_def)
  have n: "token2_answer_of (0x6300 OR ucast n) \<noteq> TaOk" "token2_answer_of (0x6300 OR ucast n) \<noteq> TaFull"
    using wrong_pin_status [of n] by (auto simp: token2_answer_of_def SW_OK_def NOT_ENOUGH_SPACE_def)
  then have "\<exists>x. token2_final (token2_answer_of (0x6300 OR ucast n)) = Err (SeFailed x)"
    by (cases "token2_answer_of (0x6300 OR ucast n)") (simp_all add: token2_final_def)
  with c n(1) that show thesis by blast
qed

lemma finish_safe:
  assumes "token2_finish pin proven (token2_classify r) (s, evs) = (out, proven', (s', evs'))"
    and "wrong_pin pin proven r = None \<or> proven"
  shows "s' = s \<and> evs' = evs \<and> (proven \<longrightarrow> proven')
    \<and> (\<forall>rest. pin_safe pin proven' rest \<and> ((\<exists>x. out = Err (SeFailed x)) \<longrightarrow> rest = []) \<longrightarrow> pin_safe pin proven (EvSend r # rest))"
proof (cases "wrong_pin pin proven r")
  case None
  with assms show ?thesis by (auto simp: token2_finish_def split: result.splits)
next
  case (Some e)
  with assms(2) have "wrong_pin pin True r \<noteq> None" by (auto simp: wrong_pin_def split: result.splits otp_transport_error.splits otp_error.splits if_splits)
  then obtain a x where "token2_classify r = Ok a" "token2_final a = Err (SeFailed x)" "a \<noteq> TaOk" by (rule wrong_pin_fails)
  with assms(1) have "out = Err (SeFailed x)" "proven' = proven" "s' = s" "evs' = evs" by (simp_all add: token2_finish_def)
  then show ?thesis by simp
qed

lemma with_pin_safe:
  assumes "watched_send send" "token2_with_pin (watched io) pin send proven (s, evs) = (out, proven', (s', evs'))"
  obtains new where "evs' = evs @ new"
    "\<And>rest. pin_safe pin proven' rest \<Longrightarrow> ((\<exists>x. out = Err (SeFailed x)) \<Longrightarrow> rest = []) \<Longrightarrow> pin_safe pin proven (new @ rest)"
proof -
  obtain first s1 where f: "send (s, evs) = (first, (s1, evs @ [EvSend first]))"
    using assms(1) unfolding watched_send_def by blast
  note w = assms(2) [unfolded token2_with_pin_def Let_def f prod.case]
  show thesis
  proof (cases "wrong_pin pin proven first")
    case (Some e)
    with w have "out = Err (SeFailed (otp_error_text e))" "evs' = evs @ [EvSend first]" by simp_all
    then show thesis using that [of "[EvSend first]"] by simp
  next
    case None
    show thesis
    proof (cases "token2_classify first = Ok TaPinWindow")
      case False
      with w None have "token2_finish pin proven (token2_classify first) (s1, evs @ [EvSend first]) = (out, proven', (s', evs'))" by simp
      from finish_safe [OF this] None that [of "[EvSend first]"] show thesis by auto
    next
      case window: True
      show thesis
      proof (cases "pin = None \<or> \<not> proven")
        case True
        with w None window have "\<exists>x. out = Err (SeFailed x)" "evs' = evs @ [EvSend first]" "proven' = proven"
          by (auto split: option.splits)
        then show thesis using that [of "[EvSend first]"] None by simp
      next
        case False
        then obtain p where p: "pin = Some p" "proven" by auto
        obtain v s2 where v: "t2_verify_pin io p s1 = (v, s2)" by fastforce
        show thesis
        proof (cases v)
          case (Err e)
          with w None window p v have "\<exists>x. out = Err (SeFailed x)" "evs' = evs @ [EvSend first, EvVerify v]" "proven' = proven"
            by (auto simp: watched_def verify_failed_def split: otp_transport_error.splits if_splits)
          then show thesis using that [of "[EvSend first, EvVerify v]"] None p by simp
        next
          case (Ok u)
          obtain again s3 where a: "send (s2, evs @ [EvSend first, EvVerify v]) = (again, (s3, evs @ [EvSend first, EvVerify v, EvSend again]))"
            using assms(1) unfolding watched_send_def by (metis append.assoc append_Cons append_Nil)
          have "token2_finish pin proven (token2_classify again) (s3, evs @ [EvSend first, EvVerify v, EvSend again])
              = (out, proven', (s', evs'))"
            using w None window p v Ok a by (simp add: watched_def)
          from finish_safe [OF this] p None window Ok that [of "[EvSend first, EvVerify v, EvSend again]"] show thesis by auto
        qed
      qed
    qed
  qed
qed

lemma with_pin_exists: "fst (token2_with_pin io pin send proven s) \<noteq> Err SeExists"
  by (auto simp: token2_with_pin_def Let_def token2_finish_def token2_classify_def verify_failed_def dest: token2_final_failed
      split: prod.splits option.splits result.splits otp_transport_error.splits if_splits)

lemma token2_add_safe:
  assumes "cs_add (token2_store (watched io) pin) n e t (proven, (s, evs)) = (out, (proven', (s', evs')))"
  obtains new where "evs' = evs @ new" "out \<noteq> Err SeExists"
    "\<And>rest. pin_safe pin proven' rest \<Longrightarrow> ((\<exists>x. out = Err (SeFailed x)) \<Longrightarrow> rest = []) \<Longrightarrow> pin_safe pin proven (new @ rest)"
proof (cases "bind_result (token2_stored_name n) (\<lambda>(app, account). token2_write_entry app account e t)")
  case (Err x)
  moreover from this have "\<exists>m. x = SeFailed m"
    by (cases n) (auto simp: token2_write_entry_def split: result.splits hash_alg.splits otp_kind.splits if_splits)
  ultimately show thesis using assms that [of "[]"] by (auto simp: token2_store_def token2_add_def)
next
  case (Ok w)
  have "token2_add (watched io) pin n e t proven (s, evs) = (out, proven', (s', evs'))"
    using assms by (simp add: token2_store_def)
  then have w: "token2_with_pin (watched io) pin (t2_write (watched io) w pin) proven (s, evs) = (out, proven', (s', evs'))"
    unfolding token2_add_def Ok result.case .
  from with_pin_safe [OF watched_sends(1) w] obtain new where "evs' = evs @ new"
    "\<And>rest. pin_safe pin proven' rest \<Longrightarrow> ((\<exists>x. out = Err (SeFailed x)) \<Longrightarrow> rest = []) \<Longrightarrow> pin_safe pin proven (new @ rest)" by blast
  moreover have "out \<noteq> Err SeExists"
    using with_pin_exists [of "watched io" pin "t2_write (watched io) w pin" proven "(s, evs)"] w by simp
  ultimately show thesis using that by blast
qed

lemma write_one_pin:
  assumes "write_one f p (token2_store (watched io) pin) row (proven, (s, evs)) = ((out, stop), (proven', (s', evs')))"
  obtains new where "evs' = evs @ new"
    "\<And>rest. pin_safe pin proven' rest \<Longrightarrow> (stop \<noteq> None \<Longrightarrow> rest = []) \<Longrightarrow> pin_safe pin proven (new @ rest)"
proof (cases "pr_name row")
  case None
  with assms that [of "[]"] show thesis by (simp add: write_one_def)
next
  case name: (Some n)
  show thesis
  proof (cases "find_entry f (pr_index row)")
    case None
    with assms name that [of "[]"] show thesis by (simp add: write_one_def)
  next
    case e: (Some e)
    obtain r q t2 evs2 where a: "cs_add (token2_store (watched io) pin) n e (pr_touch row) (proven, (s, evs)) = (r, (q, (t2, evs2)))"
      by (metis prod.collapse)
    from token2_add_safe [OF a] obtain new where new: "evs2 = evs @ new" "r \<noteq> Err SeExists"
      "\<And>rest. pin_safe pin q rest \<Longrightarrow> ((\<exists>x. r = Err (SeFailed x)) \<Longrightarrow> rest = []) \<Longrightarrow> pin_safe pin proven (new @ rest)" by blast
    have w: "proven' = q" "evs' = evs2" "(\<exists>x. r = Err (SeFailed x)) \<Longrightarrow> stop \<noteq> None"
      using assms name e a new(2)
      by (auto simp: write_one_def Let_def run_fail_def run_full_def split: result.splits store_error.splits)
    show thesis
    proof (rule that [of new])
      fix rest assume "pin_safe pin proven' rest" "stop \<noteq> None \<Longrightarrow> rest = []"
      with w new(3) [of rest] show "pin_safe pin proven (new @ rest)" by blast
    qed (simp add: w new)
  qed
qed

lemma run_rows_pin:
  assumes "run_rows f p (token2_store (watched io) pin) m k rows None (proven, (s, evs)) = (r, (proven', (s', evs')), told)"
  shows "\<exists>new. evs' = evs @ new \<and> pin_safe pin proven new"
  using assms
proof (induction rows arbitrary: k proven s evs r told)
  case (Cons row rows)
  obtain x stop q s1 evs1 where w: "write_one f p (token2_store (watched io) pin) row (proven, (s, evs)) = ((x, stop), (q, (s1, evs1)))"
    by (metis prod.collapse)
  from write_one_pin [OF w] obtain new where new: "evs1 = evs @ new"
    "\<And>rest. pin_safe pin q rest \<Longrightarrow> (stop \<noteq> None \<Longrightarrow> rest = []) \<Longrightarrow> pin_safe pin proven (new @ rest)" by blast
  show ?case
  proof (cases stop)
    case None
    obtain r2 z told2 where r: "run_rows f p (token2_store (watched io) pin) m (k + 1) rows None (q, (s1, evs1)) = (r2, z, told2)"
      by (metis prod.collapse)
    with Cons.prems w None have "z = (proven', (s', evs'))" by (auto split: prod.splits)
    with Cons.IH [of "k + 1" q s1 evs1 r2 told2] r obtain rest where "evs' = evs1 @ rest" "pin_safe pin q rest" by auto
    with new None show ?thesis by auto
  next
    case (Some st)
    with Cons.prems w have "evs' = evs1" by (simp add: run_rows_stopped)
    with new(1) new(2) [of "[]"] show ?thesis by auto
  qed
qed simp

subsection \<open>Properties\<close>

text \<open>The plan keeps its word to the stores: every row it writes, of entries as the readers make them, is one that the
  adapter of its destination can send.\<close>

lemma planned_sendable:
  assumes "plan_import file t = Some p"
    and "list_all (\<lambda>i. case it_entry i of Ok e \<Rightarrow> entry_sound e | Err _ \<Rightarrow> True) (if_items file)"
  shows "list_all2 (row_sendable key t) (if_items file) (pl_rows p)"
  using plan_sound_rows(1) [OF assms(1)] assms(2)
  by (auto intro!: list.rel_mono_strong [of "row_fits t"] row_planned_sendable simp: list_all_iff)

text \<open>The command of an entry is built exactly when the planner's rule holds of its name and secret, counting two more
  bytes for a code that requires a touch (\<open>put_fits\<close>), which the planner does not count.\<close>

lemma touch_too_long:
  assumes "put_params_of (replicate 235 0x61) demo_code True = Ok p"
  shows "oath_put_fits (length (replicate 235 (0x61 :: byte))) (length (ie_secret demo_code)) (entry_imf demo_code) \<and> \<not> is_ok (put p)"
  using put_fits [OF assms] by (simp add: oath_put_fits_def demo_code_def entry_imf_def)

text \<open>C22: PIN attempts.  In a whole import to a Token2 key the PIN is verified again only after it has worked in that import
  (or was typed and verified just before), a refused one is the last command, and so is a command that the key answers with
  a wrong PIN: no second attempt is spent on a PIN the key has refused.\<close>

theorem token2_pin_attempts:
  "case run_import f p (token2_store (watched io) pin) (token2_store_new pin verified (s, [])) of
     (rep, (proven, (s', evs)), told) \<Rightarrow> pin_safe pin (pin \<noteq> None \<and> verified) evs"
proof -
  obtain r q s' evs told where r: "run_rows f p (token2_store (watched io) pin) (length (plan_writes p)) 0 (plan_writes p) None
      (pin \<noteq> None \<and> verified, (s, [])) = (r, (q, (s', evs)), told)"
    by (metis prod.collapse)
  with run_rows_pin [OF r] show ?thesis by (simp add: run_import_def token2_store_new_def split: prod.splits)
qed

end
