(* ===== verification/Import_Flow.thy ===== *)
theory Import_Flow
  imports Import_Migration Import_Store
begin

text \<open>
  From the text of a file to the commands: what every reader of \<open>Import_Entry\<close> and
  \<open>Import_Migration\<close> gives is an entry within the bounds the plan and the stores rest on, so a plan made
  from a file that was read can be sent.
\<close>

definition entry_typed :: "import_entry \<Rightarrow> bool" where
  "entry_typed e \<longleftrightarrow> entry_sound e \<and> length (ie_secret e) \<le> MAX_SECRET_BYTES \<and> 1 \<le> ie_digits e \<and> ie_digits e \<le> 10"

definition outcome_typed :: "(import_entry, unusable) result \<Rightarrow> bool" where
  "outcome_typed r = (case r of Ok e \<Rightarrow> entry_typed e | Err _ \<Rightarrow> True)"

definition items_typed :: "import_item list \<Rightarrow> bool" where
  "items_typed items \<longleftrightarrow> list_all (\<lambda>i. outcome_typed (it_entry i)) items \<and> length items \<le> MAX_ENTRIES"

lemma outcome_typed_Err [simp]: "outcome_typed (Err e)"
  by (simp add: outcome_typed_def)

lemma outcome_typed_bind:
  assumes "\<And>x. r = Ok x \<Longrightarrow> outcome_typed (f x)"
  shows "outcome_typed (bind_result r f)"
  using assms by (cases r) simp_all

lemma non_empty_some: "non_empty x \<noteq> Some []"
  by (simp add: non_empty_def split: option.splits)

lemma small_digits: "1 \<le> d \<Longrightarrow> d \<le> 10 \<Longrightarrow> 1 \<le> (ucast (d :: u32) :: byte) \<and> (ucast d :: byte) \<le> 10"
  by (simp add: word_le_nat_alt unsigned_ucast_eq take_bit_eq_mod)

lemma finish_typed:
  assumes "check_secret secret = Ok s"
  shows "outcome_typed (finish_entry issuer account secret hash digits kind)"
proof -
  have "secret \<noteq> []" "length secret \<le> MAX_SECRET_BYTES" using assms by (auto simp: check_secret_def split: if_splits)
  then show ?thesis using small_digits [of digits] non_empty_some [of issuer] non_empty_some [of account]
    by (auto simp: finish_entry_def outcome_typed_def entry_typed_def entry_sound_def well_formed_def)
qed

lemma check_secret_same: "check_secret s = Ok r \<Longrightarrow> r = s"
  by (simp add: check_secret_def split: if_splits)

lemma decode_secret_checked: "decode_secret b = Ok s \<Longrightarrow> check_secret s = Ok s"
  by (auto simp: decode_secret_def check_secret_def split: result.splits if_splits)

lemma wide_entry_of_typed: "outcome_typed (wide_entry_of typ issuer account st)"
  unfolding wide_entry_of_def
  by (intro outcome_typed_bind)
    (auto split: option.split intro!: outcome_typed_bind finish_typed dest: decode_secret_checked)

lemma uri_typed: "outcome_typed (snd (parse_entry_labeled uri))"
  using wide_entry_of_typed
  by (auto simp: parse_entry_labeled_def Let_def split: result.splits split_error.splits option.splits prod.splits)

lemma wide_of_typed: "outcome_typed (wide_of p)"
  unfolding wide_of_def
  by (intro outcome_typed_bind) (metis check_secret_same finish_typed)

lemma json_typed: "outcome_typed (wide_entry typ issuer account b32 algo digits period counter)"
  unfolding wide_entry_def
  by (intro outcome_typed_bind) (metis decode_secret_checked finish_typed)

lemma message_loop_inv:
  assumes "message_loop pre step st s = Ok st'" "holds_of st"
    and "\<And>f w v r r' st st'. holds_of st \<Longrightarrow> pre f w st = None \<Longrightarrow> reader_value w r = Ok (v, r') \<Longrightarrow> step f v st = Ok st' \<Longrightarrow> holds_of st'"
  shows "holds_of st'"
  using assms(1,2)
proof (induction s arbitrary: st rule: length_induct)
  case (1 s)
  show ?case
  proof (cases "\<exists>f w r. reader_key s = Ok (Some (f, w), r)")
    case True
    then obtain f w r where k: "reader_key s = Ok (Some (f, w), r)" by blast
    with "1.prems"(1) obtain v r' st1 where v: "pre f w st = None" "reader_value w r = Ok (v, r')" "step f v st = Ok st1"
      "message_loop pre step st1 r' = Ok st'"
      by (auto simp: message_loop.simps [of _ _ _ s] split: option.splits result.splits)
    have "length r' < length s" using reader_key_rest [OF k] reader_value_rest [OF v(2)] by simp
    with "1.IH" v(4) assms(3) [OF "1.prems"(2) v(1-3)] show ?thesis by blast
  next
    case False
    with "1.prems" show ?thesis by (auto simp: message_loop.simps [of _ _ _ s] split: result.splits option.splits)
  qed
qed

lemma wire_bytes: "reader_value w r = Ok (WBytes b, r') \<Longrightarrow> w = 2"
  by (auto simp: reader_value_def split: if_splits)

lemma payload_step_typed:
  assumes "items_typed (ps_items st)" "wide_room f w st = None" "reader_value w r = Ok (v, r')" "payload_field wide_item f v st = Ok st'"
  shows "items_typed (ps_items st')"
proof (cases v)
  case (WBytes b)
  then have "w = 2" using wire_bytes assms(3) by blast
  with assms WBytes show ?thesis using wide_of_typed
    by (auto simp: items_typed_def wide_room_def wide_item_def convert_wide_def split: if_splits)
qed (use assms in \<open>auto split: if_splits\<close>)

lemma migration_typed:
  assumes "migration_parse_wide uri = Ok f"
  shows "items_typed (if_items f) \<and> if_items f \<noteq> []"
proof -
  obtain buf where b: "parse_payload_wide buf = Ok f" using assms by (auto simp: migration_parse_wide_def)
  then obtain st where st: "message_loop wide_room (payload_field wide_item) payload_start buf = Ok st" "if_items f = ps_items st"
    "ps_items st \<noteq> []"
    by (auto simp: parse_payload_wide_def split: if_splits)
  have "items_typed (ps_items (payload_start :: import_item payload_state))" by (simp add: items_typed_def payload_start_def)
  then have "items_typed (ps_items st)"
    by (rule message_loop_inv [where holds_of = "\<lambda>st. items_typed (ps_items st)", OF st(1)]) (rule payload_step_typed)
  with st show ?thesis by simp
qed

lemma wide_lines_typed:
  "wide_lines ls items batch = Ok (items', batch') \<Longrightarrow> items_typed items \<Longrightarrow> items_typed items'"
proof (induction ls items batch arbitrary: items' batch' rule: wide_lines.induct)
  case (2 i line ls items batch)
  show ?case
  proof (cases "is_migration_uri line")
    case True
    show ?thesis
    proof (cases "migration_parse_wide line")
      case (Ok f)
      have "items_typed (items @ map (\<lambda>item. item\<lparr>it_index := i\<rparr>) (if_items f))"
        if "\<not> MAX_ENTRIES < length items + length (if_items f)"
        using that "2.prems"(2) migration_typed [OF Ok] by (auto simp: items_typed_def list_all_iff)
      with 2 True Ok show ?thesis by (auto split: if_splits)
    next
      case (Err e)
      have "items_typed (items @ [\<lparr>it_index = i, it_label = line_label i,
          it_entry = Err (MalformedEntry ''the Google Authenticator export couldn't be read'')\<rparr>])" if "\<not> MAX_ENTRIES \<le> length items"
        using that "2.prems"(2) by (auto simp: items_typed_def)
      with 2 True Err show ?thesis by (auto split: if_splits)
    qed
  next
    case False
    obtain name entry where p: "parse_entry_labeled line = (name, entry)" by fastforce
    with uri_typed [of line] have "items_typed (items @ [\<lparr>it_index = i, it_label = (case name of Some n \<Rightarrow> n | None \<Rightarrow> line_label i),
          it_entry = entry\<rparr>])" if "\<not> MAX_ENTRIES \<le> length items"
      using that "2.prems"(2) by (auto simp: items_typed_def)
    with 2 False p show ?thesis by (auto split: if_splits)
  qed
qed simp

text \<open>All codes of a migration line have the number of that line for an index, so the write loop takes the first
  of them for each (\<open>shared_index_first_seed\<close>).\<close>

lemma migration_line_index:
  "is_migration_uri line \<Longrightarrow> wide_lines [(i, line)] [] None = Ok (items, batch) \<Longrightarrow> list_all (\<lambda>it. it_index it = i) items"
  by (auto simp: list_all_iff split: result.splits if_splits)

lemma list_typed:
  assumes "parse_list_wide s = Ok f"
  shows "items_typed (if_items f) \<and> if_items f \<noteq> []"
proof -
  obtain items batch where "wide_lines (entry_lines s) [] None = Ok (items, batch)" "if_items f = items" "items \<noteq> []"
    using assms by (auto simp: parse_list_wide_def split: if_splits)
  moreover have "items_typed []" by (simp add: items_typed_def)
  ultimately show ?thesis using wide_lines_typed by blast
qed

subsection \<open>Properties\<close>

text \<open>C24: what the readers give.  Every entry of a file read by the list reader or the migration reader, of one URI or of the
  fields of a JSON export is well formed: no empty issuer or account, a period that is not zero, 1 to 10 digits and a secret
  of 1 to 255 bytes; and a file has at least one item and at most 1000.\<close>

theorem readers_typed:
  "(case parse_list_wide s of Ok f \<Rightarrow> items_typed (if_items f) \<and> if_items f \<noteq> [] | Err _ \<Rightarrow> True)
   \<and> (case migration_parse_wide uri of Ok f \<Rightarrow> items_typed (if_items f) \<and> if_items f \<noteq> [] | Err _ \<Rightarrow> True)
   \<and> outcome_typed (parse_entry uri)
   \<and> outcome_typed (wide_entry typ issuer account b32 algo digits period counter)"
  using list_typed migration_typed uri_typed json_typed by (auto simp: parse_entry_def split: result.splits)


lemma demo_lines:
  "entry_lines (ascii ''otpauth://totp/b?secret=MY'') = [(0, ascii ''otpauth://totp/b?secret=MY'')]"
proof -
  let ?s = "ascii ''otpauth://totp/b?secret=MY''"
  have "str_trim ?s = ?s" by (rule str_trim_ascii) (simp_all add: ascii_def is_whitespace_def)
  moreover have "str_lines ?s = [?s]"
  proof -
    have "split_on 0x0a ?s = [?s]" by (rule split_on_none) (simp add: ascii_def)
    then show ?thesis by (simp add: str_lines_def) (simp add: ascii_def)
  qed
  moreover have "?s \<noteq> []" "hd ?s \<noteq> 0x23" by (simp_all add: ascii_def)
  ultimately show ?thesis by (simp add: entry_lines_def)
qed

lemma demo_list: "\<exists>f. parse_list_wide (ascii ''otpauth://totp/b?secret=MY'') = Ok f"
proof -
  have m: "\<not> is_migration_uri (ascii ''otpauth://totp/b?secret=MY'')" using otpauth_not_migration [OF demo_uri] .
  show ?thesis
    by (auto simp: parse_list_wide_def demo_lines m MAX_ENTRIES_def split: prod.split)
qed


end
