(* ===== verification/Pgp_Tlv.thy ===== *)
theory Pgp_Tlv
  imports Prelude "HOL-Library.Sublist"
begin

text \<open>
  \<^verbatim>\<open>crates/keyroost-openpgp/src/lib.rs\<close>, the data objects of the OpenPGP card: BER-TLV with
  one- and two-byte tags and lengths of one to three bytes.  The writers (\<open>pgp_ber_tlv\<close>), the reader
  of a sequence of objects (\<open>pgp_parse_tlvs\<close>), and the search through constructed objects
  (\<open>find_nested\<close>).  A byte index past the end of the buffer is the error
  \<^verbatim>\<open>Truncated\<close>, as \<^verbatim>\<open>buf.get(i).ok_or(..)\<close> gives it.
\<close>

datatype pgp_parse_error =
    PgpTruncated
  | PgpBadTag
  | PgpUnexpectedLength
  | PgpMissingTag u16
  | PgpUnsupportedAlgorithm

subsection \<open>Writing\<close>

definition minimal_be :: "nat \<Rightarrow> bytes" where
  "minimal_be n =
     (if n = 0 then [0x00]
      else (let all_bytes = be_bytes 8 n in
            case dropWhile (\<lambda>b. b = 0) all_bytes of [] \<Rightarrow> drop 7 all_bytes | rest \<Rightarrow> rest))"

definition ber_len :: "nat \<Rightarrow> bytes" where
  "ber_len len =
     (if len < 0x80 then [word_of_nat len]
      else (let value = minimal_be len in (0x80 OR word_of_nat (length value)) # value))"

definition pgp_ber_tlv :: "u16 \<Rightarrow> bytes \<Rightarrow> bytes" where
  "pgp_ber_tlv tag value =
     (if 0xFF < tag then [ucast (drop_bit 8 tag), ucast (tag AND 0xFF)] else [ucast tag])
       @ ber_len (length value) @ value"

subsection \<open>Reading\<close>

text \<open>One object: its tag in 16 bits, whether it is constructed, and its value.\<close>

record pgp_tlv =
  t_tag :: u16
  t_constructed :: bool
  t_value :: bytes

definition byte_at :: "bytes \<Rightarrow> nat \<Rightarrow> (byte, pgp_parse_error) result" where
  "byte_at buf i = (if i < length buf then Ok (buf ! i) else Err PgpTruncated)"

definition read_tag :: "bytes \<Rightarrow> nat \<Rightarrow> (u16 \<times> nat, pgp_parse_error) result" where
  "read_tag buf i =
     bind_result (byte_at buf i) (\<lambda>first.
       if first AND 0x1F \<noteq> 0x1F then Ok (ucast first, 1)
       else bind_result (byte_at buf (i + 1)) (\<lambda>second.
         if second AND 0x80 \<noteq> 0 then Err PgpBadTag
         else Ok (push_bit 8 (ucast first) OR ucast second, 2)))"

definition read_len :: "bytes \<Rightarrow> nat \<Rightarrow> (nat \<times> nat, pgp_parse_error) result" where
  "read_len buf i =
     bind_result (byte_at buf i) (\<lambda>first.
       if first AND 0x80 = 0 then Ok (unat first, 1)
       else if first = 0x81 then
         bind_result (byte_at buf (i + 1)) (\<lambda>n. Ok (unat n, 2))
       else if first = 0x82 then
         bind_result (byte_at buf (i + 1)) (\<lambda>hi.
         bind_result (byte_at buf (i + 2)) (\<lambda>lo.
           Ok (push_bit 8 (unat hi) OR unat lo, 3)))
       else Err PgpUnexpectedLength)"

text \<open>One turn of the loop of \<^verbatim>\<open>parse_tlvs\<close>: the object at \<open>i\<close> and where
  the next one starts.\<close>

definition read_object :: "bytes \<Rightarrow> nat \<Rightarrow> (pgp_tlv \<times> nat, pgp_parse_error) result" where
  "read_object buf i =
     bind_result (read_tag buf i) (\<lambda>(tag, tag_len).
     bind_result (read_len buf (i + tag_len)) (\<lambda>(len, len_len).
     bind_result (ok_or PgpTruncated
         (Option.bind (checked_add_usize i tag_len) (\<lambda>v. checked_add_usize v len_len))) (\<lambda>start.
     bind_result (ok_or PgpTruncated (checked_add_usize start len)) (\<lambda>ending.
       if length buf < ending then Err PgpTruncated
       else Ok (\<lparr>t_tag = tag, t_constructed = (buf ! i AND 0x20 \<noteq> 0), t_value = take len (drop start buf)\<rparr>,
                ending)))))"

lemma read_len_pos: "read_len buf i = Ok (len, n) \<Longrightarrow> 0 < n"
  by (auto simp: read_len_def split: if_splits)

lemma read_tag_pos: "read_tag buf i = Ok (t, n) \<Longrightarrow> 0 < n"
  by (auto simp: read_tag_def split: if_splits)

lemma read_object_advances: "read_object buf i = Ok (t, j) \<Longrightarrow> i < j \<and> j \<le> length buf"
  by (auto simp: read_object_def Option.bind_eq_Some_conv dest: read_len_pos read_tag_pos split: if_splits)

function parse_from :: "bytes \<Rightarrow> nat \<Rightarrow> (pgp_tlv list, pgp_parse_error) result" where
  "parse_from buf i =
     (if i < length buf then
        (case read_object buf i of
           Err e \<Rightarrow> Err e
         | Ok (t, j) \<Rightarrow> bind_result (parse_from buf j) (\<lambda>ts. Ok (t # ts)))
      else Ok [])"
  by pat_completeness auto
termination
  by (relation "measure (\<lambda>(buf, i). length buf - i)") (auto dest: read_object_advances)

declare parse_from.simps [simp del]

definition pgp_parse_tlvs :: "bytes \<Rightarrow> (pgp_tlv list, pgp_parse_error) result" where
  "pgp_parse_tlvs buf = parse_from buf 0"

definition pgp_find_tag :: "pgp_tlv list \<Rightarrow> u16 \<Rightarrow> bytes option" where
  "pgp_find_tag tlvs tag = map_option t_value (find (\<lambda>t. t_tag t = tag) tlvs)"

definition NEST_DEPTH_LIMIT :: nat where "NEST_DEPTH_LIMIT = 16"

text \<open>The search counts the levels left, \<open>NEST_DEPTH_LIMIT - depth\<close>.\<close>

fun find_nested_within :: "nat \<Rightarrow> pgp_tlv list \<Rightarrow> u16 \<Rightarrow> bytes option" where
  "find_nested_within 0 tlvs tag = None"
| "find_nested_within (Suc levels) [] tag = None"
| "find_nested_within (Suc levels) (t # tlvs) tag =
     (if t_tag t = tag then Some (t_value t)
      else
        (case (if t_constructed t then
                 (case pgp_parse_tlvs (t_value t) of
                    Ok children \<Rightarrow> find_nested_within levels children tag
                  | Err _ \<Rightarrow> None)
               else None) of
           Some found \<Rightarrow> Some found
         | None \<Rightarrow> find_nested_within (Suc levels) tlvs tag))"

definition find_nested :: "pgp_tlv list \<Rightarrow> u16 \<Rightarrow> bytes option" where
  "find_nested tlvs tag = find_nested_within NEST_DEPTH_LIMIT tlvs tag"

subsection \<open>What the writer emits\<close>

text \<open>The tags the reader understands: one byte whose low five bits are not all set, or two
  bytes, the first with those bits set and the second below \<open>0x80\<close>.\<close>

definition tag_ok :: "u16 \<Rightarrow> bool" where
  "tag_ok t \<longleftrightarrow>
     (if 0xFF < t then drop_bit 8 t AND 0x1F = 0x1F \<and> t AND 0x80 = 0 else t AND 0x1F \<noteq> 0x1F)"

text \<open>The bit of the first tag byte that marks a constructed object.\<close>

definition tag_constructed :: "u16 \<Rightarrow> bool" where
  "tag_constructed t \<longleftrightarrow> (if 0xFF < t then bit t 13 else bit t 5)"

definition tlv_of :: "u16 \<Rightarrow> bytes \<Rightarrow> pgp_tlv" where
  "tlv_of t v = \<lparr>t_tag = t, t_constructed = tag_constructed t, t_value = v\<rparr>"

lemma dropWhile_be_bytes:
  "n < 256 ^ k \<Longrightarrow> k \<le> m \<Longrightarrow> dropWhile (\<lambda>b. b = 0) (be_bytes m n) = dropWhile (\<lambda>b. b = 0) (be_bytes k n)"
proof (induction m)
  case (Suc m)
  show ?case
  proof (cases "k = Suc m")
    case False
    with Suc.prems have "k \<le> m" by simp
    then have "(256 :: nat) ^ k \<le> 256 ^ m" by (simp add: power_increasing)
    with Suc.prems(1) have "n < 256 ^ m" by (rule less_le_trans)
    then have "n div 256 ^ m = 0" by simp
    with Suc.IH [OF Suc.prems(1) \<open>k \<le> m\<close>] show ?thesis by simp
  qed simp
qed simp

lemma byte_of_nat_zero: "n < 256 \<Longrightarrow> (word_of_nat n :: byte) = 0 \<longleftrightarrow> n = 0"
  by (simp add: word_unat_eq_iff)

lemma minimal_be_one: "0 < n \<Longrightarrow> n < 256 \<Longrightarrow> minimal_be n = [word_of_nat n]"
  using dropWhile_be_bytes [of n 1 8] by (simp add: minimal_be_def Let_def byte_of_nat_zero)

lemma minimal_be_two:
  "256 \<le> n \<Longrightarrow> n < 65536 \<Longrightarrow> minimal_be n = [word_of_nat (n div 256), word_of_nat n]"
  using dropWhile_be_bytes [of n 2 8] by (simp add: minimal_be_def Let_def byte_of_nat_zero numeral_2_eq_2)

lemma ber_len_cases:
  assumes "len < 65536"
  shows "ber_len len =
    (if len < 0x80 then [word_of_nat len]
     else if len < 256 then [0x81, word_of_nat len]
     else [0x82, word_of_nat (len div 256), word_of_nat len])"
  using assms by (simp add: ber_len_def minimal_be_one minimal_be_two Let_def)

lemma short_len_bit: "len < 0x80 \<Longrightarrow> (word_of_nat len :: byte) AND 0x80 = 0"
proof -
  assume "len < 0x80"
  then have "\<not> bit len 7" by (simp add: bit_iff_odd)
  then show ?thesis
    using and_exp_eq_0_iff_not_bit [of "word_of_nat len :: byte" 7] by (simp add: bit_of_nat_iff)
qed

lemma byte_at_append [simp]:
  "byte_at (xs @ ys) (length xs + k) = byte_at ys k"
  "byte_at (xs @ ys) (length xs) = byte_at ys 0"
  by (auto simp: byte_at_def nth_append)

lemma byte_at_Cons [simp]:
  "byte_at (x # xs) 0 = Ok x" "byte_at (x # xs) (Suc i) = byte_at xs i" "byte_at [] i = Err PgpTruncated"
  by (simp_all add: byte_at_def)

lemma byte_at_numeral [simp]: "byte_at (x # xs) (numeral n) = byte_at xs (pred_numeral n)"
  by (simp add: numeral_eq_Suc)

lemma read_len_ber_len:
  "len < 65536 \<Longrightarrow> read_len (ber_len len @ rest) 0 = Ok (len, length (ber_len len))"
proof -
  assume len: "len < 65536"
  consider "len < 0x80" | "0x80 \<le> len" "len < 256" | "256 \<le> len" by linarith
  then show ?thesis
  proof cases
    case 1
    with short_len_bit [of len] show ?thesis by (simp add: ber_len_def read_len_def)
  next
    case 2
    with len show ?thesis by (simp add: ber_len_cases read_len_def)
  next
    case 3
    with len have "push_bit 8 (len div 256 mod 256) OR len mod 256 = len"
      by (simp add: push_or_add [of _ 8, simplified])
    with 3 len show ?thesis by (simp add: ber_len_cases read_len_def)
  qed
qed

lemma high_tag_byte: "0xFF < (t :: u16) \<Longrightarrow> drop_bit 8 t AND 0x1F = 0x1F \<Longrightarrow> (ucast (drop_bit 8 t) :: byte) AND 0x1F = 0x1F"
proof -
  assume h: "drop_bit 8 t AND 0x1F = 0x1F"
  have "(ucast (drop_bit 8 t) :: byte) AND 0x1F = ucast (drop_bit 8 t AND 0x1F)"
    by (rule bit_word_eqI) (auto simp: bit_simps)
  then show ?thesis by (simp add: h)
qed

lemma low_byte16: "(ucast (t AND 0xFF :: u16) :: byte) = ucast t"
proof -
  have m: "(0xFF :: u16) = mask 8" by (simp add: mask_eq_exp_minus_1)
  show ?thesis unfolding m by (rule bit_word_eqI) (auto simp: bit_simps)
qed

text \<open>The bytes of a tag.\<close>

definition tag_bytes :: "u16 \<Rightarrow> bytes" where
  "tag_bytes t = (if 0xFF < t then [ucast (drop_bit 8 t), ucast t] else [ucast t])"

lemma pgp_ber_tlv_eq: "pgp_ber_tlv t v = tag_bytes t @ ber_len (length v) @ v"
  by (simp add: pgp_ber_tlv_def tag_bytes_def low_byte16)

lemma read_tag_bytes:
  assumes "tag_ok t"
  shows "read_tag (tag_bytes t @ rest) 0 = Ok (t, length (tag_bytes t))"
proof (cases "0xFF < t")
  case True
  with assms have h: "drop_bit 8 t AND 0x1F = 0x1F" and l: "t AND 0x80 = 0" by (simp_all add: tag_ok_def)
  have b: "(ucast (drop_bit 8 t) :: byte) AND 0x1F = 0x1F" using True h by (rule high_tag_byte)
  have "(ucast t :: byte) AND 0x80 = ucast (t AND 0x80)"
    by (rule bit_word_eqI) (auto simp: bit_simps)
  with l have c: "(ucast t :: byte) AND 0x80 = 0" by simp
  have d: "push_bit 8 (ucast (ucast (drop_bit 8 t) :: byte)) OR ucast (ucast t :: byte) = t"
    by (rule bit_word_eqI) (auto simp: bit_simps)
  show ?thesis using True b c d by (simp add: tag_bytes_def read_tag_def)
next
  case False
  with assms have l: "t AND 0x1F \<noteq> 0x1F" by (simp add: tag_ok_def)
  have u: "ucast (ucast t :: byte) = t"
    using False by (intro ucast_ucast_small) (simp add: word_less_nat_alt)
  have m: "(0x1F :: u16) = mask 5" "(0x1F :: byte) = mask 5" by (simp_all add: mask_eq_exp_minus_1)
  have "(ucast ((ucast t :: byte) AND 0x1F) :: u16) = t AND 0x1F"
    unfolding m by (rule bit_word_eqI) (auto simp: bit_simps)
  with l have "(ucast t :: byte) AND 0x1F \<noteq> 0x1F" by fastforce
  with False u show ?thesis by (simp add: tag_bytes_def read_tag_def)
qed

lemma read_tag_append: "read_tag (xs @ ys) (length xs) = read_tag ys 0"
  using byte_at_append(1) [of xs ys 1] byte_at_append(2) [of xs ys]
  unfolding read_tag_def add_0 by (simp only:)

lemma read_len_append: "read_len (xs @ ys) (length xs + k) = read_len ys k"
  unfolding read_len_def add.assoc byte_at_append by (rule refl)

lemma read_len_at: "read_len (xs @ ys) (length xs) = read_len ys 0"
  using read_len_append [of xs ys 0] by simp

lemma tag_bytes_length: "0 < length (tag_bytes t) \<and> length (tag_bytes t) \<le> 2"
  by (simp add: tag_bytes_def)

lemma length_ber_len: "len < 65536 \<Longrightarrow> length (ber_len len) \<le> 3"
  by (simp add: ber_len_cases)

lemma tag_bytes_constructed: "(tag_bytes t ! 0 AND 0x20 \<noteq> 0) = tag_constructed t"
  using and_exp_eq_0_iff_not_bit [of "tag_bytes t ! 0" 5]
  by (auto simp: tag_bytes_def tag_constructed_def bit_simps)

lemma read_object_ber_tlv:
  assumes "tag_ok t" "length v < 65536"
  shows "read_object (pgp_ber_tlv t v @ rest) 0 = Ok (tlv_of t v, length (pgp_ber_tlv t v))"
proof -
  have r: "read_tag (pgp_ber_tlv t v @ rest) 0 = Ok (t, length (tag_bytes t))"
    using read_tag_bytes [OF assms(1), of "ber_len (length v) @ v @ rest"] by (simp add: pgp_ber_tlv_eq)
  have l: "read_len (pgp_ber_tlv t v @ rest) (length (tag_bytes t)) = Ok (length v, length (ber_len (length v)))"
    using read_len_ber_len [OF assms(2), of "v @ rest"] by (simp add: pgp_ber_tlv_eq read_len_at)
  have n: "length (tag_bytes t) + length (ber_len (length v)) + length v < usize_limit"
    using tag_bytes_length [of t] length_ber_len [OF assms(2)] assms(2) by (simp add: usize_limit_def)
  have b: "(pgp_ber_tlv t v @ rest) ! 0 = tag_bytes t ! 0"
    using tag_bytes_length [of t] by (simp add: pgp_ber_tlv_eq nth_append)
  show ?thesis
    using n unfolding read_object_def r bind_result.simps prod.case add_0 l
    by (simp add: checked_add_usize_def b tag_bytes_constructed del: bind_result_eq_Ok)
       (simp add: tlv_of_def pgp_ber_tlv_eq)
qed

text \<open>The element after a prefix is read as if it stood at the start.\<close>

lemma read_object_append:
  assumes "length (xs @ ys) < usize_limit" "ys \<noteq> []"
  shows "read_object (xs @ ys) (length xs) = (case read_object ys 0 of
    Ok (t, j) \<Rightarrow> Ok (t, length xs + j) | Err e \<Rightarrow> Err e)"
proof (cases "read_tag ys 0")
  case (Err e)
  then show ?thesis by (simp add: read_object_def read_tag_append)
next
  case t: (Ok p)
  obtain tag n where p: "p = (tag, n)" by (cases p)
  show ?thesis
  proof (cases "read_len ys n")
    case (Err e)
    with t p show ?thesis by (simp add: read_object_def read_tag_append read_len_append)
  next
    case l: (Ok q)
    obtain len m where q: "q = (len, m)" by (cases q)
    have hd: "(xs @ ys) ! length xs = ys ! 0" using assms(2) by (simp add: nth_append)
    show ?thesis
      using assms(1) unfolding read_object_def read_tag_append t p bind_result.simps prod.case read_len_append l q add_0 hd
      by (auto simp: checked_add_usize_def ac_simps)
  qed
qed

lemma parse_from_append:
  "length (xs @ ys) < usize_limit \<Longrightarrow> parse_from (xs @ ys) (length xs) = pgp_parse_tlvs ys"
proof (induction "length ys" arbitrary: xs ys rule: less_induct)
  case less
  show ?case
  proof (cases "ys = []")
    case True
    then show ?thesis by (simp add: pgp_parse_tlvs_def parse_from.simps)
  next
    case False
    note step = read_object_append [OF less.prems False]
    show ?thesis
    proof (cases "read_object ys 0")
      case (Err e)
      with step False show ?thesis
        by (subst parse_from.simps) (simp add: pgp_parse_tlvs_def parse_from.simps [of ys 0])
    next
      case (Ok p)
      obtain t j where p: "p = (t, j)" by (cases p)
      have j: "0 < j" "j \<le> length ys" using read_object_advances [of ys 0 t j] Ok p by auto
      have one: "parse_from ys j = pgp_parse_tlvs (drop j ys)"
        using less.hyps [of "drop j ys" "take j ys"] less.prems j False by simp
      have two: "parse_from (xs @ ys) (length xs + j) = pgp_parse_tlvs (drop j ys)"
        using less.hyps [of "drop j ys" "xs @ take j ys"] less.prems j False by simp
      show ?thesis
        using False step Ok p one two
        by (subst parse_from.simps) (simp add: pgp_parse_tlvs_def parse_from.simps [of ys 0])
    qed
  qed
qed

lemma parse_tlvs_step:
  assumes "read_object ys 0 = Ok (t, j)" "length ys < usize_limit"
  shows "pgp_parse_tlvs ys = bind_result (pgp_parse_tlvs (drop j ys)) (\<lambda>ts. Ok (t # ts))"
proof -
  have j: "0 < j" "j \<le> length ys" using read_object_advances [OF assms(1)] by auto
  then have "parse_from ys j = pgp_parse_tlvs (drop j ys)"
    using parse_from_append [of "take j ys" "drop j ys"] assms(2) by simp
  moreover have "ys \<noteq> []" using j by auto
  ultimately show ?thesis
    using assms(1) by (simp add: pgp_parse_tlvs_def parse_from.simps [of ys 0])
qed

lemma parse_tlvs_Nil [simp]: "pgp_parse_tlvs [] = Ok []"
  by (simp add: pgp_parse_tlvs_def parse_from.simps)

lemma parse_tlvs_Cons:
  assumes "tag_ok t" "length v < 65536" "length (pgp_ber_tlv t v @ rest) < usize_limit"
  shows "pgp_parse_tlvs (pgp_ber_tlv t v @ rest)
    = bind_result (pgp_parse_tlvs rest) (\<lambda>ts. Ok (tlv_of t v # ts))"
  using parse_tlvs_step [OF read_object_ber_tlv [OF assms(1,2)] assms(3)] by simp

theorem tlv_sequence_roundtrip:
  "\<lbrakk>list_all (\<lambda>(t, v). tag_ok t \<and> length v < 65536) objs;
    length (concat (map (\<lambda>(t, v). pgp_ber_tlv t v) objs)) < usize_limit\<rbrakk> \<Longrightarrow>
   pgp_parse_tlvs (concat (map (\<lambda>(t, v). pgp_ber_tlv t v) objs)) = Ok (map (\<lambda>(t, v). tlv_of t v) objs)"
proof (induction objs)
  case (Cons o' objs)
  then show ?case by (cases o') (auto simp: parse_tlvs_Cons)
qed simp

subsection \<open>What the reader accepts\<close>

lemma read_object_span:
  assumes "read_object buf i = Ok (t, j)"
  shows "\<exists>h. 2 \<le> length h \<and> length h \<le> 5 \<and> drop i buf = h @ t_value t @ drop j buf"
proof -
  obtain tag n len m where r: "read_tag buf i = Ok (tag, n)" "read_len buf (i + n) = Ok (len, m)"
      and t: "t_value t = take len (drop (i + n + m) buf)" "j = i + n + m + len" "j \<le> length buf"
    using assms by (auto simp: read_object_def Option.bind_eq_Some_conv split: if_splits)
  have n: "0 < n" "n \<le> 2" "0 < m" "m \<le> 3"
    using r by (auto simp: read_tag_def read_len_def split: if_splits)
  have "drop i buf = take (n + m) (drop i buf) @ t_value t @ drop j buf"
    using t by (metis add.assoc append_take_drop_id drop_drop add.commute)
  then show ?thesis
    using n t by (intro exI [of _ "take (n + m) (drop i buf)"]) simp
qed

text \<open>An accepted buffer is its objects in order, each behind a header of two to five bytes,
  with nothing left over.\<close>

lemma parse_from_exact:
  "parse_from buf i = Ok ts \<Longrightarrow>
    \<exists>hs. list_all2 (\<lambda>h t. 2 \<le> length h \<and> length h \<le> 5) hs ts
       \<and> drop i buf = concat (map2 (\<lambda>h t. h @ t_value t) hs ts)"
proof (induction buf i arbitrary: ts rule: parse_from.induct)
  case (1 buf i)
  show ?case
  proof (cases "i < length buf")
    case True
    then obtain t j ts' where r: "read_object buf i = Ok (t, j)" "parse_from buf j = Ok ts'" "ts = t # ts'"
      using "1.prems" by (subst (asm) parse_from.simps) (auto split: result.splits)
    from "1.IH" [OF True r(1) refl r(2)] obtain hs where
      hs: "list_all2 (\<lambda>h t. 2 \<le> length h \<and> length h \<le> 5) hs ts'"
        "drop j buf = concat (map2 (\<lambda>h t. h @ t_value t) hs ts')" by blast
    from read_object_span [OF r(1)] obtain h where
      "2 \<le> length h" "length h \<le> 5" "drop i buf = h @ t_value t @ drop j buf" by blast
    with hs r(3) show ?thesis by (intro exI [of _ "h # hs"]) simp
  next
    case False
    with "1.prems" show ?thesis by (subst (asm) parse_from.simps) simp
  qed
qed

lemma parsed_values_sublist:
  assumes "list_all2 P hs ts" "t \<in> set ts"
  shows "sublist (t_value t) (concat (map2 (\<lambda>h t. h @ t_value t) hs ts))"
  using assms
proof (induction rule: list_all2_induct)
  case (Cons h hs t' ts)
  show ?case
  proof (cases "t = t'")
    case True
    then show ?thesis by (auto simp: sublist_def)
  next
    case False
    with Cons have "sublist (t_value t) (concat (map2 (\<lambda>h t. h @ t_value t) hs ts))" by simp
    then obtain a b where "concat (map2 (\<lambda>h t. h @ t_value t) hs ts) = a @ t_value t @ b"
      by (auto simp: sublist_def)
    then show ?thesis
      by (simp add: sublist_def) (metis append.assoc)
  qed
qed simp

lemma parse_tlvs_sublist:
  "pgp_parse_tlvs buf = Ok ts \<Longrightarrow> t \<in> set ts \<Longrightarrow> sublist (t_value t) buf"
  unfolding pgp_parse_tlvs_def by (drule parse_from_exact) (auto dest: parsed_values_sublist)

lemma find_tag_in: "pgp_find_tag ts tag = Some v \<Longrightarrow> \<exists>t\<in>set ts. t_value t = v \<and> t_tag t = tag"
  by (auto simp: pgp_find_tag_def find_Some_iff)

lemma find_nested_within_sublist:
  "find_nested_within k ts tag = Some v \<Longrightarrow> \<exists>t\<in>set ts. sublist v (t_value t)"
proof (induction k ts tag rule: find_nested_within.induct)
  case (3 levels t tlvs tag)
  show ?case
  proof (cases "t_tag t = tag")
    case False
    note tag = this
    show ?thesis
    proof (cases "\<exists>children. t_constructed t \<and> pgp_parse_tlvs (t_value t) = Ok children
        \<and> find_nested_within levels children tag = Some v")
      case True
      then obtain children where c: "t_constructed t" "pgp_parse_tlvs (t_value t) = Ok children"
        "find_nested_within levels children tag = Some v" by blast
      from "3.IH"(1) [OF tag c(1,2,3)] obtain c' where "c' \<in> set children" "sublist v (t_value c')" by blast
      with parse_tlvs_sublist [OF c(2)] show ?thesis
        by (auto intro: sublist_order.order_trans)
    next
      case no: False
      with tag "3.prems" have "find_nested_within (Suc levels) tlvs tag = Some v"
        by (auto split: if_splits option.splits result.splits)
      moreover have "(case (if t_constructed t then
                 (case pgp_parse_tlvs (t_value t) of
                    Ok children \<Rightarrow> find_nested_within levels children tag
                  | Err _ \<Rightarrow> None)
               else None) of Some _ \<Rightarrow> False | None \<Rightarrow> True)"
        using no tag "3.prems" by (auto split: if_splits option.splits result.splits)
      ultimately show ?thesis using "3.IH"(2) [OF tag] by (auto split: if_splits option.splits)
    qed
  qed (use "3.prems" in auto)
qed auto

lemma find_nested_inside:
  "pgp_parse_tlvs buf = Ok ts \<Longrightarrow> find_nested ts tag = Some v \<Longrightarrow> sublist v buf"
  unfolding find_nested_def
  by (drule find_nested_within_sublist) (auto dest: parse_tlvs_sublist intro: sublist_order.order_trans)

end
