(* ===== verification/Pgp_Algo.thy ===== *)
theory Pgp_Algo
  imports Pgp_Tlv Codec Decimal
begin

text \<open>
  \<^verbatim>\<open>crates/keyroost-openpgp/src/lib.rs\<close>, the key slots of an OpenPGP card and their
  algorithms: the three slots with their tags, the curves, the algorithm attributes written for a
  requested algorithm and read back from the card, and their display forms.
\<close>

subsection \<open>Slots\<close>

datatype key_crt = CrtSign | CrtDecrypt | CrtAuth

fun uif_tag :: "key_crt \<Rightarrow> u16" where
  "uif_tag CrtSign = 0x00D6" | "uif_tag CrtDecrypt = 0x00D7" | "uif_tag CrtAuth = 0x00D8"

fun crt_tag :: "key_crt \<Rightarrow> byte" where
  "crt_tag CrtSign = 0xB6" | "crt_tag CrtDecrypt = 0xB8" | "crt_tag CrtAuth = 0xA4"

definition crt_bytes :: "key_crt \<Rightarrow> bytes" where "crt_bytes c = [crt_tag c, 0x00]"

fun fpr_tag :: "key_crt \<Rightarrow> u16" where
  "fpr_tag CrtSign = 0x00C7" | "fpr_tag CrtDecrypt = 0x00C8" | "fpr_tag CrtAuth = 0x00C9"

fun time_tag :: "key_crt \<Rightarrow> u16" where
  "time_tag CrtSign = 0x00CE" | "time_tag CrtDecrypt = 0x00CF" | "time_tag CrtAuth = 0x00D0"

fun algo_attr_tag :: "key_crt \<Rightarrow> u16" where
  "algo_attr_tag CrtSign = 0x00C1" | "algo_attr_tag CrtDecrypt = 0x00C2" | "algo_attr_tag CrtAuth = 0x00C3"

subsection \<open>Curves\<close>

datatype pgp_curve =
    Ed25519 | X25519 | NistP256 | NistP384 | NistP521 | Secp256k1
  | BrainpoolP256r1 | BrainpoolP384r1 | BrainpoolP512r1

definition CURVE_ALL :: "pgp_curve list" where
  "CURVE_ALL = [Ed25519, X25519, NistP256, NistP384, NistP521, Secp256k1,
     BrainpoolP256r1, BrainpoolP384r1, BrainpoolP512r1]"

fun curve_oid :: "pgp_curve \<Rightarrow> bytes" where
  "curve_oid Ed25519 = [0x2B, 0x06, 0x01, 0x04, 0x01, 0xDA, 0x47, 0x0F, 0x01]"
| "curve_oid X25519 = [0x2B, 0x06, 0x01, 0x04, 0x01, 0x97, 0x55, 0x01, 0x05, 0x01]"
| "curve_oid NistP256 = [0x2A, 0x86, 0x48, 0xCE, 0x3D, 0x03, 0x01, 0x07]"
| "curve_oid NistP384 = [0x2B, 0x81, 0x04, 0x00, 0x22]"
| "curve_oid NistP521 = [0x2B, 0x81, 0x04, 0x00, 0x23]"
| "curve_oid Secp256k1 = [0x2B, 0x81, 0x04, 0x00, 0x0A]"
| "curve_oid BrainpoolP256r1 = [0x2B, 0x24, 0x03, 0x03, 0x02, 0x08, 0x01, 0x01, 0x07]"
| "curve_oid BrainpoolP384r1 = [0x2B, 0x24, 0x03, 0x03, 0x02, 0x08, 0x01, 0x01, 0x0B]"
| "curve_oid BrainpoolP512r1 = [0x2B, 0x24, 0x03, 0x03, 0x02, 0x08, 0x01, 0x01, 0x0D]"

definition curve_from_oid :: "bytes \<Rightarrow> pgp_curve option" where
  "curve_from_oid oid = find (\<lambda>c. curve_oid c = oid) CURVE_ALL"

fun curve_label :: "pgp_curve \<Rightarrow> bytes" where
  "curve_label Ed25519 = ascii ''Ed25519''"
| "curve_label X25519 = ascii ''X25519''"
| "curve_label NistP256 = ascii ''NIST P-256''"
| "curve_label NistP384 = ascii ''NIST P-384''"
| "curve_label NistP521 = ascii ''NIST P-521''"
| "curve_label Secp256k1 = ascii ''secp256k1''"
| "curve_label BrainpoolP256r1 = ascii ''brainpoolP256r1''"
| "curve_label BrainpoolP384r1 = ascii ''brainpoolP384r1''"
| "curve_label BrainpoolP512r1 = ascii ''brainpoolP512r1''"

fun curve_bits :: "pgp_curve \<Rightarrow> nat" where
  "curve_bits Ed25519 = 255"
| "curve_bits X25519 = 255"
| "curve_bits NistP256 = 256"
| "curve_bits Secp256k1 = 256"
| "curve_bits BrainpoolP256r1 = 256"
| "curve_bits NistP384 = 384"
| "curve_bits BrainpoolP384r1 = 384"
| "curve_bits NistP521 = 521"
| "curve_bits BrainpoolP512r1 = 512"

fun field_len :: "pgp_curve \<Rightarrow> nat" where
  "field_len Ed25519 = 32"
| "field_len X25519 = 32"
| "field_len NistP256 = 32"
| "field_len Secp256k1 = 32"
| "field_len BrainpoolP256r1 = 32"
| "field_len NistP384 = 48"
| "field_len BrainpoolP384r1 = 48"
| "field_len BrainpoolP512r1 = 64"
| "field_len NistP521 = 66"

fun is_25519 :: "pgp_curve \<Rightarrow> bool" where
  "is_25519 Ed25519 = True" | "is_25519 X25519 = True" | "is_25519 _ = False"

datatype ecc_kind = Ecdh | Ecdsa | EdDsa

fun ecc_kind_id :: "ecc_kind \<Rightarrow> byte" where
  "ecc_kind_id Ecdh = 0x12" | "ecc_kind_id Ecdsa = 0x13" | "ecc_kind_id EdDsa = 0x16"

definition ecc_kind_from_id :: "byte \<Rightarrow> ecc_kind option" where
  "ecc_kind_from_id i =
     (if i = 0x12 then Some Ecdh else if i = 0x13 then Some Ecdsa else if i = 0x16 then Some EdDsa else None)"

fun ecc_kind_label :: "ecc_kind \<Rightarrow> bytes" where
  "ecc_kind_label Ecdh = ascii ''ECDH''"
| "ecc_kind_label Ecdsa = ascii ''ECDSA''"
| "ecc_kind_label EdDsa = ascii ''EdDSA''"

subsection \<open>Algorithms a slot can be set to\<close>

datatype key_alg =
    AlgRsa2048 | AlgRsa3072 | AlgRsa4096 | AlgEd25519 | AlgX25519 | AlgNistP256 | AlgNistP384 | AlgNistP521
  | AlgSecp256k1 | AlgBrainpoolP256r1 | AlgBrainpoolP384r1 | AlgBrainpoolP512r1

datatype slot_mismatch = SlotMismatch key_alg key_crt

definition KEY_ALG_ALL :: "key_alg list" where
  "KEY_ALG_ALL = [AlgRsa2048, AlgRsa3072, AlgRsa4096, AlgEd25519, AlgX25519, AlgNistP256, AlgNistP384,
     AlgNistP521, AlgSecp256k1, AlgBrainpoolP256r1, AlgBrainpoolP384r1, AlgBrainpoolP512r1]"

fun alg_curve :: "key_alg \<Rightarrow> pgp_curve option" where
  "alg_curve AlgRsa2048 = None"
| "alg_curve AlgRsa3072 = None"
| "alg_curve AlgRsa4096 = None"
| "alg_curve AlgEd25519 = Some Ed25519"
| "alg_curve AlgX25519 = Some X25519"
| "alg_curve AlgNistP256 = Some NistP256"
| "alg_curve AlgNistP384 = Some NistP384"
| "alg_curve AlgNistP521 = Some NistP521"
| "alg_curve AlgSecp256k1 = Some Secp256k1"
| "alg_curve AlgBrainpoolP256r1 = Some BrainpoolP256r1"
| "alg_curve AlgBrainpoolP384r1 = Some BrainpoolP384r1"
| "alg_curve AlgBrainpoolP512r1 = Some BrainpoolP512r1"

fun alg_label :: "key_alg \<Rightarrow> bytes" where
  "alg_label AlgRsa2048 = ascii ''RSA-2048''"
| "alg_label AlgRsa3072 = ascii ''RSA-3072''"
| "alg_label AlgRsa4096 = ascii ''RSA-4096''"
| "alg_label AlgEd25519 = curve_label Ed25519"
| "alg_label AlgX25519 = curve_label X25519"
| "alg_label AlgNistP256 = curve_label NistP256"
| "alg_label AlgNistP384 = curve_label NistP384"
| "alg_label AlgNistP521 = curve_label NistP521"
| "alg_label AlgSecp256k1 = curve_label Secp256k1"
| "alg_label AlgBrainpoolP256r1 = curve_label BrainpoolP256r1"
| "alg_label AlgBrainpoolP384r1 = curve_label BrainpoolP384r1"
| "alg_label AlgBrainpoolP512r1 = curve_label BrainpoolP512r1"

fun rsa_bits :: "key_alg \<Rightarrow> u16 option" where
  "rsa_bits AlgRsa2048 = Some 2048"
| "rsa_bits AlgRsa3072 = Some 3072"
| "rsa_bits AlgRsa4096 = Some 4096"
| "rsa_bits _ = None"

fun alg_ecc_kind :: "key_alg \<Rightarrow> key_crt \<Rightarrow> (ecc_kind, slot_mismatch) result" where
  "alg_ecc_kind alg crt =
     (case (alg, crt) of
        (AlgEd25519, CrtDecrypt) \<Rightarrow> Err (SlotMismatch alg crt)
      | (AlgX25519, CrtSign) \<Rightarrow> Err (SlotMismatch alg crt)
      | (AlgX25519, CrtAuth) \<Rightarrow> Err (SlotMismatch alg crt)
      | (AlgEd25519, _) \<Rightarrow> Ok EdDsa
      | (_, CrtDecrypt) \<Rightarrow> Ok Ecdh
      | (_, _) \<Rightarrow> Ok Ecdsa)"

text \<open>The \<open>None\<close> branch of the curve is the \<^verbatim>\<open>expect\<close> that an algorithm without a
  modulus size has a curve.\<close>

definition alg_attributes :: "key_alg \<Rightarrow> key_crt \<Rightarrow> (bytes, slot_mismatch) result option" where
  "alg_attributes alg crt =
     (case rsa_bits alg of
        Some bits \<Rightarrow> Some (Ok [0x01, ucast (drop_bit 8 bits), ucast (bits AND 0xFF), 0x00, 0x20, 0x00])
      | None \<Rightarrow>
          (case alg_ecc_kind alg crt of
             Err e \<Rightarrow> Some (Err e)
           | Ok kind \<Rightarrow>
               (case alg_curve alg of
                  None \<Rightarrow> None
                | Some curve \<Rightarrow> Some (Ok (ecc_kind_id kind # curve_oid curve)))))"

text \<open>The message of a refused combination; the last branch prints the slot as its
  \<^verbatim>\<open>Debug\<close> name.\<close>

fun crt_debug :: "key_crt \<Rightarrow> bytes" where
  "crt_debug CrtSign = ascii ''Sign''" | "crt_debug CrtDecrypt = ascii ''Decrypt''" | "crt_debug CrtAuth = ascii ''Auth''"

fun show_slot_mismatch :: "slot_mismatch \<Rightarrow> bytes" where
  "show_slot_mismatch (SlotMismatch alg crt) =
     (case alg of
        AlgEd25519 \<Rightarrow> ascii ''Ed25519 is a signing curve and cannot go in the decryption slot; use X25519 there''
      | AlgX25519 \<Rightarrow> ascii ''X25519 is a key-agreement curve and only fits the decryption slot; use Ed25519 for signing or authentication''
      | _ \<Rightarrow> alg_label alg @ ascii '' cannot be used in the '' @ crt_debug crt @ ascii '' slot'')"

subsection \<open>Attributes read from the card\<close>

datatype rsa_import_format = FmtStandard | FmtStandardWithModulus | FmtCrt | FmtCrtWithModulus

definition format_from_attr_byte :: "byte \<Rightarrow> rsa_import_format option" where
  "format_from_attr_byte b =
     (if b = 0x00 then Some FmtStandard
      else if b = 0x01 then Some FmtStandardWithModulus
      else if b = 0x02 then Some FmtCrt
      else if b = 0x03 then Some FmtCrtWithModulus
      else None)"

definition includes_crt :: "rsa_import_format \<Rightarrow> bool" where
  "includes_crt f \<longleftrightarrow> f = FmtCrt \<or> f = FmtCrtWithModulus"

definition includes_modulus :: "rsa_import_format \<Rightarrow> bool" where
  "includes_modulus f \<longleftrightarrow> f = FmtStandardWithModulus \<or> f = FmtCrtWithModulus"

record rsa_attributes =
  ra_n_bits :: u16
  ra_e_bits :: u16
  ra_format :: rsa_import_format

definition parse_rsa_algorithm_attributes :: "bytes \<Rightarrow> (rsa_attributes, pgp_parse_error) result" where
  "parse_rsa_algorithm_attributes attr =
     (if take 1 attr \<noteq> [0x01] then Err PgpUnsupportedAlgorithm
      else if length attr < 5 then Err PgpUnexpectedLength
      else
        bind_result
          (if 5 < length attr then ok_or PgpUnexpectedLength (format_from_attr_byte (attr ! 5))
           else Ok FmtStandard) (\<lambda>format.
          Ok \<lparr>ra_n_bits = u16_from_be [attr ! 1, attr ! 2],
              ra_e_bits = u16_from_be [attr ! 3, attr ! 4], ra_format = format\<rparr>))"

datatype algorithm_attributes =
    AttrRsa rsa_attributes
  | AttrEcc ecc_kind pgp_curve bool

definition parse_algorithm_attributes :: "bytes \<Rightarrow> (algorithm_attributes, pgp_parse_error) result" where
  "parse_algorithm_attributes attr =
     (case attr of
        [] \<Rightarrow> Err PgpUnexpectedLength
      | i # oid \<Rightarrow>
          if i = 0x01 then bind_result (parse_rsa_algorithm_attributes attr) (\<lambda>r. Ok (AttrRsa r))
          else
            bind_result (ok_or PgpUnsupportedAlgorithm (ecc_kind_from_id i)) (\<lambda>kind.
              case curve_from_oid oid of
                Some curve \<Rightarrow> Ok (AttrEcc kind curve False)
              | None \<Rightarrow>
                  if oid = [] then Err PgpUnsupportedAlgorithm
                  else bind_result (ok_or PgpUnsupportedAlgorithm (curve_from_oid (butlast oid))) (\<lambda>curve.
                    Ok (AttrEcc kind curve (last oid = 0xFF)))))"

fun attr_key_alg :: "algorithm_attributes \<Rightarrow> key_alg option" where
  "attr_key_alg (AttrRsa r) =
     (if ra_n_bits r = 2048 then Some AlgRsa2048
      else if ra_n_bits r = 3072 then Some AlgRsa3072
      else if ra_n_bits r = 4096 then Some AlgRsa4096
      else None)"
| "attr_key_alg (AttrEcc kind curve with_public) = find (\<lambda>a. alg_curve a = Some curve) KEY_ALG_ALL"

fun attr_label :: "algorithm_attributes \<Rightarrow> bytes" where
  "attr_label (AttrRsa r) = ascii ''RSA-'' @ show_dec (unat (ra_n_bits r))"
| "attr_label (AttrEcc kind curve with_public) = ecc_kind_label kind @ ascii '' '' @ curve_label curve"

text \<open>\<^verbatim>\<open>{:02X}\<close>\<close>

definition hex_upper :: "byte \<Rightarrow> bytes" where
  "hex_upper b = (let digits = ascii ''0123456789ABCDEF''
                  in [digits ! unat (drop_bit 4 b), digits ! unat (b AND 0x0F)])"

definition describe_algorithm_attributes :: "bytes \<Rightarrow> bytes" where
  "describe_algorithm_attributes attr =
     (case parse_algorithm_attributes attr of
        Ok a \<Rightarrow> attr_label a
      | Err _ \<Rightarrow>
          (case attr of
             [] \<Rightarrow> ascii ''none''
           | i # oid \<Rightarrow>
               (case ecc_kind_from_id i of
                  Some kind \<Rightarrow> ecc_kind_label kind @ ascii '' (unknown curve '' @ hex_encode oid @ ascii '')''
                | None \<Rightarrow>
                    if i = 0x01 then ascii ''RSA (malformed attributes)''
                    else ascii ''algorithm 0x'' @ hex_upper i)))"

subsection \<open>Reading back what was written\<close>

text \<open>An algorithm fits a slot unless it is a signing curve in the decryption slot or the
  key-agreement curve elsewhere.\<close>

definition fits_slot :: "key_alg \<Rightarrow> key_crt \<Rightarrow> bool" where
  "fits_slot alg crt \<longleftrightarrow> \<not> (alg = AlgEd25519 \<and> crt = CrtDecrypt) \<and> \<not> (alg = AlgX25519 \<and> crt \<noteq> CrtDecrypt)"

lemma alg_attributes_total: "alg_attributes alg crt \<noteq> None"
  by (cases alg; cases crt) (simp_all add: alg_attributes_def)

lemma alg_attributes_fits:
  "(\<exists>a. alg_attributes alg crt = Some (Ok a)) \<longleftrightarrow> fits_slot alg crt"
  by (cases alg; cases crt) (simp_all add: alg_attributes_def fits_slot_def)

lemma curve_from_oid_oid [simp]: "curve_from_oid (curve_oid c) = Some c"
  by (cases c) (simp_all add: curve_from_oid_def CURVE_ALL_def)

lemma curve_from_oid_eq_Some: "curve_from_oid oid = Some c \<longleftrightarrow> oid = curve_oid c"
  using curve_from_oid_oid by (auto simp: curve_from_oid_def find_Some_iff)

lemma ecc_kind_from_id_id [simp]: "ecc_kind_from_id (ecc_kind_id k) = Some k"
  by (cases k) (simp_all add: ecc_kind_from_id_def)

lemma ecc_kind_id_not_rsa [simp]: "ecc_kind_id k \<noteq> 1"
  by (cases k) simp_all

lemma attr_key_alg_curve: "alg_curve a = Some c \<Longrightarrow> attr_key_alg (AttrEcc k c p) = Some a"
  by (cases a) (auto simp: KEY_ALG_ALL_def)

text \<open>No curve's identifier is another's with a byte appended.\<close>

lemma oid_append_unknown: "curve_from_oid (curve_oid c @ [b]) = None"
proof -
  have "curve_oid c @ [b] \<noteq> curve_oid d" for d
    by (cases c; cases d) simp_all
  then show ?thesis by (metis curve_from_oid_eq_Some not_Some_eq)
qed

lemma parse_ecc_attributes:
  "parse_algorithm_attributes (ecc_kind_id k # curve_oid c) = Ok (AttrEcc k c False)"
  "parse_algorithm_attributes (ecc_kind_id k # curve_oid c @ [b]) = Ok (AttrEcc k c (b = 0xFF))"
  by (simp_all add: parse_algorithm_attributes_def oid_append_unknown)

lemma parse_rsa_attributes:
  assumes "format_from_attr_byte f = Some fmt"
  shows "parse_algorithm_attributes [0x01, n1, n0, e1, e0, f]
    = Ok (AttrRsa \<lparr>ra_n_bits = u16_from_be [n1, n0], ra_e_bits = u16_from_be [e1, e0], ra_format = fmt\<rparr>)"
  using assms by (simp add: parse_algorithm_attributes_def parse_rsa_algorithm_attributes_def)

lemma attributes_shape:
  assumes "alg_attributes alg crt = Some (Ok a)"
  shows "(\<exists>k c. alg_curve alg = Some c \<and> alg_ecc_kind alg crt = Ok k \<and> a = ecc_kind_id k # curve_oid c)
    \<or> (\<exists>n. rsa_bits alg = Some n \<and> a = [0x01, ucast (drop_bit 8 n), ucast (n AND 0xFF), 0x00, 0x20, 0x00])"
  using assms by (cases alg; cases crt) (simp_all add: alg_attributes_def)

lemma rsa_attr_key_alg:
  "rsa_bits alg = Some n \<Longrightarrow>
    attr_key_alg (AttrRsa \<lparr>ra_n_bits = u16_from_be [ucast (drop_bit 8 n), ucast (n AND 0xFF)], ra_e_bits = e, ra_format = f\<rparr>) = Some alg"
  by (cases alg) (simp_all add: u16_from_be_def)

text \<open>C15: the attributes written for an algorithm are read back as that algorithm: as the card
  stores them, with the card's own import-format byte in place of the written one (RSA), and with any
  trailing byte behind the curve (ECC), which asks for the public key exactly when it is \<open>0xFF\<close>.\<close>

theorem attributes_read_back:
  assumes "alg_attributes alg crt = Some (Ok a)"
  shows "\<exists>p. parse_algorithm_attributes a = Ok p \<and> attr_key_alg p = Some alg
    \<and> (case p of
         AttrEcc k c pub \<Rightarrow> \<not> pub \<and> alg_ecc_kind alg crt = Ok k \<and> alg_curve alg = Some c
           \<and> (\<forall>b. parse_algorithm_attributes (a @ [b]) = Ok (AttrEcc k c (b = 0xFF)))
       | AttrRsa r \<Rightarrow> rsa_bits alg = Some (ra_n_bits r) \<and> ra_e_bits r = 32 \<and> ra_format r = FmtStandard
           \<and> (\<forall>f fmt. format_from_attr_byte f = Some fmt \<longrightarrow>
                parse_algorithm_attributes (butlast a @ [f]) = Ok (AttrRsa (r\<lparr>ra_format := fmt\<rparr>))))"
  using attributes_shape [OF assms]
proof (elim disjE exE conjE)
  fix k c assume a: "alg_curve alg = Some c" "alg_ecc_kind alg crt = Ok k" "a = ecc_kind_id k # curve_oid c"
  then show ?thesis
    by (intro exI [of _ "AttrEcc k c False"])
       (simp add: parse_ecc_attributes attr_key_alg_curve del: attr_key_alg.simps)
next
  fix n assume a: "rsa_bits alg = Some n" "a = [0x01, ucast (drop_bit 8 n), ucast (n AND 0xFF), 0x00, 0x20, 0x00]"
  have f: "format_from_attr_byte 0 = Some FmtStandard" by (simp add: format_from_attr_byte_def)
  have n: "u16_from_be [ucast (drop_bit 8 n), ucast (n AND 0xFF)] = n"
    using a(1) by (cases alg) (auto simp: u16_from_be_def)
  show ?thesis
    using a rsa_attr_key_alg [OF a(1)]
    by (intro exI [of _ "AttrRsa \<lparr>ra_n_bits = n, ra_e_bits = 32, ra_format = FmtStandard\<rparr>"])
       (simp add: parse_rsa_attributes f n u16_from_be_def [of "[0, 0x20]"] del: attr_key_alg.simps)
qed

theorem attributes_read_back_witness:
  "\<exists>p. parse_algorithm_attributes (0x12 # curve_oid X25519) = Ok p \<and> attr_key_alg p = Some AlgX25519"
  using attributes_read_back [of AlgX25519 CrtDecrypt "0x12 # curve_oid X25519"]
  by (auto simp: alg_attributes_def)

end
