(* ===== verification/Pgp_Card.thy ===== *)
theory Pgp_Card
  imports Pgp_Algo Apdu
begin

text \<open>
  \<^verbatim>\<open>crates/keyroost-openpgp/src/lib.rs\<close>, the commands of the OpenPGP card: the application
  identifier, the instructions, and one builder per command, with the long forms of
  \<^verbatim>\<open>PSO:DECIPHER\<close> and of the key import (one extended command, or a chain of short ones).
  A builder whose body can be too long for its length field is \<open>None\<close> there, the panic of
  \<^verbatim>\<open>build_apdu\<close> and of the assertions.
\<close>

subsection \<open>Application identifier\<close>

definition AID_PREFIX :: bytes where "AID_PREFIX = [0xD2, 0x76, 0x00, 0x01, 0x24, 0x01]"
definition MANUFACTURER_ID_YUBICO :: u16 where "MANUFACTURER_ID_YUBICO = 0x0006"
definition MANUFACTURER_ID_NITROKEY :: u16 where "MANUFACTURER_ID_NITROKEY = 0x000F"
definition MANUFACTURER_ID_TOKEN2 :: u16 where "MANUFACTURER_ID_TOKEN2 = 0x0011"

definition pgp_may_ask_touch_to_write :: "u16 option \<Rightarrow> bool" where
  "pgp_may_ask_touch_to_write manufacturer \<longleftrightarrow>
     \<not> (manufacturer = Some MANUFACTURER_ID_YUBICO \<or> manufacturer = Some MANUFACTURER_ID_NITROKEY)"

definition aid_manufacturer_id :: "bytes \<Rightarrow> u16 option" where
  "aid_manufacturer_id aid =
     (if length aid < 10 \<or> take 6 aid \<noteq> AID_PREFIX then None else Some (u16_from_be [aid ! 8, aid ! 9]))"

definition uif_asks_touch :: "bytes \<Rightarrow> bool option" where
  "uif_asks_touch reply = (case reply of [] \<Rightarrow> None | setting # _ \<Rightarrow> Some (setting \<noteq> 0x00))"

text \<open>The one name outside ASCII (\<^verbatim>\<open>SSE Carte a puce\<close> with a grave accent on the \<^verbatim>\<open>a\<close>) in UTF-8.\<close>

definition manufacturer_table :: "(u16 \<times> bytes) list" where
  "manufacturer_table =
    [(0x0001, ascii ''PPC Card Systems''),
     (0x0002, ascii ''Prism''),
     (0x0003, ascii ''OpenFortress''),
     (0x0004, ascii ''Wewid''),
     (0x0005, ascii ''ZeitControl''),
     (0x0006, ascii ''Yubico''),
     (0x0007, ascii ''OpenKMS''),
     (0x0008, ascii ''LogoEmail''),
     (0x0009, ascii ''Fidesmo''),
     (0x000A, ascii ''VivoKey''),
     (0x000B, ascii ''Feitian Technologies''),
     (0x000D, ascii ''Dangerous Things''),
     (0x000E, ascii ''Excelsecu''),
     (0x000F, ascii ''Nitrokey''),
     (0x0010, ascii ''NeoPGP''),
     (MANUFACTURER_ID_TOKEN2, ascii ''Token2''),
     (0x002A, ascii ''Magrathea''),
     (0x0042, ascii ''GnuPG e.V.''),
     (0x1337, ascii ''Warsaw Hackerspace''),
     (0x2342, ascii ''warpzone''),
     (0x4354, ascii ''Confidential Technologies''),
     (0x4D52, ascii ''Miralium Research''),
     (0x5343, ascii ''SSE Carte '' @ [0xC3, 0xA0] @ ascii '' puce''),
     (0x5443, ascii ''TIF-IT e.V.''),
     (0x63AF, ascii ''Trustica''),
     (0xBA53, ascii ''c-base e.V.''),
     (0xBD0E, ascii ''Paranoidlabs''),
     (0xCA05, ascii ''Atos CardOS''),
     (0xF1D0, ascii ''CanoKeys''),
     (0xF517, ascii ''FSIJ''),
     (0xF5EC, ascii ''F-Secure'')]"

definition manufacturer_name :: "u16 \<Rightarrow> bytes option" where
  "manufacturer_name i = map_of manufacturer_table i"

subsection \<open>Instructions and references\<close>

datatype pgp_instruction =
    PiSelect | PiGetData | PiPutData | PiVerify | PiChangeReferenceData | PiResetRetryCounter
  | PiPerformSecurityOperation | PiInternalAuthenticate | PiGenerateAsymmetricKeyPair | PiGetResponse
  | PiActivateFile | PiTerminateDf

fun pgp_code :: "pgp_instruction \<Rightarrow> byte" where
  "pgp_code PiSelect = 0xA4"
| "pgp_code PiGetData = 0xCA"
| "pgp_code PiPutData = 0xDA"
| "pgp_code PiVerify = 0x20"
| "pgp_code PiChangeReferenceData = 0x24"
| "pgp_code PiResetRetryCounter = 0x2C"
| "pgp_code PiPerformSecurityOperation = 0x2A"
| "pgp_code PiInternalAuthenticate = 0x88"
| "pgp_code PiGenerateAsymmetricKeyPair = 0x47"
| "pgp_code PiGetResponse = 0xC0"
| "pgp_code PiActivateFile = 0x44"
| "pgp_code PiTerminateDf = 0xE6"

definition PGP_INS_SELECT :: byte where "PGP_INS_SELECT = 0xA4"
definition PGP_P1_SELECT_BY_NAME :: byte where "PGP_P1_SELECT_BY_NAME = 0x04"
definition INS_PUT_DATA_ODD :: byte where "INS_PUT_DATA_ODD = 0xDB"
definition PW1_SIGN :: byte where "PW1_SIGN = 0x81"
definition PW1_OTHER :: byte where "PW1_OTHER = 0x82"
definition PW3_ADMIN :: byte where "PW3_ADMIN = 0x83"
definition PSO_COMPUTE_SIGNATURE :: u16 where "PSO_COMPUTE_SIGNATURE = 0x9E9A"
definition PSO_DECIPHER :: u16 where "PSO_DECIPHER = 0x8086"
definition GENERATE_KEY :: byte where "GENERATE_KEY = 0x80"
definition READ_PUBLIC_KEY :: byte where "READ_PUBLIC_KEY = 0x81"
definition RESET_RC_BY_ADMIN :: byte where "RESET_RC_BY_ADMIN = 0x02"
definition PGP_SW_OK :: u16 where "PGP_SW_OK = 0x9000"
definition PGP_SW_MORE_DATA :: byte where "PGP_SW_MORE_DATA = 0x61"

definition TAG_AID :: u16 where "TAG_AID = 0x004F"
definition TAG_NAME :: u16 where "TAG_NAME = 0x005B"
definition TAG_URL :: u16 where "TAG_URL = 0x5F50"
definition TAG_APPLICATION_RELATED_DATA :: u16 where "TAG_APPLICATION_RELATED_DATA = 0x006E"
definition TAG_PW_STATUS :: u16 where "TAG_PW_STATUS = 0x00C4"
definition TAG_FINGERPRINTS :: u16 where "TAG_FINGERPRINTS = 0x00C5"
definition TAG_ALGORITHM_INFORMATION :: u16 where "TAG_ALGORITHM_INFORMATION = 0x00FA"
definition TAG_SECURITY_SUPPORT :: u16 where "TAG_SECURITY_SUPPORT = 0x007A"
definition TAG_DS_COUNTER :: u16 where "TAG_DS_COUNTER = 0x0093"
definition TAG_PUBLIC_KEY :: u16 where "TAG_PUBLIC_KEY = 0x7F49"
definition TAG_RSA_MODULUS :: u16 where "TAG_RSA_MODULUS = 0x0081"
definition TAG_RSA_EXPONENT :: u16 where "TAG_RSA_EXPONENT = 0x0082"
definition TAG_EC_PUBLIC_POINT :: u16 where "TAG_EC_PUBLIC_POINT = 0x0086"
definition TAG_CIPHER_DO_ECDH :: u16 where "TAG_CIPHER_DO_ECDH = 0x00A6"

subsection \<open>Command builders\<close>

definition hi_byte :: "u16 \<Rightarrow> byte" where "hi_byte t = ucast (drop_bit 8 t)"
definition lo_byte :: "u16 \<Rightarrow> byte" where "lo_byte t = ucast (t AND 0xFF)"

definition pgp_select :: "bytes option" where
  "pgp_select = build_apdu 0x00 PGP_INS_SELECT PGP_P1_SELECT_BY_NAME 0x00 AID_PREFIX"

definition pgp_get_data :: "u16 \<Rightarrow> bytes" where
  "pgp_get_data tag = build_apdu_get 0x00 (pgp_code PiGetData) (hi_byte tag) (lo_byte tag) 0x00"

definition get_application_related_data :: bytes where
  "get_application_related_data = pgp_get_data TAG_APPLICATION_RELATED_DATA"

definition get_algorithm_information :: bytes where
  "get_algorithm_information = pgp_get_data TAG_ALGORITHM_INFORMATION"

definition get_pw_status :: bytes where
  "get_pw_status = pgp_get_data TAG_PW_STATUS"

definition pgp_verify :: "byte \<Rightarrow> bytes \<Rightarrow> bytes option" where
  "pgp_verify pw_ref pin = build_apdu 0x00 (pgp_code PiVerify) 0x00 pw_ref pin"

definition pgp_get_response :: bytes where
  "pgp_get_response = build_apdu_get 0x00 (pgp_code PiGetResponse) 0x00 0x00 0x00"

definition terminate_df :: bytes where "terminate_df = [0x00, pgp_code PiTerminateDf, 0x00, 0x00]"

definition activate_file :: bytes where "activate_file = [0x00, pgp_code PiActivateFile, 0x00, 0x00]"

text \<open>\<^verbatim>\<open>apdu.push(0x00)\<close>, the case-4 length byte.\<close>

definition pgp_with_le :: "bytes option \<Rightarrow> bytes option" where
  "pgp_with_le a = map_option (\<lambda>x. x @ [0x00]) a"

definition pgp_generate_key :: "key_crt \<Rightarrow> bytes option" where
  "pgp_generate_key crt =
     pgp_with_le (build_apdu 0x00 (pgp_code PiGenerateAsymmetricKeyPair) GENERATE_KEY 0x00 (crt_bytes crt))"

definition pgp_read_public_key :: "key_crt \<Rightarrow> bytes option" where
  "pgp_read_public_key crt =
     pgp_with_le (build_apdu 0x00 (pgp_code PiGenerateAsymmetricKeyPair) READ_PUBLIC_KEY 0x00 (crt_bytes crt))"

definition pso_compute_signature :: "bytes \<Rightarrow> bytes option" where
  "pso_compute_signature data =
     pgp_with_le (build_apdu 0x00 (pgp_code PiPerformSecurityOperation)
       (hi_byte PSO_COMPUTE_SIGNATURE) (lo_byte PSO_COMPUTE_SIGNATURE) data)"

definition pgp_internal_authenticate :: "bytes \<Rightarrow> bytes option" where
  "pgp_internal_authenticate data =
     pgp_with_le (build_apdu 0x00 (pgp_code PiInternalAuthenticate) 0x00 0x00 data)"

definition build_apdu_extended :: "byte \<Rightarrow> byte \<Rightarrow> byte \<Rightarrow> byte \<Rightarrow> bytes \<Rightarrow> bytes option" where
  "build_apdu_extended cla ins p1 p2 data =
     (if length data \<le> 0xFFFF then
        (let lc = word_of_nat (length data) :: u16
         in Some ([cla, ins, p1, p2, 0x00, hi_byte lc, lo_byte lc] @ data))
      else None)"

definition pso_decipher :: "bytes \<Rightarrow> bytes option" where
  "pso_decipher data =
     (let ins = pgp_code PiPerformSecurityOperation; p1 = hi_byte PSO_DECIPHER; p2 = lo_byte PSO_DECIPHER in
      if length data \<le> 255 then pgp_with_le (build_apdu 0x00 ins p1 p2 data)
      else map_option (\<lambda>x. x @ [0x00, 0x00]) (build_apdu_extended 0x00 ins p1 p2 data))"

text \<open>One link of a chain: the chaining class on every link but the last.\<close>

definition link_cla :: "nat \<Rightarrow> nat \<Rightarrow> byte" where
  "link_cla i last_i = (if i < last_i then 0x10 else 0x00)"

definition pso_decipher_chained :: "bytes \<Rightarrow> nat \<Rightarrow> bytes list option" where
  "pso_decipher_chained data max_chunk =
     (if \<not> (1 \<le> max_chunk \<and> max_chunk \<le> 255) then None
      else
        (let ins = pgp_code PiPerformSecurityOperation; p1 = hi_byte PSO_DECIPHER; p2 = lo_byte PSO_DECIPHER in
         if data = [] then Some [[0x00, ins, p1, p2, 0x00, 0x00]]
         else
           (let cs = chunks max_chunk data; last_i = length cs - 1
            in Some (map (\<lambda>(i, chunk).
                 [link_cla i last_i, ins, p1, p2, word_of_nat (length chunk)] @ chunk
                   @ (if i = last_i then [0x00] else [])) (enumerate 0 cs)))))"

definition ecdh_cipher_do :: "bytes \<Rightarrow> bytes" where
  "ecdh_cipher_do ephemeral_point =
     pgp_ber_tlv TAG_CIPHER_DO_ECDH (pgp_ber_tlv TAG_PUBLIC_KEY (pgp_ber_tlv TAG_EC_PUBLIC_POINT ephemeral_point))"

definition change_reference_data :: "byte \<Rightarrow> bytes \<Rightarrow> bytes \<Rightarrow> bytes option" where
  "change_reference_data pw_ref old new =
     build_apdu 0x00 (pgp_code PiChangeReferenceData) 0x00 pw_ref (old @ new)"

definition pgp_reset_retry_counter :: "bytes \<Rightarrow> bytes option" where
  "pgp_reset_retry_counter new_pw1 =
     build_apdu 0x00 (pgp_code PiResetRetryCounter) RESET_RC_BY_ADMIN 0x81 new_pw1"

definition pgp_put_data :: "u16 \<Rightarrow> bytes \<Rightarrow> bytes option" where
  "pgp_put_data tag value = build_apdu 0x00 (pgp_code PiPutData) (hi_byte tag) (lo_byte tag) value"

definition put_cardholder_name :: "bytes \<Rightarrow> bytes option" where
  "put_cardholder_name name = pgp_put_data TAG_NAME name"

definition put_url :: "bytes \<Rightarrow> bytes option" where
  "put_url url = pgp_put_data TAG_URL url"

definition put_fingerprint :: "key_crt \<Rightarrow> bytes \<Rightarrow> bytes option" where
  "put_fingerprint crt fpr = pgp_put_data (fpr_tag crt) fpr"

definition put_generation_time :: "key_crt \<Rightarrow> u32 \<Rightarrow> bytes option" where
  "put_generation_time crt unix_time = pgp_put_data (time_tag crt) (u32_to_be unix_time)"

definition put_algorithm_attributes :: "key_crt \<Rightarrow> bytes \<Rightarrow> bytes option" where
  "put_algorithm_attributes crt attr = pgp_put_data (algo_attr_tag crt) attr"

definition put_data_odd_chained :: "byte \<Rightarrow> byte \<Rightarrow> bytes \<Rightarrow> nat \<Rightarrow> bytes list option" where
  "put_data_odd_chained p1 p2 data max_chunk =
     (if \<not> (1 \<le> max_chunk \<and> max_chunk \<le> 255) then None
      else if data = [] then Some [[0x00, INS_PUT_DATA_ODD, p1, p2, 0x00]]
      else
        (let cs = chunks max_chunk data; last_i = length cs - 1
         in Some (map (\<lambda>(i, chunk).
              [link_cla i last_i, INS_PUT_DATA_ODD, p1, p2, word_of_nat (length chunk)] @ chunk)
              (enumerate 0 cs))))"

end
