(* ===== verification/Pgp_Key.thy ===== *)
theory Pgp_Key
  imports Pgp_Card Sha
begin

text \<open>
  \<^verbatim>\<open>crates/keyroost-openpgp/src/lib.rs\<close>, keys: the version-4 fingerprint of a public key
  and the private key import, whose object the card splits by the lengths of its template.
\<close>

subsection \<open>Fingerprints\<close>

text \<open>\<^verbatim>\<open>u8::leading_zeros\<close>\<close>

definition leading_zeros :: "byte \<Rightarrow> nat" where
  "leading_zeros b = length (takeWhile (\<lambda>i. \<not> bit b (7 - i)) [0..<8])"

definition mpi :: "bytes \<Rightarrow> bytes" where
  "mpi bs =
     (let value = dropWhile (\<lambda>b. b = 0) bs in
      case value of
        [] \<Rightarrow> [0x00, 0x00]
      | first # _ \<Rightarrow>
          (let top_bits = 8 - leading_zeros first;
               bit_len = top_bits + 8 * (length value - 1)
           in [word_of_nat (bit_len div 256), word_of_nat (bit_len mod 256)] @ value))"

definition v4_fingerprint_envelope :: "bytes \<Rightarrow> bytes" where
  "v4_fingerprint_envelope body =
     (let len = word_of_nat (length body) :: u16
      in sha1 ([0x99, hi_byte len, lo_byte len] @ body))"

definition rsa_v4_body :: "bytes \<Rightarrow> bytes \<Rightarrow> u32 \<Rightarrow> bytes" where
  "rsa_v4_body modulus exponent creation_time =
     [0x04] @ u32_to_be creation_time @ [0x01] @ mpi modulus @ mpi exponent"

definition rsa_v4_fingerprint :: "bytes \<Rightarrow> bytes \<Rightarrow> u32 \<Rightarrow> bytes" where
  "rsa_v4_fingerprint modulus exponent creation_time =
     v4_fingerprint_envelope (rsa_v4_body modulus exponent creation_time)"

definition ecdh_kdf_params :: "pgp_curve \<Rightarrow> bytes" where
  "ecdh_kdf_params curve =
     (let bits = curve_bits curve in
      if bits \<le> 256 then [0x03, 0x01, 0x08, 0x07]
      else if bits \<le> 384 then [0x03, 0x01, 0x09, 0x08]
      else [0x03, 0x01, 0x0A, 0x09])"

definition ecc_v4_body :: "ecc_kind \<Rightarrow> pgp_curve \<Rightarrow> bytes \<Rightarrow> u32 \<Rightarrow> bytes" where
  "ecc_v4_body kind curve point creation_time =
     (let packet_point = (if is_25519 curve \<and> length point = 32 then 0x40 # point else point);
          oid = curve_oid curve
      in [0x04] @ u32_to_be creation_time @ [ecc_kind_id kind, word_of_nat (length oid)] @ oid
           @ mpi packet_point @ (if kind = Ecdh then ecdh_kdf_params curve else []))"

definition ecc_v4_fingerprint :: "ecc_kind \<Rightarrow> pgp_curve \<Rightarrow> bytes \<Rightarrow> u32 \<Rightarrow> bytes" where
  "ecc_v4_fingerprint kind curve point creation_time =
     v4_fingerprint_envelope (ecc_v4_body kind curve point creation_time)"

text \<open>The public key of a slot: an RSA modulus and exponent, or an ECC point.\<close>

datatype pgp_public_key =
    PgpRsa bytes bytes
  | PgpEcc bytes

fun v4_fingerprint :: "pgp_public_key \<Rightarrow> algorithm_attributes \<Rightarrow> u32 \<Rightarrow> (bytes, pgp_parse_error) result" where
  "v4_fingerprint (PgpRsa modulus exponent) (AttrRsa r) creation_time =
     Ok (rsa_v4_fingerprint modulus exponent creation_time)"
| "v4_fingerprint (PgpEcc point) (AttrEcc kind curve with_public) creation_time =
     Ok (ecc_v4_fingerprint kind curve point creation_time)"
| "v4_fingerprint _ _ creation_time = Err PgpUnsupportedAlgorithm"

subsection \<open>Private key import\<close>

record rsa_private_key_parts =
  rk_e :: bytes
  rk_p :: bytes
  rk_q :: bytes
  rk_u :: bytes
  rk_dp :: bytes
  rk_dq :: bytes
  rk_n :: bytes

record ecc_private_key_parts =
  ek_scalar :: bytes
  ek_public :: "bytes option"

text \<open>The \<^verbatim>\<open>Debug\<close> forms: the public exponent and lengths only.\<close>

fun key_template_entry :: "byte \<Rightarrow> nat \<Rightarrow> bytes" where
  "key_template_entry tag n = tag # ber_len n"

definition strip_leading_zero :: "bytes \<Rightarrow> bytes" where
  "strip_leading_zero field = (if 1 < length field \<and> hd field = 0x00 then tl field else field)"

datatype exponent_too_wide = ExponentTooWide nat nat

definition pad_exponent :: "bytes \<Rightarrow> nat \<Rightarrow> (bytes, exponent_too_wide) result" where
  "pad_exponent e0 reqlen =
     (let e = strip_leading_zero e0 in
      if reqlen < length e then Err (ExponentTooWide (length e) reqlen)
      else Ok (replicate (reqlen - length e) 0x00 @ e))"

text \<open>\<^verbatim>\<open>e_bits.div_ceil(8)\<close>\<close>

definition exponent_field :: "u16 \<Rightarrow> nat" where
  "exponent_field e_bits = (unat e_bits + 7) div 8"

definition rsa_exponent_fits :: "bytes \<Rightarrow> u16 \<Rightarrow> bool" where
  "rsa_exponent_fits e e_bits \<longleftrightarrow> length (strip_leading_zero e) \<le> exponent_field e_bits"

definition extended_header_list ::
    "key_crt \<Rightarrow> rsa_private_key_parts \<Rightarrow> rsa_import_format \<Rightarrow> u16 \<Rightarrow> (bytes, exponent_too_wide) result" where
  "extended_header_list crt key format e_bits =
     bind_result (pad_exponent (rk_e key) (exponent_field e_bits)) (\<lambda>e.
       let p = strip_leading_zero (rk_p key);
           q = strip_leading_zero (rk_q key);
           u = strip_leading_zero (rk_u key);
           dp = strip_leading_zero (rk_dp key);
           dq = strip_leading_zero (rk_dq key);
           n = strip_leading_zero (rk_n key);
           crt_body = [crt_tag crt, 0x00];
           template =
             key_template_entry 0x91 (length e) @ key_template_entry 0x92 (length p)
               @ key_template_entry 0x93 (length q)
               @ (if includes_crt format then
                    key_template_entry 0x94 (length u) @ key_template_entry 0x95 (length dp)
                      @ key_template_entry 0x96 (length dq)
                  else [])
               @ (if includes_modulus format then key_template_entry 0x97 (length n) else []);
           key_data = e @ p @ q @ (if includes_crt format then u @ dp @ dq else [])
               @ (if includes_modulus format then n else []);
           body = crt_body @ pgp_ber_tlv 0x7F48 template @ pgp_ber_tlv 0x5F48 key_data
       in Ok (pgp_ber_tlv 0x4D body))"

definition import_rsa_key ::
    "key_crt \<Rightarrow> rsa_private_key_parts \<Rightarrow> rsa_import_format \<Rightarrow> u16 \<Rightarrow> (bytes option, exponent_too_wide) result" where
  "import_rsa_key crt key format e_bits =
     bind_result (extended_header_list crt key format e_bits) (\<lambda>header_list.
       Ok (build_apdu_extended 0x00 INS_PUT_DATA_ODD 0x3F 0xFF header_list))"

definition import_rsa_key_chained ::
    "key_crt \<Rightarrow> rsa_private_key_parts \<Rightarrow> rsa_import_format \<Rightarrow> u16 \<Rightarrow> nat
      \<Rightarrow> (bytes list option, exponent_too_wide) result" where
  "import_rsa_key_chained crt key format e_bits max_chunk =
     bind_result (extended_header_list crt key format e_bits) (\<lambda>header_list.
       Ok (put_data_odd_chained 0x3F 0xFF header_list max_chunk))"

datatype scalar_too_wide = ScalarTooWide nat nat

definition ecc_scalar_fits :: "bytes \<Rightarrow> nat \<Rightarrow> bool" where
  "ecc_scalar_fits scalar flen \<longleftrightarrow>
     length scalar \<le> flen \<or> (length scalar = flen + 1 \<and> scalar ! 0 = 0x00)"

text \<open>\<open>Ok None\<close> is a panic: the subtraction of the scalar's length from the field's, which
  only a field of no bytes and the scalar \<open>[0]\<close> reach.\<close>

definition ecc_extended_header_list ::
    "key_crt \<Rightarrow> ecc_private_key_parts \<Rightarrow> nat \<Rightarrow> (bytes option, scalar_too_wide) result" where
  "ecc_extended_header_list crt key flen =
     (let scalar = (if flen < length (ek_scalar key) then strip_leading_zero (ek_scalar key) else ek_scalar key) in
      if \<not> ecc_scalar_fits (ek_scalar key) flen then Err (ScalarTooWide (length scalar) flen)
      else if flen < length scalar then Ok None
      else
        (let template = key_template_entry 0x92 flen
               @ (case ek_public key of Some public \<Rightarrow> key_template_entry 0x99 (length public) | None \<Rightarrow> []);
             key_data = replicate (flen - length scalar) 0x00 @ scalar
               @ (case ek_public key of Some public \<Rightarrow> public | None \<Rightarrow> []);
             body = [crt_tag crt, 0x00] @ pgp_ber_tlv 0x7F48 template @ pgp_ber_tlv 0x5F48 key_data
         in Ok (Some (pgp_ber_tlv 0x4D body))))"

definition import_ecc_key ::
    "key_crt \<Rightarrow> ecc_private_key_parts \<Rightarrow> nat \<Rightarrow> (bytes option, scalar_too_wide) result" where
  "import_ecc_key crt key flen =
     bind_result (ecc_extended_header_list crt key flen) (\<lambda>header_list.
       Ok (Option.bind header_list (build_apdu_extended 0x00 INS_PUT_DATA_ODD 0x3F 0xFF)))"

definition import_ecc_key_chained ::
    "key_crt \<Rightarrow> ecc_private_key_parts \<Rightarrow> nat \<Rightarrow> nat \<Rightarrow> (bytes list option, scalar_too_wide) result" where
  "import_ecc_key_chained crt key flen max_chunk =
     bind_result (ecc_extended_header_list crt key flen) (\<lambda>header_list.
       Ok (Option.bind header_list (\<lambda>hl. put_data_odd_chained 0x3F 0xFF hl max_chunk)))"

subsection \<open>What the card reads\<close>

text \<open>The card's side of an import: the object's slot, its template of lengths, and the key
  data cut by those lengths.\<close>

fun read_template :: "nat \<Rightarrow> bytes \<Rightarrow> (byte \<times> nat) list option" where
  "read_template 0 bs = None"
| "read_template (Suc fuel) [] = Some []"
| "read_template (Suc fuel) (t # rest) =
     (case read_len rest 0 of
        Ok (len, n) \<Rightarrow> map_option (\<lambda>es. (t, len) # es) (read_template fuel (drop n rest))
      | Err _ \<Rightarrow> None)"

fun split_fields :: "(byte \<times> nat) list \<Rightarrow> bytes \<Rightarrow> (byte \<times> bytes) list option" where
  "split_fields [] data = (if data = [] then Some [] else None)"
| "split_fields ((t, n) # es) data =
     (if length data < n then None
      else map_option (\<lambda>fs. (t, take n data) # fs) (split_fields es (drop n data)))"

definition card_reads_import :: "bytes \<Rightarrow> (u16 \<times> (byte \<times> bytes) list) option" where
  "card_reads_import obj =
     (case pgp_parse_tlvs obj of
        Ok [hl] \<Rightarrow>
          if t_tag hl \<noteq> 0x4D then None
          else (case pgp_parse_tlvs (t_value hl) of
            Ok [slot, template, data] \<Rightarrow>
              if t_value slot \<noteq> [] \<or> t_tag template \<noteq> 0x7F48 \<or> t_tag data \<noteq> 0x5F48 then None
              else Option.bind (read_template (Suc (length (t_value template))) (t_value template)) (\<lambda>es.
                map_option (\<lambda>fs. (t_tag slot, fs)) (split_fields es (t_value data)))
          | _ \<Rightarrow> None)
      | _ \<Rightarrow> None)"

definition field_bytes :: "(byte \<times> bytes) list \<Rightarrow> bytes" where
  "field_bytes fs = concat (map (\<lambda>(t, v). key_template_entry t (length v)) fs)"

lemma read_template_entries:
  "list_all (\<lambda>(t, v). length v < 65536) fs \<Longrightarrow> length fs < fuel \<Longrightarrow>
    read_template fuel (field_bytes fs) = Some (map (\<lambda>(t, v). (t, length v)) fs)"
proof (induction fs arbitrary: fuel)
  case Nil
  then show ?case by (cases fuel) (simp_all add: field_bytes_def)
next
  case (Cons f fs)
  obtain t v where f: "f = (t, v)" by (cases f)
  from Cons.prems obtain k where k: "fuel = Suc k" "length fs < k" by (cases fuel) auto
  have "read_len (ber_len (length v) @ field_bytes fs) 0 = Ok (length v, length (ber_len (length v)))"
    using Cons.prems by (intro read_len_ber_len) (simp add: f)
  with Cons k f show ?case by (simp add: field_bytes_def)
qed

lemma split_fields_concat:
  "split_fields (map (\<lambda>(t, v). (t, length v)) fs) (concat (map snd fs)) = Some fs"
  by (induction fs) auto

lemma entry_count: "length fs \<le> length (field_bytes fs)"
  by (induction fs) (auto simp: field_bytes_def ber_len_def Let_def)

lemma field_bytes_length:
  "list_all (\<lambda>(t, v). length v < 65536) fs \<Longrightarrow> length (field_bytes fs) \<le> 4 * length fs"
proof (induction fs)
  case (Cons f fs)
  then show ?case using length_ber_len [of "length (snd f)"] by (cases f) (simp add: field_bytes_def)
qed (simp add: field_bytes_def)

lemma pgp_ber_tlv_length: "length v < 65536 \<Longrightarrow> length (pgp_ber_tlv t v) \<le> 5 + length v"
  using length_ber_len [of "length v"] tag_bytes_length [of t] by (simp add: pgp_ber_tlv_eq)

text \<open>The object made of any fields that fit.\<close>

definition header_list_of :: "key_crt \<Rightarrow> (byte \<times> bytes) list \<Rightarrow> bytes" where
  "header_list_of crt fs =
     pgp_ber_tlv 0x4D ([crt_tag crt, 0x00] @ pgp_ber_tlv 0x7F48 (field_bytes fs) @ pgp_ber_tlv 0x5F48 (concat (map snd fs)))"

lemma crt_object: "[crt_tag crt, 0x00] = pgp_ber_tlv (ucast (crt_tag crt)) []"
  by (cases crt) (simp_all add: pgp_ber_tlv_def ber_len_def)

lemma import_tags_ok: "tag_ok 0x4D" "tag_ok 0x7F48" "tag_ok 0x5F48" "tag_ok (ucast (crt_tag crt))"
  by (cases crt; simp add: tag_ok_def)+

lemma card_reads_header_list:
  assumes small: "length (concat (map snd fs)) + 4 * length fs < 65000"
  shows "card_reads_import (header_list_of crt fs) = Some (ucast (crt_tag crt), fs)"
proof -
  have fields: "list_all (\<lambda>(t, v). length v < 65536) fs"
    using small by (induction fs) (auto simp: list_all_iff)
  define body where "body = pgp_ber_tlv (ucast (crt_tag crt)) [] @ pgp_ber_tlv 0x7F48 (field_bytes fs)
    @ pgp_ber_tlv 0x5F48 (concat (map snd fs)) @ []"
  have eb: "length (field_bytes fs) < 65536" "length (concat (map snd fs)) < 65536"
    using field_bytes_length [OF fields] small by linarith+
  have blen: "length body < 65536"
    using pgp_ber_tlv_length [OF eb(1), of "0x7F48"] pgp_ber_tlv_length [OF eb(2), of "0x5F48"] field_bytes_length [OF fields] small
    unfolding body_def by (simp add: crt_object [symmetric])
  have lim: "(n :: nat) < 70000 \<Longrightarrow> n < usize_limit" for n by (simp add: usize_limit_def)
  have inner: "pgp_parse_tlvs body = Ok [tlv_of (ucast (crt_tag crt)) [], tlv_of 0x7F48 (field_bytes fs),
      tlv_of 0x5F48 (concat (map snd fs))]"
    using blen eb import_tags_ok unfolding body_def
    by (simp add: parse_tlvs_Cons lim del: append_Nil2)
  have "pgp_parse_tlvs (pgp_ber_tlv 0x4D body @ []) = Ok [tlv_of 0x4D body]"
    using blen import_tags_ok(1) pgp_ber_tlv_length [OF blen, of "0x4D"]
    by (subst parse_tlvs_Cons) (auto intro!: lim)
  then have outer: "pgp_parse_tlvs (header_list_of crt fs) = Ok [tlv_of 0x4D body]"
    by (simp add: header_list_of_def body_def crt_object del: append_Cons append_Nil)
  show ?thesis
    using entry_count [of fs]
    by (simp add: card_reads_import_def outer inner tlv_of_def read_template_entries [OF fields] split_fields_concat)
qed

lemma strip_leading_zero_value: "from_be (strip_leading_zero bs) = from_be bs"
  by (cases bs) (auto simp: strip_leading_zero_def)

lemma from_be_pad: "from_be (replicate k 0 @ bs) = from_be bs"
proof -
  have "from_be (replicate k 0) = 0" by (induction k) simp_all
  then show ?thesis by (simp add: from_be_append)
qed

lemma strip_leading_zero_length: "length (strip_leading_zero bs) \<le> length bs"
  by (simp add: strip_leading_zero_def)

definition rsa_fields :: "bytes \<Rightarrow> rsa_private_key_parts \<Rightarrow> rsa_import_format \<Rightarrow> (byte \<times> bytes) list" where
  "rsa_fields e key format =
     [(0x91, e), (0x92, strip_leading_zero (rk_p key)), (0x93, strip_leading_zero (rk_q key))]
     @ (if includes_crt format then
          [(0x94, strip_leading_zero (rk_u key)), (0x95, strip_leading_zero (rk_dp key)),
           (0x96, strip_leading_zero (rk_dq key))] else [])
     @ (if includes_modulus format then [(0x97, strip_leading_zero (rk_n key))] else [])"

lemma extended_header_list_eq:
  "extended_header_list crt key format e_bits = Ok obj \<longleftrightarrow>
    (\<exists>e. pad_exponent (rk_e key) (exponent_field e_bits) = Ok e \<and> obj = header_list_of crt (rsa_fields e key format))"
  by (auto simp: extended_header_list_def header_list_of_def rsa_fields_def field_bytes_def Let_def)

lemma pad_exponent_Ok:
  "pad_exponent e0 n = Ok e \<Longrightarrow> length e = n \<and> from_be e = from_be e0"
  by (auto simp: pad_exponent_def Let_def from_be_pad strip_leading_zero_value split: if_splits)

lemma exponent_field_le: "exponent_field e_bits \<le> 8192"
proof -
  have "unat e_bits < 65536" using unsigned_less [of e_bits, where ?'a = nat] by simp
  then show ?thesis unfolding exponent_field_def by linarith
qed

text \<open>C13: the object of an RSA import is split by the card, by the lengths of its own template,
  into the slot it was made for and exactly the parts its format asks for: the exponent in the width the
  card declared and with its value kept, and every other part without its sign byte.\<close>

theorem card_reads_rsa_import:
  assumes "extended_header_list crt key format e_bits = Ok obj"
    and "length (rk_p key) + length (rk_q key) + length (rk_u key) + length (rk_dp key) + length (rk_dq key)
      + length (rk_n key) < 56000"
  shows "\<exists>e. card_reads_import obj = Some (ucast (crt_tag crt), rsa_fields e key format)
    \<and> length e = exponent_field e_bits \<and> from_be e = from_be (rk_e key)
    \<and> map fst (rsa_fields e key format)
        = [0x91, 0x92, 0x93] @ (if includes_crt format then [0x94, 0x95, 0x96] else [])
            @ (if includes_modulus format then [0x97] else [])"
proof -
  from assms(1) obtain e where e: "pad_exponent (rk_e key) (exponent_field e_bits) = Ok e"
    and obj: "obj = header_list_of crt (rsa_fields e key format)" by (auto simp: extended_header_list_eq)
  have n: "length e = exponent_field e_bits" "from_be e = from_be (rk_e key)" using pad_exponent_Ok [OF e] by simp_all
  have "length (concat (map snd (rsa_fields e key format))) + 4 * length (rsa_fields e key format) < 65000"
    using assms(2) n(1) exponent_field_le [of e_bits]
      strip_leading_zero_length [of "rk_p key"] strip_leading_zero_length [of "rk_q key"]
      strip_leading_zero_length [of "rk_u key"] strip_leading_zero_length [of "rk_dp key"]
      strip_leading_zero_length [of "rk_dq key"] strip_leading_zero_length [of "rk_n key"]
    by (simp add: rsa_fields_def)
  from card_reads_header_list [OF this, of crt] obj n show ?thesis
    by (intro exI [of _ e]) (simp add: rsa_fields_def)
qed

definition sample_rsa :: rsa_private_key_parts where
  "sample_rsa = \<lparr>rk_e = [1, 0, 1], rk_p = [0, 0xC1], rk_q = [0xB5], rk_u = [7], rk_dp = [5], rk_dq = [9], rk_n = [0x88, 0x75]\<rparr>"

theorem card_reads_rsa_import_witness:
  "\<exists>obj e. extended_header_list CrtSign sample_rsa FmtCrt 32 = Ok obj
    \<and> card_reads_import obj = Some (0xB6, rsa_fields e sample_rsa FmtCrt) \<and> length e = 4"
proof -
  have "\<exists>obj. extended_header_list CrtSign sample_rsa FmtCrt 32 = Ok obj"
    by (simp add: extended_header_list_eq pad_exponent_def strip_leading_zero_def exponent_field_def sample_rsa_def)
  then obtain obj where "extended_header_list CrtSign sample_rsa FmtCrt 32 = Ok obj" by blast
  with card_reads_rsa_import [of CrtSign sample_rsa FmtCrt 32 obj] show ?thesis
    by (auto simp: exponent_field_def sample_rsa_def)
qed

lemma ecc_header_list_read:
  assumes "ecc_extended_header_list crt key flen = Ok (Some obj)"
    and "flen + (case ek_public key of Some pub \<Rightarrow> length pub | None \<Rightarrow> 0) < 64000"
  shows "\<exists>s. card_reads_import obj = Some (ucast (crt_tag crt), (0x92, s)
      # (case ek_public key of Some pub \<Rightarrow> [(0x99, pub)] | None \<Rightarrow> []))
    \<and> length s = flen \<and> from_be s = from_be (ek_scalar key)"
proof -
  define sc where "sc = (if flen < length (ek_scalar key) then strip_leading_zero (ek_scalar key) else ek_scalar key)"
  define s where "s = replicate (flen - length sc) 0 @ sc"
  have fits: "ecc_scalar_fits (ek_scalar key) flen"
    using assms(1) by (auto simp: ecc_extended_header_list_def Let_def split: if_splits)
  have len: "length sc \<le> flen"
    using assms(1) by (auto simp: ecc_extended_header_list_def Let_def sc_def split: if_splits)
  have obj: "obj = header_list_of crt ((0x92, s) # (case ek_public key of Some pub \<Rightarrow> [(0x99, pub)] | None \<Rightarrow> []))"
    using assms(1) fits len unfolding ecc_extended_header_list_def Let_def sc_def [symmetric]
    by (auto simp: header_list_of_def field_bytes_def s_def split: option.splits)
  have "from_be s = from_be (ek_scalar key)" "length s = flen"
    using len by (simp_all add: s_def from_be_pad) (simp add: sc_def strip_leading_zero_value)
  moreover from this have "card_reads_import obj = Some (ucast (crt_tag crt), (0x92, s)
      # (case ek_public key of Some pub \<Rightarrow> [(0x99, pub)] | None \<Rightarrow> []))"
    unfolding obj using assms(2) by (intro card_reads_header_list) (auto split: option.splits)
  ultimately show ?thesis by blast
qed

subsection \<open>The two forms of an import\<close>

text \<open>How ISO 7816 reads a chain of commands: every link but the last has the chaining class, all
  have the same instruction and parameters, and their bodies are one command.\<close>

fun short_link :: "bytes \<Rightarrow> (byte \<times> bytes \<times> bytes) option" where
  "short_link (cla # ins # p1 # p2 # lc # body) =
     (if unat lc = length body then Some (cla, [ins, p1, p2], body) else None)"
| "short_link _ = None"

fun reassemble_chain :: "bytes list \<Rightarrow> (bytes \<times> bytes) option" where
  "reassemble_chain [] = None"
| "reassemble_chain (l # ls) =
     (case short_link l of
        None \<Rightarrow> None
      | Some (cla, hdr, body) \<Rightarrow>
          if ls = [] then (if cla = 0x00 then Some (hdr, body) else None)
          else if cla \<noteq> 0x10 then None
          else (case reassemble_chain ls of
                  Some (hdr', rest) \<Rightarrow> if hdr' = hdr then Some (hdr, body @ rest) else None
                | None \<Rightarrow> None))"

fun read_extended :: "bytes \<Rightarrow> (bytes \<times> bytes) option" where
  "read_extended (cla # ins # p1 # p2 # z # hi # lo # body) =
     (if cla = 0x00 \<and> z = 0x00 \<and> from_be [hi, lo] = length body then Some ([ins, p1, p2], body) else None)"
| "read_extended _ = None"

lemma enumerate_last:
  "cs \<noteq> [] \<Longrightarrow> map (\<lambda>(i, c). f (i = length cs - 1) c) (enumerate 0 cs)
     = map (f False) (butlast cs) @ [f True (last cs)]"
proof -
  assume ne: "cs \<noteq> []"
  have "map (\<lambda>(i, c). f (i = k + length ds) c) (enumerate k (ds @ [c])) = map (f False) ds @ [f True c]" for k ds c
    by (induction ds arbitrary: k) (simp_all, metis add_Suc add_Suc_right)
  from this [of 0 "butlast cs" "last cs"] ne show ?thesis by simp
qed

lemma enumerate_link:
  "map (\<lambda>(i, c). [link_cla i (length cs - 1), ins, p1, p2, word_of_nat (length c)] @ c) (enumerate 0 cs)
    = map (\<lambda>(i, c). (\<lambda>l c. [if l then 0 else 0x10, ins, p1, p2, word_of_nat (length c)] @ c) (i = length cs - 1) c)
        (enumerate 0 cs)"
  by (intro map_cong refl) (auto simp: link_cla_def in_set_enumerate_eq)

lemma chunk_bounds: "c \<in> set (chunks n data) \<Longrightarrow> length c \<le> n"
  by (rule chunk_le)

lemma reassemble_links:
  "ds \<noteq> [] \<Longrightarrow> list_all (\<lambda>c. length c \<le> 255) ds \<Longrightarrow>
    reassemble_chain (map (\<lambda>c. [0x10, ins, p1, p2, word_of_nat (length c)] @ c) (butlast ds)
      @ [[0x00, ins, p1, p2, word_of_nat (length (last ds))] @ last ds]) = Some ([ins, p1, p2], concat ds)"
  by (induction ds) (auto simp: unat_of_nat list_all_iff)

lemma put_data_chain_reassembles:
  assumes "put_data_odd_chained p1 p2 data n = Some links"
  shows "reassemble_chain links = Some ([INS_PUT_DATA_ODD, p1, p2], data)
    \<and> list_all (\<lambda>l. length l \<le> 5 + n) links"
proof (cases "data = []")
  case True
  with assms show ?thesis by (auto simp: put_data_odd_chained_def split: if_splits)
next
  case False
  have n: "1 \<le> n" "n \<le> 255" using assms by (auto simp: put_data_odd_chained_def split: if_splits)
  define cs where "cs = chunks n data"
  have ne: "cs \<noteq> []" using False n by (simp add: cs_def chunks_step)
  have le: "list_all (\<lambda>c. length c \<le> n) cs" by (auto simp: cs_def list_all_iff dest: chunk_le)
  have links: "links = map (\<lambda>c. [0x10, INS_PUT_DATA_ODD, p1, p2, word_of_nat (length c)] @ c) (butlast cs)
      @ [[0x00, INS_PUT_DATA_ODD, p1, p2, word_of_nat (length (last cs))] @ last cs]"
  proof -
    have "links = map (\<lambda>(i, c). [link_cla i (length cs - 1), INS_PUT_DATA_ODD, p1, p2, word_of_nat (length c)] @ c)
        (enumerate 0 cs)"
      using assms False n by (simp add: put_data_odd_chained_def Let_def cs_def [symmetric])
    also note enumerate_link
    also note enumerate_last [OF ne]
    finally show ?thesis by simp
  qed
  have le': "list_all (\<lambda>c. length c \<le> 255) cs" using le n by (auto simp: list_all_iff)
  have "concat cs = data" using n by (simp add: cs_def)
  with reassemble_links [OF ne le'] links have "reassemble_chain links = Some ([INS_PUT_DATA_ODD, p1, p2], data)" by simp
  moreover have "list_all (\<lambda>l. length l \<le> 5 + n) links"
    using le ne unfolding links by (auto simp: list_all_iff dest: in_set_butlastD)
  ultimately show ?thesis by blast
qed

lemma put_data_chain_exists: "1 \<le> n \<Longrightarrow> n \<le> 255 \<Longrightarrow> \<exists>links. put_data_odd_chained p1 p2 data n = Some links"
  by (simp add: put_data_odd_chained_def Let_def)

lemma extended_reads:
  assumes "build_apdu_extended 0x00 ins p1 p2 data = Some apdu"
  shows "read_extended apdu = Some ([ins, p1, p2], data)"
proof -
  have len: "length data < 65536" using assms by (auto simp: build_apdu_extended_def split: if_splits)
  then have "unat (word_of_nat (length data) :: u16) = length data" by (simp add: unat_of_nat)
  then have "from_be [hi_byte (word_of_nat (length data)), lo_byte (word_of_nat (length data))] = length data"
    using unat_low_byte [of 8 "word_of_nat (length data) :: u16"] unat_low_byte [of 0 "word_of_nat (length data) :: u16"] len
    by (simp add: hi_byte_def lo_byte_def unat_drop_bit unsigned_ucast_eq take_bit_eq_mod)
  with assms len show ?thesis by (auto simp: build_apdu_extended_def Let_def)
qed

text \<open>C12: the chained form of an RSA import and its extended form carry the same command: the card
  that reassembles the links (each at most the chosen size) reads the instruction, the parameters and
  the object that a card taking the extended command reads.\<close>

theorem import_forms_agree:
  assumes "import_rsa_key crt key format e_bits = Ok (Some apdu)" "1 \<le> n" "n \<le> 255"
  shows "\<exists>links obj. import_rsa_key_chained crt key format e_bits n = Ok (Some links)
    \<and> extended_header_list crt key format e_bits = Ok obj
    \<and> reassemble_chain links = Some ([0xDB, 0x3F, 0xFF], obj)
    \<and> read_extended apdu = Some ([0xDB, 0x3F, 0xFF], obj)
    \<and> list_all (\<lambda>l. length l \<le> 5 + n) links"
proof -
  from assms(1) obtain obj where o: "extended_header_list crt key format e_bits = Ok obj"
    "build_apdu_extended 0x00 INS_PUT_DATA_ODD 0x3F 0xFF obj = Some apdu" by (auto simp: import_rsa_key_def)
  obtain links where l: "put_data_odd_chained 0x3F 0xFF obj n = Some links"
    using put_data_chain_exists [OF assms(2,3)] by blast
  with o extended_reads [OF o(2)] put_data_chain_reassembles [OF l] show ?thesis
    by (auto simp: import_rsa_key_chained_def INS_PUT_DATA_ODD_def)
qed

theorem import_forms_agree_witness:
  "\<exists>apdu links. import_rsa_key CrtSign sample_rsa FmtCrt 32 = Ok (Some apdu)
    \<and> import_rsa_key_chained CrtSign sample_rsa FmtCrt 32 254 = Ok (Some links)
    \<and> reassemble_chain links = read_extended apdu"
proof -
  have "\<exists>obj. extended_header_list CrtSign sample_rsa FmtCrt 32 = Ok obj \<and> length obj \<le> 0xFFFF"
    by (simp add: extended_header_list_eq pad_exponent_def strip_leading_zero_def exponent_field_def sample_rsa_def
        header_list_of_def rsa_fields_def includes_crt_def includes_modulus_def field_bytes_def pgp_ber_tlv_def ber_len_def Let_def)
  then obtain apdu where "import_rsa_key CrtSign sample_rsa FmtCrt 32 = Ok (Some apdu)"
    by (auto simp: import_rsa_key_def build_apdu_extended_def Let_def)
  with import_forms_agree [of CrtSign sample_rsa FmtCrt 32 apdu 254] show ?thesis by auto
qed

end
