(* ===== verification/Pgp_Data.thy ===== *)
theory Pgp_Data
  imports Pgp_Key
begin

text \<open>
  \<^verbatim>\<open>crates/keyroost-openpgp/src/lib.rs\<close>, what the card answers: the PIN status, the
  Application Related Data with the algorithms and fingerprints of the three slots, the Algorithm
  Information, the signature counter and the public key of a slot.  Each reader takes the bare value of
  its object or the object with its envelope.
\<close>

record pw_status =
  pw1_valid_multiple :: bool
  max_pw1 :: byte
  max_rc :: byte
  max_pw3 :: byte
  tries_pw1 :: byte
  tries_rc :: byte
  tries_pw3 :: byte

definition parse_pw_status :: "bytes \<Rightarrow> (pw_status, pgp_parse_error) result" where
  "parse_pw_status buf =
     (if length buf \<noteq> 7 then Err PgpUnexpectedLength
      else Ok \<lparr>pw1_valid_multiple = (buf ! 0 = 0x01), max_pw1 = buf ! 1, max_rc = buf ! 2, max_pw3 = buf ! 3,
               tries_pw1 = buf ! 4, tries_rc = buf ! 5, tries_pw3 = buf ! 6\<rparr>)"

record app_related_data =
  ard_aid :: bytes
  algo_attr_sig :: bytes
  algo_attr_dec :: bytes
  algo_attr_aut :: bytes
  ard_pw_status :: pw_status
  fingerprint_sig :: bytes
  fingerprint_dec :: bytes
  fingerprint_aut :: bytes

definition first_byte :: "bytes \<Rightarrow> byte option" where
  "first_byte bs = (case bs of [] \<Rightarrow> None | b # _ \<Rightarrow> Some b)"

definition sig_algo_id :: "app_related_data \<Rightarrow> byte option" where
  "sig_algo_id d = first_byte (algo_attr_sig d)"
definition dec_algo_id :: "app_related_data \<Rightarrow> byte option" where
  "dec_algo_id d = first_byte (algo_attr_dec d)"
definition aut_algo_id :: "app_related_data \<Rightarrow> byte option" where
  "aut_algo_id d = first_byte (algo_attr_aut d)"

text \<open>\<^verbatim>\<open>find_nested(..).ok_or(ParseError::MissingTag(..))\<close>\<close>

definition required :: "pgp_tlv list \<Rightarrow> u16 \<Rightarrow> (bytes, pgp_parse_error) result" where
  "required tlvs tag = ok_or (PgpMissingTag tag) (find_nested tlvs tag)"

text \<open>The value inside the envelope, or the buffer itself.\<close>

definition unwrap_object :: "u16 \<Rightarrow> bytes \<Rightarrow> (bytes, pgp_parse_error) result" where
  "unwrap_object tag buf =
     bind_result (pgp_parse_tlvs buf) (\<lambda>tops.
       Ok (case pgp_find_tag tops tag of Some v \<Rightarrow> v | None \<Rightarrow> buf))"

definition parse_application_related_data :: "bytes \<Rightarrow> (app_related_data, pgp_parse_error) result" where
  "parse_application_related_data buf =
     bind_result (unwrap_object TAG_APPLICATION_RELATED_DATA buf) (\<lambda>inner.
     bind_result (pgp_parse_tlvs inner) (\<lambda>tlvs.
     bind_result (required tlvs TAG_AID) (\<lambda>aid.
     bind_result (required tlvs (algo_attr_tag CrtSign)) (\<lambda>sig.
     bind_result (required tlvs (algo_attr_tag CrtDecrypt)) (\<lambda>dec.
     bind_result (required tlvs (algo_attr_tag CrtAuth)) (\<lambda>aut.
     bind_result (required tlvs TAG_PW_STATUS) (\<lambda>pw_raw.
     bind_result (parse_pw_status pw_raw) (\<lambda>pw.
     bind_result (required tlvs TAG_FINGERPRINTS) (\<lambda>fpr.
       if length fpr < 60 then Err PgpUnexpectedLength
       else Ok \<lparr>ard_aid = aid, algo_attr_sig = sig, algo_attr_dec = dec, algo_attr_aut = aut,
                ard_pw_status = pw, fingerprint_sig = take 20 fpr,
                fingerprint_dec = take 20 (drop 20 fpr), fingerprint_aut = take 20 (drop 40 fpr)\<rparr>)))))))))"

record algorithm_information =
  ai_sig :: "bytes list"
  ai_dec :: "bytes list"
  ai_aut :: "bytes list"

fun ai_raw :: "algorithm_information \<Rightarrow> key_crt \<Rightarrow> bytes list" where
  "ai_raw info CrtSign = ai_sig info"
| "ai_raw info CrtDecrypt = ai_dec info"
| "ai_raw info CrtAuth = ai_aut info"

definition attr_alg :: "bytes \<Rightarrow> key_alg option" where
  "attr_alg attr = (case parse_algorithm_attributes attr of Ok a \<Rightarrow> attr_key_alg a | Err _ \<Rightarrow> None)"

definition ai_key_algs :: "algorithm_information \<Rightarrow> key_crt \<Rightarrow> key_alg list" where
  "ai_key_algs info crt =
     foldl (\<lambda>out attr.
       (case attr_alg attr of
          Some alg \<Rightarrow> if alg \<in> set out then out else out @ [alg]
        | None \<Rightarrow> out)) [] (ai_raw info crt)"

definition values_of :: "u16 \<Rightarrow> pgp_tlv list \<Rightarrow> bytes list" where
  "values_of tag tlvs = map t_value (filter (\<lambda>t. t_tag t = tag) tlvs)"

definition parse_algorithm_information :: "bytes \<Rightarrow> (algorithm_information, pgp_parse_error) result" where
  "parse_algorithm_information buf =
     bind_result (unwrap_object TAG_ALGORITHM_INFORMATION buf) (\<lambda>inner.
     bind_result (pgp_parse_tlvs inner) (\<lambda>tlvs.
       let info = \<lparr>ai_sig = values_of (algo_attr_tag CrtSign) tlvs,
                   ai_dec = values_of (algo_attr_tag CrtDecrypt) tlvs,
                   ai_aut = values_of (algo_attr_tag CrtAuth) tlvs\<rparr>
       in if ai_sig info = [] \<and> ai_dec info = [] \<and> ai_aut info = [] then Err (PgpMissingTag TAG_ALGORITHM_INFORMATION)
          else Ok info))"

definition parse_signature_counter :: "bytes \<Rightarrow> (u32, pgp_parse_error) result" where
  "parse_signature_counter buf =
     bind_result (unwrap_object TAG_SECURITY_SUPPORT buf) (\<lambda>inner.
     bind_result (pgp_parse_tlvs inner) (\<lambda>tlvs.
     bind_result (required tlvs TAG_DS_COUNTER) (\<lambda>v.
       if length v \<noteq> 3 then Err PgpUnexpectedLength
       else Ok (push_bit 16 (ucast (v ! 0)) OR push_bit 8 (ucast (v ! 1)) OR ucast (v ! 2)))))"

definition parse_generated_public_key :: "bytes \<Rightarrow> (pgp_public_key, pgp_parse_error) result" where
  "parse_generated_public_key buf =
     bind_result (unwrap_object TAG_PUBLIC_KEY buf) (\<lambda>inner.
     bind_result (pgp_parse_tlvs inner) (\<lambda>tlvs.
       case find_nested tlvs TAG_EC_PUBLIC_POINT of
         Some point \<Rightarrow> Ok (PgpEcc point)
       | None \<Rightarrow>
           bind_result (required tlvs TAG_RSA_MODULUS) (\<lambda>modulus.
           bind_result (required tlvs TAG_RSA_EXPONENT) (\<lambda>exponent.
             Ok (PgpRsa modulus exponent)))))"

subsection \<open>Envelopes\<close>

lemma usize_small: "n < 2 ^ 20 \<Longrightarrow> n < usize_limit"
  by (simp add: usize_limit_def)

lemma parse_one_object:
  assumes "tag_ok t" "length v < 65536"
  shows "pgp_parse_tlvs (pgp_ber_tlv t v) = Ok [tlv_of t v]"
proof -
  have "length (pgp_ber_tlv t v @ []) < usize_limit"
    using pgp_ber_tlv_length [OF assms(2), of t] assms(2) by (intro usize_small) simp
  from parse_tlvs_Cons [OF assms this] show ?thesis by simp
qed

lemma unwrap_envelope:
  assumes "tag_ok t" "length v < 65536"
  shows "unwrap_object t (pgp_ber_tlv t v) = Ok v"
  by (simp add: unwrap_object_def parse_one_object [OF assms] pgp_find_tag_def tlv_of_def
      del: bind_result_eq_Ok)

lemma unwrap_bare:
  "pgp_parse_tlvs v = Ok ts \<Longrightarrow> pgp_find_tag ts t = None \<Longrightarrow> unwrap_object t v = Ok v"
  by (simp add: unwrap_object_def del: bind_result_eq_Ok)

lemma envelope_tags_ok:
  "tag_ok TAG_APPLICATION_RELATED_DATA" "tag_ok TAG_ALGORITHM_INFORMATION"
  "tag_ok TAG_SECURITY_SUPPORT" "tag_ok TAG_PUBLIC_KEY"
  by (simp_all add: tag_ok_def TAG_APPLICATION_RELATED_DATA_def TAG_ALGORITHM_INFORMATION_def
      TAG_SECURITY_SUPPORT_def TAG_PUBLIC_KEY_def)

lemma envelope_or_bare:
  assumes "tag_ok t" "length v < 65536" "pgp_parse_tlvs v = Ok ts" "pgp_find_tag ts t = None"
  shows "unwrap_object t (pgp_ber_tlv t v) = unwrap_object t v"
  by (simp only: unwrap_envelope [OF assms(1,2)] unwrap_bare [OF assms(3,4)])

subsection \<open>A card's Application Related Data\<close>

text \<open>The object as cards send it: the AID and the historical bytes, then the discretionary
  objects, whose fingerprints may be followed by more slots.\<close>

definition ard_object :: "bytes \<Rightarrow> bytes \<Rightarrow> bytes \<Rightarrow> bytes \<Rightarrow> bytes \<Rightarrow> bytes \<Rightarrow> bytes \<Rightarrow> bytes \<Rightarrow> bytes" where
  "ard_object aid hist caps c1 c2 c3 pw fprs =
     pgp_ber_tlv 0x4F aid @ pgp_ber_tlv 0x5F52 hist
       @ pgp_ber_tlv 0x73 (pgp_ber_tlv 0xC0 caps @ pgp_ber_tlv 0xC1 c1 @ pgp_ber_tlv 0xC2 c2 @ pgp_ber_tlv 0xC3 c3
           @ pgp_ber_tlv 0xC4 pw @ pgp_ber_tlv 0xC5 fprs)"

lemma ard_tags_ok:
  "tag_ok 0x4F" "tag_ok 0x5F52" "tag_ok 0x73" "tag_ok 0xC0" "tag_ok 0xC1" "tag_ok 0xC2" "tag_ok 0xC3"
  "tag_ok 0xC4" "tag_ok 0xC5"
  by (simp_all add: tag_ok_def)

lemma ard_constructed: "\<not> tag_constructed 0x4F" "\<not> tag_constructed 0x5F52" "tag_constructed 0x73"
  by (simp_all add: tag_constructed_def bit_numeral_rec)

lemma parse_objects:
  assumes "list_all (\<lambda>(t, v). tag_ok t) objs" "sum_list (map (\<lambda>(t, v). length v + 5) objs) < 65000"
  shows "pgp_parse_tlvs (concat (map (\<lambda>(t, v). pgp_ber_tlv t v) objs)) = Ok (map (\<lambda>(t, v). tlv_of t v) objs)"
    and "length (concat (map (\<lambda>(t, v). pgp_ber_tlv t v) objs)) < 65000"
proof -
  have len: "length (concat (map (\<lambda>(t, v). pgp_ber_tlv t v) objs)) \<le> sum_list (map (\<lambda>(t, v). length v + 5) objs)"
    using assms(2)
  proof (induction objs)
    case (Cons o' objs)
    obtain t v where o: "o' = (t, v)" by (cases o')
    with Cons.prems have "length v < 65536" by simp
    with Cons o pgp_ber_tlv_length [of v t] show ?case by simp
  qed simp
  with assms(2) show "length (concat (map (\<lambda>(t, v). pgp_ber_tlv t v) objs)) < 65000" by simp
  then have lim: "length (concat (map (\<lambda>(t, v). pgp_ber_tlv t v) objs)) < usize_limit" by (intro usize_small) simp
  have small: "list_all (\<lambda>(t, v). tag_ok t \<and> length v < 65536) objs"
    using assms
  proof (induction objs)
    case (Cons o' objs)
    then show ?case by (cases o') auto
  qed simp
  show "pgp_parse_tlvs (concat (map (\<lambda>(t, v). pgp_ber_tlv t v) objs)) = Ok (map (\<lambda>(t, v). tlv_of t v) objs)"
    using small lim
  proof (induction objs)
    case (Cons o' objs)
    then show ?case by (cases o') (auto simp: parse_tlvs_Cons)
  qed simp
qed

lemma find_nested_flat:
  "list_all (\<lambda>t. \<not> t_constructed t) ts \<Longrightarrow> find_nested_within (Suc k) ts tag = pgp_find_tag ts tag"
  by (induction ts) (auto simp: pgp_find_tag_def)

lemma find_nested_within_cases:
  "t_tag t = tag \<Longrightarrow> find_nested_within (Suc (Suc k)) (t # ts) tag = Some (t_value t)"
  "t_tag t \<noteq> tag \<Longrightarrow> \<not> t_constructed t \<Longrightarrow>
    find_nested_within (Suc (Suc k)) (t # ts) tag = find_nested_within (Suc (Suc k)) ts tag"
  "t_tag t \<noteq> tag \<Longrightarrow> t_constructed t \<Longrightarrow> pgp_parse_tlvs (t_value t) = Ok cs \<Longrightarrow>
    list_all (\<lambda>t. \<not> t_constructed t) cs \<Longrightarrow> pgp_find_tag cs tag = Some v \<Longrightarrow>
    find_nested_within (Suc (Suc k)) (t # ts) tag = Some v"
  by (simp_all add: find_nested_flat)

lemma find_nested_depth: "find_nested ts tag = find_nested_within (Suc (Suc 14)) ts tag"
  by (simp add: find_nested_def NEST_DEPTH_LIMIT_def del: find_nested_within.simps)

lemmas find_nested_here = find_nested_within_cases(1) [of _ _ 14, folded find_nested_depth]
lemmas find_nested_skip = find_nested_within_cases(2) [of _ _ 14, folded find_nested_depth]
lemmas find_nested_child = find_nested_within_cases(3) [of _ _ _ _ 14, folded find_nested_depth]

lemma find_tag_objects:
  "pgp_find_tag (map (\<lambda>(t, v). tlv_of t v) objs) tag = map_of objs tag"
  by (induction objs) (auto simp: pgp_find_tag_def tlv_of_def)

lemma ard_object_read:
  assumes "length aid + length hist + length caps + length c1 + length c2 + length c3 + length fprs < 60000"
    and "length pw = 7" "60 \<le> length fprs"
  shows "\<exists>d. parse_application_related_data (pgp_ber_tlv 0x6E (ard_object aid hist caps c1 c2 c3 pw fprs)) = Ok d
    \<and> parse_application_related_data (ard_object aid hist caps c1 c2 c3 pw fprs) = Ok d
    \<and> ard_aid d = aid \<and> algo_attr_sig d = c1 \<and> algo_attr_dec d = c2 \<and> algo_attr_aut d = c3
    \<and> [tries_pw1 (ard_pw_status d), tries_rc (ard_pw_status d), tries_pw3 (ard_pw_status d)] = drop 4 pw
    \<and> fingerprint_sig d @ fingerprint_dec d @ fingerprint_aut d = take 60 fprs"
proof -
  define inner where "inner = [(0xC0 :: u16, caps), (0xC1, c1), (0xC2, c2), (0xC3, c3), (0xC4, pw), (0xC5, fprs)]"
  define v73 where "v73 = concat (map (\<lambda>(t, v). pgp_ber_tlv t v) inner)"
  define outer where "outer = [(0x4F :: u16, aid), (0x5F52, hist), (0x73, v73)]"
  have v73: "pgp_parse_tlvs v73 = Ok (map (\<lambda>(t, v). tlv_of t v) inner)" and "length v73 < 65000"
    using parse_objects [of inner] assms(1,2) ard_tags_ok unfolding v73_def by (simp_all add: inner_def)
  have len73: "length v73 \<le> length caps + length c1 + length c2 + length c3 + length pw + length fprs + 30"
    using pgp_ber_tlv_length [of caps "0xC0"] pgp_ber_tlv_length [of c1 "0xC1"] pgp_ber_tlv_length [of c2 "0xC2"]
      pgp_ber_tlv_length [of c3 "0xC3"] pgp_ber_tlv_length [of pw "0xC4"] pgp_ber_tlv_length [of fprs "0xC5"] assms(1,2)
    by (simp add: v73_def inner_def)
  have obj: "ard_object aid hist caps c1 c2 c3 pw fprs = concat (map (\<lambda>(t, v). pgp_ber_tlv t v) outer)"
    by (simp add: ard_object_def outer_def v73_def inner_def)
  have parsed: "pgp_parse_tlvs (ard_object aid hist caps c1 c2 c3 pw fprs) = Ok (map (\<lambda>(t, v). tlv_of t v) outer)"
    and small: "length (ard_object aid hist caps c1 c2 c3 pw fprs) < 65536"
    using parse_objects [of outer] assms(1,2) len73 ard_tags_ok unfolding obj by (simp_all add: outer_def)
  have none: "pgp_find_tag (map (\<lambda>(t, v). tlv_of t v) outer) TAG_APPLICATION_RELATED_DATA = None"
    by (simp add: pgp_find_tag_def outer_def tlv_of_def TAG_APPLICATION_RELATED_DATA_def)
  note bare = unwrap_bare [OF parsed none]
  note env = unwrap_envelope [OF envelope_tags_ok(1) small, unfolded TAG_APPLICATION_RELATED_DATA_def]
  have req: "required (map (\<lambda>(t, v). tlv_of t v) outer) TAG_AID = Ok aid"
    "required (map (\<lambda>(t, v). tlv_of t v) outer) 0xC1 = Ok c1"
    "required (map (\<lambda>(t, v). tlv_of t v) outer) 0xC2 = Ok c2"
    "required (map (\<lambda>(t, v). tlv_of t v) outer) 0xC3 = Ok c3"
    "required (map (\<lambda>(t, v). tlv_of t v) outer) TAG_PW_STATUS = Ok pw"
    "required (map (\<lambda>(t, v). tlv_of t v) outer) TAG_FINGERPRINTS = Ok fprs"
  proof -
    have prim: "list_all (\<lambda>t. \<not> t_constructed t) (map (\<lambda>(t, v). tlv_of t v) inner)"
      by (simp add: inner_def tlv_of_def tag_constructed_def bit_numeral_rec)
    have o: "map (\<lambda>(t, v). tlv_of t v) outer = [tlv_of 0x4F aid, tlv_of 0x5F52 hist, tlv_of 0x73 v73]"
      by (simp add: outer_def)
    have p: "\<not> t_constructed (tlv_of 0x4F aid)" "\<not> t_constructed (tlv_of 0x5F52 hist)"
      "t_constructed (tlv_of 0x73 v73)" using ard_constructed by (simp_all add: tlv_of_def)
    have t: "t_tag (tlv_of t v) = t" "t_value (tlv_of t v) = v" for t v by (simp_all add: tlv_of_def)
    have child: "find_nested (map (\<lambda>(t, v). tlv_of t v) outer) tag = Some v"
      if "map_of inner tag = Some v" "tag \<noteq> 0x4F" "tag \<noteq> 0x5F52" "tag \<noteq> 0x73" for tag v
      using that p v73 prim unfolding o
      by (simp add: find_nested_skip find_nested_child t find_tag_objects)
    show "required (map (\<lambda>(t, v). tlv_of t v) outer) TAG_AID = Ok aid"
      unfolding o by (simp add: required_def find_nested_here t TAG_AID_def)
    show "required (map (\<lambda>(t, v). tlv_of t v) outer) 0xC1 = Ok c1"
      "required (map (\<lambda>(t, v). tlv_of t v) outer) 0xC2 = Ok c2"
      "required (map (\<lambda>(t, v). tlv_of t v) outer) 0xC3 = Ok c3"
      "required (map (\<lambda>(t, v). tlv_of t v) outer) TAG_PW_STATUS = Ok pw"
      "required (map (\<lambda>(t, v). tlv_of t v) outer) TAG_FINGERPRINTS = Ok fprs"
      by (simp_all add: required_def child inner_def TAG_PW_STATUS_def TAG_FINGERPRINTS_def)
  qed
  have fp: "take 20 fprs @ take 20 (drop 20 fprs) @ take 20 (drop 40 fprs) = take 60 fprs"
    using take_add [of 20 20 fprs] take_add [of 40 20 fprs] by simp
  obtain p where p: "parse_pw_status pw = Ok p" "[tries_pw1 p, tries_rc p, tries_pw3 p] = drop 4 pw"
    using assms(2) by (auto simp: parse_pw_status_def numeral_eq_Suc length_Suc_conv)
  show ?thesis
    using assms(3) fp p
    by (simp add: parse_application_related_data_def TAG_APPLICATION_RELATED_DATA_def env
        bare [unfolded TAG_APPLICATION_RELATED_DATA_def] parsed req del: bind_result_eq_Ok)
qed



subsection \<open>Listed algorithms\<close>

lemma key_algs_fold:
  "distinct out \<Longrightarrow>
    (let r = foldl (\<lambda>out attr. (case attr_alg attr of
          Some alg \<Rightarrow> if alg \<in> set out then out else out @ [alg] | None \<Rightarrow> out)) out attrs
     in distinct r \<and> set r = set out \<union> {alg. \<exists>attr\<in>set attrs. attr_alg attr = Some alg})"
proof (induction attrs arbitrary: out)
  case (Cons attr attrs)
  show ?case
  proof (cases "attr_alg attr")
    case None
    with Cons.IH [OF Cons.prems] show ?thesis by (auto simp: Let_def)
  next
    case (Some alg)
    have "distinct (if alg \<in> set out then out else out @ [alg])" using Cons.prems by simp
    from Cons.IH [OF this] Some show ?thesis by (auto simp: Let_def)
  qed
qed (simp add: Let_def)

lemma ai_key_algs_set:
  "distinct (ai_key_algs info crt)"
  "set (ai_key_algs info crt) = {alg. \<exists>attr\<in>set (ai_raw info crt). attr_alg attr = Some alg}"
  using key_algs_fold [of "[]" "ai_raw info crt"] by (simp_all add: ai_key_algs_def Let_def)

subsection \<open>Public keys\<close>

lemma public_key_read:
  assumes "length n + length e < 60000"
  shows "parse_generated_public_key (pgp_ber_tlv 0x7F49 (pgp_ber_tlv 0x81 n @ pgp_ber_tlv 0x82 e)) = Ok (PgpRsa n e)"
proof -
  define objs where "objs = [(0x81 :: u16, n), (0x82, e)]"
  have p: "pgp_parse_tlvs (pgp_ber_tlv 0x81 n @ pgp_ber_tlv 0x82 e) = Ok (map (\<lambda>(t, v). tlv_of t v) objs)"
    and l: "length (pgp_ber_tlv 0x81 n @ pgp_ber_tlv 0x82 e) < 65536"
    using parse_objects [of objs] assms by (simp_all add: objs_def tag_ok_def)
  have prim: "\<not> t_constructed (tlv_of 0x81 n)" "\<not> t_constructed (tlv_of 0x82 e)"
    by (simp_all add: tlv_of_def tag_constructed_def bit_numeral_rec)
  have t: "t_tag (tlv_of t v) = t" "t_value (tlv_of t v) = v" for t v by (simp_all add: tlv_of_def)
  have nil: "find_nested [] tag = None" for tag by (simp add: find_nested_def NEST_DEPTH_LIMIT_def numeral_eq_Suc)
  have "unwrap_object 0x7F49 (pgp_ber_tlv 0x7F49 (pgp_ber_tlv 0x81 n @ pgp_ber_tlv 0x82 e)) = Ok (pgp_ber_tlv 0x81 n @ pgp_ber_tlv 0x82 e)"
    using unwrap_envelope [OF envelope_tags_ok(4) l] by (simp add: TAG_PUBLIC_KEY_def)
  then show ?thesis
    by (simp add: parse_generated_public_key_def TAG_PUBLIC_KEY_def p objs_def required_def nil prim t
        find_nested_skip find_nested_here TAG_EC_PUBLIC_POINT_def TAG_RSA_MODULUS_def TAG_RSA_EXPONENT_def
        del: bind_result_eq_Ok)
qed

end
