(* ===== verification/Applet_Io.thy ===== *)
theory Applet_Io
  imports Pgp_Data
begin

text \<open>
  \<^verbatim>\<open>crates/keyroost-transport/src/lib.rs\<close>, the exchange of one applet command: status
  words, the reassembly of answers split over \<^verbatim>\<open>61xx\<close> and the correction of
  \<^verbatim>\<open>6Cxx\<close> (\<open>transmit_applet\<close>), and \<^verbatim>\<open>recover.rs\<close>, the one retry
  of an opening.  A card is a function from everything it was sent so far, the last command at the end, to
  its raw answer or the PC/SC error; so the state of a session is the list of commands sent.  Of the trace
  the redaction of what it shows is modelled, its lines are not.
\<close>

datatype pcsc_error = NoSmartcard | ResetCard | RemovedCard | NotTransacted | OtherPcsc nat

text \<open>The errors of the applet layer and of OpenPGP sessions among
  \<^verbatim>\<open>TransportError\<close>'s, with prose arguments as byte strings.\<close>

datatype applet_error =
    PcscUnavailable pcsc_error
  | Pcsc pcsc_error
  | ApduRejected bytes byte byte
  | ShortResponse bytes nat nat
  | MalformedResponse bytes
  | OpenPgpParse pgp_parse_error
  | NoOpenPgpApplet
  | OpenPgpPinRejected "byte option"
  | OpenPgpPinGuessAccepted
  | HostRngFailed
  | OpenPgpExponentTooWide
  | OpenPgpSlotMismatch slot_mismatch
  | OpenPgpSlotNotRsa bytes bytes
  | OpenPgpAlgorithmRefused bytes bytes
  | OpenPgpFingerprintMismatch bytes
  | OpenPgpKeySetPartial "bytes list" bytes bool applet_error
  | OpenPgpKeyNotForAlgorithm bytes bytes

text \<open>An operation stops with an error, or by a panic.\<close>

datatype stop = Fault applet_error | Panic

subsection \<open>Status words\<close>

definition sw_tries_remaining :: "u16 \<Rightarrow> byte option" where
  "sw_tries_remaining sw = (if sw AND 0xFFF0 = 0x63C0 then Some (ucast (sw AND 0x000F)) else None)"

definition auth_tries_remaining :: "byte \<Rightarrow> byte option" where
  "auth_tries_remaining sw2 =
     (case sw_tries_remaining (0x6300 OR ucast sw2) of
        Some n \<Rightarrow> Some n
      | None \<Rightarrow> if 0x01 \<le> sw2 \<and> sw2 \<le> 0x0F then Some sw2 else None)"

fun iso_sw_description :: "byte \<Rightarrow> byte \<Rightarrow> bytes option" where
  "iso_sw_description sw1 sw2 =
     (if sw1 = 0x90 \<and> sw2 = 0x00 then Some (ascii ''success'')
      else if sw1 = 0x61 then
        Some (ascii ''success '' @ [0xE2, 0x80, 0x94] @ ascii '' more response bytes pending, GET RESPONSE needed'')
      else if sw1 = 0x63 \<and> sw2 = 0x00 then Some (ascii ''verification failed'')
      else if sw1 = 0x63 \<and> sw2 AND 0xF0 = 0xC0 then
        Some (ascii ''verification failed '' @ [0xE2, 0x80, 0x94] @ ascii '' retries remaining in SW2 low nibble'')
      else if sw1 = 0x69 \<and> sw2 = 0x82 then
        Some (ascii ''security status not satisfied '' @ [0xE2, 0x80, 0x94] @ ascii '' authenticate first'')
      else if sw1 = 0x69 \<and> sw2 = 0x83 then Some (ascii ''authentication method blocked'')
      else if sw1 = 0x69 \<and> sw2 = 0x85 then Some (ascii ''conditions of use not satisfied'')
      else if sw1 = 0x69 \<and> sw2 = 0x86 then Some (ascii ''command not allowed'')
      else if sw1 = 0x6A \<and> sw2 = 0x80 then Some (ascii ''incorrect parameters in the command data field'')
      else if sw1 = 0x6A \<and> sw2 = 0x81 then Some (ascii ''function not supported'')
      else if sw1 = 0x6A \<and> sw2 = 0x82 then Some (ascii ''file or application not found'')
      else if sw1 = 0x6A \<and> sw2 = 0x84 then Some (ascii ''not enough memory'')
      else if sw1 = 0x6A \<and> sw2 = 0x86 then Some (ascii ''incorrect P1/P2'')
      else if sw1 = 0x6A \<and> sw2 = 0x88 then Some (ascii ''referenced data not found'')
      else if sw1 = 0x67 \<and> sw2 = 0x00 then Some (ascii ''wrong length'')
      else if sw1 = 0x6C then
        Some (ascii ''wrong Le '' @ [0xE2, 0x80, 0x94] @ ascii '' reissue with the length in SW2'')
      else if sw1 = 0x6D \<and> sw2 = 0x00 then Some (ascii ''instruction not supported or invalid'')
      else if sw1 = 0x6E \<and> sw2 = 0x00 then Some (ascii ''class not supported'')
      else if sw1 = 0x68 \<and> sw2 = 0x82 then Some (ascii ''secure messaging not supported'')
      else if sw1 = 0x6F \<and> sw2 = 0x00 then Some (ascii ''no precise diagnosis'')
      else None)"

definition iso_sw_summary :: "byte \<Rightarrow> byte \<Rightarrow> bytes" where
  "iso_sw_summary sw1 sw2 =
     (case iso_sw_description sw1 sw2 of Some t \<Rightarrow> t | None \<Rightarrow> ascii ''non-standard status word'')"

subsection \<open>Redacted dumps\<close>

fun hex_dump :: "bytes \<Rightarrow> bytes" where
  "hex_dump [] = []"
| "hex_dump [b] = hex_upper b"
| "hex_dump (b # c # bs) = hex_upper b @ ascii '' '' @ hex_dump (c # bs)"

definition dump_cmd :: "bytes \<Rightarrow> bool \<Rightarrow> bytes" where
  "dump_cmd apdu sensitive =
     (if \<not> sensitive \<or> length apdu \<le> 5 then hex_dump apdu
      else hex_dump (take 5 apdu) @ ascii '' ['' @ show_dec (length apdu - 5) @ ascii '' data bytes redacted]'')"

definition dump_resp :: "bytes \<Rightarrow> bool \<Rightarrow> bytes" where
  "dump_resp resp sensitive =
     (if \<not> sensitive \<or> length resp \<le> 2 then hex_dump resp
      else ascii ''['' @ show_dec (length resp - 2) @ ascii '' data bytes redacted] ''
             @ hex_dump (drop (length resp - 2) resp))"

definition molto2_cmd_sensitive :: "bytes \<Rightarrow> bool" where
  "molto2_cmd_sensitive apdu \<longleftrightarrow> 1 < length apdu \<and> apdu ! 1 \<in> {0xC5, 0xD7, 0xCE}"

subsection \<open>BCD serials\<close>

text \<open>The nibbles of a 128-bit serial from the highest down; a nibble above nine leaves the serial as
  it is.  The accumulation is on 128 bits.\<close>

fun bcd_loop :: "128 word \<Rightarrow> nat list \<Rightarrow> 128 word \<Rightarrow> 128 word" where
  "bcd_loop serial [] decoded = decoded"
| "bcd_loop serial (shift # shifts) decoded =
     (let nibble = drop_bit shift serial AND 0xF in
      if 9 < nibble then serial else bcd_loop serial shifts (decoded * 10 + nibble))"

definition decode_bcd_serial :: "128 word \<Rightarrow> 128 word" where
  "decode_bcd_serial serial = bcd_loop serial (rev (map (\<lambda>i. 4 * i) [0..<32])) 0"

subsection \<open>One exchange\<close>

type_synonym smart_card = "bytes list \<Rightarrow> (bytes, pcsc_error) result"

datatype sw_action = SwDone | SwMoreData | SwWrongLe byte

definition classify_sw :: "byte \<Rightarrow> byte \<Rightarrow> byte \<Rightarrow> sw_action" where
  "classify_sw sw1 more_data_sw sw2 =
     (if sw1 = more_data_sw then SwMoreData else if sw1 = 0x6C then SwWrongLe sw2 else SwDone)"

datatype continuation = ContDone | ContSend bytes

text \<open>The next move and the data accumulated.\<close>

definition advance_exchange :: "byte \<Rightarrow> bytes \<Rightarrow> bytes \<Rightarrow> bytes \<Rightarrow> byte \<Rightarrow> byte \<Rightarrow> bytes \<Rightarrow> continuation \<times> bytes" where
  "advance_exchange more_data_sw get_resp to_send data sw1 sw2 acc =
     (case classify_sw sw1 more_data_sw sw2 of
        SwMoreData \<Rightarrow> (ContSend (resend_with_le get_resp sw2), acc @ data)
      | SwWrongLe le \<Rightarrow> (ContSend (resend_with_le to_send le), acc)
      | SwDone \<Rightarrow> (ContDone, acc @ data))"

definition MAX_REASSEMBLED_RESPONSE :: nat where "MAX_REASSEMBLED_RESPONSE = 2 ^ 20"
definition MAX_RESPONSE_CHUNKS :: nat where "MAX_RESPONSE_CHUNKS = 4096"

record applet_io =
  io_label :: bytes
  io_more_data_sw :: byte
  io_get_response :: bytes

text \<open>The loop of \<^verbatim>\<open>transmit_applet\<close>: \<open>n\<close> responses were counted so far,
  \<open>sent\<close> is everything sent on this card.\<close>

function applet_loop ::
    "smart_card \<Rightarrow> applet_io \<Rightarrow> bytes \<Rightarrow> nat \<Rightarrow> bytes \<Rightarrow> bytes list \<Rightarrow> (bytes \<times> u16, applet_error) result \<times> bytes list" where
  "applet_loop dev io to_send n acc sent =
     (let sent' = sent @ [to_send] in
      case dev sent' of
        Err e \<Rightarrow> (Err (Pcsc e), sent')
      | Ok resp \<Rightarrow>
          if length resp < 2 then (Err (ShortResponse (io_label io) (length resp) 2), sent')
          else if MAX_RESPONSE_CHUNKS < n + 1 then
            (Err (MalformedResponse (ascii ''applet continuation exceeded the chunk limit'')), sent')
          else
            (let data = take (length resp - 2) resp; sw1 = resp ! (length resp - 2); sw2 = resp ! (length resp - 1) in
             case advance_exchange (io_more_data_sw io) (io_get_response io) to_send data sw1 sw2 acc of
               (ContSend nxt, acc') \<Rightarrow>
                 if MAX_REASSEMBLED_RESPONSE < length acc' then
                   (Err (MalformedResponse (ascii ''61xx continuation exceeded the reassembly limit'')), sent')
                 else applet_loop dev io nxt (n + 1) acc' sent'
             | (ContDone, acc') \<Rightarrow> (Ok (acc', u16_from_be [sw1, sw2]), sent')))"
  by pat_completeness auto
termination
  by (relation "measure (\<lambda>(dev, io, to_send, n, acc, sent). MAX_RESPONSE_CHUNKS - n)") auto

declare applet_loop.simps [simp del]

definition transmit_applet ::
    "smart_card \<Rightarrow> applet_io \<Rightarrow> bytes \<Rightarrow> bytes list \<Rightarrow> (bytes \<times> u16, applet_error) result \<times> bytes list" where
  "transmit_applet dev io command sent = applet_loop dev io command 0 [] sent"

subsection \<open>One retry of an opening\<close>

fun is_card_reset_or_absent :: "pcsc_error \<Rightarrow> bool" where
  "is_card_reset_or_absent ResetCard = True"
| "is_card_reset_or_absent RemovedCard = True"
| "is_card_reset_or_absent NoSmartcard = True"
| "is_card_reset_or_absent NotTransacted = True"
| "is_card_reset_or_absent (OtherPcsc _) = False"

definition should_retry :: "nat \<Rightarrow> bool \<Rightarrow> applet_error \<Rightarrow> bool" where
  "should_retry tries opened e \<longleftrightarrow>
     tries = 0 \<and> \<not> opened \<and> (case e of Pcsc pe \<Rightarrow> is_card_reset_or_absent pe | _ \<Rightarrow> False)"

record first_contact =
  fc_tries :: nat
  fc_opened :: bool

definition new_contact :: first_contact where "new_contact = \<lparr>fc_tries = 0, fc_opened = False\<rparr>"

text \<open>The retry waits for the card; that changes nothing of the contact.\<close>

definition retry_or_fail :: "first_contact \<Rightarrow> applet_error \<Rightarrow> (first_contact, applet_error) result" where
  "retry_or_fail c e =
     (if \<not> should_retry (fc_tries c) (fc_opened c) e then Err e else Ok (c\<lparr>fc_tries := fc_tries c + 1\<rparr>))"

definition contact_opened :: "first_contact \<Rightarrow> first_contact" where
  "contact_opened c = c\<lparr>fc_opened := True\<rparr>"

subsection \<open>What one exchange sends\<close>

text \<open>A command in short form: a bare header, a header with one length byte, or a header with its
  body and perhaps the expected length.\<close>

definition short_command :: "bytes \<Rightarrow> bool" where
  "short_command c \<longleftrightarrow>
     length c = 4 \<or> length c = 5 \<or>
     (5 < length c \<and> (length c = 5 + unat (c ! 4) \<or> length c = 5 + unat (c ! 4) + 1))"

definition le_variant :: "bytes \<Rightarrow> bytes \<Rightarrow> bool" where
  "le_variant c d \<longleftrightarrow> d = c \<or> (\<exists>le. d = resend_with_le c le)"

lemma ends_in_le_resend:
  assumes "short_command c"
  shows "ends_in_le (resend_with_le c le)"
  using assms by (auto simp: short_command_def resend_with_le_def ends_in_le_def nth_append nth_list_update)

lemma resend_resend:
  assumes "short_command c"
  shows "resend_with_le (resend_with_le c le) le' = resend_with_le c le'"
  using ends_in_le_resend [OF assms, of le]
  by (auto simp: resend_with_le_def split: if_splits)

lemma le_variant_resend: "short_command c \<Longrightarrow> le_variant c d \<Longrightarrow> le_variant c (resend_with_le d le)"
  by (auto simp: le_variant_def resend_resend)

lemma advance_cases:
  "advance_exchange m g c data sw1 sw2 acc = (k, acc') \<Longrightarrow>
    (sw1 = m \<and> k = ContSend (resend_with_le g sw2) \<and> acc' = acc @ data)
    \<or> (sw1 \<noteq> m \<and> sw1 = 0x6C \<and> k = ContSend (resend_with_le c sw2) \<and> acc' = acc)
    \<or> (sw1 \<noteq> m \<and> sw1 \<noteq> 0x6C \<and> k = ContDone \<and> acc' = acc @ data)"
  by (auto simp: advance_exchange_def classify_sw_def split: if_splits)

text \<open>The commands of an exchange, from one on: variants of the command being answered, then
  variants of \<^verbatim>\<open>GET RESPONSE\<close>.\<close>

lemma applet_loop_sends:
  assumes "applet_loop dev io d n acc sent = (r, sent')" "short_command c" "le_variant c d"
    "short_command (io_get_response io)"
  shows "\<exists>xs ys. sent' = sent @ d # xs @ ys \<and> list_all (le_variant c) xs
      \<and> list_all (le_variant (io_get_response io)) ys
      \<and> length xs + length ys \<le> MAX_RESPONSE_CHUNKS - n"
  using assms
proof (induction dev io d n acc sent arbitrary: c rule: applet_loop.induct)
  case (1 dev io d n acc sent)
  note prems = "1.prems"
  show ?case
  proof (cases "dev (sent @ [d])")
    case (Err e)
    then have "sent' = sent @ [d]" using prems(1) by (subst (asm) applet_loop.simps) (auto simp: Let_def)
    then show ?thesis by (intro exI [of _ "[]"]) simp
  next
    case (Ok resp)
    define data where "data = take (length resp - 2) resp"
    obtain k acc' where a: "advance_exchange (io_more_data_sw io) (io_get_response io) d data
        (resp ! (length resp - 2)) (resp ! (length resp - 1)) acc = (k, acc')" by fastforce
    show ?thesis
    proof (cases "length resp < 2 \<or> MAX_RESPONSE_CHUNKS < n + 1 \<or> k = ContDone \<or> MAX_REASSEMBLED_RESPONSE < length acc'")
      case True
      then have "sent' = sent @ [d]"
        using prems(1) Ok a by (subst (asm) applet_loop.simps)
          (auto simp: Let_def data_def split: if_splits continuation.splits)
      then show ?thesis by (intro exI [of _ "[]"]) simp
    next
      case False
      then obtain nxt where k: "k = ContSend nxt" by (cases k) auto
      have rec: "applet_loop dev io nxt (n + 1) acc' (sent @ [d]) = (r, sent')"
        using prems(1) Ok a k False by (subst (asm) applet_loop.simps) (auto simp: Let_def data_def)
      note IH = "1.IH" [OF refl Ok _ _ refl refl refl a [unfolded data_def k, symmetric] refl _ rec]
      show ?thesis
      proof (cases "nxt = resend_with_le d (resp ! (length resp - 1))")
        case True
        from IH [of c] le_variant_resend [OF prems(2,3)] prems True False obtain xs ys where
          s: "sent' = (sent @ [d]) @ nxt # xs @ ys" "list_all (le_variant c) xs"
            "list_all (le_variant (io_get_response io)) ys" "length xs + length ys \<le> MAX_RESPONSE_CHUNKS - (n + 1)"
          by auto
        have "le_variant c nxt" using le_variant_resend [OF prems(2,3)] True by simp
        with s False show ?thesis by (intro exI [of _ "nxt # xs"] exI [of _ ys]) auto
      next
        case no: False
        then have g: "nxt = resend_with_le (io_get_response io) (resp ! (length resp - 1))"
          using advance_cases [OF a] k by auto
        then have v: "le_variant (io_get_response io) nxt" by (auto simp: le_variant_def)
        from IH [of "io_get_response io"] v prems(4) False obtain xs ys where
          s: "sent' = (sent @ [d]) @ nxt # xs @ ys" "list_all (le_variant (io_get_response io)) xs"
            "list_all (le_variant (io_get_response io)) ys" "length xs + length ys \<le> MAX_RESPONSE_CHUNKS - (n + 1)"
          by auto
        with v False show ?thesis by (intro exI [of _ "[]"] exI [of _ "nxt # xs @ ys"]) auto
      qed
    qed
  qed
qed

text \<open>The answers the card gave to a list of commands, and what one answer adds to the payload.\<close>

fun replies :: "smart_card \<Rightarrow> bytes list \<Rightarrow> bytes list \<Rightarrow> bytes list" where
  "replies dev sent [] = []"
| "replies dev sent (c # cs) = (case dev (sent @ [c]) of Ok r \<Rightarrow> r | Err _ \<Rightarrow> []) # replies dev (sent @ [c]) cs"

definition payload_of :: "byte \<Rightarrow> bytes \<Rightarrow> bytes" where
  "payload_of more_data_sw resp =
     (if resp ! (length resp - 2) = 0x6C \<and> more_data_sw \<noteq> 0x6C then [] else take (length resp - 2) resp)"

lemma applet_loop_payload:
  assumes "applet_loop dev io d n acc sent = (Ok (payload, sw), sent')"
  shows "\<exists>cmds. sent' = sent @ cmds \<and> cmds \<noteq> []
      \<and> payload = acc @ concat (map (payload_of (io_more_data_sw io)) (replies dev sent cmds))
      \<and> (let l = last (replies dev sent cmds) in sw = u16_from_be [l ! (length l - 2), l ! (length l - 1)]
           \<and> l ! (length l - 2) \<noteq> io_more_data_sw io \<and> l ! (length l - 2) \<noteq> 0x6C)"
  using assms
proof (induction dev io d n acc sent rule: applet_loop.induct)
  case (1 dev io d n acc sent)
  note prems = "1.prems"
  obtain resp where Ok: "dev (sent @ [d]) = Ok resp" and ok: "\<not> length resp < 2" "\<not> MAX_RESPONSE_CHUNKS < n + 1"
    using prems by (subst (asm) applet_loop.simps) (auto simp: Let_def split: result.splits if_splits)
  obtain k acc' where a: "advance_exchange (io_more_data_sw io) (io_get_response io) d (take (length resp - 2) resp)
      (resp ! (length resp - 2)) (resp ! (length resp - 1)) acc = (k, acc')" by fastforce
  show ?case
  proof (cases k)
    case ContDone
    with prems Ok ok a have s: "sent' = sent @ [d]" "payload = acc'"
        "sw = u16_from_be [resp ! (length resp - 2), resp ! (length resp - 1)]"
      unfolding applet_loop.simps [of dev io d n acc sent] by (auto simp: Let_def)
    with advance_cases [OF a] ContDone Ok show ?thesis
      by (intro exI [of _ "[d]"]) (auto simp: payload_of_def Let_def)
  next
    case (ContSend nxt)
    have lim: "\<not> MAX_REASSEMBLED_RESPONSE < length acc'"
      and rec: "applet_loop dev io nxt (n + 1) acc' (sent @ [d]) = (Ok (payload, sw), sent')"
      using prems Ok ok a ContSend
      unfolding applet_loop.simps [of dev io d n acc sent] by (auto simp: Let_def split: if_splits)
    from "1.IH" [OF refl Ok ok refl refl refl a [unfolded ContSend, symmetric] refl lim rec] obtain cmds where
      c: "sent' = (sent @ [d]) @ cmds" "cmds \<noteq> []"
        "payload = acc' @ concat (map (payload_of (io_more_data_sw io)) (replies dev (sent @ [d]) cmds))"
        "let l = last (replies dev (sent @ [d]) cmds) in sw = u16_from_be [l ! (length l - 2), l ! (length l - 1)]
           \<and> l ! (length l - 2) \<noteq> io_more_data_sw io \<and> l ! (length l - 2) \<noteq> 0x6C"
      by blast
    have acc': "acc' = acc @ payload_of (io_more_data_sw io) resp"
      using advance_cases [OF a] ContSend by (auto simp: payload_of_def)
    have ne: "replies dev (sent @ [d]) cmds \<noteq> []" using c(2) by (cases cmds) simp_all
    show ?thesis
      using c acc' Ok ne by (intro exI [of _ "d # cmds"]) (simp add: Let_def)
  qed
qed


definition sample_io :: applet_io where
  "sample_io = \<lparr>io_label = ascii ''openpgp'', io_more_data_sw = 0x61, io_get_response = [0, 0xC0, 0, 0, 0]\<rparr>"

definition sample_card :: smart_card where
  "sample_card cmds = Ok (if length cmds = 1 then [0x6C, 2] else if length cmds = 2 then [7, 0x61, 1] else [8, 0x90, 0])"


text \<open>An extended command has no short length byte to correct: each correction appends a byte.\<close>

lemma extended_reissue_grows:
  assumes "6 < length a" "a ! 4 = 0"
  shows "length (resend_with_le a le) = length a + 1
    \<and> length (resend_with_le (resend_with_le a le) le') = length a + 2"
  using assms by (simp add: resend_with_le_def ends_in_le_def nth_append)

subsection \<open>Redaction\<close>

lemma dump_cmd_redacted:
  "length a = length b \<Longrightarrow> take 5 a = take 5 b \<Longrightarrow> dump_cmd a True = dump_cmd b True"
  by (auto simp: dump_cmd_def)

lemma dump_resp_redacted:
  "length a = length b \<Longrightarrow> drop (length a - 2) a = drop (length b - 2) b \<Longrightarrow> dump_resp a True = dump_resp b True"
  by (auto simp: dump_resp_def)

end
