(* ===== verification/Pgp_Session.thy ===== *)
theory Pgp_Session
  imports Applet_Io Otp_Applet
begin

text \<open>
  \<^verbatim>\<open>crates/keyroost-transport/src/openpgp.rs\<close>: a session with the OpenPGP applet.  The
  applet answers whole commands: a \<open>link\<close> gives the answer to the last of the commands sent so
  far, as \<open>transmit_full\<close> returns it, and \<open>applet_link\<close> is the link that a card and the
  exchange of \<^theory_text>\<open>Applet_Io\<close> make.  An operation takes the commands sent and gives a
  result and the commands sent after it.
\<close>

type_synonym link = "bytes list \<Rightarrow> (bytes \<times> u16, applet_error) result"
type_synonym ('s, 'a) op = "'s \<Rightarrow> ('a, stop) result \<times> 's"

subsection \<open>Operations\<close>

definition op_return :: "'a \<Rightarrow> ('s, 'a) op" where "op_return x s = (Ok x, s)"
definition op_fail :: "applet_error \<Rightarrow> ('s, 'a) op" where "op_fail e s = (Err (Fault e), s)"
definition op_panic :: "('s, 'a) op" where "op_panic s = (Err Panic, s)"

definition op_bind :: "('s, 'a) op \<Rightarrow> ('a \<Rightarrow> ('s, 'b) op) \<Rightarrow> ('s, 'b) op" where
  "op_bind m f s = (case m s of (Ok x, s') \<Rightarrow> f x s' | (Err e, s') \<Rightarrow> (Err e, s'))"

text \<open>A result handled in place, errors included; a panic goes on.\<close>

definition op_try :: "('s, 'a) op \<Rightarrow> ('s, ('a, applet_error) result) op" where
  "op_try m s = (case m s of
      (Ok x, s') \<Rightarrow> (Ok (Ok x), s')
    | (Err (Fault e), s') \<Rightarrow> (Ok (Err e), s')
    | (Err Panic, s') \<Rightarrow> (Err Panic, s'))"

fun op_lift :: "('a, applet_error) result \<Rightarrow> ('s, 'a) op" where
  "op_lift (Ok x) = op_return x"
| "op_lift (Err e) = op_fail e"

fun op_some :: "'a option \<Rightarrow> ('s, 'a) op" where
  "op_some (Some x) = op_return x"
| "op_some None = op_panic"

definition map_err :: "('e \<Rightarrow> 'f) \<Rightarrow> ('a, 'e) result \<Rightarrow> ('a, 'f) result" where
  "map_err f r = (case r of Ok x \<Rightarrow> Ok x | Err e \<Rightarrow> Err (f e))"

definition transmit_full :: "link \<Rightarrow> bytes \<Rightarrow> (bytes list, bytes \<times> u16) op" where
  "transmit_full lk c h =
     (case lk (h @ [c]) of Ok r \<Rightarrow> (Ok r, h @ [c]) | Err e \<Rightarrow> (Err (Fault e), h @ [c]))"

text \<open>Sending what a builder made.\<close>

definition send_built :: "link \<Rightarrow> bytes option \<Rightarrow> (bytes list, bytes \<times> u16) op" where
  "send_built lk c = op_bind (op_some c) (transmit_full lk)"

subsection \<open>The link a card makes\<close>

definition pgp_io :: applet_io where
  "pgp_io = \<lparr>io_label = ascii ''openpgp'', io_more_data_sw = PGP_SW_MORE_DATA, io_get_response = pgp_get_response\<rparr>"

fun link_run :: "smart_card \<Rightarrow> bytes list \<Rightarrow> bytes list \<Rightarrow> bytes list" where
  "link_run dev [] raw = raw"
| "link_run dev (c # cs) raw = link_run dev cs (snd (transmit_applet dev pgp_io c raw))"

definition applet_link :: "smart_card \<Rightarrow> link" where
  "applet_link dev h = fst (transmit_applet dev pgp_io (last h) (link_run dev (butlast h) []))"

text \<open>What the trace hides.\<close>

definition pgp_cmd_sensitive :: "bytes \<Rightarrow> bool" where
  "pgp_cmd_sensitive c \<longleftrightarrow> 1 < length c \<and> c ! 1 \<in> {0x20, 0x24, 0x2C, 0xDB}"

definition pgp_resp_sensitive :: "bytes \<Rightarrow> bool" where
  "pgp_resp_sensitive c \<longleftrightarrow> (4 \<le> length c \<and> take 3 (drop 1 c) = [0x2A, 0x80, 0x86]) \<or> take 4 c = READ_SERIAL_INS"

subsection \<open>Helpers\<close>

fun crt_label :: "key_crt \<Rightarrow> bytes" where
  "crt_label CrtSign = ascii ''signature''"
| "crt_label CrtDecrypt = ascii ''decryption''"
| "crt_label CrtAuth = ascii ''authentication''"

fun crt_flag_name :: "key_crt \<Rightarrow> bytes" where
  "crt_flag_name CrtSign = ascii ''sign''"
| "crt_flag_name CrtDecrypt = ascii ''decrypt''"
| "crt_flag_name CrtAuth = ascii ''auth''"

definition sw_rejected :: "bytes \<Rightarrow> u16 \<Rightarrow> applet_error" where
  "sw_rejected lbl sw = ApduRejected lbl (hi_byte sw) (ucast sw)"

definition ok_or_apdu :: "bytes \<Rightarrow> u16 \<Rightarrow> (bytes list, unit) op" where
  "ok_or_apdu lbl sw = (if sw = PGP_SW_OK then op_return () else op_fail (sw_rejected lbl sw))"

definition wants_otp_applet_serial :: "bytes \<Rightarrow> bool" where
  "wants_otp_applet_serial aid \<longleftrightarrow> aid_manufacturer_id aid = Some MANUFACTURER_ID_TOKEN2"

definition needs_attribute_write :: "bytes \<Rightarrow> key_alg \<Rightarrow> bool" where
  "needs_attribute_write current alg \<longleftrightarrow> attr_alg current \<noteq> Some alg"

definition key_present_from :: "('a, applet_error) result \<Rightarrow> bool option" where
  "key_present_from r = (case r of Ok _ \<Rightarrow> Some True | Err _ \<Rightarrow> None)"

definition bare_point :: "bytes \<Rightarrow> bytes" where
  "bare_point p = (case p of b # rest \<Rightarrow> if b = 0x40 \<and> length rest = 32 then rest else p | [] \<Rightarrow> p)"

definition trim_zeros :: "bytes \<Rightarrow> bytes" where
  "trim_zeros v = dropWhile (\<lambda>b. b = 0) v"

fun same_public_key :: "pgp_public_key \<Rightarrow> pgp_public_key \<Rightarrow> bool" where
  "same_public_key (PgpRsa gn ge) (PgpRsa wn we) \<longleftrightarrow> trim_zeros gn = trim_zeros wn \<and> trim_zeros ge = trim_zeros we"
| "same_public_key (PgpEcc g) (PgpEcc w) \<longleftrightarrow> bare_point g = bare_point w"
| "same_public_key _ _ \<longleftrightarrow> False"

subsection \<open>Opening\<close>

definition SW_FILE_NOT_FOUND :: u16 where "SW_FILE_NOT_FOUND = 0x6A82"

definition session_select :: "link \<Rightarrow> (bytes list, unit) op" where
  "session_select lk =
     op_bind (send_built lk pgp_select) (\<lambda>(_, sw).
       if sw = SW_FILE_NOT_FOUND then op_fail NoOpenPgpApplet
       else ok_or_apdu (ascii ''select openpgp applet'') sw)"

text \<open>One turn of the opening loop finds no PC/SC context, fails to connect, or has a card.\<close>

datatype attempt = NoContext pcsc_error | NotConnected pcsc_error | Connected link

function open_loop :: "(nat \<Rightarrow> attempt) \<Rightarrow> nat \<Rightarrow> first_contact \<Rightarrow> (link \<times> bytes list, stop) result" where
  "open_loop attempts i contact =
     (case attempts i of
        NoContext e \<Rightarrow> Err (Fault (PcscUnavailable e))
      | NotConnected e \<Rightarrow>
          (case retry_or_fail contact (Pcsc e) of
             Err e' \<Rightarrow> Err (Fault e')
           | Ok contact' \<Rightarrow> open_loop attempts (i + 1) contact')
      | Connected lk \<Rightarrow>
          (case session_select lk [] of
             (Ok _, h) \<Rightarrow> Ok (lk, h)
           | (Err Panic, h) \<Rightarrow> Err Panic
           | (Err (Fault e), h) \<Rightarrow>
               (case retry_or_fail contact e of
                  Err e' \<Rightarrow> Err (Fault e')
                | Ok contact' \<Rightarrow> open_loop attempts (i + 1) contact')))"
  by pat_completeness auto
termination
  by (relation "measure (\<lambda>(attempts, i, c). 1 - fc_tries c)")
     (auto simp: retry_or_fail_def should_retry_def split: if_splits)

declare open_loop.simps [simp del]

definition open_traced :: "bytes \<Rightarrow> (nat \<Rightarrow> attempt) \<Rightarrow> (link \<times> bytes list, stop) result" where
  "open_traced reader_name attempts =
     (if 0 \<in> set reader_name then Err (Fault (MalformedResponse (ascii ''reader name contained NUL'')))
      else open_loop attempts 0 new_contact)"

subsection \<open>Status\<close>

record pgp_status =
  st_data :: app_related_data
  st_signature_count :: "u32 option"
  st_otp_applet_serial :: "128 word option"

definition status_serial :: "pgp_status \<Rightarrow> u32 option" where
  "status_serial s =
     (let aid = ard_aid (st_data s) in
      if length aid < 14 then None
      else
        (let raw = u32_from_be (take 4 (drop 10 aid)) in
         if aid_manufacturer_id aid = Some MANUFACTURER_ID_TOKEN2 then
           (let d = decode_bcd_serial (ucast raw) in Some (if d < 2 ^ 32 then ucast d else raw))
         else Some raw))"

definition full_serial :: "pgp_status \<Rightarrow> 128 word option" where
  "full_serial s =
     (case st_otp_applet_serial s of Some n \<Rightarrow> Some n | None \<Rightarrow> map_option ucast (status_serial s))"

definition serial_text :: "pgp_status \<Rightarrow> bytes option" where
  "serial_text s =
     (case st_otp_applet_serial s of
        Some n \<Rightarrow> Some (show_dec (unat n))
      | None \<Rightarrow>
          (let aid = ard_aid (st_data s) in
           if length aid < 14 then None else Some (concat (map hex_upper (take 4 (drop 10 aid))))))"

fun slot_attrs :: "app_related_data \<Rightarrow> key_crt \<Rightarrow> bytes" where
  "slot_attrs d CrtSign = algo_attr_sig d"
| "slot_attrs d CrtDecrypt = algo_attr_dec d"
| "slot_attrs d CrtAuth = algo_attr_aut d"

definition algorithm_label :: "pgp_status \<Rightarrow> key_crt \<Rightarrow> bytes" where
  "algorithm_label s crt = describe_algorithm_attributes (slot_attrs (st_data s) crt)"

definition ok_option :: "('a, 'e) result \<Rightarrow> 'a option" where
  "ok_option r = (case r of Ok x \<Rightarrow> Some x | Err _ \<Rightarrow> None)"

definition select_by_aid :: "bytes \<Rightarrow> bytes option" where
  "select_by_aid aid = map_option (\<lambda>x. x @ [0x00]) (Apdu.build_apdu 0x00 0xA4 0x04 0x00 aid)"

text \<open>\<^verbatim>\<open>token2otp.rs\<close>: the serial of the OTP applet on the same card.\<close>

definition read_otp_applet_serial :: "link \<Rightarrow> (bytes list, 128 word option) op" where
  "read_otp_applet_serial lk =
     op_bind (op_try (send_built lk (select_by_aid OTP_APPLET_AID))) (\<lambda>r.
       case r of
         Err _ \<Rightarrow> op_return None
       | Ok (_, sw) \<Rightarrow>
           if sw \<noteq> 0x9000 then op_return None
           else op_bind (op_try (send_built lk read_serial_request)) (\<lambda>r.
             case r of
               Err _ \<Rightarrow> op_return None
             | Ok (data, sw) \<Rightarrow>
                 if sw \<noteq> 0x9000 then op_return None else op_return (ok_option (parse_otp_serial data))))"

definition read_related_data :: "link \<Rightarrow> (bytes list, app_related_data) op" where
  "read_related_data lk =
     op_bind (transmit_full lk get_application_related_data) (\<lambda>(ard_bytes, sw).
     op_bind (ok_or_apdu (ascii ''get application related data'') sw) (\<lambda>_.
       op_lift (map_err OpenPgpParse (parse_application_related_data ard_bytes))))"

definition session_status :: "link \<Rightarrow> (bytes list, pgp_status) op" where
  "session_status lk =
     op_bind (read_related_data lk) (\<lambda>ard.
     op_bind (op_try (transmit_full lk (pgp_get_data TAG_SECURITY_SUPPORT))) (\<lambda>r.
       let signature_count =
         (case r of Ok (bs, sw) \<Rightarrow> if sw = PGP_SW_OK then ok_option (parse_signature_counter bs) else None
          | Err _ \<Rightarrow> None) in
       op_bind (if wants_otp_applet_serial (ard_aid ard) then
                  op_bind (read_otp_applet_serial lk) (\<lambda>serial.
                  op_bind (session_select lk) (\<lambda>_. op_return serial))
                else op_return None) (\<lambda>otp_applet_serial.
         op_return \<lparr>st_data = ard, st_signature_count = signature_count, st_otp_applet_serial = otp_applet_serial\<rparr>)))"

subsection \<open>PINs\<close>

definition pin_tries_for :: "link \<Rightarrow> byte \<Rightarrow> (bytes list, byte option) op" where
  "pin_tries_for lk pw_ref =
     op_bind (op_try (transmit_full lk get_pw_status)) (\<lambda>r.
       case r of
         Err _ \<Rightarrow> op_return None
       | Ok (bs, sw) \<Rightarrow>
           if sw \<noteq> PGP_SW_OK then op_return None
           else op_return (map_option (\<lambda>s. if pw_ref = PW3_ADMIN then tries_pw3 s else tries_pw1 s)
                  (ok_option (parse_pw_status bs))))"

text \<open>The error of a refused PIN: the count in the status word, or the card's counter, or the plain
  status word.\<close>

definition pin_rejected :: "link \<Rightarrow> u16 \<Rightarrow> byte \<Rightarrow> bytes \<Rightarrow> (bytes list, 'a) op" where
  "pin_rejected lk sw pw_ref lbl =
     (case sw_tries_remaining sw of
        Some n \<Rightarrow> op_fail (OpenPgpPinRejected (Some n))
      | None \<Rightarrow>
          if sw = 0x6982 \<or> sw = 0x6983 then
            op_bind (pin_tries_for lk pw_ref) (\<lambda>tries. op_fail (OpenPgpPinRejected tries))
          else op_fail (sw_rejected lbl sw))"

definition verify_pin :: "link \<Rightarrow> byte \<Rightarrow> bytes \<Rightarrow> (bytes list, unit) op" where
  "verify_pin lk pw_ref pin =
     op_bind (send_built lk (pgp_verify pw_ref pin)) (\<lambda>(_, sw).
       if sw = PGP_SW_OK then op_return () else pin_rejected lk sw pw_ref (ascii ''openpgp verify''))"

definition verify_admin_pin :: "link \<Rightarrow> bytes \<Rightarrow> (bytes list, unit) op" where
  "verify_admin_pin lk pin = verify_pin lk PW3_ADMIN pin"

definition session_change_pin :: "link \<Rightarrow> byte \<Rightarrow> bytes \<Rightarrow> bytes \<Rightarrow> (bytes list, unit) op" where
  "session_change_pin lk pw_ref old new =
     op_bind (send_built lk (change_reference_data pw_ref old new)) (\<lambda>(_, sw).
       if sw = PGP_SW_OK then op_return () else pin_rejected lk sw pw_ref (ascii ''openpgp change pin''))"

definition change_user_pin :: "link \<Rightarrow> bytes \<Rightarrow> bytes \<Rightarrow> (bytes list, unit) op" where
  "change_user_pin lk old new = session_change_pin lk PW1_SIGN old new"

definition change_admin_pin :: "link \<Rightarrow> bytes \<Rightarrow> bytes \<Rightarrow> (bytes list, unit) op" where
  "change_admin_pin lk old new = session_change_pin lk PW3_ADMIN old new"

definition session_reset_retry_counter :: "link \<Rightarrow> bytes \<Rightarrow> bytes \<Rightarrow> (bytes list, unit) op" where
  "session_reset_retry_counter lk admin_pin new_user_pin =
     op_bind (verify_pin lk PW3_ADMIN admin_pin) (\<lambda>_.
     op_bind (send_built lk (pgp_reset_retry_counter new_user_pin)) (\<lambda>(_, sw).
       ok_or_apdu (ascii ''openpgp reset retry counter'') sw))"

subsection \<open>Keys on the card\<close>

definition session_algorithm_attributes :: "link \<Rightarrow> key_crt \<Rightarrow> (bytes list, bytes) op" where
  "session_algorithm_attributes lk crt = op_bind (read_related_data lk) (\<lambda>ard. op_return (slot_attrs ard crt))"

definition set_algorithm :: "link \<Rightarrow> key_crt \<Rightarrow> key_alg \<Rightarrow> (bytes list, unit) op" where
  "set_algorithm lk crt alg =
     op_bind (op_some (alg_attributes alg crt)) (\<lambda>r.
     op_bind (op_lift (map_err OpenPgpSlotMismatch r)) (\<lambda>attr.
     op_bind (send_built lk (put_algorithm_attributes crt attr)) (\<lambda>(_, sw).
       if sw = 0x6A80 \<or> sw = 0x6A88 then op_fail (OpenPgpAlgorithmRefused (crt_label crt) (alg_label alg))
       else ok_or_apdu (ascii ''openpgp set algorithm attributes'') sw)))"

definition supported_algorithms :: "link \<Rightarrow> (bytes list, algorithm_information option) op" where
  "supported_algorithms lk =
     op_bind (transmit_full lk get_algorithm_information) (\<lambda>(bs, sw).
       if sw \<noteq> PGP_SW_OK then op_return None
       else op_return (ok_option (parse_algorithm_information bs)))"

definition session_rsa_attributes :: "link \<Rightarrow> key_crt \<Rightarrow> (bytes list, rsa_attributes) op" where
  "session_rsa_attributes lk crt =
     op_bind (session_algorithm_attributes lk crt) (\<lambda>attr.
       case parse_algorithm_attributes attr of
         Ok (AttrRsa r) \<Rightarrow> op_return r
       | Ok ecc \<Rightarrow> op_fail (OpenPgpSlotNotRsa (crt_flag_name crt) (attr_label ecc))
       | Err e \<Rightarrow> op_fail (OpenPgpParse e))"

definition session_read_public_key :: "link \<Rightarrow> key_crt \<Rightarrow> (bytes list, pgp_public_key) op" where
  "session_read_public_key lk crt =
     op_bind (send_built lk (pgp_read_public_key crt)) (\<lambda>(data, sw).
     op_bind (ok_or_apdu (ascii ''openpgp read public key'') sw) (\<lambda>_.
       op_lift (map_err OpenPgpParse (parse_generated_public_key data))))"

definition key_present :: "link \<Rightarrow> key_crt \<Rightarrow> (bytes list, bool option) op" where
  "key_present lk crt =
     op_bind (op_try (session_read_public_key lk crt)) (\<lambda>r. op_return (key_present_from r))"

definition session_generate_key :: "link \<Rightarrow> key_crt \<Rightarrow> key_alg option \<Rightarrow> (bytes list, pgp_public_key) op" where
  "session_generate_key lk crt alg =
     op_bind
       (case alg of
          Some a \<Rightarrow>
            op_bind (session_algorithm_attributes lk crt) (\<lambda>current.
              if needs_attribute_write current a then set_algorithm lk crt a else op_return ())
        | None \<Rightarrow> op_return ()) (\<lambda>_.
     op_bind (send_built lk (pgp_generate_key crt)) (\<lambda>(data, sw).
     op_bind (ok_or_apdu (ascii ''openpgp generate key'') sw) (\<lambda>_.
       op_lift (map_err OpenPgpParse (parse_generated_public_key data)))))"

definition may_ask_touch_to_use :: "link \<Rightarrow> key_crt \<Rightarrow> (bytes list, bool) op" where
  "may_ask_touch_to_use lk crt =
     op_bind (op_try (transmit_full lk (pgp_get_data (uif_tag crt)))) (\<lambda>r.
       case r of
         Ok (reply, sw) \<Rightarrow>
           if sw = 0x9000 then op_return (case uif_asks_touch reply of Some b \<Rightarrow> b | None \<Rightarrow> True)
           else op_return True
       | Err _ \<Rightarrow> op_return True)"

definition session_may_ask_touch_to_write :: "link \<Rightarrow> (bytes list, bool) op" where
  "session_may_ask_touch_to_write lk =
     op_bind (op_try (transmit_full lk (pgp_get_data TAG_AID))) (\<lambda>r.
       let manufacturer =
         (case r of
            Ok (aid, sw) \<Rightarrow>
              if sw = 0x9000 then
                aid_manufacturer_id (case aid of t # _ # rest \<Rightarrow> if t = 0x4F then rest else aid | _ \<Rightarrow> aid)
              else None
          | Err _ \<Rightarrow> None)
       in op_return (pgp_may_ask_touch_to_write manufacturer))"

subsection \<open>Chains, signatures and decryption\<close>

fun transmit_chain :: "link \<Rightarrow> bytes \<Rightarrow> bytes list \<Rightarrow> (bytes list, bytes) op" where
  "transmit_chain lk lbl [] = op_return []"
| "transmit_chain lk lbl (chunk # rest) =
     op_bind (transmit_full lk chunk) (\<lambda>(data, sw).
       if rest = [] then op_bind (ok_or_apdu lbl sw) (\<lambda>_. op_return data)
       else if sw \<noteq> PGP_SW_OK then op_fail (sw_rejected lbl sw)
       else transmit_chain lk lbl rest)"

definition session_sign :: "link \<Rightarrow> bytes \<Rightarrow> (bytes list, bytes) op" where
  "session_sign lk digest_info =
     op_bind (send_built lk (pso_compute_signature digest_info)) (\<lambda>(sig, sw).
     op_bind (ok_or_apdu (ascii ''openpgp compute signature'') sw) (\<lambda>_. op_return sig))"

definition session_internal_authenticate :: "link \<Rightarrow> bytes \<Rightarrow> (bytes list, bytes) op" where
  "session_internal_authenticate lk auth_input =
     op_bind (send_built lk (pgp_internal_authenticate auth_input)) (\<lambda>(sig, sw).
     op_bind (ok_or_apdu (ascii ''openpgp internal authenticate'') sw) (\<lambda>_. op_return sig))"

text \<open>\<open>force\<close> is the environment variable that forces the chained form.\<close>

definition decipher :: "link \<Rightarrow> bool \<Rightarrow> bytes \<Rightarrow> (bytes list, bytes) op" where
  "decipher lk force cipher_do =
     (let chained = op_bind (op_some (pso_decipher_chained cipher_do 254)) (transmit_chain lk (ascii ''openpgp decipher'')) in
      if force then chained
      else
        op_bind (send_built lk (pso_decipher cipher_do)) (\<lambda>(plain, sw).
          if sw = PGP_SW_OK then op_return plain
          else if sw \<noteq> 0x6700 \<and> sw \<noteq> 0x6883 then
            op_bind (ok_or_apdu (ascii ''openpgp decipher'') sw) (\<lambda>_. chained)
          else chained))"

definition pgp_session_decrypt :: "link \<Rightarrow> bool \<Rightarrow> bytes \<Rightarrow> (bytes list, bytes) op" where
  "pgp_session_decrypt lk force cryptogram = decipher lk force (0x00 # cryptogram)"

definition decrypt_ecdh :: "link \<Rightarrow> bool \<Rightarrow> bytes \<Rightarrow> (bytes list, bytes) op" where
  "decrypt_ecdh lk force ephemeral_point = decipher lk force (ecdh_cipher_do (bare_point ephemeral_point))"

definition set_cardholder_name :: "link \<Rightarrow> bytes \<Rightarrow> (bytes list, unit) op" where
  "set_cardholder_name lk name =
     op_bind (send_built lk (put_cardholder_name name)) (\<lambda>(_, sw). ok_or_apdu (ascii ''openpgp put cardholder name'') sw)"

definition set_url :: "link \<Rightarrow> bytes \<Rightarrow> (bytes list, unit) op" where
  "set_url lk url = op_bind (send_built lk (put_url url)) (\<lambda>(_, sw). ok_or_apdu (ascii ''openpgp put url'') sw)"

text \<open>The two writes that register a key.\<close>

definition put_registration :: "link \<Rightarrow> key_crt \<Rightarrow> u32 \<Rightarrow> bytes \<Rightarrow> (bytes list, unit) op" where
  "put_registration lk crt created fpr =
     op_bind (send_built lk (put_generation_time crt created)) (\<lambda>(_, sw).
     op_bind (ok_or_apdu (ascii ''openpgp put generation time'') sw) (\<lambda>_.
     op_bind (send_built lk (put_fingerprint crt fpr)) (\<lambda>(_, sw).
       ok_or_apdu (ascii ''openpgp put fingerprint'') sw)))"

definition register_key :: "link \<Rightarrow> key_crt \<Rightarrow> u32 \<Rightarrow> (bytes list, bytes) op" where
  "register_key lk crt creation_time =
     op_bind (session_algorithm_attributes lk crt) (\<lambda>raw.
     op_bind (op_lift (map_err OpenPgpParse (parse_algorithm_attributes raw))) (\<lambda>attrs.
     op_bind (session_read_public_key lk crt) (\<lambda>key.
     op_bind (op_lift (map_err OpenPgpParse (v4_fingerprint key attrs creation_time))) (\<lambda>fpr.
     op_bind (put_registration lk crt creation_time fpr) (\<lambda>_. op_return fpr)))))"

subsection \<open>Factory reset\<close>

text \<open>\<^verbatim>\<open>piv.rs\<close>: eight random bytes folded into digits, off the previous guess.\<close>

definition credential_guess_from :: "bytes \<Rightarrow> bytes option \<Rightarrow> bytes" where
  "credential_guess_from raw previous =
     (let guess = map (\<lambda>b. 0x30 + b mod 10) raw in
      if previous = Some guess then guess[7 := 0x30 + (guess ! 7 - 0x30 + 1) mod 10] else guess)"

text \<open>\<open>entropy i\<close> is the \<open>i\<close>-th draw of eight bytes, \<open>None\<close> when the host has
  none.\<close>

fun block_loop :: "link \<Rightarrow> byte \<Rightarrow> (nat \<Rightarrow> bytes option) \<Rightarrow> nat \<Rightarrow> nat \<Rightarrow> bytes option \<Rightarrow> (bytes list, unit) op" where
  "block_loop lk pw_ref entropy i 0 previous = op_return ()"
| "block_loop lk pw_ref entropy i (Suc n) previous =
     (case entropy i of
        None \<Rightarrow> op_fail HostRngFailed
      | Some raw \<Rightarrow>
          (let guess = credential_guess_from raw previous in
           op_bind (op_try (send_built lk (pgp_verify pw_ref guess))) (\<lambda>r.
             case r of
               Ok (_, sw) \<Rightarrow>
                 if sw = PGP_SW_OK then op_fail OpenPgpPinGuessAccepted
                 else if sw = 0x6983 then op_return ()
                 else block_loop lk pw_ref entropy (i + 1) n (Some guess)
             | Err _ \<Rightarrow> op_return ())))"

text \<open>\<^verbatim>\<open>max_tries.saturating_add(1)\<close> turns.\<close>

definition block_pin :: "link \<Rightarrow> byte \<Rightarrow> (nat \<Rightarrow> bytes option) \<Rightarrow> byte \<Rightarrow> (bytes list, unit) op" where
  "block_pin lk pw_ref entropy max_tries = block_loop lk pw_ref entropy 0 (min 255 (unat max_tries + 1)) None"

definition session_factory_reset ::
    "link \<Rightarrow> (nat \<Rightarrow> bytes option) \<Rightarrow> (nat \<Rightarrow> bytes option) \<Rightarrow> (bytes list, unit) op" where
  "session_factory_reset lk entropy1 entropy3 =
     op_bind (op_try (transmit_full lk get_pw_status)) (\<lambda>r.
       let (pw1_tries, pw3_tries) =
         (case r of
            Ok (bs, sw) \<Rightarrow>
              if sw = PGP_SW_OK then
                (case parse_pw_status bs of Ok s \<Rightarrow> (tries_pw1 s, tries_pw3 s) | Err _ \<Rightarrow> (15, 15))
              else (15, 15)
          | Err _ \<Rightarrow> (15, 15)) in
       op_bind (block_pin lk PW1_OTHER entropy1 pw1_tries) (\<lambda>_.
       op_bind (block_pin lk PW3_ADMIN entropy3 pw3_tries) (\<lambda>_.
       op_bind (transmit_full lk terminate_df) (\<lambda>(_, sw).
       op_bind (ok_or_apdu (ascii ''openpgp terminate df'') sw) (\<lambda>_.
       op_bind (transmit_full lk activate_file) (\<lambda>(_, sw).
         ok_or_apdu (ascii ''openpgp activate file'') sw))))))"

end
