(* ===== verification/Pgp_Import.thy ===== *)
theory Pgp_Import
  imports Pgp_Session
begin

text \<open>
  \<^verbatim>\<open>crates/keyroost-transport/src/openpgp.rs\<close>: importing private keys into the slots of an
  OpenPGP card, one key or a whole set, with what a failure says of the card.  The flag
  \<^verbatim>\<open>&mut changed\<close>, set once a write for the slot has been sent, is the second part of the
  state of the tracked operations.
\<close>

datatype import_key = IkRsa rsa_private_key_parts | IkEcc ecc_private_key_parts

record key_import =
  ki_crt :: key_crt
  ki_alg :: key_alg
  ki_key :: import_key
  ki_created :: u32
  ki_expect_fpr :: bytes
  ki_expect_public :: pgp_public_key

type_synonym 'a tracked = "(bytes list \<times> bool, 'a) op"

definition untracked :: "(bytes list, 'a) op \<Rightarrow> 'a tracked" where
  "untracked m = (\<lambda>(h, b). case m h of (r, h') \<Rightarrow> (r, (h', b)))"

definition set_changed :: "unit tracked" where
  "set_changed = (\<lambda>(h, b). (Ok (), (h, True)))"

definition slot_failure :: "bytes list \<Rightarrow> key_crt \<Rightarrow> bool \<Rightarrow> applet_error \<Rightarrow> applet_error" where
  "slot_failure finished crt changed cause =
     (if finished = [] \<and> \<not> changed then cause
      else OpenPgpKeySetPartial finished (crt_label crt) changed cause)"

definition modulus_bits :: "bytes \<Rightarrow> nat" where
  "modulus_bits n0 =
     (let n = trim_zeros n0 in
      case n of [] \<Rightarrow> 0 | first # _ \<Rightarrow> length n * 8 - leading_zeros first)"

definition key_fits :: "key_alg \<Rightarrow> import_key \<Rightarrow> bool" where
  "key_fits alg key =
     (case (key, alg_curve alg) of
        (IkRsa parts, None) \<Rightarrow> map_option unat (rsa_bits alg) = Some (modulus_bits (rk_n parts))
      | (IkEcc parts, Some curve) \<Rightarrow> ecc_scalar_fits (ek_scalar parts) (field_len curve)
      | _ \<Rightarrow> False)"

definition check_import :: "key_crt \<Rightarrow> key_alg \<Rightarrow> import_key \<Rightarrow> ('s, unit) op" where
  "check_import crt alg key =
     op_bind (op_some (alg_attributes alg crt)) (\<lambda>r.
     op_bind (op_lift (map_err OpenPgpSlotMismatch r)) (\<lambda>_.
       if key_fits alg key then op_return ()
       else op_fail (OpenPgpKeyNotForAlgorithm (crt_label crt) (alg_label alg))))"

definition preflight :: "key_import \<Rightarrow> bytes \<Rightarrow> algorithm_information option \<Rightarrow> ('s, unit) op" where
  "preflight k current fa =
     op_bind (case fa of
        Some info \<Rightarrow>
          (let listed = ai_key_algs info (ki_crt k) in
           if listed \<noteq> [] \<and> ki_alg k \<notin> set listed then
             op_fail (OpenPgpAlgorithmRefused (crt_label (ki_crt k)) (alg_label (ki_alg k)))
           else op_return ())
      | None \<Rightarrow> op_return ()) (\<lambda>_.
       case ki_key k of
         IkEcc _ \<Rightarrow> op_return ()
       | IkRsa parts \<Rightarrow>
           op_bind
             (if needs_attribute_write current (ki_alg k) then
                op_bind (op_some (alg_attributes (ki_alg k) (ki_crt k))) (\<lambda>r.
                  op_lift (map_err OpenPgpSlotMismatch r))
              else op_return current) (\<lambda>attrs.
             case parse_algorithm_attributes attrs of
               Ok (AttrRsa r) \<Rightarrow>
                 if \<not> rsa_exponent_fits (rk_e parts) (ra_e_bits r) then op_fail OpenPgpExponentTooWide
                 else op_return ()
             | Ok ecc \<Rightarrow> op_fail (OpenPgpSlotNotRsa (crt_flag_name (ki_crt k)) (attr_label ecc))
             | Err e \<Rightarrow> op_fail (OpenPgpParse e)))"

text \<open>The extended form first; the chained one when the card or reader will not take it.
  \<open>force\<close> is the environment variable that skips the first.\<close>

definition put_key_import ::
    "link \<Rightarrow> bool \<Rightarrow> bytes \<Rightarrow> (bytes list option, applet_error) result \<Rightarrow> (bytes list, unit) op" where
  "put_key_import lk force extended chained =
     (let send_chained =
        op_bind (op_lift chained) (\<lambda>c.
        op_bind (op_some c) (\<lambda>cs.
        op_bind (transmit_chain lk (ascii ''openpgp import key'') cs) (\<lambda>_. op_return ()))) in
      if force then send_chained
      else
        op_bind (transmit_full lk extended) (\<lambda>(_, sw).
          if sw = PGP_SW_OK then op_return ()
          else if sw \<noteq> 0x6700 \<and> sw \<noteq> 0x6883 then ok_or_apdu (ascii ''openpgp import key'') sw
          else send_chained))"

definition import_rsa_tracked :: "link \<Rightarrow> bool \<Rightarrow> key_crt \<Rightarrow> rsa_private_key_parts \<Rightarrow> unit tracked" where
  "import_rsa_tracked lk force crt key =
     op_bind (untracked (session_rsa_attributes lk crt)) (\<lambda>attrs.
       if \<not> rsa_exponent_fits (rk_e key) (ra_e_bits attrs) then op_fail OpenPgpExponentTooWide
       else
         op_bind (op_lift (map_err (\<lambda>_. OpenPgpExponentTooWide)
           (import_rsa_key crt key (ra_format attrs) (ra_e_bits attrs)))) (\<lambda>built.
         op_bind (op_some built) (\<lambda>extended.
         op_bind set_changed (\<lambda>_.
           untracked (put_key_import lk force extended
             (map_err (\<lambda>_. OpenPgpExponentTooWide)
               (import_rsa_key_chained crt key (ra_format attrs) (ra_e_bits attrs) 254)))))))"

text \<open>\<^verbatim>\<open>import_key\<close> drops the flag.\<close>

definition session_import_key :: "link \<Rightarrow> bool \<Rightarrow> key_crt \<Rightarrow> rsa_private_key_parts \<Rightarrow> (bytes list, unit) op" where
  "session_import_key lk force crt key h =
     (case import_rsa_tracked lk force crt key (h, False) of (r, (h', _)) \<Rightarrow> (r, h'))"

definition asks_public_key :: "bytes \<Rightarrow> bool" where
  "asks_public_key attrs =
     (case parse_algorithm_attributes attrs of Ok (AttrEcc _ _ with_public) \<Rightarrow> with_public | _ \<Rightarrow> False)"

definition import_any_tracked :: "link \<Rightarrow> bool \<Rightarrow> key_crt \<Rightarrow> key_alg \<Rightarrow> import_key \<Rightarrow> unit tracked" where
  "import_any_tracked lk force crt alg key =
     op_bind (check_import crt alg key) (\<lambda>_.
     op_bind (untracked (session_algorithm_attributes lk crt)) (\<lambda>current.
       let wants_set = needs_attribute_write current alg in
       op_bind (if wants_set then
                  op_bind (untracked (set_algorithm lk crt alg)) (\<lambda>_. set_changed)
                else op_return ()) (\<lambda>_.
       case key of
         IkRsa parts \<Rightarrow> import_rsa_tracked lk force crt parts
       | IkEcc parts \<Rightarrow>
           op_bind (if wants_set then untracked (session_algorithm_attributes lk crt) else op_return current) (\<lambda>attrs.
             let sent_parts = parts\<lparr>ek_public := (if asks_public_key attrs then ek_public parts else None)\<rparr>;
                 flen = (case alg_curve alg of Some c \<Rightarrow> field_len c | None \<Rightarrow> 0);
                 not_for = (\<lambda>_ :: scalar_too_wide. OpenPgpKeyNotForAlgorithm (crt_label crt) (alg_label alg)) in
             op_bind (op_lift (map_err not_for (import_ecc_key crt sent_parts flen))) (\<lambda>built.
             op_bind (op_some built) (\<lambda>extended.
             op_bind set_changed (\<lambda>_.
               untracked (put_key_import lk force extended
                 (map_err not_for (import_ecc_key_chained crt sent_parts flen 254)))))))))) "

definition import_any :: "link \<Rightarrow> bool \<Rightarrow> key_crt \<Rightarrow> key_alg \<Rightarrow> import_key \<Rightarrow> (bytes list, unit) op" where
  "import_any lk force crt alg key h =
     (case import_any_tracked lk force crt alg key (h, False) of
        (Ok u, (h', _)) \<Rightarrow> (Ok u, h')
      | (Err Panic, (h', _)) \<Rightarrow> (Err Panic, h')
      | (Err (Fault cause), (h', changed)) \<Rightarrow> (Err (Fault (slot_failure [] crt changed cause)), h'))"

definition import_one :: "link \<Rightarrow> bool \<Rightarrow> key_import \<Rightarrow> unit tracked" where
  "import_one lk force k =
     op_bind (import_any_tracked lk force (ki_crt k) (ki_alg k) (ki_key k)) (\<lambda>_.
     op_bind (untracked (session_read_public_key lk (ki_crt k))) (\<lambda>got.
       if \<not> same_public_key got (ki_expect_public k) then
         op_fail (OpenPgpFingerprintMismatch (crt_label (ki_crt k)))
       else untracked (put_registration lk (ki_crt k) (ki_created k) (ki_expect_fpr k))))"

fun check_all :: "key_import list \<Rightarrow> (bytes list, unit) op" where
  "check_all [] = op_return ()"
| "check_all (k # ks) = op_bind (check_import (ki_crt k) (ki_alg k) (ki_key k)) (\<lambda>_. check_all ks)"

fun preflight_all :: "link \<Rightarrow> algorithm_information option \<Rightarrow> key_import list \<Rightarrow> (bytes list, unit) op" where
  "preflight_all lk fa [] = op_return ()"
| "preflight_all lk fa (k # ks) =
     op_bind (session_algorithm_attributes lk (ki_crt k)) (\<lambda>current.
     op_bind (preflight k current fa) (\<lambda>_. preflight_all lk fa ks))"

text \<open>The imports in order; \<open>finished\<close> are the keys already in.\<close>

fun import_each :: "link \<Rightarrow> bool \<Rightarrow> key_import list \<Rightarrow> key_import list \<Rightarrow> (bytes list, bytes list) op" where
  "import_each lk force finished [] = op_return (map ki_expect_fpr finished)"
| "import_each lk force finished (k # ks) = (\<lambda>h.
     case import_one lk force k (h, False) of
       (Err Panic, (h', _)) \<Rightarrow> (Err Panic, h')
     | (Err (Fault cause), (h', changed)) \<Rightarrow>
         (Err (Fault (slot_failure (map (\<lambda>k. crt_label (ki_crt k)) finished) (ki_crt k) changed cause)), h')
     | (Ok _, (h', _)) \<Rightarrow> import_each lk force (finished @ [k]) ks h')"

definition import_key_set :: "link \<Rightarrow> bool \<Rightarrow> key_import list \<Rightarrow> (bytes list, bytes list) op" where
  "import_key_set lk force keys =
     op_bind (check_all keys) (\<lambda>_.
     op_bind (supported_algorithms lk) (\<lambda>fa.
     op_bind (preflight_all lk fa keys) (\<lambda>_.
       import_each lk force [] keys)))"

end
