(* ===== verification/Pgp_Import_Facts.thy ===== *)
theory Pgp_Import_Facts
  imports Pgp_Import
begin

text \<open>
  What an import does to the card, whatever the card answers: failures before the first write, what a
  partial failure names, and what success means.
\<close>

subsection \<open>Running operations\<close>

lemma op_bind_Ok:
  "op_bind m f s = (Ok y, s'') \<longleftrightarrow> (\<exists>x s'. m s = (Ok x, s') \<and> f x s' = (Ok y, s''))"
  by (auto simp: op_bind_def split: prod.splits result.splits)

lemma op_bind_Err:
  "op_bind m f s = (Err e, s'') \<longleftrightarrow>
    m s = (Err e, s'') \<or> (\<exists>x s'. m s = (Ok x, s') \<and> f x s' = (Err e, s''))"
  by (auto simp: op_bind_def split: prod.splits result.splits)

named_theorems op_basic \<open>the operations that send nothing\<close>

lemma op_basics [op_basic]:
  "op_return x s = (r, s') \<longleftrightarrow> r = Ok x \<and> s' = s"
  "op_fail e s = (r, s') \<longleftrightarrow> r = Err (Fault e) \<and> s' = s"
  "op_panic s = (r, s') \<longleftrightarrow> r = Err Panic \<and> s' = s"
  by (auto simp: op_return_def op_fail_def op_panic_def)

lemma op_lift_Ok [op_basic]: "op_lift r s = (Ok x, s') \<longleftrightarrow> r = Ok x \<and> s' = s"
  by (cases r) (auto simp: op_basics)

lemma op_some_Ok [op_basic]: "op_some r s = (Ok x, s') \<longleftrightarrow> r = Some x \<and> s' = s"
  by (cases r) (auto simp: op_basics)

lemma map_err_Ok [op_basic]: "map_err f r = Ok x \<longleftrightarrow> r = Ok x"
  by (simp add: map_err_def split: result.splits)

lemma ok_or_apdu_Ok [op_basic]: "ok_or_apdu lbl sw s = (Ok x, s') \<longleftrightarrow> sw = PGP_SW_OK \<and> s' = s"
  by (auto simp: ok_or_apdu_def op_basics)

lemma transmit_full_Ok: "transmit_full lk c h = (Ok r, h') \<longleftrightarrow> lk (h @ [c]) = Ok r \<and> h' = h @ [c]"
  by (auto simp: transmit_full_def split: result.splits)

lemma send_built_Ok:
  "send_built lk b h = (Ok r, h') \<longleftrightarrow> (\<exists>c. b = Some c \<and> lk (h @ [c]) = Ok r \<and> h' = h @ [c])"
  by (auto simp: send_built_def op_bind_Ok op_basic transmit_full_Ok)

subsection \<open>Operations that only read\<close>

text \<open>The two writes an import uses, by their instruction.\<close>

definition is_write :: "bytes \<Rightarrow> bool" where
  "is_write c \<longleftrightarrow> 1 < length c \<and> (c ! 1 = pgp_code PiPutData \<or> c ! 1 = INS_PUT_DATA_ODD)"

definition sends_only :: "(bytes \<Rightarrow> bool) \<Rightarrow> (bytes list, 'a) op \<Rightarrow> bool" where
  "sends_only P m \<longleftrightarrow> (\<forall>h. \<exists>cs. snd (m h) = h @ cs \<and> list_all P cs)"

named_theorems sends_intros \<open>which commands an operation sends\<close>

lemma sends_basic [sends_intros]:
  "sends_only P (op_return x)" "sends_only P (op_fail e)" "sends_only P op_panic" "sends_only P (op_lift r)" "sends_only P (op_some b)"
  "sends_only P (ok_or_apdu lbl sw)"
proof -
  show "sends_only P (op_return x)" for x :: 'x by (simp add: sends_only_def op_return_def)
  show "sends_only P (op_fail e)" by (simp add: sends_only_def op_fail_def)
  show "sends_only P op_panic" by (simp add: sends_only_def op_panic_def)
  show "sends_only P (op_lift r)" by (cases r) (simp_all add: sends_only_def op_return_def op_fail_def)
  show "sends_only P (op_some b)" by (cases b) (simp_all add: sends_only_def op_return_def op_panic_def)
  show "sends_only P (ok_or_apdu lbl sw)" by (simp add: sends_only_def ok_or_apdu_def op_return_def op_fail_def)
qed

lemma sends_bind [sends_intros]:
  assumes "sends_only P m" "\<And>x. sends_only P (f x)"
  shows "sends_only P (op_bind m f)"
  unfolding sends_only_def
proof
  fix h
  obtain r h1 where m: "m h = (r, h1)" by fastforce
  with assms(1) obtain cs where cs: "h1 = h @ cs" "list_all P cs" by (auto simp: sends_only_def dest: spec [of _ h])
  show "\<exists>cs. snd (op_bind m f h) = h @ cs \<and> list_all P cs"
  proof (cases r)
    case (Ok x)
    from assms(2) obtain ds where "snd (f x h1) = h1 @ ds" "list_all P ds" by (auto simp: sends_only_def)
    with cs m Ok show ?thesis by (intro exI [of _ "cs @ ds"]) (simp add: op_bind_def)
  next
    case (Err e)
    with cs m show ?thesis by (auto simp: op_bind_def)
  qed
qed

lemma sends_try [sends_intros]: "sends_only P m \<Longrightarrow> sends_only P (op_try m)"
proof -
  have "snd (op_try m h) = snd (m h)" for h
    by (simp add: op_try_def split: prod.splits result.splits stop.splits)
  then show "sends_only P m \<Longrightarrow> sends_only P (op_try m)" by (simp add: sends_only_def)
qed

lemma sends_transmit [sends_intros]: "P c \<Longrightarrow> sends_only P (transmit_full lk c)"
  by (auto simp: sends_only_def transmit_full_def split: result.splits)

lemma sends_send [sends_intros]: "(\<And>c. b = Some c \<Longrightarrow> P c) \<Longrightarrow> sends_only P (send_built lk b)"
  unfolding send_built_def
  by (cases b) (auto simp: sends_only_def op_bind_def op_return_def op_panic_def transmit_full_def split: result.splits)

lemma sends_if [sends_intros]: "sends_only P m \<Longrightarrow> sends_only P n \<Longrightarrow> sends_only P (if b then m else n)"
  by simp

lemma sends_prefix: "sends_only P m \<Longrightarrow> m h = (r, h') \<Longrightarrow> prefix h h'"
  by (auto simp: sends_only_def prefix_def dest: spec [of _ h])

lemma read_commands:
  "\<not> is_write get_application_related_data" "\<not> is_write get_algorithm_information"
  "pgp_read_public_key crt = Some c \<Longrightarrow> \<not> is_write c"
  by (auto simp: is_write_def get_application_related_data_def get_algorithm_information_def pgp_get_data_def
      build_apdu_get_def pgp_read_public_key_def pgp_with_le_def Apdu.build_apdu_def try_build_apdu_def crt_bytes_def
      INS_PUT_DATA_ODD_def)

lemma sends_related_data: "P get_application_related_data \<Longrightarrow> sends_only P (read_related_data lk)"
  unfolding read_related_data_def by (intro sends_intros) (auto split: prod.splits intro!: sends_intros)

lemma sends_attributes: "P get_application_related_data \<Longrightarrow> sends_only P (session_algorithm_attributes lk crt)"
  unfolding session_algorithm_attributes_def by (intro sends_intros sends_related_data)

lemma sends_supported: "P get_algorithm_information \<Longrightarrow> sends_only P (supported_algorithms lk)"
  unfolding supported_algorithms_def by (intro sends_intros) (auto split: prod.splits intro!: sends_intros)

lemma sends_rsa_attributes: "P get_application_related_data \<Longrightarrow> sends_only P (session_rsa_attributes lk crt)"
  unfolding session_rsa_attributes_def
  by (intro sends_intros sends_attributes) (auto split: result.splits algorithm_attributes.splits intro!: sends_intros)

lemma sends_check: "sends_only P (check_import crt alg key)"
  unfolding check_import_def by (intro sends_intros)

lemma sends_preflight: "sends_only P (preflight k current fa)"
  unfolding preflight_def
  by (auto split: option.splits import_key.splits result.splits algorithm_attributes.splits
      simp: Let_def intro!: sends_intros)

lemma sends_check_all: "sends_only P (check_all ks)"
  by (induction ks) (auto intro!: sends_intros sends_check)

lemma sends_preflight_all: "P get_application_related_data \<Longrightarrow> sends_only P (preflight_all lk fa ks)"
  by (induction ks) (auto intro!: sends_intros sends_attributes sends_preflight)

lemma sends_chain: "sends_only (\<lambda>_. True) (transmit_chain lk lbl cs)"
  by (induction cs) (auto split: prod.splits intro!: sends_intros)

lemma sends_put_key: "sends_only (\<lambda>_. True) (put_key_import lk force ext ch)"
  unfolding put_key_import_def Let_def
  by (auto split: prod.splits intro!: sends_intros sends_chain)

subsection \<open>An import that changed nothing\<close>

text \<open>What was sent since \<open>h\<close> holds no write, or one at its end: the attribute change of the
  slot, which the card did not accept.\<close>

definition unharmed :: "link \<Rightarrow> key_crt \<Rightarrow> key_alg \<Rightarrow> bytes list \<Rightarrow> bytes list \<Rightarrow> bool" where
  "unharmed lk crt alg h h' \<longleftrightarrow>
     (\<exists>cs. h' = h @ cs \<and> list_all (\<lambda>c. \<not> is_write c) cs)
     \<or> (\<exists>cs a c. h' = h @ cs @ [c] \<and> list_all (\<lambda>c. \<not> is_write c) cs
          \<and> alg_attributes alg crt = Some (Ok a) \<and> put_algorithm_attributes crt a = Some c
          \<and> (\<forall>d. lk h' \<noteq> Ok (d, PGP_SW_OK)))"

lemma unharmed_reads:
  "sends_only (\<lambda>c. \<not> is_write c) m \<Longrightarrow> m h = (r, h') \<Longrightarrow> unharmed lk crt alg h h'"
  by (auto simp: sends_only_def unharmed_def dest: spec [of _ h])

lemma unharmed_after_reads:
  assumes m: "sends_only (\<lambda>c. \<not> is_write c) m" "m h = (r, h1)" and u: "unharmed lk crt alg h1 h2"
  shows "unharmed lk crt alg h h2"
proof -
  from m obtain cs where cs: "h1 = h @ cs" "list_all (\<lambda>c. \<not> is_write c) cs" by (auto simp: sends_only_def dest: spec [of _ h])
  from u consider (reads) ds where "h2 = h1 @ ds" "list_all (\<lambda>c. \<not> is_write c) ds"
    | (refused) ds a c where "h2 = h1 @ ds @ [c]" "list_all (\<lambda>c. \<not> is_write c) ds"
      "alg_attributes alg crt = Some (Ok a)" "put_algorithm_attributes crt a = Some c"
      "\<forall>d. lk h2 \<noteq> Ok (d, PGP_SW_OK)"
    unfolding unharmed_def by blast
  then show ?thesis
  proof cases
    case reads
    with cs show ?thesis unfolding unharmed_def by (intro disjI1 exI [of _ "cs @ ds"]) simp
  next
    case refused
    with cs show ?thesis unfolding unharmed_def
      by (intro disjI2 exI [of _ "cs @ ds"] exI [of _ a] exI [of _ c]) simp
  qed
qed

lemma set_algorithm_Err:
  assumes "set_algorithm lk crt alg h = (Err e, h')"
  shows "unharmed lk crt alg h h'"
proof (cases "alg_attributes alg crt")
  case None
  then show ?thesis using alg_attributes_total by blast
next
  case (Some r)
  show ?thesis
  proof (cases r)
    case (Err m)
    with assms Some have "h' = h"
      by (auto simp: set_algorithm_def op_bind_Err op_bind_Ok op_basic map_err_def op_some.simps)
    then show ?thesis by (simp add: unharmed_def)
  next
    case (Ok a)
    show ?thesis
    proof (cases "put_algorithm_attributes crt a")
      case None
      with assms Some Ok have "h' = h"
        by (auto simp: set_algorithm_def op_bind_Err op_bind_Ok op_basic map_err_def send_built_def)
      then show ?thesis by (simp add: unharmed_def)
    next
      case c: (Some c)
      with assms Some Ok have "h' = h @ [c] \<and> (\<forall>d. lk (h @ [c]) \<noteq> Ok (d, PGP_SW_OK))"
        by (auto simp: set_algorithm_def op_bind_Err op_bind_Ok op_basic map_err_def send_built_def
            transmit_full_def ok_or_apdu_def PGP_SW_OK_def split: result.splits if_splits)
      with Some Ok c show ?thesis by (auto simp: unharmed_def intro!: exI [of _ "[]"])
    qed
  qed
qed

subsection \<open>Tracked operations\<close>

definition tracks :: "'a tracked \<Rightarrow> bool" where
  "tracks m \<longleftrightarrow> (\<forall>h b r h' b'. m (h, b) = (r, (h', b')) \<longrightarrow> prefix h h' \<and> (b \<longrightarrow> b'))"

lemma tracks_basic:
  "tracks (op_return x)" "tracks (op_fail e)" "tracks op_panic" "tracks (op_lift r)" "tracks (op_some c)"
  "tracks set_changed"
proof -
  show "tracks (op_return x)" for x :: 'x by (simp add: tracks_def op_return_def)
  show "tracks (op_fail e)" by (simp add: tracks_def op_fail_def)
  show "tracks op_panic" by (simp add: tracks_def op_panic_def)
  show "tracks (op_lift r)" by (cases r) (simp_all add: tracks_def op_return_def op_fail_def)
  show "tracks (op_some c)" by (cases c) (simp_all add: tracks_def op_return_def op_panic_def)
  show "tracks set_changed" by (simp add: tracks_def set_changed_def)
qed

lemma tracks_untracked: "sends_only P m \<Longrightarrow> tracks (untracked m)"
  by (auto simp: tracks_def untracked_def dest: sends_prefix split: prod.splits)

lemma tracks_bind: "tracks m \<Longrightarrow> (\<And>x. tracks (f x)) \<Longrightarrow> tracks (op_bind m f)"
proof -
  assume m: "tracks m" and f: "\<And>x. tracks (f x)"
  show "tracks (op_bind m f)"
    unfolding tracks_def
  proof (intro allI impI)
    fix h b r h2 b2 assume run: "op_bind m f (h, b) = (r, (h2, b2))"
    obtain r1 h1 b1 where 1: "m (h, b) = (r1, (h1, b1))" by (cases "m (h, b)") auto
    with m have p1: "prefix h h1 \<and> (b \<longrightarrow> b1)" unfolding tracks_def by blast
    show "prefix h h2 \<and> (b \<longrightarrow> b2)"
    proof (cases r1)
      case (Ok x)
      with 1 run have "f x (h1, b1) = (r, (h2, b2))" by (simp add: op_bind_def)
      with f have "prefix h1 h2 \<and> (b1 \<longrightarrow> b2)" unfolding tracks_def by blast
      with p1 show ?thesis by (auto intro: prefix_order.order_trans)
    next
      case (Err e)
      with 1 run p1 show ?thesis by (simp add: op_bind_def)
    qed
  qed
qed

lemma tracks_if: "tracks m \<Longrightarrow> tracks n \<Longrightarrow> tracks (if b then m else n)"
  by simp

lemmas tracks_intros = tracks_basic tracks_bind tracks_if

lemma sends_weaken: "sends_only P m \<Longrightarrow> (\<And>c. P c \<Longrightarrow> Q c) \<Longrightarrow> sends_only Q m"
  unfolding sends_only_def by (metis (mono_tags, lifting) list.pred_mono_strong)

lemma sends_registration: "sends_only (\<lambda>_. True) (put_registration lk crt created fpr)"
  unfolding put_registration_def by (auto split: prod.splits intro!: sends_intros)

lemma sends_set_algorithm: "sends_only (\<lambda>_. True) (set_algorithm lk crt alg)"
  unfolding set_algorithm_def by (auto split: prod.splits intro!: sends_intros)

lemma sends_read_public_key: "sends_only (\<lambda>c. \<not> is_write c) (session_read_public_key lk crt)"
  unfolding session_read_public_key_def
  by (auto split: prod.splits intro!: sends_intros dest: read_commands(3))

lemma tracks_rsa: "tracks (import_rsa_tracked lk force crt key)"
  unfolding import_rsa_tracked_def
  by (intro tracks_intros tracks_untracked [OF sends_rsa_attributes [of "\<lambda>_. True"]] tracks_untracked [OF sends_put_key] TrueI)

lemma tracks_any: "tracks (import_any_tracked lk force crt alg key)"
  unfolding import_any_tracked_def Let_def check_import_def
  by (cases key) (auto intro!: tracks_intros tracks_rsa tracks_untracked [OF sends_set_algorithm]
      tracks_untracked [OF sends_attributes [of "\<lambda>_. True"]] tracks_untracked [OF sends_put_key])

lemma tracks_one: "tracks (import_one lk force k)"
  unfolding import_one_def
  by (intro tracks_intros tracks_any tracks_untracked [OF sends_read_public_key] tracks_untracked [OF sends_registration])

lemma untracked_eq: "untracked m (h, b) = (r, (h', b')) \<longleftrightarrow> m h = (r, h') \<and> b' = b"
  by (auto simp: untracked_def split: prod.splits)

lemma set_changed_eq: "set_changed (h, b) = (r, (h', b')) \<longleftrightarrow> r = Ok () \<and> h' = h \<and> b'"
  by (auto simp: set_changed_def)

lemma bind_cases:
  assumes "op_bind m f s = (r, s2)"
  obtains (stop) e where "m s = (Err e, s2)" "r = Err e"
    | (go) x s1 where "m s = (Ok x, s1)" "f x s1 = (r, s2)"
  using assms by (auto simp: op_bind_def split: prod.splits result.splits)

lemma tracked_flag: "tracks m \<Longrightarrow> m (h, True) \<noteq> (r, (h', False))"
  unfolding tracks_def by blast

text \<open>An operation that keeps the flag down either only read, or failed and left the slot
  unharmed; and it failed, when it is one that ends by sending the key.\<close>

definition only_read :: "bytes list \<Rightarrow> bytes list \<Rightarrow> bool" where
  "only_read h h' \<longleftrightarrow> (\<exists>cs. h' = h @ cs \<and> list_all (\<lambda>c. \<not> is_write c) cs)"

definition careful :: "link \<Rightarrow> key_crt \<Rightarrow> key_alg \<Rightarrow> 'a tracked \<Rightarrow> bool" where
  "careful lk crt alg m \<longleftrightarrow>
     (\<forall>h r h'. m (h, False) = (r, (h', False)) \<longrightarrow>
        only_read h h' \<or> ((\<exists>e. r = Err e) \<and> unharmed lk crt alg h h'))"

definition must_flag :: "'a tracked \<Rightarrow> bool" where
  "must_flag m \<longleftrightarrow> (\<forall>h r h'. m (h, False) = (r, (h', False)) \<longrightarrow> (\<exists>e. r = Err e))"

lemma only_read_trans: "only_read h1 h2 \<Longrightarrow> only_read h2 h3 \<Longrightarrow> only_read h1 h3"
  by (auto simp: only_read_def)

lemma only_read_unharmed: "only_read h h' \<Longrightarrow> unharmed lk crt alg h h'"
  by (auto simp: only_read_def unharmed_def)

lemma only_read_then: "only_read h h1 \<Longrightarrow> unharmed lk crt alg h1 h2 \<Longrightarrow> unharmed lk crt alg h h2"
proof -
  assume "only_read h h1" and u: "unharmed lk crt alg h1 h2"
  then obtain cs where cs: "h1 = h @ cs" "list_all (\<lambda>c. \<not> is_write c) cs" by (auto simp: only_read_def)
  have "sends_only (\<lambda>c. \<not> is_write c) (\<lambda>h. (Ok () :: (unit, stop) result, h @ cs))" using cs(2) by (simp add: sends_only_def)
  from unharmed_after_reads [OF this _ u] cs(1) show ?thesis by blast
qed

lemma sends_only_read: "sends_only (\<lambda>c. \<not> is_write c) m \<Longrightarrow> m h = (r, h') \<Longrightarrow> only_read h h'"
  unfolding sends_only_def only_read_def by (metis snd_conv)

lemma careful_bind:
  assumes "careful lk crt alg m" "\<And>x. careful lk crt alg (f x)" "\<And>x. tracks (f x)"
  shows "careful lk crt alg (op_bind m f)"
  unfolding careful_def
proof (intro allI impI)
  fix h r h' assume "op_bind m f (h, False) = (r, (h', False))"
  then show "only_read h h' \<or> ((\<exists>e. r = Err e) \<and> unharmed lk crt alg h h')"
  proof (cases rule: bind_cases)
    case (stop e)
    with assms(1) show ?thesis unfolding careful_def by blast
  next
    case (go x s1)
    obtain h1 b1 where s1: "s1 = (h1, b1)" by (cases s1)
    with go(2) tracked_flag [OF assms(3)] have "b1 = False" by (cases b1) auto
    with go s1 have m: "m (h, False) = (Ok x, (h1, False))" "f x (h1, False) = (r, (h', False))" by simp_all
    from assms(1) m(1) have one: "only_read h h1" unfolding careful_def by blast
    from assms(2) m(2) have "only_read h1 h' \<or> ((\<exists>e. r = Err e) \<and> unharmed lk crt alg h1 h')"
      unfolding careful_def by blast
    with one show ?thesis using only_read_trans only_read_then by blast
  qed
qed

lemma must_flag_bind:
  assumes "\<And>x. must_flag (f x)" "\<And>x. tracks (f x)"
  shows "must_flag (op_bind m f)"
  unfolding must_flag_def
proof (intro allI impI)
  fix h r h' assume "op_bind m f (h, False) = (r, (h', False))"
  then show "\<exists>e. r = Err e"
  proof (cases rule: bind_cases)
    case (go x s1)
    obtain h1 b1 where s1: "s1 = (h1, b1)" by (cases s1)
    with go(2) tracked_flag [OF assms(2)] have "b1 = False" by (cases b1) auto
    with go(2) s1 assms(1) show ?thesis unfolding must_flag_def by blast
  qed blast
qed

lemma after_set_changed:
  assumes "tracks (f ())"
  shows "careful lk crt alg (op_bind set_changed f)" "must_flag (op_bind set_changed f)"
  using tracked_flag [OF assms] by (auto simp: careful_def must_flag_def op_bind_def set_changed_def)

lemma careful_basic:
  "careful lk crt alg (op_return x)" "careful lk crt alg (op_fail e)" "careful lk crt alg op_panic"
  "careful lk crt alg (op_lift r)" "careful lk crt alg (op_some c)" "careful lk crt alg set_changed"
proof -
  show "careful lk crt alg (op_return x)" for x :: 'x by (simp add: careful_def only_read_def op_return_def)
  show "careful lk crt alg (op_fail e)" by (simp add: careful_def only_read_def op_fail_def)
  show "careful lk crt alg op_panic" by (simp add: careful_def only_read_def op_panic_def)
  show "careful lk crt alg (op_lift r)" by (cases r) (simp_all add: careful_def only_read_def op_fail_def op_return_def)
  show "careful lk crt alg (op_some c)" by (cases c) (simp_all add: careful_def only_read_def op_panic_def op_return_def)
  show "careful lk crt alg set_changed" by (simp add: careful_def set_changed_def)
qed

lemma careful_reads: "sends_only (\<lambda>c. \<not> is_write c) m \<Longrightarrow> careful lk crt alg (untracked m)"
  by (auto simp: careful_def untracked_eq dest: sends_only_read)

lemma must_flag_fail: "must_flag (op_fail e)"
  by (simp add: must_flag_def op_fail_def)

lemma careful_if: "careful lk crt alg m \<Longrightarrow> careful lk crt alg n \<Longrightarrow> careful lk crt alg (if b then m else n)"
  by simp

lemma must_flag_if: "must_flag m \<Longrightarrow> must_flag n \<Longrightarrow> must_flag (if b then m else n)"
  by simp

lemma careful_set_algorithm:
  "careful lk crt alg (op_bind (untracked (set_algorithm lk crt alg)) (\<lambda>_. set_changed))"
  unfolding careful_def
  by (auto simp: op_bind_def untracked_def set_changed_def dest: set_algorithm_Err split: prod.splits result.splits)

lemmas careful_intros = careful_bind careful_basic careful_if after_set_changed(1)

lemma reads_attributes: "sends_only (\<lambda>c. \<not> is_write c) (session_algorithm_attributes lk crt)"
  by (rule sends_attributes) (rule read_commands)

lemma reads_rsa_attributes: "sends_only (\<lambda>c. \<not> is_write c) (session_rsa_attributes lk crt)"
  by (rule sends_rsa_attributes) (rule read_commands)

lemma careful_rsa: "careful lk crt alg (import_rsa_tracked lk force c key)"
  unfolding import_rsa_tracked_def
  by (intro careful_bind careful_basic careful_if careful_reads [OF reads_rsa_attributes] after_set_changed tracks_intros
      tracks_untracked [OF sends_put_key])

lemma must_flag_rsa: "must_flag (import_rsa_tracked lk force c key)"
  unfolding import_rsa_tracked_def
  by (intro must_flag_bind must_flag_if must_flag_fail after_set_changed tracks_intros
      tracks_untracked [OF sends_put_key])

lemma careful_any: "careful lk crt alg (import_any_tracked lk force crt alg key)"
  unfolding import_any_tracked_def check_import_def Let_def
  by (cases key) (auto intro!: careful_bind careful_basic careful_if careful_set_algorithm careful_rsa
      careful_reads [OF reads_attributes] after_set_changed tracks_intros tracks_rsa
      tracks_untracked [OF reads_attributes] tracks_untracked [OF sends_set_algorithm] tracks_untracked [OF sends_put_key])

lemma must_flag_any: "must_flag (import_any_tracked lk force crt alg key)"
  unfolding import_any_tracked_def check_import_def Let_def
  by (cases key) (auto intro!: must_flag_bind must_flag_rsa after_set_changed tracks_intros tracks_rsa
      tracks_untracked [OF reads_attributes] tracks_untracked [OF sends_set_algorithm] tracks_untracked [OF sends_put_key])

lemma any_unchanged:
  assumes "import_any_tracked lk force crt alg key (h, False) = (r, (h', False))"
  shows "(\<exists>e. r = Err e) \<and> unharmed lk crt alg h h'"
  using assms careful_any [of lk crt alg force key] must_flag_any [of lk force crt alg key] only_read_unharmed
  unfolding careful_def must_flag_def by blast

subsection \<open>A registered key\<close>

text \<open>The card took the command at the end of \<open>p\<close> and answered it with success.\<close>

definition accepted :: "link \<Rightarrow> bytes list \<Rightarrow> bytes \<Rightarrow> bytes \<Rightarrow> bytes list \<Rightarrow> bool" where
  "accepted lk p c data h \<longleftrightarrow> prefix (p @ [c]) h \<and> lk (p @ [c]) = Ok (data, PGP_SW_OK)"

definition registered :: "link \<Rightarrow> bytes list \<Rightarrow> key_import \<Rightarrow> bool" where
  "registered lk h k \<longleftrightarrow>
     (\<exists>p c data pk q t d1 r f d2.
        pgp_read_public_key (ki_crt k) = Some c \<and> accepted lk p c data h
        \<and> parse_generated_public_key data = Ok pk \<and> same_public_key pk (ki_expect_public k)
        \<and> put_generation_time (ki_crt k) (ki_created k) = Some t \<and> accepted lk q t d1 h \<and> prefix (p @ [c]) q
        \<and> put_fingerprint (ki_crt k) (ki_expect_fpr k) = Some f \<and> accepted lk r f d2 h \<and> prefix (q @ [t]) r)"

lemma registered_mono: "registered lk h k \<Longrightarrow> prefix h h' \<Longrightarrow> registered lk h' k"
  unfolding registered_def accepted_def by (meson prefix_order.order_trans)

lemma read_public_key_Ok:
  assumes "session_read_public_key lk crt h = (Ok pk, h')"
  shows "\<exists>c data. pgp_read_public_key crt = Some c \<and> h' = h @ [c] \<and> lk h' = Ok (data, PGP_SW_OK)
    \<and> parse_generated_public_key data = Ok pk"
  using assms
  by (auto simp: session_read_public_key_def op_bind_Ok send_built_Ok op_basic)

lemma put_registration_Ok:
  assumes "put_registration lk crt created fpr h = (Ok u, h')"
  shows "\<exists>t d1 f d2. put_generation_time crt created = Some t \<and> lk (h @ [t]) = Ok (d1, PGP_SW_OK)
    \<and> put_fingerprint crt fpr = Some f \<and> lk (h @ [t, f]) = Ok (d2, PGP_SW_OK) \<and> h' = h @ [t, f]"
  using assms
  by (auto simp: put_registration_def op_bind_Ok send_built_Ok op_basic)

lemma import_one_Ok:
  assumes "import_one lk force k (h, b) = (Ok u, (h', b'))"
  shows "prefix h h' \<and> registered lk h' k"
proof -
  from assms obtain s1 pk s2 where one: "import_any_tracked lk force (ki_crt k) (ki_alg k) (ki_key k) (h, b) = (Ok (), s1)"
    and two: "untracked (session_read_public_key lk (ki_crt k)) s1 = (Ok pk, s2)"
    and same: "same_public_key pk (ki_expect_public k)"
    and three: "untracked (put_registration lk (ki_crt k) (ki_created k) (ki_expect_fpr k)) s2 = (Ok u, (h', b'))"
    by (auto simp: import_one_def op_bind_Ok op_basic split: if_splits)
  obtain h1 b1 h2 b2 where s: "s1 = (h1, b1)" "s2 = (h2, b2)" by (metis surj_pair)
  have p: "prefix h h1" using one tracks_any [of lk force "ki_crt k" "ki_alg k" "ki_key k"] s unfolding tracks_def by blast
  from two s have "session_read_public_key lk (ki_crt k) h1 = (Ok pk, h2)" by (simp add: untracked_eq)
  from read_public_key_Ok [OF this] obtain c data where c: "pgp_read_public_key (ki_crt k) = Some c" "h2 = h1 @ [c]"
    "lk h2 = Ok (data, PGP_SW_OK)" "parse_generated_public_key data = Ok pk" by blast
  from three s have "put_registration lk (ki_crt k) (ki_created k) (ki_expect_fpr k) h2 = (Ok u, h')"
    by (simp add: untracked_eq)
  from put_registration_Ok [OF this] obtain t d1 f d2 where
    t: "put_generation_time (ki_crt k) (ki_created k) = Some t" "lk (h2 @ [t]) = Ok (d1, PGP_SW_OK)"
    and f: "put_fingerprint (ki_crt k) (ki_expect_fpr k) = Some f" "lk (h2 @ [t, f]) = Ok (d2, PGP_SW_OK)"
    and h': "h' = h2 @ [t, f]" by blast
  have "pgp_read_public_key (ki_crt k) = Some c \<and> accepted lk h1 c data h'
      \<and> parse_generated_public_key data = Ok pk \<and> same_public_key pk (ki_expect_public k)
      \<and> put_generation_time (ki_crt k) (ki_created k) = Some t \<and> accepted lk h2 t d1 h' \<and> prefix (h1 @ [c]) h2
      \<and> put_fingerprint (ki_crt k) (ki_expect_fpr k) = Some f \<and> accepted lk (h2 @ [t]) f d2 h'
      \<and> prefix (h2 @ [t]) (h2 @ [t])"
    using c same t f h' by (simp add: accepted_def)
  then have "registered lk h' k" unfolding registered_def by (elim conjE) (intro exI conjI; assumption)
  moreover have "prefix h h'" using p c(2) h' by (auto intro: prefix_order.order_trans)
  ultimately show ?thesis by blast
qed

lemma import_one_Err:
  assumes "import_one lk force k (h, False) = (Err e, (h', ch))"
  shows "prefix h h' \<and> (ch \<or> unharmed lk (ki_crt k) (ki_alg k) h h')"
proof -
  have t: "prefix h h'" using assms tracks_one [of lk force k] unfolding tracks_def by blast
  show ?thesis
  proof (cases ch)
    case False
    have rest: "tracks (op_bind (untracked (session_read_public_key lk (ki_crt k))) (\<lambda>got.
       if \<not> same_public_key got (ki_expect_public k) then
         op_fail (OpenPgpFingerprintMismatch (crt_label (ki_crt k)))
       else untracked (put_registration lk (ki_crt k) (ki_created k) (ki_expect_fpr k))))"
      by (intro tracks_intros tracks_untracked [OF sends_read_public_key] tracks_untracked [OF sends_registration])
    from assms [unfolded import_one_def False] show ?thesis
    proof (cases rule: bind_cases)
      case (stop e')
      with t False any_unchanged [of lk force "ki_crt k" "ki_alg k" "ki_key k" h] show ?thesis by auto
    next
      case (go x s1)
      obtain h1 b1 where s1: "s1 = (h1, b1)" by (cases s1)
      with go(2) False tracked_flag [OF rest] have "b1 = False" by (cases b1) auto
      with go(1) s1 any_unchanged have "\<exists>e. (Ok x :: (unit, stop) result) = Err e" by blast
      then show ?thesis by simp
    qed
  qed (use t in simp)
qed

lemma import_each_Ok:
  assumes "import_each lk force fin ks h = (Ok fprs, h')" "\<forall>k\<in>set fin. registered lk h k"
  shows "fprs = map ki_expect_fpr (fin @ ks) \<and> (\<forall>k\<in>set (fin @ ks). registered lk h' k) \<and> prefix h h'"
  using assms
proof (induction ks arbitrary: fin h)
  case Nil
  then show ?case by (simp add: op_basic)
next
  case (Cons k ks)
  from Cons.prems(1) obtain h1 b1 where 1: "import_one lk force k (h, False) = (Ok (), (h1, b1))"
    and rest: "import_each lk force (fin @ [k]) ks h1 = (Ok fprs, h')"
    by (auto split: prod.splits result.splits stop.splits)
  from import_one_Ok [OF 1] have p: "prefix h h1" "registered lk h1 k" by simp_all
  with Cons.prems(2) have "\<forall>k'\<in>set (fin @ [k]). registered lk h1 k'" by (auto intro: registered_mono)
  from Cons.IH [OF rest this] p show ?case by (auto intro: prefix_order.order_trans)
qed

lemma import_each_Err:
  assumes "import_each lk force fin ks h = (Err (Fault e), h')" "\<forall>k\<in>set fin. registered lk h k"
  shows "\<exists>i cause changed hi. i < length ks
    \<and> e = slot_failure (map (\<lambda>k. crt_label (ki_crt k)) (fin @ take i ks)) (ki_crt (ks ! i)) changed cause
    \<and> (\<forall>k\<in>set (fin @ take i ks). registered lk h' k) \<and> prefix h hi \<and> prefix hi h'
    \<and> (i = 0 \<longrightarrow> hi = h) \<and> (changed \<or> unharmed lk (ki_crt (ks ! i)) (ki_alg (ks ! i)) hi h')"
  using assms
proof (induction ks arbitrary: fin h)
  case Nil
  then show ?case by (simp add: op_basic)
next
  case (Cons k ks)
  obtain r h1 b1 where run: "import_one lk force k (h, False) = (r, (h1, b1))" by (metis surj_pair)
  show ?case
  proof (cases r)
    case (Ok u)
    from import_one_Ok [OF run [unfolded Ok]] have p: "prefix h h1" "registered lk h1 k" by simp_all
    have rest: "import_each lk force (fin @ [k]) ks h1 = (Err (Fault e), h')"
      using Cons.prems(1) run Ok by simp
    from p Cons.prems(2) have "\<forall>k'\<in>set (fin @ [k]). registered lk h1 k'" by (auto intro: registered_mono)
    from Cons.IH [OF rest this] obtain i cause changed hi where
      "i < length ks" "e = slot_failure (map (\<lambda>k. crt_label (ki_crt k)) ((fin @ [k]) @ take i ks)) (ki_crt (ks ! i)) changed cause"
      "\<forall>k'\<in>set ((fin @ [k]) @ take i ks). registered lk h' k'" "prefix h1 hi" "prefix hi h'"
      "changed \<or> unharmed lk (ki_crt (ks ! i)) (ki_alg (ks ! i)) hi h'" by blast
    with p(1) show ?thesis
      by (intro exI [of _ "Suc i"] exI [of _ cause] exI [of _ changed] exI [of _ hi])
         (auto intro: prefix_order.order_trans)
  next
    case (Err st)
    then obtain cause where st: "st = Fault cause" "h' = h1"
        "e = slot_failure (map (\<lambda>k. crt_label (ki_crt k)) fin) (ki_crt k) b1 cause"
      using Cons.prems(1) run by (cases st) auto
    from import_one_Err [OF run [unfolded Err]] st Cons.prems(2) show ?thesis
      by (intro exI [of _ 0] exI [of _ cause] exI [of _ b1] exI [of _ h])
         (auto intro: registered_mono)
  qed
qed

text \<open>What runs before the first import only reads.\<close>

lemma import_key_set_cases:
  assumes "import_key_set lk force keys h = (r, h')"
  obtains (before) "only_read h h'" "\<exists>e. r = Err e"
    | (importing) h0 where "only_read h h0" "import_each lk force [] keys h0 = (r, h')"
proof -
  have a: "sends_only (\<lambda>c. \<not> is_write c) (check_all keys)" by (rule sends_check_all)
  have b: "sends_only (\<lambda>c. \<not> is_write c) (supported_algorithms lk)" by (rule sends_supported) (rule read_commands)
  have c: "sends_only (\<lambda>c. \<not> is_write c) (preflight_all lk fa keys)" for fa by (rule sends_preflight_all) (rule read_commands)
  from assms [unfolded import_key_set_def] show ?thesis
  proof (cases rule: bind_cases)
    case (stop e)
    with sends_only_read [OF a] show ?thesis by (intro before) blast+
  next
    case (go u h1)
    note r1 = sends_only_read [OF a go(1)]
    from go(2) show ?thesis
    proof (cases rule: bind_cases)
      case (stop e)
      with only_read_trans [OF r1 sends_only_read [OF b stop(1)]] show ?thesis by (intro before) blast+
    next
      case (go fa h2)
      note r2 = only_read_trans [OF r1 sends_only_read [OF b go(1)]]
      from go(2) show ?thesis
      proof (cases rule: bind_cases)
        case (stop e)
        with only_read_trans [OF r2 sends_only_read [OF c stop(1)]] show ?thesis by (intro before) blast+
      next
        case (go v h3)
        from importing [OF only_read_trans [OF r2 sends_only_read [OF c go(1)]] go(2)] show ?thesis .
      qed
    qed
  qed
qed

subsection \<open>A whole set\<close>

text \<open>C6: a key set that is reported as imported is on the card under the file's identity: for
  each key the card read back the file's public key, then took the file's creation time and then its
  fingerprint, and the fingerprints returned are the file's, in order.\<close>

theorem key_set_imported:
  assumes "import_key_set lk force keys h = (Ok fprs, h')"
  shows "fprs = map ki_expect_fpr keys \<and> (\<forall>k\<in>set keys. registered lk h' k)"
  using assms
proof (cases rule: import_key_set_cases)
  case (importing h0)
  from import_each_Ok [OF importing(2)] show ?thesis by simp
qed simp

text \<open>A card with Ed25519 in its signature slot.\<close>

definition sample_ard :: "bytes \<Rightarrow> bytes" where
  "sample_ard attrs = ard_object [1] [] [] attrs [] [] (replicate 7 3) (replicate 60 5)"

definition sample_link :: link where
  "sample_link h =
     (let c = last h in
      if c ! 1 = 0xCA then
        (if c ! 3 = 0x6E then Ok (sample_ard (0x16 # curve_oid Ed25519), 0x9000) else Ok ([], 0x6A88))
      else if c ! 1 = 0x47 then Ok (pgp_ber_tlv 0x7F49 (pgp_ber_tlv 0x86 [9]), 0x9000)
      else Ok ([], 0x9000))"

definition sample_key :: key_import where
  "sample_key = \<lparr>ki_crt = CrtSign, ki_alg = AlgEd25519, ki_key = IkEcc \<lparr>ek_scalar = [1], ek_public = None\<rparr>,
     ki_created = 5, ki_expect_fpr = replicate 20 7, ki_expect_public = PgpEcc [9]\<rparr>"

lemma sample_attributes:
  assumes "lk (h @ [get_application_related_data]) = Ok (sample_ard attrs, 0x9000)" "length attrs < 100"
  shows "session_algorithm_attributes lk CrtSign h = (Ok attrs, h @ [get_application_related_data])"
proof -
  have "\<exists>d. parse_application_related_data (sample_ard attrs) = Ok d \<and> algo_attr_sig d = attrs"
    using ard_object_read [of "[1]" "[]" "[]" attrs "[]" "[]" "replicate 60 5" "replicate 7 3"] assms(2)
    unfolding sample_ard_def by auto
  with assms(1) show ?thesis
    by (auto simp: session_algorithm_attributes_def read_related_data_def op_bind_def transmit_full_def ok_or_apdu_def
        op_return_def map_err_def PGP_SW_OK_def)
qed

lemma get_ard_bytes: "get_application_related_data = [0, 0xCA, 0, 0x6E, 0]" "get_algorithm_information = [0, 0xCA, 0, 0xFA, 0]"
  by (simp_all add: get_application_related_data_def get_algorithm_information_def pgp_get_data_def build_apdu_get_def
      hi_byte_def lo_byte_def TAG_APPLICATION_RELATED_DATA_def TAG_ALGORITHM_INFORMATION_def)

lemma sample_any:
  "\<exists>h'. import_any_tracked sample_link False CrtSign AlgEd25519 (IkEcc \<lparr>ek_scalar = [1], ek_public = None\<rparr>) (h, False)
    = (Ok (), (h', True))"
proof -
  obtain obj where obj: "ecc_extended_header_list CrtSign \<lparr>ek_scalar = [1], ek_public = None\<rparr> 32 = Ok (Some obj)"
     "length obj \<le> 0xFFFF"
    by (auto simp: ecc_extended_header_list_def ecc_scalar_fits_def Let_def pgp_ber_tlv_def ber_len_def)
  have a: "session_algorithm_attributes sample_link CrtSign h = (Ok (0x16 # curve_oid Ed25519), h @ [get_application_related_data])" for h
    by (rule sample_attributes) (simp_all add: sample_link_def get_ard_bytes)
  have p: "parse_algorithm_attributes (0x16 # curve_oid Ed25519) = Ok (AttrEcc EdDsa Ed25519 False)"
    using parse_ecc_attributes(1) [of EdDsa Ed25519] by simp
  show ?thesis
    using obj p
    by (simp add: import_any_tracked_def check_import_def alg_attributes_def key_fits_def ecc_scalar_fits_def
        op_bind_def op_return_def map_err_def untracked_def a needs_attribute_write_def attr_alg_def attr_key_alg_curve
        asks_public_key_def import_ecc_key_def build_apdu_extended_def set_changed_def put_key_import_def
        transmit_full_def sample_link_def INS_PUT_DATA_ODD_def PGP_SW_OK_def Let_def
        del: attr_key_alg.simps curve_oid.simps)
qed

lemma ec_point_read:
  assumes "length p < 60000"
  shows "parse_generated_public_key (pgp_ber_tlv 0x7F49 (pgp_ber_tlv 0x86 p)) = Ok (PgpEcc p)"
proof -
  have p: "pgp_parse_tlvs (pgp_ber_tlv 0x86 p) = Ok [tlv_of 0x86 p]" and l: "length (pgp_ber_tlv 0x86 p) < 65536"
    using parse_objects [of "[(0x86, p)]"] assms by (simp_all add: tag_ok_def)
  have t: "t_tag (tlv_of t v) = t" "t_value (tlv_of t v) = v" for t v by (simp_all add: tlv_of_def)
  have "unwrap_object 0x7F49 (pgp_ber_tlv 0x7F49 (pgp_ber_tlv 0x86 p)) = Ok (pgp_ber_tlv 0x86 p)"
    using unwrap_envelope [OF envelope_tags_ok(4) l] by (simp add: TAG_PUBLIC_KEY_def)
  then show ?thesis
    by (simp add: parse_generated_public_key_def TAG_PUBLIC_KEY_def p find_nested_here t TAG_EC_PUBLIC_POINT_def
        del: bind_result_eq_Ok)
qed

lemma sample_read_public_key:
  "\<exists>c. session_read_public_key sample_link CrtSign h = (Ok (PgpEcc [9]), h @ [c])"
proof -
  obtain c where c: "pgp_read_public_key CrtSign = Some c" "c ! 1 = 0x47"
    by (auto simp: pgp_read_public_key_def pgp_with_le_def Apdu.build_apdu_def try_build_apdu_def crt_bytes_def)
  then show ?thesis
    by (simp add: session_read_public_key_def send_built_def op_bind_def op_return_def transmit_full_def
        sample_link_def ok_or_apdu_def PGP_SW_OK_def ec_point_read map_err_def)
qed

lemma sample_registration: "\<exists>h'. put_registration sample_link CrtSign t (replicate 20 7) h = (Ok (), h')"
  by (simp add: put_registration_def put_generation_time_def put_fingerprint_def pgp_put_data_def
        Apdu.build_apdu_def try_build_apdu_def op_bind_def op_return_def send_built_def transmit_full_def
        sample_link_def ok_or_apdu_def PGP_SW_OK_def u32_to_be_def)

lemma sample_one:
  "\<exists>h'. import_one sample_link False (sample_key\<lparr>ki_expect_public := PgpEcc [b]\<rparr>) (h, False)
    = (if b = 9 then Ok () else Err (Fault (OpenPgpFingerprintMismatch (ascii ''signature''))), (h', True))"
proof -
  obtain h1 where 1: "import_any_tracked sample_link False CrtSign AlgEd25519
      (IkEcc \<lparr>ek_scalar = [1], ek_public = None\<rparr>) (h, False) = (Ok (), (h1, True))" using sample_any by blast
  obtain c where 2: "session_read_public_key sample_link CrtSign h1 = (Ok (PgpEcc [9]), h1 @ [c])"
    using sample_read_public_key by blast
  obtain h3 where 3: "put_registration sample_link CrtSign 5 (replicate 20 7) (h1 @ [c]) = (Ok (), h3)"
    using sample_registration by blast
  show ?thesis
    using 1 2 3 by (auto simp: import_one_def sample_key_def op_bind_def op_fail_def untracked_def bare_point_def)
qed

lemma sample_set:
  "\<exists>h'. import_key_set sample_link False [sample_key\<lparr>ki_expect_public := PgpEcc [b]\<rparr>] []
    = (if b = 9 then Ok [replicate 20 7]
       else Err (Fault (OpenPgpKeySetPartial [] (ascii ''signature'') True
              (OpenPgpFingerprintMismatch (ascii ''signature'')))), h')"
proof -
  let ?k = "sample_key\<lparr>ki_expect_public := PgpEcc [b]\<rparr>"
  have c: "check_all [?k] h = (Ok (), h)" for h
    by (simp add: sample_key_def check_import_def alg_attributes_def key_fits_def ecc_scalar_fits_def op_bind_def
        op_return_def map_err_def Let_def)
  have s: "supported_algorithms sample_link h = (Ok None, h @ [get_algorithm_information])" for h
    by (simp add: supported_algorithms_def op_bind_def transmit_full_def sample_link_def get_ard_bytes op_return_def
        PGP_SW_OK_def)
  have a: "session_algorithm_attributes sample_link CrtSign h = (Ok (0x16 # curve_oid Ed25519), h @ [get_application_related_data])" for h
    by (rule sample_attributes) (simp_all add: sample_link_def get_ard_bytes)
  have p: "\<exists>h'. preflight_all sample_link None [?k] h = (Ok (), h')" for h
    by (simp add: preflight_def op_bind_def op_return_def a sample_key_def)
  obtain h1 where h1: "preflight_all sample_link None [?k] [get_algorithm_information] = (Ok (), h1)"
    using p by blast
  obtain h2 where h2: "import_one sample_link False ?k (h1, False)
      = (if b = 9 then Ok () else Err (Fault (OpenPgpFingerprintMismatch (ascii ''signature''))), (h2, True))"
    using sample_one by blast
  have k: "ki_crt ?k = CrtSign" "ki_expect_fpr ?k = replicate 20 7" by (simp_all add: sample_key_def)
  have each: "import_each sample_link False [] [?k] h1
      = (if b = 9 then Ok [replicate 20 7]
         else Err (Fault (OpenPgpKeySetPartial [] (ascii ''signature'') True
                (OpenPgpFingerprintMismatch (ascii ''signature'')))), h2)"
    using h2 k by (simp add: op_return_def slot_failure_def split: if_splits)
  have "import_key_set sample_link False [?k] [] = import_each sample_link False [] [?k] h1"
    using c [of "[]"] s [of "[]"] h1
    by (simp add: import_key_set_def op_bind_def op_return_def del: check_all.simps preflight_all.simps import_each.simps)
  with each show ?thesis by auto
qed

theorem key_set_imported_witness:
  "\<exists>h'. import_key_set sample_link False [sample_key] [] = (Ok [replicate 20 7], h')
    \<and> registered sample_link h' sample_key"
  proof -
  have "sample_key\<lparr>ki_expect_public := PgpEcc [9]\<rparr> = sample_key" by (simp add: sample_key_def)
  with sample_set [of 9] obtain h' where "import_key_set sample_link False [sample_key] [] = (Ok [replicate 20 7], h')"
    by auto
  with key_set_imported [OF this] show ?thesis by auto
qed



text \<open>A card that goes away while it takes an attribute change.\<close>

definition lost_link :: link where
  "lost_link h =
     (if last h ! 1 = 0xCA then Ok (sample_ard (0x13 # curve_oid NistP256), 0x9000) else Err (Pcsc ResetCard))"

text \<open>A card lost while it answers the attribute change leaves the plain transport error, although
  a write for the slot had been sent: the flag is set only after \<^verbatim>\<open>set_algorithm\<close> returned.\<close>

lemma lost_attribute_write:
  "\<exists>h'. import_any lost_link False CrtSign AlgEd25519 (IkEcc \<lparr>ek_scalar = [1], ek_public = None\<rparr>) []
      = (Err (Fault (Pcsc ResetCard)), h') \<and> h' \<noteq> [] \<and> is_write (last h')"
proof -
  have a: "session_algorithm_attributes lost_link CrtSign h = (Ok (0x13 # curve_oid NistP256), h @ [get_application_related_data])" for h
    by (rule sample_attributes) (simp_all add: lost_link_def get_ard_bytes)
  have p: "attr_alg (0x13 # curve_oid NistP256) = Some AlgNistP256"
    using parse_ecc_attributes(1) [of Ecdsa NistP256]
    by (simp add: attr_alg_def attr_key_alg_curve del: curve_oid.simps attr_key_alg.simps)
  obtain c where c: "set_algorithm lost_link CrtSign AlgEd25519 h = (Err (Fault (Pcsc ResetCard)), h @ [c])" "is_write c" for h
    by (simp add: set_algorithm_def alg_attributes_def op_bind_def op_return_def map_err_def send_built_def
        put_algorithm_attributes_def pgp_put_data_def Apdu.build_apdu_def try_build_apdu_def transmit_full_def
        lost_link_def is_write_def)
  show ?thesis
    using c
    by (simp add: import_any_def import_any_tracked_def check_import_def alg_attributes_def key_fits_def
        ecc_scalar_fits_def op_bind_def op_return_def map_err_def untracked_def a needs_attribute_write_def p
        slot_failure_def Let_def del: curve_oid.simps)
qed

end
