(* ===== verification/Pgp_Reset.thy ===== *)
theory Pgp_Reset
  imports Pgp_Session
begin

text \<open>
  What \<^verbatim>\<open>factory_reset\<close> and \<^verbatim>\<open>block_pin\<close> of
  \<^verbatim>\<open>crates/keyroost-transport/src/openpgp.rs\<close> send, whatever the card answers: wrong PINs
  until both counters are used up, and only then the two commands that erase the card.
\<close>

subsection \<open>Guesses\<close>

definition pin_digits :: "bytes \<Rightarrow> bool" where
  "pin_digits d \<longleftrightarrow> length d = 8 \<and> (\<forall>b\<in>set d. 0x30 \<le> b \<and> b \<le> 0x39)"

lemma digit_range: "(x :: byte) < 10 \<Longrightarrow> 0x30 \<le> 0x30 + x \<and> 0x30 + x \<le> 0x39"
proof -
  assume "x < 10"
  then have "unat x < 10" by (simp add: word_less_nat_alt)
  moreover from this have "unat (0x30 + x) = 48 + unat x" by (subst unat_add_lem [THEN iffD1]) simp_all
  ultimately show ?thesis by (simp add: word_le_nat_alt)
qed

lemma digit_fold: "0x30 \<le> 0x30 + (b :: byte) mod 10 \<and> 0x30 + b mod 10 \<le> 0x39"
  by (rule digit_range) (rule word_mod_less_divisor, simp)

lemma digit_bump:
  assumes "0x30 \<le> (c :: byte)" "c \<le> 0x39"
  shows "0x30 + (c - 0x30 + 1) mod 10 \<noteq> c"
proof -
  define n where "n = unat c - 48"
  have n: "n < 10" "c = word_of_nat (48 + n)"
    using assms unfolding n_def by (simp_all add: word_le_nat_alt)
  from n(1) have "n \<in> {0, 1, 2, 3, 4, 5, 6, 7, 8, 9}" by auto
  then show ?thesis unfolding n(2) by auto
qed

lemma guess_digits:
  assumes "length raw = 8"
  shows "pin_digits (credential_guess_from raw previous)"
proof -
  define g where "g = map (\<lambda>b :: byte. 0x30 + b mod 10) raw"
  have "pin_digits g" using assms digit_fold by (auto simp: g_def pin_digits_def)
  moreover have "pin_digits (g[7 := 0x30 + c mod 10])" if "pin_digits g" for c
    using that digit_fold set_update_subset_insert [of g 7 "0x30 + c mod 10"] unfolding pin_digits_def by auto
  ultimately show ?thesis by (simp add: credential_guess_from_def g_def [symmetric] Let_def)
qed

lemma guess_new: "length raw = 8 \<Longrightarrow> credential_guess_from raw (Some g) \<noteq> g"
proof -
  assume len: "length raw = 8"
  define m where "m = map (\<lambda>b :: byte. 0x30 + b mod 10) raw"
  have "0x30 \<le> m ! 7 \<and> m ! 7 \<le> 0x39" using len digit_fold by (simp add: m_def)
  then have "0x30 + (m ! 7 - 0x30 + 1) mod 10 \<noteq> m ! 7" by (intro digit_bump) simp_all
  moreover have "m[7 := v] ! 7 = v" for v using len by (simp add: m_def)
  ultimately have "m[7 := 0x30 + (m ! 7 - 0x30 + 1) mod 10] \<noteq> m" by metis
  then show ?thesis by (auto simp: credential_guess_from_def m_def [symmetric] Let_def)
qed

definition draws_eight :: "(nat \<Rightarrow> bytes option) \<Rightarrow> bool" where
  "draws_eight entropy \<longleftrightarrow> (\<forall>i raw. entropy i = Some raw \<longrightarrow> length raw = 8)"

text \<open>The commands that try the PINs \<open>ds\<close>, and a link that takes none of them.\<close>

definition tries_pins :: "byte \<Rightarrow> bytes list \<Rightarrow> bytes list \<Rightarrow> bool" where
  "tries_pins pw ds gs \<longleftrightarrow> list_all2 (\<lambda>d c. pin_digits d \<and> pgp_verify pw d = Some c) ds gs"

definition guesses :: "byte \<Rightarrow> bytes list \<Rightarrow> bool" where
  "guesses pw gs \<longleftrightarrow> length gs \<le> 255 \<and> (\<exists>ds. tries_pins pw ds gs \<and> distinct_adj ds)"

lemma guesses_Nil [simp]: "guesses pw []"
  unfolding guesses_def tries_pins_def by (intro conjI exI [of _ "[]"]) simp_all

definition refused :: "link \<Rightarrow> bytes list \<Rightarrow> bytes list \<Rightarrow> bool" where
  "refused lk h gs \<longleftrightarrow> (\<forall>i<length gs. \<forall>d. lk (h @ take (Suc i) gs) \<noteq> Ok (d, PGP_SW_OK))"

lemma refused_Nil [simp]: "refused lk h []"
  by (simp add: refused_def)

lemma refused_Cons: "refused lk h (c # gs) \<longleftrightarrow> (\<forall>d. lk (h @ [c]) \<noteq> Ok (d, PGP_SW_OK)) \<and> refused lk (h @ [c]) gs"
  unfolding refused_def by (auto simp: less_Suc_eq_0_disj)

lemma refused_append: "refused lk h (a @ b) \<longleftrightarrow> refused lk h a \<and> refused lk (h @ a) b"
  by (induction a arbitrary: h) (simp_all add: refused_Cons)

lemma verify_built: "pin_digits d \<Longrightarrow> \<exists>c. pgp_verify pw d = Some c"
  by (simp add: pgp_verify_def pin_digits_def Apdu.build_apdu_def try_build_apdu_def)


subsection \<open>Blocking one PIN\<close>

lemma send_verify:
  assumes "pgp_verify pw d = Some c"
  shows "op_try (send_built lk (pgp_verify pw d)) h = (Ok (lk (h @ [c])), h @ [c])"
  by (simp add: assms op_try_def send_built_def op_bind_def op_return_def transmit_full_def split: result.splits)

lemma block_loop_sends:
  assumes "block_loop lk pw entropy i n previous h = (r, h')"
    and "draws_eight entropy"
  shows "\<exists>ds gs. h' = h @ gs \<and> length gs \<le> n \<and> tries_pins pw ds gs
    \<and> distinct_adj (case previous of None \<Rightarrow> ds | Some p \<Rightarrow> p # ds)
    \<and> (if refused lk h gs then r = Ok () \<or> r = Err (Fault HostRngFailed)
       else r = Err (Fault OpenPgpPinGuessAccepted))"
  using assms(1)
proof (induction n arbitrary: i previous h)
  case 0
  then show ?case by (intro exI [of _ "[]"]) (simp add: op_return_def tries_pins_def split: option.splits)
next
  case (Suc n)
  show ?case
  proof (cases "entropy i")
    case None
    with Suc.prems show ?thesis
      by (intro exI [of _ "[]"]) (simp add: op_fail_def tries_pins_def split: option.splits)
  next
    case (Some raw)
    define d where "d = credential_guess_from raw previous"
    have raw: "length raw = 8" using Some assms(2) by (simp add: draws_eight_def)
    then have dig: "pin_digits d" by (simp add: d_def guess_digits)
    have new: "previous = Some p \<Longrightarrow> p \<noteq> d" for p using guess_new [OF raw, of p] unfolding d_def by metis
    obtain c where c: "pgp_verify pw d = Some c" using verify_built [OF dig] by blast
    have loop: "(case lk (h @ [c]) of
          Ok (a, sw) \<Rightarrow>
            if sw = PGP_SW_OK then op_fail OpenPgpPinGuessAccepted
            else if sw = 0x6983 then op_return ()
            else block_loop lk pw entropy (i + 1) n (Some d)
        | Err e \<Rightarrow> op_return ()) (h @ [c]) = (r, h')"
      using Suc.prems Some
      by (simp add: d_def [symmetric] Let_def op_bind_def [of "op_try _"] send_verify [OF c])
    have one: "tries_pins pw [d] [c]" using dig c by (simp add: tries_pins_def)
    have adj: "distinct_adj (case previous of None \<Rightarrow> [d] | Some p \<Rightarrow> [p, d])"
      using new by (auto split: option.splits)
    consider (ok) a where "lk (h @ [c]) = Ok (a, PGP_SW_OK)" | (stop) "\<forall>a. lk (h @ [c]) \<noteq> Ok (a, PGP_SW_OK)"
        "r = Ok ()" "h' = h @ [c]"
      | (go) "\<forall>a. lk (h @ [c]) \<noteq> Ok (a, PGP_SW_OK)"
        "block_loop lk pw entropy (i + 1) n (Some d) (h @ [c]) = (r, h')"
      using loop by (cases "lk (h @ [c])") (auto simp: op_return_def op_fail_def split: if_splits)
    then show ?thesis
    proof cases
      case ok
      with loop one adj show ?thesis
        by (intro exI [of _ "[d]"] exI [of _ "[c]"]) (auto simp: op_fail_def refused_Cons split: option.splits)
    next
      case stop
      with one adj show ?thesis
        by (intro exI [of _ "[d]"] exI [of _ "[c]"]) (auto simp: refused_Cons split: option.splits)
    next
      case go
      from Suc.IH [OF go(2)] obtain ds gs where
        *: "h' = h @ c # gs" "length gs \<le> n" "tries_pins pw ds gs" "distinct_adj (d # ds)"
        "if refused lk (h @ [c]) gs then r = Ok () \<or> r = Err (Fault HostRngFailed)
         else r = Err (Fault OpenPgpPinGuessAccepted)" by auto
      have "tries_pins pw (d # ds) (c # gs)" using *(3) one by (simp add: tries_pins_def)
      with * go(1) new show ?thesis
        by (intro exI [of _ "d # ds"] exI [of _ "c # gs"]) (auto simp: refused_Cons split: option.splits)
    qed
  qed
qed


lemma block_pin_sends:
  assumes "block_pin lk pw entropy n h = (r, h')" "draws_eight entropy"
  shows "\<exists>gs. h' = h @ gs \<and> guesses pw gs
    \<and> (if refused lk h gs then r = Ok () \<or> r = Err (Fault HostRngFailed)
       else r = Err (Fault OpenPgpPinGuessAccepted))"
proof -
  have "block_loop lk pw entropy 0 (min 255 (unat n + 1)) None h = (r, h')" using assms(1) by (simp add: block_pin_def)
  from block_loop_sends [OF this assms(2)] obtain ds gs where
    "h' = h @ gs" "length gs \<le> min 255 (unat n + 1)" "tries_pins pw ds gs" "distinct_adj ds"
    "if refused lk h gs then r = Ok () \<or> r = Err (Fault HostRngFailed) else r = Err (Fault OpenPgpPinGuessAccepted)"
    by auto
  then show ?thesis by (intro exI [of _ gs]) (auto simp: guesses_def)
qed

text \<open>The commands that erase the card.\<close>

lemma erase_sends:
  assumes "op_bind (transmit_full lk terminate_df) (\<lambda>(_, sw).
       op_bind (ok_or_apdu a sw) (\<lambda>_.
       op_bind (transmit_full lk activate_file) (\<lambda>(_, sw). ok_or_apdu b sw))) h = (r, h')"
  shows "h' = h @ [terminate_df] \<and> r \<noteq> Ok ()
    \<or> h' = h @ [terminate_df, activate_file] \<and> (\<exists>d. lk (h @ [terminate_df]) = Ok (d, PGP_SW_OK))
       \<and> (r = Ok () \<longleftrightarrow> (\<exists>d. lk h' = Ok (d, PGP_SW_OK)))"
  using assms
  by (auto simp: op_bind_def transmit_full_def ok_or_apdu_def op_return_def op_fail_def split: result.splits if_splits)

lemma reset_run:
  assumes "session_factory_reset lk entropy1 entropy3 h = (r, h')"
  shows "\<exists>n1 n3. op_bind (block_pin lk PW1_OTHER entropy1 n1) (\<lambda>_.
       op_bind (block_pin lk PW3_ADMIN entropy3 n3) (\<lambda>_.
       op_bind (transmit_full lk terminate_df) (\<lambda>(_, sw).
       op_bind (ok_or_apdu (ascii ''openpgp terminate df'') sw) (\<lambda>_.
       op_bind (transmit_full lk activate_file) (\<lambda>(_, sw).
         ok_or_apdu (ascii ''openpgp activate file'') sw))))) (h @ [get_pw_status]) = (r, h')"
proof -
  have "op_try (transmit_full lk get_pw_status) h = (Ok (lk (h @ [get_pw_status])), h @ [get_pw_status])"
    by (simp add: op_try_def transmit_full_def split: result.splits)
  with assms show ?thesis
    unfolding session_factory_reset_def op_bind_def [of "op_try _"] Let_def
    by (simp split: prod.splits) blast
qed

text \<open>C5: a factory reset reads the counters, then tries at most 255 PINs of eight digits on the user
  PIN and at most 255 on the admin PIN, never the same one twice running, and terminates and activates the
  card only in this order, at the end, and only when the card took none of the PINs; a PIN that the card
  takes stops the reset.  It succeeds exactly when the card took both commands.\<close>

theorem factory_reset_order:
  assumes "session_factory_reset lk entropy1 entropy3 h = (r, h')"
    and "draws_eight entropy1" "draws_eight entropy3"
  shows "\<exists>g1 g3 erase. h' = h @ [get_pw_status] @ g1 @ g3 @ erase
    \<and> guesses PW1_OTHER g1 \<and> guesses PW3_ADMIN g3
    \<and> (if refused lk (h @ [get_pw_status]) (g1 @ g3)
       then erase = [] \<and> r = Err (Fault HostRngFailed)
         \<or> erase = [terminate_df] \<and> r \<noteq> Ok ()
         \<or> erase = [terminate_df, activate_file] \<and> (\<exists>d. lk (butlast h') = Ok (d, PGP_SW_OK))
             \<and> (r = Ok () \<longleftrightarrow> (\<exists>d. lk h' = Ok (d, PGP_SW_OK)))
       else erase = [] \<and> r = Err (Fault OpenPgpPinGuessAccepted))"
proof -
  define s where "s = h @ [get_pw_status]"
  obtain n1 n3 where run: "op_bind (block_pin lk PW1_OTHER entropy1 n1) (\<lambda>_.
       op_bind (block_pin lk PW3_ADMIN entropy3 n3) (\<lambda>_.
       op_bind (transmit_full lk terminate_df) (\<lambda>(_, sw).
       op_bind (ok_or_apdu (ascii ''openpgp terminate df'') sw) (\<lambda>_.
       op_bind (transmit_full lk activate_file) (\<lambda>(_, sw).
         ok_or_apdu (ascii ''openpgp activate file'') sw))))) s = (r, h')"
    using assms(1) reset_run unfolding s_def by blast
  obtain r1 s1 where b1: "block_pin lk PW1_OTHER entropy1 n1 s = (r1, s1)" by fastforce
  from block_pin_sends [OF b1 assms(2)] obtain g1 where
    g1: "s1 = s @ g1" "guesses PW1_OTHER g1"
    "if refused lk s g1 then r1 = Ok () \<or> r1 = Err (Fault HostRngFailed) else r1 = Err (Fault OpenPgpPinGuessAccepted)"
    by blast
  show ?thesis
  proof (cases r1)
    case (Err e)
    with run b1 have "r = Err e" "h' = s1" by (auto simp: op_bind_def)
    with Err g1 show ?thesis
      by (intro exI [of _ g1] exI [of _ "[]"] exI [of _ "[]"]) (auto simp: s_def split: if_splits)
  next
    case (Ok u)
    obtain r3 s3 where b3: "block_pin lk PW3_ADMIN entropy3 n3 s1 = (r3, s3)" by fastforce
    from block_pin_sends [OF b3 assms(3)] obtain g3 where
      g3: "s3 = s1 @ g3" "guesses PW3_ADMIN g3"
      "if refused lk s1 g3 then r3 = Ok () \<or> r3 = Err (Fault HostRngFailed) else r3 = Err (Fault OpenPgpPinGuessAccepted)"
      by blast
    have both: "refused lk s (g1 @ g3) \<longleftrightarrow> refused lk s1 g3"
      using Ok g1(3) by (simp add: refused_append g1(1) split: if_splits)
    show ?thesis
    proof (cases r3)
      case (Err e)
      with run b1 b3 Ok have "r = Err e" "h' = s3" by (auto simp: op_bind_def)
      with Err g1 g3 both show ?thesis
        by (intro exI [of _ g1] exI [of _ g3] exI [of _ "[]"])
           (auto simp: s_def split: if_splits)
    next
      case Ok3: (Ok u)
      with g3(3) have ref: "refused lk s (g1 @ g3)" by (simp add: both split: if_splits)
      from run b1 b3 Ok Ok3 have
        "op_bind (transmit_full lk terminate_df) (\<lambda>(_, sw).
         op_bind (ok_or_apdu (ascii ''openpgp terminate df'') sw) (\<lambda>_.
         op_bind (transmit_full lk activate_file) (\<lambda>(_, sw).
           ok_or_apdu (ascii ''openpgp activate file'') sw))) s3 = (r, h')"
        by (simp add: op_bind_def [of "block_pin _ _ _ _"])
      from erase_sends [OF this] show ?thesis
      proof
        assume "h' = s3 @ [terminate_df] \<and> r \<noteq> Ok ()"
        with ref g1 g3 show ?thesis
          by (intro exI [of _ g1] exI [of _ g3] exI [of _ "[terminate_df]"])
             (simp add: s_def)
      next
        assume "h' = s3 @ [terminate_df, activate_file] \<and> (\<exists>d. lk (s3 @ [terminate_df]) = Ok (d, PGP_SW_OK))
          \<and> (r = Ok () \<longleftrightarrow> (\<exists>d. lk h' = Ok (d, PGP_SW_OK)))"
        with ref g1 g3 show ?thesis
          by (intro exI [of _ g1] exI [of _ g3] exI [of _ "[terminate_df, activate_file]"])
             (simp add: s_def butlast_append)
      qed
    qed
  qed
qed


text \<open>A card whose PINs are blocked already.\<close>

definition blocked_link :: link where
  "blocked_link h = Ok ([], if last h ! 1 = 0x20 then 0x6983 else 0x9000)"

lemma blocked_pin:
  "\<exists>c. block_pin blocked_link pw (\<lambda>_. Some (replicate 8 0)) 15 h = (Ok (), h @ [c])"
proof -
  define raw where "raw = replicate 8 (0 :: byte)"
  have dig: "pin_digits (credential_guess_from raw None)" by (intro guess_digits) (simp add: raw_def)
  obtain c where c: "pgp_verify pw (credential_guess_from raw None) = Some c"
    using verify_built [OF dig] by blast
  then have "c ! 1 = 0x20"
    by (auto simp: pgp_verify_def Apdu.build_apdu_def try_build_apdu_def split: if_splits)
  then have "blocked_link (h @ [c]) = Ok ([], 0x6983)" for h by (simp add: blocked_link_def)
  then have "block_loop blocked_link pw (\<lambda>_. Some raw) 0 (Suc n) None h = (Ok (), h @ [c])" for n
    using c send_verify [OF c, of blocked_link h] by (simp add: Let_def op_bind_def [of "op_try _"] op_return_def PGP_SW_OK_def)
  moreover have "min 255 (unat (15 :: byte) + 1) = Suc 15" by simp
  ultimately show ?thesis unfolding block_pin_def raw_def by metis
qed

theorem factory_reset_order_witness:
  "\<exists>h'. session_factory_reset blocked_link (\<lambda>_. Some (replicate 8 0)) (\<lambda>_. Some (replicate 8 0)) [] = (Ok (), h')
    \<and> (\<exists>g. h' = get_pw_status # g @ [terminate_df, activate_file] \<and> refused blocked_link [get_pw_status] g)"
proof -
  let ?e = "\<lambda>_ :: nat. Some (replicate 8 (0 :: byte))"
  obtain c1 where 1: "block_pin blocked_link PW1_OTHER ?e 15 [get_pw_status] = (Ok (), [get_pw_status, c1])"
    using blocked_pin [of _ "[get_pw_status]"] by auto
  obtain c3 where 3: "block_pin blocked_link PW3_ADMIN ?e 15 [get_pw_status, c1] = (Ok (), [get_pw_status, c1, c3])"
    using blocked_pin [of _ "[get_pw_status, c1]"] by auto
  have l: "blocked_link (h @ [c]) = Ok ([], 0x9000)" if "c \<in> {get_pw_status, terminate_df, activate_file}" for h c
    using that by (auto simp: blocked_link_def get_pw_status_def terminate_df_def activate_file_def pgp_get_data_def
        build_apdu_get_def)
  have run: "session_factory_reset blocked_link ?e ?e []
      = (Ok (), [get_pw_status, c1, c3, terminate_df, activate_file])"
    using 1 3 l [of get_pw_status "[]"] l [of terminate_df "[get_pw_status, c1, c3]"]
      l [of activate_file "[get_pw_status, c1, c3, terminate_df]"]
    by (simp add: session_factory_reset_def op_bind_def op_try_def transmit_full_def PGP_SW_OK_def ok_or_apdu_def
        op_return_def parse_pw_status_def)
  have d: "draws_eight ?e" by (simp add: draws_eight_def)
  from factory_reset_order [OF run d d] run show ?thesis by (auto split: if_splits)
qed

end
