(* ===== verification/Spec2Isabelle.thy ===== *)
theory Spec2Isabelle
  imports Codec Cbor Ctaphid Ctap_Cmd Client_Pin Large_Blobs Ssh_Cert Device_Label Civil Expiry
    Sha Sm4 Apdu Molto2 Oath_Crypto Oath Otp_Frames Otp_Entry Otp_Applet Otp_Session Ber
    Ctap_Auth Cred_Mgmt Ctap_Config Bio_Enroll Ctap_Manage
    Import_Entry Import_Migration Import_Export Import_Plan Import_Run Import_Store Import_Flow
    Pgp_Tlv Pgp_Algo Pgp_Card Pgp_Key Pgp_Data Applet_Io Pgp_Session Pgp_Import Pgp_Import_Facts Pgp_Reset
begin

text \<open>
  \<^bold>\<open>A verification library for keyroost.\<close>

  keyroost drives hardware security keys: FIDO2 keys over CTAPHID, smart card applets (OATH, OpenPGP, PIV)
  over PC/SC, and the Token2 family over its own protocols.  The Rust workspace keeps the byte layer apart from
  the input and output: a protocol crate builds requests and decodes responses, a transport crate exchanges
  them, and the two front ends (\<^verbatim>\<open>keyroost\<close>, \<^verbatim>\<open>keyroostctl\<close>) call both.  This library
  models the byte layer and the receive loops, where a wrong byte, a wrong length or a hostile device decides
  over secrets.

  \<^bold>\<open>Theories and the code they model\<close> (paths under \<^verbatim>\<open>src/crates\<close>)

  \<^item> \<open>Prelude\<close>: results, bytes, big-endian numbers, bit fields, chunks, and the locale
    \<open>prefix_codec\<close> of self-delimiting encodings.
  \<^item> \<open>Rust_Str\<close>: UTF-8 as \<^verbatim>\<open>core::str\<close> treats it, with validity, lossy decoding, and characters.
    A Rust \<^verbatim>\<open>String\<close> is the list of its bytes throughout.
  \<^item> \<open>Codec\<close>: \<^verbatim>\<open>keyroost-proto/src/codec.rs\<close>, the hex, base32 and base64 codecs.  The locale
    \<open>digit_decoder\<close> states the contract of a bit-accumulating decoder once; base32 and base64 interpret
    it.
  \<^item> \<open>Cbor\<close>: \<^verbatim>\<open>keyroost-ctap/src/cbor.rs\<close>, the CBOR subset of CTAP2, its encoder, its
    decoder with the nesting limit of 16, the measure \<^verbatim>\<open>item_len\<close> and the splitters.  It interprets
    \<open>prefix_codec\<close>.
  \<^item> \<open>Ctaphid\<close>: \<^verbatim>\<open>keyroost-ctap/src/hid.rs\<close>, the CTAPHID channel: framing, the receive loops
    with deadline, cancel and keepalive, the retries on a busy channel, channel allocation, and the redaction of
    the trace, which decodes the request with \<open>Cbor\<close>.
  \<^item> \<open>Ctap_Cmd\<close> and \<open>Client_Pin\<close>: \<^verbatim>\<open>keyroost-ctap/src/transport.rs\<close>, \<^verbatim>\<open>cmd.rs\<close>,
    \<^verbatim>\<open>pin.rs\<close> and \<^verbatim>\<open>client_pin.rs\<close>.  A transport is a record of operations on any device state;
    the locale \<open>timed_transport\<close> states what a timeout setter owes its caller.  The PIN commands are state
    passing over a transport, with the third-party primitives collected in the record \<open>ctap_crypto\<close>.
  \<^item> \<open>Large_Blobs\<close>, \<open>Device_Label\<close>: \<^verbatim>\<open>keyroost-ctap/src/large_blobs.rs\<close> and
    \<^verbatim>\<open>device_label.rs\<close>, the array a key stores for others, its edits and its transfer in fragments, and the
    name of a key kept in it.
  \<^item> \<open>Ctap_Auth\<close>, \<open>Cred_Mgmt\<close>, \<open>Ctap_Config\<close>, \<open>Bio_Enroll\<close>: \<^verbatim>\<open>keyroost-ctap/src/cred_mgmt.rs\<close>,
    \<^verbatim>\<open>config.rs\<close> and \<^verbatim>\<open>bio_enroll.rs\<close>, the commands under a PIN token; the locale \<open>authenticated\<close>
    states what authenticating a sub-command with its parameters gives, each command interprets it, and
    \<open>Ctap_Manage\<close> compares them.
  \<^item> \<open>Ssh_Cert\<close>: \<^verbatim>\<open>keyroost-ctap/src/ssh_cert.rs\<close>, the OpenSSH certificates found in that array.
  \<^item> \<open>Civil\<close>, \<open>Decimal\<close>, \<open>Expiry\<close>: the calendar conversions of \<^verbatim>\<open>keyroost-piv/src/lib.rs\<close>
    and \<^verbatim>\<open>keyroost-pgpkey/src/cert.rs\<close>, decimal numbers as \<^verbatim>\<open>format!\<close> prints them, and the
    expiration dates built on both, down to the date field of \<^verbatim>\<open>keyroost/src/ui/date.rs\<close>.
  \<^item> \<open>Sha\<close>: \<^verbatim>\<open>keyroost-proto/src/sha1.rs\<close>, \<^verbatim>\<open>sha256.rs\<close>, \<^verbatim>\<open>sha512.rs\<close>.  The locale
    \<open>block_hash\<close> proves streaming equal to the padded one-shot digest; the three compression
    functions interpret it.
  \<^item> \<open>Sm4\<close>: \<^verbatim>\<open>keyroost-proto/src/sm4.rs\<close>, the SM4 cipher; the locale \<open>block_cipher\<close>
    gives the modes, interpreted for every key.
  \<^item> \<open>Apdu\<close>: \<^verbatim>\<open>keyroost-proto/src/apdu.rs\<close>, short APDUs, paddings and the Molto2 MAC (over
    \<open>Sm4\<close>).
  \<^item> \<open>Molto2\<close>: \<^verbatim>\<open>keyroost-proto/src/commands.rs\<close> and \<^verbatim>\<open>lib.rs\<close>, the commands
    and responses of the Molto2 token (over \<open>Apdu\<close> and \<open>Sha\<close>) and the product table.
  \<^item> \<open>Oath_Crypto\<close> and \<open>Oath\<close>: \<^verbatim>\<open>keyroost-oath/src/crypto.rs\<close> and
    \<^verbatim>\<open>lib.rs\<close>, HMAC and PBKDF2 over \<open>Sha\<close>, and the OATH applet: builders, the TLV parser, the
    password handshake and the listings.
  \<^item> \<open>Otp_Frames\<close>: \<^verbatim>\<open>keyroost-token2otp/src/hidframe.rs\<close>, the HID framing of the Token2 OTP applet.
  \<^item> \<open>Otp_Entry\<close>, \<open>Otp_Applet\<close> and \<open>Otp_Session\<close>: \<^verbatim>\<open>entry.rs\<close>, \<^verbatim>\<open>lib.rs\<close>
    and \<^verbatim>\<open>crypto.rs\<close> of the same crate, the entries the applet stores and the pages it lists them in, its
    commands, status words and seeds (compared with \<open>Codec\<close>), and the sealing of seeds and the PIN session over
    the record \<open>otp_crypto\<close> of third-party primitives.
  \<^item> \<open>Import_Entry\<close>, \<open>Import_Migration\<close> and \<open>Import_Export\<close>: \<^verbatim>\<open>keyroost-import/src/entry.rs\<close>,
    \<^verbatim>\<open>otpauth.rs\<close>, \<^verbatim>\<open>migration.rs\<close> and \<^verbatim>\<open>bulk.rs\<close>, the entries of an
    authenticator export and their readers (URIs, lists, the protobuf of a migration export), each in a narrow form for a
    Molto2 and a wide one; \<open>Import_Export\<close> writes what they read.
  \<^item> \<open>Import_Plan\<close> and \<open>Import_Run\<close>: \<^verbatim>\<open>plan.rs\<close> and \<^verbatim>\<open>run.rs\<close> of the same crate, what
    becomes of each entry on one destination (over the names of \<open>Oath\<close>), and the write loop over the trait
    \<^verbatim>\<open>CodeStore\<close>, a record of functions on any state.
  \<^item> \<open>Import_Store\<close> and \<open>Import_Flow\<close>: \<^verbatim>\<open>keyroost-transport/src/import.rs\<close>, the stores of an
    OATH applet, a Token2 key and a Molto2 (over \<open>Oath\<close>, \<open>Otp_Entry\<close>, \<open>Otp_Applet\<close> and \<open>Molto2\<close>),
    and the way of a code from the text of a file to the command.
  \<^item> \<open>Ber\<close>: \<^verbatim>\<open>keyroost-p12/src/ber.rs\<close>, the BER reader under the PKCS#12 import.
  \<^item> \<open>Pgp_Tlv\<close>, \<open>Pgp_Algo\<close>, \<open>Pgp_Card\<close>, \<open>Pgp_Key\<close> and \<open>Pgp_Data\<close>:
    \<^verbatim>\<open>keyroost-openpgp/src/lib.rs\<close>, the objects of an OpenPGP card, the algorithms of its slots, its commands, its
    keys (fingerprints over \<open>Sha\<close>, the import object as the card splits it) and the data it reports.
  \<^item> \<open>Applet_Io\<close>: the exchange that the applet sessions of \<^verbatim>\<open>keyroost-transport/src/lib.rs\<close> share, and the retry of
    \<^verbatim>\<open>recover.rs\<close>.  A card is a function from all it was sent to its next answer.
  \<^item> \<open>Pgp_Session\<close> and \<open>Pgp_Import\<close>: \<^verbatim>\<open>keyroost-transport/src/openpgp.rs\<close>, the operations of a
    session, as state passing over the commands sent.  \<open>Pgp_Import_Facts\<close> follows what an import does on any card,
    \<open>Pgp_Reset\<close> what a factory reset does.

  \<^bold>\<open>Conventions\<close>

  A \<^verbatim>\<open>Result\<close> is \<open>result\<close> (\<open>Ok\<close>, \<open>Err\<close>), with the error types as datatypes; texts
  inside I/O errors are left out.  A panic (a failed assertion, an index out of range) is \<open>None\<close>.
  Integers whose width matters are words; lengths and indices are naturals, with the checks for
  \<^verbatim>\<open>usize\<close> overflow written out where the source has them (a 64-bit host).  A mutable object is a
  record passed along.  A loop is a recursion, with its termination proved; the two kinds of loops that wait
  for a device take what they observe as an argument: \<open>Ctaphid\<close> a list of polls (clock, cancel
  flag, bytes read), where \<open>None\<close> says that the list ended first, and it is shown that a
  poll at the deadline always ends the wait; \<open>Otp_Frames\<close> a list of reports.  The walk over an
  indefinite BER element is a partial function, proved total.

  \<^bold>\<open>What is shown\<close>

  \<^item> Composition: the edits of a large-blob array refine list operations, from the parser through the edit and the
    writer back to the parser (C2); writing to a key and reading it back (C10);
    planning and applying a name, where a change made in between is never overwritten (C3); setting a PIN, from the key agreement to what the key decrypts (C9), and the same for every
    sealed request of the OTP applet (C17); an
    exported certificate that reads back (C7); an import, from the text of a file through the plan (C21) and the
    write loop to commands the destination takes (C18) and to what the key holds afterwards
    (C19); a set of OpenPGP keys, from the checks before the first write to the identity the card holds
    (C6).
  \<^item> Round trips: CBOR (C32), CTAPHID messages (C4), OTP frames
    (C39) and pages (C31), BER elements (C40), otpauth URIs
    (C26), migration exports (C23) and the names of imported codes
    (C25), the attributes of OpenPGP algorithms
    (C15) and the data a card reports (C16).
  \<^item> Exact results, error cases included: commands
    (C37, C38), the object of a key import as a card splits it (C13).
  \<^item> Types: what a reader gives is within the bounds that the plan and the stores rest on (C24).
  \<^item> Safety against a hostile device or file: bounds of what is received (C39, C14), PIN commands that fail closed (C8), no
    input on which a parser diverges (C40), requests of the OTP applet that cannot be mistaken for more
    destructive ones (C30), commands of a FIDO2 key that never share an authentication (C27),
    enrolments and listings a key cannot drag on (C29, C28), an import that removes a code only
    to replace it (C20) and spends no second attempt on a refused PIN (C22), a factory reset that erases only after every guess was
    refused (C5).
  \<^item> Errors that tell the truth: what a failed import of OpenPGP keys says was done to the card (C1).
  \<^item> Termination, liveness and bounds of retries: C11, C33, C14.
  \<^item> Equivalence with a reference: incremental hashing with the padded digest of the standards (C36), the
    closed-form calendar with counting days (C34), calendar periods and texts (C35), the chained
    form of a key import with the extended one (C12).

  Lemmas beside these: CBOR encodings are free of prefixes and \<^verbatim>\<open>split_array\<close> re-emits what it read
  (\<open>Cbor\<close>), hexadecimal, base32 and base64 texts round-trip (\<open>Codec\<close>), the cases of a resent command
  (\<open>Apdu\<close>), the digits of a code, the password handshake and CALCULATE ALL (\<open>Oath\<close>), the retries of a busy channel, bounded
  responses and the redaction of the trace (\<open>Ctaphid\<close>), the minimum PIN length as a key decodes it (\<open>Ctap_Config\<close>),
  an unambiguous MAC input (\<open>Apdu\<close>), the base32 decoders of two crates compared (\<open>Otp_Applet\<close>), the status words of the OTP applet (\<open>Otp_Applet\<close>), SM4 and its modes undo each other (\<open>Sm4\<close>), \<^verbatim>\<open>item_len\<close> measures what the decoder
  reads (\<open>Cbor\<close>), the nonce of channel allocation (\<open>Ctaphid\<close>), the wire layout of certificates (\<open>Ssh_Cert\<close>),
  a guarded name change (\<open>Device_Label\<close>), dates typed and shown (\<open>Expiry\<close>), the narrow readers of an import compared with the
  wide ones (\<open>Import_Migration\<close>), BER objects inside a buffer (\<open>Pgp_Tlv\<close>), PBKDF2 and the harmlessness of key padding
  (\<open>Oath_Crypto\<close>), the product table and the responses (\<open>Molto2\<close>).
  Five lemmas show where the code does not do what it means to: two codes with one index, as the accounts of one migration
  line have, are stored with the seed of the first (\<open>shared_index_first_seed\<close> in \<open>Import_Run\<close>,
  \<open>migration_line_index\<close> in \<open>Import_Flow\<close>); a code with a touch that the planner adds can be too long for its
  command (\<open>touch_too_long\<close> in \<open>Import_Store\<close>); and a name the planner lets through for a Nitrokey 3 is read
  with a period it never had (\<open>nitrokey_name_misread\<close> in \<open>Import_Plan\<close>); a card lost while it answers the change of a
  slot's algorithm leaves an error that says nothing was written (\<open>lost_attribute_write\<close> in
  \<open>Pgp_Import_Facts\<close>); and a long key import that a reader answers with a corrected length grows at each correction
  (\<open>extended_reissue_grows\<close> in \<open>Applet_Io\<close>).

  \<^bold>\<open>Assumptions on code outside the repository\<close>

  The predicates \<open>pin_primitives\<close>, \<open>label_primitives\<close> and \<open>otp_primitives\<close> say what the cryptographic crates and the DEFLATE decoder
  do (lengths, decryption inverts encryption, a stored block unpacks); \<open>ecdh_agrees\<close> and \<open>otp_ecdh_agrees\<close> say that both sides of a
  key agreement compute one secret; \<open>key_gets\<close> and \<open>key_sets\<close> say how a key follows the fragment protocol of
  CTAP 2.1; \<open>key_laws\<close> says that a key keeps what it stores and changes nothing when it refuses.  Each is satisfied by a concrete instance (\<open>demo_crypto\<close>,
  \<open>demo_blob_key\<close>, \<open>demo_otp_crypto\<close>, \<open>refusing_store\<close>) in the witnesses.

  \<^bold>\<open>Not modelled\<close>

  System calls and PC/SC, the widgets and argument handling of the front ends, third-party cryptography (elliptic
  curves, AES, RSA), JSON and files.  The scrubbing of secrets has no functional effect and is left out.
  Of the import crate, the JSON readers, the encrypted vaults and the classification of files are left out.
  The PIV protocol and its sessions, the packets of \<^verbatim>\<open>keyroost-pgpkey\<close> and the contents of PKCS#12 files
  are not modelled: their X.509, packet and key layers rest on third-party crates for most of what they decide.  The programmable
  tokens, the keyring files and the naming of devices are left out too: they are tables, files and texts around the parts above.
\<close>

end
